(* ===== verification/BF_Prelude.thy ===== *)
theory BF_Prelude
  imports Complex_Main "HOL-Library.AList" "HOL-Library.Sublist"
begin

text \<open>
  Shared vocabulary of the development: JavaScript numbers, strings, insertion-ordered
  maps, JSON values and result types, with the generic lemmas the component theories
  use.  Nothing in this theory is specific to one source file.
\<close>

named_theorems js_map_simps \<open>lookup and well-formedness of insertion-ordered maps\<close>
named_theorems js_string_simps \<open>evaluation of the string helpers\<close>

section \<open>Numbers\<close>

text \<open>
  Every finite JavaScript number is a rational, so numbers that the code compares or
  tests (timestamps, configuration values, JSON numbers) have type \<^typ>\<open>rat\<close>.
  \<^verbatim>\<open>Number.isSafeInteger\<close> and \<^verbatim>\<open>Number.isInteger\<close> are the predicates below.
\<close>

type_synonym number = rat

definition is_integer :: "number \<Rightarrow> bool" where
  "is_integer x \<longleftrightarrow> of_int \<lfloor>x\<rfloor> = x"

definition is_safe_integer :: "number \<Rightarrow> bool" where
  "is_safe_integer x \<longleftrightarrow> is_integer x \<and> \<bar>x\<bar> \<le> 9007199254740991"

lemma is_integer_of_int [simp]: "is_integer (of_int i)"
  by (simp add: is_integer_def)

lemma is_integer_of_nat [simp]: "is_integer (of_nat i)"
  using is_integer_of_int [of "int i"] by simp

lemma is_integer_obtain:
  assumes "is_integer x"
  obtains i where "x = of_int i"
  using assms by (metis is_integer_def)

section \<open>Results\<close>

text \<open>A call that may throw returns \<open>Inl\<close> of the error or \<open>Inr\<close> of its value.\<close>

type_synonym ('e, 'a) result = "'e + 'a"

definition bind_result :: "('e, 'a) result \<Rightarrow> ('a \<Rightarrow> ('e, 'b) result) \<Rightarrow> ('e, 'b) result" where
  "bind_result r f = (case r of Inl e \<Rightarrow> Inl e | Inr a \<Rightarrow> f a)"

lemma bind_result_Inr [simp]: "bind_result (Inr a) f = f a"
  by (simp add: bind_result_def)

lemma bind_result_Inl [simp]: "bind_result (Inl e) f = Inl e"
  by (simp add: bind_result_def)

lemma bind_result_eq_Inr:
  "bind_result r f = Inr b \<longleftrightarrow> (\<exists>a. r = Inr a \<and> f a = Inr b)"
  by (cases r) auto

section \<open>Insertion-ordered maps\<close>

text \<open>
  A JavaScript \<^verbatim>\<open>Map\<close> is an association list with distinct keys in insertion order.
  \<open>AList.update\<close> replaces the value of a present key in place and appends a new key,
  as \<^verbatim>\<open>Map.set\<close> does; \<open>AList.delete\<close> is \<^verbatim>\<open>Map.delete\<close>; \<open>map_of\<close> is \<^verbatim>\<open>Map.get\<close>.
\<close>

type_synonym ('k, 'v) jsmap = "('k \<times> 'v) list"

abbreviation wf_map :: "('k, 'v) jsmap \<Rightarrow> bool" where
  "wf_map m \<equiv> distinct (map fst m)"

abbreviation map_has :: "('k, 'v) jsmap \<Rightarrow> 'k \<Rightarrow> bool" where
  "map_has m k \<equiv> map_of m k \<noteq> None"

lemma get_set [js_map_simps]:
  "map_of (AList.update k v m) x = (if x = k then Some v else map_of m x)"
  by (simp add: update_conv)

lemma get_delete [js_map_simps]:
  "map_of (AList.delete k m) x = (if x = k then None else map_of m x)"
  by (simp add: delete_conv)

lemma wf_set [js_map_simps, intro]: "wf_map m \<Longrightarrow> wf_map (AList.update k v m)"
  by (rule distinct_update)

lemma wf_delete [js_map_simps, intro]: "wf_map m \<Longrightarrow> wf_map (AList.delete k m)"
  by (rule distinct_delete)

lemma set_absent: "map_of m k = None \<Longrightarrow> AList.update k v m = m @ [(k, v)]"
  by (induction m) (auto split: if_splits)

lemma size_set_present:
  assumes "map_of m k = Some w"
  shows "length (AList.update k v m) = length m"
  using assms by (induction m) auto

lemma size_set_absent:
  assumes "map_of m k = None"
  shows "length (AList.update k v m) = Suc (length m)"
  using assms by (induction m) (auto split: if_splits)

lemma size_delete_le: "length (AList.delete k m) \<le> length m"
  by (simp add: AList.delete_eq)

lemma set_update_subset: "set (AList.update k v m) \<subseteq> insert (k, v) (set m)"
  by (induction m) auto

lemma set_delete_subset: "set (AList.delete k m) \<subseteq> set m"
  by (simp add: AList.delete_eq)

section \<open>Strings\<close>

text \<open>Characters are code units below 256; the helpers agree with the JavaScript ones there.\<close>

definition is_ws :: "char \<Rightarrow> bool" where
  "is_ws c \<longleftrightarrow> of_char c \<in> {9, 10, 11, 12, 13, 32, 160 :: nat}"

definition js_trim :: "string \<Rightarrow> string" where
  "js_trim s = rev (dropWhile is_ws (rev (dropWhile is_ws s)))"

fun split_on :: "char \<Rightarrow> string \<Rightarrow> string list" where
  "split_on c [] = [[]]"
| "split_on c (x # xs) =
     (if x = c then [] # split_on c xs
      else (case split_on c xs of [] \<Rightarrow> [[x]] | p # ps \<Rightarrow> (x # p) # ps))"

fun join_with :: "string \<Rightarrow> string list \<Rightarrow> string" where
  "join_with d [] = []"
| "join_with d [s] = s"
| "join_with d (s # t # ss) = s @ d @ join_with d (t # ss)"

definition is_digit :: "char \<Rightarrow> bool" where
  "is_digit c \<longleftrightarrow> (48::nat) \<le> of_char c \<and> of_char c \<le> (57::nat)"

definition is_upper :: "char \<Rightarrow> bool" where
  "is_upper c \<longleftrightarrow> (65::nat) \<le> of_char c \<and> of_char c \<le> (90::nat)"

definition is_lower :: "char \<Rightarrow> bool" where
  "is_lower c \<longleftrightarrow> (97::nat) \<le> of_char c \<and> of_char c \<le> (122::nat)"

definition is_alnum :: "char \<Rightarrow> bool" where
  "is_alnum c \<longleftrightarrow> is_digit c \<or> is_upper c \<or> is_lower c"

definition is_hex_lower :: "char \<Rightarrow> bool" where
  "is_hex_lower c \<longleftrightarrow> is_digit c \<or> ((97::nat) \<le> of_char c \<and> of_char c \<le> (102::nat))"

definition is_hex :: "char \<Rightarrow> bool" where
  "is_hex c \<longleftrightarrow> is_hex_lower c \<or> ((65::nat) \<le> of_char c \<and> of_char c \<le> (70::nat))"

definition lower_char :: "char \<Rightarrow> char" where
  "lower_char c =
     (let n = (of_char c :: nat) in
      if (65 \<le> n \<and> n \<le> 90) \<or> (192 \<le> n \<and> n \<le> 222 \<and> n \<noteq> 215) then char_of (n + 32) else c)"

definition js_lower :: "string \<Rightarrow> string" where
  "js_lower s = map lower_char s"

text \<open>
  \<^verbatim>\<open>toUpperCase\<close>: the sharp s becomes two letters; the two characters whose capital lies
  above 255 are kept.
\<close>

definition upper_char :: "char \<Rightarrow> string" where
  "upper_char c =
     (let n = (of_char c :: nat) in
      if (97 \<le> n \<and> n \<le> 122) \<or> (224 \<le> n \<and> n \<le> 254 \<and> n \<noteq> 247) then [char_of (n - 32)]
      else if n = 223 then ''SS'' else [c])"

definition js_upper :: "string \<Rightarrow> string" where
  "js_upper s = concat (map upper_char s)"

definition digit_value :: "char \<Rightarrow> nat" where
  "digit_value c = of_char c - 48"

definition nat_of_digits :: "string \<Rightarrow> nat" where
  "nat_of_digits s = foldl (\<lambda>n c. 10 * n + digit_value c) 0 s"

lemma split_on_nonempty [simp]: "split_on c s \<noteq> []"
  by (induction s) (auto split: list.splits)

lemma split_on_no_sep: "c \<notin> set s \<Longrightarrow> split_on c s = [s]"
  by (induction s) auto

lemma split_on_append:
  "c \<notin> set p \<Longrightarrow> split_on c (p @ c # s) = p # split_on c s"
  by (induction p) auto

lemma split_on_no_sep_parts: "p \<in> set (split_on c s) \<Longrightarrow> c \<notin> set p"
  by (induction s arbitrary: p) (auto split: list.splits if_splits)

lemma join_split: "join_with [c] (split_on c s) = s"
proof (induction s)
  case Nil
  then show ?case by simp
next
  case (Cons x xs)
  obtain p ps where "split_on c xs = p # ps"
    by (cases "split_on c xs") simp_all
  with Cons.IH show ?case
    by (cases ps) auto
qed

lemma js_trim_idem [simp]: "js_trim (js_trim s) = js_trim s"
proof -
  have idem: "dropWhile is_ws (dropWhile is_ws t) = dropWhile is_ws t" for t :: string
    by (simp add: dropWhile_idem)
  define t where "t = dropWhile is_ws s"
  have "dropWhile is_ws (rev (dropWhile is_ws (rev t))) = rev (dropWhile is_ws (rev t))"
  proof (cases "dropWhile is_ws (rev t)")
    case Nil
    show ?thesis by (simp only: Nil rev.simps dropWhile.simps)
  next
    case (Cons y ys)
    obtain z zs where z: "t = z # zs"
      using Cons by (cases t) auto
    have "\<not> is_ws z"
      using z hd_dropWhile [of is_ws s] by (simp add: t_def)
    then have "rev (dropWhile is_ws (rev t)) = z # rev (dropWhile is_ws (rev zs))"
      by (simp add: z dropWhile_append)
    with \<open>\<not> is_ws z\<close> show ?thesis by simp
  qed
  with idem show ?thesis
    by (simp add: js_trim_def t_def)
qed

section \<open>JSON values\<close>

text \<open>
  Values of type \<^verbatim>\<open>unknown\<close>: an object is an association list in key order, and
  \<open>JUndefined\<close> is a missing property.
\<close>

datatype json =
    JUndefined
  | JNull
  | JBool bool
  | JNum number
  | JStr string
  | JArr "json list"
  | JObj "(string \<times> json) list"

fun json_get :: "json \<Rightarrow> string \<Rightarrow> json" where
  "json_get (JObj fs) k = (case map_of fs k of None \<Rightarrow> JUndefined | Some v \<Rightarrow> v)"
| "json_get _ k = JUndefined"

text \<open>JavaScript truthiness.\<close>

fun truthy :: "json \<Rightarrow> bool" where
  "truthy JUndefined = False"
| "truthy JNull = False"
| "truthy (JBool b) = b"
| "truthy (JNum n) = (n \<noteq> 0)"
| "truthy (JStr s) = (s \<noteq> [])"
| "truthy (JArr _) = True"
| "truthy (JObj _) = True"

text \<open>A nullable string is false when it is null or empty.\<close>

fun truthy_str :: "string option \<Rightarrow> bool" where
  "truthy_str None = False"
| "truthy_str (Some s) = (s \<noteq> [])"

lemma truthy_str_iff: "truthy_str x \<longleftrightarrow> (\<exists>s. x = Some s \<and> s \<noteq> [])"
  by (cases x) auto

text \<open>The nullish default \<^verbatim>\<open>a ?? b\<close>.\<close>

definition nullish :: "'a option \<Rightarrow> 'a \<Rightarrow> 'a" where
  "nullish x d = (case x of None \<Rightarrow> d | Some v \<Rightarrow> v)"

lemma nullish_simps [simp]: "nullish None d = d" "nullish (Some v) d = v"
  by (simp_all add: nullish_def)

section \<open>Numeric conversions\<close>

text \<open>The remainder \<^verbatim>\<open>%\<close> takes the sign of the dividend.\<close>

definition js_rem :: "int \<Rightarrow> int \<Rightarrow> int" where
  "js_rem a b = sgn a * (\<bar>a\<bar> mod \<bar>b\<bar>)"

lemma js_rem_nonneg [simp]: "0 \<le> a \<Longrightarrow> 0 < b \<Longrightarrow> js_rem a b = a mod b"
  by (cases "a = 0") (simp_all add: js_rem_def)

text \<open>
  \<^verbatim>\<open>Number(string)\<close>: the decimal grammar with sign, fraction and exponent, and the three
  radix prefixes; \<open>None\<close> is \<^verbatim>\<open>NaN\<close> or an infinity.  The value is exact, which agrees with
  the double for literals of up to fifteen significant digits.
\<close>

definition radix_digit :: "nat \<Rightarrow> char \<Rightarrow> nat option" where
  "radix_digit base c =
     (let n = (of_char c :: nat);
          d = (if is_digit c then n - 48
               else if is_hex_lower c then n - 87
               else if is_hex c then n - 55 else 36)
      in if d < base then Some d else None)"

definition radix_number :: "nat \<Rightarrow> string \<Rightarrow> number option" where
  "radix_number base s =
     (if s = [] \<or> list_ex (\<lambda>c. radix_digit base c = None) s then None
      else Some (of_nat (foldl (\<lambda>n c. base * n + the (radix_digit base c)) 0 s)))"

definition exponent_part :: "string \<Rightarrow> int option" where
  "exponent_part s =
     (let (sign, d) = (case s of CHR ''-'' # r \<Rightarrow> (-1, r) | CHR ''+'' # r \<Rightarrow> (1, r) | _ \<Rightarrow> (1, s))
      in if d = [] \<or> \<not> list_all is_digit d then None else Some (sign * int (nat_of_digits d)))"

definition scale10 :: "number \<Rightarrow> int \<Rightarrow> number" where
  "scale10 x e = (if e \<ge> 0 then x * 10 ^ nat e else x / 10 ^ nat (- e))"

definition unsigned_decimal :: "string \<Rightarrow> number option" where
  "unsigned_decimal s =
     (let ip = takeWhile is_digit s;
          r1 = dropWhile is_digit s;
          (fp, r2) = (case r1 of CHR ''.'' # t \<Rightarrow> (takeWhile is_digit t, dropWhile is_digit t) | _ \<Rightarrow> ([], r1));
          m = scale10 (of_nat (nat_of_digits (ip @ fp))) (- int (length fp))
      in if ip @ fp = [] then None
         else case r2 of
             [] \<Rightarrow> Some m
           | c # t \<Rightarrow> if c = CHR ''e'' \<or> c = CHR ''E''
                      then map_option (scale10 m) (exponent_part t) else None)"

definition string_to_number :: "string \<Rightarrow> number option" where
  "string_to_number raw =
     (case js_trim raw of
        [] \<Rightarrow> Some 0
      | s \<Rightarrow>
          if prefix ''0x'' s \<or> prefix ''0X'' s then radix_number 16 (drop 2 s)
          else if prefix ''0o'' s \<or> prefix ''0O'' s then radix_number 8 (drop 2 s)
          else if prefix ''0b'' s \<or> prefix ''0B'' s then radix_number 2 (drop 2 s)
          else if prefix ''-'' s then map_option uminus (unsigned_decimal (drop 1 s))
          else if prefix ''+'' s then unsigned_decimal (drop 1 s)
          else unsigned_decimal s)"

text \<open>\<^verbatim>\<open>Number(value)\<close> on a JSON value; an array converts through its joined string.\<close>

fun json_to_number :: "json \<Rightarrow> number option" where
  "json_to_number JUndefined = None"
| "json_to_number JNull = Some 0"
| "json_to_number (JBool b) = Some (if b then 1 else 0)"
| "json_to_number (JNum n) = Some n"
| "json_to_number (JStr s) = string_to_number s"
| "json_to_number (JArr []) = Some 0"
| "json_to_number (JArr [JUndefined]) = Some 0"
| "json_to_number (JArr [JNull]) = Some 0"
| "json_to_number (JArr [JNum n]) = Some n"
| "json_to_number (JArr [JStr s]) = string_to_number s"
| "json_to_number (JArr [JArr xs]) = json_to_number (JArr xs)"
| "json_to_number _ = None"

section \<open>Decimal numerals\<close>

text \<open>The decimal form of a natural number, as template literals print it.\<close>

fun show_nat :: "nat \<Rightarrow> string" where
  "show_nat n = (if n < 10 then [char_of (48 + n)] else show_nat (n div 10) @ [char_of (48 + n mod 10)])"

declare show_nat.simps [simp del]

lemma nat_of_digits_append: "nat_of_digits (s @ [c]) = 10 * nat_of_digits s + digit_value c"
  by (simp add: nat_of_digits_def)

lemma digit_char: "d < 10 \<Longrightarrow> digit_value (char_of (48 + d)) = d"
  by (simp add: digit_value_def of_char_of)

lemma nat_of_show: "nat_of_digits (show_nat n) = n"
proof (induction n rule: show_nat.induct)
  case (1 n)
  show ?case
  proof (cases "n < 10")
    case True
    then show ?thesis by (simp add: show_nat.simps nat_of_digits_def digit_char)
  next
    case False
    then show ?thesis
      using 1 by (simp add: show_nat.simps [of n] nat_of_digits_append digit_char)
  qed
qed

lemma show_nat_inject [simp]: "show_nat m = show_nat n \<longleftrightarrow> m = n"
  by (metis nat_of_show)

section \<open>JSON values as strings and objects\<close>

text \<open>\<^verbatim>\<open>String(value)\<close>.\<close>

fun js_string :: "(number \<Rightarrow> string) \<Rightarrow> json \<Rightarrow> string" where
  "js_string num JUndefined = ''undefined''"
| "js_string num JNull = ''null''"
| "js_string num (JBool b) = (if b then ''true'' else ''false'')"
| "js_string num (JNum n) = num n"
| "js_string num (JStr s) = s"
| "js_string num (JArr vs) = join_with '','' (map (\<lambda>v. if v = JUndefined \<or> v = JNull then [] else js_string num v) vs)"
| "js_string num (JObj fs) = ''[object Object]''"

text \<open>\<^verbatim>\<open>a ?? b\<close> on JSON values, and the own properties an object spread copies.\<close>

definition json_or :: "json \<Rightarrow> json \<Rightarrow> json" where
  "json_or a b = (if a = JUndefined \<or> a = JNull then b else a)"

fun spread :: "json \<Rightarrow> (string \<times> json) list" where
  "spread (JObj fs) = fs"
| "spread (JArr vs) = map (\<lambda>(i, v). (show_nat i, v)) (enumerate 0 vs)"
| "spread (JStr s) = map (\<lambda>(i, c). (show_nat i, JStr [c])) (enumerate 0 s)"
| "spread _ = []"

section \<open>Hexadecimal bytes\<close>

text \<open>\<^verbatim>\<open>Buffer.from(s, "hex")\<close>: byte pairs up to the first that is not hexadecimal.\<close>

fun hex_bytes :: "string \<Rightarrow> nat list" where
  "hex_bytes (a # b # s) =
     (case (radix_digit 16 a, radix_digit 16 b) of
        (Some x, Some y) \<Rightarrow> (16 * x + y) # hex_bytes s
      | _ \<Rightarrow> [])"
| "hex_bytes _ = []"

text \<open>\<^verbatim>\<open>buf.toString("hex")\<close>.\<close>

definition hex_char :: "nat \<Rightarrow> char" where
  "hex_char d = (if d < 10 then char_of (48 + d) else char_of (87 + d))"

definition hex_encode :: "nat list \<Rightarrow> string" where
  "hex_encode bs = concat (map (\<lambda>b. [hex_char (b div 16), hex_char (b mod 16)]) bs)"

abbreviation byte_list :: "nat list \<Rightarrow> bool" where
  "byte_list bs \<equiv> \<forall>b \<in> set bs. b < 256"

lemma hex_char_digit: "d < 16 \<Longrightarrow> radix_digit 16 (hex_char d) = Some d"
  by (auto simp: hex_char_def radix_digit_def is_digit_def is_hex_lower_def of_char_of)

lemma hex_char_lower: "d < 16 \<Longrightarrow> is_hex_lower (hex_char d)"
  by (auto simp: hex_char_def is_digit_def is_hex_lower_def of_char_of)

lemma length_hex_encode [simp]: "length (hex_encode bs) = 2 * length bs"
  by (induction bs) (simp_all add: hex_encode_def)

lemma hex_encode_lower: "byte_list bs \<Longrightarrow> list_all is_hex_lower (hex_encode bs)"
  by (induction bs) (simp_all add: hex_encode_def hex_char_lower less_mult_imp_div_less)

lemma hex_bytes_encode: "byte_list bs \<Longrightarrow> hex_bytes (hex_encode bs) = bs"
  by (induction bs) (simp_all add: hex_encode_def hex_char_digit less_mult_imp_div_less)

section \<open>Guarded systems\<close>

text \<open>
  The contract of a component that is driven by a list of events: a step whose guard holds
  keeps the invariant.  Its clients get the invariant for every guarded run.
\<close>

locale guarded_system =
  fixes step :: "'e \<Rightarrow> 's \<Rightarrow> 's" and guard :: "'e \<Rightarrow> 's \<Rightarrow> bool" and inv :: "'s \<Rightarrow> bool"
  assumes step_keeps: "inv s \<Longrightarrow> guard e s \<Longrightarrow> inv (step e s)"
begin

fun guarded :: "'e list \<Rightarrow> 's \<Rightarrow> bool" where
  "guarded [] s = True"
| "guarded (e # es) s = (guard e s \<and> guarded es (step e s))"

lemma run_keeps: "inv s \<Longrightarrow> guarded es s \<Longrightarrow> inv (fold step es s)"
  by (induction es arbitrary: s) (auto intro: step_keeps)

lemma guarded_append: "guarded (es @ fs) s \<longleftrightarrow> guarded es s \<and> guarded fs (fold step es s)"
  by (induction es arbitrary: s) auto

end

end
