(* ===== verification/BF_RateLimit.thy ===== *)
theory BF_RateLimit
  imports BF_Prelude
begin

text \<open>
  The bounded in-memory sliding-window rate limiter
  (\<^verbatim>\<open>server/src/shared/rate-limit.ts\<close>): its state, its three operations, the storage
  invariant, and the admission guarantee, proved once for every limiter that meets the
  contract of the locale \<open>sliding_window\<close> and then for this one.
\<close>

section \<open>State and operations\<close>

record rate_limit_config =
  windowMs :: number
  max_hits :: number
  maxBuckets :: "number option"
  maxEntries :: "number option"

text \<open>The closure of \<^verbatim>\<open>createRateLimiter\<close>: the checked configuration and the variables.\<close>

record limiter =
  rl_window :: number
  rl_max :: number
  rl_maxBuckets :: number
  rl_maxEntries :: number
  buckets :: "(string, number list) jsmap"
  entries :: int
  nextSweep :: number

datatype rate_limit_error = InvalidRateLimitConfiguration

definition createRateLimiter :: "rate_limit_config \<Rightarrow> (rate_limit_error, limiter) result" where
  "createRateLimiter config =
     (let mb = nullish (maxBuckets config) 10000;
          me = nullish (maxEntries config) 100000
      in if \<exists>v \<in> set [windowMs config, max_hits config, mb, me].
              \<not> is_safe_integer v \<or> v \<le> 0
         then Inl InvalidRateLimitConfiguration
         else Inr \<lparr>rl_window = windowMs config, rl_max = max_hits config,
                   rl_maxBuckets = mb, rl_maxEntries = me,
                   buckets = [], entries = 0, nextSweep = 0\<rparr>)"

definition bucket :: "limiter \<Rightarrow> string \<Rightarrow> number list" where
  "bucket s key = nullish (map_of (buckets s) key) []"

definition live_hits :: "limiter \<Rightarrow> number \<Rightarrow> number list \<Rightarrow> number list" where
  "live_hits s now hits = filter (\<lambda>timestamp. timestamp > now - rl_window s) hits"

definition rl_trim :: "string \<Rightarrow> number \<Rightarrow> limiter \<Rightarrow> limiter" where
  "rl_trim key now s =
     (let previous = bucket s key;
          live = live_hits s now previous
      in s\<lparr>entries := entries s - (int (length previous) - int (length live)),
           buckets := (if live = [] then AList.delete key (buckets s)
                       else AList.update key live (buckets s))\<rparr>)"

definition rl_sweep :: "number \<Rightarrow> limiter \<Rightarrow> limiter" where
  "rl_sweep now s =
     (if now < nextSweep s then s
      else (let s' = fold (\<lambda>key. rl_trim key now) (map fst (buckets s)) s
            in s'\<lparr>nextSweep := now + min (rl_window s) 1000\<rparr>))"

definition rl_take :: "string \<Rightarrow> number \<Rightarrow> limiter \<Rightarrow> bool \<times> limiter" where
  "rl_take key now s =
     (let s1 = rl_trim key now (rl_sweep now s);
          hits = bucket s1 key
      in if of_nat (length hits) \<ge> rl_max s1 \<or> of_int (entries s1) \<ge> rl_maxEntries s1
         then (False, s1)
         else if hits = [] \<and> of_nat (length (buckets s1)) \<ge> rl_maxBuckets s1
         then (False, s1)
         else (True, s1\<lparr>entries := entries s1 + 1,
                        buckets := AList.update key (hits @ [now]) (buckets s1)\<rparr>))"

definition rl_remaining :: "string \<Rightarrow> number \<Rightarrow> limiter \<Rightarrow> number \<times> limiter" where
  "rl_remaining key now s =
     (let s1 = rl_trim key now (rl_sweep now s);
          hits = bucket s1 key
      in if hits = [] \<and> of_nat (length (buckets s1)) \<ge> rl_maxBuckets s1
         then (0, s1)
         else (max 0 (min (rl_max s1 - of_nat (length hits))
                          (rl_maxEntries s1 - of_int (entries s1))), s1))"

definition rl_reset :: "string \<Rightarrow> limiter \<Rightarrow> limiter" where
  "rl_reset key s =
     s\<lparr>entries := entries s - int (length (bucket s key)),
       buckets := AList.delete key (buckets s)\<rparr>"

section \<open>The storage invariant\<close>

text \<open>
  The counter \<open>entries\<close> is the number of stored timestamps, no bucket is empty, and the
  configured bounds on keys, on stored timestamps and on hits per key hold.
\<close>

definition stored :: "(string, number list) jsmap \<Rightarrow> nat" where
  "stored m = sum_list (map (length \<circ> snd) m)"

definition limiter_inv :: "limiter \<Rightarrow> bool" where
  "limiter_inv s \<longleftrightarrow>
     wf_map (buckets s) \<and>
     [] \<notin> snd ` set (buckets s) \<and>
     entries s = int (stored (buckets s)) \<and>
     of_nat (length (buckets s)) \<le> rl_maxBuckets s \<and>
     of_int (entries s) \<le> rl_maxEntries s \<and>
     (\<forall>(key, hits) \<in> set (buckets s). of_nat (length hits) \<le> rl_max s) \<and>
     is_safe_integer (rl_window s) \<and> rl_window s > 0 \<and>
     is_safe_integer (rl_max s) \<and> rl_max s > 0 \<and>
     is_safe_integer (rl_maxBuckets s) \<and> rl_maxBuckets s > 0 \<and>
     is_safe_integer (rl_maxEntries s) \<and> rl_maxEntries s > 0"

lemma stored_delete:
  assumes "wf_map m"
  shows "int (stored (AList.delete key m))
       = int (stored m) - int (length (nullish (map_of m key) []))"
  using assms
  by (induction m) (auto simp: stored_def AList.delete_eq map_of_eq_None_iff [THEN iffD2])

lemma stored_update:
  assumes "wf_map m"
  shows "int (stored (AList.update key v m))
       = int (stored m) - int (length (nullish (map_of m key) [])) + int (length v)"
  using assms by (induction m) (auto simp: stored_def)

lemma bucket_in_set:
  "bucket s key \<noteq> [] \<Longrightarrow> (key, bucket s key) \<in> set (buckets s)"
  by (auto simp: bucket_def nullish_def split: option.splits dest: map_of_SomeD)

lemma live_hits_length: "length (live_hits s now hits) \<le> length hits"
  by (simp add: live_hits_def)

lemma rl_trim_frame [simp]:
  "rl_window (rl_trim key now s) = rl_window s" "rl_max (rl_trim key now s) = rl_max s"
  "rl_maxBuckets (rl_trim key now s) = rl_maxBuckets s"
  "rl_maxEntries (rl_trim key now s) = rl_maxEntries s"
  "nextSweep (rl_trim key now s) = nextSweep s"
  by (simp_all add: rl_trim_def Let_def)

lemma bucket_rl_trim:
  "bucket (rl_trim key now s) k
     = (if k = key then live_hits s now (bucket s key) else bucket s k)"
  by (simp add: rl_trim_def bucket_def Let_def get_set get_delete)

lemma limiter_inv_bucket:
  assumes "limiter_inv s"
  shows "of_nat (length (bucket s key)) \<le> rl_max s"
proof (cases "bucket s key = []")
  case True
  with assms show ?thesis by (simp add: limiter_inv_def)
next
  case False
  then have "(key, bucket s key) \<in> set (buckets s)" by (rule bucket_in_set)
  with assms show ?thesis by (auto simp: limiter_inv_def)
qed

lemma limiter_inv_delete:
  assumes "limiter_inv s"
  shows "limiter_inv (s\<lparr>entries := entries s - int (length (bucket s key)),
                        buckets := AList.delete key (buckets s)\<rparr>)"
proof -
  have "of_nat (length (AList.delete key (buckets s))) \<le> (of_nat (length (buckets s)) :: number)"
    using size_delete_le [of key "buckets s"] by (simp only: of_nat_le_iff)
  moreover have "(of_int (entries s - int (length (bucket s key))) :: number) \<le> of_int (entries s)"
    by (simp only: of_int_le_iff)
  ultimately show ?thesis
    using assms set_delete_subset [of key "buckets s"]
    by (force simp: limiter_inv_def stored_delete bucket_def wf_delete)
qed

lemma limiter_inv_update:
  assumes "limiter_inv s" and "v \<noteq> []" and "of_nat (length v) \<le> rl_max s"
    and "of_int (entries s - int (length (bucket s key)) + int (length v)) \<le> rl_maxEntries s"
    and "bucket s key = [] \<longrightarrow> of_nat (Suc (length (buckets s))) \<le> rl_maxBuckets s"
  shows "limiter_inv (s\<lparr>entries := entries s - int (length (bucket s key)) + int (length v),
                        buckets := AList.update key v (buckets s)\<rparr>)"
proof -
  have "of_nat (length (AList.update key v (buckets s))) \<le> rl_maxBuckets s"
  proof (cases "map_of (buckets s) key")
    case None
    with assms(5) show ?thesis by (simp add: size_set_absent bucket_def)
  next
    case (Some w)
    with assms(1) show ?thesis by (simp add: size_set_present limiter_inv_def)
  qed
  then show ?thesis
    using assms set_update_subset [of key v "buckets s"]
    by (fastforce simp: limiter_inv_def stored_update bucket_def wf_set)
qed

lemma rl_trim_inv:
  assumes "limiter_inv s"
  shows "limiter_inv (rl_trim key now s)"
proof (cases "live_hits s now (bucket s key) = []")
  case True
  with limiter_inv_delete [OF assms, of key] show ?thesis
    by (simp add: rl_trim_def Let_def)
next
  case False
  let ?l = "live_hits s now (bucket s key)"
  have len: "length ?l \<le> length (bucket s key)" by (rule live_hits_length)
  have "of_nat (length ?l) \<le> rl_max s"
    using len limiter_inv_bucket [OF assms, of key] by (meson of_nat_mono order_trans)
  moreover have "of_int (entries s - int (length (bucket s key)) + int (length ?l)) \<le> rl_maxEntries s"
  proof -
    have "entries s - int (length (bucket s key)) + int (length ?l) \<le> entries s"
      using len by simp
    then show ?thesis
      using assms unfolding limiter_inv_def by (meson of_int_le_iff order_trans)
  qed
  moreover have "bucket s key \<noteq> []"
    using False by (auto simp: live_hits_def)
  ultimately show ?thesis
    using limiter_inv_update [OF assms False, of key] False
    by (simp add: rl_trim_def Let_def algebra_simps)
qed

lemma fold_trim_inv: "limiter_inv s \<Longrightarrow> limiter_inv (fold (\<lambda>key. rl_trim key now) ks s)"
  by (induction ks arbitrary: s) (auto intro: rl_trim_inv)

lemma fold_trim_frame [simp]:
  "rl_window (fold (\<lambda>key. rl_trim key now) ks s) = rl_window s"
  "rl_max (fold (\<lambda>key. rl_trim key now) ks s) = rl_max s"
  "rl_maxBuckets (fold (\<lambda>key. rl_trim key now) ks s) = rl_maxBuckets s"
  "rl_maxEntries (fold (\<lambda>key. rl_trim key now) ks s) = rl_maxEntries s"
  by (induction ks arbitrary: s) simp_all

lemma rl_sweep_frame [simp]:
  "rl_window (rl_sweep now s) = rl_window s" "rl_max (rl_sweep now s) = rl_max s"
  "rl_maxBuckets (rl_sweep now s) = rl_maxBuckets s"
  "rl_maxEntries (rl_sweep now s) = rl_maxEntries s"
  by (simp_all add: rl_sweep_def Let_def)

lemma limiter_inv_nextSweep [simp]: "limiter_inv (s\<lparr>nextSweep := n\<rparr>) = limiter_inv s"
  by (simp add: limiter_inv_def)

lemma rl_sweep_inv: "limiter_inv s \<Longrightarrow> limiter_inv (rl_sweep now s)"
  by (simp add: rl_sweep_def Let_def fold_trim_inv)

lemma createRateLimiter_inv: "createRateLimiter config = Inr s \<Longrightarrow> limiter_inv s"
  by (auto simp: createRateLimiter_def Let_def limiter_inv_def stored_def split: if_splits)

lemma rl_reset_inv: "limiter_inv s \<Longrightarrow> limiter_inv (rl_reset key s)"
  by (simp add: rl_reset_def limiter_inv_delete)

lemma rl_remaining_inv: "limiter_inv s \<Longrightarrow> limiter_inv (snd (rl_remaining key now s))"
  by (simp add: rl_remaining_def Let_def rl_trim_inv rl_sweep_inv)

lemma less_integer_Suc: "is_integer m \<Longrightarrow> of_int i < m \<Longrightarrow> of_int (i + 1) \<le> (m :: number)"
  by (elim is_integer_obtain) (simp only: of_int_less_iff of_int_le_iff zless_imp_add1_zle)

lemma rl_take_inv:
  assumes "limiter_inv s"
  shows "limiter_inv (snd (rl_take key now s))"
proof -
  define s1 where "s1 = rl_trim key now (rl_sweep now s)"
  have inv: "limiter_inv s1"
    by (simp add: s1_def assms rl_trim_inv rl_sweep_inv)
  show ?thesis
  proof (cases "fst (rl_take key now s)")
    case False
    with inv show ?thesis
      by (auto simp: rl_take_def Let_def s1_def split: if_splits)
  next
    case True
    then have lt: "of_int (int (length (bucket s1 key))) < rl_max s1"
        "of_int (entries s1) < rl_maxEntries s1"
        "bucket s1 key = [] \<longrightarrow> of_int (int (length (buckets s1))) < rl_maxBuckets s1"
      and eq: "snd (rl_take key now s)
        = s1\<lparr>entries := entries s1 - int (length (bucket s1 key)) + int (length (bucket s1 key @ [now])),
             buckets := AList.update key (bucket s1 key @ [now]) (buckets s1)\<rparr>"
      by (auto simp: rl_take_def Let_def s1_def [symmetric] split: if_splits)
    have ints: "is_integer (rl_max s1)" "is_integer (rl_maxEntries s1)" "is_integer (rl_maxBuckets s1)"
      using inv by (simp_all add: limiter_inv_def is_safe_integer_def)
    note bounds = less_integer_Suc [OF ints(1) lt(1)] less_integer_Suc [OF ints(2) lt(2)]
    have "bucket s1 key = [] \<longrightarrow> of_int (int (length (buckets s1)) + 1) \<le> rl_maxBuckets s1"
      using lt(3) less_integer_Suc [OF ints(3)] by blast
    with bounds show ?thesis
      unfolding eq by (intro limiter_inv_update [OF inv]) (simp_all add: algebra_simps)
  qed
qed

section \<open>Live hits and how operations change them\<close>

definition live :: "limiter \<Rightarrow> string \<Rightarrow> number \<Rightarrow> number list" where
  "live s key now = live_hits s now (bucket s key)"

lemma live_hits_later:
  "t \<le> t' \<Longrightarrow> live_hits s t' (live_hits s t hits) = live_hits s t' hits"
  by (auto simp: live_hits_def intro!: filter_cong)

lemma live_later: "t \<le> t' \<Longrightarrow> live s key t' = filter (\<lambda>x. x > t' - rl_window s) (live s key t)"
  by (auto simp: live_def live_hits_def intro!: filter_cong)

lemma live_hits_rl_trim [simp]: "live_hits (rl_trim k t s) = live_hits s"
  by (rule ext)+ (simp add: live_hits_def)

lemma live_trim: "t \<le> t' \<Longrightarrow> live (rl_trim k t s) key t' = live s key t'"
  by (simp add: live_def bucket_rl_trim live_hits_later)

lemma live_fold_trim:
  "t \<le> t' \<Longrightarrow> live (fold (\<lambda>key. rl_trim key t) ks s) key t' = live s key t'"
  by (induction ks arbitrary: s) (simp_all add: live_trim)

lemma live_nextSweep [simp]: "live (s\<lparr>nextSweep := n\<rparr>) key t = live s key t"
  by (simp add: live_def live_hits_def bucket_def)

lemma live_sweep: "t \<le> t' \<Longrightarrow> live (rl_sweep t s) key t' = live s key t'"
  by (simp add: rl_sweep_def Let_def live_fold_trim)

lemma bucket_after_trim:
  "bucket (rl_trim key now (rl_sweep now s)) key = live s key now"
proof -
  have "bucket (rl_trim key now (rl_sweep now s)) key = live (rl_sweep now s) key now"
    by (simp add: bucket_rl_trim live_def)
  then show ?thesis by (simp add: live_sweep)
qed

lemma live_update:
  "live (s\<lparr>entries := e, buckets := AList.update key v (buckets s)\<rparr>) k t
     = (if k = key then live_hits s t v else live s k t)"
  by (simp add: live_def live_hits_def bucket_def get_set)

lemma live_reset: "live (rl_reset key s) k t = (if k = key then [] else live s k t)"
  by (simp add: rl_reset_def live_def live_hits_def bucket_def get_delete)

lemma rl_take_frame [simp]:
  "rl_window (snd (rl_take key now s)) = rl_window s"
  "rl_max (snd (rl_take key now s)) = rl_max s"
  "rl_maxBuckets (snd (rl_take key now s)) = rl_maxBuckets s"
  "rl_maxEntries (snd (rl_take key now s)) = rl_maxEntries s"
  by (simp_all add: rl_take_def Let_def)

lemma rl_take_live:
  assumes "limiter_inv s"
  shows "live (snd (rl_take key now s)) k now
       = (if fst (rl_take key now s) \<and> k = key then live s key now @ [now] else live s k now)"
proof -
  have w: "rl_window s > 0" using assms by (simp add: limiter_inv_def)
  have "live_hits s now (live s key now @ [now]) = live s key now @ [now]"
    using w by (simp add: live_def live_hits_def)
  then show ?thesis
    by (simp add: rl_take_def Let_def live_update live_trim live_sweep bucket_after_trim)
       (simp add: live_hits_def)
qed

lemma rl_take_below: "fst (rl_take key now s) \<Longrightarrow> of_nat (length (live s key now)) < rl_max s"
  by (auto simp: rl_take_def Let_def bucket_after_trim split: if_splits)

section \<open>The admission contract\<close>

text \<open>
  \<open>spaced win mx H\<close>: among the admitted times \<open>H\<close>, any \<open>mx + 1\<close> consecutive ones span
  at least a whole window.
\<close>

definition spaced :: "number \<Rightarrow> nat \<Rightarrow> number list \<Rightarrow> bool" where
  "spaced win mx H \<longleftrightarrow> (\<forall>i. i + mx < length H \<longrightarrow> H ! i + win \<le> H ! (i + mx))"

text \<open>
  What a caller relies on: an admission needs fewer than \<open>mx\<close> live hits, adds exactly one,
  and no operation on one key removes live hits of another.
\<close>

locale sliding_window =
  fixes lv :: "'s \<Rightarrow> 'k \<Rightarrow> number \<Rightarrow> number list"
    and step :: "'op \<Rightarrow> 's \<Rightarrow> 's"
    and adm :: "'op \<Rightarrow> 's \<Rightarrow> 'k \<Rightarrow> bool"
    and time_of :: "'op \<Rightarrow> number option"
    and clears :: "'op \<Rightarrow> 'k \<Rightarrow> bool"
    and ok :: "number \<Rightarrow> nat \<Rightarrow> 's \<Rightarrow> bool"
  assumes ok_step: "ok win mx s \<Longrightarrow> ok win mx (step op s)"
    and lv_later: "ok win mx s \<Longrightarrow> t \<le> t' \<Longrightarrow> lv s k t' = filter (\<lambda>x. x > t' - win) (lv s k t)"
    and adm_timed: "adm op s k \<Longrightarrow> time_of op \<noteq> None"
    and adm_below: "ok win mx s \<Longrightarrow> adm op s k \<Longrightarrow> time_of op = Some t \<Longrightarrow> length (lv s k t) < mx"
    and lv_timed: "ok win mx s \<Longrightarrow> time_of op = Some t \<Longrightarrow>
          lv (step op s) k t = (if adm op s k then lv s k t @ [t] else lv s k t)"
    and lv_untimed: "ok win mx s \<Longrightarrow> time_of op = None \<Longrightarrow> \<not> clears op k \<Longrightarrow>
          lv (step op s) k t = lv s k t"
begin

definition tracked :: "number \<Rightarrow> nat \<Rightarrow> 's \<Rightarrow> 'k \<Rightarrow> number \<Rightarrow> number list \<Rightarrow> bool" where
  "tracked win mx s k t H \<longleftrightarrow>
     ok win mx s \<and> sorted H \<and> (\<forall>x \<in> set H. x \<le> t) \<and>
     lv s k t = filter (\<lambda>x. x > t - win) H \<and> spaced win mx H"

lemma tracked_later:
  assumes "tracked win mx s k t H" and "t \<le> t'"
  shows "tracked win mx s k t' H"
proof -
  have "lv s k t' = filter (\<lambda>x. x > t' - win) H"
    using assms lv_later [of win mx s t t' k]
    by (auto simp: tracked_def intro!: filter_cong)
  with assms show ?thesis
    by (force simp: tracked_def)
qed

lemma spaced_snoc:
  assumes "spaced win mx H" and "sorted H"
    and few: "length (filter (\<lambda>x. x > t - win) H) < mx"
  shows "spaced win mx (H @ [t])"
  unfolding spaced_def
proof (intro allI impI)
  fix i assume i: "i + mx < length (H @ [t])"
  show "(H @ [t]) ! i + win \<le> (H @ [t]) ! (i + mx)"
  proof (cases "i + mx < length H")
    case True
    with assms(1) show ?thesis by (simp add: spaced_def nth_append)
  next
    case False
    with i few have len: "i + mx = length H" "i < length H" by auto
    have "H ! i \<le> t - win"
    proof (rule ccontr)
      assume "\<not> H ! i \<le> t - win"
      then have "\<forall>x \<in> set (drop i H). x > t - win"
        using \<open>sorted H\<close> len(2)
        by (metis Cons_nth_drop_Suc linorder_not_le order_trans set_ConsD sorted_simps(2)
            sorted_wrt_drop)
      then have "filter (\<lambda>x. x > t - win) (drop i H) = drop i H" by simp
      then have "length (filter (\<lambda>x. x > t - win) (take i H @ drop i H)) \<ge> length H - i"
        unfolding filter_append length_append by (metis le_add2 length_drop)
      with few len show False by simp
    qed
    with len show ?thesis by (simp add: nth_append)
  qed
qed

lemma tracked_step:
  assumes tr: "tracked win mx s k t H" and time: "time_of op = Some t"
  shows "tracked win mx (step op s) k t (if adm op s k then H @ [t] else H)"
proof (cases "adm op s k")
  case True
  have ok: "ok win mx s" and lv: "lv s k t = filter (\<lambda>x. x > t - win) H"
    using tr by (simp_all add: tracked_def)
  have "0 < mx" using adm_below [OF ok True time] by simp
  moreover have few: "length (filter (\<lambda>x. x > t - win) H) < mx"
    using adm_below [OF ok True time] lv by simp
  moreover have "t - win < t"
  proof (rule ccontr)
    assume "\<not> t - win < t"
    then have "filter (\<lambda>x. x > t - win) (lv (step op s) k t) = filter (\<lambda>x. x > t - win) (lv s k t)"
      using True lv_timed [OF ok time, of k] by simp
    moreover have "lv (step op s) k t = filter (\<lambda>x. x > t - win) (lv (step op s) k t)"
      using lv_later [OF ok_step [OF ok], of t t op k] by simp
    moreover have "lv s k t = filter (\<lambda>x. x > t - win) (lv s k t)"
      using lv_later [OF ok, of t t k] by simp
    ultimately show False
      using True lv_timed [OF ok time, of k] by (metis not_Cons_self2 append_self_conv)
  qed
  ultimately show ?thesis
    using tr True lv_timed [OF ok time, of k] ok_step [OF ok] spaced_snoc [of win mx H t]
    by (auto simp: tracked_def sorted_append)
next
  case False
  with tr show ?thesis
    using lv_timed [OF _ time, of win mx s k] ok_step by (auto simp: tracked_def)
qed

lemma tracked_untimed:
  assumes "tracked win mx s k t H" and "time_of op = None" and "\<not> clears op k"
  shows "tracked win mx (step op s) k t H"
  using assms lv_untimed ok_step by (auto simp: tracked_def)

end

section \<open>Runs of the limiter\<close>

text \<open>One call of the public interface, with the clock value it reads.\<close>

datatype rl_op = Take string number | Remaining string number | Reset string

fun rl_step :: "rl_op \<Rightarrow> limiter \<Rightarrow> limiter" where
  "rl_step (Take key now) s = snd (rl_take key now s)"
| "rl_step (Remaining key now) s = snd (rl_remaining key now s)"
| "rl_step (Reset key) s = rl_reset key s"

fun rl_admits :: "rl_op \<Rightarrow> limiter \<Rightarrow> string \<Rightarrow> bool" where
  "rl_admits (Take k now) s key = (k = key \<and> fst (rl_take k now s))"
| "rl_admits (Remaining k now) s key = False"
| "rl_admits (Reset k) s key = False"

fun rl_time :: "rl_op \<Rightarrow> number option" where
  "rl_time (Take k now) = Some now"
| "rl_time (Remaining k now) = Some now"
| "rl_time (Reset k) = None"

fun rl_run :: "rl_op list \<Rightarrow> limiter \<Rightarrow> limiter" where
  "rl_run [] s = s"
| "rl_run (op # ops) s = rl_run ops (rl_step op s)"

text \<open>The times at which a run admits a hit of \<open>key\<close>, and the clock readings of a run.\<close>

fun admitted :: "string \<Rightarrow> rl_op list \<Rightarrow> limiter \<Rightarrow> number list" where
  "admitted key [] s = []"
| "admitted key (op # ops) s =
     (if rl_admits op s key then [the (rl_time op)] else []) @ admitted key ops (rl_step op s)"

definition clock_readings :: "rl_op list \<Rightarrow> number list" where
  "clock_readings ops = List.map_filter rl_time ops"

definition limiter_ok :: "number \<Rightarrow> nat \<Rightarrow> limiter \<Rightarrow> bool" where
  "limiter_ok win mx s \<longleftrightarrow> limiter_inv s \<and> rl_window s = win \<and> rl_max s = of_nat mx"

lemma rl_remaining_snd: "snd (rl_remaining key now s) = rl_trim key now (rl_sweep now s)"
  by (simp add: rl_remaining_def Let_def)

lemma rl_step_inv: "limiter_inv s \<Longrightarrow> limiter_inv (rl_step op s)"
  by (cases op) (simp_all add: rl_take_inv rl_remaining_inv rl_reset_inv)

lemma rl_step_frame [simp]:
  "rl_window (rl_step op s) = rl_window s" "rl_max (rl_step op s) = rl_max s"
  "rl_maxBuckets (rl_step op s) = rl_maxBuckets s" "rl_maxEntries (rl_step op s) = rl_maxEntries s"
  by (cases op; simp add: rl_remaining_snd; simp add: rl_reset_def)+

interpretation rl: sliding_window live rl_step rl_admits rl_time "\<lambda>op key. op = Reset key" limiter_ok
proof (unfold_locales, goal_cases)
  case (1 win mx s op)
  then show ?case by (simp add: limiter_ok_def rl_step_inv)
next
  case (2 win mx s t t' k)
  then show ?case by (simp add: limiter_ok_def live_later [of t t'])
next
  case (3 op s k)
  then show ?case by (cases op) simp_all
next
  case (4 win mx s op k t)
  then show ?case
    using rl_take_below [of k t s] by (cases op) (auto simp: limiter_ok_def)
next
  case (5 win mx s op t k)
  then show ?case
    by (cases op) (auto simp: limiter_ok_def rl_take_live rl_remaining_snd live_trim live_sweep)
next
  case (6 win mx s op k t)
  then show ?case by (cases op) (auto simp: live_reset)
qed

lemma rl_run_inv: "limiter_inv s \<Longrightarrow> limiter_inv (rl_run ops s)"
  by (induction ops arbitrary: s) (simp_all add: rl_step_inv)

lemma rl_run_frame [simp]:
  "rl_window (rl_run ops s) = rl_window s" "rl_max (rl_run ops s) = rl_max s"
  "rl_maxBuckets (rl_run ops s) = rl_maxBuckets s" "rl_maxEntries (rl_run ops s) = rl_maxEntries s"
  by (induction ops arbitrary: s) simp_all

lemma admitted_tracked:
  assumes "rl.tracked win mx s key t H" and "sorted (t # clock_readings ops)"
    and "Reset key \<notin> set ops"
  shows "spaced win mx (H @ admitted key ops s)"
  using assms
proof (induction ops arbitrary: s t H)
  case Nil
  then show ?case by (simp add: rl.tracked_def)
next
  case (Cons op ops)
  show ?case
  proof (cases "rl_time op")
    case None
    then have "\<not> rl_admits op s key" by (cases op) auto
    moreover have "rl.tracked win mx (rl_step op s) key t H"
      using Cons.prems None by (intro rl.tracked_untimed) auto
    ultimately show ?thesis
      using Cons.IH [of "rl_step op s" t H] Cons.prems None
      by (simp add: clock_readings_def List.map_filter_def)
  next
    case (Some t')
    with Cons.prems have le: "t \<le> t'" and srt: "sorted (t' # clock_readings ops)"
      by (auto simp: clock_readings_def List.map_filter_def)
    let ?H = "if rl_admits op s key then H @ [t'] else H"
    have "rl.tracked win mx (rl_step op s) key t' ?H"
      by (rule rl.tracked_step [OF rl.tracked_later [OF Cons.prems(1) le] Some])
    from Cons.IH [OF this srt] Cons.prems(3) Some show ?thesis
      by (auto split: if_splits)
  qed
qed

lemma created_tracked:
  assumes "createRateLimiter config = Inr s"
  shows "rl.tracked (windowMs config) (nat \<lfloor>max_hits config\<rfloor>) s key t []"
proof -
  have "rl_window s = windowMs config" "rl_max s = max_hits config" "buckets s = []"
    using assms by (auto simp: createRateLimiter_def Let_def split: if_splits)
  moreover have "limiter_inv s" using assms by (rule createRateLimiter_inv)
  moreover from calculation have "of_nat (nat \<lfloor>max_hits config\<rfloor>) = max_hits config"
    by (auto simp: limiter_inv_def is_safe_integer_def is_integer_def)
  ultimately show ?thesis
    by (simp add: rl.tracked_def limiter_ok_def live_def live_hits_def bucket_def spaced_def)
qed

section \<open>Properties\<close>

text \<open>
  (C15) The admission guarantee: whatever sequence of calls a freshly created limiter
  receives, with a clock that never runs backwards and no explicit reset of the key, any
  \<open>max + 1\<close> consecutive admitted hits of the key are spread over at least one whole
  window; rotating other keys cannot reset a quota.
\<close>

theorem rate_limit_sliding_window:
  assumes "createRateLimiter config = Inr s"
    and "sorted (clock_readings ops)"
    and "Reset key \<notin> set ops"
    and "i + nat \<lfloor>max_hits config\<rfloor> < length (admitted key ops s)"
  shows "admitted key ops s ! i + windowMs config
           \<le> admitted key ops s ! (i + nat \<lfloor>max_hits config\<rfloor>)"
proof -
  obtain t where t: "sorted (t # clock_readings ops)"
    using assms(2) by (cases "clock_readings ops") auto
  have "spaced (windowMs config) (nat \<lfloor>max_hits config\<rfloor>) (admitted key ops s)"
    using admitted_tracked [OF created_tracked [OF assms(1)] t assms(3)] by simp
  with assms(4) show ?thesis by (simp add: spaced_def)
qed

text \<open>
  (C30) Storage is bounded in every reachable state: the number of keys, the number of
  stored timestamps and the hits per key stay within the configured limits, and the
  counter \<open>entries\<close> equals the number of stored timestamps.
\<close>

theorem rate_limit_storage_bounded:
  assumes "createRateLimiter config = Inr s0"
  shows "of_nat (length (buckets (rl_run ops s0))) \<le> nullish (maxBuckets config) 10000 \<and>
         of_nat (stored (buckets (rl_run ops s0))) \<le> nullish (maxEntries config) 100000 \<and>
         entries (rl_run ops s0) = int (stored (buckets (rl_run ops s0))) \<and>
         of_nat (length (bucket (rl_run ops s0) key)) \<le> max_hits config"
proof -
  have frame: "rl_maxBuckets s0 = nullish (maxBuckets config) 10000"
      "rl_maxEntries s0 = nullish (maxEntries config) 100000" "rl_max s0 = max_hits config"
    using assms by (auto simp: createRateLimiter_def Let_def split: if_splits)
  have inv: "limiter_inv (rl_run ops s0)"
    by (rule rl_run_inv [OF createRateLimiter_inv [OF assms]])
  with limiter_inv_bucket [OF inv, of key] frame show ?thesis
    by (simp add: limiter_inv_def)
qed

text \<open>
  The two queries agree: \<open>remaining\<close> is positive exactly when \<open>take\<close> at the same
  clock value admits the hit, over every branch of both (quota used up, storage full, too
  many keys), and both leave the live hits of every other key untouched.
\<close>

theorem rate_limit_remaining_take:
  "(fst (rl_remaining key now s) > 0 \<longleftrightarrow> fst (rl_take key now s)) \<and>
   live (snd (rl_remaining key now s)) k now = live s k now"
  by (auto simp: rl_remaining_def rl_take_def Let_def live_trim live_sweep)

section \<open>Witnesses\<close>

definition demo_config :: rate_limit_config where
  "demo_config = \<lparr>windowMs = 10, max_hits = 2, maxBuckets = Some 3, maxEntries = None\<rparr>"

definition demo_limiter :: limiter where
  "demo_limiter = \<lparr>rl_window = 10, rl_max = 2, rl_maxBuckets = 3, rl_maxEntries = 100000,
                   buckets = [], entries = 0, nextSweep = 0\<rparr>"

definition demo_ops :: "rl_op list" where
  "demo_ops = [Take ''a'' 1, Take ''a'' 2, Take ''a'' 5, Remaining ''b'' 6, Take ''a'' 11]"

lemma demo_created: "createRateLimiter demo_config = Inr demo_limiter"
  by (simp add: createRateLimiter_def demo_config_def demo_limiter_def Let_def
      is_safe_integer_def is_integer_def)

lemma demo_admitted: "admitted ''a'' demo_ops demo_limiter = [1, 2, 11]"
  by code_simp

theorem rate_limit_sliding_window_witness:
  "length (admitted ''a'' demo_ops demo_limiter) = 3 \<and>
   admitted ''a'' demo_ops demo_limiter ! 0 + windowMs demo_config
     \<le> admitted ''a'' demo_ops demo_limiter ! (0 + nat \<lfloor>max_hits demo_config\<rfloor>)"
proof -
  have "sorted (clock_readings demo_ops)" by code_simp
  moreover have "Reset ''a'' \<notin> set demo_ops" by (simp add: demo_ops_def)
  moreover have "0 + nat \<lfloor>max_hits demo_config\<rfloor> < length (admitted ''a'' demo_ops demo_limiter)"
    by (simp add: demo_admitted demo_config_def)
  ultimately have "admitted ''a'' demo_ops demo_limiter ! 0 + windowMs demo_config
     \<le> admitted ''a'' demo_ops demo_limiter ! (0 + nat \<lfloor>max_hits demo_config\<rfloor>)"
    by (rule rate_limit_sliding_window [OF demo_created])
  then show ?thesis by (simp add: demo_admitted)
qed

lemma demo_entries: "entries (rl_run demo_ops demo_limiter) = 2"
  by code_simp

theorem rate_limit_storage_bounded_witness:
  "of_nat (length (buckets (rl_run demo_ops demo_limiter))) \<le> (3 :: number) \<and>
   entries (rl_run demo_ops demo_limiter) = 2"
  using rate_limit_storage_bounded [OF demo_created, of demo_ops] demo_entries
  by (simp add: demo_config_def)

end
