(* ===== verification/BF_Schedule.thy ===== *)
theory BF_Schedule
  imports BF_Prelude
begin

text \<open>
  The maintenance windows of \<^verbatim>\<open>update-schedule.ts\<close>: normalisation of the stored setting and
  the test whether automatic updates may run now, shown equal to membership in intervals
  of the week.
\<close>

section \<open>Model\<close>

record schedule_window =
  sw_day :: int
  sw_start :: string
  sw_end :: string

datatype schedule_mode = ModeAlways | ModeWindows

record update_schedule =
  us_mode :: schedule_mode
  us_windows :: "schedule_window list"

definition DEFAULT_UPDATE_SCHEDULE :: update_schedule where
  "DEFAULT_UPDATE_SCHEDULE = \<lparr>us_mode = ModeAlways, us_windows = []\<rparr>"

text \<open>\<open>TIME_RE\<close>: the hour and minute groups of a time between 00:00 and 23:59.\<close>

definition TIME_RE :: "string \<Rightarrow> (nat \<times> nat) option" where
  "TIME_RE s =
     (case s of
        [h1, h2, c, m1, m2] \<Rightarrow>
          if (((h1 = CHR ''0'' \<or> h1 = CHR ''1'') \<and> is_digit h2)
               \<or> (h1 = CHR ''2'' \<and> is_digit h2 \<and> digit_value h2 \<le> 3))
             \<and> c = CHR '':'' \<and> is_digit m1 \<and> digit_value m1 \<le> 5 \<and> is_digit m2
          then Some (10 * digit_value h1 + digit_value h2, 10 * digit_value m1 + digit_value m2)
          else None
      | _ \<Rightarrow> None)"

definition parseMinutes :: "string \<Rightarrow> int option" where
  "parseMinutes v = (case TIME_RE v of None \<Rightarrow> None | Some (h, m) \<Rightarrow> Some (int h * 60 + int m))"

fun json_string_or_empty :: "json \<Rightarrow> string" where
  "json_string_or_empty (JStr s) = s"
| "json_string_or_empty _ = []"

definition normalizeWindow :: "json \<Rightarrow> schedule_window option" where
  "normalizeWindow raw =
     (case raw of
        JObj _ \<Rightarrow>
          (let start = json_string_or_empty (json_get raw ''start'');
               end' = json_string_or_empty (json_get raw ''end'')
           in case json_to_number (json_get raw ''day'') of
                None \<Rightarrow> None
              | Some day \<Rightarrow>
                  if \<not> is_integer day \<or> day < 0 \<or> day > 6 then None
                  else if TIME_RE start = None \<or> TIME_RE end' = None \<or> start = end' then None
                  else Some \<lparr>sw_day = \<lfloor>day\<rfloor>, sw_start = start, sw_end = end'\<rparr>)
      | _ \<Rightarrow> None)"

definition normalizeUpdateSchedule :: "json \<Rightarrow> update_schedule" where
  "normalizeUpdateSchedule raw =
     (case raw of
        JObj _ \<Rightarrow>
          if json_get raw ''mode'' \<noteq> JStr ''windows'' then DEFAULT_UPDATE_SCHEDULE
          else (let windows = (case json_get raw ''windows'' of
                                 JArr ws \<Rightarrow> List.map_filter normalizeWindow ws | _ \<Rightarrow> [])
                in if windows \<noteq> [] then \<lparr>us_mode = ModeWindows, us_windows = windows\<rparr>
                   else DEFAULT_UPDATE_SCHEDULE)
      | _ \<Rightarrow> DEFAULT_UPDATE_SCHEDULE)"

text \<open>The local weekday (Sunday is 0), hour and minute of the clock are arguments.\<close>

definition window_allows :: "int \<Rightarrow> int \<Rightarrow> schedule_window \<Rightarrow> bool" where
  "window_allows day minute w =
     (case (parseMinutes (sw_start w), parseMinutes (sw_end w)) of
        (Some start, Some end') \<Rightarrow>
          if start = end' then False
          else if start < end' then sw_day w = day \<and> minute \<ge> start \<and> minute < end'
          else (sw_day w = day \<and> minute \<ge> start)
               \<or> (js_rem (sw_day w + 1) 7 = day \<and> minute < end')
      | _ \<Rightarrow> False)"

definition updateScheduleAllowsNow :: "update_schedule \<Rightarrow> int \<Rightarrow> int \<Rightarrow> int \<Rightarrow> bool" where
  "updateScheduleAllowsNow schedule day hours minutes =
     (case us_mode schedule of
        ModeAlways \<Rightarrow> True
      | ModeWindows \<Rightarrow> list_ex (window_allows day (hours * 60 + minutes)) (us_windows schedule))"

section \<open>Well-formed schedules\<close>

definition wf_window :: "schedule_window \<Rightarrow> bool" where
  "wf_window w \<longleftrightarrow> 0 \<le> sw_day w \<and> sw_day w \<le> 6 \<and> TIME_RE (sw_start w) \<noteq> None
     \<and> TIME_RE (sw_end w) \<noteq> None \<and> sw_start w \<noteq> sw_end w"

definition wf_schedule :: "update_schedule \<Rightarrow> bool" where
  "wf_schedule s \<longleftrightarrow>
     (case us_mode s of ModeAlways \<Rightarrow> us_windows s = []
      | ModeWindows \<Rightarrow> us_windows s \<noteq> [] \<and> list_all wf_window (us_windows s))"

text \<open>The setting as the admin form stores it.\<close>

definition window_json :: "schedule_window \<Rightarrow> json" where
  "window_json w = JObj [(''day'', JNum (of_int (sw_day w))), (''start'', JStr (sw_start w)),
                         (''end'', JStr (sw_end w))]"

definition schedule_json :: "update_schedule \<Rightarrow> json" where
  "schedule_json s =
     JObj [(''mode'', JStr (case us_mode s of ModeAlways \<Rightarrow> ''always'' | ModeWindows \<Rightarrow> ''windows'')),
           (''windows'', JArr (map window_json (us_windows s)))]"

text \<open>Minutes since Sunday midnight, and the specification of a window as an interval of the week.\<close>

definition week_minute :: "int \<Rightarrow> int \<Rightarrow> int \<Rightarrow> int" where
  "week_minute day hours minutes = day * 1440 + hours * 60 + minutes"

definition minutes_of :: "string \<Rightarrow> int" where
  "minutes_of s = (case parseMinutes s of Some m \<Rightarrow> m | None \<Rightarrow> 0)"

definition in_weekly_interval :: "schedule_window \<Rightarrow> int \<Rightarrow> bool" where
  "in_weekly_interval w t \<longleftrightarrow>
     (t - (sw_day w * 1440 + minutes_of (sw_start w))) mod 10080
       < (minutes_of (sw_end w) - minutes_of (sw_start w)) mod 1440"

lemma digit_value_le: "is_digit d \<Longrightarrow> digit_value d \<le> 9"
  unfolding is_digit_def digit_value_def by linarith

lemma TIME_RE_shape:
  assumes "TIME_RE s = Some (h, m)"
  obtains h1 h2 m1 m2 where "s = [h1, h2, CHR '':'', m1, m2]"
    "is_digit h1" "is_digit h2" "is_digit m1" "is_digit m2"
    "h = 10 * digit_value h1 + digit_value h2" "m = 10 * digit_value m1 + digit_value m2"
    "digit_value h1 \<le> 1 \<or> (digit_value h1 = 2 \<and> digit_value h2 \<le> 3)" "digit_value m1 \<le> 5"
proof -
  obtain h1 h2 c m1 m2 where s: "s = [h1, h2, c, m1, m2]"
    using assms by (auto simp: TIME_RE_def split: list.splits)
  have d: "digit_value (CHR ''0'') = 0" "digit_value (CHR ''1'') = 1" "digit_value (CHR ''2'') = 2"
      "is_digit (CHR ''0'')" "is_digit (CHR ''1'')" "is_digit (CHR ''2'')"
    by (simp_all add: digit_value_def is_digit_def)
  define ok where "ok \<longleftrightarrow> (((h1 = CHR ''0'' \<or> h1 = CHR ''1'') \<and> is_digit h2)
               \<or> (h1 = CHR ''2'' \<and> is_digit h2 \<and> digit_value h2 \<le> 3))
             \<and> c = CHR '':'' \<and> is_digit m1 \<and> digit_value m1 \<le> 5 \<and> is_digit m2"
  have "(if ok then Some (10 * digit_value h1 + digit_value h2, 10 * digit_value m1 + digit_value m2)
         else None) = Some (h, m)"
    using assms unfolding s TIME_RE_def ok_def list.case by assumption
  then have ok and hm: "h = 10 * digit_value h1 + digit_value h2" "m = 10 * digit_value m1 + digit_value m2"
    by (simp_all split: if_splits)
  then have "is_digit h1" "is_digit h2" "is_digit m1" "is_digit m2" "c = CHR '':''"
      "digit_value h1 \<le> 1 \<or> (digit_value h1 = 2 \<and> digit_value h2 \<le> 3)" "digit_value m1 \<le> 5"
    unfolding ok_def using d by (metis order_refl zero_le_one)+
  with hm s show thesis by (intro that [of h1 h2 m1 m2]) simp_all
qed

lemma TIME_RE_bounds:
  assumes "TIME_RE s = Some (h, m)" shows "h < 24" "m < 60"
proof -
  obtain h1 h2 m1 m2 where "is_digit h2" "is_digit m2"
    "h = 10 * digit_value h1 + digit_value h2" "m = 10 * digit_value m1 + digit_value m2"
    "digit_value h1 \<le> 1 \<or> (digit_value h1 = 2 \<and> digit_value h2 \<le> 3)" "digit_value m1 \<le> 5"
    using assms by (rule TIME_RE_shape)
  with digit_value_le [of h2] digit_value_le [of m2] show "h < 24" "m < 60" by linarith+
qed

lemma two_digits:
  fixes x y u v :: nat
  assumes "10 * x + y = 10 * u + v" and "y \<le> 9" and "v \<le> 9"
  shows "x = u \<and> y = v"
proof -
  have "x \<le> u" "u \<le> x" using assms by linarith+
  then show ?thesis using assms(1) by simp
qed

lemma hours_minutes:
  fixes x y u v :: nat
  assumes "int x * 60 + int y = int u * 60 + int v" and "y < 60" and "v < 60"
  shows "x = u \<and> y = v"
proof -
  have eq: "x * 60 + y = u * 60 + v"
    using assms(1) by linarith
  then have "(x * 60 + y) div 60 = (u * 60 + v) div 60" by (rule arg_cong)
  then have "x = u" using assms(2,3) by simp
  with eq show ?thesis by simp
qed

lemma parseMinutes_bounds: "parseMinutes s = Some n \<Longrightarrow> 0 \<le> n \<and> n < 1440"
  using TIME_RE_bounds [of s] by (fastforce simp: parseMinutes_def split: option.splits)

lemma digit_value_inj:
  assumes "is_digit a" and "is_digit b" and "digit_value a = digit_value b"
  shows "a = b"
  using assms unfolding is_digit_def digit_value_def
  by (metis eq_diff_iff of_char_eq_iff)

lemma TIME_RE_inj:
  assumes "TIME_RE s = Some (h, m)" and "TIME_RE t = Some (h, m)"
  shows "s = t"
proof -
  obtain a1 a2 a4 a5 where a: "s = [a1, a2, CHR '':'', a4, a5]"
    "is_digit a1" "is_digit a2" "is_digit a4" "is_digit a5"
    "h = 10 * digit_value a1 + digit_value a2" "m = 10 * digit_value a4 + digit_value a5"
    using TIME_RE_shape [OF assms(1)] by metis
  obtain b1 b2 b4 b5 where b: "t = [b1, b2, CHR '':'', b4, b5]"
    "is_digit b1" "is_digit b2" "is_digit b4" "is_digit b5"
    "h = 10 * digit_value b1 + digit_value b2" "m = 10 * digit_value b4 + digit_value b5"
    using TIME_RE_shape [OF assms(2)] by metis
  have "digit_value a1 = digit_value b1" "digit_value a2 = digit_value b2"
      "digit_value a4 = digit_value b4" "digit_value a5 = digit_value b5"
    using two_digits [OF _ digit_value_le [OF a(3)] digit_value_le [OF b(3)]]
      two_digits [OF _ digit_value_le [OF a(5)] digit_value_le [OF b(5)]] a(6,7) b(6,7) by metis+
  then show ?thesis
    using a b digit_value_inj by simp
qed

lemma minutes_of_inj:
  assumes "TIME_RE s \<noteq> None" and "TIME_RE t \<noteq> None" and "minutes_of s = minutes_of t"
  shows "s = t"
proof -
  obtain h m h' m' where t: "TIME_RE s = Some (h, m)" "TIME_RE t = Some (h', m')"
    using assms(1,2) by auto
  with assms(3) have "int h * 60 + int m = int h' * 60 + int m'"
    by (simp add: minutes_of_def parseMinutes_def)
  from hours_minutes [OF this TIME_RE_bounds(2) [OF t(1)] TIME_RE_bounds(2) [OF t(2)]]
  have "h = h'" "m = m'" by simp_all
  with t show ?thesis using TIME_RE_inj by simp
qed

lemma wf_window_minutes:
  assumes "wf_window w"
  obtains a b where "parseMinutes (sw_start w) = Some a" "parseMinutes (sw_end w) = Some b"
    "a \<noteq> b" "0 \<le> a" "a < 1440" "0 \<le> b" "b < 1440"
    "minutes_of (sw_start w) = a" "minutes_of (sw_end w) = b"
proof -
  obtain a b where ab: "parseMinutes (sw_start w) = Some a" "parseMinutes (sw_end w) = Some b"
    using assms by (force simp: wf_window_def parseMinutes_def)
  then have "minutes_of (sw_start w) = a" "minutes_of (sw_end w) = b"
    by (simp_all add: minutes_of_def)
  moreover have "a \<noteq> b"
    using assms minutes_of_inj [of "sw_start w" "sw_end w"] calculation by (auto simp: wf_window_def)
  ultimately show thesis
    using that ab parseMinutes_bounds [OF ab(1)] parseMinutes_bounds [OF ab(2)] by blast
qed

lemma mod_week:
  fixes x :: int
  assumes "- 10080 \<le> x" "x < 10080"
  shows "x mod 10080 = (if 0 \<le> x then x else x + 10080)"
proof (cases "0 \<le> x")
  case True
  with assms show ?thesis by simp
next
  case False
  with assms have "(x + 10080) mod 10080 = x + 10080" by (intro mod_pos_pos_trivial) simp_all
  with False show ?thesis by simp
qed

lemma weekly_interval_arith:
  fixes d day a b t :: int
  assumes r: "0 \<le> d" "d \<le> 6" "0 \<le> day" "day \<le> 6" "0 \<le> t" "t < 1440"
    and ab: "0 \<le> a" "a < 1440" "0 \<le> b" "b < 1440" "a \<noteq> b"
  shows "(day * 1440 + t - (d * 1440 + a)) mod 10080 < (b - a) mod 1440 \<longleftrightarrow>
         (if a < b then d = day \<and> t \<ge> a \<and> t < b
          else (d = day \<and> t \<ge> a) \<or> ((d + 1) mod 7 = day \<and> t < b))"
proof -
  define x where "x = (day - d) * 1440 + (t - a)"
  define len where "len = (if a < b then b - a else b - a + 1440)"
  have "- 8640 \<le> (day - d) * 1440" "(day - d) * 1440 \<le> 8640" using r by simp_all
  then have "x mod 10080 = (if 0 \<le> x then x else x + 10080)"
    using r ab by (intro mod_week) (simp_all add: x_def)
  moreover have "(b - a) mod 1440 = len"
  proof (cases "a < b")
    case False
    with ab have "(b - a + 1440) mod 1440 = b - a + 1440" by (intro mod_pos_pos_trivial) simp_all
    with False show ?thesis by (simp add: len_def)
  qed (use ab in \<open>simp add: len_def\<close>)
  moreover have "(d + 1) mod 7 = (if d = 6 then 0 else d + 1)" using r by auto
  moreover have "day * 1440 + t - (d * 1440 + a) = x" by (simp add: x_def algebra_simps)
  moreover consider "day = d" | "day = d + 1" | "d = 6" "day = 0"
    | "day - d \<ge> 2" | "day - d \<le> - 1" "day - d \<ge> - 5"
    using r by linarith
  then have "(if 0 \<le> x then x else x + 10080) < len \<longleftrightarrow>
         (if a < b then d = day \<and> t \<ge> a \<and> t < b
          else (d = day \<and> t \<ge> a) \<or> ((if d = 6 then 0 else d + 1) = day \<and> t < b))"
  proof cases
    case 4
    then have "(day - d) * 1440 \<ge> 2880" by simp
    with r ab 4 show ?thesis by (auto simp: x_def len_def)
  next
    case 5
    then have "(day - d) * 1440 \<le> - 1440" "(day - d) * 1440 \<ge> - 7200" by simp_all
    with r ab 5 show ?thesis by (auto simp: x_def len_def)
  qed (use r ab in \<open>auto simp: x_def len_def\<close>)
  ultimately show ?thesis by simp
qed

lemma window_allows_interval:
  assumes "wf_window w" and "0 \<le> day" "day \<le> 6" "0 \<le> t" "t < 1440"
  shows "window_allows day t w \<longleftrightarrow> in_weekly_interval w (day * 1440 + t)"
proof -
  obtain a b where ab: "parseMinutes (sw_start w) = Some a" "parseMinutes (sw_end w) = Some b"
    "a \<noteq> b" "0 \<le> a" "a < 1440" "0 \<le> b" "b < 1440"
    "minutes_of (sw_start w) = a" "minutes_of (sw_end w) = b"
    using wf_window_minutes [OF assms(1)] by metis
  have d: "0 \<le> sw_day w" "sw_day w \<le> 6"
    using assms(1) by (simp_all add: wf_window_def)
  show ?thesis
    unfolding in_weekly_interval_def ab(8,9)
      weekly_interval_arith [OF d assms(2-5) ab(4-7) ab(3)]
    using ab(3) d by (simp add: window_allows_def ab(1,2))
qed

section \<open>Normalisation\<close>

lemma normalizeWindow_wf: "normalizeWindow raw = Some w \<Longrightarrow> wf_window w"
  by (auto simp: normalizeWindow_def wf_window_def Let_def is_integer_def
      le_floor_iff floor_le_iff split: json.splits option.splits if_splits)

lemma normalizeUpdateSchedule_wf: "wf_schedule (normalizeUpdateSchedule raw)"
proof -
  have "list_all wf_window (List.map_filter normalizeWindow ws)" for ws
    by (auto simp: list_all_iff List.map_filter_def intro!: normalizeWindow_wf)
  then show ?thesis
    by (auto simp: normalizeUpdateSchedule_def wf_schedule_def DEFAULT_UPDATE_SCHEDULE_def Let_def
        split: json.splits)
qed

lemma normalizeWindow_json:
  assumes "wf_window w"
  shows "normalizeWindow (window_json w) = Some w"
proof -
  have "(0::number) \<le> of_int (sw_day w)" "of_int (sw_day w) \<le> (6::number)"
    using assms by (simp_all add: wf_window_def)
  with assms show ?thesis
    by (auto simp: normalizeWindow_def window_json_def wf_window_def Let_def not_less)
qed

lemma map_filter_normalize: "list_all wf_window ws \<Longrightarrow>
  List.map_filter normalizeWindow (map window_json ws) = ws"
  by (induction ws) (simp_all add: normalizeWindow_json List.map_filter_def)

section \<open>Properties\<close>

text \<open>
  (C32) For every stored setting and every local time, automatic updates are allowed exactly
  when the setting normalises to ``always'' or the current minute of the week lies in one
  of the intervals \<open>[start, end)\<close> taken modulo the week, so a window that crosses
  midnight or the end of the week is honoured on both sides of it.
\<close>

theorem schedule_weekly_intervals:
  assumes "0 \<le> day" "day \<le> 6" "0 \<le> hours" "hours \<le> 23" "0 \<le> minutes" "minutes \<le> 59"
  shows "updateScheduleAllowsNow (normalizeUpdateSchedule raw) day hours minutes \<longleftrightarrow>
         (us_mode (normalizeUpdateSchedule raw) = ModeAlways \<or>
          (\<exists>w \<in> set (us_windows (normalizeUpdateSchedule raw)).
             in_weekly_interval w (week_minute day hours minutes)))"
proof -
  let ?s = "normalizeUpdateSchedule raw"
  have "\<forall>w \<in> set (us_windows ?s). wf_window w"
    using normalizeUpdateSchedule_wf [of raw]
    by (auto simp: wf_schedule_def list_all_iff split: schedule_mode.splits)
  moreover have "0 \<le> hours * 60 + minutes" "hours * 60 + minutes < 1440" using assms by simp_all
  ultimately have "\<forall>w \<in> set (us_windows ?s). window_allows day (hours * 60 + minutes) w
      \<longleftrightarrow> in_weekly_interval w (week_minute day hours minutes)"
    using assms by (auto simp: window_allows_interval week_minute_def add.assoc)
  then show ?thesis
    by (auto simp: updateScheduleAllowsNow_def list_ex_iff split: schedule_mode.splits)
qed

text \<open>
  Normalisation accepts exactly what it produces: every result is well formed (a
  windows schedule is non-empty, days lie in 0..6, times are valid and different), and a
  well-formed schedule read back from its stored form is unchanged.
\<close>

theorem schedule_normalize_roundtrip:
  "wf_schedule (normalizeUpdateSchedule raw) \<and>
   normalizeUpdateSchedule (schedule_json (normalizeUpdateSchedule raw)) = normalizeUpdateSchedule raw"
proof -
  have "normalizeUpdateSchedule (schedule_json s) = s" if "wf_schedule s" for s
    using that
    by (cases s) (auto simp: normalizeUpdateSchedule_def schedule_json_def wf_schedule_def
        DEFAULT_UPDATE_SCHEDULE_def map_filter_normalize Let_def split: schedule_mode.splits)
  then show ?thesis using normalizeUpdateSchedule_wf by blast
qed

section \<open>Witness\<close>

definition night_setting :: json where
  "night_setting = JObj [(''mode'', JStr ''windows''),
     (''windows'', JArr [JObj [(''day'', JStr ''6''), (''start'', JStr ''22:30''), (''end'', JStr ''04:00'')]])]"

lemma night_normalized:
  "normalizeUpdateSchedule night_setting =
     \<lparr>us_mode = ModeWindows, us_windows = [\<lparr>sw_day = 6, sw_start = ''22:30'', sw_end = ''04:00''\<rparr>]\<rparr>"
  by (simp add: night_setting_def normalizeUpdateSchedule_def normalizeWindow_def Let_def
      List.map_filter_def string_to_number_def unsigned_decimal_def js_trim_def is_ws_def is_digit_def
      nat_of_digits_def digit_value_def scale10_def is_integer_def TIME_RE_def)

text \<open>A Saturday window from 22:30 to 04:00 allows an update on Sunday at 03:15.\<close>

theorem schedule_weekly_intervals_witness:
  "updateScheduleAllowsNow (normalizeUpdateSchedule night_setting) 0 3 15"
proof -
  have "in_weekly_interval \<lparr>sw_day = 6, sw_start = ''22:30'', sw_end = ''04:00''\<rparr> (week_minute 0 3 15)"
    by (simp add: in_weekly_interval_def week_minute_def minutes_of_def parseMinutes_def TIME_RE_def
        is_digit_def digit_value_def)
  then show ?thesis
    using schedule_weekly_intervals [of 0 3 15 night_setting] by (simp add: night_normalized)
qed

end
