(* ===== verification/BF_Types.thy ===== *)
theory BF_Types
  imports BF_Prelude
begin

text \<open>
  The domain types of \<^verbatim>\<open>server/src/shared/types.ts\<close>, field by field: an interface is a
  record whose fields carry a prefix, a union of string literals is a datatype, a
  nullable or optional field is an option, a \<^verbatim>\<open>Record<string, unknown>\<close> is a JSON value.
  Columns that hold an ISO 8601 time written by the server are numbers of milliseconds
  since the epoch; the ISO form of such a time and the number determine each other.
\<close>

type_synonym timestamp = number

section \<open>Enumerations\<close>

datatype user_role = RoleAdmin | RoleOperator

datatype api_key_scope = ScopeRead | ScopeControl | ScopeAdmin | ScopeDebug

datatype camera_type = CamRtsp | CamOnvif | CamCloud

datatype stream_role = StreamRoleMain | StreamRoleSub | StreamRoleOther

datatype stream_selector = SelAuto | SelMain | SelSub

datatype stream_policy = PolicyAuto | PolicyAlwaysMain | PolicyAlwaysSub

datatype layout_priority = PrioHot | PrioNormal | PrioCold

datatype cell_content_type = CellNone | CellCamera | CellWeb | CellHtml | CellAblesign

datatype entity_type = EntCamera | EntHtml | EntWeb | EntDashboard | EntAblesign

datatype iobox_hardware_variant = HwWifi | HwEthernet

datatype iobox_route_mode = RouteUnknown | RouteDirect | RouteProxy | RouteServer | RouteOffline

datatype iobox_port_kind = PortUsbKeyboard | PortUsbMouse | PortUsbSerial | PortRs485 | PortGpioInput | PortGpioOutput | PortPir | PortButton | PortLed | PortRelay | PortJoystick

datatype desired_power_state = DesiredFollowLayout | DesiredOn | DesiredStandby

datatype actual_power_state = ActualAwake | ActualStandby | ActualUnknown

datatype label_role = LabelRoleConsume | LabelRoleOperate

datatype event_source_type = SourceOnvif | SourceGpio | SourceSynthetic | SourceSystem | SourceIo | SourceInteraction

datatype audit_actor_type = ActorUser | ActorApiKey | ActorSystem | ActorKiosk

datatype audit_result = AuditOk | AuditFailed

datatype firmware_channel = ChStable | ChBeta | ChDev

datatype rollout_state = RolloutQueued | RolloutActive | RolloutPaused | RolloutComplete

datatype gpio_direction = GpioIn | GpioOut

datatype gpio_pull = PullUp | PullDown | PullNone

datatype gpio_edge = EdgeRising | EdgeFalling | EdgeBoth

datatype kiosk_log_level = LogDebug | LogInfo | LogWarn | LogError

datatype fit_mode = FitCover | FitContain | FitFill

datatype os_update_state = Installed | PendingReboot | Confirmed | RolledBack | Failed

section \<open>Rows\<close>

record iobox_port_spec =
  iop_id :: "string"
  iop_label :: "string"
  iop_kind :: "iobox_port_kind"
  iop_enabled :: "bool"
  iop_gpio :: "number option"
  iop_index :: "number option"
  iop_active_low :: "bool option"
  iop_debounce_ms :: "number option"
  iop_default_topic :: "string option"
  iop_config :: "json option"

record iobox_model =
  iom_id :: "string"
  iom_name :: "string"
  iom_description :: "string option"
  iom_hardware_variant :: "iobox_hardware_variant"
  iom_firmware_arch :: "string"
  iom_firmware_track :: "string"
  iom_capabilities_json :: "json"
  iom_ports_json :: "iobox_port_spec list"
  iom_created_at :: "timestamp"

record iobox_serial =
  ios_serial :: "string"
  ios_model_id :: "string"
  ios_notes :: "string option"
  ios_registered_at :: "timestamp"
  ios_paired_tenant_id :: "string option"
  ios_paired_iobox_id :: "string option"
  ios_last_seen_at :: "timestamp option"

record iobox =
  iob_id :: "string"
  iob_serial :: "string"
  iob_model_id :: "string"
  iob_name :: "string"
  iob_key_hash :: "string option"
  iob_key_prefix :: "string option"
  iob_enabled :: "bool"
  iob_paired_at :: "timestamp option"
  iob_last_seen_at :: "timestamp option"
  iob_assigned_display_id :: "string option"
  iob_firmware_version :: "string option"
  iob_firmware_channel :: "firmware_channel"
  iob_firmware_target_version :: "string option"
  iob_firmware_last_attempt_at :: "timestamp option"
  iob_firmware_last_attempt_version :: "string option"
  iob_firmware_last_error :: "string option"
  iob_config_json :: "json"
  iob_config_version :: "number"
  iob_config_applied_version :: "number"
  iob_config_applied_at :: "timestamp option"
  iob_config_error :: "string option"
  iob_route_mode :: "iobox_route_mode"
  iob_local_last_ip :: "string option"
  iob_network_json :: "json"
  iob_created_at :: "timestamp"

record entity =
  ent_id :: "string"
  ent_name :: "string"
  ent_type :: "entity_type"
  ent_description :: "string option"
  ent_camera_id :: "string option"
  ent_html_content :: "string option"
  ent_web_url :: "string option"
  ent_dashboard_id :: "string option"
  ent_ablesign_screen_id :: "string option"
  ent_managed :: "bool"
  ent_input_options_json :: "json"
  ent_created_at :: "timestamp"

record user =
  u_id :: "string"
  u_username :: "string"
  u_password_hash :: "string"
  u_role :: "user_role"
  u_is_active :: "bool"
  u_totp_enabled :: "bool"
  u_totp_secret_encrypted :: "string option"
  u_recovery_codes_hashed :: "string list"
  u_must_change_password :: "bool"
  u_failed_login_count :: "number"
  u_locked_until :: "timestamp option"
  u_last_login_at :: "timestamp option"
  u_created_at :: "timestamp"

record session =
  ss_id :: "string"
  ss_user_id :: "string"
  ss_csrf_token :: "string"
  ss_totp_pending :: "bool"
  ss_user_agent :: "string option"
  ss_ip_address :: "string option"
  ss_issued_at :: "timestamp"
  ss_last_seen_at :: "timestamp"
  ss_expires_at :: "timestamp"
  ss_revoked_at :: "timestamp option"

record api_key =
  ak_id :: "string"
  ak_name :: "string"
  ak_key_hash :: "string"
  ak_key_prefix :: "string"
  ak_scopes :: "api_key_scope list"
  ak_expires_at :: "timestamp option"
  ak_last_used_at :: "timestamp option"
  ak_last_used_ip :: "string option"
  ak_created_at :: "timestamp"
  ak_revoked_at :: "timestamp option"

record display =
  d_id :: "string"
  d_name :: "string"
  d_index :: "number"
  d_is_primary :: "bool"
  d_kiosk_id :: "string option"
  d_width_px :: "number"
  d_height_px :: "number"
  d_default_layout_id :: "string option"
  d_idle_timeout_seconds :: "number"
  d_sleep_timeout_seconds :: "number"
  d_cec_enabled :: "bool"
  d_cec_device_path :: "string option"
  d_cec_logical_address :: "number option"
  d_desired_power_state :: "desired_power_state"
  d_actual_power_state :: "actual_power_state"
  d_actual_power_state_at :: "timestamp option"
  d_state_check_enabled :: "bool"
  d_state_check_interval_seconds :: "number"
  d_is_enabled :: "bool"
  d_active_layout_id :: "string option"

record camera =
  cam_local_short_key :: "string option"
  cam_id :: "string"
  cam_device_id :: "string option"
  cam_device_channel_id :: "string option"
  cam_name :: "string"
  cam_camera_number :: "string option"
  cam_type :: "camera_type"
  cam_rtsp_url :: "string option"
  cam_onvif_host :: "string option"
  cam_onvif_port :: "number option"
  cam_onvif_username :: "string option"
  cam_onvif_password :: "string option"
  cam_capabilities :: "string list"
  cam_stream_policy :: "stream_policy"
  cam_enabled :: "bool"
  cam_last_seen_at :: "timestamp option"
  cam_created_at :: "timestamp"
  cam_event_source :: "string"
  cam_event_sink :: "string"
  cam_supported_event_topics :: "string list"
  cam_cloud_account_id :: "string option"
  cam_cloud_vendor_camera_id :: "string option"
  cam_cloud_stream_url :: "string option"
  cam_cloud_stream_type :: "string option"
  cam_event_callback_nonce :: "string option"
  cam_event_callback_token_hash :: "string option"
  cam_recording_config_json :: "json"

record camera_device =
  cd_id :: "string"
  cd_name :: "string"
  cd_type :: "unit"
  cd_host :: "string"
  cd_port :: "number"
  cd_username :: "string option"
  cd_password :: "string option"
  cd_discovery_runner :: "string"
  cd_layout_defaults_json :: "json"
  cd_created_at :: "timestamp"

record camera_stream =
  cs_id :: "string"
  cs_camera_id :: "string"
  cs_role :: "stream_role"
  cs_name :: "string"
  cs_profile_token :: "string option"
  cs_rtsp_uri :: "string"
  cs_rtsp_host :: "string option"
  cs_rtsp_port :: "number option"
  cs_rtsp_path :: "string option"
  cs_width :: "number option"
  cs_height :: "number option"
  cs_encoding :: "string option"
  cs_framerate :: "number option"
  cs_bitrate_kbps :: "number option"
  cs_is_discovered :: "bool"

record layout_region =
  lr_name :: "string"
  lr_row :: "number"
  lr_col :: "number"
  lr_rowSpan :: "number"
  lr_colSpan :: "number"

record layout =
  l_local_short_key :: "string option"
  l_id :: "string"
  l_name :: "string"
  l_description :: "string option"
  l_template_id :: "string option"
  l_regions :: "layout_region list"
  l_grid_cols :: "number"
  l_grid_rows :: "number"
  l_display_id :: "string option"
  l_priority :: "layout_priority"
  l_cooling_timeout_seconds :: "number option"
  l_idle_timeout_seconds :: "number option"
  l_preload_camera_ids :: "string list"
  l_is_default :: "bool"
  l_resets_idle_timer :: "bool"
  l_input_options_json :: "json"

record layout_cell =
  lc_id :: "string"
  lc_layout_id :: "string"
  lc_region_name :: "string"
  lc_row :: "number"
  lc_col :: "number"
  lc_row_span :: "number"
  lc_col_span :: "number"
  lc_content_type :: "cell_content_type"
  lc_camera_id :: "string option"
  lc_stream_selector :: "stream_selector"
  lc_web_url :: "string option"
  lc_html_content :: "string option"
  lc_cooling_timeout_seconds :: "number option"
  lc_options :: "json"
  lc_input_options_json :: "json"
  lc_entity_id :: "string option"
  lc_fit :: "fit_mode"

record kiosk =
  k_id :: "string"
  k_name :: "string"
  k_description :: "string option"
  k_key_hash :: "string"
  k_key_prefix :: "string"
  k_capabilities :: "string list"
  k_hardware_model :: "string option"
  k_os_version :: "string option"
  k_kiosk_app_version :: "string option"
  k_firmware_target :: "string option"
  k_os_update_compatibility :: "string option"
  k_enabled :: "bool"
  k_paired_at :: "timestamp option"
  k_last_seen_at :: "timestamp option"
  k_last_bundle_version :: "string option"
  k_display_id :: "string option"
  k_cpu_temp_c :: "number option"
  k_cpu_load_percent :: "number option"
  k_gpu_load_percent :: "number option"
  k_fan_rpm :: "number option"
  k_fan_pwm :: "number option"
  k_memory_total_mb :: "number option"
  k_memory_used_mb :: "number option"
  k_disk_total_mb :: "number option"
  k_disk_free_mb :: "number option"
  k_disk_used_percent :: "number option"
  k_windows_update_push :: "string option option"
  k_firmware_channel :: "firmware_channel"
  k_firmware_target_version :: "string option"
  k_firmware_last_attempt_at :: "timestamp option"
  k_firmware_last_attempt_version :: "string option"
  k_firmware_last_error :: "string option"
  k_os_update_channel :: "firmware_channel"
  k_os_update_target_version :: "string option"
  k_os_update_last_attempt_at :: "timestamp option"
  k_os_update_last_attempt_version :: "string option"
  k_os_update_last_error :: "string option"
  k_os_update_state :: "os_update_state"
  k_audio_default_volume_percent :: "number"
  k_local_key :: "string option"
  k_local_port :: "number option"
  k_local_last_ip :: "string option"
  k_encrypt_key_encrypted :: "string option"
  k_reported_hostname :: "string option"
  k_network_interfaces_json :: "string option"
  k_logging_json :: "string option"
  k_renderer_telemetry_json :: "string option"
  k_operator_console_enabled :: "bool"
  k_operator_console_host :: "string option"
  k_operator_console_port :: "number"
  k_operator_tools_json :: "string option"
  k_simple_vms_enabled :: "bool"
  k_simple_vms_storage_path :: "string option"
  k_simple_vms_settings_json :: "string option"
  k_managed_image :: "bool"
  k_managed_config_json :: "string option"
  k_managed_config_version :: "number"
  k_managed_config_applied_version :: "number"
  k_managed_config_applied_at :: "timestamp option"
  k_managed_config_error :: "string option"
  k_created_at :: "timestamp"

record audit_entry =
  ae_id :: "string"
  ae_ts :: "timestamp"
  ae_actor_type :: "audit_actor_type"
  ae_actor_id :: "string option"
  ae_actor_label :: "string option"
  ae_action :: "string"
  ae_resource_type :: "string option"
  ae_resource_id :: "string option"
  ae_ip :: "string option"
  ae_metadata :: "json"
  ae_result :: "audit_result"

record firmware_release =
  fr_id :: "string"
  fr_version :: "string"
  fr_channel :: "firmware_channel"
  fr_arch :: "string"
  fr_artifact_path :: "string"
  fr_size_bytes :: "number"
  fr_sha256 :: "string"
  fr_signature :: "string"
  fr_release_notes :: "string option"
  fr_uploaded_at :: "timestamp"
  fr_uploaded_by :: "string option"
  fr_yanked_at :: "timestamp option"

record firmware_rollout =
  fo_id :: "string"
  fo_release_id :: "string"
  fo_target_kiosk_ids :: "string list"
  fo_state :: "rollout_state"
  fo_percentage :: "number"
  fo_started_at :: "timestamp option"
  fo_finished_at :: "timestamp option"
  fo_created_at :: "timestamp"
  fo_created_by :: "string option"

record os_update_release =
  orl_id :: "string"
  orl_version :: "string"
  orl_channel :: "firmware_channel"
  orl_compatibility :: "string"
  orl_artifact_path :: "string"
  orl_size_bytes :: "number"
  orl_sha256 :: "string"
  orl_bundle_format :: "unit"
  orl_release_notes :: "string option"
  orl_uploaded_at :: "timestamp"
  orl_uploaded_by :: "string option"
  orl_yanked_at :: "timestamp option"

record os_update_rollout =
  oo_id :: "string"
  oo_release_id :: "string"
  oo_target_kiosk_ids :: "string list"
  oo_state :: "rollout_state"
  oo_percentage :: "number"
  oo_started_at :: "timestamp option"
  oo_finished_at :: "timestamp option"
  oo_created_at :: "timestamp"
  oo_created_by :: "string option"

record label_row =
  lab_id :: "string"
  lab_name :: "string"
  lab_description :: "string option"
  lab_color :: "string option"
  lab_created_at :: "timestamp"

record kiosk_label =
  kl_kiosk_id :: "string"
  kl_label_id :: "string"
  kl_role :: "label_role"

record gpio_binding =
  gb_id :: "string"
  gb_kiosk_id :: "string"
  gb_chip :: "string"
  gb_pin :: "number"
  gb_direction :: "gpio_direction"
  gb_pull :: "gpio_pull option"
  gb_edge :: "gpio_edge option"
  gb_topic :: "string"
  gb_created_at :: "timestamp"

record event_log =
  ev_id :: "string"
  ev_source_kiosk_id :: "string option"
  ev_source_camera_id :: "string option"
  ev_source_iobox_id :: "string option"
  ev_ingress_path :: "string option"
  ev_source_type :: "event_source_type"
  ev_topic :: "string"
  ev_property_op :: "string option"
  ev_payload :: "json"
  ev_received_at :: "timestamp"
  ev_forwarded_to_nodered :: "bool"

record tenant =
  tn_id :: "string"
  tn_name :: "string"
  tn_slug :: "string"
  tn_schema_name :: "string"
  tn_is_active :: "bool"
  tn_max_kiosks :: "number option"
  tn_max_cameras :: "number option"
  tn_max_users :: "number option"
  tn_created_at :: "timestamp"

record kiosk_log =
  kg_id :: "string"
  kg_kiosk_id :: "string"
  kg_level :: "kiosk_log_level"
  kg_message :: "string"
  kg_context :: "json"
  kg_logged_at :: "timestamp"
  kg_received_at :: "timestamp"

end
