(* ===== verification/BF_Samples.thy ===== *)
theory BF_Samples
  imports BF_Types
begin

text \<open>
  Plain rows from which the witnesses of the component theories build concrete inputs.
\<close>

definition sample_kiosk :: kiosk where
  "sample_kiosk =
     \<lparr>k_id = [],
      k_name = [],
      k_description = None,
      k_key_hash = [],
      k_key_prefix = [],
      k_capabilities = [],
      k_hardware_model = None,
      k_os_version = None,
      k_kiosk_app_version = None,
      k_firmware_target = None,
      k_os_update_compatibility = None,
      k_enabled = True,
      k_paired_at = None,
      k_last_seen_at = None,
      k_last_bundle_version = None,
      k_display_id = None,
      k_cpu_temp_c = None,
      k_cpu_load_percent = None,
      k_gpu_load_percent = None,
      k_fan_rpm = None,
      k_fan_pwm = None,
      k_memory_total_mb = None,
      k_memory_used_mb = None,
      k_disk_total_mb = None,
      k_disk_free_mb = None,
      k_disk_used_percent = None,
      k_windows_update_push = None,
      k_firmware_channel = ChStable,
      k_firmware_target_version = None,
      k_firmware_last_attempt_at = None,
      k_firmware_last_attempt_version = None,
      k_firmware_last_error = None,
      k_os_update_channel = ChStable,
      k_os_update_target_version = None,
      k_os_update_last_attempt_at = None,
      k_os_update_last_attempt_version = None,
      k_os_update_last_error = None,
      k_os_update_state = Installed,
      k_audio_default_volume_percent = 0,
      k_local_key = None,
      k_local_port = None,
      k_local_last_ip = None,
      k_encrypt_key_encrypted = None,
      k_reported_hostname = None,
      k_network_interfaces_json = None,
      k_logging_json = None,
      k_renderer_telemetry_json = None,
      k_operator_console_enabled = True,
      k_operator_console_host = None,
      k_operator_console_port = 0,
      k_operator_tools_json = None,
      k_simple_vms_enabled = True,
      k_simple_vms_storage_path = None,
      k_simple_vms_settings_json = None,
      k_managed_image = True,
      k_managed_config_json = None,
      k_managed_config_version = 0,
      k_managed_config_applied_version = 0,
      k_managed_config_applied_at = None,
      k_managed_config_error = None,
      k_created_at = 0\<rparr>"

definition sample_display :: display where
  "sample_display =
     \<lparr>d_id = [],
      d_name = [],
      d_index = 0,
      d_is_primary = True,
      d_kiosk_id = None,
      d_width_px = 0,
      d_height_px = 0,
      d_default_layout_id = None,
      d_idle_timeout_seconds = 0,
      d_sleep_timeout_seconds = 0,
      d_cec_enabled = True,
      d_cec_device_path = None,
      d_cec_logical_address = None,
      d_desired_power_state = DesiredFollowLayout,
      d_actual_power_state = ActualAwake,
      d_actual_power_state_at = None,
      d_state_check_enabled = True,
      d_state_check_interval_seconds = 0,
      d_is_enabled = True,
      d_active_layout_id = None\<rparr>"

definition sample_camera :: camera where
  "sample_camera =
     \<lparr>cam_local_short_key = None,
      cam_id = [],
      cam_device_id = None,
      cam_device_channel_id = None,
      cam_name = [],
      cam_camera_number = None,
      cam_type = CamRtsp,
      cam_rtsp_url = None,
      cam_onvif_host = None,
      cam_onvif_port = None,
      cam_onvif_username = None,
      cam_onvif_password = None,
      cam_capabilities = [],
      cam_stream_policy = PolicyAuto,
      cam_enabled = True,
      cam_last_seen_at = None,
      cam_created_at = 0,
      cam_event_source = [],
      cam_event_sink = [],
      cam_supported_event_topics = [],
      cam_cloud_account_id = None,
      cam_cloud_vendor_camera_id = None,
      cam_cloud_stream_url = None,
      cam_cloud_stream_type = None,
      cam_event_callback_nonce = None,
      cam_event_callback_token_hash = None,
      cam_recording_config_json = JObj []\<rparr>"

definition sample_layout :: layout where
  "sample_layout =
     \<lparr>l_local_short_key = None,
      l_id = [],
      l_name = [],
      l_description = None,
      l_template_id = None,
      l_regions = [],
      l_grid_cols = 0,
      l_grid_rows = 0,
      l_display_id = None,
      l_priority = PrioHot,
      l_cooling_timeout_seconds = None,
      l_idle_timeout_seconds = None,
      l_preload_camera_ids = [],
      l_is_default = True,
      l_resets_idle_timer = True,
      l_input_options_json = JObj []\<rparr>"

definition sample_layout_cell :: layout_cell where
  "sample_layout_cell =
     \<lparr>lc_id = [],
      lc_layout_id = [],
      lc_region_name = [],
      lc_row = 0,
      lc_col = 0,
      lc_row_span = 0,
      lc_col_span = 0,
      lc_content_type = CellNone,
      lc_camera_id = None,
      lc_stream_selector = SelAuto,
      lc_web_url = None,
      lc_html_content = None,
      lc_cooling_timeout_seconds = None,
      lc_options = JObj [],
      lc_input_options_json = JObj [],
      lc_entity_id = None,
      lc_fit = FitCover\<rparr>"

definition sample_entity :: entity where
  "sample_entity =
     \<lparr>ent_id = [],
      ent_name = [],
      ent_type = EntCamera,
      ent_description = None,
      ent_camera_id = None,
      ent_html_content = None,
      ent_web_url = None,
      ent_dashboard_id = None,
      ent_ablesign_screen_id = None,
      ent_managed = True,
      ent_input_options_json = JObj [],
      ent_created_at = 0\<rparr>"

definition sample_tenant :: tenant where
  "sample_tenant =
     \<lparr>tn_id = [],
      tn_name = [],
      tn_slug = [],
      tn_schema_name = [],
      tn_is_active = True,
      tn_max_kiosks = None,
      tn_max_cameras = None,
      tn_max_users = None,
      tn_created_at = 0\<rparr>"

definition sample_user :: user where
  "sample_user =
     \<lparr>u_id = [],
      u_username = [],
      u_password_hash = [],
      u_role = RoleAdmin,
      u_is_active = True,
      u_totp_enabled = True,
      u_totp_secret_encrypted = None,
      u_recovery_codes_hashed = [],
      u_must_change_password = True,
      u_failed_login_count = 0,
      u_locked_until = None,
      u_last_login_at = None,
      u_created_at = 0\<rparr>"

definition sample_session :: session where
  "sample_session =
     \<lparr>ss_id = [],
      ss_user_id = [],
      ss_csrf_token = [],
      ss_totp_pending = True,
      ss_user_agent = None,
      ss_ip_address = None,
      ss_issued_at = 0,
      ss_last_seen_at = 0,
      ss_expires_at = 0,
      ss_revoked_at = None\<rparr>"

definition sample_api_key :: api_key where
  "sample_api_key =
     \<lparr>ak_id = [],
      ak_name = [],
      ak_key_hash = [],
      ak_key_prefix = [],
      ak_scopes = [],
      ak_expires_at = None,
      ak_last_used_at = None,
      ak_last_used_ip = None,
      ak_created_at = 0,
      ak_revoked_at = None\<rparr>"

definition sample_firmware_release :: firmware_release where
  "sample_firmware_release =
     \<lparr>fr_id = [],
      fr_version = [],
      fr_channel = ChStable,
      fr_arch = [],
      fr_artifact_path = [],
      fr_size_bytes = 0,
      fr_sha256 = [],
      fr_signature = [],
      fr_release_notes = None,
      fr_uploaded_at = 0,
      fr_uploaded_by = None,
      fr_yanked_at = None\<rparr>"

definition sample_firmware_rollout :: firmware_rollout where
  "sample_firmware_rollout =
     \<lparr>fo_id = [],
      fo_release_id = [],
      fo_target_kiosk_ids = [],
      fo_state = RolloutQueued,
      fo_percentage = 0,
      fo_started_at = None,
      fo_finished_at = None,
      fo_created_at = 0,
      fo_created_by = None\<rparr>"

definition sample_iobox :: iobox where
  "sample_iobox =
     \<lparr>iob_id = [],
      iob_serial = [],
      iob_model_id = [],
      iob_name = [],
      iob_key_hash = None,
      iob_key_prefix = None,
      iob_enabled = True,
      iob_paired_at = None,
      iob_last_seen_at = None,
      iob_assigned_display_id = None,
      iob_firmware_version = None,
      iob_firmware_channel = ChStable,
      iob_firmware_target_version = None,
      iob_firmware_last_attempt_at = None,
      iob_firmware_last_attempt_version = None,
      iob_firmware_last_error = None,
      iob_config_json = JObj [],
      iob_config_version = 0,
      iob_config_applied_version = 0,
      iob_config_applied_at = None,
      iob_config_error = None,
      iob_route_mode = RouteUnknown,
      iob_local_last_ip = None,
      iob_network_json = JObj [],
      iob_created_at = 0\<rparr>"

definition sample_iobox_serial :: iobox_serial where
  "sample_iobox_serial =
     \<lparr>ios_serial = [],
      ios_model_id = [],
      ios_notes = None,
      ios_registered_at = 0,
      ios_paired_tenant_id = None,
      ios_paired_iobox_id = None,
      ios_last_seen_at = None\<rparr>"

definition sample_iobox_model :: iobox_model where
  "sample_iobox_model =
     \<lparr>iom_id = [],
      iom_name = [],
      iom_description = None,
      iom_hardware_variant = HwWifi,
      iom_firmware_arch = [],
      iom_firmware_track = [],
      iom_capabilities_json = JObj [],
      iom_ports_json = [],
      iom_created_at = 0\<rparr>"

lemmas sample_defs =
  sample_kiosk_def
  sample_display_def
  sample_camera_def
  sample_layout_def
  sample_layout_cell_def
  sample_entity_def
  sample_tenant_def
  sample_user_def
  sample_session_def
  sample_api_key_def
  sample_firmware_release_def
  sample_firmware_rollout_def
  sample_iobox_def
  sample_iobox_serial_def
  sample_iobox_model_def

end
