(* ===== verification/BF_Version.thy ===== *)
theory BF_Version
  imports BF_Samples
begin

text \<open>
  Release versions and the decisions taken on them: \<^verbatim>\<open>version.ts\<close> (parsing, precedence,
  the upgrade test), \<^verbatim>\<open>os-update-status.ts\<close> (reconciling a device's update report),
  \<^verbatim>\<open>kiosk-channels.ts\<close> and \<^verbatim>\<open>firmware-targets.ts\<close>.
\<close>

section \<open>Parsing a version\<close>

text \<open>
  \<^verbatim>\<open>Number(digits)\<close>: the nearest IEEE double, ties to even, written as a natural number;
  \<open>2 ^ 1024\<close> stands for \<^verbatim>\<open>Infinity\<close>.
\<close>

fun excess_bits :: "nat \<Rightarrow> nat" where
  "excess_bits n = (if n < 2 ^ 53 then 0 else Suc (excess_bits (n div 2)))"

declare excess_bits.simps [simp del]

definition js_number_of_nat :: "nat \<Rightarrow> nat" where
  "js_number_of_nat n =
     (if n < 2 ^ 53 then n
      else let e = excess_bits n;
               q = n div 2 ^ e;
               r = n mod 2 ^ e;
               half = 2 ^ (e - 1);
               q' = (if r > half \<or> (r = half \<and> odd q) then q + 1 else q)
           in min (q' * 2 ^ e) (2 ^ 1024))"

datatype prerelease_part = PreNum nat | PreStr string

record parsed_version =
  pv_core :: "nat list"
  pv_prerelease :: "prerelease_part list"

definition scan_digits :: "string \<Rightarrow> (string \<times> string) option" where
  "scan_digits s =
     (let d = takeWhile is_digit s in if d = [] then None else Some (d, dropWhile is_digit s))"

fun expect_char :: "char \<Rightarrow> string \<Rightarrow> string option" where
  "expect_char c [] = None"
| "expect_char c (x # xs) = (if x = c then Some xs else None)"

definition is_prerelease_char :: "char \<Rightarrow> bool" where
  "is_prerelease_char c \<longleftrightarrow> is_alnum c \<or> c = CHR ''.'' \<or> c = CHR ''-''"

definition version_match :: "string \<Rightarrow> (string list \<times> string option) option" where
  "version_match s =
     (let s0 = (case s of CHR ''v'' # r \<Rightarrow> r | _ \<Rightarrow> s) in
      case scan_digits s0 of None \<Rightarrow> None | Some (a, r1) \<Rightarrow>
      (case expect_char (CHR ''.'') r1 of None \<Rightarrow> None | Some r2 \<Rightarrow>
      (case scan_digits r2 of None \<Rightarrow> None | Some (b, r3) \<Rightarrow>
      (case expect_char (CHR ''.'') r3 of None \<Rightarrow> None | Some r4 \<Rightarrow>
      (case scan_digits r4 of None \<Rightarrow> None | Some (c, r5) \<Rightarrow>
      (case r5 of
         [] \<Rightarrow> Some ([a, b, c], None)
       | x # pre \<Rightarrow>
           if x = CHR ''-'' \<and> pre \<noteq> [] \<and> list_all is_prerelease_char pre
           then Some ([a, b, c], Some pre) else None))))))"

definition prerelease_of :: "string \<Rightarrow> prerelease_part" where
  "prerelease_of part =
     (if part \<noteq> [] \<and> list_all is_digit part
      then PreNum (js_number_of_nat (nat_of_digits part)) else PreStr part)"

definition parseVersion :: "string \<Rightarrow> parsed_version option" where
  "parseVersion v =
     (case version_match (js_trim v) of
        None \<Rightarrow> None
      | Some (nums, pre) \<Rightarrow>
          (let core = map (\<lambda>d. js_number_of_nat (nat_of_digits d)) nums in
           if \<exists>part \<in> set core. \<not> part \<le> 9007199254740991 then None
           else Some \<lparr>pv_core = core,
                      pv_prerelease = (case pre of None \<Rightarrow> []
                        | Some p \<Rightarrow> map prerelease_of (split_on (CHR ''.'') p))\<rparr>))"

section \<open>Precedence\<close>

text \<open>
  The comparison of two alphanumeric identifiers is \<^verbatim>\<open>String.prototype.localeCompare\<close>,
  which depends on the locale of the process: the parameter \<open>lc\<close>.  What is relied on is
  that a collation is antisymmetric and transitive.
\<close>

definition collation_ok :: "(string \<Rightarrow> string \<Rightarrow> int) \<Rightarrow> bool" where
  "collation_ok lc \<longleftrightarrow>
     (\<forall>a b. 0 < lc a b \<longleftrightarrow> lc b a < 0) \<and>
     (\<forall>a b c. lc a b > 0 \<longrightarrow> lc b c > 0 \<longrightarrow> lc a c > 0)"

fun compare_core :: "nat list \<Rightarrow> nat list \<Rightarrow> int" where
  "compare_core (a # as) (b # bs) = (if a \<noteq> b then int a - int b else compare_core as bs)"
| "compare_core _ _ = 0"

fun compare_part :: "(string \<Rightarrow> string \<Rightarrow> int) \<Rightarrow> prerelease_part \<Rightarrow> prerelease_part \<Rightarrow> int" where
  "compare_part lc (PreNum a) (PreNum b) = int a - int b"
| "compare_part lc (PreNum a) (PreStr b) = -1"
| "compare_part lc (PreStr a) (PreNum b) = 1"
| "compare_part lc (PreStr a) (PreStr b) = lc a b"

fun compare_prerelease ::
  "(string \<Rightarrow> string \<Rightarrow> int) \<Rightarrow> prerelease_part list \<Rightarrow> prerelease_part list \<Rightarrow> int" where
  "compare_prerelease lc [] [] = 0"
| "compare_prerelease lc [] (b # bs) = -1"
| "compare_prerelease lc (a # as) [] = 1"
| "compare_prerelease lc (a # as) (b # bs) =
     (if a = b then compare_prerelease lc as bs else compare_part lc a b)"

definition compareVersions ::
  "(string \<Rightarrow> string \<Rightarrow> int) \<Rightarrow> parsed_version \<Rightarrow> parsed_version \<Rightarrow> int" where
  "compareVersions lc left right =
     (if pv_core left \<noteq> pv_core right then compare_core (pv_core left) (pv_core right)
      else if pv_prerelease left = [] \<or> pv_prerelease right = []
      then (if length (pv_prerelease left) = length (pv_prerelease right) then 0
            else if pv_prerelease left = [] then 1 else -1)
      else compare_prerelease lc (pv_prerelease left) (pv_prerelease right))"

definition isVersionUpgrade :: "(string \<Rightarrow> string \<Rightarrow> int) \<Rightarrow> string \<Rightarrow> string \<Rightarrow> bool" where
  "isVersionUpgrade lc candidate installed =
     (case parseVersion candidate of
        None \<Rightarrow> False
      | Some nxt \<Rightarrow>
          (case parseVersion installed of
             Some current \<Rightarrow> compareVersions lc nxt current > 0
           | None \<Rightarrow> js_trim candidate \<noteq> js_trim installed))"

lemma parseVersion_core_length: "parseVersion v = Some p \<Longrightarrow> length (pv_core p) = 3"
  by (auto simp: parseVersion_def version_match_def Let_def
      split: option.splits list.splits if_splits char.splits bool.splits)

lemma compare_core_asym: "0 < compare_core as bs \<longleftrightarrow> compare_core bs as < 0"
  by (induction as bs rule: compare_core.induct) auto

lemma compare_core_trans:
  assumes "length as = length bs" and "length bs = length cs"
    and "compare_core as bs > 0" and "compare_core bs cs > 0"
  shows "compare_core as cs > 0"
  using assms
proof (induction as arbitrary: bs cs)
  case Nil
  then show ?case by simp
next
  case (Cons a as)
  then obtain b bs' where b: "bs = b # bs'" by (cases bs) simp_all
  with Cons.prems obtain c cs' where c: "cs = c # cs'" by (cases cs) simp_all
  note eq = b c
  with Cons.prems have "length as = length bs'" "length bs' = length cs'" by simp_all
  note IH = Cons.IH [OF this]
  have ab: "a > b \<or> (a = b \<and> compare_core as bs' > 0)"
    using Cons.prems(3) by (simp add: eq split: if_splits)
  have bc: "b > c \<or> (b = c \<and> compare_core bs' cs' > 0)"
    using Cons.prems(4) by (simp add: eq split: if_splits)
  from ab bc IH show ?case by (auto simp: eq)
qed

lemma compare_part_asym:
  assumes "collation_ok lc"
  shows "0 < compare_part lc a b \<longleftrightarrow> compare_part lc b a < 0"
  using assms by (cases a; cases b) (auto simp: collation_ok_def)

lemma compare_part_trans:
  assumes "collation_ok lc" and "compare_part lc a b > 0" and "compare_part lc b c > 0"
  shows "compare_part lc a c > 0"
proof -
  have lt: "\<And>x y z. lc x y > 0 \<Longrightarrow> lc y z > 0 \<Longrightarrow> lc x z > 0"
    using assms(1) unfolding collation_ok_def by blast
  show ?thesis
    using assms(2,3) by (cases a; cases b; cases c) (auto intro: lt)
qed

lemma compare_part_refl: "collation_ok lc \<Longrightarrow> \<not> compare_part lc a a > 0"
  using compare_part_asym [of lc a a] by auto

lemma compare_prerelease_asym:
  assumes "collation_ok lc"
  shows "0 < compare_prerelease lc as bs \<longleftrightarrow> compare_prerelease lc bs as < 0"
  using assms
  by (induction lc as bs rule: compare_prerelease.induct) (auto simp: compare_part_asym)

lemma compare_prerelease_trans:
  assumes "collation_ok lc"
    and "compare_prerelease lc as bs > 0" and "compare_prerelease lc bs cs > 0"
  shows "compare_prerelease lc as cs > 0"
  using assms(2,3)
proof (induction as arbitrary: bs cs)
  case Nil
  then show ?case by (cases bs) simp_all
next
  case (Cons a as)
  show ?case
  proof (cases bs)
    case Nil
    with Cons.prems show ?thesis by (cases cs) simp_all
  next
    case (Cons b bs')
    show ?thesis
    proof (cases cs)
      case Nil
      then show ?thesis by simp
    next
      case c: (Cons c cs')
      have refl: "\<not> compare_part lc a a > 0" by (rule compare_part_refl [OF assms(1)])
      show ?thesis
        using Cons.prems Cons.IH [of bs' cs'] refl compare_part_trans [OF assms(1), of a b c]
        by (auto simp: \<open>bs = b # bs'\<close> c split: if_splits)
    qed
  qed
qed

lemma compareVersions_asym:
  assumes "collation_ok lc"
  shows "0 < compareVersions lc l r \<longleftrightarrow> compareVersions lc r l < 0"
  using compare_core_asym [of "pv_core l" "pv_core r"]
    compare_prerelease_asym [OF assms, of "pv_prerelease l" "pv_prerelease r"]
  by (auto simp: compareVersions_def)

lemma compareVersions_trans:
  assumes "collation_ok lc"
    and "length (pv_core a) = length (pv_core b)" and "length (pv_core b) = length (pv_core c)"
    and "compareVersions lc a b > 0" and "compareVersions lc b c > 0"
  shows "compareVersions lc a c > 0"
proof -
  have irr: "\<not> compare_core xs xs > 0" for xs
    using compare_core_asym [of xs xs] by auto
  show ?thesis
    using assms compare_core_trans [of "pv_core a" "pv_core b" "pv_core c"]
      compare_prerelease_trans [OF assms(1), of "pv_prerelease a" "pv_prerelease b" "pv_prerelease c"] irr
    by (auto simp: compareVersions_def split: if_splits)
qed

lemma parseVersion_trim: "js_trim a = js_trim b \<Longrightarrow> parseVersion a = parseVersion b"
  by (simp add: parseVersion_def)

lemma isVersionUpgrade_irrefl:
  assumes "collation_ok lc" shows "\<not> isVersionUpgrade lc v v"
proof
  assume "isVersionUpgrade lc v v"
  then obtain p where "0 < compareVersions lc p p"
    by (auto simp: isVersionUpgrade_def split: option.splits)
  with compareVersions_asym [OF assms, of p p] show False by simp
qed

lemma isVersionUpgrade_asym:
  assumes "collation_ok lc" and "isVersionUpgrade lc a b"
  shows "\<not> isVersionUpgrade lc b a"
proof (cases "parseVersion b")
  case None
  then show ?thesis by (simp add: isVersionUpgrade_def)
next
  case (Some q)
  with assms(2) obtain p where "parseVersion a = Some p" "compareVersions lc p q > 0"
    by (auto simp: isVersionUpgrade_def split: option.splits)
  with Some compareVersions_asym [OF assms(1), of p q] show ?thesis
    by (auto simp: isVersionUpgrade_def)
qed

lemma isVersionUpgrade_trans:
  assumes "collation_ok lc" and "isVersionUpgrade lc a b" and "isVersionUpgrade lc b c"
  shows "isVersionUpgrade lc a c"
proof -
  obtain p q where p: "parseVersion a = Some p" and q: "parseVersion b = Some q"
    and gt: "compareVersions lc p q > 0"
    using assms(2,3) by (auto simp: isVersionUpgrade_def split: option.splits)
  show ?thesis
  proof (cases "parseVersion c")
    case None
    then have "js_trim a \<noteq> js_trim c"
      using p parseVersion_trim [of a c] by auto
    with None p show ?thesis by (simp add: isVersionUpgrade_def)
  next
    case (Some r)
    with assms(3) q have "compareVersions lc q r > 0" by (simp add: isVersionUpgrade_def)
    with gt compareVersions_trans [OF assms(1), of p q r] p q Some show ?thesis
      by (simp add: isVersionUpgrade_def parseVersion_core_length)
  qed
qed

section \<open>Channels and targets\<close>

definition effectiveFirmwareChannel :: "kiosk option \<Rightarrow> firmware_channel" where
  "effectiveFirmwareChannel kiosk =
     (case kiosk of None \<Rightarrow> ChStable
      | Some k \<Rightarrow> if k_managed_image k then k_os_update_channel k else k_firmware_channel k)"

definition kioskDebugEnabled :: "kiosk \<Rightarrow> bool" where
  "kioskDebugEnabled k \<longleftrightarrow>
     effectiveFirmwareChannel (Some k) = ChDev \<and> k_os_update_channel k = ChDev"

definition FIRMWARE_TARGET_WINDOWS :: string where
  "FIRMWARE_TARGET_WINDOWS = ''windows-x64''"

definition FIRMWARE_TARGET_RPI5 :: string where
  "FIRMWARE_TARGET_RPI5 = ''betterframe-rpi5-aarch64''"

definition FIRMWARE_TARGET_PC_X86_64 :: string where
  "FIRMWARE_TARGET_PC_X86_64 = ''betterframe-pc-x86_64''"

definition normalizeFirmwareTarget :: "string option \<Rightarrow> string" where
  "normalizeFirmwareTarget raw =
     (let v = js_trim (nullish raw []) in
      if v = ''aarch64-unknown-linux-gnu'' \<or> v = FIRMWARE_TARGET_RPI5 then FIRMWARE_TARGET_RPI5
      else if v = ''x86_64-unknown-linux-gnu'' \<or> v = FIRMWARE_TARGET_PC_X86_64
      then FIRMWARE_TARGET_PC_X86_64
      else v)"

definition firmwareTargetLabel :: "string option \<Rightarrow> string" where
  "firmwareTargetLabel raw =
     (let target = normalizeFirmwareTarget raw in
      if target = FIRMWARE_TARGET_RPI5 then ''Raspberry Pi 5''
      else if target = FIRMWARE_TARGET_PC_X86_64 then ''PC x86_64''
      else if target = FIRMWARE_TARGET_WINDOWS then ''Windows x64''
      else if target = [] then ''unknown''
      else target)"

definition isKnownFirmwareTarget :: "string option \<Rightarrow> bool" where
  "isKnownFirmwareTarget raw \<longleftrightarrow>
     normalizeFirmwareTarget raw
       \<in> {FIRMWARE_TARGET_WINDOWS, FIRMWARE_TARGET_RPI5, FIRMWARE_TARGET_PC_X86_64}"

lemmas firmware_target_defs =
  FIRMWARE_TARGET_WINDOWS_def FIRMWARE_TARGET_RPI5_def FIRMWARE_TARGET_PC_X86_64_def

lemma target_constants_trim [simp]:
  "js_trim FIRMWARE_TARGET_RPI5 = FIRMWARE_TARGET_RPI5"
  "js_trim FIRMWARE_TARGET_PC_X86_64 = FIRMWARE_TARGET_PC_X86_64"
  by (simp_all add: firmware_target_defs js_trim_def is_ws_def)

lemma target_constants_distinct [simp]:
  "FIRMWARE_TARGET_PC_X86_64 \<noteq> ''aarch64-unknown-linux-gnu''"
  "FIRMWARE_TARGET_PC_X86_64 \<noteq> FIRMWARE_TARGET_RPI5"
  by (simp_all add: firmware_target_defs)

lemma normalizeFirmwareTarget_idem:
  "normalizeFirmwareTarget (Some (normalizeFirmwareTarget raw)) = normalizeFirmwareTarget raw"
  by (auto simp: normalizeFirmwareTarget_def Let_def)

section \<open>Reconciling an OS update report\<close>

record os_update_report =
  rep_version :: string
  rep_state :: os_update_state
  rep_error :: "string option"

definition awaiting_message :: "string \<Rightarrow> string \<Rightarrow> string" where
  "awaiting_message running target =
     ''Running OS '' @ running @ '' has not confirmed update '' @ target
       @ ''. Awaiting the device's update result.''"

definition reconcileOsUpdateReport ::
  "(string \<Rightarrow> string \<Rightarrow> int) \<Rightarrow> kiosk \<Rightarrow> os_update_report \<Rightarrow> os_update_report option" where
  "reconcileOsUpdateReport lc previous report =
     (let same = (\<lambda>target.
            if rep_version report = target \<and> rep_state report = k_os_update_state previous
               \<and> rep_error report = k_os_update_last_error previous
            then None else Some report)
      in case k_os_update_last_attempt_version previous of
        None \<Rightarrow> Some report
      | Some target \<Rightarrow>
          if target = [] then Some report
          else (let state = k_os_update_state previous in
            if rep_version report \<noteq> target then
              (if rep_state report = Confirmed
                  \<and> state \<in> {Installed, PendingReboot, Failed, RolledBack} then
                 (if isVersionUpgrade lc (rep_version report) target then Some report
                  else if truthy_str (k_os_update_last_error previous) then None
                  else Some \<lparr>rep_version = target, rep_state = state,
                             rep_error = Some (awaiting_message (rep_version report) target)\<rparr>)
               else if isVersionUpgrade lc target (rep_version report) then None
               else same target)
            else if state = Confirmed \<and> rep_state report \<noteq> Confirmed
                    \<and> rep_state report \<noteq> RolledBack then None
            else same target))"

text \<open>
  \<^verbatim>\<open>Repository.recordKioskOsUpdateAttempt\<close> on the row of the kiosk, and the step both
  report routes (\<^verbatim>\<open>/api/kiosk/os/applied\<close> and \<^verbatim>\<open>/api/kiosk/os/status\<close>) take with it.
\<close>

definition recordKioskOsUpdateAttempt ::
  "timestamp \<Rightarrow> string \<Rightarrow> string option \<Rightarrow> os_update_state option \<Rightarrow> kiosk \<Rightarrow> kiosk" where
  "recordKioskOsUpdateAttempt now version err state k =
     k\<lparr>k_os_update_last_attempt_at := Some now,
       k_os_update_last_attempt_version := Some version,
       k_os_update_last_error := err,
       k_os_update_state := nullish state (k_os_update_state k)\<rparr>"

definition os_report_step ::
  "(string \<Rightarrow> string \<Rightarrow> int) \<Rightarrow> timestamp \<Rightarrow> os_update_report \<Rightarrow> kiosk \<Rightarrow> kiosk" where
  "os_report_step lc now report k =
     (case reconcileOsUpdateReport lc k report of
        None \<Rightarrow> k
      | Some r \<Rightarrow> recordKioskOsUpdateAttempt now (rep_version r) (rep_error r) (Some (rep_state r)) k)"

text \<open>\<^verbatim>\<open>/api/kiosk/os/applied\<close> derives the state from the error field of the body.\<close>

definition os_applied_report :: "string \<Rightarrow> string option \<Rightarrow> os_update_report" where
  "os_applied_report version err =
     \<lparr>rep_version = version,
      rep_state = (if truthy_str err then Failed else PendingReboot), rep_error = err\<rparr>"

fun os_report_run ::
  "(string \<Rightarrow> string \<Rightarrow> int) \<Rightarrow> (timestamp \<times> os_update_report) list \<Rightarrow> kiosk \<Rightarrow> kiosk" where
  "os_report_run lc [] k = k"
| "os_report_run lc ((now, report) # rs) k = os_report_run lc rs (os_report_step lc now report k)"

lemma reconcile_no_regress:
  assumes "collation_ok lc" and "k_os_update_last_attempt_version k = Some target"
    and "target \<noteq> []" and "reconcileOsUpdateReport lc k report = Some r"
  shows "\<not> isVersionUpgrade lc target (rep_version r)"
  using assms isVersionUpgrade_asym [OF assms(1)] isVersionUpgrade_irrefl [OF assms(1)]
  by (auto simp: reconcileOsUpdateReport_def Let_def split: if_splits)

lemma os_report_step_confirmed:
  assumes "k_os_update_last_attempt_version k = Some target" and "target \<noteq> []"
    and "k_os_update_state k = Confirmed"
    and "isVersionUpgrade lc target (rep_version report)
         \<or> (rep_version report = target \<and> rep_state report \<noteq> RolledBack)"
    and "collation_ok lc"
  shows "k_os_update_last_attempt_version (os_report_step lc now report k) = Some target
       \<and> k_os_update_state (os_report_step lc now report k) = Confirmed"
  using assms isVersionUpgrade_irrefl [OF assms(5)]
  by (auto simp: os_report_step_def reconcileOsUpdateReport_def recordKioskOsUpdateAttempt_def
      Let_def split: if_splits option.splits)

lemma reconcile_recorded:
  assumes "k_os_update_last_attempt_version k = Some (rep_version report)" and "rep_version report \<noteq> []"
    and "k_os_update_state k = rep_state report" and "k_os_update_last_error k = rep_error report"
  shows "reconcileOsUpdateReport lc k report = None"
  using assms by (simp add: reconcileOsUpdateReport_def Let_def)

lemma reconcile_awaiting:
  assumes "k_os_update_last_attempt_version k = Some target" and "target \<noteq> []"
    and "rep_version report \<noteq> target" and "rep_state report = Confirmed"
    and "k_os_update_state k \<noteq> Confirmed" and "\<not> isVersionUpgrade lc (rep_version report) target"
    and "truthy_str (k_os_update_last_error k)"
  shows "reconcileOsUpdateReport lc k report = None"
  using assms by (cases "k_os_update_state k") (simp_all add: reconcileOsUpdateReport_def Let_def)

lemma reconcile_cases:
  assumes "reconcileOsUpdateReport lc k report = Some r"
  obtains (accepted) "r = report"
  | (awaiting) target where "k_os_update_last_attempt_version k = Some target" "target \<noteq> []"
      "rep_version report \<noteq> target" "rep_state report = Confirmed"
      "k_os_update_state k \<noteq> Confirmed" "\<not> isVersionUpgrade lc (rep_version report) target"
      "r = \<lparr>rep_version = target, rep_state = k_os_update_state k,
            rep_error = Some (awaiting_message (rep_version report) target)\<rparr>"
proof (cases "r = report")
  case True
  then show thesis by (rule accepted)
next
  case False
  with assms show thesis
    by (auto simp: reconcileOsUpdateReport_def Let_def split: option.splits if_splits intro!: awaiting)
qed

lemma reconcile_redelivery:
  assumes "reconcileOsUpdateReport lc k report = Some r" and "rep_version report \<noteq> []"
  shows "reconcileOsUpdateReport lc
           (recordKioskOsUpdateAttempt now (rep_version r) (rep_error r) (Some (rep_state r)) k) report = None"
  using assms(1)
proof (cases rule: reconcile_cases)
  case accepted
  then show ?thesis
    by (intro reconcile_recorded) (simp_all add: assms(2) recordKioskOsUpdateAttempt_def)
next
  case (awaiting target)
  then show ?thesis
    by (intro reconcile_awaiting [where target = target])
       (simp_all add: recordKioskOsUpdateAttempt_def awaiting_message_def)
qed

section \<open>Properties\<close>

text \<open>
  (C31) Upgrades only move forward: on any version strings, parsable or not, the test
  \<open>isVersionUpgrade\<close> is irreflexive, asymmetric and transitive, so no chain of accepted
  upgrades comes back to a version it left.
\<close>

theorem version_upgrade_strict_order:
  assumes "collation_ok lc"
  shows "\<not> isVersionUpgrade lc a a \<and>
         (isVersionUpgrade lc a b \<longrightarrow> \<not> isVersionUpgrade lc b a) \<and>
         (isVersionUpgrade lc a b \<and> isVersionUpgrade lc b c \<longrightarrow> isVersionUpgrade lc a c)"
  using isVersionUpgrade_irrefl isVersionUpgrade_asym isVersionUpgrade_trans assms by blast

text \<open>
  A delayed report never erases a newer attempt: whatever report arrives, the version
  recorded for the kiosk afterwards is not older than the version of the attempt recorded
  before it.
\<close>

theorem os_report_never_regresses:
  assumes "collation_ok lc" and "k_os_update_last_attempt_version k = Some target"
    and "target \<noteq> []"
  shows "\<exists>v. k_os_update_last_attempt_version (os_report_step lc now report k) = Some v
             \<and> \<not> isVersionUpgrade lc target v"
  using reconcile_no_regress [OF assms] isVersionUpgrade_irrefl [OF assms(1)] assms(2)
  by (auto simp: os_report_step_def recordKioskOsUpdateAttempt_def split: option.splits)

text \<open>
  A confirmation is stable: once an update is confirmed, any sequence of reports that
  are late (for an older release) or about the same release without announcing a rollback
  leaves the recorded version and the state \<open>Confirmed\<close>.
\<close>

theorem os_confirmation_stable:
  assumes "collation_ok lc" and "target \<noteq> []"
    and "\<forall>(now, report) \<in> set rs. isVersionUpgrade lc target (rep_version report)
           \<or> (rep_version report = target \<and> rep_state report \<noteq> RolledBack)"
    and "k_os_update_last_attempt_version k = Some target" and "k_os_update_state k = Confirmed"
  shows "k_os_update_last_attempt_version (os_report_run lc rs k) = Some target
       \<and> k_os_update_state (os_report_run lc rs k) = Confirmed"
  using assms(3-5)
proof (induction rs arbitrary: k)
  case Nil
  then show ?case by simp
next
  case (Cons x rs)
  obtain now report where x: "x = (now, report)" by (cases x)
  have "k_os_update_last_attempt_version (os_report_step lc now report k) = Some target
      \<and> k_os_update_state (os_report_step lc now report k) = Confirmed"
    using Cons.prems x by (intro os_report_step_confirmed [OF _ assms(2) _ _ assms(1)]) auto
  with Cons.IH [of "os_report_step lc now report k"] Cons.prems x show ?case by simp
qed

text \<open>
  Redelivery is harmless: a report applied twice in a row changes nothing the second
  time, on every branch of the reconciliation.
\<close>

theorem os_report_idempotent:
  assumes "rep_version report \<noteq> []"
  shows "os_report_step lc later report (os_report_step lc now report k)
       = os_report_step lc now report k"
  using reconcile_redelivery [OF _ assms]
  by (auto simp: os_report_step_def split: option.splits)

section \<open>Witnesses\<close>

text \<open>The collation of the witnesses compares code units.\<close>

fun code_unit_compare :: "string \<Rightarrow> string \<Rightarrow> int" where
  "code_unit_compare [] [] = 0"
| "code_unit_compare [] (b # bs) = -1"
| "code_unit_compare (a # as) [] = 1"
| "code_unit_compare (a # as) (b # bs) =
     (if a = b then code_unit_compare as bs else int (of_char a) - int (of_char b))"

lemma code_unit_compare_asym: "0 < code_unit_compare a b \<longleftrightarrow> code_unit_compare b a < 0"
  by (induction a b rule: code_unit_compare.induct) auto

lemma code_unit_compare_trans:
  "code_unit_compare a b > 0 \<Longrightarrow> code_unit_compare b c > 0 \<Longrightarrow> code_unit_compare a c > 0"
proof (induction a b arbitrary: c rule: code_unit_compare.induct)
  case (4 x as y bs)
  then show ?case by (cases c) (auto split: if_splits)
next
  case (3 x as)
  then show ?case by (cases c) auto
qed auto

lemma code_unit_collation: "collation_ok code_unit_compare"
  using code_unit_compare_asym code_unit_compare_trans by (auto simp: collation_ok_def)

lemmas version_eval =
  isVersionUpgrade_def parseVersion_def version_match_def scan_digits_def Let_def js_trim_def is_ws_def
  is_digit_def is_alnum_def is_upper_def is_lower_def is_prerelease_char_def prerelease_of_def
  nat_of_digits_def digit_value_def js_number_of_nat_def compareVersions_def

lemma version_examples:
  "isVersionUpgrade code_unit_compare ''v1.2.10'' ''1.2.9''"
  "isVersionUpgrade code_unit_compare ''1.2.9'' ''1.2.9-beta.2''"
  "isVersionUpgrade code_unit_compare ''1.2.9-beta.2'' ''1.2.9-alpha''"
  by (simp_all add: version_eval)

theorem version_upgrade_strict_order_witness:
  "isVersionUpgrade code_unit_compare ''v1.2.10'' ''1.2.9'' \<and>
   \<not> isVersionUpgrade code_unit_compare ''1.2.9'' ''v1.2.10'' \<and>
   isVersionUpgrade code_unit_compare ''v1.2.10'' ''1.2.9-beta.2''"
  using version_upgrade_strict_order [OF code_unit_collation] version_examples by blast

definition updating_kiosk :: kiosk where
  "updating_kiosk = sample_kiosk\<lparr>k_os_update_last_attempt_version := Some ''1.2.9'',
                                  k_os_update_state := Confirmed\<rparr>"

lemma updating_kiosk_fields:
  "k_os_update_last_attempt_version updating_kiosk = Some ''1.2.9''"
  "k_os_update_state updating_kiosk = Confirmed"
  by (simp_all add: updating_kiosk_def)

definition late_report :: os_update_report where
  "late_report = \<lparr>rep_version = ''1.2.9-alpha'', rep_state = Failed, rep_error = Some ''disk full''\<rparr>"

lemma late_report_older: "isVersionUpgrade code_unit_compare ''1.2.9'' (rep_version late_report)"
  by (simp add: late_report_def version_eval)

theorem os_report_never_regresses_witness:
  "\<exists>v. k_os_update_last_attempt_version
           (os_report_step code_unit_compare 5 late_report updating_kiosk) = Some v
       \<and> \<not> isVersionUpgrade code_unit_compare ''1.2.9'' v"
  by (rule os_report_never_regresses [OF code_unit_collation updating_kiosk_fields(1)]) simp

theorem os_confirmation_stable_witness:
  "k_os_update_state (os_report_run code_unit_compare [(5, late_report)] updating_kiosk) = Confirmed"
  using os_confirmation_stable [OF code_unit_collation, of "''1.2.9''" "[(5, late_report)]" updating_kiosk]
    updating_kiosk_fields late_report_older by simp

theorem os_report_idempotent_witness:
  "rep_version late_report \<noteq> [] \<and>
   os_report_step code_unit_compare 6 late_report (os_report_step code_unit_compare 5 late_report sample_kiosk)
     = os_report_step code_unit_compare 5 late_report sample_kiosk"
  using os_report_idempotent [of late_report] by (simp add: late_report_def)

end
