(* ===== verification/BF_Releases.thy ===== *)
theory BF_Releases
  imports BF_Version
begin

text \<open>
  Release tables and update selection: the firmware and OS release operations of
  \<^verbatim>\<open>server/src/shared/db/repository.ts\<close>, \<^verbatim>\<open>public-update-selection.ts\<close>, the selection in
  \<^verbatim>\<open>windows-updates.ts\<close>, the check and download handlers of \<^verbatim>\<open>service-api-http/index.ts\<close>, and
  \<^verbatim>\<open>artifact-cleanup.ts\<close>.  A table is the list of its rows; a statement with
  \<^verbatim>\<open>ORDER BY ... DESC\<close> is a stable sort on the negated key, so that rows with equal keys keep
  their table order (the order SQL leaves open).
\<close>

section \<open>Tables\<close>

record release_db =
  firmware_releases :: "firmware_release list"
  firmware_rollouts :: "firmware_rollout list"
  os_update_releases :: "os_update_release list"
  os_update_rollouts :: "os_update_rollout list"
  kiosks_table :: "kiosk list"

datatype release_error =
    FirmwareReleaseConflict
  | UniqueViolation
  | ForeignKeyViolation
  | CheckViolation
  | VanishedAfterInsert

definition order_desc :: "('a \<Rightarrow> number) \<Rightarrow> 'a list \<Rightarrow> 'a list" where
  "order_desc key xs = sort_key (\<lambda>x. - key x) xs"

definition limit_one :: "'a list \<Rightarrow> 'a option" where
  "limit_one xs = (case xs of [] \<Rightarrow> None | x # _ \<Rightarrow> Some x)"

lemma set_order_desc [simp]: "set (order_desc key xs) = set xs"
  by (simp add: order_desc_def)

lemma order_desc_filter: "filter P (order_desc key xs) = order_desc key (filter P xs)"
  by (simp add: order_desc_def filter_sort)

lemma limit_one_in: "limit_one xs = Some x \<Longrightarrow> x \<in> set xs"
  by (cases xs) (auto simp: limit_one_def)

lemma limit_one_order_desc:
  assumes "limit_one (order_desc key xs) = Some x" and "y \<in> set xs"
  shows "key y \<le> key x"
proof -
  define ys where "ys = order_desc key xs"
  have "sorted (map (\<lambda>x. - key x) ys)" by (simp add: ys_def order_desc_def)
  moreover from assms(1) obtain zs where "ys = x # zs"
    by (cases ys) (auto simp: limit_one_def ys_def)
  moreover have "y \<in> set ys" using assms(2) by (simp add: ys_def)
  ultimately show ?thesis by auto
qed

section \<open>Firmware releases\<close>

definition getFirmwareRelease :: "release_db \<Rightarrow> string \<Rightarrow> firmware_release option" where
  "getFirmwareRelease db rid = find (\<lambda>r. fr_id r = rid) (firmware_releases db)"

definition getFirmwareReleaseByVersionArch ::
  "release_db \<Rightarrow> string \<Rightarrow> string \<Rightarrow> firmware_release option" where
  "getFirmwareReleaseByVersionArch db ver arch =
     find (\<lambda>r. fr_version r = ver \<and> fr_arch r = arch) (firmware_releases db)"

definition getLatestFirmwareRelease ::
  "release_db \<Rightarrow> firmware_channel \<Rightarrow> string \<Rightarrow> firmware_release option" where
  "getLatestFirmwareRelease db channel arch =
     limit_one (order_desc fr_uploaded_at
       (filter (\<lambda>r. fr_channel r = channel \<and> fr_arch r = arch \<and> fr_yanked_at r = None)
          (firmware_releases db)))"

definition listFirmwareReleases :: "release_db \<Rightarrow> firmware_release list" where
  "listFirmwareReleases db = order_desc fr_uploaded_at (firmware_releases db)"

definition listYankedFirmwareReleases :: "release_db \<Rightarrow> firmware_release list" where
  "listYankedFirmwareReleases db =
     sort_key (\<lambda>r. nullish (fr_yanked_at r) 0)
       (filter (\<lambda>r. fr_yanked_at r \<noteq> None) (firmware_releases db))"

text \<open>
  The row passed to \<^verbatim>\<open>createFirmwareRelease\<close> carries the columns the database fills in:
  \<open>fr_uploaded_at\<close> is its clock at the insert and \<open>fr_yanked_at\<close> is null.
\<close>

definition createFirmwareRelease ::
  "release_db \<Rightarrow> firmware_release \<Rightarrow> (release_error, release_db \<times> firmware_release) result" where
  "createFirmwareRelease db input =
     (let taken = getFirmwareReleaseByVersionArch db (fr_version input) (fr_arch input) in
      if taken = None \<and> getFirmwareRelease db (fr_id input) \<noteq> None then Inl UniqueViolation
      else let db' = (if taken \<noteq> None then db
                      else db\<lparr>firmware_releases :=
                             firmware_releases db @ [input\<lparr>fr_yanked_at := None\<rparr>]\<rparr>)
           in case getFirmwareReleaseByVersionArch db' (fr_version input) (fr_arch input) of
                None \<Rightarrow> Inl VanishedAfterInsert
              | Some release \<Rightarrow>
                  if fr_sha256 release \<noteq> fr_sha256 input
                     \<or> fr_size_bytes release \<noteq> fr_size_bytes input
                     \<or> fr_channel release \<noteq> fr_channel input
                     \<or> fr_yanked_at release \<noteq> None
                  then Inl FirmwareReleaseConflict
                  else Inr (db', release))"

definition yankFirmwareRelease :: "timestamp \<Rightarrow> string \<Rightarrow> release_db \<Rightarrow> release_db" where
  "yankFirmwareRelease now rid db =
     db\<lparr>firmware_releases :=
          map (\<lambda>r. if fr_id r = rid then r\<lparr>fr_yanked_at := Some now\<rparr> else r) (firmware_releases db)\<rparr>"

text \<open>\<^verbatim>\<open>ON DELETE CASCADE\<close> removes the rollouts of a deleted release.\<close>

definition deleteFirmwareRelease :: "string \<Rightarrow> release_db \<Rightarrow> release_db" where
  "deleteFirmwareRelease rid db =
     db\<lparr>firmware_releases := filter (\<lambda>r. fr_id r \<noteq> rid) (firmware_releases db),
        firmware_rollouts := filter (\<lambda>ro. fo_release_id ro \<noteq> rid) (firmware_rollouts db)\<rparr>"

definition getFirmwareRollout :: "release_db \<Rightarrow> string \<Rightarrow> firmware_rollout option" where
  "getFirmwareRollout db oid = find (\<lambda>ro. fo_id ro = oid) (firmware_rollouts db)"

definition createFirmwareRollout ::
  "release_db \<Rightarrow> string \<Rightarrow> string \<Rightarrow> string list \<Rightarrow> number \<Rightarrow> string option \<Rightarrow> timestamp
   \<Rightarrow> (release_error, release_db \<times> firmware_rollout) result" where
  "createFirmwareRollout db oid release_id targets percentage created_by now =
     (if getFirmwareRollout db oid \<noteq> None then Inl UniqueViolation
      else if getFirmwareRelease db release_id = None then Inl ForeignKeyViolation
      else if percentage < 1 \<or> percentage > 100 then Inl CheckViolation
      else let row = \<lparr>fo_id = oid, fo_release_id = release_id, fo_target_kiosk_ids = targets,
                      fo_state = RolloutQueued, fo_percentage = percentage,
                      fo_started_at = None, fo_finished_at = None,
                      fo_created_at = now, fo_created_by = created_by\<rparr>;
               db' = db\<lparr>firmware_rollouts := firmware_rollouts db @ [row]\<rparr>
           in case getFirmwareRollout db' oid of
                None \<Rightarrow> Inl VanishedAfterInsert
              | Some r \<Rightarrow> Inr (db', r))"

definition listActiveRolloutsForKiosk :: "release_db \<Rightarrow> string \<Rightarrow> firmware_rollout list" where
  "listActiveRolloutsForKiosk db kid =
     filter (\<lambda>ro. fo_target_kiosk_ids ro = [] \<or> kid \<in> set (fo_target_kiosk_ids ro))
       (order_desc fo_created_at
          (filter (\<lambda>ro. fo_state ro = RolloutActive) (firmware_rollouts db)))"

definition listFirmwareRollouts :: "release_db \<Rightarrow> firmware_rollout list" where
  "listFirmwareRollouts db = order_desc fo_created_at (firmware_rollouts db)"

definition set_firmware_rollout_state ::
  "timestamp \<Rightarrow> rollout_state \<Rightarrow> firmware_rollout \<Rightarrow> firmware_rollout" where
  "set_firmware_rollout_state now st ro =
     (case st of
        RolloutActive \<Rightarrow> ro\<lparr>fo_state := st, fo_started_at := Some (nullish (fo_started_at ro) now)\<rparr>
      | RolloutComplete \<Rightarrow> ro\<lparr>fo_state := st, fo_finished_at := Some now\<rparr>
      | _ \<Rightarrow> ro\<lparr>fo_state := st\<rparr>)"

definition updateFirmwareRolloutState ::
  "timestamp \<Rightarrow> string \<Rightarrow> rollout_state \<Rightarrow> release_db \<Rightarrow> release_db" where
  "updateFirmwareRolloutState now oid st db =
     db\<lparr>firmware_rollouts :=
          map (\<lambda>ro. if fo_id ro = oid then set_firmware_rollout_state now st ro else ro)
            (firmware_rollouts db)\<rparr>"

section \<open>OS releases\<close>

definition getOsUpdateRelease :: "release_db \<Rightarrow> string \<Rightarrow> os_update_release option" where
  "getOsUpdateRelease db rid = find (\<lambda>r. orl_id r = rid) (os_update_releases db)"

definition getOsUpdateReleaseByVersionCompatibility ::
  "release_db \<Rightarrow> string \<Rightarrow> string \<Rightarrow> os_update_release option" where
  "getOsUpdateReleaseByVersionCompatibility db ver compatibility =
     find (\<lambda>r. orl_version r = ver \<and> orl_compatibility r = compatibility) (os_update_releases db)"

definition getLatestOsUpdateRelease ::
  "release_db \<Rightarrow> firmware_channel \<Rightarrow> string \<Rightarrow> os_update_release option" where
  "getLatestOsUpdateRelease db channel compatibility =
     limit_one (order_desc orl_uploaded_at
       (filter (\<lambda>r. orl_channel r = channel \<and> orl_compatibility r = compatibility \<and> orl_yanked_at r = None)
          (os_update_releases db)))"

definition listOsUpdateReleases :: "release_db \<Rightarrow> os_update_release list" where
  "listOsUpdateReleases db = order_desc orl_uploaded_at (os_update_releases db)"

definition listYankedOsUpdateReleases :: "release_db \<Rightarrow> os_update_release list" where
  "listYankedOsUpdateReleases db =
     sort_key (\<lambda>r. nullish (orl_yanked_at r) 0)
       (filter (\<lambda>r. orl_yanked_at r \<noteq> None) (os_update_releases db))"

definition createOsUpdateRelease ::
  "release_db \<Rightarrow> os_update_release \<Rightarrow> (release_error, release_db \<times> os_update_release) result" where
  "createOsUpdateRelease db input =
     (if getOsUpdateRelease db (orl_id input) \<noteq> None
         \<or> getOsUpdateReleaseByVersionCompatibility db (orl_version input) (orl_compatibility input) \<noteq> None
      then Inl UniqueViolation
      else let db' = db\<lparr>os_update_releases :=
                          os_update_releases db @ [input\<lparr>orl_yanked_at := None\<rparr>]\<rparr>
           in case getOsUpdateRelease db' (orl_id input) of
                None \<Rightarrow> Inl VanishedAfterInsert
              | Some r \<Rightarrow> Inr (db', r))"

definition yankOsUpdateRelease :: "timestamp \<Rightarrow> string \<Rightarrow> release_db \<Rightarrow> release_db" where
  "yankOsUpdateRelease now rid db =
     db\<lparr>os_update_releases :=
          map (\<lambda>r. if orl_id r = rid then r\<lparr>orl_yanked_at := Some now\<rparr> else r) (os_update_releases db)\<rparr>"

definition deleteOsUpdateRelease :: "string \<Rightarrow> release_db \<Rightarrow> release_db" where
  "deleteOsUpdateRelease rid db =
     db\<lparr>os_update_releases := filter (\<lambda>r. orl_id r \<noteq> rid) (os_update_releases db),
        os_update_rollouts := filter (\<lambda>ro. oo_release_id ro \<noteq> rid) (os_update_rollouts db)\<rparr>"

definition getOsUpdateRollout :: "release_db \<Rightarrow> string \<Rightarrow> os_update_rollout option" where
  "getOsUpdateRollout db oid = find (\<lambda>ro. oo_id ro = oid) (os_update_rollouts db)"

definition createOsUpdateRollout ::
  "release_db \<Rightarrow> string \<Rightarrow> string \<Rightarrow> string list \<Rightarrow> number \<Rightarrow> string option \<Rightarrow> timestamp
   \<Rightarrow> (release_error, release_db \<times> os_update_rollout) result" where
  "createOsUpdateRollout db oid release_id targets percentage created_by now =
     (if getOsUpdateRollout db oid \<noteq> None then Inl UniqueViolation
      else if getOsUpdateRelease db release_id = None then Inl ForeignKeyViolation
      else if percentage < 1 \<or> percentage > 100 then Inl CheckViolation
      else let row = \<lparr>oo_id = oid, oo_release_id = release_id, oo_target_kiosk_ids = targets,
                      oo_state = RolloutQueued, oo_percentage = percentage,
                      oo_started_at = None, oo_finished_at = None,
                      oo_created_at = now, oo_created_by = created_by\<rparr>;
               db' = db\<lparr>os_update_rollouts := os_update_rollouts db @ [row]\<rparr>
           in case getOsUpdateRollout db' oid of
                None \<Rightarrow> Inl VanishedAfterInsert
              | Some r \<Rightarrow> Inr (db', r))"

definition listActiveOsUpdateRolloutsForKiosk :: "release_db \<Rightarrow> string \<Rightarrow> os_update_rollout list" where
  "listActiveOsUpdateRolloutsForKiosk db kid =
     filter (\<lambda>ro. oo_target_kiosk_ids ro = [] \<or> kid \<in> set (oo_target_kiosk_ids ro))
       (order_desc oo_created_at
          (filter (\<lambda>ro. oo_state ro = RolloutActive) (os_update_rollouts db)))"

definition listOsUpdateRollouts :: "release_db \<Rightarrow> os_update_rollout list" where
  "listOsUpdateRollouts db = order_desc oo_created_at (os_update_rollouts db)"

definition set_os_rollout_state ::
  "timestamp \<Rightarrow> rollout_state \<Rightarrow> os_update_rollout \<Rightarrow> os_update_rollout" where
  "set_os_rollout_state now st ro =
     (case st of
        RolloutActive \<Rightarrow> ro\<lparr>oo_state := st, oo_started_at := Some (nullish (oo_started_at ro) now)\<rparr>
      | RolloutComplete \<Rightarrow> ro\<lparr>oo_state := st, oo_finished_at := Some now\<rparr>
      | _ \<Rightarrow> ro\<lparr>oo_state := st\<rparr>)"

definition updateOsUpdateRolloutState ::
  "timestamp \<Rightarrow> string \<Rightarrow> rollout_state \<Rightarrow> release_db \<Rightarrow> release_db" where
  "updateOsUpdateRolloutState now oid st db =
     db\<lparr>os_update_rollouts :=
          map (\<lambda>ro. if oo_id ro = oid then set_os_rollout_state now st ro else ro)
            (os_update_rollouts db)\<rparr>"

section \<open>Kiosk update preferences\<close>

definition getKioskById :: "release_db \<Rightarrow> string \<Rightarrow> kiosk option" where
  "getKioskById db kid = find (\<lambda>k. k_id k = kid) (kiosks_table db)"

definition update_kiosk :: "string \<Rightarrow> (kiosk \<Rightarrow> kiosk) \<Rightarrow> release_db \<Rightarrow> release_db" where
  "update_kiosk kid f db =
     db\<lparr>kiosks_table := map (\<lambda>k. if k_id k = kid then f k else k) (kiosks_table db)\<rparr>"

definition recordKioskFirmwareAttempt ::
  "timestamp \<Rightarrow> string \<Rightarrow> string \<Rightarrow> string option \<Rightarrow> release_db \<Rightarrow> release_db" where
  "recordKioskFirmwareAttempt now kid ver err =
     update_kiosk kid (\<lambda>k. k\<lparr>k_firmware_last_attempt_at := Some now,
                              k_firmware_last_attempt_version := Some ver,
                              k_firmware_last_error := err\<rparr>)"

text \<open>A field of a patch is \<open>None\<close> when it is \<^verbatim>\<open>undefined\<close>.\<close>

definition setKioskFirmwarePref ::
  "string \<Rightarrow> firmware_channel option \<Rightarrow> string option option \<Rightarrow> release_db \<Rightarrow> release_db" where
  "setKioskFirmwarePref kid channel target =
     update_kiosk kid (\<lambda>k. k\<lparr>k_firmware_channel := nullish channel (k_firmware_channel k),
                              k_firmware_target_version := nullish target (k_firmware_target_version k)\<rparr>)"

definition setKioskOsUpdatePref ::
  "string \<Rightarrow> firmware_channel option \<Rightarrow> string option option \<Rightarrow> release_db \<Rightarrow> release_db" where
  "setKioskOsUpdatePref kid channel target =
     update_kiosk kid (\<lambda>k. k\<lparr>k_os_update_channel := nullish channel (k_os_update_channel k),
                              k_os_update_target_version := nullish target (k_os_update_target_version k)\<rparr>)"

section \<open>Update selection\<close>

text \<open>\<^verbatim>\<open>URLSearchParams.get\<close>: the first value of a key.\<close>

type_synonym query = "(string \<times> string) list"

definition channel_of_string :: "string \<Rightarrow> firmware_channel option" where
  "channel_of_string s =
     (if s = ''stable'' then Some ChStable else if s = ''beta'' then Some ChBeta
      else if s = ''dev'' then Some ChDev else None)"

definition selectPublicUpdate ::
  "('r \<Rightarrow> timestamp option) \<Rightarrow> query \<Rightarrow> (firmware_channel \<Rightarrow> 'r option) \<Rightarrow> (string \<Rightarrow> 'r option)
   \<Rightarrow> 'r option" where
  "selectPublicUpdate yanked_at query latest pinned =
     (case channel_of_string (nullish (map_of query ''channel'') ''stable'') of
        None \<Rightarrow> None
      | Some channel \<Rightarrow>
          (let ver = map_of query ''version'';
               release = (if truthy_str ver then pinned (the ver) else latest channel)
           in case release of
                None \<Rightarrow> None
              | Some r \<Rightarrow> if yanked_at r = None then Some r else None))"

text \<open>
  \<open>sha_word\<close> stands for the first four bytes, big-endian, of the SHA-256 digest of a
  string.
\<close>

definition rollout_bucket :: "(string \<Rightarrow> nat) \<Rightarrow> string \<Rightarrow> string \<Rightarrow> nat" where
  "rollout_bucket sha_word kiosk_id rollout_id = sha_word (rollout_id @ '':'' @ kiosk_id) mod 100"

definition isKioskInRolloutBucket ::
  "(string \<Rightarrow> nat) \<Rightarrow> string \<Rightarrow> string \<Rightarrow> number \<Rightarrow> bool" where
  "isKioskInRolloutBucket sha_word kiosk_id rollout_id percentage =
     (if percentage \<ge> 100 then True
      else if percentage \<le> 0 then False
      else of_nat (rollout_bucket sha_word kiosk_id rollout_id) < percentage)"

text \<open>The loop over active rollouts: the first eligible one whose release passes the test.\<close>

fun first_rollout_release ::
  "('o \<Rightarrow> bool) \<Rightarrow> ('o \<Rightarrow> 'r option) \<Rightarrow> ('r \<Rightarrow> bool) \<Rightarrow> 'o list \<Rightarrow> 'r option" where
  "first_rollout_release eligible lookup accept [] = None"
| "first_rollout_release eligible lookup accept (ro # ros) =
     (if \<not> eligible ro then first_rollout_release eligible lookup accept ros
      else case lookup ro of
          None \<Rightarrow> first_rollout_release eligible lookup accept ros
        | Some r \<Rightarrow> if accept r then Some r
                    else first_rollout_release eligible lookup accept ros)"

definition not_yanked :: "('r \<Rightarrow> timestamp option) \<Rightarrow> 'r option \<Rightarrow> 'r option" where
  "not_yanked yanked_at release =
     (case release of None \<Rightarrow> None | Some r \<Rightarrow> if yanked_at r = None then Some r else None)"

definition or_else :: "'r option \<Rightarrow> 'r option \<Rightarrow> 'r option" where
  "or_else a b = (case a of None \<Rightarrow> b | Some r \<Rightarrow> Some r)"

definition selectWindowsRelease ::
  "(string \<Rightarrow> nat) \<Rightarrow> release_db \<Rightarrow> kiosk \<Rightarrow> firmware_release option" where
  "selectWindowsRelease sha_word db kiosk =
     (if truthy_str (k_firmware_target_version kiosk)
      then not_yanked fr_yanked_at
             (getFirmwareReleaseByVersionArch db (the (k_firmware_target_version kiosk)) ''windows-x64'')
      else or_else
             (first_rollout_release
                (\<lambda>ro. \<not> of_nat (rollout_bucket sha_word (k_id kiosk) (fo_id ro)) \<ge> fo_percentage ro)
                (\<lambda>ro. getFirmwareRelease db (fo_release_id ro))
                (\<lambda>r. fr_yanked_at r = None \<and> fr_arch r = ''windows-x64'')
                (listActiveRolloutsForKiosk db (k_id kiosk)))
             (getLatestFirmwareRelease db (k_firmware_channel kiosk) ''windows-x64''))"

definition select_firmware ::
  "(string \<Rightarrow> nat) \<Rightarrow> release_db \<Rightarrow> kiosk \<Rightarrow> string \<Rightarrow> firmware_release option" where
  "select_firmware sha_word db kiosk target =
     or_else
       (if truthy_str (k_firmware_target_version kiosk)
        then not_yanked fr_yanked_at
               (getFirmwareReleaseByVersionArch db (the (k_firmware_target_version kiosk)) target)
        else None)
       (or_else
          (first_rollout_release
             (\<lambda>ro. isKioskInRolloutBucket sha_word (k_id kiosk) (fo_id ro) (fo_percentage ro))
             (\<lambda>ro. getFirmwareRelease db (fo_release_id ro))
             (\<lambda>r. fr_yanked_at r = None \<and> normalizeFirmwareTarget (Some (fr_arch r)) = target)
             (listActiveRolloutsForKiosk db (k_id kiosk)))
          (getLatestFirmwareRelease db (k_firmware_channel kiosk) target))"

definition select_os_update ::
  "(string \<Rightarrow> nat) \<Rightarrow> release_db \<Rightarrow> kiosk \<Rightarrow> string \<Rightarrow> os_update_release option" where
  "select_os_update sha_word db kiosk compatibility =
     or_else
       (if truthy_str (k_os_update_target_version kiosk)
        then not_yanked orl_yanked_at
               (getOsUpdateReleaseByVersionCompatibility db
                  (the (k_os_update_target_version kiosk)) compatibility)
        else None)
       (or_else
          (first_rollout_release
             (\<lambda>ro. isKioskInRolloutBucket sha_word (k_id kiosk) (oo_id ro) (oo_percentage ro))
             (\<lambda>ro. getOsUpdateRelease db (oo_release_id ro))
             (\<lambda>r. orl_yanked_at r = None \<and> orl_compatibility r = compatibility)
             (listActiveOsUpdateRolloutsForKiosk db (k_id kiosk)))
          (getLatestOsUpdateRelease db (k_os_update_channel kiosk) compatibility))"

section \<open>Check and download handlers\<close>

datatype http_error = HttpError nat string

record firmware_update =
  fu_release_id :: string
  fu_version :: string
  fu_channel :: firmware_channel
  fu_sha256 :: string
  fu_signature :: string
  fu_size_bytes :: number
  fu_download_url :: string
  fu_public_key_pem :: "string option"

record os_update =
  ou_release_id :: string
  ou_version :: string
  ou_channel :: firmware_channel
  ou_compatibility :: string
  ou_sha256 :: string
  ou_size_bytes :: number
  ou_download_url :: string

definition firmware_offer :: "string \<Rightarrow> string option \<Rightarrow> firmware_release \<Rightarrow> firmware_update" where
  "firmware_offer base key release =
     \<lparr>fu_release_id = fr_id release, fu_version = fr_version release,
      fu_channel = fr_channel release, fu_sha256 = fr_sha256 release,
      fu_signature = fr_signature release, fu_size_bytes = fr_size_bytes release,
      fu_download_url = base @ fr_id release, fu_public_key_pem = key\<rparr>"

definition os_offer :: "string \<Rightarrow> os_update_release \<Rightarrow> os_update" where
  "os_offer base release =
     \<lparr>ou_release_id = orl_id release, ou_version = orl_version release,
      ou_channel = orl_channel release, ou_compatibility = orl_compatibility release,
      ou_sha256 = orl_sha256 release, ou_size_bytes = orl_size_bytes release,
      ou_download_url = base @ orl_id release\<rparr>"

text \<open>\<open>None\<close> is the answer \<^verbatim>\<open>{up_to_date: true}\<close>.\<close>

definition offer_if_newer ::
  "(string \<Rightarrow> string \<Rightarrow> int) \<Rightarrow> ('r \<Rightarrow> string) \<Rightarrow> ('r \<Rightarrow> 'u) \<Rightarrow> string \<Rightarrow> 'r option \<Rightarrow> 'u option" where
  "offer_if_newer lc version_of mk current release =
     (case release of
        None \<Rightarrow> None
      | Some r \<Rightarrow> if isVersionUpgrade lc (version_of r) current then Some (mk r) else None)"

definition query_target :: "query \<Rightarrow> string" where
  "query_target q =
     (let t = map_option js_trim (map_of q ''target'')
      in normalizeFirmwareTarget
           (if truthy_str t then t else map_option js_trim (map_of q ''arch'')))"

definition query_current :: "query \<Rightarrow> string option \<Rightarrow> string" where
  "query_current q installed =
     nullish (map_option js_trim (map_of q ''current'')) (nullish installed [])"

definition public_firmware_check ::
  "(string \<Rightarrow> string \<Rightarrow> int) \<Rightarrow> string \<Rightarrow> release_db \<Rightarrow> query
   \<Rightarrow> (http_error, firmware_update option) result" where
  "public_firmware_check lc public_key db q =
     (let target = query_target q in
      if target = [] then Inl (HttpError 400 ''target required'')
      else Inr (offer_if_newer lc fr_version
             (firmware_offer ''/api/firmware/public/download/'' (Some public_key))
             (query_current q None)
             (selectPublicUpdate fr_yanked_at q
                (\<lambda>channel. getLatestFirmwareRelease db channel target)
                (\<lambda>ver. getFirmwareReleaseByVersionArch db ver target))))"

definition public_os_check ::
  "(string \<Rightarrow> string \<Rightarrow> int) \<Rightarrow> release_db \<Rightarrow> query \<Rightarrow> (http_error, os_update option) result" where
  "public_os_check lc db q =
     (let compatibility = map_option js_trim (map_of q ''compatibility'') in
      if \<not> truthy_str compatibility then Inl (HttpError 400 ''compatibility required'')
      else Inr (offer_if_newer lc orl_version (os_offer ''/api/os/public/download/'')
             (query_current q None)
             (selectPublicUpdate orl_yanked_at q
                (\<lambda>channel. getLatestOsUpdateRelease db channel (the compatibility))
                (\<lambda>ver. getOsUpdateReleaseByVersionCompatibility db ver (the compatibility)))))"

text \<open>
  The authenticated firmware check for targets other than Windows: \<open>kid\<close> is the
  identity established by \<^verbatim>\<open>requireKiosk\<close>; the kiosk's reported target is recorded before
  the selection, which reads the row as fetched.
\<close>

definition kiosk_firmware_check ::
  "(string \<Rightarrow> string \<Rightarrow> int) \<Rightarrow> (string \<Rightarrow> nat) \<Rightarrow> string \<Rightarrow> release_db \<Rightarrow> string \<Rightarrow> query
   \<Rightarrow> (http_error, release_db \<times> firmware_update option) result" where
  "kiosk_firmware_check lc sha_word public_key db kid q =
     (case getKioskById db kid of
        None \<Rightarrow> Inl (HttpError 404 ''kiosk not found'')
      | Some kiosk \<Rightarrow>
          (let target = query_target q in
           if target = [] then Inl (HttpError 400 ''target query param required'')
           else let db' = (if k_firmware_target kiosk \<noteq> Some target
                           then update_kiosk kid (\<lambda>k. k\<lparr>k_firmware_target := Some target\<rparr>) db
                           else db);
                    current = query_current q (k_kiosk_app_version kiosk)
                in if target = FIRMWARE_TARGET_WINDOWS
                   then Inr (db', offer_if_newer lc fr_version
                          (firmware_offer ''/api/kiosk/firmware/download/'' None) current
                          (selectWindowsRelease sha_word db' kiosk))
                   else Inr (db', offer_if_newer lc fr_version
                          (firmware_offer ''/api/kiosk/firmware/download/'' (Some public_key)) current
                          (select_firmware sha_word db' kiosk target))))"

definition kiosk_os_check ::
  "(string \<Rightarrow> string \<Rightarrow> int) \<Rightarrow> (string \<Rightarrow> nat) \<Rightarrow> release_db \<Rightarrow> string \<Rightarrow> query
   \<Rightarrow> (http_error, release_db \<times> os_update option) result" where
  "kiosk_os_check lc sha_word db kid q =
     (case getKioskById db kid of
        None \<Rightarrow> Inl (HttpError 404 ''kiosk not found'')
      | Some kiosk \<Rightarrow>
          (let compatibility = map_option js_trim (map_of q ''compatibility'') in
           if \<not> truthy_str compatibility
           then Inl (HttpError 400 ''compatibility query param required'')
           else let db' = (if k_os_update_compatibility kiosk \<noteq> compatibility
                           then update_kiosk kid
                                  (\<lambda>k. k\<lparr>k_os_update_compatibility := compatibility\<rparr>) db
                           else db)
                in Inr (db', offer_if_newer lc orl_version (os_offer ''/api/kiosk/os/download/'')
                       (query_current q (k_os_version kiosk))
                       (select_os_update sha_word db' kiosk (the compatibility)))))"

text \<open>
  Downloads.  \<open>read_file\<close> is the stored blob at a path and \<open>sha256\<close> the hex digest; a blob
  whose digest differs from the release row is refused.
\<close>

definition readBlob ::
  "(string \<Rightarrow> 'b option) \<Rightarrow> ('b \<Rightarrow> string) \<Rightarrow> string \<Rightarrow> string \<Rightarrow> (http_error, 'b) result" where
  "readBlob read_file sha256 path expectedSha256 =
     (case read_file path of
        None \<Rightarrow> Inl (HttpError 500 ''ENOENT'')
      | Some buf \<Rightarrow> if sha256 buf \<noteq> expectedSha256
                    then Inl (HttpError 500 ''firmware sha256 mismatch'') else Inr buf)"

definition firmware_download ::
  "(string \<Rightarrow> 'b option) \<Rightarrow> ('b \<Rightarrow> string) \<Rightarrow> release_db \<Rightarrow> string
   \<Rightarrow> (http_error, 'b \<times> firmware_release) result" where
  "firmware_download read_file sha256 db rid =
     (if rid = [] then Inl (HttpError 400 ''release id required'')
      else case getFirmwareRelease db rid of
          None \<Rightarrow> Inl (HttpError 404 ''release not found'')
        | Some release \<Rightarrow>
            if fr_yanked_at release \<noteq> None then Inl (HttpError 404 ''release not found'')
            else bind_result (readBlob read_file sha256 (fr_artifact_path release) (fr_sha256 release))
                   (\<lambda>buf. Inr (buf, release)))"

section \<open>The contract of a release catalogue\<close>

lemma find_Some: "find P xs = Some x \<Longrightarrow> x \<in> set xs \<and> P x"
  by (auto simp: find_Some_iff)

lemma or_else_Some: "or_else a b = Some r \<longleftrightarrow> a = Some r \<or> (a = None \<and> b = Some r)"
  by (cases a) (auto simp: or_else_def)

lemma not_yanked_Some: "not_yanked y release = Some r \<longleftrightarrow> release = Some r \<and> y r = None"
  by (cases release) (auto simp: not_yanked_def)

lemma first_rollout_release_Some:
  "first_rollout_release eligible lookup accept ros = Some r \<Longrightarrow>
   \<exists>ro \<in> set ros. eligible ro \<and> lookup ro = Some r \<and> accept r"
  by (induction ros) (auto split: if_splits option.splits)

lemma offer_if_newer_Some:
  "offer_if_newer lc version_of mk current release = Some u \<longleftrightarrow>
   (\<exists>r. release = Some r \<and> isVersionUpgrade lc (version_of r) current \<and> u = mk r)"
  by (cases release) (auto simp: offer_if_newer_def)

text \<open>
  What update selection relies on, whatever kind of release is offered: lookups return
  rows of the table with the requested key, the latest release is not yanked and no
  unyanked row of its channel and target is newer.
\<close>

locale release_catalogue =
  fixes rows :: "'db \<Rightarrow> 'r list"
    and version_of :: "'r \<Rightarrow> string"
    and channel_of :: "'r \<Rightarrow> firmware_channel"
    and target_of :: "'r \<Rightarrow> string"
    and uploaded :: "'r \<Rightarrow> number"
    and yanked_at :: "'r \<Rightarrow> timestamp option"
    and norm :: "string \<Rightarrow> string"
    and by_id :: "'db \<Rightarrow> string \<Rightarrow> 'r option"
    and by_version :: "'db \<Rightarrow> string \<Rightarrow> string \<Rightarrow> 'r option"
    and latest :: "'db \<Rightarrow> firmware_channel \<Rightarrow> string \<Rightarrow> 'r option"
  assumes norm_idem: "norm (norm s) = norm s"
    and by_id_row: "by_id db i = Some r \<Longrightarrow> r \<in> set (rows db)"
    and by_version_row:
      "by_version db v t = Some r \<Longrightarrow> r \<in> set (rows db) \<and> version_of r = v \<and> target_of r = t"
    and latest_row:
      "latest db c t = Some r \<Longrightarrow>
       r \<in> set (rows db) \<and> channel_of r = c \<and> target_of r = t \<and> yanked_at r = None"
    and latest_newest:
      "latest db c t = Some r \<Longrightarrow> q \<in> set (rows db) \<Longrightarrow> channel_of q = c \<Longrightarrow> target_of q = t \<Longrightarrow>
       yanked_at q = None \<Longrightarrow> uploaded q \<le> uploaded r"
    and latest_exists:
      "q \<in> set (rows db) \<Longrightarrow> channel_of q = c \<Longrightarrow> target_of q = t \<Longrightarrow> yanked_at q = None \<Longrightarrow>
       \<exists>r. latest db c t = Some r"
begin

lemma public_selection_sound:
  assumes "selectPublicUpdate yanked_at q (\<lambda>c. latest db c t) (\<lambda>v. by_version db v t) = Some r"
  shows "r \<in> set (rows db) \<and> yanked_at r = None \<and> target_of r = t \<and>
         (\<forall>v. map_of q ''version'' = Some v \<and> v \<noteq> [] \<longrightarrow> version_of r = v)"
  using assms
  by (auto simp: selectPublicUpdate_def Let_def truthy_str_iff
      dest: by_version_row latest_row split: option.splits if_splits)

lemma kiosk_selection_sound:
  assumes "or_else (if truthy_str pin then not_yanked yanked_at (by_version db (the pin) t) else None)
             (or_else (first_rollout_release eligible (\<lambda>ro. by_id db (release_of ro))
                         (\<lambda>r. yanked_at r = None \<and> norm (target_of r) = t) ros)
                      (latest db c t)) = Some r"
    and "norm t = t"
  shows "r \<in> set (rows db) \<and> yanked_at r = None \<and> norm (target_of r) = t"
  using assms
  by (auto simp: or_else_Some not_yanked_Some dest: by_version_row latest_row by_id_row
      dest!: first_rollout_release_Some split: if_splits)

lemma unpinned_public_newest:
  assumes "selectPublicUpdate yanked_at q (\<lambda>c. latest db c t) (\<lambda>v. by_version db v t) = Some r"
    and "\<not> truthy_str (map_of q ''version'')"
    and "p \<in> set (rows db)" and "yanked_at p = None" and "target_of p = t"
    and "channel_of p = channel_of r"
  shows "uploaded p \<le> uploaded r"
proof -
  obtain c where c: "latest db c t = Some r"
    using assms(1,2) by (auto simp: selectPublicUpdate_def Let_def split: option.splits if_splits)
  then show ?thesis
    using latest_newest [OF c assms(3) _ assms(5) assms(4)] latest_row [OF c] assms(6) by simp
qed

end

lemma latest_firmware_Some:
  assumes "getLatestFirmwareRelease db c t = Some r"
  shows "r \<in> set (firmware_releases db) \<and> fr_channel r = c \<and> fr_arch r = t \<and> fr_yanked_at r = None"
  using limit_one_in [OF assms [unfolded getLatestFirmwareRelease_def]] by simp

lemma latest_os_Some:
  assumes "getLatestOsUpdateRelease db c t = Some r"
  shows "r \<in> set (os_update_releases db) \<and> orl_channel r = c \<and> orl_compatibility r = t
         \<and> orl_yanked_at r = None"
  using limit_one_in [OF assms [unfolded getLatestOsUpdateRelease_def]] by simp

lemma limit_one_order_desc_exists: "q \<in> set xs \<Longrightarrow> \<exists>r. limit_one (order_desc key xs) = Some r"
  using set_order_desc [of key xs]
  by (cases "order_desc key xs") (auto simp: limit_one_def simp del: set_order_desc)

interpretation fw: release_catalogue firmware_releases fr_version fr_channel fr_arch
  fr_uploaded_at fr_yanked_at "\<lambda>s. normalizeFirmwareTarget (Some s)"
  getFirmwareRelease getFirmwareReleaseByVersionArch getLatestFirmwareRelease
proof unfold_locales
  fix db :: release_db and q :: firmware_release and c t
  assume q: "q \<in> set (firmware_releases db)" "fr_channel q = c" "fr_arch q = t" "fr_yanked_at q = None"
  then show "\<exists>r. getLatestFirmwareRelease db c t = Some r"
    unfolding getLatestFirmwareRelease_def by (intro limit_one_order_desc_exists [of q]) simp
  fix r
  assume r: "getLatestFirmwareRelease db c t = Some r"
  show "fr_uploaded_at q \<le> fr_uploaded_at r"
    using limit_one_order_desc [OF r [unfolded getLatestFirmwareRelease_def], of q] q by simp
qed (auto simp: normalizeFirmwareTarget_idem getFirmwareRelease_def
      getFirmwareReleaseByVersionArch_def dest: find_Some latest_firmware_Some)

interpretation os: release_catalogue os_update_releases orl_version orl_channel orl_compatibility
  orl_uploaded_at orl_yanked_at "\<lambda>s. s"
  getOsUpdateRelease getOsUpdateReleaseByVersionCompatibility getLatestOsUpdateRelease
proof unfold_locales
  fix db :: release_db and q :: os_update_release and c t
  assume q: "q \<in> set (os_update_releases db)" "orl_channel q = c" "orl_compatibility q = t"
    "orl_yanked_at q = None"
  then show "\<exists>r. getLatestOsUpdateRelease db c t = Some r"
    unfolding getLatestOsUpdateRelease_def by (intro limit_one_order_desc_exists [of q]) simp
  fix r
  assume r: "getLatestOsUpdateRelease db c t = Some r"
  show "orl_uploaded_at q \<le> orl_uploaded_at r"
    using limit_one_order_desc [OF r [unfolded getLatestOsUpdateRelease_def], of q] q by simp
qed (auto simp: getOsUpdateRelease_def
      getOsUpdateReleaseByVersionCompatibility_def dest: find_Some latest_os_Some)

section \<open>Soundness of the handlers\<close>

lemma update_kiosk_releases [simp]:
  "firmware_releases (update_kiosk kid f db) = firmware_releases db"
  "firmware_rollouts (update_kiosk kid f db) = firmware_rollouts db"
  "os_update_releases (update_kiosk kid f db) = os_update_releases db"
  "os_update_rollouts (update_kiosk kid f db) = os_update_rollouts db"
  by (simp_all add: update_kiosk_def)

lemma select_os_update_kiosk [simp]:
  "select_os_update sha_word (update_kiosk kid f db) = select_os_update sha_word db"
  by (intro ext) (simp add: select_os_update_def getOsUpdateReleaseByVersionCompatibility_def
      getOsUpdateRelease_def getLatestOsUpdateRelease_def listActiveOsUpdateRolloutsForKiosk_def)

lemma yank_rows:
  "firmware_releases (yankFirmwareRelease now rid db) =
     map (\<lambda>r. if fr_id r = rid then r\<lparr>fr_yanked_at := Some now\<rparr> else r) (firmware_releases db)"
  by (simp add: yankFirmwareRelease_def)

lemma getKioskById_update:
  assumes "\<And>k. k_id (f k) = k_id k"
  shows "getKioskById (update_kiosk kid f db) kid = map_option f (getKioskById db kid)"
proof -
  have "find (\<lambda>k. k_id k = kid) (map (\<lambda>k. if k_id k = kid then f k else k) ks)
        = map_option f (find (\<lambda>k. k_id k = kid) ks)" for ks
    by (induction ks) (auto simp: assms)
  then show ?thesis by (simp add: getKioskById_def update_kiosk_def)
qed

lemma query_target_normal: "normalizeFirmwareTarget (Some (query_target q)) = query_target q"
  by (simp add: query_target_def Let_def normalizeFirmwareTarget_idem)

lemma select_firmware_sound:
  assumes "select_firmware sha_word db kiosk target = Some r"
    and "normalizeFirmwareTarget (Some target) = target"
  shows "r \<in> set (firmware_releases db) \<and> fr_yanked_at r = None
         \<and> normalizeFirmwareTarget (Some (fr_arch r)) = target"
  using assms unfolding select_firmware_def by (rule fw.kiosk_selection_sound)

lemma select_os_update_sound:
  assumes "select_os_update sha_word db kiosk c = Some r"
  shows "r \<in> set (os_update_releases db) \<and> orl_yanked_at r = None \<and> orl_compatibility r = c"
  using assms unfolding select_os_update_def by (rule os.kiosk_selection_sound) simp

lemma selectWindowsRelease_sound:
  assumes "selectWindowsRelease sha_word db kiosk = Some r"
  shows "r \<in> set (firmware_releases db) \<and> fr_yanked_at r = None \<and> fr_arch r = ''windows-x64''"
  using assms
  by (auto simp: selectWindowsRelease_def or_else_Some not_yanked_Some
      dest: fw.by_version_row fw.latest_row fw.by_id_row
      dest!: first_rollout_release_Some split: if_splits)

lemma windows_target_normal: "normalizeFirmwareTarget (Some ''windows-x64'') = ''windows-x64''"
  by code_simp

text \<open>The offer names a row that is live, built for the device and newer than its version.\<close>

definition good_firmware_offer ::
  "(string \<Rightarrow> string \<Rightarrow> int) \<Rightarrow> release_db \<Rightarrow> string \<Rightarrow> string \<Rightarrow> firmware_update \<Rightarrow> bool" where
  "good_firmware_offer lc db target current u \<longleftrightarrow>
     (\<exists>r \<in> set (firmware_releases db).
        fr_yanked_at r = None \<and> normalizeFirmwareTarget (Some (fr_arch r)) = target \<and>
        isVersionUpgrade lc (fr_version r) current \<and>
        fu_release_id u = fr_id r \<and> fu_version u = fr_version r \<and>
        fu_sha256 u = fr_sha256 r \<and> fu_signature u = fr_signature r)"

lemma good_firmware_offerI:
  assumes "offer_if_newer lc fr_version (firmware_offer base key) current release = Some u"
    and "\<And>r. release = Some r \<Longrightarrow> r \<in> set (firmware_releases db) \<and> fr_yanked_at r = None
              \<and> normalizeFirmwareTarget (Some (fr_arch r)) = target"
  shows "good_firmware_offer lc db target current u"
  using assms by (auto simp: good_firmware_offer_def offer_if_newer_Some firmware_offer_def)

lemma firmware_check_facts:
  assumes "kiosk_firmware_check lc sha_word public_key db kid q = Inr (db', Some u)"
  shows "(\<exists>kiosk. getKioskById db kid = Some kiosk \<and>
            good_firmware_offer lc db (query_target q)
              (query_current q (k_kiosk_app_version kiosk)) u) \<and>
         (\<exists>kiosk'. getKioskById db' kid = Some kiosk' \<and> k_firmware_target kiosk' = Some (query_target q))"
proof -
  define target where "target = query_target q"
  obtain kiosk where k: "getKioskById db kid = Some kiosk"
    using assms by (auto simp: kiosk_firmware_check_def split: option.splits)
  define db1 where
    "db1 = (if k_firmware_target kiosk \<noteq> Some target
            then update_kiosk kid (\<lambda>k. k\<lparr>k_firmware_target := Some target\<rparr>) db else db)"
  have rel: "firmware_releases db1 = firmware_releases db" by (simp add: db1_def)
  have norm: "normalizeFirmwareTarget (Some target) = target"
    by (simp add: target_def query_target_normal)
  have out: "db' = db1"
    and sel: "if target = FIRMWARE_TARGET_WINDOWS
       then offer_if_newer lc fr_version (firmware_offer ''/api/kiosk/firmware/download/'' None)
              (query_current q (k_kiosk_app_version kiosk)) (selectWindowsRelease sha_word db1 kiosk) = Some u
       else offer_if_newer lc fr_version (firmware_offer ''/api/kiosk/firmware/download/'' (Some public_key))
              (query_current q (k_kiosk_app_version kiosk)) (select_firmware sha_word db1 kiosk target) = Some u"
    using assms k
    by (auto simp: kiosk_firmware_check_def Let_def db1_def target_def split: if_splits)
  have "good_firmware_offer lc db target (query_current q (k_kiosk_app_version kiosk)) u"
  proof (cases "target = FIRMWARE_TARGET_WINDOWS")
    case True
    with sel show ?thesis
      by (auto intro!: good_firmware_offerI dest!: selectWindowsRelease_sound
          simp: rel FIRMWARE_TARGET_WINDOWS_def windows_target_normal)
  next
    case False
    with sel show ?thesis
      by (auto intro!: good_firmware_offerI dest!: select_firmware_sound [OF _ norm] simp: rel)
  qed
  moreover have "\<exists>kiosk'. getKioskById db1 kid = Some kiosk' \<and> k_firmware_target kiosk' = Some target"
    using k by (auto simp: db1_def getKioskById_update)
  ultimately show ?thesis using k out by (auto simp: target_def)
qed

lemma firmware_check_good:
  assumes "kiosk_firmware_check lc sha_word public_key db kid q = Inr (db', Some u)"
  shows "\<exists>current. good_firmware_offer lc db (query_target q) current u"
  using firmware_check_facts [OF assms] by blast

lemma public_check_selected:
  assumes "public_firmware_check lc public_key db q = Inr (Some u)"
  obtains r where "selectPublicUpdate fr_yanked_at q
        (\<lambda>c. getLatestFirmwareRelease db c (query_target q))
        (\<lambda>v. getFirmwareReleaseByVersionArch db v (query_target q)) = Some r"
    and "isVersionUpgrade lc (fr_version r) (query_current q None)"
    and "u = firmware_offer ''/api/firmware/public/download/'' (Some public_key) r"
  using assms
  by (auto simp: public_firmware_check_def Let_def offer_if_newer_Some split: if_splits)

lemma public_check_good:
  assumes "public_firmware_check lc public_key db q = Inr (Some u)"
  shows "good_firmware_offer lc db (query_target q) (query_current q None) u"
proof -
  from assms obtain r where sel: "selectPublicUpdate fr_yanked_at q
        (\<lambda>c. getLatestFirmwareRelease db c (query_target q))
        (\<lambda>v. getFirmwareReleaseByVersionArch db v (query_target q)) = Some r"
    and up: "isVersionUpgrade lc (fr_version r) (query_current q None)"
    and u: "u = firmware_offer ''/api/firmware/public/download/'' (Some public_key) r"
    by (rule public_check_selected)
  with fw.public_selection_sound [OF sel] query_target_normal [of q] show ?thesis
    by (auto simp: good_firmware_offer_def firmware_offer_def)
qed

text \<open>
  (C6) Whatever the pins, rollouts and channels, an update offered by the authenticated
  firmware check, on Windows or not, names a release of the table that is not yanked, is
  built for the normalised target the device asked for and is strictly newer than the
  version the device runs; and the check records the device's target.
\<close>

theorem firmware_check_sound:
  assumes "kiosk_firmware_check lc sha_word public_key db kid q = Inr (db', Some u)"
  shows "(\<exists>kiosk. getKioskById db kid = Some kiosk \<and>
            good_firmware_offer lc db (query_target q)
              (query_current q (k_kiosk_app_version kiosk)) u) \<and>
         (\<exists>kiosk'. getKioskById db' kid = Some kiosk' \<and> k_firmware_target kiosk' = Some (query_target q))"
  using assms by (rule firmware_check_facts)

text \<open>
  The same for full OS images, on both the authenticated and the public check: the
  offered image is a live row with exactly the requested compatibility string, strictly
  newer than the version reported.
\<close>

theorem os_check_sound:
  assumes "(\<exists>db'. kiosk_os_check lc sha_word db kid q = Inr (db', Some u) \<and>
               getKioskById db kid = Some kiosk \<and> installed = k_os_version kiosk)
           \<or> (public_os_check lc db q = Inr (Some u) \<and> installed = None)"
  shows "\<exists>r \<in> set (os_update_releases db). \<exists>c.
           map_of q ''compatibility'' = Some c \<and> orl_compatibility r = js_trim c \<and>
           orl_yanked_at r = None \<and> isVersionUpgrade lc (orl_version r) (query_current q installed) \<and>
           ou_release_id u = orl_id r \<and> ou_sha256 u = orl_sha256 r"
  using assms
proof
  assume "\<exists>db'. kiosk_os_check lc sha_word db kid q = Inr (db', Some u) \<and>
               getKioskById db kid = Some kiosk \<and> installed = k_os_version kiosk"
  then obtain c r where "map_of q ''compatibility'' = Some c"
    and "select_os_update sha_word db kiosk (js_trim c) = Some r"
    and "isVersionUpgrade lc (orl_version r) (query_current q installed)"
    and "u = os_offer ''/api/kiosk/os/download/'' r"
    by (auto simp: kiosk_os_check_def Let_def offer_if_newer_Some truthy_str_iff
        split: if_splits)
  with select_os_update_sound [of sha_word db kiosk "js_trim c" r] show ?thesis
    by (auto simp: os_offer_def)
next
  assume "public_os_check lc db q = Inr (Some u) \<and> installed = None"
  then obtain c r where "map_of q ''compatibility'' = Some c"
    and sel: "selectPublicUpdate orl_yanked_at q
      (\<lambda>channel. getLatestOsUpdateRelease db channel (js_trim c))
      (\<lambda>ver. getOsUpdateReleaseByVersionCompatibility db ver (js_trim c)) = Some r"
    and "isVersionUpgrade lc (orl_version r) (query_current q installed)"
    and "u = os_offer ''/api/os/public/download/'' r"
    by (auto simp: public_os_check_def Let_def offer_if_newer_Some truthy_str_iff split: if_splits)
  with os.public_selection_sound [OF sel] show ?thesis by (auto simp: os_offer_def)
qed

text \<open>
  A pin in a public check is authoritative: the check offers the pinned version or
  nothing, never another release, also when the pinned release is missing or yanked; and
  without a pin no live release of the offered channel and target is newer.
\<close>

theorem public_pin_authoritative:
  assumes "public_firmware_check lc public_key db q = Inr (Some u)"
  shows "(\<forall>v. map_of q ''version'' = Some v \<and> v \<noteq> [] \<longrightarrow> fu_version u = v) \<and>
         good_firmware_offer lc db (query_target q) (query_current q None) u \<and>
         (\<not> truthy_str (map_of q ''version'') \<longrightarrow>
           (\<forall>p \<in> set (firmware_releases db).
              fr_yanked_at p = None \<and> fr_arch p = query_target q \<and> fr_channel p = fu_channel u
              \<longrightarrow> (\<exists>r \<in> set (firmware_releases db). fr_id r = fu_release_id u
                    \<and> fr_uploaded_at p \<le> fr_uploaded_at r)))"
proof -
  from assms obtain r where sel: "selectPublicUpdate fr_yanked_at q
        (\<lambda>c. getLatestFirmwareRelease db c (query_target q))
        (\<lambda>v. getFirmwareReleaseByVersionArch db v (query_target q)) = Some r"
    and u: "u = firmware_offer ''/api/firmware/public/download/'' (Some public_key) r"
    by (rule public_check_selected)
  with fw.public_selection_sound [OF sel] fw.unpinned_public_newest [OF sel]
    public_check_good [OF assms] show ?thesis
    by (auto simp: firmware_offer_def)
qed

text \<open>
  Gradual rollout is one threshold rule: the guarded test of the Linux and OS checks
  equals the bare comparison of the Windows selection for every percentage, and raising a
  percentage never drops a kiosk that was already included.
\<close>

theorem rollout_bucket_monotone:
  "isKioskInRolloutBucket sha_word kid oid p
     = (\<not> of_nat (rollout_bucket sha_word kid oid) \<ge> p) \<and>
   (isKioskInRolloutBucket sha_word kid oid p \<and> p \<le> p' \<longrightarrow>
    isKioskInRolloutBucket sha_word kid oid p')"
proof -
  have b: "rollout_bucket sha_word kid oid < 100" by (simp add: rollout_bucket_def)
  then have "of_nat (rollout_bucket sha_word kid oid) < (100 :: number)"
    using of_nat_less_iff [where 'a = number, of "rollout_bucket sha_word kid oid" 100] by simp
  moreover have "0 \<le> (of_nat (rollout_bucket sha_word kid oid) :: number)" by simp
  ultimately have "isKioskInRolloutBucket sha_word kid oid x
      \<longleftrightarrow> of_nat (rollout_bucket sha_word kid oid) < x" for x
    unfolding isKioskInRolloutBucket_def by (auto split: if_splits)
  then show ?thesis by (auto simp: not_le)
qed

text \<open>A release table in which no two rows share an id or a version and architecture.\<close>

definition release_keys_unique :: "release_db \<Rightarrow> bool" where
  "release_keys_unique db \<longleftrightarrow>
     distinct (map fr_id (firmware_releases db)) \<and>
     distinct (map (\<lambda>r. (fr_version r, fr_arch r)) (firmware_releases db))"

text \<open>
  Publishing is immutable: a successful upload either appends one new row or, on a
  retry, leaves the tables exactly as they were and returns the row already published,
  whose digest, size and channel are the uploaded ones; no row is replaced, no yank is
  undone, and the keys stay unique.
\<close>

theorem firmware_publish_immutable:
  assumes "release_keys_unique db" and "createFirmwareRelease db input = Inr (db', r)"
  shows "(db' = db \<or> firmware_releases db' = firmware_releases db @ [r]) \<and>
         release_keys_unique db' \<and> fr_sha256 r = fr_sha256 input \<and>
         fr_version r = fr_version input \<and> fr_arch r = fr_arch input \<and> fr_yanked_at r = None \<and>
         (r \<in> set (firmware_releases db) \<or> r = input\<lparr>fr_yanked_at := None\<rparr>)"
proof (cases "getFirmwareReleaseByVersionArch db (fr_version input) (fr_arch input)")
  case None
  then have fresh: "\<forall>q \<in> set (firmware_releases db).
      (fr_version q, fr_arch q) \<noteq> (fr_version input, fr_arch input)"
    by (auto simp: getFirmwareReleaseByVersionArch_def find_None_iff)
  have new_id: "\<forall>q \<in> set (firmware_releases db). fr_id q \<noteq> fr_id input"
    using assms(2) None
    by (auto simp: createFirmwareRelease_def getFirmwareRelease_def find_None_iff split: if_splits)
  define row where "row = input\<lparr>fr_yanked_at := None\<rparr>"
  define db1 where "db1 = db\<lparr>firmware_releases := firmware_releases db @ [row]\<rparr>"
  have found: "find P (xs @ [x]) = Some x" if "\<forall>y \<in> set xs. \<not> P y" "P x"
    for P and xs :: "firmware_release list" and x
    using that by (induction xs) auto
  have look: "getFirmwareReleaseByVersionArch db1 (fr_version input) (fr_arch input) = Some row"
    using fresh by (auto simp: getFirmwareReleaseByVersionArch_def db1_def row_def intro!: found)
  have "\<not> getFirmwareRelease db (fr_id input) \<noteq> None"
    using new_id by (auto simp: getFirmwareRelease_def find_None_iff)
  then have "createFirmwareRelease db input = Inr (db1, row)"
    using None look unfolding db1_def
    by (simp add: createFirmwareRelease_def row_def)
  with assms(2) have "r = row" "db' = db1" by simp_all
  then have "r = input\<lparr>fr_yanked_at := None\<rparr>"
    and "db' = db\<lparr>firmware_releases := firmware_releases db @ [r]\<rparr>"
    by (simp_all add: row_def db1_def)
  with assms(1) fresh new_id show ?thesis
    by (auto simp: release_keys_unique_def)
next
  case (Some q)
  then show ?thesis
    using assms fw.by_version_row [OF Some]
    by (auto simp: createFirmwareRelease_def Let_def split: if_splits)
qed

text \<open>
  Yanking takes effect at once: after a release is yanked no firmware check, public
  or authenticated, offers it and no download serves it.
\<close>

theorem yanked_release_unavailable:
  "(kiosk_firmware_check lc sha_word key (yankFirmwareRelease now rid db) kid q = Inr (db', Some u)
     \<longrightarrow> fu_release_id u \<noteq> rid) \<and>
   (public_firmware_check lc key (yankFirmwareRelease now rid db) q = Inr (Some u)
     \<longrightarrow> fu_release_id u \<noteq> rid) \<and>
   (\<forall>x. firmware_download read_file sha256 (yankFirmwareRelease now rid db) rid \<noteq> Inr x)"
proof -
  have live: "fr_id r \<noteq> rid"
    if "r \<in> set (firmware_releases (yankFirmwareRelease now rid db))" "fr_yanked_at r = None" for r
  proof -
    from that(1) obtain r0 where
      "r = (if fr_id r0 = rid then r0\<lparr>fr_yanked_at := Some now\<rparr> else r0)"
      unfolding yank_rows set_map by (elim imageE)
    with that(2) show ?thesis by (cases "fr_id r0 = rid") simp_all
  qed
  have offer: "fu_release_id u \<noteq> rid"
    if "good_firmware_offer lc (yankFirmwareRelease now rid db) t current u" for t current
    using that live unfolding good_firmware_offer_def by metis
  have "firmware_download read_file sha256 (yankFirmwareRelease now rid db) rid \<noteq> Inr x" for x
    using live
    by (auto simp: firmware_download_def getFirmwareRelease_def bind_result_eq_Inr
        split: option.splits if_splits dest!: find_Some)
  with offer firmware_check_good public_check_good show ?thesis by blast
qed

section \<open>Witnesses\<close>

definition demo_release :: "string \<Rightarrow> string \<Rightarrow> number \<Rightarrow> firmware_release" where
  "demo_release i v t =
     sample_firmware_release\<lparr>fr_id := i, fr_version := v, fr_arch := FIRMWARE_TARGET_RPI5,
       fr_artifact_path := i @ ''.bin'', fr_sha256 := i, fr_uploaded_at := t\<rparr>"

definition demo_kiosk :: kiosk where
  "demo_kiosk = sample_kiosk\<lparr>k_id := ''k1'', k_kiosk_app_version := Some ''1.2.9''\<rparr>"

lemma demo_kiosk_fields [simp]:
  "k_id demo_kiosk = ''k1''" "k_kiosk_app_version demo_kiosk = Some ''1.2.9''"
  "k_firmware_target demo_kiosk = None" "k_firmware_target_version demo_kiosk = None"
  "k_firmware_channel demo_kiosk = ChStable"
  by (simp_all add: demo_kiosk_def sample_kiosk_def)

definition demo_os_release :: os_update_release where
  "demo_os_release =
     \<lparr>orl_id = ''o1'', orl_version = ''2.0.0'', orl_channel = ChStable, orl_compatibility = ''pc'',
      orl_artifact_path = ''o1.raucb'', orl_size_bytes = 1, orl_sha256 = ''o1'', orl_bundle_format = (),
      orl_release_notes = None, orl_uploaded_at = 1, orl_uploaded_by = None, orl_yanked_at = None\<rparr>"

definition demo_db :: release_db where
  "demo_db =
     \<lparr>firmware_releases = [demo_release ''r1'' ''1.2.9'' 1, demo_release ''r2'' ''1.2.10'' 2],
      firmware_rollouts = [], os_update_releases = [demo_os_release], os_update_rollouts = [],
      kiosks_table = [demo_kiosk]\<rparr>"

definition demo_query :: query where
  "demo_query = [(''arch'', ''aarch64-unknown-linux-gnu'')]"

lemma demo_query_target: "query_target demo_query = FIRMWARE_TARGET_RPI5"
  by (simp add: query_target_def demo_query_def normalizeFirmwareTarget_def js_trim_def is_ws_def)

lemma demo_query_current: "query_current demo_query (Some v) = v" "query_current demo_query None = []"
  by (simp_all add: query_current_def demo_query_def)

lemma demo_latest:
  "getLatestFirmwareRelease db ChStable FIRMWARE_TARGET_RPI5 = Some (demo_release ''r2'' ''1.2.10'' 2)"
  if "firmware_releases db = firmware_releases demo_db"
  by (simp add: getLatestFirmwareRelease_def that demo_db_def demo_release_def sample_firmware_release_def
      limit_one_def order_desc_def)

lemma demo_upgrade:
  "isVersionUpgrade code_unit_compare ''1.2.10'' ''1.2.9''"
  "isVersionUpgrade code_unit_compare ''1.2.10'' []"
  "isVersionUpgrade code_unit_compare ''2.0.0'' []"
  by (simp_all add: version_eval)

definition demo_db_after :: release_db where
  "demo_db_after = update_kiosk ''k1'' (\<lambda>k. k\<lparr>k_firmware_target := Some FIRMWARE_TARGET_RPI5\<rparr>) demo_db"

lemma demo_check:
  "kiosk_firmware_check code_unit_compare (\<lambda>_. 0) ''pem'' demo_db ''k1'' demo_query
     = Inr (demo_db_after, Some (firmware_offer ''/api/kiosk/firmware/download/'' (Some ''pem'')
              (demo_release ''r2'' ''1.2.10'' 2)))"
proof -
  have k: "getKioskById demo_db ''k1'' = Some demo_kiosk"
    by (simp add: getKioskById_def demo_db_def demo_kiosk_def)
  have rel: "firmware_releases demo_db_after = firmware_releases demo_db"
    "firmware_rollouts demo_db_after = []"
    by (simp_all add: demo_db_after_def demo_db_def)
  have sel: "select_firmware (\<lambda>_. 0) demo_db_after demo_kiosk FIRMWARE_TARGET_RPI5
      = Some (demo_release ''r2'' ''1.2.10'' 2)"
    by (simp add: select_firmware_def or_else_def demo_latest rel
        listActiveRolloutsForKiosk_def order_desc_def)
  have target: "FIRMWARE_TARGET_RPI5 \<noteq> []" "FIRMWARE_TARGET_RPI5 \<noteq> FIRMWARE_TARGET_WINDOWS"
    by (simp_all add: firmware_target_defs)
  have "fr_version (demo_release ''r2'' ''1.2.10'' 2) = ''1.2.10''" by (simp add: demo_release_def)
  with sel show ?thesis
    unfolding kiosk_firmware_check_def k demo_query_target
    by (simp add: Let_def target demo_db_after_def [symmetric] offer_if_newer_def
        demo_query_current demo_upgrade)
qed

theorem firmware_check_sound_witness:
  "\<exists>u. kiosk_firmware_check code_unit_compare (\<lambda>_. 0) ''pem'' demo_db ''k1'' demo_query
         = Inr (demo_db_after, Some u) \<and>
       (\<exists>current. good_firmware_offer code_unit_compare demo_db FIRMWARE_TARGET_RPI5 current u)"
  using firmware_check_sound [OF demo_check] demo_check by (auto simp: demo_query_target)

definition demo_os_query :: query where
  "demo_os_query = [(''compatibility'', '' pc '')]"

lemma demo_os_check:
  "public_os_check code_unit_compare demo_db demo_os_query
     = Inr (Some (os_offer ''/api/os/public/download/'' demo_os_release))"
proof -
  have c: "map_option js_trim (map_of demo_os_query ''compatibility'') = Some ''pc''"
    by (simp add: demo_os_query_def js_trim_def is_ws_def)
  have latest: "getLatestOsUpdateRelease demo_db ChStable ''pc'' = Some demo_os_release"
    by (simp add: getLatestOsUpdateRelease_def demo_db_def demo_os_release_def order_desc_def limit_one_def)
  have "channel_of_string (nullish (map_of demo_os_query ''channel'') ''stable'') = Some ChStable"
    "map_of demo_os_query ''version'' = None"
    by (simp_all add: demo_os_query_def channel_of_string_def)
  moreover have "orl_yanked_at demo_os_release = None" "orl_version demo_os_release = ''2.0.0''"
    by (simp_all add: demo_os_release_def)
  ultimately have sel: "selectPublicUpdate orl_yanked_at demo_os_query
      (\<lambda>channel. getLatestOsUpdateRelease demo_db channel ''pc'') f = Some demo_os_release" for f
    by (simp add: selectPublicUpdate_def latest)
  have cur: "query_current demo_os_query None = []"
    by (simp add: query_current_def demo_os_query_def)
  have up: "isVersionUpgrade code_unit_compare (orl_version demo_os_release) []"
    unfolding \<open>orl_version demo_os_release = ''2.0.0''\<close> by (rule demo_upgrade)
  show ?thesis
    unfolding public_os_check_def c Let_def option.sel sel cur offer_if_newer_def
    using up by simp
qed

theorem os_check_sound_witness:
  "\<exists>u. public_os_check code_unit_compare demo_db demo_os_query = Inr (Some u) \<and>
       (\<exists>r \<in> set (os_update_releases demo_db). orl_compatibility r = ''pc'' \<and> ou_release_id u = orl_id r)"
proof -
  have pc: "js_trim '' pc '' = ''pc''" by (simp add: js_trim_def is_ws_def)
  have q: "map_of demo_os_query ''compatibility'' = Some '' pc ''"
    by (simp add: demo_os_query_def)
  obtain r where "r \<in> set (os_update_releases demo_db)" and "orl_compatibility r = ''pc''"
    and "ou_release_id (os_offer ''/api/os/public/download/'' demo_os_release) = orl_id r"
    using os_check_sound [OF disjI2 [OF conjI [OF demo_os_check refl]]] unfolding q option.inject
    by (metis pc)
  then show ?thesis using demo_os_check by blast
qed

lemma demo_public_check:
  "public_firmware_check code_unit_compare ''pem'' demo_db demo_query
     = Inr (Some (firmware_offer ''/api/firmware/public/download/'' (Some ''pem'')
              (demo_release ''r2'' ''1.2.10'' 2)))"
proof -
  have "FIRMWARE_TARGET_RPI5 \<noteq> []" by (simp add: firmware_target_defs)
  moreover have "selectPublicUpdate fr_yanked_at demo_query
      (\<lambda>channel. getLatestFirmwareRelease demo_db channel FIRMWARE_TARGET_RPI5) f
      = Some (demo_release ''r2'' ''1.2.10'' 2)" for f
    by (simp add: selectPublicUpdate_def demo_query_def channel_of_string_def demo_latest)
       (simp add: demo_release_def sample_firmware_release_def)
  moreover have "fr_version (demo_release ''r2'' ''1.2.10'' 2) = ''1.2.10''"
    by (simp add: demo_release_def)
  ultimately show ?thesis
    by (simp add: public_firmware_check_def demo_query_target offer_if_newer_def
        demo_query_current demo_upgrade)
qed

theorem public_pin_authoritative_witness:
  "\<exists>u. public_firmware_check code_unit_compare ''pem'' demo_db demo_query = Inr (Some u) \<and>
       good_firmware_offer code_unit_compare demo_db FIRMWARE_TARGET_RPI5 [] u"
  using public_pin_authoritative [OF demo_public_check] demo_public_check
  by (auto simp: demo_query_target demo_query_current)

theorem rollout_bucket_monotone_witness:
  "isKioskInRolloutBucket (\<lambda>_. 1234) ''k1'' ''o1'' 40 \<and> isKioskInRolloutBucket (\<lambda>_. 1234) ''k1'' ''o1'' 60"
proof -
  have "isKioskInRolloutBucket (\<lambda>_. 1234) ''k1'' ''o1'' 40"
    by (simp add: isKioskInRolloutBucket_def rollout_bucket_def)
  with rollout_bucket_monotone [of "\<lambda>_. 1234" "''k1''" "''o1''" 40 60] show ?thesis by simp
qed

definition demo_upload :: firmware_release where
  "demo_upload = demo_release ''r3'' ''1.3.0'' 3"

lemma demo_keys: "release_keys_unique demo_db"
  by (simp add: release_keys_unique_def demo_db_def demo_release_def)

lemma demo_create:
  "createFirmwareRelease demo_db demo_upload
     = Inr (demo_db\<lparr>firmware_releases := firmware_releases demo_db @ [demo_upload]\<rparr>, demo_upload)"
  by (simp add: createFirmwareRelease_def demo_upload_def demo_db_def demo_release_def
      getFirmwareReleaseByVersionArch_def getFirmwareRelease_def sample_firmware_release_def)

theorem firmware_publish_immutable_witness:
  "\<exists>db'. createFirmwareRelease demo_db demo_upload = Inr (db', demo_upload) \<and> release_keys_unique db'"
  using firmware_publish_immutable [OF demo_keys demo_create] demo_create by blast

theorem yanked_release_unavailable_witness:
  "public_firmware_check code_unit_compare ''pem'' (yankFirmwareRelease 9 ''r1'' demo_db) demo_query
     = Inr (Some (firmware_offer ''/api/firmware/public/download/'' (Some ''pem'')
              (demo_release ''r2'' ''1.2.10'' 2))) \<and>
   (\<forall>x. firmware_download (\<lambda>_. Some ''blob'') (\<lambda>_. ''r1'') (yankFirmwareRelease 9 ''r1'' demo_db) ''r1'' \<noteq> Inr x)"
proof -
  have "getLatestFirmwareRelease (yankFirmwareRelease 9 ''r1'' demo_db) ChStable FIRMWARE_TARGET_RPI5
      = Some (demo_release ''r2'' ''1.2.10'' 2)"
    by (simp add: getLatestFirmwareRelease_def yankFirmwareRelease_def demo_db_def demo_release_def
        sample_firmware_release_def limit_one_def order_desc_def)
  then have "selectPublicUpdate fr_yanked_at demo_query
      (\<lambda>channel. getLatestFirmwareRelease (yankFirmwareRelease 9 ''r1'' demo_db) channel FIRMWARE_TARGET_RPI5) f
      = Some (demo_release ''r2'' ''1.2.10'' 2)" for f
    by (simp add: selectPublicUpdate_def demo_query_def channel_of_string_def)
       (simp add: demo_release_def sample_firmware_release_def)
  moreover have "fr_version (demo_release ''r2'' ''1.2.10'' 2) = ''1.2.10''"
    by (simp add: demo_release_def)
  moreover have "FIRMWARE_TARGET_RPI5 \<noteq> []" by (simp add: firmware_target_defs)
  ultimately have "public_firmware_check code_unit_compare ''pem'' (yankFirmwareRelease 9 ''r1'' demo_db) demo_query
     = Inr (Some (firmware_offer ''/api/firmware/public/download/'' (Some ''pem'')
              (demo_release ''r2'' ''1.2.10'' 2)))"
    by (simp add: public_firmware_check_def demo_query_target offer_if_newer_def
        demo_query_current demo_upgrade)
  with yanked_release_unavailable
    [of code_unit_compare "\<lambda>_. 0" "''pem''" 9 "''r1''" demo_db "''k1''" demo_query demo_db
      "firmware_offer [] None demo_upload" "\<lambda>_. Some ''blob''" "\<lambda>_. ''r1''"]
  show ?thesis by blast
qed

end
