(* ===== verification/BF_Cleanup.thy ===== *)
theory BF_Cleanup
  imports BF_Releases "HOL-Library.Multiset"
begin

text \<open>
  The periodic artifact cleanup (\<^verbatim>\<open>server/src/shared/artifact-cleanup.ts\<close>): yanked releases and
  the releases beyond the five newest of each channel and target lose their file and
  their row, unless a rollout that is not complete refers to them.  The two passes of
  the code share one definition, and the locale \<open>artifact_store\<close> carries the
  proofs for both.
\<close>

section \<open>The cleanup pass\<close>

record cleanup_state =
  cl_db :: release_db
  cl_files :: "string list"
  cl_cleaned :: nat

text \<open>
  \<open>fails path\<close> holds when \<^verbatim>\<open>unlink\<close> throws an error other than \<^verbatim>\<open>ENOENT\<close> for that path; such
  an error ends the pass, and the second component of a result is then \<open>True\<close>.
\<close>

definition removeFile :: "(string \<Rightarrow> bool) \<Rightarrow> string \<Rightarrow> string list \<Rightarrow> bool \<times> bool \<times> string list" where
  "removeFile fails path files =
     (if fails path then (True, False, files)
      else if path \<in> set files then (False, True, filter (\<lambda>f. f \<noteq> path) files)
      else (False, False, files))"

fun remove_releases ::
  "(string \<Rightarrow> bool) \<Rightarrow> ('r \<Rightarrow> string) \<Rightarrow> ('r \<Rightarrow> string) \<Rightarrow> (string \<Rightarrow> release_db \<Rightarrow> release_db)
   \<Rightarrow> string list \<Rightarrow> 'r list \<Rightarrow> cleanup_state \<Rightarrow> cleanup_state \<times> bool" where
  "remove_releases fails id_of path_of delete_row active [] s = (s, False)"
| "remove_releases fails id_of path_of delete_row active (r # rs) s =
     (if id_of r \<in> set active then remove_releases fails id_of path_of delete_row active rs s
      else case removeFile fails (path_of r) (cl_files s) of
          (True, _, _) \<Rightarrow> (s, True)
        | (False, removed, files) \<Rightarrow>
            remove_releases fails id_of path_of delete_row active rs
              (s\<lparr>cl_files := files,
                 cl_cleaned := (if removed then cl_cleaned s + 1 else cl_cleaned s),
                 cl_db := delete_row (id_of r) (cl_db s)\<rparr>))"

text \<open>The map \<^verbatim>\<open>byKey\<close>: the releases of each key in the order they were listed.\<close>

definition group_by_key :: "('r \<Rightarrow> string) \<Rightarrow> 'r list \<Rightarrow> (string, 'r list) jsmap" where
  "group_by_key key rs =
     foldl (\<lambda>m r. AList.update (key r) (nullish (map_of m (key r)) [] @ [r]) m) [] rs"

definition KEEP_PER_CHANNEL :: nat where
  "KEEP_PER_CHANNEL = 5"

definition excess_releases :: "('r \<Rightarrow> string) \<Rightarrow> ('r \<Rightarrow> number) \<Rightarrow> 'r list \<Rightarrow> 'r list" where
  "excess_releases key uploaded rs =
     concat (map (\<lambda>(_, releases). drop KEEP_PER_CHANNEL (order_desc uploaded releases))
       (group_by_key key rs))"

definition holds_release :: "rollout_state \<Rightarrow> bool" where
  "holds_release st \<longleftrightarrow> st \<in> {RolloutQueued, RolloutActive, RolloutPaused}"

definition channel_name :: "firmware_channel \<Rightarrow> string" where
  "channel_name c = (case c of ChStable \<Rightarrow> ''stable'' | ChBeta \<Rightarrow> ''beta'' | ChDev \<Rightarrow> ''dev'')"

definition cleanup_pass ::
  "(string \<Rightarrow> bool) \<Rightarrow> ('r \<Rightarrow> string) \<Rightarrow> ('r \<Rightarrow> string) \<Rightarrow> ('r \<Rightarrow> timestamp option) \<Rightarrow> ('r \<Rightarrow> string)
   \<Rightarrow> ('r \<Rightarrow> number) \<Rightarrow> (string \<Rightarrow> release_db \<Rightarrow> release_db) \<Rightarrow> (release_db \<Rightarrow> 'r list)
   \<Rightarrow> (release_db \<Rightarrow> 'r list) \<Rightarrow> (release_db \<Rightarrow> string list) \<Rightarrow> cleanup_state \<Rightarrow> cleanup_state \<times> bool" where
  "cleanup_pass fails id_of path_of yanked_at key uploaded delete_row list_yanked list_rows held s =
     (let active = held (cl_db s);
          (s1, thrown) = remove_releases fails id_of path_of delete_row active (list_yanked (cl_db s)) s
      in if thrown then (s1, True)
         else remove_releases fails id_of path_of delete_row active
                (excess_releases key uploaded (filter (\<lambda>r. yanked_at r = None) (list_rows (cl_db s1)))) s1)"

definition firmware_key :: "firmware_release \<Rightarrow> string" where
  "firmware_key r = channel_name (fr_channel r) @ '':'' @ fr_arch r"

definition os_key :: "os_update_release \<Rightarrow> string" where
  "os_key r = channel_name (orl_channel r) @ '':'' @ orl_compatibility r"

definition held_firmware :: "release_db \<Rightarrow> string list" where
  "held_firmware db = map fo_release_id (filter (\<lambda>ro. holds_release (fo_state ro)) (listFirmwareRollouts db))"

definition held_os :: "release_db \<Rightarrow> string list" where
  "held_os db = map oo_release_id (filter (\<lambda>ro. holds_release (oo_state ro)) (listOsUpdateRollouts db))"

definition cleanupFirmware :: "(string \<Rightarrow> bool) \<Rightarrow> cleanup_state \<Rightarrow> cleanup_state \<times> bool" where
  "cleanupFirmware fails =
     cleanup_pass fails fr_id fr_artifact_path fr_yanked_at firmware_key fr_uploaded_at
       deleteFirmwareRelease listYankedFirmwareReleases listFirmwareReleases held_firmware"

definition cleanupOsUpdates :: "(string \<Rightarrow> bool) \<Rightarrow> cleanup_state \<Rightarrow> cleanup_state \<times> bool" where
  "cleanupOsUpdates fails =
     cleanup_pass fails orl_id orl_artifact_path orl_yanked_at os_key orl_uploaded_at
       deleteOsUpdateRelease listYankedOsUpdateReleases listOsUpdateReleases held_os"

text \<open>One run: the OS pass follows the firmware pass unless that pass threw.\<close>

definition cleanup_run :: "(string \<Rightarrow> bool) \<Rightarrow> cleanup_state \<Rightarrow> cleanup_state \<times> bool" where
  "cleanup_run fails s =
     (case cleanupFirmware fails s of
        (s1, True) \<Rightarrow> (s1, True)
      | (s1, False) \<Rightarrow> cleanupOsUpdates fails s1)"

section \<open>Grouping\<close>

lemma group_by_key_snoc:
  "group_by_key key (rs @ [r]) =
     AList.update (key r) (nullish (map_of (group_by_key key rs) (key r)) [] @ [r]) (group_by_key key rs)"
  by (simp add: group_by_key_def)

lemma group_by_key_get:
  "map_of (group_by_key key rs) k =
     (if filter (\<lambda>r. key r = k) rs = [] then None else Some (filter (\<lambda>r. key r = k) rs))"
proof (induction rs rule: rev_induct)
  case Nil
  then show ?case by (simp add: group_by_key_def)
next
  case (snoc r rs)
  then show ?case
    by (cases "k = key r"; cases "filter (\<lambda>r. key r = k) rs = []")
      (simp_all add: group_by_key_snoc get_set)
qed

lemma group_by_key_wf: "wf_map (group_by_key key rs)"
  by (induction rs rule: rev_induct) (auto simp: group_by_key_def intro!: wf_set)

lemma mset_order_desc: "mset (order_desc key xs) = mset xs"
  by (simp add: order_desc_def)

lemma length_filter_order_desc: "length (filter P (order_desc key xs)) = length (filter P xs)"
  by (metis mset_filter mset_order_desc size_mset)

text \<open>An element beyond the first \<open>n\<close> of the newest-first order has \<open>n\<close> others at least as new.\<close>

lemma drop_order_desc_rank:
  assumes "r \<in> set (drop n (order_desc key xs))"
  shows "n < length (filter (\<lambda>q. key r \<le> key q) xs)"
proof -
  define ys where "ys = order_desc key xs"
  have sorted: "sorted (map (\<lambda>x. - key x) ys)" by (simp add: ys_def order_desc_def)
  have n: "n < length ys" using assms by (cases "n < length ys") (auto simp: ys_def)
  have "sorted (map (\<lambda>x. - key x) (take n ys @ drop n ys))" using sorted by simp
  then have "\<forall>q \<in> set (take n ys). key r \<le> key q"
    using assms unfolding map_append sorted_append ys_def [symmetric] by auto
  then have "length (filter (\<lambda>q. key r \<le> key q) (take n ys)) = n"
    using n by (simp add: filter_id_conv [THEN iffD2])
  moreover have "filter (\<lambda>q. key r \<le> key q) (drop n ys) \<noteq> []"
    using assms by (auto simp: ys_def filter_empty_conv)
  then have "0 < length (filter (\<lambda>q. key r \<le> key q) (drop n ys))" by simp
  moreover have "length (filter (\<lambda>q. key r \<le> key q) ys)
      = length (filter (\<lambda>q. key r \<le> key q) (take n ys)) + length (filter (\<lambda>q. key r \<le> key q) (drop n ys))"
    by (metis append_take_drop_id filter_append length_append)
  ultimately show ?thesis
    using length_filter_order_desc [of "\<lambda>q. key r \<le> key q" key xs] by (simp add: ys_def)
qed

lemma length_filter_mono:
  "(\<And>x. P x \<Longrightarrow> Q x) \<Longrightarrow> length (filter P xs) \<le> length (filter Q xs)"
  by (induction xs) (auto simp: le_SucI)

lemma excess_releases_in:
  "r \<in> set (excess_releases key uploaded rs) \<longleftrightarrow>
   r \<in> set (drop KEEP_PER_CHANNEL (order_desc uploaded (filter (\<lambda>q. key q = key r) rs)))"
proof
  assume "r \<in> set (excess_releases key uploaded rs)"
  then obtain k g where kg: "(k, g) \<in> set (group_by_key key rs)"
    and r: "r \<in> set (drop KEEP_PER_CHANNEL (order_desc uploaded g))"
    by (auto simp: excess_releases_def)
  have "map_of (group_by_key key rs) k = Some g"
    using kg group_by_key_wf [of key rs] by simp
  then have g: "g = filter (\<lambda>q. key q = k) rs"
    by (simp add: group_by_key_get split: if_splits)
  moreover have "key r = k"
    using in_set_dropD [OF r] by (simp add: g)
  ultimately show "r \<in> set (drop KEEP_PER_CHANNEL (order_desc uploaded (filter (\<lambda>q. key q = key r) rs)))"
    using r by simp
next
  assume r: "r \<in> set (drop KEEP_PER_CHANNEL (order_desc uploaded (filter (\<lambda>q. key q = key r) rs)))"
  then have "filter (\<lambda>q. key q = key r) rs \<noteq> []" by (auto simp: order_desc_def)
  then have "map_of (group_by_key key rs) (key r) = Some (filter (\<lambda>q. key q = key r) rs)"
    by (simp add: group_by_key_get)
  then have "(key r, filter (\<lambda>q. key q = key r) rs) \<in> set (group_by_key key rs)"
    by (rule map_of_SomeD)
  with r show "r \<in> set (excess_releases key uploaded rs)"
    unfolding excess_releases_def by auto
qed

section \<open>The contract of an artifact store\<close>

text \<open>
  What a pass relies on: \<open>rows\<close> are the releases, both listings enumerate the table, deleting
  an id removes exactly the rows with that id, and the rollouts that hold a release are
  touched only when their release is deleted.
\<close>

locale artifact_store =
  fixes rows :: "release_db \<Rightarrow> 'r list"
    and id_of :: "'r \<Rightarrow> string" and path_of :: "'r \<Rightarrow> string"
    and yanked_at :: "'r \<Rightarrow> timestamp option" and key :: "'r \<Rightarrow> string"
    and uploaded :: "'r \<Rightarrow> number"
    and delete_row :: "string \<Rightarrow> release_db \<Rightarrow> release_db"
    and list_yanked :: "release_db \<Rightarrow> 'r list" and list_rows :: "release_db \<Rightarrow> 'r list"
    and held :: "release_db \<Rightarrow> string list"
  assumes delete_rows: "rows (delete_row i db) = filter (\<lambda>r. id_of r \<noteq> i) (rows db)"
    and delete_held: "set (held (delete_row i db)) = set (held db) - {i}"
    and list_yanked_rows: "set (list_yanked db) = {r \<in> set (rows db). yanked_at r \<noteq> None}"
    and list_rows_mset: "mset (list_rows db) = mset (rows db)"
begin

abbreviation pass :: "(string \<Rightarrow> bool) \<Rightarrow> cleanup_state \<Rightarrow> cleanup_state \<times> bool" where
  "pass fails \<equiv> cleanup_pass fails id_of path_of yanked_at key uploaded delete_row list_yanked list_rows held"

text \<open>The ids a loop deletes: unheld ones of its list, all of them unless it threw.\<close>

lemma remove_releases_spec:
  "\<exists>D. D \<subseteq> id_of ` set rs - set active \<and>
       rows (cl_db (fst (remove_releases fails id_of path_of delete_row active rs s)))
         = filter (\<lambda>r. id_of r \<notin> D) (rows (cl_db s)) \<and>
       set (held (cl_db (fst (remove_releases fails id_of path_of delete_row active rs s))))
         = set (held (cl_db s)) - D \<and>
       (\<not> snd (remove_releases fails id_of path_of delete_row active rs s) \<longrightarrow>
          D = id_of ` set rs - set active)"
proof (induction rs arbitrary: s)
  case Nil
  show ?case by (intro exI [of _ "{}"]) simp
next
  case (Cons r rs)
  show ?case
  proof (cases "id_of r \<in> set active")
    case True
    with Cons.IH [of s] show ?thesis by (auto simp: insert_Diff_if)
  next
    case False
    show ?thesis
    proof (cases "fails (path_of r)")
      case True
      with False show ?thesis by (intro exI [of _ "{}"]) (simp add: removeFile_def)
    next
      case ok: False
      obtain removed files where
        rf: "removeFile fails (path_of r) (cl_files s) = (False, removed, files)"
        using ok by (cases "path_of r \<in> set (cl_files s)") (auto simp: removeFile_def)
      define s' where "s' = s\<lparr>cl_files := files,
          cl_cleaned := (if removed then cl_cleaned s + 1 else cl_cleaned s),
          cl_db := delete_row (id_of r) (cl_db s)\<rparr>"
      have step: "remove_releases fails id_of path_of delete_row active (r # rs) s
          = remove_releases fails id_of path_of delete_row active rs s'"
        using False rf by (simp add: s'_def)
      have db: "cl_db s' = delete_row (id_of r) (cl_db s)" by (simp add: s'_def)
      obtain D where D: "D \<subseteq> id_of ` set rs - set active"
        "rows (cl_db (fst (remove_releases fails id_of path_of delete_row active rs s')))
           = filter (\<lambda>r. id_of r \<notin> D) (rows (cl_db s'))"
        "set (held (cl_db (fst (remove_releases fails id_of path_of delete_row active rs s'))))
           = set (held (cl_db s')) - D"
        "\<not> snd (remove_releases fails id_of path_of delete_row active rs s') \<longrightarrow>
           D = id_of ` set rs - set active"
        using Cons.IH [of s'] by blast
      show ?thesis
        unfolding step
        by (intro exI [of _ "insert (id_of r) D"])
          (use D False in \<open>auto simp: db delete_rows delete_held intro!: filter_cong\<close>)
    qed
  qed
qed

text \<open>
  A whole pass: it deletes only unheld releases that are yanked or in excess, and when it
  does not throw it deletes all of them.
\<close>

lemma pass_spec:
  defines "live db \<equiv> filter (\<lambda>r. yanked_at r = None) (list_rows db)"
  obtains D1 D2 and s1 :: cleanup_state where
    "D1 \<subseteq> {id_of r | r. r \<in> set (rows (cl_db s)) \<and> yanked_at r \<noteq> None} - set (held (cl_db s))"
    and "rows (cl_db s1) = filter (\<lambda>r. id_of r \<notin> D1) (rows (cl_db s))"
    and "D2 \<subseteq> id_of ` set (excess_releases key uploaded (live (cl_db s1))) - set (held (cl_db s))"
    and "rows (cl_db (fst (pass fails s))) = filter (\<lambda>r. id_of r \<notin> D1 \<union> D2) (rows (cl_db s))"
    and "set (held (cl_db (fst (pass fails s)))) = set (held (cl_db s)) - (D1 \<union> D2)"
    and "\<not> snd (pass fails s) \<longrightarrow>
       D1 = {id_of r | r. r \<in> set (rows (cl_db s)) \<and> yanked_at r \<noteq> None} - set (held (cl_db s)) \<and>
       D2 = id_of ` set (excess_releases key uploaded (live (cl_db s1))) - set (held (cl_db s))"
proof -
  define active where "active = held (cl_db s)"
  obtain s1 thrown where s1:
    "remove_releases fails id_of path_of delete_row active (list_yanked (cl_db s)) s = (s1, thrown)"
    by fastforce
  have yanked: "id_of ` set (list_yanked (cl_db s)) =
      {id_of r | r. r \<in> set (rows (cl_db s)) \<and> yanked_at r \<noteq> None}"
    unfolding list_yanked_rows by auto
  obtain D1 where D1: "D1 \<subseteq> id_of ` set (list_yanked (cl_db s)) - set active"
    "rows (cl_db s1) = filter (\<lambda>r. id_of r \<notin> D1) (rows (cl_db s))"
    "set (held (cl_db s1)) = set (held (cl_db s)) - D1"
    "\<not> thrown \<longrightarrow> D1 = id_of ` set (list_yanked (cl_db s)) - set active"
    using remove_releases_spec [of "list_yanked (cl_db s)" active fails s] unfolding s1 by auto
  have pass: "pass fails s = (if thrown then (s1, True)
      else remove_releases fails id_of path_of delete_row active
             (excess_releases key uploaded (live (cl_db s1))) s1)"
    by (simp add: cleanup_pass_def active_def [symmetric] s1 live_def)
  show thesis
  proof (cases thrown)
    case True
    with D1 pass show thesis
      by (intro that [of D1 s1 "{}"]) (auto simp: yanked active_def)
  next
    case False
    obtain D2 where "D2 \<subseteq> id_of ` set (excess_releases key uploaded (live (cl_db s1))) - set active"
      "rows (cl_db (fst (pass fails s))) = filter (\<lambda>r. id_of r \<notin> D2) (rows (cl_db s1))"
      "set (held (cl_db (fst (pass fails s)))) = set (held (cl_db s1)) - D2"
      "\<not> snd (pass fails s) \<longrightarrow>
         D2 = id_of ` set (excess_releases key uploaded (live (cl_db s1))) - set active"
      using remove_releases_spec [of "excess_releases key uploaded (live (cl_db s1))" active fails s1]
        pass False by auto
    with D1 False show thesis
      by (intro that [of D1 s1 D2]) (auto simp: yanked active_def intro!: filter_cong)
  qed
qed

end

context artifact_store
begin

lemma list_rows_set: "set (list_rows db) = set (rows db)"
  using list_rows_mset by (rule mset_eq_setD)

lemma count_rows: "length (filter P (list_rows db)) = length (filter P (rows db))"
  using list_rows_mset [of db] by (metis mset_filter size_mset)

lemma pass_keeps_held:
  assumes "r \<in> set (rows (cl_db s))" and "id_of r \<in> set (held (cl_db s))"
  shows "r \<in> set (rows (cl_db (fst (pass fails s))))
         \<and> set (held (cl_db (fst (pass fails s)))) = set (held (cl_db s))"
  by (rule pass_spec [of s fails]) (use assms in auto)

text \<open>A live release with at most four others of its key at least as new survives.\<close>

lemma pass_keeps_newest:
  assumes unique: "distinct (map id_of (rows (cl_db s)))"
    and r: "r \<in> set (rows (cl_db s))" "yanked_at r = None"
    and rank: "length (filter (\<lambda>q. yanked_at q = None \<and> key q = key r \<and> uploaded r \<le> uploaded q)
                 (rows (cl_db s))) \<le> KEEP_PER_CHANNEL"
  shows "r \<in> set (rows (cl_db (fst (pass fails s))))"
proof (rule pass_spec [of s fails])
  fix D1 D2 and s1 :: cleanup_state
  assume D1: "D1 \<subseteq> {id_of r | r. r \<in> set (rows (cl_db s)) \<and> yanked_at r \<noteq> None} - set (held (cl_db s))"
    and rows1: "rows (cl_db s1) = filter (\<lambda>r. id_of r \<notin> D1) (rows (cl_db s))"
    and D2: "D2 \<subseteq> id_of ` set (excess_releases key uploaded
              (filter (\<lambda>r. yanked_at r = None) (list_rows (cl_db s1)))) - set (held (cl_db s))"
    and final: "rows (cl_db (fst (pass fails s))) = filter (\<lambda>r. id_of r \<notin> D1 \<union> D2) (rows (cl_db s))"
  have same: "q = r" if "q \<in> set (rows (cl_db s))" "id_of q = id_of r" for q
    using unique that r(1) by (auto simp: distinct_map dest: inj_onD)
  have "id_of r \<notin> D1" using D1 same r(2) by auto
  moreover have "id_of r \<notin> D2"
  proof
    assume "id_of r \<in> D2"
    then obtain q where q: "q \<in> set (excess_releases key uploaded
        (filter (\<lambda>r. yanked_at r = None) (list_rows (cl_db s1))))" and "id_of q = id_of r"
      using D2 by auto
    have "q \<in> set (rows (cl_db s1))"
      using q in_set_dropD by (fastforce simp: excess_releases_in list_rows_set)
    then have "q = r" using same \<open>id_of q = id_of r\<close> rows1 by simp
    with q have "r \<in> set (drop KEEP_PER_CHANNEL (order_desc uploaded (filter (\<lambda>q. key q = key r)
        (filter (\<lambda>r. yanked_at r = None) (list_rows (cl_db s1))))))"
      by (simp add: excess_releases_in)
    from drop_order_desc_rank [OF this]
    have "KEEP_PER_CHANNEL < length (filter (\<lambda>q. yanked_at q = None \<and> key q = key r
        \<and> uploaded r \<le> uploaded q) (rows (cl_db s1)))"
      by (simp add: filter_filter conj_ac flip: count_rows)
    also have "\<dots> \<le> length (filter (\<lambda>q. yanked_at q = None \<and> key q = key r
        \<and> uploaded r \<le> uploaded q) (rows (cl_db s)))"
      by (simp add: rows1 filter_filter) (rule length_filter_mono, simp)
    finally show False using rank by simp
  qed
  ultimately show ?thesis using r(1) final by simp
qed

text \<open>After a pass that did not throw nothing removable is left.\<close>

lemma pass_complete:
  assumes ok: "\<not> snd (pass fails s)"
  shows "(\<forall>r \<in> set (rows (cl_db (fst (pass fails s)))).
            yanked_at r \<noteq> None \<longrightarrow> id_of r \<in> set (held (cl_db s))) \<and>
         length (filter (\<lambda>r. yanked_at r = None \<and> key r = k \<and> id_of r \<notin> set (held (cl_db s)))
            (rows (cl_db (fst (pass fails s))))) \<le> KEEP_PER_CHANNEL"
proof (rule pass_spec [of s fails])
  fix D1 D2 and s1 :: cleanup_state
  let ?live = "filter (\<lambda>r. yanked_at r = None) (list_rows (cl_db s1))"
  let ?ordered = "order_desc uploaded (filter (\<lambda>r. key r = k) ?live)"
  let ?kept = "\<lambda>r. yanked_at r = None \<and> key r = k \<and> id_of r \<notin> set (held (cl_db s))"
  assume rows1: "rows (cl_db s1) = filter (\<lambda>r. id_of r \<notin> D1) (rows (cl_db s))"
    and final: "rows (cl_db (fst (pass fails s))) = filter (\<lambda>r. id_of r \<notin> D1 \<union> D2) (rows (cl_db s))"
    and "\<not> snd (pass fails s) \<longrightarrow>
       D1 = {id_of r | r. r \<in> set (rows (cl_db s)) \<and> yanked_at r \<noteq> None} - set (held (cl_db s)) \<and>
       D2 = id_of ` set (excess_releases key uploaded ?live) - set (held (cl_db s))"
  with ok have D1: "D1 = {id_of r | r. r \<in> set (rows (cl_db s)) \<and> yanked_at r \<noteq> None} - set (held (cl_db s))"
    and D2: "D2 = id_of ` set (excess_releases key uploaded ?live) - set (held (cl_db s))" by auto
  have yanked: "\<forall>r \<in> set (rows (cl_db (fst (pass fails s)))).
      yanked_at r \<noteq> None \<longrightarrow> id_of r \<in> set (held (cl_db s))"
    by (auto simp: final D1)
  have "filter ?kept (rows (cl_db (fst (pass fails s)))) = filter (\<lambda>r. ?kept r \<and> id_of r \<notin> D2) (rows (cl_db s1))"
    by (auto simp: final rows1 filter_filter intro!: filter_cong)
  then have "length (filter ?kept (rows (cl_db (fst (pass fails s)))))
      = length (filter (\<lambda>r. ?kept r \<and> id_of r \<notin> D2) (list_rows (cl_db s1)))"
    by (simp add: count_rows)
  also have "\<dots> = length (filter (\<lambda>r. ?kept r \<and> id_of r \<notin> D2) ?ordered)"
    by (simp only: length_filter_order_desc filter_filter)
       (rule arg_cong [of _ _ length], rule filter_cong, auto)
  also have "\<dots> = length (filter (\<lambda>r. ?kept r \<and> id_of r \<notin> D2)
      (take KEEP_PER_CHANNEL ?ordered @ drop KEEP_PER_CHANNEL ?ordered))"
    by simp
  also have "\<dots> = length (filter (\<lambda>r. ?kept r \<and> id_of r \<notin> D2) (take KEEP_PER_CHANNEL ?ordered))"
  proof -
    have "r \<in> set (excess_releases key uploaded ?live)" if "r \<in> set (drop KEEP_PER_CHANNEL ?ordered)" for r
      using that in_set_dropD [OF that] by (simp add: excess_releases_in)
    then have "filter (\<lambda>r. ?kept r \<and> id_of r \<notin> D2) (drop KEEP_PER_CHANNEL ?ordered) = []"
      by (auto simp: filter_empty_conv D2)
    then show ?thesis by (simp only: filter_append append_Nil2)
  qed
  also have "\<dots> \<le> KEEP_PER_CHANNEL"
    by (rule order_trans [OF length_filter_le]) simp
  finally show ?thesis using yanked by blast
qed

end

section \<open>The two stores\<close>

interpretation fws: artifact_store firmware_releases fr_id fr_artifact_path fr_yanked_at firmware_key
  fr_uploaded_at deleteFirmwareRelease listYankedFirmwareReleases listFirmwareReleases held_firmware
  by unfold_locales
    (auto simp: deleteFirmwareRelease_def held_firmware_def listFirmwareRollouts_def
      listYankedFirmwareReleases_def listFirmwareReleases_def mset_order_desc order_desc_filter)

interpretation oss: artifact_store os_update_releases orl_id orl_artifact_path orl_yanked_at os_key
  orl_uploaded_at deleteOsUpdateRelease listYankedOsUpdateReleases listOsUpdateReleases held_os
  by unfold_locales
    (auto simp: deleteOsUpdateRelease_def held_os_def listOsUpdateRollouts_def
      listYankedOsUpdateReleases_def listOsUpdateReleases_def mset_order_desc order_desc_filter)

lemma channel_name_inject:
  "channel_name c @ '':'' @ s = channel_name d @ '':'' @ t \<longleftrightarrow> c = d \<and> s = t"
  by (cases c; cases d) (auto simp: channel_name_def)

lemma firmware_key_eq:
  "firmware_key q = firmware_key r \<longleftrightarrow> fr_channel q = fr_channel r \<and> fr_arch q = fr_arch r"
  by (simp add: firmware_key_def channel_name_inject del: append.simps)

section \<open>Properties\<close>

text \<open>
  Cleanup never breaks a rollout: whatever files fail to unlink, a firmware release
  that a queued, active or paused rollout refers to keeps its row, and the set of referenced
  releases is unchanged.
\<close>

theorem cleanup_keeps_referenced:
  assumes "r \<in> set (firmware_releases (cl_db s))"
    and "ro \<in> set (firmware_rollouts (cl_db s))" and "fo_release_id ro = fr_id r"
    and "fo_state ro \<noteq> RolloutComplete"
  shows "r \<in> set (firmware_releases (cl_db (fst (cleanupFirmware fails s)))) \<and>
         set (held_firmware (cl_db (fst (cleanupFirmware fails s)))) = set (held_firmware (cl_db s))"
proof -
  have "holds_release (fo_state ro)"
    using assms(4) by (cases "fo_state ro") (auto simp: holds_release_def)
  with assms(2,3) have "fr_id r \<in> set (held_firmware (cl_db s))"
    by (force simp: held_firmware_def listFirmwareRollouts_def)
  with assms(1) show ?thesis
    unfolding cleanupFirmware_def by (rule fws.pass_keeps_held)
qed

text \<open>
  Retention of the firmware pass: an unyanked release with at most four others of its
  channel and architecture uploaded at the same time or later survives; and a pass that
  does not fail leaves no yanked row and at most five live rows per channel and
  architecture, apart from those a rollout holds.
\<close>

theorem cleanup_retention:
  assumes "distinct (map fr_id (firmware_releases (cl_db s)))"
  shows "(r \<in> set (firmware_releases (cl_db s)) \<and> fr_yanked_at r = None \<and>
          length (filter (\<lambda>q. fr_yanked_at q = None \<and> fr_channel q = fr_channel r
              \<and> fr_arch q = fr_arch r \<and> fr_uploaded_at r \<le> fr_uploaded_at q)
            (firmware_releases (cl_db s))) \<le> 5
          \<longrightarrow> r \<in> set (firmware_releases (cl_db (fst (cleanupFirmware fails s))))) \<and>
         (\<not> snd (cleanupFirmware fails s) \<longrightarrow>
            (\<forall>q \<in> set (firmware_releases (cl_db (fst (cleanupFirmware fails s)))).
               fr_yanked_at q \<noteq> None \<longrightarrow> fr_id q \<in> set (held_firmware (cl_db s))) \<and>
            length (filter (\<lambda>q. fr_yanked_at q = None \<and> fr_channel q = fr_channel r
                \<and> fr_arch q = fr_arch r \<and> fr_id q \<notin> set (held_firmware (cl_db s)))
              (firmware_releases (cl_db (fst (cleanupFirmware fails s))))) \<le> 5)"
  using fws.pass_keeps_newest [OF assms, of r fails] fws.pass_complete [of fails s "firmware_key r"]
  unfolding cleanupFirmware_def [symmetric] firmware_key_eq KEEP_PER_CHANNEL_def conj_assoc
  by blast

text \<open>
  The OS pass keeps every image a rollout still refers to and every image among the
  five newest of its channel and compatibility string.
\<close>

theorem os_cleanup_retention:
  assumes "distinct (map orl_id (os_update_releases (cl_db s)))"
    and "r \<in> set (os_update_releases (cl_db s))"
    and "orl_id r \<in> set (held_os (cl_db s)) \<or>
         orl_yanked_at r = None \<and>
         length (filter (\<lambda>q. orl_yanked_at q = None \<and> os_key q = os_key r
             \<and> orl_uploaded_at r \<le> orl_uploaded_at q) (os_update_releases (cl_db s))) \<le> 5"
  shows "r \<in> set (os_update_releases (cl_db (fst (cleanupOsUpdates fails s))))"
  using assms(3)
proof
  assume "orl_id r \<in> set (held_os (cl_db s))"
  with assms(2) show ?thesis
    unfolding cleanupOsUpdates_def by (rule oss.pass_keeps_held [THEN conjunct1])
next
  assume "orl_yanked_at r = None \<and>
         length (filter (\<lambda>q. orl_yanked_at q = None \<and> os_key q = os_key r
             \<and> orl_uploaded_at r \<le> orl_uploaded_at q) (os_update_releases (cl_db s))) \<le> 5"
  then show ?thesis
    unfolding cleanupOsUpdates_def
    by (intro oss.pass_keeps_newest assms) (auto simp: KEEP_PER_CHANNEL_def)
qed

section \<open>Witnesses\<close>

definition demo_rollout :: firmware_rollout where
  "demo_rollout = sample_firmware_rollout\<lparr>fo_id := ''o1'', fo_release_id := ''r1'',
     fo_state := RolloutPaused, fo_percentage := 10\<rparr>"

definition demo_cleanup :: cleanup_state where
  "demo_cleanup = \<lparr>cl_db = demo_db\<lparr>firmware_rollouts := [demo_rollout]\<rparr>,
                   cl_files = [''r1.bin'', ''r2.bin''], cl_cleaned = 0\<rparr>"

lemma demo_cleanup_rows:
  "firmware_releases (cl_db demo_cleanup)
     = [demo_release ''r1'' ''1.2.9'' 1, demo_release ''r2'' ''1.2.10'' 2]"
  "firmware_rollouts (cl_db demo_cleanup) = [demo_rollout]"
  "os_update_releases (cl_db demo_cleanup) = [demo_os_release]"
  by (simp_all add: demo_cleanup_def demo_db_def)

theorem cleanup_keeps_referenced_witness:
  "demo_release ''r1'' ''1.2.9'' 1
     \<in> set (firmware_releases (cl_db (fst (cleanupFirmware (\<lambda>_. False) demo_cleanup))))"
proof -
  have "demo_release ''r1'' ''1.2.9'' 1 \<in> set (firmware_releases (cl_db demo_cleanup))"
    "demo_rollout \<in> set (firmware_rollouts (cl_db demo_cleanup))"
    by (simp_all add: demo_cleanup_rows)
  moreover have "fo_release_id demo_rollout = fr_id (demo_release ''r1'' ''1.2.9'' 1)"
    "fo_state demo_rollout \<noteq> RolloutComplete"
    by (simp_all add: demo_rollout_def demo_release_def)
  ultimately show ?thesis by (rule cleanup_keeps_referenced [THEN conjunct1])
qed

theorem cleanup_retention_witness:
  "demo_release ''r2'' ''1.2.10'' 2
     \<in> set (firmware_releases (cl_db (fst (cleanupFirmware (\<lambda>_. True) demo_cleanup))))"
proof -
  have "distinct (map fr_id (firmware_releases (cl_db demo_cleanup)))"
    by (simp add: demo_cleanup_rows demo_release_def)
  from cleanup_retention [OF this, of "demo_release ''r2'' ''1.2.10'' 2" "\<lambda>_. True"] show ?thesis
    by (simp add: demo_cleanup_rows) (simp add: demo_release_def sample_firmware_release_def)
qed

theorem os_cleanup_retention_witness:
  "demo_os_release \<in> set (os_update_releases (cl_db (fst (cleanupOsUpdates (\<lambda>_. False) demo_cleanup))))"
  by (rule os_cleanup_retention) (simp_all add: demo_cleanup_rows, simp add: demo_os_release_def)

text \<open>
  Blobs are stored under their digest, so two releases with the same bytes share a path.
  Cleaning up a yanked one then unlinks the file of the one that is kept: the live
  release below is still offered, but its artifact is gone.
\<close>

definition shared_blob_state :: cleanup_state where
  "shared_blob_state =
     \<lparr>cl_db = demo_db\<lparr>firmware_releases :=
        [(demo_release ''r1'' ''1.2.9'' 1)\<lparr>fr_artifact_path := ''same.bin'', fr_yanked_at := Some 5\<rparr>,
         (demo_release ''r2'' ''1.2.10'' 2)\<lparr>fr_artifact_path := ''same.bin''\<rparr>]\<rparr>,
      cl_files = [''same.bin''], cl_cleaned = 0\<rparr>"

lemma cleanup_unlinks_shared_blob:
  "map fr_id (firmware_releases (cl_db (fst (cleanupFirmware (\<lambda>_. False) shared_blob_state)))) = [''r2''] \<and>
   cl_files (fst (cleanupFirmware (\<lambda>_. False) shared_blob_state)) = []"
  by (simp add: cleanupFirmware_def cleanup_pass_def shared_blob_state_def demo_db_def demo_release_def
      sample_firmware_release_def held_firmware_def listFirmwareRollouts_def order_desc_def
      listYankedFirmwareReleases_def listFirmwareReleases_def removeFile_def deleteFirmwareRelease_def
      excess_releases_def group_by_key_def firmware_key_def KEEP_PER_CHANNEL_def)

end
