(* ===== verification/BF_Power.thy ===== *)
theory BF_Power
  imports BF_Prelude
begin

text \<open>
  Ordering of power-state reports (\<^verbatim>\<open>server/src/shared/power-state-order.ts\<close>): which
  process of a kiosk may report its power state, and in which order its samples count.
  A socket is identified by a natural number; the clock is an argument of every call.
\<close>

section \<open>State\<close>

record power_sample =
  ps_session :: string
  ps_revision :: number

record power_session =
  pw_session :: string
  pw_revision :: number
  pw_owner :: "nat option"
  pw_expires :: number
  pw_retired :: "(string, number) jsmap"

record power_state =
  sessions :: "(string, power_session) jsmap"
  next_sweep :: number

definition HISTORY_MS :: number where "HISTORY_MS = 30 * 60000"
definition MAX_OWNERLESS :: nat where "MAX_OWNERLESS = 4096"
definition MAX_RETIRED :: nat where "MAX_RETIRED = 8"

section \<open>Operations\<close>

definition unexpired :: "number \<Rightarrow> (string, power_session) jsmap \<Rightarrow> (string, power_session) jsmap" where
  "unexpired now m = filter (\<lambda>x. pw_owner (snd x) \<noteq> None \<or> \<not> pw_expires (snd x) \<le> now) m"

definition ownerless_entries :: "(string, power_session) jsmap \<Rightarrow> (string, power_session) jsmap" where
  "ownerless_entries m = filter (\<lambda>x. pw_owner (snd x) = None) m"

definition excess_ids :: "(string, power_session) jsmap \<Rightarrow> string list" where
  "excess_ids os =
     (if length os > MAX_OWNERLESS
      then map fst (take (length os - MAX_OWNERLESS) (sort_key (\<lambda>x. pw_expires (snd x)) os))
      else [])"

definition prune :: "number \<Rightarrow> bool \<Rightarrow> power_state \<Rightarrow> power_state" where
  "prune now capacityMayIncrease s =
     (if now < next_sweep s \<and> \<not> capacityMayIncrease then s
      else let kept = unexpired now (sessions s);
               excess = excess_ids (ownerless_entries kept)
           in s\<lparr>sessions := filter (\<lambda>x. fst x \<notin> set excess) kept, next_sweep := now + 60000\<rparr>)"

definition currentSession ::
  "string \<Rightarrow> number \<Rightarrow> power_state \<Rightarrow> power_session option \<times> power_state" where
  "currentSession kid now s =
     (case map_of (sessions s) kid of
        None \<Rightarrow> (None, s)
      | Some current \<Rightarrow>
          if pw_owner current = None \<and> pw_expires current \<le> now
          then (None, s\<lparr>sessions := AList.delete kid (sessions s)\<rparr>)
          else (Some current, s))"

definition replaceSession ::
  "string \<Rightarrow> power_sample \<Rightarrow> nat option \<Rightarrow> number \<Rightarrow> power_state \<Rightarrow> power_state" where
  "replaceSession kid sample owner now s =
     (let (previous, s1) = currentSession kid now s;
          r0 = filter (\<lambda>(i, expires). i \<noteq> ps_session sample \<and> expires > now)
                 (case previous of None \<Rightarrow> [] | Some p \<Rightarrow> pw_retired p);
          r1 = (case previous of
                  None \<Rightarrow> r0
                | Some p \<Rightarrow> if pw_session p \<noteq> ps_session sample
                            then AList.update (pw_session p) (now + HISTORY_MS) r0 else r0);
          r2 = drop (length r1 - MAX_RETIRED) r1;
          revision = (case previous of
                        None \<Rightarrow> ps_revision sample
                      | Some p \<Rightarrow> if pw_session p = ps_session sample
                                  then max (pw_revision p) (ps_revision sample)
                                  else ps_revision sample);
          entry = \<lparr>pw_session = ps_session sample, pw_revision = revision, pw_owner = owner,
                   pw_expires = now + HISTORY_MS, pw_retired = r2\<rparr>
      in prune now
           (owner = None \<and> (case previous of None \<Rightarrow> True | Some p \<Rightarrow> pw_owner p \<noteq> None))
           (s1\<lparr>sessions := AList.update kid entry (sessions s1)\<rparr>))"

text \<open>The session id is a UUID and the revision a non-negative safe integer.\<close>

fun hex_groups :: "nat list \<Rightarrow> string \<Rightarrow> bool" where
  "hex_groups [] s \<longleftrightarrow> s = []"
| "hex_groups [n] s \<longleftrightarrow> length s = n \<and> list_all is_hex s"
| "hex_groups (n # m # ns) s \<longleftrightarrow>
     length (take n s) = n \<and> list_all is_hex (take n s) \<and>
     (case drop n s of c # t \<Rightarrow> c = CHR ''-'' \<and> hex_groups (m # ns) t | [] \<Rightarrow> False)"

definition is_uuid :: "string \<Rightarrow> bool" where
  "is_uuid s \<longleftrightarrow> hex_groups [8, 4, 4, 4, 12] s"

definition readPowerSample :: "json \<Rightarrow> power_sample option" where
  "readPowerSample v =
     (case (json_get v ''power_session_id'', json_get v ''power_revision'') of
        (JStr i, JNum r) \<Rightarrow>
          if is_uuid i \<and> is_safe_integer r \<and> r \<ge> 0
          then Some \<lparr>ps_session = i, ps_revision = r\<rparr> else None
      | _ \<Rightarrow> None)"

definition bindPowerSession ::
  "string \<Rightarrow> nat \<Rightarrow> power_sample option \<Rightarrow> number \<Rightarrow> power_state \<Rightarrow> power_state" where
  "bindPowerSession kid owner sample now s =
     (case sample of
        None \<Rightarrow>
          (case currentSession kid now s of
             (None, s1) \<Rightarrow> prune now False s1
           | (Some p, s1) \<Rightarrow>
               prune now (pw_owner p \<noteq> None)
                 (s1\<lparr>sessions := AList.update kid
                        (p\<lparr>pw_owner := None, pw_expires := now + HISTORY_MS\<rparr>) (sessions s1)\<rparr>))
      | Some smp \<Rightarrow> replaceSession kid smp (Some owner) now s)"

definition unbindPowerSession :: "string \<Rightarrow> nat \<Rightarrow> number \<Rightarrow> power_state \<Rightarrow> power_state" where
  "unbindPowerSession kid owner now s =
     (case map_of (sessions s) kid of
        None \<Rightarrow> s
      | Some p \<Rightarrow>
          if pw_owner p = Some owner
          then prune now True (s\<lparr>sessions := AList.update kid
                 (p\<lparr>pw_owner := None, pw_expires := now + HISTORY_MS\<rparr>) (sessions s)\<rparr>)
          else s)"

definition hasPowerSession :: "string \<Rightarrow> number \<Rightarrow> power_state \<Rightarrow> bool \<times> power_state" where
  "hasPowerSession kid now s = (let (c, s1) = currentSession kid now s in (c \<noteq> None, s1))"

definition ownsPowerSession :: "string \<Rightarrow> nat \<Rightarrow> power_state \<Rightarrow> bool" where
  "ownsPowerSession kid owner s \<longleftrightarrow>
     (case map_of (sessions s) kid of None \<Rightarrow> False | Some p \<Rightarrow> pw_owner p = Some owner)"

definition powerSampleAllowed ::
  "string \<Rightarrow> power_sample option \<Rightarrow> number \<Rightarrow> power_state \<Rightarrow> bool \<times> power_state" where
  "powerSampleAllowed kid sample now s =
     (let (current, s1) = currentSession kid now s in
      (case (sample, current) of
         (Some smp, Some c) \<Rightarrow> pw_session c = ps_session smp \<and> ps_revision smp \<ge> pw_revision c
       | _ \<Rightarrow> False, s1))"

definition heartbeatPowerSampleAllowed ::
  "string \<Rightarrow> power_sample option \<Rightarrow> number \<Rightarrow> power_state \<Rightarrow> bool \<times> power_state" where
  "heartbeatPowerSampleAllowed kid sample now s =
     (case sample of
        None \<Rightarrow> (False, s)
      | Some smp \<Rightarrow>
          (let (current, s1) = currentSession kid now s in
           case current of
             None \<Rightarrow> (True, replaceSession kid (smp\<lparr>ps_revision := -1\<rparr>) None now s1)
           | Some c \<Rightarrow>
               if pw_session c = ps_session smp then (ps_revision smp \<ge> pw_revision c, s1)
               else if pw_owner c \<noteq> None
                       \<or> nullish (map_of (pw_retired c) (ps_session smp)) 0 > now then (False, s1)
               else (True, replaceSession kid (smp\<lparr>ps_revision := -1\<rparr>) None now s1)))"

definition advancePowerSample ::
  "string \<Rightarrow> power_sample \<Rightarrow> number \<Rightarrow> power_state \<Rightarrow> power_state" where
  "advancePowerSample kid sample now s =
     (case currentSession kid now s of
        (None, s1) \<Rightarrow> s1
      | (Some c, s1) \<Rightarrow>
          (case powerSampleAllowed kid (Some sample) now s1 of
             (True, s2) \<Rightarrow>
               s2\<lparr>sessions := AList.update kid
                    (c\<lparr>pw_revision := ps_revision sample, pw_expires := now + HISTORY_MS\<rparr>)
                    (sessions s2)\<rparr>
           | (False, s2) \<Rightarrow> s2))"

section \<open>The interface its callers use\<close>

text \<open>
  A heartbeat and a power acknowledgement each test their sample and advance the session
  once the report has been stored.
\<close>

datatype power_op =
    OpBind string nat "power_sample option"
  | OpUnbind string nat
  | OpHeartbeat string "power_sample option"
  | OpResult string nat "power_sample option"

fun op_kiosk :: "power_op \<Rightarrow> string" where
  "op_kiosk (OpBind k _ _) = k"
| "op_kiosk (OpUnbind k _) = k"
| "op_kiosk (OpHeartbeat k _) = k"
| "op_kiosk (OpResult k _ _) = k"

definition accept_sample ::
  "string \<Rightarrow> power_sample option \<Rightarrow> number \<Rightarrow> bool \<times> power_state \<Rightarrow> power_sample option \<times> power_state" where
  "accept_sample kid sample now r =
     (case (r, sample) of
        ((True, s), Some smp) \<Rightarrow> (Some smp, advancePowerSample kid smp now s)
      | ((_, s), _) \<Rightarrow> (None, s))"

fun power_step :: "number \<Rightarrow> power_op \<Rightarrow> power_state \<Rightarrow> power_sample option \<times> power_state" where
  "power_step now (OpBind k owner sample) s = (None, bindPowerSession k owner sample now s)"
| "power_step now (OpUnbind k owner) s = (None, unbindPowerSession k owner now s)"
| "power_step now (OpHeartbeat k sample) s =
     accept_sample k sample now (heartbeatPowerSampleAllowed k sample now s)"
| "power_step now (OpResult k owner sample) s =
     (if ownsPowerSession k owner s
      then accept_sample k sample now (powerSampleAllowed k sample now s) else (None, s))"

fun power_run :: "(number \<times> power_op) list \<Rightarrow> power_state \<Rightarrow> power_state" where
  "power_run [] s = s"
| "power_run ((now, p) # ops) s = power_run ops (snd (power_step now p s))"

text \<open>The samples of kiosk \<open>kid\<close> that a run accepts, in order.\<close>

fun accepted_samples :: "string \<Rightarrow> (number \<times> power_op) list \<Rightarrow> power_state \<Rightarrow> power_sample list" where
  "accepted_samples kid [] s = []"
| "accepted_samples kid ((now, p) # ops) s =
     (let (a, s1) = power_step now p s
      in (case a of Some smp \<Rightarrow> if op_kiosk p = kid then [smp] else [] | None \<Rightarrow> [])
         @ accepted_samples kid ops s1)"

section \<open>Pruning\<close>

definition ownerless :: "(string, power_session) jsmap \<Rightarrow> nat" where
  "ownerless m = length (ownerless_entries m)"

lemma prune_subset: "set (sessions (prune now c s)) \<subseteq> set (sessions s)"
  by (auto simp: prune_def Let_def unexpired_def)

lemma prune_wf: "wf_map (sessions s) \<Longrightarrow> wf_map (sessions (prune now c s))"
  by (auto simp: prune_def Let_def unexpired_def intro!: distinct_map_filter)

lemma sort_key_filter_length: "length (filter P (sort_key f xs)) = length (filter P xs)"
  by (simp add: filter_sort)

lemma filter_take_ids:
  assumes "distinct (map fst ys)"
  shows "length (filter (\<lambda>x. fst x \<notin> set (map fst (take m ys))) ys) = length ys - m"
proof -
  have "distinct (map fst (take m ys) @ map fst (drop m ys))"
    using assms by (simp flip: map_append)
  then have "filter (\<lambda>x. fst x \<notin> set (map fst (take m ys))) (drop m ys) = drop m ys"
    by (auto simp: filter_id_conv)
  moreover have "filter (\<lambda>x. fst x \<notin> set (map fst (take m ys))) (take m ys) = []"
    by (auto simp: filter_empty_conv)
  ultimately have "filter (\<lambda>x. fst x \<notin> set (map fst (take m ys))) (take m ys @ drop m ys) = drop m ys"
    by (simp only: filter_append append_Nil)
  then show ?thesis by simp
qed

lemma ownerless_le: "ownerless (filter P m) \<le> ownerless m"
  by (induction m) (auto simp: ownerless_def ownerless_entries_def)

lemma prune_ownerless_le: "ownerless (sessions (prune now c s)) \<le> ownerless (sessions s)"
proof -
  have "ownerless (filter P (unexpired now m)) \<le> ownerless m" for P m
    unfolding unexpired_def by (rule order_trans [OF ownerless_le ownerless_le])
  then show ?thesis by (simp add: prune_def Let_def)
qed

lemma excess_ids_take:
  "excess_ids os = map fst (take (length os - MAX_OWNERLESS) (sort_key (\<lambda>x. pw_expires (snd x)) os))"
  by (simp add: excess_ids_def)

lemma prune_ownerless_bound:
  assumes "wf_map (sessions s)"
  shows "ownerless (sessions (prune now True s)) \<le> MAX_OWNERLESS"
proof -
  define kept where "kept = unexpired now (sessions s)"
  define os where "os = ownerless_entries kept"
  define ys where "ys = sort_key (\<lambda>x. pw_expires (snd x)) os"
  define m where "m = length os - MAX_OWNERLESS"
  have "wf_map os"
    using assms by (auto simp: os_def kept_def unexpired_def ownerless_entries_def intro!: distinct_map_filter)
  then have ys: "wf_map ys"
    by (simp add: ys_def distinct_map inj_on_def)
  have eq: "sessions (prune now True s) = filter (\<lambda>x. fst x \<notin> set (map fst (take m ys))) kept"
    by (simp add: prune_def Let_def kept_def [symmetric] os_def [symmetric] excess_ids_take
        ys_def m_def)
  have "ownerless (sessions (prune now True s))
      = length (filter (\<lambda>x. fst x \<notin> set (map fst (take m ys))) os)"
    unfolding eq ownerless_def os_def ownerless_entries_def filter_filter
    by (simp add: conj_commute)
  also have "\<dots> = length (filter (\<lambda>x. fst x \<notin> set (map fst (take m ys))) ys)"
    unfolding ys_def by (rule sort_key_filter_length [symmetric])
  also have "\<dots> = length ys - m" by (rule filter_take_ids [OF ys])
  also have "\<dots> \<le> MAX_OWNERLESS" by (simp add: ys_def m_def)
  finally show ?thesis .
qed

lemma prune_owned:
  assumes "wf_map (sessions s)" and "map_of (sessions s) k = Some v" and "pw_owner v \<noteq> None"
  shows "map_of (sessions (prune now c s)) k = Some v"
proof -
  define kept where "kept = unexpired now (sessions s)"
  define os where "os = ownerless_entries kept"
  have in_s: "(k, v) \<in> set (sessions s)" using assms(2) by (rule map_of_SomeD)
  have unowned: "k \<notin> fst ` set os"
  proof
    assume "k \<in> fst ` set os"
    then obtain w where w: "(k, w) \<in> set (sessions s)" "pw_owner w = None"
      by (auto simp: os_def kept_def unexpired_def ownerless_entries_def)
    have "v = w" by (rule eq_key_imp_eq_value [OF assms(1) in_s w(1)])
    with w(2) assms(3) show False by simp
  qed
  have "set (excess_ids os) \<subseteq> fst ` set os"
    unfolding excess_ids_take by (auto dest!: in_set_takeD)
  with unowned have "k \<notin> set (excess_ids os)" by blast
  moreover have "(k, v) \<in> set kept" using in_s assms(3) by (simp add: kept_def unexpired_def)
  ultimately have "(k, v) \<in> set (sessions (prune now c s))"
    using in_s by (simp add: prune_def Let_def kept_def [symmetric] os_def [symmetric])
  with prune_wf [OF assms(1)] show ?thesis by simp
qed

section \<open>The storage invariant\<close>

definition power_inv :: "power_state \<Rightarrow> bool" where
  "power_inv s \<longleftrightarrow>
     wf_map (sessions s) \<and> ownerless (sessions s) \<le> MAX_OWNERLESS \<and>
     (\<forall>(i, v) \<in> set (sessions s). length (pw_retired v) \<le> MAX_RETIRED \<and> wf_map (pw_retired v))"

lemma ownerless_Cons:
  "ownerless (x # m) = (if pw_owner (snd x) = None then 1 else 0) + ownerless m"
  by (simp add: ownerless_def ownerless_entries_def)

definition growth :: "power_session option \<Rightarrow> power_session \<Rightarrow> nat" where
  "growth old v = (if pw_owner v = None \<and> (case old of None \<Rightarrow> True | Some w \<Rightarrow> pw_owner w \<noteq> None)
                   then 1 else 0)"

lemma ownerless_set_le: "ownerless (AList.update k v m) \<le> ownerless m + growth (map_of m k) v"
proof (induction m)
  case Nil
  then show ?case by (simp add: ownerless_Cons growth_def)
next
  case (Cons x m)
  then show ?case
    by (cases x; cases "fst x = k") (simp_all add: ownerless_Cons growth_def)
qed

lemma ownerless_delete_le: "ownerless (AList.delete k m) \<le> ownerless m"
  by (simp add: AList.delete_eq ownerless_le)

lemma currentSession_eq:
  assumes "currentSession kid now s = (c, s1)"
  shows "(s1 = s \<and> map_of (sessions s) kid = c) \<or>
         (c = None \<and> s1 = s\<lparr>sessions := AList.delete kid (sessions s)\<rparr>)"
  using assms by (auto simp: currentSession_def split: option.splits if_splits)

lemma currentSession_inv:
  assumes "power_inv s" and "currentSession kid now s = (c, s1)"
  shows "power_inv s1" and "map_of (sessions s1) kid = c" and "sessions s1 = sessions s \<or> c = None"
proof -
  have "power_inv (s\<lparr>sessions := AList.delete kid (sessions s)\<rparr>)"
    using assms(1) ownerless_delete_le [of kid "sessions s"] set_delete_subset [of kid "sessions s"]
    by (auto simp: power_inv_def wf_delete)
  then show "power_inv s1" "map_of (sessions s1) kid = c" "sessions s1 = sessions s \<or> c = None"
    using currentSession_eq [OF assms(2)] assms(1) by (auto simp: get_delete)
qed

text \<open>Storing an entry and pruning keeps the invariant when the prune is forced by growth.\<close>

lemma store_prune_inv:
  assumes inv: "power_inv s"
    and v: "length (pw_retired v) \<le> MAX_RETIRED" "wf_map (pw_retired v)"
    and grow: "pw_owner v = None \<Longrightarrow> (case map_of (sessions s) k of
        None \<Rightarrow> True | Some w \<Rightarrow> pw_owner w \<noteq> None) \<Longrightarrow> c"
  shows "power_inv (prune now c (s\<lparr>sessions := AList.update k v (sessions s)\<rparr>))"
proof -
  define s' where "s' = s\<lparr>sessions := AList.update k v (sessions s)\<rparr>"
  have wf: "wf_map (sessions s')" using inv by (auto simp: s'_def power_inv_def wf_set)
  have "ownerless (sessions (prune now c s')) \<le> MAX_OWNERLESS"
  proof (cases c)
    case True
    then show ?thesis using prune_ownerless_bound [OF wf] by simp
  next
    case False
    with grow have "ownerless (sessions s') \<le> ownerless (sessions s)"
      using ownerless_set_le [of k v "sessions s"] unfolding growth_def
      by (cases "pw_owner v = None \<and> (case map_of (sessions s) k of None \<Rightarrow> True | Some w \<Rightarrow> pw_owner w \<noteq> None)")
        (simp_all add: s'_def)
    with inv prune_ownerless_le [of now c s'] show ?thesis by (simp add: power_inv_def)
  qed
  moreover have "set (sessions (prune now c s')) \<subseteq> insert (k, v) (set (sessions s))"
    using prune_subset [of now c s'] set_update_subset [of k v "sessions s"] by (auto simp: s'_def)
  ultimately show ?thesis
    using inv v prune_wf [OF wf, of now c] unfolding power_inv_def s'_def [symmetric] by auto
qed

lemma store_inv:
  assumes "power_inv s" and "length (pw_retired v) \<le> MAX_RETIRED" and "wf_map (pw_retired v)"
    and "growth (map_of (sessions s) k) v = 0"
  shows "power_inv (s\<lparr>sessions := AList.update k v (sessions s)\<rparr>)"
proof -
  have "ownerless (AList.update k v (sessions s)) \<le> MAX_OWNERLESS"
    using ownerless_set_le [of k v "sessions s"] assms(1,4) by (simp add: power_inv_def)
  with assms(1-3) set_update_subset [of k v "sessions s"] show ?thesis
    by (auto simp: power_inv_def wf_set)
qed

lemma prune_inv: "power_inv s \<Longrightarrow> power_inv (prune now c s)"
  using prune_subset [of now c s] prune_wf [of s now c] prune_ownerless_le [of now c s]
  unfolding power_inv_def by fastforce

lemma session_retired:
  assumes "power_inv s" and "map_of (sessions s) k = Some p"
  shows "length (pw_retired p) \<le> MAX_RETIRED" "wf_map (pw_retired p)"
  using assms(1) map_of_SomeD [OF assms(2)] by (auto simp: power_inv_def)

lemma replaceSession_inv:
  assumes "power_inv s"
  shows "power_inv (replaceSession kid sample owner now s)"
proof -
  obtain previous s1 where c: "currentSession kid now s = (previous, s1)" by fastforce
  note s1 = currentSession_inv [OF assms c]
  define r0 where "r0 = filter (\<lambda>(i, expires). i \<noteq> ps_session sample \<and> expires > now)
                 (case previous of None \<Rightarrow> [] | Some p \<Rightarrow> pw_retired p)"
  define r1 where "r1 = (case previous of None \<Rightarrow> r0 | Some p \<Rightarrow>
      if pw_session p \<noteq> ps_session sample then AList.update (pw_session p) (now + HISTORY_MS) r0 else r0)"
  have "wf_map r0"
  proof (cases previous)
    case None
    then show ?thesis by (simp add: r0_def)
  next
    case (Some p)
    then show ?thesis
      using session_retired(2) [OF s1(1), of kid p] s1(2) by (auto simp: r0_def intro!: distinct_map_filter)
  qed
  then have wf1: "wf_map r1" by (auto simp: r1_def wf_set split: option.splits)
  have bound: "length (drop (length r1 - MAX_RETIRED) r1) \<le> MAX_RETIRED" by simp
  have wf2: "wf_map (drop (length r1 - MAX_RETIRED) r1)"
    using wf1 by (simp add: drop_map [symmetric])
  show ?thesis
    unfolding replaceSession_def c r0_def [symmetric] r1_def [symmetric] Let_def prod.case
    by (rule store_prune_inv [OF s1(1)]) (use bound wf2 s1(2) in \<open>auto split: option.splits\<close>)
qed

lemma bindPowerSession_inv:
  assumes "power_inv s"
  shows "power_inv (bindPowerSession kid owner sample now s)"
proof (cases sample)
  case (Some smp)
  then show ?thesis using assms by (simp add: bindPowerSession_def replaceSession_inv)
next
  case None
  obtain previous s1 where c: "currentSession kid now s = (previous, s1)" by fastforce
  note s1 = currentSession_inv [OF assms c]
  show ?thesis
  proof (cases previous)
    case None
    then show ?thesis using \<open>sample = None\<close> c s1(1) by (simp add: bindPowerSession_def prune_inv)
  next
    case (Some p)
    have "power_inv (prune now (pw_owner p \<noteq> None) (s1\<lparr>sessions := AList.update kid
        (p\<lparr>pw_owner := None, pw_expires := now + HISTORY_MS\<rparr>) (sessions s1)\<rparr>))"
      by (rule store_prune_inv [OF s1(1)])
        (use session_retired [OF s1(1)] s1(2) Some in auto)
    with None Some c show ?thesis by (simp add: bindPowerSession_def)
  qed
qed

lemma unbindPowerSession_inv:
  assumes "power_inv s"
  shows "power_inv (unbindPowerSession kid owner now s)"
proof (cases "map_of (sessions s) kid")
  case None
  then show ?thesis using assms by (simp add: unbindPowerSession_def)
next
  case (Some p)
  have "power_inv (prune now True (s\<lparr>sessions := AList.update kid
      (p\<lparr>pw_owner := None, pw_expires := now + HISTORY_MS\<rparr>) (sessions s)\<rparr>))"
    by (rule store_prune_inv [OF assms]) (use session_retired [OF assms Some] in auto)
  with Some assms show ?thesis by (simp add: unbindPowerSession_def)
qed

lemma powerSampleAllowed_state: "snd (powerSampleAllowed kid sample now s) = snd (currentSession kid now s)"
  by (simp add: powerSampleAllowed_def Let_def case_prod_unfold)

lemma advancePowerSample_inv:
  assumes "power_inv s"
  shows "power_inv (advancePowerSample kid sample now s)"
proof -
  obtain c s1 where c: "currentSession kid now s = (c, s1)" by fastforce
  note s1 = currentSession_inv [OF assms c]
  obtain ok s2 where a: "powerSampleAllowed kid (Some sample) now s1 = (ok, s2)" by fastforce
  have s2: "power_inv s2"
    using powerSampleAllowed_state [of kid "Some sample" now s1] a
      currentSession_inv(1) [OF s1(1)] by (metis prod.collapse snd_conv)
  show ?thesis
  proof (cases c)
    case None
    with c s1(1) show ?thesis by (simp add: advancePowerSample_def)
  next
    case (Some p)
    have get: "map_of (sessions s2) kid = Some p" if ok
      using a that s1(2) Some currentSession_inv(2) [OF s1(1), of kid now]
      by (auto simp: powerSampleAllowed_def Let_def split: prod.splits option.splits
          dest!: currentSession_eq)
    have "power_inv (s2\<lparr>sessions := AList.update kid
        (p\<lparr>pw_revision := ps_revision sample, pw_expires := now + HISTORY_MS\<rparr>) (sessions s2)\<rparr>)"
      if ok
      by (rule store_inv [OF s2])
        (use session_retired [OF s2 get [OF that]] get [OF that] in \<open>auto simp: growth_def\<close>)
    with Some c a s2 show ?thesis by (cases ok) (simp_all add: advancePowerSample_def)
  qed
qed

lemma heartbeat_inv:
  assumes "power_inv s"
  shows "power_inv (snd (heartbeatPowerSampleAllowed kid sample now s))"
proof -
  obtain c s1 where c: "currentSession kid now s = (c, s1)" by fastforce
  with currentSession_inv(1) [OF assms c] assms show ?thesis
    by (auto simp: heartbeatPowerSampleAllowed_def replaceSession_inv split: option.splits)
qed

lemma accept_sample_inv:
  assumes "power_inv (snd r)"
  shows "power_inv (snd (accept_sample kid sample now r))"
  using assms advancePowerSample_inv
  by (cases r; cases "fst r"; cases sample) (auto simp: accept_sample_def)

lemma power_step_inv: "power_inv s \<Longrightarrow> power_inv (snd (power_step now p s))"
proof (cases p)
  case (OpResult k owner sample)
  moreover assume "power_inv s"
  moreover from this have "power_inv (snd (powerSampleAllowed k sample now s))"
    using currentSession_inv(1) by (metis powerSampleAllowed_state prod.collapse)
  ultimately show ?thesis by (simp add: accept_sample_inv)
qed (simp_all add: bindPowerSession_inv unbindPowerSession_inv heartbeat_inv accept_sample_inv)

lemma power_run_inv: "power_inv s \<Longrightarrow> power_inv (power_run ops s)"
proof (induction ops arbitrary: s)
  case (Cons op ops)
  then show ?case by (cases op) (simp add: power_step_inv)
qed simp

section \<open>Ownership\<close>

lemma currentSession_owned:
  assumes "map_of (sessions s) k = Some p" and "pw_owner p \<noteq> None"
  shows "currentSession k now s = (Some p, s)"
  using assms by (simp add: currentSession_def)

lemma currentSession_other:
  assumes "k \<noteq> kid"
  shows "map_of (sessions (snd (currentSession k now s))) kid = map_of (sessions s) kid"
  using assms by (simp add: currentSession_def get_delete split: option.splits)

text \<open>An operation on another kiosk leaves an owned session as it is.\<close>

lemma store_prune_other:
  assumes "power_inv s" and "map_of (sessions s) kid = Some p" and "pw_owner p \<noteq> None" and "k \<noteq> kid"
  shows "map_of (sessions (prune now c (s\<lparr>sessions := AList.update k v (sessions s)\<rparr>))) kid = Some p"
  by (rule prune_owned) (use assms in \<open>auto simp: power_inv_def get_set wf_set\<close>)

lemma replaceSession_other:
  assumes "power_inv s" and "map_of (sessions s) kid = Some p" and "pw_owner p \<noteq> None" and "k \<noteq> kid"
  shows "map_of (sessions (replaceSession k sample owner now s)) kid = Some p"
proof -
  obtain c s1 where c: "currentSession k now s = (c, s1)" by fastforce
  have "map_of (sessions s1) kid = Some p"
    using currentSession_other [OF assms(4), of now s] c assms(2) by simp
  from store_prune_other [OF currentSession_inv(1) [OF assms(1) c] this assms(3,4)]
  show ?thesis by (simp add: replaceSession_def c Let_def)
qed

lemma bindPowerSession_other:
  assumes "power_inv s" and "map_of (sessions s) kid = Some p" and "pw_owner p \<noteq> None" and "k \<noteq> kid"
  shows "map_of (sessions (bindPowerSession k owner sample now s)) kid = Some p"
proof -
  obtain c s1 where c: "currentSession k now s = (c, s1)" by fastforce
  have p: "map_of (sessions s1) kid = Some p"
    using currentSession_other [OF assms(4), of now s] c assms(2) by simp
  note s1 = currentSession_inv(1) [OF assms(1) c]
  show ?thesis
  proof (cases sample)
    case (Some smp)
    then show ?thesis using replaceSession_other [OF assms] by (simp add: bindPowerSession_def)
  next
    case None
    with store_prune_other [OF s1 p assms(3,4)] prune_owned [OF _ p assms(3)] s1 show ?thesis
      by (auto simp: bindPowerSession_def c power_inv_def split: option.splits)
  qed
qed

lemma unbindPowerSession_other:
  assumes "power_inv s" and "map_of (sessions s) kid = Some p" and "pw_owner p \<noteq> None" and "k \<noteq> kid"
  shows "map_of (sessions (unbindPowerSession k owner now s)) kid = Some p"
  using store_prune_other [OF assms] assms(2)
  by (auto simp: unbindPowerSession_def split: option.splits)

lemma advancePowerSample_other:
  assumes "map_of (sessions s) kid = Some p" and "k \<noteq> kid"
  shows "map_of (sessions (advancePowerSample k sample now s)) kid = Some p"
proof -
  obtain c s1 where c: "currentSession k now s = (c, s1)" by fastforce
  have p: "map_of (sessions s1) kid = Some p"
    using currentSession_other [OF assms(2), of now s] c assms(1) by simp
  obtain ok s2 where a: "powerSampleAllowed k (Some sample) now s1 = (ok, s2)" by fastforce
  have "s2 = snd (currentSession k now s1)"
    using powerSampleAllowed_state [of k "Some sample" now s1] a by simp
  then have "map_of (sessions s2) kid = Some p"
    using currentSession_other [OF assms(2), of now s1] p by simp
  with p c a assms(2) show ?thesis
    by (cases c; cases ok) (simp_all add: advancePowerSample_def get_set)
qed

lemma accept_sample_other:
  assumes "map_of (sessions (snd r)) kid = Some p" and "k \<noteq> kid"
  shows "map_of (sessions (snd (accept_sample k sample now r))) kid = Some p"
  using assms advancePowerSample_other [OF _ assms(2)]
  by (cases r; cases "fst r"; cases sample) (auto simp: accept_sample_def)

lemma power_step_other:
  assumes "power_inv s" and "map_of (sessions s) kid = Some p" and "pw_owner p \<noteq> None"
    and "op_kiosk op \<noteq> kid"
  shows "map_of (sessions (snd (power_step now op s))) kid = Some p"
proof (cases op)
  case (OpBind k owner sample)
  with assms bindPowerSession_other show ?thesis by simp
next
  case (OpUnbind k owner)
  with assms unbindPowerSession_other show ?thesis by simp
next
  case (OpHeartbeat k sample)
  with assms(4) have k: "k \<noteq> kid" by simp
  obtain c s1 where c: "currentSession k now s = (c, s1)" by fastforce
  have p: "map_of (sessions s1) kid = Some p"
    using currentSession_other [OF k, of now s] c assms(2) by simp
  have "map_of (sessions (snd (heartbeatPowerSampleAllowed k sample now s))) kid = Some p"
    using replaceSession_other [OF currentSession_inv(1) [OF assms(1) c] p assms(3) k] p assms(2)
    by (auto simp: heartbeatPowerSampleAllowed_def c split: option.splits)
  with OpHeartbeat k accept_sample_other show ?thesis by simp
next
  case (OpResult k owner sample)
  with assms(4) have k: "k \<noteq> kid" by simp
  have "map_of (sessions (snd (powerSampleAllowed k sample now s))) kid = Some p"
    using currentSession_other [OF k, of now s] assms(2) by (simp add: powerSampleAllowed_state)
  with OpResult k assms(2) accept_sample_other show ?thesis by simp
qed

text \<open>A report of the kiosk itself while its socket owns the session.\<close>

lemma advance_owned:
  assumes "map_of (sessions s) kid = Some p" and "pw_owner p \<noteq> None"
    and "pw_session p = ps_session smp" and "pw_revision p \<le> ps_revision smp"
  shows "map_of (sessions (advancePowerSample kid smp now s)) kid
           = Some (p\<lparr>pw_revision := ps_revision smp, pw_expires := now + HISTORY_MS\<rparr>)"
  using assms
  by (simp add: advancePowerSample_def currentSession_owned powerSampleAllowed_def get_set)

lemma power_step_own_report:
  assumes p: "map_of (sessions s) kid = Some p" "pw_owner p \<noteq> None"
    and op: "op = OpHeartbeat kid sample \<or> op = OpResult kid owner sample"
  shows "(fst (power_step now op s) = None \<and> map_of (sessions (snd (power_step now op s))) kid = Some p) \<or>
         (\<exists>smp. fst (power_step now op s) = Some smp \<and> ps_session smp = pw_session p \<and>
            pw_revision p \<le> ps_revision smp \<and>
            map_of (sessions (snd (power_step now op s))) kid
              = Some (p\<lparr>pw_revision := ps_revision smp, pw_expires := now + HISTORY_MS\<rparr>))"
proof (cases sample)
  case None
  with p op show ?thesis
    by (auto simp: heartbeatPowerSampleAllowed_def powerSampleAllowed_def accept_sample_def
        currentSession_owned)
next
  case (Some smp)
  define ok where "ok \<longleftrightarrow> pw_session p = ps_session smp \<and> pw_revision p \<le> ps_revision smp"
  have r: "heartbeatPowerSampleAllowed kid sample now s = (ok, s)"
    "powerSampleAllowed kid sample now s = (ok, s)"
    using p Some
    by (auto simp: heartbeatPowerSampleAllowed_def powerSampleAllowed_def currentSession_owned ok_def)
  have "accept_sample kid sample now (ok, s)
      = (if ok then (Some smp, advancePowerSample kid smp now s) else (None, s))"
    by (simp add: accept_sample_def Some)
  then have "power_step now op s \<in> {(None, s), (if ok then (Some smp, advancePowerSample kid smp now s) else (None, s))}"
    using op r by (auto split: if_splits)
  then show ?thesis
    using p advance_owned [OF p, of smp now] ok_def by (cases ok) auto
qed

section \<open>Retired processes\<close>

lemma replaceSession_entry:
  assumes inv: "power_inv s" and c: "currentSession kid now s = (Some p, s1)"
    and new: "pw_session p \<noteq> ps_session sample"
  obtains q where
    "map_of (sessions (replaceSession kid sample (Some ws) now s)) kid = Some q"
    and "pw_owner q = Some ws" and "pw_session q = ps_session sample"
    and "map_of (pw_retired q) (pw_session p) = Some (now + HISTORY_MS)"
proof -
  note s1 = currentSession_inv [OF inv c]
  define r0 where "r0 = filter (\<lambda>(i, expires). i \<noteq> ps_session sample \<and> expires > now) (pw_retired p)"
  define r1 where "r1 = AList.update (pw_session p) (now + HISTORY_MS) r0"
  define r2 where "r2 = drop (length r1 - MAX_RETIRED) r1"
  note ret = session_retired [OF s1(1) s1(2)]
  have len0: "length r0 \<le> MAX_RETIRED"
    unfolding r0_def by (rule order_trans [OF length_filter_le ret(1)])
  have wf0: "wf_map r0" using ret(2) by (auto simp: r0_def intro!: distinct_map_filter)
  have wf2: "wf_map r2" using wf0 by (auto simp: r1_def r2_def drop_map [symmetric] wf_set)
  have "(pw_session p, now + HISTORY_MS) \<in> set r2"
  proof (cases "map_of r0 (pw_session p)")
    case None
    then show ?thesis
      by (simp add: r1_def r2_def set_absent MAX_RETIRED_def)
  next
    case (Some e)
    then have "length r1 \<le> MAX_RETIRED" using len0 size_set_present [OF Some] by (simp add: r1_def)
    moreover have "map_of r1 (pw_session p) = Some (now + HISTORY_MS)" by (simp add: r1_def get_set)
    ultimately show ?thesis by (simp add: r2_def map_of_SomeD)
  qed
  with wf2 have retired: "map_of r2 (pw_session p) = Some (now + HISTORY_MS)" by simp
  define q where "q = \<lparr>pw_session = ps_session sample, pw_revision = ps_revision sample,
      pw_owner = Some ws, pw_expires = now + HISTORY_MS, pw_retired = r2\<rparr>"
  have eq: "replaceSession kid sample (Some ws) now s
      = prune now False (s1\<lparr>sessions := AList.update kid q (sessions s1)\<rparr>)"
    using new by (simp add: replaceSession_def c q_def r2_def r1_def r0_def Let_def)
  have "map_of (sessions (replaceSession kid sample (Some ws) now s)) kid = Some q"
    unfolding eq
    by (rule prune_owned) (use s1(1) in \<open>auto simp: power_inv_def wf_set get_set q_def\<close>)
  moreover have "pw_owner q = Some ws" "pw_session q = ps_session sample" "pw_retired q = r2"
    by (simp_all add: q_def)
  ultimately show thesis using retired by (intro that [of q]) simp_all
qed

lemma unbind_keeps_entry:
  assumes inv: "power_inv s" and q: "map_of (sessions s) kid = Some q" "pw_owner q = Some ws"
    and room: "ownerless (sessions s) < MAX_OWNERLESS"
  shows "map_of (sessions (unbindPowerSession kid ws t s)) kid
           = Some (q\<lparr>pw_owner := None, pw_expires := t + HISTORY_MS\<rparr>)"
proof -
  define q' where "q' = q\<lparr>pw_owner := None, pw_expires := t + HISTORY_MS\<rparr>"
  define m where "m = AList.update kid q' (sessions s)"
  have "ownerless m \<le> MAX_OWNERLESS"
    using ownerless_set_le [of kid q' "sessions s"] room by (simp add: m_def growth_def split: if_splits)
  moreover have "ownerless (unexpired t m) \<le> ownerless m" by (simp add: unexpired_def ownerless_le)
  ultimately have "excess_ids (ownerless_entries (unexpired t m)) = []"
    by (simp add: excess_ids_def ownerless_def)
  then have eq: "sessions (unbindPowerSession kid ws t s) = unexpired t m"
    using q by (simp add: unbindPowerSession_def prune_def Let_def m_def q'_def)
  have "wf_map m" using inv by (auto simp: m_def power_inv_def wf_set)
  moreover have "map_of m kid = Some q'" by (simp add: m_def get_set)
  then have "(kid, q') \<in> set (unexpired t m)"
    by (auto simp: unexpired_def q'_def HISTORY_MS_def dest: map_of_SomeD)
  moreover have "wf_map (unexpired t m)"
    using \<open>wf_map m\<close> by (auto simp: unexpired_def intro!: distinct_map_filter)
  ultimately show ?thesis by (simp add: eq q'_def)
qed

section \<open>Properties\<close>

definition initial_power_state :: power_state where
  "initial_power_state = \<lparr>sessions = [], next_sweep = 0\<rparr>"

text \<open>
  While a socket owns the session of a kiosk, whatever other kiosks do, only samples of
  that very process are accepted, in non-decreasing revision order, and the session
  stays with the socket.
\<close>

theorem power_owner_exclusive:
  assumes "power_inv s" and "map_of (sessions s) kid = Some p" and "pw_owner p = Some ws"
    and "\<forall>(t, op) \<in> set ops. op_kiosk op = kid \<longrightarrow>
           (\<exists>smp. op = OpHeartbeat kid smp) \<or> (\<exists>w smp. op = OpResult kid w smp)"
  shows "(\<forall>smp \<in> set (accepted_samples kid ops s). ps_session smp = pw_session p) \<and>
         sorted (pw_revision p # map ps_revision (accepted_samples kid ops s)) \<and>
         (\<exists>q. map_of (sessions (power_run ops s)) kid = Some q \<and>
              pw_owner q = Some ws \<and> pw_session q = pw_session p)"
  using assms
proof (induction ops arbitrary: s p)
  case Nil
  then show ?case by simp
next
  case (Cons x ops)
  obtain now op where x: "x = (now, op)" by (cases x)
  define s1 where "s1 = snd (power_step now op s)"
  have inv1: "power_inv s1" using Cons.prems(1) by (simp add: s1_def power_step_inv)
  have rest: "\<forall>(t, op) \<in> set ops. op_kiosk op = kid \<longrightarrow>
           (\<exists>smp. op = OpHeartbeat kid smp) \<or> (\<exists>w smp. op = OpResult kid w smp)"
    using Cons.prems(4) by simp
  have quiet: ?case if "map_of (sessions s1) kid = Some p"
    and "op_kiosk op \<noteq> kid \<or> fst (power_step now op s) = None"
    using Cons.IH [OF inv1 that(1) Cons.prems(3) rest] that(2)
    by (auto simp: x s1_def split: option.splits prod.splits)
  show ?case
  proof (cases "op_kiosk op = kid")
    case False
    have "map_of (sessions s1) kid = Some p"
      unfolding s1_def by (rule power_step_other) (use Cons.prems False in auto)
    with quiet False show ?thesis by simp
  next
    case True
    with Cons.prems(4) x obtain w sample where
      "op = OpHeartbeat kid sample \<or> op = OpResult kid w sample" by auto
    from power_step_own_report [OF Cons.prems(2) _ this, of now] Cons.prems(3)
    consider "fst (power_step now op s) = None" "map_of (sessions s1) kid = Some p"
      | smp where "fst (power_step now op s) = Some smp" "ps_session smp = pw_session p"
        "pw_revision p \<le> ps_revision smp"
        "map_of (sessions s1) kid = Some (p\<lparr>pw_revision := ps_revision smp, pw_expires := now + HISTORY_MS\<rparr>)"
      by (auto simp: s1_def)
    then show ?thesis
    proof cases
      case 1
      with quiet show ?thesis by blast
    next
      case (2 smp)
      from Cons.IH [OF inv1 2(4) _ rest] Cons.prems(3)
      have IH: "(\<forall>smp \<in> set (accepted_samples kid ops s1). ps_session smp = pw_session p) \<and>
         sorted (ps_revision smp # map ps_revision (accepted_samples kid ops s1)) \<and>
         (\<exists>q. map_of (sessions (power_run ops s1)) kid = Some q \<and>
              pw_owner q = Some ws \<and> pw_session q = pw_session p)" by simp
      have acc: "accepted_samples kid (x # ops) s = smp # accepted_samples kid ops s1"
        using 2(1) True by (simp add: x s1_def case_prod_unfold)
      have run: "power_run (x # ops) s = power_run ops s1" by (simp add: x s1_def)
      from IH 2(2,3) show ?thesis unfolding acc run by auto
    qed
  qed
qed

text \<open>
  History is bounded whatever the kiosks send: after any run from the initial state
  there is one entry per kiosk, at most 4096 entries without a live socket, and at most
  eight retired processes per entry.
\<close>

theorem power_history_bounded:
  "wf_map (sessions (power_run ops initial_power_state)) \<and>
   length (filter (\<lambda>x. pw_owner (snd x) = None) (sessions (power_run ops initial_power_state))) \<le> 4096 \<and>
   (\<forall>v \<in> snd ` set (sessions (power_run ops initial_power_state)). length (pw_retired v) \<le> 8)"
proof -
  have "power_inv initial_power_state"
    by (simp add: power_inv_def initial_power_state_def ownerless_def ownerless_entries_def)
  then have "power_inv (power_run ops initial_power_state)" by (rule power_run_inv)
  then show ?thesis
    by (auto simp: power_inv_def ownerless_def ownerless_entries_def MAX_OWNERLESS_def MAX_RETIRED_def)
qed

text \<open>
  A replaced process stays replaced: once a socket of a new process takes over a live
  session, a heartbeat of the old process is refused while the socket is open and, if
  the table has room for one more entry without a socket, also after it closes, until
  half an hour after the takeover.
\<close>

theorem replaced_process_rejected:
  assumes "power_inv s" and "currentSession kid now s = (Some p, s1)"
    and "pw_session p \<noteq> ps_session sample" and "ps_session old = pw_session p"
    and "s' = bindPowerSession kid ws (Some sample) now s"
  shows "\<not> fst (heartbeatPowerSampleAllowed kid (Some old) t s') \<and>
         (ownerless (sessions s') < MAX_OWNERLESS \<and> t < now + HISTORY_MS \<and> t1 \<le> t \<and> now \<le> t1 \<longrightarrow>
          \<not> fst (heartbeatPowerSampleAllowed kid (Some old) t (unbindPowerSession kid ws t1 s')))"
proof -
  obtain q where q: "map_of (sessions s') kid = Some q" "pw_owner q = Some ws"
    "pw_session q = ps_session sample" "map_of (pw_retired q) (pw_session p) = Some (now + HISTORY_MS)"
    using replaceSession_entry [OF assms(1,2,3), of ws] assms(5) by (auto simp: bindPowerSession_def)
  have inv': "power_inv s'" using assms(1,5) by (simp add: bindPowerSession_inv)
  have "\<not> fst (heartbeatPowerSampleAllowed kid (Some old) t s')"
    using q assms(3,4) currentSession_owned [OF q(1)] by (simp add: heartbeatPowerSampleAllowed_def)
  moreover have "\<not> fst (heartbeatPowerSampleAllowed kid (Some old) t (unbindPowerSession kid ws t1 s'))"
    if "ownerless (sessions s') < MAX_OWNERLESS" "t < now + HISTORY_MS" "now \<le> t1" "t1 \<le> t"
  proof -
    note e = unbind_keeps_entry [OF inv' q(1,2) that(1), of t1]
    have "currentSession kid t (unbindPowerSession kid ws t1 s')
        = (Some (q\<lparr>pw_owner := None, pw_expires := t1 + HISTORY_MS\<rparr>), unbindPowerSession kid ws t1 s')"
      using e that by (simp add: currentSession_def)
    with q assms(3,4) that(2) show ?thesis by (simp add: heartbeatPowerSampleAllowed_def)
  qed
  ultimately show ?thesis by blast
qed

section \<open>Witnesses\<close>

definition sample_a :: power_sample where
  "sample_a = \<lparr>ps_session = ''0a1b2c3d-0000-4000-8000-0123456789ab'', ps_revision = 3\<rparr>"

definition sample_b :: power_sample where
  "sample_b = \<lparr>ps_session = ''ffffffff-0000-4000-8000-0123456789ab'', ps_revision = 0\<rparr>"

lemma sample_readable:
  "readPowerSample (JObj [(''power_session_id'', JStr (ps_session sample_a)), (''power_revision'', JNum 3)])
     = Some sample_a"
  by (simp add: readPowerSample_def sample_a_def is_uuid_def is_hex_def is_hex_lower_def is_digit_def
      is_safe_integer_def is_integer_def)

definition entry_a :: power_session where
  "entry_a = \<lparr>pw_session = ps_session sample_a, pw_revision = 3, pw_owner = Some 1,
              pw_expires = 1800010, pw_retired = []\<rparr>"

definition bound_state :: power_state where
  "bound_state = \<lparr>sessions = [(''k1'', entry_a)], next_sweep = 60010\<rparr>"

lemma bound_state_reached: "bindPowerSession ''k1'' 1 (Some sample_a) 10 initial_power_state = bound_state"
  by (simp add: bindPowerSession_def replaceSession_def currentSession_def initial_power_state_def
      bound_state_def entry_a_def prune_def unexpired_def ownerless_entries_def excess_ids_def
      HISTORY_MS_def sample_a_def)

lemma bound_state_inv: "power_inv bound_state"
  by (simp add: power_inv_def bound_state_def ownerless_def ownerless_entries_def entry_a_def)

lemma bound_state_get: "map_of (sessions bound_state) ''k1'' = Some entry_a"
  by (simp add: bound_state_def)

lemma entry_a_owner: "pw_owner entry_a = Some 1"
  by (simp add: entry_a_def)

definition power_trace :: "(number \<times> power_op) list" where
  "power_trace = [(20, OpHeartbeat ''k1'' (Some sample_b)),
                  (30, OpHeartbeat ''k1'' (Some (sample_a\<lparr>ps_revision := 5\<rparr>))),
                  (40, OpHeartbeat ''k1'' (Some sample_a))]"

lemma power_trace_accepted: "accepted_samples ''k1'' power_trace bound_state = [sample_a\<lparr>ps_revision := 5\<rparr>]"
  by (simp add: power_trace_def bound_state_def heartbeatPowerSampleAllowed_def currentSession_def
      entry_a_def sample_a_def sample_b_def accept_sample_def advancePowerSample_def powerSampleAllowed_def)

theorem power_owner_exclusive_witness:
  "accepted_samples ''k1'' power_trace bound_state = [sample_a\<lparr>ps_revision := 5\<rparr>] \<and>
   (\<exists>q. map_of (sessions (power_run power_trace bound_state)) ''k1'' = Some q \<and> pw_owner q = Some 1)"
  using power_owner_exclusive [OF bound_state_inv bound_state_get entry_a_owner, of power_trace]
    power_trace_accepted by (auto simp: power_trace_def)

theorem replaced_process_rejected_witness:
  "\<not> fst (heartbeatPowerSampleAllowed ''k1'' (Some sample_a) 50
           (bindPowerSession ''k1'' 2 (Some sample_b) 40 bound_state))"
proof -
  have "currentSession ''k1'' 40 bound_state = (Some entry_a, bound_state)"
    by (rule currentSession_owned) (simp_all add: bound_state_get entry_a_owner)
  moreover have "pw_session entry_a \<noteq> ps_session sample_b" "ps_session sample_a = pw_session entry_a"
    by (simp_all add: entry_a_def sample_a_def sample_b_def)
  ultimately show ?thesis
    using replaced_process_rejected [OF bound_state_inv] by blast
qed

theorem power_history_bounded_witness:
  "sessions (power_run [(10, OpBind ''k1'' 1 (Some sample_a))] initial_power_state) = [(''k1'', entry_a)]
   \<and> length (pw_retired entry_a) \<le> 8"
proof -
  have r: "power_run [(10, OpBind ''k1'' 1 (Some sample_a))] initial_power_state = bound_state"
    by (simp add: bound_state_reached [unfolded One_nat_def])
  show ?thesis
    using power_history_bounded [of "[(10, OpBind ''k1'' 1 (Some sample_a))]"]
    unfolding r by (simp add: bound_state_def)
qed

end
