(* ===== verification/BF_Coordinator.thy ===== *)
theory BF_Coordinator
  imports BF_Power BF_Samples
begin

text \<open>
  The WebSocket coordinator (\<^verbatim>\<open>server/src/plugins/service-coordinator-ws/index.ts\<close>) with the
  connection table of \<^verbatim>\<open>kiosk-connections.ts\<close> and the command filter of
  \<^verbatim>\<open>android-viewer.ts\<close>.  A socket is a natural number, a message a JSON value; what the
  code sends, forwards and settles is appended to logs of the state, so that ordering is
  visible.  Callbacks of the event loop are the steps of \<open>coord_step\<close>.
\<close>

section \<open>Android viewers\<close>

definition isAndroidViewer :: "kiosk option \<Rightarrow> bool" where
  "isAndroidViewer kiosk =
     (case kiosk of None \<Rightarrow> False | Some k \<Rightarrow> ''android-viewer'' \<in> set (k_capabilities k))"

definition supportsAndroidStandby :: "kiosk option \<Rightarrow> bool" where
  "supportsAndroidStandby kiosk =
     (isAndroidViewer kiosk \<and>
      (case kiosk of None \<Rightarrow> False | Some k \<Rightarrow> ''android-standby-v1'' \<in> set (k_capabilities k)))"

definition androidViewerRouteAllowed :: "string \<Rightarrow> string \<Rightarrow> bool" where
  "androidViewerRouteAllowed path verb \<longleftrightarrow>
     (verb = ''GET'' \<and> path \<in> set [''/api/kiosk/bundle'', ''/api/kiosk/_check'']) \<or>
     (verb = ''POST'' \<and> path \<in> set [''/api/kiosk/heartbeat'', ''/api/kiosk/logs'', ''/api/kiosk/display-session''])"

text \<open>\<open>string_is v w\<close>: \<^verbatim>\<open>String(v)\<close> is the non-empty word \<open>w\<close> of letters and hyphens.\<close>

fun string_is :: "json \<Rightarrow> string \<Rightarrow> bool" where
  "string_is (JStr s) w = (s = w)"
| "string_is JUndefined w = (w = ''undefined'')"
| "string_is JNull w = (w = ''null'')"
| "string_is (JBool b) w = (w = (if b then ''true'' else ''false''))"
| "string_is (JArr [JNull]) w = False"
| "string_is (JArr [JUndefined]) w = False"
| "string_is (JArr [v]) w = string_is v w"
| "string_is _ w = False"

abbreviation msg_type :: "json \<Rightarrow> json" where
  "msg_type m \<equiv> json_get m ''type''"

definition androidViewerCommandAllowed ::
  "json \<Rightarrow> string list option \<Rightarrow> (bool \<times> string) option \<Rightarrow> bool" where
  "androidViewerCommandAllowed msg assignedLayoutIds pwr =
     (if \<exists>w \<in> set [''reload-bundle'', ''ping'', ''connected'']. string_is (msg_type msg) w then True
      else if \<exists>w \<in> set [''standby'', ''wake'']. string_is (msg_type msg) w then
        (case pwr of
           None \<Rightarrow> False
         | Some (supported, displayId) \<Rightarrow>
             supported \<and> displayId \<noteq> [] \<and>
             (json_get msg ''display_id'' = JUndefined \<or> json_get msg ''display_id'' = JStr displayId))
      else msg_type msg = JStr ''layout-switch'' \<and>
        (case (json_get msg ''layout_id'', assignedLayoutIds) of
           (JStr l, Some ids) \<Rightarrow> l \<in> set ids
         | _ \<Rightarrow> False))"

section \<open>State\<close>

record connection =
  cn_name :: string
  cn_ws :: nat
  cn_lastPong :: number
  cn_viewer :: bool

text \<open>\<open>pd_power\<close> is \<^verbatim>\<open>responseType: "power-result"\<close>.\<close>

record pending =
  pd_kiosk :: string
  pd_socket :: nat
  pd_power :: bool

datatype outcome = Resolved json | Rejected string

record coordinator =
  connectedKiosks :: "(string, connection) jsmap"
  pendingRequests :: "(string, pending) jsmap"
  offlineQueues :: "(string, json list) jsmap"
  debugSubscribers :: "(string, nat list) jsmap"
  powerState :: power_state
  openSockets :: "nat list"
  brokenSockets :: "nat list"
  validations :: "(string \<times> nat \<times> string \<times> json) list"
  outbox :: "(nat \<times> json) list"
  settled :: "(string \<times> outcome) list"
  forwarded :: "(string \<times> json) list"

definition removeSocket ::
  "string \<Rightarrow> nat \<Rightarrow> (string, connection) jsmap \<Rightarrow> bool \<times> (string, connection) jsmap" where
  "removeSocket kid ws m =
     (case map_of m kid of
        None \<Rightarrow> (False, m)
      | Some c \<Rightarrow> if cn_ws c \<noteq> ws then (False, m) else (True, AList.delete kid m))"

definition pong :: "string \<Rightarrow> nat \<Rightarrow> number \<Rightarrow> (string, connection) jsmap \<Rightarrow> (string, connection) jsmap" where
  "pong kid ws now m =
     (case map_of m kid of
        None \<Rightarrow> m
      | Some c \<Rightarrow> if cn_ws c = ws then AList.update kid (c\<lparr>cn_lastPong := now\<rparr>) m else m)"

definition stale_sockets :: "number \<Rightarrow> number \<Rightarrow> (string, connection) jsmap \<Rightarrow> nat list" where
  "stale_sockets now timeoutMs m =
     map (cn_ws \<circ> snd) (filter (\<lambda>x. now - cn_lastPong (snd x) > timeoutMs) m)"

section \<open>Sending\<close>

definition MESSAGE_QUEUE_CAP :: nat where "MESSAGE_QUEUE_CAP = 100"

definition queue_push :: "json \<Rightarrow> json list \<Rightarrow> json list" where
  "queue_push m q = (if length (q @ [m]) > MESSAGE_QUEUE_CAP then tl (q @ [m]) else q @ [m])"

definition transmit :: "nat \<Rightarrow> json \<Rightarrow> coordinator \<Rightarrow> bool \<times> coordinator" where
  "transmit ws m s =
     (if ws \<in> set (brokenSockets s) then (False, s)
      else (True, s\<lparr>outbox := outbox s @ [(ws, m)]\<rparr>))"

definition is_power_type :: "json \<Rightarrow> bool" where
  "is_power_type m \<longleftrightarrow> msg_type m = JStr ''standby'' \<or> msg_type m = JStr ''wake''"

definition layout_id_of :: "json \<Rightarrow> string" where
  "layout_id_of m = (case json_get m ''layout_id'' of JStr l \<Rightarrow> l | _ \<Rightarrow> [])"

definition open_connection :: "coordinator \<Rightarrow> string \<Rightarrow> connection option" where
  "open_connection s kid =
     (case map_of (connectedKiosks s) kid of
        None \<Rightarrow> None
      | Some c \<Rightarrow> if cn_ws c \<in> set (openSockets s) then Some c else None)"

definition deliver_or_queue :: "string \<Rightarrow> json \<Rightarrow> bool \<Rightarrow> coordinator \<Rightarrow> bool \<times> coordinator" where
  "deliver_or_queue kid m queueWhenOffline s =
     (case open_connection s kid of
        None \<Rightarrow>
          if \<not> queueWhenOffline then (False, s)
          else (False, s\<lparr>offlineQueues := AList.update kid
                   (queue_push m (nullish (map_of (offlineQueues s) kid) [])) (offlineQueues s)\<rparr>)
      | Some c \<Rightarrow> transmit (cn_ws c) m s)"

text \<open>
  For a viewer a layout switch is handed to the asynchronous assignment check, which
  delivers later (\<open>validation_done\<close>).
\<close>

definition sendToKiosk :: "string \<Rightarrow> json \<Rightarrow> bool \<Rightarrow> coordinator \<Rightarrow> bool \<times> coordinator" where
  "sendToKiosk kid m queueWhenOffline s =
     (if is_power_type m then (False, s)
      else case map_of (connectedKiosks s) kid of
          None \<Rightarrow> deliver_or_queue kid m queueWhenOffline s
        | Some c \<Rightarrow>
            if \<not> cn_viewer c then deliver_or_queue kid m queueWhenOffline s
            else if \<not> androidViewerCommandAllowed m (Some [layout_id_of m]) None then (False, s)
            else if msg_type m = JStr ''layout-switch'' then
              (if cn_ws c \<notin> set (openSockets s) then (False, s)
               else (True, s\<lparr>validations := validations s @ [(kid, cn_ws c, layout_id_of m, m)]\<rparr>))
            else deliver_or_queue kid m queueWhenOffline s)"

definition validation_done :: "string \<times> nat \<times> string \<times> json \<Rightarrow> bool \<Rightarrow> coordinator \<Rightarrow> coordinator" where
  "validation_done v allowed s =
     (let (kid, ws, layoutId, m) = v;
          s1 = s\<lparr>validations := remove1 v (validations s)\<rparr>
      in if v \<in> set (validations s) \<and> allowed \<and> ws \<in> set (openSockets s)
            \<and> map_option cn_ws (map_of (connectedKiosks s) kid) = Some ws
         then snd (transmit ws m s1) else s1)"

fun drain_loop :: "string \<Rightarrow> json list \<Rightarrow> coordinator \<Rightarrow> coordinator" where
  "drain_loop kid [] s = s"
| "drain_loop kid (m # ms) s = drain_loop kid ms (snd (sendToKiosk kid m False s))"

definition drainOfflineQueue :: "string \<Rightarrow> coordinator \<Rightarrow> coordinator" where
  "drainOfflineQueue kid s =
     (let q = nullish (map_of (offlineQueues s) kid) [] in
      if q = [] then s
      else if open_connection s kid = None then s
      else (drain_loop kid q s)\<lparr>offlineQueues := AList.delete kid (offlineQueues (drain_loop kid q s))\<rparr>)"

section \<open>Requests\<close>

definition with_request_id :: "string \<Rightarrow> json \<Rightarrow> json" where
  "with_request_id rid m =
     (case m of JObj fs \<Rightarrow> JObj (AList.update ''request_id'' (JStr rid) fs)
              | _ \<Rightarrow> JObj [(''request_id'', JStr rid)])"

definition settle :: "string \<Rightarrow> outcome \<Rightarrow> coordinator \<Rightarrow> coordinator" where
  "settle rid r s =
     s\<lparr>pendingRequests := AList.delete rid (pendingRequests s), settled := settled s @ [(rid, r)]\<rparr>"

text \<open>\<open>rid\<close> is the fresh \<^verbatim>\<open>randomUUID()\<close> of the call.\<close>

definition requestKiosk :: "string \<Rightarrow> json \<Rightarrow> string \<Rightarrow> coordinator \<Rightarrow> coordinator" where
  "requestKiosk kid m rid s =
     (case open_connection s kid of
        None \<Rightarrow> s\<lparr>settled := settled s @ [(rid, Rejected ''kiosk is not connected'')]\<rparr>
      | Some c \<Rightarrow>
          (let s1 = s\<lparr>pendingRequests := AList.update rid
                       \<lparr>pd_kiosk = kid, pd_socket = cn_ws c, pd_power = False\<rparr> (pendingRequests s)\<rparr>
           in case sendToKiosk kid (with_request_id rid m) False s1 of
                (True, s2) \<Rightarrow> s2
              | (False, s2) \<Rightarrow> settle rid (Rejected ''kiosk is not connected'') s2))"

definition request_timeout :: "string \<Rightarrow> coordinator \<Rightarrow> coordinator" where
  "request_timeout rid s =
     (case map_of (pendingRequests s) rid of
        None \<Rightarrow> s
      | Some p \<Rightarrow> settle rid (if pd_power p then Resolved (JBool False)
                               else Rejected ''kiosk request timed out'') s)"

text \<open>The acknowledgement \<^verbatim>\<open>sendPowerToKiosk\<close> registers for a viewer connection.\<close>

definition register_power_ack :: "string \<Rightarrow> string \<Rightarrow> coordinator \<Rightarrow> coordinator" where
  "register_power_ack kid rid s =
     (case open_connection s kid of
        None \<Rightarrow> s
      | Some c \<Rightarrow> s\<lparr>pendingRequests := AList.update rid
                     \<lparr>pd_kiosk = kid, pd_socket = cn_ws c, pd_power = True\<rparr> (pendingRequests s)\<rparr>)"

definition cancel_power_ack :: "string \<Rightarrow> coordinator \<Rightarrow> coordinator" where
  "cancel_power_ack rid s = s\<lparr>pendingRequests := AList.delete rid (pendingRequests s)\<rparr>"

text \<open>The loop that rejects every request bound to a socket.\<close>

fun reject_loop :: "nat \<Rightarrow> string \<Rightarrow> (string, pending) jsmap \<Rightarrow> coordinator \<Rightarrow> coordinator" where
  "reject_loop ws why [] s = s"
| "reject_loop ws why ((rid, p) # ps) s =
     (if pd_socket p \<noteq> ws then reject_loop ws why ps s
      else reject_loop ws why ps (settle rid (Rejected why) s))"

definition reject_socket :: "nat \<Rightarrow> string \<Rightarrow> coordinator \<Rightarrow> coordinator" where
  "reject_socket ws why s = reject_loop ws why (pendingRequests s) s"

definition acceptPowerResult ::
  "string \<Rightarrow> nat \<Rightarrow> json \<Rightarrow> (bool \<Rightarrow> coordinator \<Rightarrow> coordinator) \<Rightarrow> coordinator \<Rightarrow> bool \<times> coordinator" where
  "acceptPowerResult kid ws m beforeResolve s =
     (let rid = (case json_get m ''request_id'' of JStr r \<Rightarrow> r | _ \<Rightarrow> []) in
      case (map_of (pendingRequests s) rid, json_get m ''accepted'') of
        (Some p, JBool accepted) \<Rightarrow>
          if msg_type m = JStr ''power-result'' \<and> pd_power p \<and> pd_kiosk p = kid \<and> pd_socket p = ws
          then (True, let s1 = beforeResolve accepted (s\<lparr>pendingRequests := AList.delete rid (pendingRequests s)\<rparr>)
                      in s1\<lparr>settled := settled s1 @ [(rid, Resolved (JBool accepted))]\<rparr>)
          else (False, s)
      | _ \<Rightarrow> (False, s))"

section \<open>Socket lifecycle\<close>

definition forward :: "string \<Rightarrow> json \<Rightarrow> coordinator \<Rightarrow> coordinator" where
  "forward topic payload s = s\<lparr>forwarded := forwarded s @ [(topic, payload)]\<rparr>"

definition kiosk_event :: "string \<Rightarrow> string \<Rightarrow> string \<Rightarrow> json" where
  "kiosk_event kid name ev =
     JObj [(''kiosk_id'', JStr kid), (''kiosk_name'', JStr name), (''event'', JStr ev),
           (''source'', JStr ''server'')]"

text \<open>
  An authenticated kiosk socket \<open>ws\<close> opens.  The power session is bound for a viewer;
  otherwise a previous socket loses it.  A replaced socket has its requests rejected
  and is terminated before the new one is greeted and the queue drained.
\<close>

definition on_connect ::
  "string \<Rightarrow> string \<Rightarrow> nat \<Rightarrow> bool \<Rightarrow> power_sample option \<Rightarrow> number \<Rightarrow> coordinator \<Rightarrow> coordinator" where
  "on_connect kid name ws viewer sample now s =
     (let previous = map_of (connectedKiosks s) kid;
          s1 = s\<lparr>connectedKiosks := AList.update kid
                   \<lparr>cn_name = name, cn_ws = ws, cn_lastPong = now, cn_viewer = viewer\<rparr> (connectedKiosks s),
                 openSockets := ws # openSockets s\<rparr>;
          s2 = (if viewer then s1\<lparr>powerState := bindPowerSession kid ws sample now (powerState s1)\<rparr>
                else case previous of
                    None \<Rightarrow> s1
                  | Some c \<Rightarrow> s1\<lparr>powerState := unbindPowerSession kid (cn_ws c) now (powerState s1)\<rparr>);
          s3 = (case previous of
                  None \<Rightarrow> s2
                | Some c \<Rightarrow>
                    if cn_ws c \<noteq> ws
                    then (reject_socket (cn_ws c) ''kiosk connection replaced'' s2)
                           \<lparr>openSockets := filter (\<lambda>w. w \<noteq> cn_ws c) (openSockets s2)\<rparr>
                    else s2);
          s4 = snd (transmit ws (JObj [(''type'', JStr ''connected''), (''kiosk_id'', JStr kid)]) s3)
      in forward ''kiosk.changed'' (kiosk_event kid name ''connected'') (drainOfflineQueue kid s4))"

definition response_types :: "string list" where
  "response_types =
     [''onvif-soap-response'', ''camera-proxy-response'', ''onvif-action-response'',
      ''rotate-local-key-response'', ''iobox-control-response'', ''operator-enrollment-response'',
      ''operator-stations-response'', ''operator-station-revoke-response'']"

definition debug_types :: "string list" where
  "debug_types = [''journal-line'', ''terminal-challenge'', ''terminal-granted'', ''terminal-denied'',
                  ''terminal-data'']"

fun number_or_null :: "json \<Rightarrow> json" where
  "number_or_null (JNum n) = JNum n"
| "number_or_null _ = JNull"

definition telemetry :: "string \<Rightarrow> string \<Rightarrow> json \<Rightarrow> (string \<times> json) list" where
  "telemetry kid name m =
     [(''kiosk_id'', JStr kid), (''kiosk_name'', JStr name)] @
     map (\<lambda>f. (f, number_or_null (json_get m f)))
       [''cpu_temp_c'', ''cpu_load_percent'', ''fan_rpm'', ''fan_pwm'', ''memory_total_mb'', ''memory_used_mb'',
        ''disk_total_mb'', ''disk_free_mb'', ''disk_used_percent'']"

fun relay_loop :: "nat list \<Rightarrow> json \<Rightarrow> coordinator \<Rightarrow> coordinator" where
  "relay_loop [] m s = s"
| "relay_loop (w # ws) m s =
     relay_loop ws m (if w \<in> set (openSockets s) then snd (transmit w m s) else s)"

definition relayToDebugSubscribers :: "string \<Rightarrow> json \<Rightarrow> coordinator \<Rightarrow> coordinator" where
  "relayToDebugSubscribers kid m s = relay_loop (nullish (map_of (debugSubscribers s) kid) []) m s"

definition handle_response :: "string \<Rightarrow> nat \<Rightarrow> json \<Rightarrow> coordinator \<Rightarrow> coordinator" where
  "handle_response kid ws m s =
     (let rid = (case json_get m ''request_id'' of JStr r \<Rightarrow> r | _ \<Rightarrow> []) in
      case map_of (pendingRequests s) rid of
        None \<Rightarrow> s
      | Some p \<Rightarrow>
          if pd_power p \<or> pd_kiosk p \<noteq> kid \<or> pd_socket p \<noteq> ws then s
          else let err = (case json_get m ''error'' of JStr e \<Rightarrow> e | _ \<Rightarrow> []) in
            settle rid (if err \<noteq> [] then Rejected err else Resolved m) s)"

definition handle_power_result :: "string \<Rightarrow> nat \<Rightarrow> json \<Rightarrow> number \<Rightarrow> coordinator \<Rightarrow> coordinator" where
  "handle_power_result kid ws m now s =
     (let sample = readPowerSample m in
      if \<not> ownsPowerSession kid ws (powerState s) then s
      else case powerSampleAllowed kid sample now (powerState s) of
          (False, ps) \<Rightarrow> s\<lparr>powerState := ps\<rparr>
        | (True, ps) \<Rightarrow>
            snd (acceptPowerResult kid ws m
              (\<lambda>accepted t. if accepted
                 then t\<lparr>powerState := advancePowerSample kid (the sample) now (powerState t)\<rparr> else t)
              (s\<lparr>powerState := ps\<rparr>)))"

definition on_message :: "string \<Rightarrow> nat \<Rightarrow> json \<Rightarrow> number \<Rightarrow> coordinator \<Rightarrow> coordinator" where
  "on_message kid ws m now s =
     (case map_of (connectedKiosks s) kid of
        None \<Rightarrow> s
      | Some c \<Rightarrow>
          if cn_ws c \<noteq> ws then s
          else if msg_type m = JStr ''pong''
            then s\<lparr>connectedKiosks := pong kid ws now (connectedKiosks s)\<rparr>
          else if msg_type m = JStr ''power-result'' then handle_power_result kid ws m now s
          else if cn_viewer c then s
          else if \<exists>t \<in> set response_types. msg_type m = JStr t then handle_response kid ws m s
          else if \<exists>t \<in> set debug_types. msg_type m = JStr t then relayToDebugSubscribers kid m s
          else if msg_type m = JStr ''status'' then
            forward ''kiosk.status''
              (JObj (telemetry kid (cn_name c) m @ [(''source'', JStr ''server'')]))
              (forward ''kiosk.changed''
                (JObj (telemetry kid (cn_name c) m @ [(''event'', JStr ''heartbeat''), (''source'', JStr ''server'')])) s)
          else s)"

definition on_close :: "string \<Rightarrow> string \<Rightarrow> nat \<Rightarrow> number \<Rightarrow> coordinator \<Rightarrow> coordinator" where
  "on_close kid name ws now s =
     (let s1 = s\<lparr>openSockets := filter (\<lambda>w. w \<noteq> ws) (openSockets s),
                 powerState := unbindPowerSession kid ws now (powerState s)\<rparr>
      in case removeSocket kid ws (connectedKiosks s1) of
           (False, _) \<Rightarrow> s1
         | (True, m) \<Rightarrow>
             forward ''kiosk.changed'' (kiosk_event kid name ''disconnected'')
               (reject_socket ws ''kiosk disconnected'' (s1\<lparr>connectedKiosks := m\<rparr>)))"

section \<open>Broadcast, ping and debug relay\<close>

fun broadcast_loop :: "string list \<Rightarrow> json \<Rightarrow> coordinator \<Rightarrow> coordinator" where
  "broadcast_loop [] m s = s"
| "broadcast_loop (k # ks) m s = broadcast_loop ks m (snd (sendToKiosk k m False s))"

text \<open>The branch of \<^verbatim>\<open>broadcastAll\<close> for messages other than power commands.\<close>

definition broadcastAll :: "json \<Rightarrow> coordinator \<Rightarrow> coordinator" where
  "broadcastAll m s = (if is_power_type m then s else broadcast_loop (map fst (connectedKiosks s)) m s)"

fun ping_loop :: "connection list \<Rightarrow> json \<Rightarrow> coordinator \<Rightarrow> coordinator" where
  "ping_loop [] m s = s"
| "ping_loop (c # cs) m s =
     ping_loop cs m (if cn_ws c \<in> set (openSockets s) then snd (transmit (cn_ws c) m s) else s)"

definition ping_tick :: "number \<Rightarrow> coordinator \<Rightarrow> coordinator" where
  "ping_tick now s =
     (let stale = stale_sockets now 90000 (connectedKiosks s);
          s1 = s\<lparr>openSockets := filter (\<lambda>w. w \<notin> set stale) (openSockets s)\<rparr>
      in ping_loop (map snd (connectedKiosks s1)) (JObj [(''type'', JStr ''ping''), (''t'', JNum now)]) s1)"

definition addDebugSubscriber :: "string \<Rightarrow> nat \<Rightarrow> coordinator \<Rightarrow> coordinator" where
  "addDebugSubscriber kid ws s =
     (let subs = nullish (map_of (debugSubscribers s) kid) [] in
      s\<lparr>debugSubscribers := AList.update kid (if ws \<in> set subs then subs else subs @ [ws]) (debugSubscribers s),
        openSockets := ws # openSockets s\<rparr>)"

definition debug_close :: "string \<Rightarrow> nat \<Rightarrow> coordinator \<Rightarrow> coordinator" where
  "debug_close kid ws s =
     (let s0 = s\<lparr>openSockets := filter (\<lambda>w. w \<noteq> ws) (openSockets s)\<rparr>;
          subs = filter (\<lambda>w. w \<noteq> ws) (nullish (map_of (debugSubscribers s0) kid) [])
      in if subs = []
         then snd (sendToKiosk kid (JObj [(''type'', JStr ''terminal-close'')]) True
                (snd (sendToKiosk kid (JObj [(''type'', JStr ''journal-stop'')]) True
                  (s0\<lparr>debugSubscribers := AList.delete kid (debugSubscribers s0)\<rparr>))))
         else s0\<lparr>debugSubscribers := AList.update kid subs (debugSubscribers s0)\<rparr>)"

definition relay_types :: "string list" where
  "relay_types = [''journal-start'', ''journal-stop'', ''terminal-request'', ''terminal-auth'', ''terminal-data'',
                  ''terminal-close'']"

definition admin_message :: "string \<Rightarrow> json \<Rightarrow> coordinator \<Rightarrow> coordinator" where
  "admin_message kid m s =
     (if \<exists>t \<in> set relay_types. msg_type m = JStr t then snd (sendToKiosk kid m True s) else s)"

section \<open>The event loop\<close>

datatype coord_event =
    Connect string string nat bool "power_sample option"
  | Message string nat json
  | Close string string nat
  | Send string json bool
  | Request string json string
  | Timeout string
  | PowerAck string string
  | PowerCancel string
  | Validated "string \<times> nat \<times> string \<times> json" bool
  | Broadcast json
  | PingTick
  | DebugOpen string nat
  | DebugClose string nat
  | AdminMessage string json

fun coord_step :: "number \<Rightarrow> coord_event \<Rightarrow> coordinator \<Rightarrow> coordinator" where
  "coord_step now (Connect kid name ws viewer sample) s = on_connect kid name ws viewer sample now s"
| "coord_step now (Message kid ws m) s = on_message kid ws m now s"
| "coord_step now (Close kid name ws) s = on_close kid name ws now s"
| "coord_step now (Send kid m q) s = snd (sendToKiosk kid m q s)"
| "coord_step now (Request kid m rid) s = requestKiosk kid m rid s"
| "coord_step now (Timeout rid) s = request_timeout rid s"
| "coord_step now (PowerAck kid rid) s = register_power_ack kid rid s"
| "coord_step now (PowerCancel rid) s = cancel_power_ack rid s"
| "coord_step now (Validated v allowed) s = validation_done v allowed s"
| "coord_step now (Broadcast m) s = broadcastAll m s"
| "coord_step now PingTick s = ping_tick now s"
| "coord_step now (DebugOpen kid ws) s = addDebugSubscriber kid ws s"
| "coord_step now (DebugClose kid ws) s = debug_close kid ws s"
| "coord_step now (AdminMessage kid m) s = admin_message kid m s"

fun coord_run :: "(number \<times> coord_event) list \<Rightarrow> coordinator \<Rightarrow> coordinator" where
  "coord_run [] s = s"
| "coord_run ((now, e) # es) s = coord_run es (coord_step now e s)"

definition initial_coordinator :: coordinator where
  "initial_coordinator =
     \<lparr>connectedKiosks = [], pendingRequests = [], offlineQueues = [], debugSubscribers = [],
      powerState = initial_power_state, openSockets = [], brokenSockets = [], validations = [],
      outbox = [], settled = [], forwarded = []\<rparr>"

section \<open>What sending leaves alone\<close>

named_theorems coord_frame \<open>fields an operation does not touch\<close>

lemma transmit_frame [coord_frame]:
  "connectedKiosks (snd (transmit ws m s)) = connectedKiosks s"
  "pendingRequests (snd (transmit ws m s)) = pendingRequests s"
  "settled (snd (transmit ws m s)) = settled s"
  "openSockets (snd (transmit ws m s)) = openSockets s"
  "brokenSockets (snd (transmit ws m s)) = brokenSockets s"
  "debugSubscribers (snd (transmit ws m s)) = debugSubscribers s"
  "validations (snd (transmit ws m s)) = validations s"
  "offlineQueues (snd (transmit ws m s)) = offlineQueues s"
  by (simp_all add: transmit_def)

lemma deliver_frame [coord_frame]:
  "connectedKiosks (snd (deliver_or_queue kid m q s)) = connectedKiosks s"
  "pendingRequests (snd (deliver_or_queue kid m q s)) = pendingRequests s"
  "settled (snd (deliver_or_queue kid m q s)) = settled s"
  "openSockets (snd (deliver_or_queue kid m q s)) = openSockets s"
  "brokenSockets (snd (deliver_or_queue kid m q s)) = brokenSockets s"
  "debugSubscribers (snd (deliver_or_queue kid m q s)) = debugSubscribers s"
  "validations (snd (deliver_or_queue kid m q s)) = validations s"
  by (simp_all add: deliver_or_queue_def coord_frame split: option.split)

lemma send_frame [coord_frame]:
  "connectedKiosks (snd (sendToKiosk kid m q s)) = connectedKiosks s"
  "pendingRequests (snd (sendToKiosk kid m q s)) = pendingRequests s"
  "settled (snd (sendToKiosk kid m q s)) = settled s"
  "openSockets (snd (sendToKiosk kid m q s)) = openSockets s"
  "brokenSockets (snd (sendToKiosk kid m q s)) = brokenSockets s"
  "debugSubscribers (snd (sendToKiosk kid m q s)) = debugSubscribers s"
  by (simp_all add: sendToKiosk_def coord_frame split: option.split)

lemma drain_loop_frame [coord_frame]:
  "connectedKiosks (drain_loop kid ms s) = connectedKiosks s"
  "pendingRequests (drain_loop kid ms s) = pendingRequests s"
  "settled (drain_loop kid ms s) = settled s"
  "openSockets (drain_loop kid ms s) = openSockets s"
  "brokenSockets (drain_loop kid ms s) = brokenSockets s"
  "debugSubscribers (drain_loop kid ms s) = debugSubscribers s"
  by (induction ms arbitrary: s) (simp_all add: coord_frame)

lemma drain_frame [coord_frame]:
  "connectedKiosks (drainOfflineQueue kid s) = connectedKiosks s"
  "pendingRequests (drainOfflineQueue kid s) = pendingRequests s"
  "settled (drainOfflineQueue kid s) = settled s"
  "debugSubscribers (drainOfflineQueue kid s) = debugSubscribers s"
  by (simp_all add: drainOfflineQueue_def Let_def coord_frame)

lemma validation_frame [coord_frame]:
  "connectedKiosks (validation_done v ok s) = connectedKiosks s"
  "pendingRequests (validation_done v ok s) = pendingRequests s"
  "settled (validation_done v ok s) = settled s"
  "debugSubscribers (validation_done v ok s) = debugSubscribers s"
  by (cases v; simp add: validation_done_def Let_def coord_frame)+

lemma relay_frame [coord_frame]:
  "connectedKiosks (relay_loop ws m s) = connectedKiosks s"
  "pendingRequests (relay_loop ws m s) = pendingRequests s"
  "settled (relay_loop ws m s) = settled s"
  "debugSubscribers (relay_loop ws m s) = debugSubscribers s"
  "validations (relay_loop ws m s) = validations s"
  by (induction ws arbitrary: s) (simp_all add: coord_frame)

lemma broadcast_frame [coord_frame]:
  "connectedKiosks (broadcast_loop ks m s) = connectedKiosks s"
  "pendingRequests (broadcast_loop ks m s) = pendingRequests s"
  "settled (broadcast_loop ks m s) = settled s"
  "debugSubscribers (broadcast_loop ks m s) = debugSubscribers s"
  by (induction ks arbitrary: s) (simp_all add: coord_frame)

lemma ping_frame [coord_frame]:
  "connectedKiosks (ping_loop cs m s) = connectedKiosks s"
  "pendingRequests (ping_loop cs m s) = pendingRequests s"
  "settled (ping_loop cs m s) = settled s"
  "debugSubscribers (ping_loop cs m s) = debugSubscribers s"
  "validations (ping_loop cs m s) = validations s"
  by (induction cs arbitrary: s) (simp_all add: coord_frame)

lemma forward_frame [coord_frame]:
  "connectedKiosks (forward t j s) = connectedKiosks s"
  "pendingRequests (forward t j s) = pendingRequests s"
  "settled (forward t j s) = settled s"
  "debugSubscribers (forward t j s) = debugSubscribers s"
  "validations (forward t j s) = validations s"
  "outbox (forward t j s) = outbox s"
  "offlineQueues (forward t j s) = offlineQueues s"
  by (simp_all add: forward_def)

text \<open>Rejecting the requests of a socket.\<close>

lemma reject_loop_frame [coord_frame]:
  "connectedKiosks (reject_loop ws why ps s) = connectedKiosks s"
  "openSockets (reject_loop ws why ps s) = openSockets s"
  "brokenSockets (reject_loop ws why ps s) = brokenSockets s"
  "debugSubscribers (reject_loop ws why ps s) = debugSubscribers s"
  "validations (reject_loop ws why ps s) = validations s"
  "outbox (reject_loop ws why ps s) = outbox s"
  "offlineQueues (reject_loop ws why ps s) = offlineQueues s"
  by (induction ws why ps s rule: reject_loop.induct) (simp_all add: settle_def)

lemma reject_frame [coord_frame]:
  "connectedKiosks (reject_socket ws why s) = connectedKiosks s"
  "openSockets (reject_socket ws why s) = openSockets s"
  "brokenSockets (reject_socket ws why s) = brokenSockets s"
  "debugSubscribers (reject_socket ws why s) = debugSubscribers s"
  "validations (reject_socket ws why s) = validations s"
  "outbox (reject_socket ws why s) = outbox s"
  "offlineQueues (reject_socket ws why s) = offlineQueues s"
  by (simp_all add: reject_socket_def coord_frame)

lemma reject_loop_spec:
  "pendingRequests (reject_loop ws why ps s)
     = filter (\<lambda>x. fst x \<notin> fst ` {y \<in> set ps. pd_socket (snd y) = ws}) (pendingRequests s) \<and>
   settled (reject_loop ws why ps s)
     = settled s @ map (\<lambda>x. (fst x, Rejected why)) (filter (\<lambda>x. pd_socket (snd x) = ws) ps)"
proof (induction ws why ps s rule: reject_loop.induct)
  case (2 ws why rid p ps s)
  show ?case
  proof (cases "pd_socket p = ws")
    case True
    with 2 show ?thesis
      by (auto simp: settle_def AList.delete_eq case_prod_unfold image_iff intro!: filter_cong)
  next
    case False
    with 2 show ?thesis by (auto intro!: filter_cong)
  qed
qed simp

lemma reject_socket_pending:
  assumes "wf_map (pendingRequests s)"
  shows "pendingRequests (reject_socket ws why s)
           = filter (\<lambda>x. pd_socket (snd x) \<noteq> ws) (pendingRequests s)"
proof -
  have "fst x \<in> fst ` {y \<in> set (pendingRequests s). pd_socket (snd y) = ws} \<longleftrightarrow> pd_socket (snd x) = ws"
    if "x \<in> set (pendingRequests s)" for x
    using that assms by (auto simp: distinct_map dest!: inj_onD)
  then show ?thesis
    using reject_loop_spec [of ws why "pendingRequests s" s]
    by (auto simp: reject_socket_def intro!: filter_cong)
qed

lemma reject_socket_settled:
  "settled (reject_socket ws why s) = settled s @
     map (\<lambda>x. (fst x, Rejected why)) (filter (\<lambda>x. pd_socket (snd x) = ws) (pendingRequests s))"
  using reject_loop_spec [of ws why "pendingRequests s" s] by (simp add: reject_socket_def)

section \<open>The request invariant\<close>

text \<open>
  Every pending request waits on the socket now registered for its kiosk; a request
  is settled at most once, and never while it is pending.  \<open>used\<close> holds the ids handed out.
\<close>

definition awaits :: "(string, connection) jsmap \<Rightarrow> pending \<Rightarrow> bool" where
  "awaits m p \<longleftrightarrow> map_option cn_ws (map_of m (pd_kiosk p)) = Some (pd_socket p)"

definition request_inv :: "string set \<Rightarrow> coordinator \<Rightarrow> bool" where
  "request_inv used s \<longleftrightarrow>
     wf_map (connectedKiosks s) \<and> wf_map (pendingRequests s) \<and>
     (\<forall>x \<in> set (pendingRequests s).
        awaits (connectedKiosks s) (snd x)) \<and>
     distinct (map fst (settled s)) \<and>
     fst ` set (settled s) \<inter> fst ` set (pendingRequests s) = {} \<and>
     fst ` set (pendingRequests s) \<union> fst ` set (settled s) \<subseteq> used"

lemma request_inv_cong:
  assumes "request_inv used s" and "connectedKiosks t = connectedKiosks s"
    and "pendingRequests t = pendingRequests s" and "settled t = settled s"
  shows "request_inv used t"
  using assms by (simp add: request_inv_def)

lemma request_inv_mono: "request_inv used s \<Longrightarrow> used \<subseteq> used' \<Longrightarrow> request_inv used' s"
  by (auto simp: request_inv_def)

lemma fst_set_update: "fst ` set (AList.update k v m) = insert k (fst ` set m)"
  using dom_update [of k v m] by (simp add: dom_map_of_conv_image_fst)

lemma fst_set_delete: "fst ` set (AList.delete k m) = fst ` set m - {k}"
  by (auto simp: AList.delete_eq)

lemma settle_inv:
  assumes "request_inv used s" and "rid \<in> fst ` set (pendingRequests s)"
  shows "request_inv used (settle rid r s)"
  using assms set_delete_subset [of rid "pendingRequests s"]
  by (auto simp: request_inv_def settle_def fst_set_delete wf_delete)

lemma delete_pending_inv:
  assumes "request_inv used s"
  shows "request_inv used (s\<lparr>pendingRequests := AList.delete rid (pendingRequests s)\<rparr>)"
  using assms set_delete_subset [of rid "pendingRequests s"]
  by (auto simp: request_inv_def fst_set_delete wf_delete)

lemma add_pending_inv:
  assumes "request_inv used s" and "rid \<notin> used" and "open_connection s kid = Some c"
    and "p = \<lparr>pd_kiosk = kid, pd_socket = cn_ws c, pd_power = b\<rparr>"
  shows "request_inv (insert rid used) (s\<lparr>pendingRequests := AList.update rid p (pendingRequests s)\<rparr>)"
proof -
  have c: "map_of (connectedKiosks s) kid = Some c"
    using assms(3) by (auto simp: open_connection_def split: option.splits if_splits)
  then have "awaits (connectedKiosks s) p" using assms(4) by (simp add: awaits_def)
  then have "\<forall>x \<in> set (AList.update rid p (pendingRequests s)). awaits (connectedKiosks s) (snd x)"
    using assms(1) set_update_subset [of rid p "pendingRequests s"] unfolding request_inv_def by force
  with assms(1,2) show ?thesis
    by (auto simp: request_inv_def fst_set_update wf_set)
qed

lemma requestKiosk_inv:
  assumes "request_inv used s" and "rid \<notin> used"
  shows "request_inv (insert rid used) (requestKiosk kid m rid s)"
proof (cases "open_connection s kid")
  case None
  then show ?thesis using assms by (auto simp: requestKiosk_def request_inv_def)
next
  case (Some c)
  define s1 where "s1 = s\<lparr>pendingRequests := AList.update rid
      \<lparr>pd_kiosk = kid, pd_socket = cn_ws c, pd_power = False\<rparr> (pendingRequests s)\<rparr>"
  have s1: "request_inv (insert rid used) s1"
    unfolding s1_def by (rule add_pending_inv [OF assms Some refl])
  obtain sent s2 where s2: "sendToKiosk kid (with_request_id rid m) False s1 = (sent, s2)" by fastforce
  have frame: "connectedKiosks s2 = connectedKiosks s1" "pendingRequests s2 = pendingRequests s1"
    "settled s2 = settled s1"
    using send_frame [of kid "with_request_id rid m" False s1] by (simp_all add: s2)
  have inv2: "request_inv (insert rid used) s2" by (rule request_inv_cong [OF s1 frame])
  have "rid \<in> fst ` set (pendingRequests s2)" by (simp add: frame s1_def fst_set_update)
  with inv2 settle_inv show ?thesis
    by (cases sent) (simp_all add: requestKiosk_def Some s1_def [symmetric] s2)
qed

lemma reject_socket_inv:
  assumes wf: "wf_map (connectedKiosks s)" "wf_map (pendingRequests s)"
    and set: "distinct (map fst (settled s))" "fst ` set (settled s) \<inter> fst ` set (pendingRequests s) = {}"
      "fst ` set (pendingRequests s) \<union> fst ` set (settled s) \<subseteq> used"
    and own: "\<And>x. x \<in> set (pendingRequests s) \<Longrightarrow> pd_socket (snd x) \<noteq> ws \<Longrightarrow>
        awaits (connectedKiosks s) (snd x)"
  shows "request_inv used (reject_socket ws why s)"
proof -
  have "distinct (map fst (filter (\<lambda>x. pd_socket (snd x) = ws) (pendingRequests s)))"
    using wf(2) by (rule distinct_map_filter)
  then have "distinct (map fst (settled (reject_socket ws why s)))"
    using set(1,2) by (auto simp: reject_socket_settled comp_def)
  moreover have "wf_map (pendingRequests (reject_socket ws why s))"
    using wf(2) by (auto simp: reject_socket_pending intro!: distinct_map_filter)
  moreover have "fst ` set (settled (reject_socket ws why s)) \<inter> fst ` set (pendingRequests (reject_socket ws why s)) = {}"
    using set(2) wf(2) eq_key_imp_eq_value [OF wf(2)]
    by (auto simp: reject_socket_settled reject_socket_pending) blast
  moreover have "fst ` set (pendingRequests (reject_socket ws why s)) \<union> fst ` set (settled (reject_socket ws why s)) \<subseteq> used"
    using set(3) wf(2) by (auto simp: reject_socket_settled reject_socket_pending)
  ultimately show ?thesis
    using wf own unfolding request_inv_def by (auto simp: coord_frame reject_socket_pending)
qed

lemma on_connect_inv:
  assumes inv: "request_inv used s"
  shows "request_inv used (on_connect kid name ws viewer sample now s)"
proof -
  define c where "c = \<lparr>cn_name = name, cn_ws = ws, cn_lastPong = now, cn_viewer = viewer\<rparr>"
  define s1 where "s1 = s\<lparr>connectedKiosks := AList.update kid c (connectedKiosks s),
                 openSockets := ws # openSockets s\<rparr>"
  have wf: "wf_map (connectedKiosks s1)" "wf_map (pendingRequests s1)"
    "distinct (map fst (settled s1))" "fst ` set (settled s1) \<inter> fst ` set (pendingRequests s1) = {}"
    "fst ` set (pendingRequests s1) \<union> fst ` set (settled s1) \<subseteq> used"
    using inv by (simp_all add: s1_def request_inv_def wf_set)
  have own: "awaits (connectedKiosks s1) (snd x)"
    if "x \<in> set (pendingRequests s1)"
      "\<And>p. map_of (connectedKiosks s) kid = Some p \<Longrightarrow> cn_ws p = ws \<or> pd_socket (snd x) \<noteq> cn_ws p" for x
  proof -
    from inv that(1) have a: "awaits (connectedKiosks s) (snd x)" by (auto simp: s1_def request_inv_def)
    show ?thesis
    proof (cases "pd_kiosk (snd x) = kid")
      case True
      with a obtain p where "map_of (connectedKiosks s) kid = Some p" "cn_ws p = pd_socket (snd x)"
        by (auto simp: awaits_def simp del: map_of_eq_Some_iff)
      with that(2) True show ?thesis by (simp add: awaits_def s1_def c_def get_set)
    next
      case False
      with a show ?thesis by (simp add: awaits_def s1_def get_set)
    qed
  qed
  have base: "request_inv used s1"
    if "\<And>x. x \<in> set (pendingRequests s1) \<Longrightarrow> awaits (connectedKiosks s1) (snd x)"
    using wf that by (simp add: request_inv_def)
  define s2 where "s2 = (if viewer then s1\<lparr>powerState := bindPowerSession kid ws sample now (powerState s1)\<rparr>
      else case map_of (connectedKiosks s) kid of
          None \<Rightarrow> s1
        | Some p \<Rightarrow> s1\<lparr>powerState := unbindPowerSession kid (cn_ws p) now (powerState s1)\<rparr>)"
  have s2: "connectedKiosks s2 = connectedKiosks s1" "pendingRequests s2 = pendingRequests s1"
    "settled s2 = settled s1"
    by (simp_all add: s2_def split: option.split)
  define s3 where "s3 = (case map_of (connectedKiosks s) kid of None \<Rightarrow> s2 | Some p \<Rightarrow>
      if cn_ws p \<noteq> ws
      then (reject_socket (cn_ws p) ''kiosk connection replaced'' s2)
             \<lparr>openSockets := filter (\<lambda>w. w \<noteq> cn_ws p) (openSockets s2)\<rparr>
      else s2)"
  have "request_inv used s3"
  proof (cases "map_of (connectedKiosks s) kid")
    case None
    have "request_inv used s1" by (rule base) (rule own, simp_all add: None)
    with s2 None show ?thesis by (auto simp: s3_def intro: request_inv_cong)
  next
    case (Some p)
    show ?thesis
    proof (cases "cn_ws p = ws")
      case True
      have "request_inv used s1" by (rule base) (rule own, use True Some in simp_all)
      with s2 Some True show ?thesis by (auto simp: s3_def intro: request_inv_cong)
    next
      case False
      have "request_inv used (reject_socket (cn_ws p) ''kiosk connection replaced'' s2)"
        by (rule reject_socket_inv) (use wf own Some in \<open>simp_all add: s2\<close>)
      with False Some show ?thesis by (simp add: s3_def request_inv_def)
    qed
  qed
  then show ?thesis
    unfolding on_connect_def Let_def c_def [symmetric] s1_def [symmetric] s2_def [symmetric] s3_def [symmetric]
    by (rule request_inv_cong) (simp_all add: coord_frame)
qed

lemma awaits_delete:
  assumes "awaits m p" and "map_option cn_ws (map_of m kid) = Some ws" and "pd_socket p \<noteq> ws"
  shows "awaits (AList.delete kid m) p"
  using assms by (cases "pd_kiosk p = kid") (simp_all add: awaits_def get_delete)

lemma on_close_inv:
  assumes inv: "request_inv used s"
  shows "request_inv used (on_close kid name ws now s)"
proof -
  define s1 where "s1 = s\<lparr>openSockets := filter (\<lambda>w. w \<noteq> ws) (openSockets s),
                 powerState := unbindPowerSession kid ws now (powerState s)\<rparr>"
  have s1: "request_inv used s1" using inv by (simp add: s1_def request_inv_def)
  show ?thesis
  proof (cases "fst (removeSocket kid ws (connectedKiosks s1))")
    case False
    with s1 show ?thesis
      unfolding on_close_def Let_def s1_def [symmetric] by (auto split: prod.splits bool.splits)
  next
    case True
    then have rm: "removeSocket kid ws (connectedKiosks s1) = (True, AList.delete kid (connectedKiosks s1))"
      and cur: "map_option cn_ws (map_of (connectedKiosks s1) kid) = Some ws"
      by (auto simp: removeSocket_def split: option.splits if_splits)
    have "request_inv used (reject_socket ws ''kiosk disconnected''
        (s1\<lparr>connectedKiosks := AList.delete kid (connectedKiosks s1)\<rparr>))"
      by (rule reject_socket_inv)
        (use s1 cur in \<open>auto simp: request_inv_def wf_delete intro!: awaits_delete\<close>)
    then have "request_inv used (forward t j (reject_socket ws ''kiosk disconnected''
        (s1\<lparr>connectedKiosks := AList.delete kid (connectedKiosks s1)\<rparr>)))" for t j
      by (rule request_inv_cong) (simp_all add: coord_frame)
    with rm show ?thesis unfolding on_close_def Let_def s1_def [symmetric] by simp
  qed
qed

lemma acceptPowerResult_inv:
  assumes "request_inv used s"
    and "\<And>b t. connectedKiosks (f b t) = connectedKiosks t \<and> pendingRequests (f b t) = pendingRequests t
           \<and> settled (f b t) = settled t"
  shows "request_inv used (snd (acceptPowerResult kid ws m f s))"
proof -
  obtain rid where rid: "rid = (case json_get m ''request_id'' of JStr r \<Rightarrow> r | _ \<Rightarrow> [])" by blast
  show ?thesis
  proof (cases "fst (acceptPowerResult kid ws m f s)")
    case False
    then show ?thesis
      using assms(1) by (auto simp: acceptPowerResult_def Let_def split: option.splits json.splits if_splits)
  next
    case True
    then obtain p b where p: "map_of (pendingRequests s) rid = Some p"
      and eq: "snd (acceptPowerResult kid ws m f s) = (let s1 = f b
         (s\<lparr>pendingRequests := AList.delete rid (pendingRequests s)\<rparr>)
         in s1\<lparr>settled := settled s1 @ [(rid, Resolved (JBool b))]\<rparr>)"
      unfolding acceptPowerResult_def Let_def rid [symmetric]
      by (auto split: option.splits json.splits if_splits)
    have "rid \<in> fst ` set (pendingRequests s)" using map_of_SomeD [OF p] by force
    from settle_inv [OF assms(1) this, of "Resolved (JBool b)"] show ?thesis
      unfolding eq Let_def
      by (rule request_inv_cong) (simp_all add: settle_def assms(2))
  qed
qed

lemma pong_ws: "map_option cn_ws (map_of (pong kid ws now m) k) = map_option cn_ws (map_of m k)"
  by (cases "map_of m kid") (simp_all add: pong_def get_set del: map_of_eq_Some_iff)

lemma pong_awaits: "awaits (pong kid ws now m) p = awaits m p"
  by (simp only: awaits_def pong_ws)

lemma pong_wf: "wf_map m \<Longrightarrow> wf_map (pong kid ws now m)"
  by (cases "map_of m kid") (auto simp: pong_def wf_set simp del: map_of_eq_Some_iff)

lemma handle_power_result_inv:
  assumes "request_inv used s"
  shows "request_inv used (handle_power_result kid ws m now s)"
proof -
  obtain ok ps where ok: "powerSampleAllowed kid (readPowerSample m) now (powerState s) = (ok, ps)"
    by fastforce
  have "request_inv used (s\<lparr>powerState := ps\<rparr>)" by (rule request_inv_cong [OF assms]) simp_all
  with assms show ?thesis
    unfolding handle_power_result_def Let_def ok
    by (cases ok) (auto intro!: acceptPowerResult_inv)
qed

lemma handle_response_inv:
  assumes "request_inv used s"
  shows "request_inv used (handle_response kid ws m s)"
proof -
  have "request_inv used (settle rid r s)" if "map_of (pendingRequests s) rid = Some p" for rid r p
    by (rule settle_inv [OF assms]) (use map_of_SomeD [OF that] in force)
  with assms show ?thesis
    by (auto simp: handle_response_def Let_def simp del: map_of_eq_Some_iff split: option.split)
qed

lemma on_message_inv:
  assumes "request_inv used s"
  shows "request_inv used (on_message kid ws m now s)"
proof (cases "map_of (connectedKiosks s) kid")
  case None
  then show ?thesis using assms by (simp add: on_message_def)
next
  case (Some c)
  have "request_inv used (s\<lparr>connectedKiosks := pong kid ws now (connectedKiosks s)\<rparr>)"
    using assms by (simp add: request_inv_def pong_awaits pong_wf)
  moreover have "request_inv used (relayToDebugSubscribers kid m s)"
    unfolding relayToDebugSubscribers_def by (rule request_inv_cong [OF assms]) (simp_all add: coord_frame)
  moreover have "request_inv used (forward t j (forward t' j' s))" for t j t' j'
    by (rule request_inv_cong [OF assms]) (simp_all add: coord_frame)
  ultimately show ?thesis
    using assms Some
    by (simp add: on_message_def handle_power_result_inv handle_response_inv)
qed

fun event_requests :: "coord_event \<Rightarrow> string list" where
  "event_requests (Request _ _ rid) = [rid]"
| "event_requests (PowerAck _ rid) = [rid]"
| "event_requests _ = []"

lemma coord_step_request_inv:
  assumes inv: "request_inv used s" and fresh: "set (event_requests e) \<inter> used = {}"
  shows "request_inv (used \<union> set (event_requests e)) (coord_step now e s)"
proof -
  have same: "request_inv used t"
    if "connectedKiosks t = connectedKiosks s" "pendingRequests t = pendingRequests s"
      "settled t = settled s" for t
    by (rule request_inv_cong [OF inv that])
  show ?thesis
  proof (cases e)
    case (Request kid m rid)
    with inv fresh requestKiosk_inv show ?thesis by (simp add: insert_absorb)
  next
    case (PowerAck kid rid)
    show ?thesis
    proof (cases "open_connection s kid")
      case None
      with PowerAck request_inv_mono [OF inv, of "insert rid used"] show ?thesis
        by (simp add: register_power_ack_def subset_insertI)
    next
      case (Some c)
      with PowerAck fresh add_pending_inv [OF inv _ Some refl] show ?thesis
        by (simp add: register_power_ack_def)
    qed
  next
    case (Timeout rid)
    show ?thesis
    proof (cases "map_of (pendingRequests s) rid")
      case None
      with Timeout inv show ?thesis by (simp add: request_timeout_def)
    next
      case (Some p)
      have "rid \<in> fst ` set (pendingRequests s)" using map_of_SomeD [OF Some] by force
      with Timeout Some settle_inv [OF inv] show ?thesis by (simp add: request_timeout_def)
    qed
  qed (simp_all add: inv on_connect_inv on_message_inv on_close_inv cancel_power_ack_def
      delete_pending_inv same coord_frame broadcastAll_def ping_tick_def Let_def addDebugSubscriber_def
      debug_close_def admin_message_def)
qed

definition run_requests :: "(number \<times> coord_event) list \<Rightarrow> string list" where
  "run_requests es = concat (map (event_requests \<circ> snd) es)"

lemma coord_run_request_inv:
  assumes "request_inv used s" and "distinct (run_requests es)" and "set (run_requests es) \<inter> used = {}"
  shows "request_inv (used \<union> set (run_requests es)) (coord_run es s)"
  using assms
proof (induction es arbitrary: used s)
  case Nil
  then show ?case by (simp add: run_requests_def)
next
  case (Cons x es)
  obtain now e where x: "x = (now, e)" by (cases x)
  have step: "request_inv (used \<union> set (event_requests e)) (coord_step now e s)"
    by (rule coord_step_request_inv) (use Cons.prems x in \<open>auto simp: run_requests_def\<close>)
  have "set (run_requests es) \<inter> (used \<union> set (event_requests e)) = {}"
    using Cons.prems x by (auto simp: run_requests_def)
  with Cons.IH [OF step] Cons.prems(2) x show ?case
    by (simp add: run_requests_def Un_assoc)
qed

lemma initial_request_inv: "request_inv {} initial_coordinator"
  by (simp add: request_inv_def initial_coordinator_def)

section \<open>What an Android viewer receives\<close>

definition viewer_message_ok :: "(string \<times> nat \<times> string \<times> json) set \<Rightarrow> nat \<Rightarrow> json \<Rightarrow> bool" where
  "viewer_message_ok A ws m \<longleftrightarrow>
     (\<exists>w \<in> {''reload-bundle'', ''ping'', ''connected''}. string_is (msg_type m) w) \<or>
     (msg_type m = JStr ''layout-switch'' \<and>
      (\<exists>kid l. json_get m ''layout_id'' = JStr l \<and> (kid, ws, l, m) \<in> A))"

text \<open>
  \<open>V\<close> is the set of viewer sockets, \<open>A\<close> the set of layout switches whose assignment check
  succeeded.
\<close>

definition viewer_inv :: "nat set \<Rightarrow> (string \<times> nat \<times> string \<times> json) set \<Rightarrow> coordinator \<Rightarrow> bool" where
  "viewer_inv V A s \<longleftrightarrow>
     (\<forall>x \<in> set (connectedKiosks s). cn_viewer (snd x) \<longleftrightarrow> cn_ws (snd x) \<in> V) \<and>
     (\<forall>x \<in> set (debugSubscribers s). set (snd x) \<inter> V = {}) \<and>
     (\<forall>(kid, ws, l, m) \<in> set (validations s).
        msg_type m = JStr ''layout-switch'' \<and> json_get m ''layout_id'' = JStr l) \<and>
     (\<forall>x \<in> set (outbox s). fst x \<in> V \<longrightarrow> viewer_message_ok A (fst x) (snd x))"

lemma viewer_inv_cong:
  assumes "viewer_inv V A s" and "connectedKiosks t = connectedKiosks s"
    and "debugSubscribers t = debugSubscribers s" and "validations t = validations s"
    and "outbox t = outbox s"
  shows "viewer_inv V A t"
  using assms by (simp add: viewer_inv_def)

lemma viewer_connection:
  assumes "viewer_inv V A s" and "map_of (connectedKiosks s) kid = Some c"
  shows "cn_viewer c \<longleftrightarrow> cn_ws c \<in> V"
  using assms map_of_SomeD [OF assms(2)] by (fastforce simp: viewer_inv_def)

lemma debug_subscribers_disjoint:
  assumes "viewer_inv V A s"
  shows "set (nullish (map_of (debugSubscribers s) kid) []) \<inter> V = {}"
proof (cases "map_of (debugSubscribers s) kid")
  case (Some subs)
  have "\<forall>x \<in> set (debugSubscribers s). set (snd x) \<inter> V = {}"
    using assms unfolding viewer_inv_def by blast
  from bspec [OF this map_of_SomeD [OF Some]] Some show ?thesis by simp
qed simp

lemma transmit_viewer:
  assumes "viewer_inv V A s" and "ws \<in> V \<Longrightarrow> viewer_message_ok A ws m"
  shows "viewer_inv V A (snd (transmit ws m s))"
  using assms by (auto simp: viewer_inv_def transmit_def)

lemma deliver_viewer:
  assumes "viewer_inv V A s"
    and "\<And>c. map_of (connectedKiosks s) kid = Some c \<Longrightarrow> cn_ws c \<in> V \<Longrightarrow> viewer_message_ok A (cn_ws c) m"
  shows "viewer_inv V A (snd (deliver_or_queue kid m q s))"
proof (cases "open_connection s kid")
  case None
  then show ?thesis
    using assms(1) by (auto simp: deliver_or_queue_def intro: viewer_inv_cong)
next
  case (Some c)
  then have "map_of (connectedKiosks s) kid = Some c"
    by (simp add: open_connection_def split: option.splits if_splits)
  with Some assms show ?thesis by (simp add: deliver_or_queue_def transmit_viewer)
qed

lemma command_allowed_cases:
  assumes "androidViewerCommandAllowed m (Some [layout_id_of m]) None"
  shows "(\<exists>w \<in> {''reload-bundle'', ''ping'', ''connected''}. string_is (msg_type m) w) \<or>
         (msg_type m = JStr ''layout-switch'' \<and> json_get m ''layout_id'' = JStr (layout_id_of m))"
  using assms
  by (auto simp: androidViewerCommandAllowed_def layout_id_of_def split: if_splits json.splits)

lemma send_viewer:
  assumes inv: "viewer_inv V A s"
  shows "viewer_inv V A (snd (sendToKiosk kid m q s))"
proof (cases "map_of (connectedKiosks s) kid")
  case None
  then have "viewer_inv V A (snd (deliver_or_queue kid m q s))" by (intro deliver_viewer [OF inv]) simp
  with None inv show ?thesis by (simp add: sendToKiosk_def)
next
  case (Some c)
  note v = viewer_connection [OF inv Some]
  show ?thesis
  proof (cases "cn_viewer c")
    case False
    with v Some inv deliver_viewer [OF inv, of kid m q] show ?thesis by (simp add: sendToKiosk_def)
  next
    case True
    show ?thesis
    proof (cases "is_power_type m \<or> \<not> androidViewerCommandAllowed m (Some [layout_id_of m]) None")
      case True
      with Some inv \<open>cn_viewer c\<close> show ?thesis by (auto simp: sendToKiosk_def)
    next
      case False
      then have "viewer_message_ok A (cn_ws c) m" if "msg_type m \<noteq> JStr ''layout-switch''"
        using command_allowed_cases that by (auto simp: viewer_message_ok_def)
      moreover have "viewer_inv V A (s\<lparr>validations := validations s @ [(kid, cn_ws c, layout_id_of m, m)]\<rparr>)"
        if "msg_type m = JStr ''layout-switch''"
      proof -
        have "json_get m ''layout_id'' = JStr (layout_id_of m)"
          using False command_allowed_cases [of m] that by auto
        with inv that show ?thesis by (auto simp: viewer_inv_def)
      qed
      ultimately show ?thesis
        using Some False True inv deliver_viewer [OF inv, of kid m q] by (auto simp: sendToKiosk_def)
    qed
  qed
qed

lemma drain_loop_viewer: "viewer_inv V A s \<Longrightarrow> viewer_inv V A (drain_loop kid ms s)"
  by (induction ms arbitrary: s) (simp_all add: send_viewer)

lemma drain_viewer: "viewer_inv V A s \<Longrightarrow> viewer_inv V A (drainOfflineQueue kid s)"
  by (auto simp: drainOfflineQueue_def Let_def
      intro!: viewer_inv_cong [OF drain_loop_viewer [of V A s kid "nullish (map_of (offlineQueues s) kid) []"]])

lemma broadcast_viewer: "viewer_inv V A s \<Longrightarrow> viewer_inv V A (broadcast_loop ks m s)"
  by (induction ks arbitrary: s) (simp_all add: send_viewer)

lemma validation_viewer:
  assumes inv: "viewer_inv V A s" and "ok \<Longrightarrow> v \<in> A"
  shows "viewer_inv V A (validation_done v ok s)"
proof -
  obtain kid ws l m where v: "v = (kid, ws, l, m)" by (cases v)
  define s1 where "s1 = s\<lparr>validations := remove1 v (validations s)\<rparr>"
  have s1: "viewer_inv V A s1"
    using inv set_remove1_subset [of v "validations s"] by (auto simp: s1_def viewer_inv_def)
  have "viewer_message_ok A ws m" if "v \<in> set (validations s)" ok
  proof -
    from inv that(1) have "msg_type m = JStr ''layout-switch'' \<and> json_get m ''layout_id'' = JStr l"
      unfolding viewer_inv_def v by blast
    with assms(2) that(2) show ?thesis unfolding viewer_message_ok_def v by blast
  qed
  with s1 transmit_viewer [OF s1, of ws m] show ?thesis
    by (simp add: validation_done_def v Let_def flip: s1_def [unfolded v])
qed

lemma relay_viewer:
  assumes "viewer_inv V A s" and "set ws \<inter> V = {}"
  shows "viewer_inv V A (relay_loop ws m s)"
  using assms
proof (induction ws arbitrary: s)
  case (Cons w ws)
  then have "viewer_inv V A (if w \<in> set (openSockets s) then snd (transmit w m s) else s)"
    by (auto intro!: transmit_viewer)
  with Cons show ?case by simp
qed simp

lemma ping_viewer:
  assumes "viewer_inv V A s" and "string_is (msg_type m) ''ping''"
  shows "viewer_inv V A (ping_loop cs m s)"
  using assms
proof (induction cs arbitrary: s)
  case (Cons c cs)
  then have "viewer_inv V A (if cn_ws c \<in> set (openSockets s) then snd (transmit (cn_ws c) m s) else s)"
    by (auto intro!: transmit_viewer simp: viewer_message_ok_def)
  with Cons show ?case by simp
qed simp

lemma acceptPowerResult_viewer:
  assumes "viewer_inv V A s"
    and "\<And>b t. connectedKiosks (f b t) = connectedKiosks t \<and> debugSubscribers (f b t) = debugSubscribers t
           \<and> validations (f b t) = validations t \<and> outbox (f b t) = outbox t"
  shows "viewer_inv V A (snd (acceptPowerResult kid ws m f s))"
  using assms
  by (auto simp: acceptPowerResult_def Let_def intro!: viewer_inv_cong [OF assms(1)]
      split: option.split json.split)

lemma handle_power_result_viewer:
  assumes "viewer_inv V A s"
  shows "viewer_inv V A (handle_power_result kid ws m now s)"
proof -
  obtain ok ps where ok: "powerSampleAllowed kid (readPowerSample m) now (powerState s) = (ok, ps)"
    by fastforce
  have "viewer_inv V A (s\<lparr>powerState := ps\<rparr>)" by (rule viewer_inv_cong [OF assms]) simp_all
  with assms show ?thesis
    unfolding handle_power_result_def Let_def ok
    by (cases ok) (auto intro!: acceptPowerResult_viewer)
qed

lemma settle_viewer: "viewer_inv V A s \<Longrightarrow> viewer_inv V A (settle rid r s)"
  by (rule viewer_inv_cong) (simp_all add: settle_def)

lemma update_connection_viewer:
  assumes "viewer_inv V A s" and "cn_viewer c \<longleftrightarrow> cn_ws c \<in> V"
  shows "viewer_inv V A (s\<lparr>connectedKiosks := AList.update kid c (connectedKiosks s)\<rparr>)"
  using assms set_update_subset [of kid c "connectedKiosks s"] unfolding viewer_inv_def by fastforce

lemma on_message_viewer:
  assumes inv: "viewer_inv V A s"
  shows "viewer_inv V A (on_message kid ws m now s)"
proof (cases "map_of (connectedKiosks s) kid")
  case None
  then show ?thesis using inv by (simp add: on_message_def)
next
  case (Some c)
  have "viewer_inv V A (s\<lparr>connectedKiosks := pong kid ws now (connectedKiosks s)\<rparr>)"
    using inv update_connection_viewer [OF inv, of "c\<lparr>cn_lastPong := now\<rparr>" kid]
      viewer_connection [OF inv Some]
    by (simp add: pong_def Some)
  moreover have "viewer_inv V A (relayToDebugSubscribers kid m s)"
  proof -
    have "set (nullish (map_of (debugSubscribers s) kid) []) \<inter> V = {}"
      by (rule debug_subscribers_disjoint [OF inv])
    then show ?thesis unfolding relayToDebugSubscribers_def by (rule relay_viewer [OF inv])
  qed
  moreover have "viewer_inv V A (forward t j (forward t' j' s))" for t j t' j'
    by (rule viewer_inv_cong [OF inv]) (simp_all add: coord_frame)
  moreover have "viewer_inv V A (handle_response kid ws m s)"
    using inv settle_viewer [OF inv] by (simp add: handle_response_def Let_def split: option.split)
  ultimately show ?thesis
    using inv Some by (simp add: on_message_def handle_power_result_viewer)
qed

lemma on_connect_viewer:
  assumes inv: "viewer_inv V A s" and ws: "viewer \<longleftrightarrow> ws \<in> V"
  shows "viewer_inv V A (on_connect kid name ws viewer sample now s)"
proof -
  define c where "c = \<lparr>cn_name = name, cn_ws = ws, cn_lastPong = now, cn_viewer = viewer\<rparr>"
  define s1 where "s1 = s\<lparr>connectedKiosks := AList.update kid c (connectedKiosks s),
                 openSockets := ws # openSockets s\<rparr>"
  have "viewer_inv V A (s\<lparr>connectedKiosks := AList.update kid c (connectedKiosks s)\<rparr>)"
    by (rule update_connection_viewer [OF inv]) (simp add: c_def ws)
  then have s1: "viewer_inv V A s1" by (rule viewer_inv_cong) (simp_all add: s1_def)
  define s2 where "s2 = (if viewer then s1\<lparr>powerState := bindPowerSession kid ws sample now (powerState s1)\<rparr>
      else case map_of (connectedKiosks s) kid of
          None \<Rightarrow> s1
        | Some p \<Rightarrow> s1\<lparr>powerState := unbindPowerSession kid (cn_ws p) now (powerState s1)\<rparr>)"
  have s2: "viewer_inv V A s2"
    by (rule viewer_inv_cong [OF s1]) (simp_all add: s2_def split: option.split)
  define s3 where "s3 = (case map_of (connectedKiosks s) kid of None \<Rightarrow> s2 | Some p \<Rightarrow>
      if cn_ws p \<noteq> ws
      then (reject_socket (cn_ws p) ''kiosk connection replaced'' s2)
             \<lparr>openSockets := filter (\<lambda>w. w \<noteq> cn_ws p) (openSockets s2)\<rparr>
      else s2)"
  have "viewer_inv V A s3"
    by (rule viewer_inv_cong [OF s2]) (simp_all add: s3_def coord_frame split: option.split)
  then have "viewer_inv V A (snd (transmit ws (JObj [(''type'', JStr ''connected''), (''kiosk_id'', JStr kid)]) s3))"
    by (rule transmit_viewer) (simp add: viewer_message_ok_def)
  then have "viewer_inv V A (drainOfflineQueue kid
      (snd (transmit ws (JObj [(''type'', JStr ''connected''), (''kiosk_id'', JStr kid)]) s3)))"
    by (rule drain_viewer)
  then show ?thesis
    unfolding on_connect_def Let_def c_def [symmetric] s1_def [symmetric] s2_def [symmetric] s3_def [symmetric]
    by (rule viewer_inv_cong) (simp_all add: coord_frame)
qed

lemma on_close_viewer:
  assumes inv: "viewer_inv V A s"
  shows "viewer_inv V A (on_close kid name ws now s)"
proof -
  define s1 where "s1 = s\<lparr>openSockets := filter (\<lambda>w. w \<noteq> ws) (openSockets s),
                 powerState := unbindPowerSession kid ws now (powerState s)\<rparr>"
  have s1: "viewer_inv V A s1" by (rule viewer_inv_cong [OF inv]) (simp_all add: s1_def)
  obtain b m where rm: "removeSocket kid ws (connectedKiosks s1) = (b, m)" by fastforce
  then have "set m \<subseteq> set (connectedKiosks s1)"
    using set_delete_subset [of kid "connectedKiosks s1"]
    by (auto simp: removeSocket_def split: option.splits if_splits)
  with s1 have "viewer_inv V A (s1\<lparr>connectedKiosks := m\<rparr>)" unfolding viewer_inv_def by (simp; blast)
  then have "viewer_inv V A (forward t j (reject_socket ws why (s1\<lparr>connectedKiosks := m\<rparr>)))" for t j why
    by (rule viewer_inv_cong) (simp_all add: coord_frame)
  with s1 rm show ?thesis unfolding on_close_def Let_def s1_def [symmetric] by (cases b) simp_all
qed

fun event_ok :: "nat set \<Rightarrow> (string \<times> nat \<times> string \<times> json) set \<Rightarrow> coord_event \<Rightarrow> bool" where
  "event_ok V A (Connect kid name ws viewer sample) \<longleftrightarrow> (viewer \<longleftrightarrow> ws \<in> V)"
| "event_ok V A (DebugOpen kid ws) \<longleftrightarrow> ws \<notin> V"
| "event_ok V A (Validated v allowed) \<longleftrightarrow> (allowed \<longrightarrow> v \<in> A)"
| "event_ok V A _ \<longleftrightarrow> True"

lemma debug_update_viewer:
  assumes "viewer_inv V A s" and "set subs \<inter> V = {}"
  shows "viewer_inv V A (s\<lparr>debugSubscribers := AList.update kid subs (debugSubscribers s)\<rparr>)"
  using assms set_update_subset [of kid subs "debugSubscribers s"] unfolding viewer_inv_def by fastforce

lemma requestKiosk_viewer:
  assumes inv: "viewer_inv V A s"
  shows "viewer_inv V A (requestKiosk kid m rid s)"
proof (cases "open_connection s kid")
  case None
  have "viewer_inv V A (s\<lparr>settled := settled s @ [(rid, Rejected ''kiosk is not connected'')]\<rparr>)"
    by (rule viewer_inv_cong [OF inv]) simp_all
  with None show ?thesis by (simp add: requestKiosk_def)
next
  case (Some c)
  define s1 where "s1 = s\<lparr>pendingRequests := AList.update rid
      \<lparr>pd_kiosk = kid, pd_socket = cn_ws c, pd_power = False\<rparr> (pendingRequests s)\<rparr>"
  have "viewer_inv V A s1" by (rule viewer_inv_cong [OF inv]) (simp_all add: s1_def)
  then have sent: "viewer_inv V A (snd (sendToKiosk kid (with_request_id rid m) False s1))"
    by (rule send_viewer)
  obtain b s2 where s2: "sendToKiosk kid (with_request_id rid m) False s1 = (b, s2)" by fastforce
  with sent have "viewer_inv V A s2" by simp
  then show ?thesis
    by (cases b) (simp_all add: requestKiosk_def Some s1_def [symmetric] s2 settle_viewer)
qed

lemma coord_step_viewer:
  assumes inv: "viewer_inv V A s" and ok: "event_ok V A e"
  shows "viewer_inv V A (coord_step now e s)"
proof (cases e)
  case (Timeout rid)
  with inv settle_viewer [OF inv] show ?thesis
    by (simp add: request_timeout_def split: option.split)
next
  case (PowerAck kid rid)
  have "viewer_inv V A (s\<lparr>pendingRequests := x\<rparr>)" for x by (rule viewer_inv_cong [OF inv]) simp_all
  with inv PowerAck show ?thesis by (simp add: register_power_ack_def split: option.split)
next
  case (PowerCancel rid)
  have "viewer_inv V A (s\<lparr>pendingRequests := x\<rparr>)" for x by (rule viewer_inv_cong [OF inv]) simp_all
  with PowerCancel show ?thesis by (simp add: cancel_power_ack_def)
next
  case PingTick
  have "viewer_inv V A (s\<lparr>openSockets := x\<rparr>)" for x by (rule viewer_inv_cong [OF inv]) simp_all
  with PingTick ping_viewer show ?thesis by (simp add: ping_tick_def Let_def)
next
  case (DebugOpen kid ws)
  let ?subs = "nullish (map_of (debugSubscribers s) kid) []"
  have "set (if ws \<in> set ?subs then ?subs else ?subs @ [ws]) \<inter> V = {}"
    using debug_subscribers_disjoint [OF inv, of kid] ok DebugOpen by auto
  from viewer_inv_cong [OF debug_update_viewer [OF inv this, of kid]] DebugOpen show ?thesis
    by (simp add: addDebugSubscriber_def Let_def)
next
  case (DebugClose kid ws)
  define s0 where "s0 = s\<lparr>openSockets := filter (\<lambda>w. w \<noteq> ws) (openSockets s)\<rparr>"
  have s0: "viewer_inv V A s0" by (rule viewer_inv_cong [OF inv]) (simp_all add: s0_def)
  have d: "set (filter (\<lambda>w. w \<noteq> ws) (nullish (map_of (debugSubscribers s0) kid) [])) \<inter> V = {}"
    using debug_subscribers_disjoint [OF s0, of kid] by auto
  have "viewer_inv V A (s0\<lparr>debugSubscribers := AList.delete kid (debugSubscribers s0)\<rparr>)"
    using s0 set_delete_subset [of kid "debugSubscribers s0"] unfolding viewer_inv_def by fastforce
  with DebugClose debug_update_viewer [OF s0 d] show ?thesis
    by (simp add: debug_close_def Let_def send_viewer flip: s0_def)
next
  case (Validated v allowed)
  with ok validation_viewer [OF inv] show ?thesis by simp
qed (use inv ok in \<open>simp_all add: on_connect_viewer on_message_viewer on_close_viewer send_viewer
      requestKiosk_viewer broadcastAll_def broadcast_viewer admin_message_def\<close>)

lemma coord_run_viewer:
  assumes "viewer_inv V A s" and "\<forall>x \<in> set es. event_ok V A (snd x)"
  shows "viewer_inv V A (coord_run es s)"
  using assms
proof (induction es arbitrary: s)
  case (Cons x es)
  then show ?case by (cases x) (simp add: coord_step_viewer)
qed simp

lemma acceptPowerResult_cases:
  obtains "snd (acceptPowerResult kid ws m f t) = t"
  | rid p b where "map_of (pendingRequests t) rid = Some p" and "pd_kiosk p = kid" and "pd_socket p = ws"
      and "pd_power p" and "snd (acceptPowerResult kid ws m f t) = (let s1 = f b
         (t\<lparr>pendingRequests := AList.delete rid (pendingRequests t)\<rparr>)
         in s1\<lparr>settled := settled s1 @ [(rid, Resolved (JBool b))]\<rparr>)"
proof -
  define rid where "rid = (case json_get m ''request_id'' of JStr r \<Rightarrow> r | _ \<Rightarrow> [])"
  show thesis
  proof (cases "\<exists>p b. map_of (pendingRequests t) rid = Some p \<and> json_get m ''accepted'' = JBool b \<and>
      msg_type m = JStr ''power-result'' \<and> pd_power p \<and> pd_kiosk p = kid \<and> pd_socket p = ws")
    case True
    then obtain p b where "map_of (pendingRequests t) rid = Some p" "json_get m ''accepted'' = JBool b"
      "msg_type m = JStr ''power-result''" "pd_power p" "pd_kiosk p = kid" "pd_socket p = ws" by blast
    then show thesis
      by (intro that(2) [of rid p b]) (simp_all add: acceptPowerResult_def rid_def [symmetric])
  next
    case False
    then have "snd (acceptPowerResult kid ws m f t) = t"
      unfolding acceptPowerResult_def Let_def rid_def [symmetric]
      by (cases "map_of (pendingRequests t) rid"; cases "json_get m ''accepted''") auto
    then show thesis by (rule that(1))
  qed
qed

section \<open>Offline delivery\<close>

abbreviation queue_of :: "coordinator \<Rightarrow> string \<Rightarrow> json list" where
  "queue_of s kid \<equiv> nullish (map_of (offlineQueues s) kid) []"

fun send_all :: "string \<Rightarrow> json list \<Rightarrow> coordinator \<Rightarrow> coordinator" where
  "send_all kid [] s = s"
| "send_all kid (m # ms) s = send_all kid ms (snd (sendToKiosk kid m True s))"

lemma send_offline:
  assumes "map_of (connectedKiosks s) kid = None" and "\<not> is_power_type m"
  shows "snd (sendToKiosk kid m True s)
           = s\<lparr>offlineQueues := AList.update kid (queue_push m (queue_of s kid)) (offlineQueues s)\<rparr>"
  using assms by (simp add: sendToKiosk_def deliver_or_queue_def open_connection_def)

lemma queue_push_drop:
  assumes "length q \<le> MESSAGE_QUEUE_CAP"
  shows "queue_push m q = drop (length (q @ [m]) - MESSAGE_QUEUE_CAP) (q @ [m])"
proof (cases "length q = MESSAGE_QUEUE_CAP")
  case True
  then show ?thesis by (cases q) (simp_all add: queue_push_def MESSAGE_QUEUE_CAP_def)
next
  case False
  with assms show ?thesis by (simp add: queue_push_def)
qed

lemma drop_drop_snoc:
  "drop (length (drop (length xs - c) xs @ ys) - c) (drop (length xs - c) xs @ ys)
           = drop (length (xs @ ys) - c) (xs @ ys)"
  by (cases "length xs \<le> c") (simp_all add: drop_drop add.commute)

lemma send_all_offline:
  assumes "map_of (connectedKiosks s) kid = None" and "list_all (\<lambda>m. \<not> is_power_type m) ms"
    and "length (queue_of s kid) \<le> MESSAGE_QUEUE_CAP"
  shows "queue_of (send_all kid ms s) kid
           = drop (length (queue_of s kid @ ms) - MESSAGE_QUEUE_CAP) (queue_of s kid @ ms)
         \<and> connectedKiosks (send_all kid ms s) = connectedKiosks s
         \<and> outbox (send_all kid ms s) = outbox s \<and> brokenSockets (send_all kid ms s) = brokenSockets s
         \<and> pendingRequests (send_all kid ms s) = pendingRequests s"
  using assms
proof (induction ms arbitrary: s)
  case Nil
  then show ?case by simp
next
  case (Cons m ms)
  define s1 where "s1 = snd (sendToKiosk kid m True s)"
  have eq: "s1 = s\<lparr>offlineQueues := AList.update kid (queue_push m (queue_of s kid)) (offlineQueues s)\<rparr>"
    using Cons.prems by (simp add: s1_def send_offline)
  have q: "queue_of s1 kid = drop (length (queue_of s kid @ [m]) - MESSAGE_QUEUE_CAP) (queue_of s kid @ [m])"
    using Cons.prems(3) by (simp add: eq get_set queue_push_drop)
  have "length (queue_of s1 kid) \<le> MESSAGE_QUEUE_CAP" by (simp add: q)
  from Cons.IH [of s1, OF _ _ this] Cons.prems
  have "queue_of (send_all kid ms s1) kid
      = drop (length (queue_of s1 kid @ ms) - MESSAGE_QUEUE_CAP) (queue_of s1 kid @ ms)
      \<and> connectedKiosks (send_all kid ms s1) = connectedKiosks s
      \<and> outbox (send_all kid ms s1) = outbox s \<and> brokenSockets (send_all kid ms s1) = brokenSockets s
      \<and> pendingRequests (send_all kid ms s1) = pendingRequests s"
    by (simp add: eq)
  then show ?case
    unfolding send_all.simps s1_def [symmetric] q
    using drop_drop_snoc [of "queue_of s kid @ [m]" MESSAGE_QUEUE_CAP ms]
    by simp
qed

lemma drain_loop_delivers:
  assumes "map_of (connectedKiosks s) kid = Some c" and "\<not> cn_viewer c" and "cn_ws c \<in> set (openSockets s)"
    and "cn_ws c \<notin> set (brokenSockets s)" and "list_all (\<lambda>m. \<not> is_power_type m) ms"
  shows "outbox (drain_loop kid ms s) = outbox s @ map (Pair (cn_ws c)) ms"
  using assms
proof (induction ms arbitrary: s)
  case (Cons m ms)
  have "snd (sendToKiosk kid m False s) = s\<lparr>outbox := outbox s @ [(cn_ws c, m)]\<rparr>"
    using Cons.prems
    by (simp add: sendToKiosk_def deliver_or_queue_def open_connection_def transmit_def)
  with Cons show ?case by simp
qed simp

section \<open>Properties\<close>


text \<open>
  (C23) Responses are bound to kiosk and socket: whatever message a socket sends, a request
  made to another kiosk, or over another socket, stays pending and is not settled.
\<close>

theorem response_isolated:
  assumes "map_of (pendingRequests s) rid = Some p" and "pd_kiosk p \<noteq> kid \<or> pd_socket p \<noteq> ws"
  shows "map_of (pendingRequests (on_message kid ws m now s)) rid = Some p \<and>
         filter (\<lambda>x. fst x = rid) (settled (on_message kid ws m now s))
           = filter (\<lambda>x. fst x = rid) (settled s)"
proof -
  have other: "rid' \<noteq> rid" if "map_of (pendingRequests s) rid' = Some p'" "pd_kiosk p' = kid" "pd_socket p' = ws"
    for rid' p'
    using that assms by auto
  have resp: "map_of (pendingRequests (handle_response kid ws m s)) rid = Some p \<and>
      filter (\<lambda>x. fst x = rid) (settled (handle_response kid ws m s)) = filter (\<lambda>x. fst x = rid) (settled s)"
    using assms(1) other
    by (auto simp: handle_response_def settle_def Let_def get_delete simp del: map_of_eq_Some_iff split: option.split)
  obtain ok ps where ok: "powerSampleAllowed kid (readPowerSample m) now (powerState s) = (ok, ps)"
    by fastforce
  have acc: "map_of (pendingRequests (snd (acceptPowerResult kid ws m f t))) rid = Some p \<and>
      filter (\<lambda>x. fst x = rid) (settled (snd (acceptPowerResult kid ws m f t))) = filter (\<lambda>x. fst x = rid) (settled s)"
    if t: "pendingRequests t = pendingRequests s" "settled t = settled s"
      and f: "\<And>b u. pendingRequests (f b u) = pendingRequests u \<and> settled (f b u) = settled u" for f t
  proof (cases rule: acceptPowerResult_cases [of kid ws m f t])
    case 1
    with t assms(1) show ?thesis by simp
  next
    case (2 rid' p' b)
    with other t have "rid' \<noteq> rid" by auto
    with 2 t f assms(1) show ?thesis by (simp add: Let_def get_delete)
  qed
  have "map_of (pendingRequests (handle_power_result kid ws m now s)) rid = Some p \<and>
      filter (\<lambda>x. fst x = rid) (settled (handle_power_result kid ws m now s)) = filter (\<lambda>x. fst x = rid) (settled s)"
    using assms(1) acc [of "s\<lparr>powerState := ps\<rparr>"] unfolding handle_power_result_def Let_def ok
    by (cases ok) simp_all
  with resp assms(1) show ?thesis
    by (cases "map_of (connectedKiosks s) kid")
      (simp_all add: on_message_def relayToDebugSubscribers_def coord_frame del: map_of_eq_Some_iff)
qed


text \<open>
  Offline delivery is first in, first out and bounded: of the messages sent to a
  kiosk while it is away the last hundred are kept, in order, and when the kiosk connects
  it receives the greeting followed by exactly these messages in that order, after which
  its queue is empty.
\<close>

theorem offline_queue_delivery:
  assumes "map_of (connectedKiosks s) kid = None" and "map_of (offlineQueues s) kid = None"
    and "list_all (\<lambda>m. \<not> is_power_type m) ms" and "ws \<notin> set (brokenSockets s)"
    and "t = on_connect kid name ws False sample now (send_all kid ms s)"
  shows "outbox t = outbox s @
           map (Pair ws) (JObj [(''type'', JStr ''connected''), (''kiosk_id'', JStr kid)]
                          # drop (length ms - 100) ms) \<and>
         map_of (offlineQueues t) kid = None"
proof -
  let ?hello = "JObj [(''type'', JStr ''connected''), (''kiosk_id'', JStr kid)]"
  let ?q = "drop (length ms - MESSAGE_QUEUE_CAP) ms"
  define s0 where "s0 = send_all kid ms s"
  have s0: "queue_of s0 kid = ?q" "connectedKiosks s0 = connectedKiosks s" "outbox s0 = outbox s"
    "brokenSockets s0 = brokenSockets s"
    using send_all_offline [OF assms(1,3)] assms(2) by (simp_all add: s0_def)
  define c where "c = \<lparr>cn_name = name, cn_ws = ws, cn_lastPong = now, cn_viewer = False\<rparr>"
  define s1 where "s1 = s0\<lparr>connectedKiosks := AList.update kid c (connectedKiosks s0),
                 openSockets := ws # openSockets s0\<rparr>"
  define s2 where "s2 = snd (transmit ws ?hello s1)"
  have t: "t = forward ''kiosk.changed'' (kiosk_event kid name ''connected'') (drainOfflineQueue kid s2)"
    using assms(1,5) s0(2)
    by (simp add: on_connect_def s0_def [symmetric] c_def [symmetric] s1_def s2_def)
  have out2: "outbox s2 = outbox s @ [(ws, ?hello)]"
    using assms(4) s0 by (simp add: s2_def transmit_def s1_def)
  have conn: "map_of (connectedKiosks s2) kid = Some c" "ws \<in> set (openSockets s2)"
    "ws \<notin> set (brokenSockets s2)" "queue_of s2 kid = ?q"
    using assms(4) s0 by (simp_all add: s2_def coord_frame s1_def get_set)
  have np: "list_all (\<lambda>m. \<not> is_power_type m) ?q"
    using assms(3) by (auto simp: list_all_iff dest: in_set_dropD)
  have loop: "outbox (drain_loop kid ?q s2) = outbox s2 @ map (Pair ws) ?q"
    using drain_loop_delivers [OF conn(1) _ _ _ np] conn by (simp add: c_def)
  have "open_connection s2 kid \<noteq> None" using conn by (simp add: open_connection_def c_def)
  moreover have "map_of (offlineQueues s2) kid = None" if "?q = []"
  proof -
    from that have "ms = []" by (cases ms) (auto simp: MESSAGE_QUEUE_CAP_def)
    with assms(2) show ?thesis by (simp add: s2_def coord_frame s1_def s0_def)
  qed
  ultimately have drained: "outbox (drainOfflineQueue kid s2) = outbox s2 @ map (Pair ws) ?q \<and>
      map_of (offlineQueues (drainOfflineQueue kid s2)) kid = None"
  proof (cases "?q = []")
    case True
    with \<open>?q = [] \<Longrightarrow> map_of (offlineQueues s2) kid = None\<close> show ?thesis
      unfolding drainOfflineQueue_def Let_def conn(4) by simp
  next
    case False
    with \<open>open_connection s2 kid \<noteq> None\<close> loop show ?thesis
      unfolding drainOfflineQueue_def Let_def conn(4) by (simp add: get_delete del: map_of_eq_None_iff)
  qed
  with out2 show ?thesis by (simp add: t forward_frame MESSAGE_QUEUE_CAP_def)
qed

section \<open>Witnesses\<close>

definition hello_message :: "string \<Rightarrow> json" where
  "hello_message t = JObj [(''type'', JStr t)]"

definition demo_events :: "(number \<times> coord_event) list" where
  "demo_events =
     [(1, Connect ''k1'' ''Lobby'' 7 True None), (2, Connect ''k2'' ''Office'' 8 False None),
      (3, Request ''k2'' (hello_message ''onvif-soap'') ''q1''), (4, Send ''k1'' (hello_message ''journal-start'') True),
      (5, Broadcast (hello_message ''reload-bundle'')), (6, Connect ''k2'' ''Office'' 9 False None)]"

lemma demo_requests: "distinct (run_requests demo_events)"
  by (simp add: run_requests_def demo_events_def)

lemma demo_settled:
  "settled (coord_run demo_events initial_coordinator) = [(''q1'', Rejected ''kiosk connection replaced'')]"
  by code_simp


definition waiting :: coordinator where
  "waiting = coord_run (take 3 demo_events) initial_coordinator"

lemma waiting_pending:
  "map_of (pendingRequests waiting) ''q1'' = Some \<lparr>pd_kiosk = ''k2'', pd_socket = 8, pd_power = False\<rparr>"
  by code_simp

theorem response_isolated_witness:
  "map_of (pendingRequests (on_message ''k1'' 7
       (JObj [(''type'', JStr ''onvif-soap-response''), (''request_id'', JStr ''q1'')]) 9 waiting)) ''q1'' \<noteq> None"
  using response_isolated [OF waiting_pending, of "''k1''" 7] by simp

lemma demo_outbox:
  "(7, hello_message ''reload-bundle'') \<in> set (outbox (coord_run demo_events initial_coordinator))"
  by code_simp


theorem offline_queue_delivery_witness:
  "outbox (on_connect ''k3'' ''Hall'' 5 False None 1
      (send_all ''k3'' [hello_message ''a'', hello_message ''b''] initial_coordinator))
     = map (Pair 5) [JObj [(''type'', JStr ''connected''), (''kiosk_id'', JStr ''k3'')],
                     hello_message ''a'', hello_message ''b'']"
proof -
  have "list_all (\<lambda>m. \<not> is_power_type m) [hello_message ''a'', hello_message ''b'']"
    by (simp add: is_power_type_def hello_message_def)
  from offline_queue_delivery [OF _ _ this _ refl, of initial_coordinator "''k3''" 5 "''Hall''" None 1]
  show ?thesis by (simp add: initial_coordinator_def)
qed

end
