(* ===== verification/BF_PowerDispatch.thy ===== *)
theory BF_PowerDispatch
  imports BF_Coordinator
begin

text \<open>
  One power command in flight (\<^verbatim>\<open>server/src/shared/power-dispatch.ts\<close>): the promise that
  \<^verbatim>\<open>dispatchPower\<close> returns, as a step relation over the callbacks that may run in any
  order: the viewer's validation, the acknowledgement, the write callback and the timer.
\<close>

section \<open>State and steps\<close>

record dispatch =
  dp_viewer :: bool
  dp_settled :: "bool option"
  dp_validated :: bool
  dp_sent :: bool
  dp_written :: bool
  dp_accepted :: bool
  dp_locked :: bool
  dp_ack :: bool

text \<open>
  The first checks: \<open>is_open\<close> that the kiosk has a connection in state \<^verbatim>\<open>OPEN\<close>, \<open>busy\<close> that a
  command for this viewer socket is already in flight.  \<open>Inl\<close> is the immediate answer.
\<close>

definition dispatch_start :: "bool \<Rightarrow> json \<Rightarrow> bool \<Rightarrow> bool \<Rightarrow> (bool, dispatch) result" where
  "dispatch_start is_open m viewer busy =
     (if \<not> is_open \<or> \<not> is_power_type m then Inl False
      else if viewer \<and> busy then Inl False
      else Inr \<lparr>dp_viewer = viewer, dp_settled = None, dp_validated = \<not> viewer, dp_sent = False,
                dp_written = False, dp_accepted = False, dp_locked = viewer, dp_ack = False\<rparr>)"

definition finish :: "bool \<Rightarrow> dispatch \<Rightarrow> dispatch" where
  "finish v d =
     (if dp_settled d \<noteq> None then d
      else d\<lparr>dp_settled := Some v, dp_locked := False, dp_ack := False\<rparr>)"

text \<open>
  \<open>current\<close> is what \<^verbatim>\<open>stillCurrent\<close> reads from outside: the connection is still the
  registered one and its socket is open.
\<close>

definition still_current :: "bool \<Rightarrow> dispatch \<Rightarrow> bool" where
  "still_current current d \<longleftrightarrow> dp_settled d = None \<and> current"

definition on_validated :: "bool \<Rightarrow> dispatch \<Rightarrow> dispatch" where
  "on_validated allowed d = (if \<not> allowed then finish False d else d\<lparr>dp_validated := True\<rparr>)"

definition on_send :: "bool \<Rightarrow> bool \<Rightarrow> bool \<Rightarrow> dispatch \<Rightarrow> dispatch" where
  "on_send current can_ack throws d =
     (if \<not> still_current current d then finish False d
      else if dp_viewer d \<and> \<not> can_ack then finish False d
      else let d1 = d\<lparr>dp_ack := dp_viewer d, dp_sent := True\<rparr>
           in if throws then finish False d1 else d1)"

definition on_ack :: "bool \<Rightarrow> bool \<Rightarrow> dispatch \<Rightarrow> dispatch" where
  "on_ack value current d =
     (if \<not> value \<or> \<not> still_current current d then finish False d
      else let d1 = d\<lparr>dp_accepted := True\<rparr> in if dp_written d1 then finish True d1 else d1)"

definition on_written :: "bool \<Rightarrow> bool \<Rightarrow> dispatch \<Rightarrow> dispatch" where
  "on_written err current d =
     (if err \<or> \<not> still_current current d then finish False d
      else let d1 = d\<lparr>dp_written := True\<rparr>
           in if \<not> dp_viewer d1 \<or> dp_accepted d1 then finish True d1 else d1)"

text \<open>
  The callbacks: a viewer's command is sent only after its validation succeeded; the
  write callback and the acknowledgement only follow a send; the timer may fire at any time.
\<close>

inductive dispatch_step :: "dispatch \<Rightarrow> dispatch \<Rightarrow> bool" where
  validated: "dp_viewer d \<Longrightarrow> \<not> dp_validated d \<Longrightarrow> dispatch_step d (on_validated allowed d)"
| send: "dp_validated d \<Longrightarrow> \<not> dp_sent d \<Longrightarrow> dispatch_step d (on_send current can_ack throws d)"
| acked: "dp_viewer d \<Longrightarrow> dp_sent d \<Longrightarrow> dispatch_step d (on_ack value current d)"
| written: "dp_sent d \<Longrightarrow> dispatch_step d (on_written err current d)"
| timer: "dispatch_step d (finish False d)"

inductive_cases dispatch_stepE: "dispatch_step d d'"

inductive dispatch_reaches :: "dispatch \<Rightarrow> dispatch \<Rightarrow> bool" where
  start: "dispatch_reaches d d"
| step: "dispatch_reaches d e \<Longrightarrow> dispatch_step e f \<Longrightarrow> dispatch_reaches d f"

section \<open>Invariant\<close>

definition dispatch_inv :: "dispatch \<Rightarrow> bool" where
  "dispatch_inv d \<longleftrightarrow>
     (dp_settled d = Some True \<longrightarrow> dp_written d \<and> (dp_viewer d \<longrightarrow> dp_accepted d)) \<and>
     (dp_written d \<or> dp_accepted d \<longrightarrow> dp_sent d) \<and>
     (dp_sent d \<longrightarrow> dp_validated d) \<and>
     (dp_settled d \<noteq> None \<longrightarrow> \<not> dp_locked d \<and> \<not> dp_ack d) \<and>
     (dp_settled d = None \<longrightarrow> dp_locked d = dp_viewer d)"

lemmas dispatch_ops = finish_def on_validated_def on_send_def on_ack_def on_written_def
  still_current_def Let_def

lemma dispatch_start_inv: "dispatch_start is_open m viewer busy = Inr d \<Longrightarrow> dispatch_inv d"
  by (auto simp: dispatch_start_def dispatch_inv_def split: if_splits)

lemma dispatch_step_inv: "dispatch_step d e \<Longrightarrow> dispatch_inv d \<Longrightarrow> dispatch_inv e"
  by (erule dispatch_stepE) (auto simp: dispatch_inv_def dispatch_ops split: if_splits)

lemma dispatch_step_settled:
  "dispatch_step d e \<Longrightarrow> dp_settled d = Some v \<Longrightarrow> dp_settled e = Some v"
  by (erule dispatch_stepE) (auto simp: dispatch_ops split: if_splits)

lemma dispatch_step_viewer: "dispatch_step d e \<Longrightarrow> dp_viewer e = dp_viewer d"
  by (erule dispatch_stepE) (auto simp: dispatch_ops split: if_splits)

lemma dispatch_reaches_inv: "dispatch_reaches d e \<Longrightarrow> dispatch_inv d \<Longrightarrow> dispatch_inv e"
  by (induction rule: dispatch_reaches.induct) (auto intro: dispatch_step_inv)

lemma dispatch_reaches_settled:
  "dispatch_reaches e f \<Longrightarrow> dp_settled e = Some v \<Longrightarrow> dp_settled f = Some v"
  by (induction rule: dispatch_reaches.induct) (auto intro: dispatch_step_settled)

lemma dispatch_reaches_viewer: "dispatch_reaches d e \<Longrightarrow> dp_viewer e = dp_viewer d"
  by (induction rule: dispatch_reaches.induct) (auto dest: dispatch_step_viewer)

section \<open>Properties\<close>

text \<open>
  (C29) A power command reports success only when it happened: in every interleaving of the
  callbacks, \<^verbatim>\<open>true\<close> means that the message was validated, sent and written to the socket and,
  for a viewer, acknowledged; once reported, the answer never changes, and the lock on
  the viewer's socket and the registered acknowledgement are released with it.
\<close>

theorem power_dispatch_confirmed:
  assumes "dispatch_start is_open m viewer busy = Inr d" and "dispatch_reaches d e"
    and "dp_settled e = Some v"
  shows "(v \<longrightarrow> dp_validated e \<and> dp_sent e \<and> dp_written e \<and> (viewer \<longrightarrow> dp_accepted e)) \<and>
         \<not> dp_locked e \<and> \<not> dp_ack e \<and>
         (\<forall>f. dispatch_reaches e f \<longrightarrow> dp_settled f = Some v)"
proof -
  have "dispatch_inv e" by (rule dispatch_reaches_inv [OF assms(2) dispatch_start_inv [OF assms(1)]])
  moreover have "dp_viewer e = viewer"
    using dispatch_reaches_viewer [OF assms(2)] assms(1) by (auto simp: dispatch_start_def split: if_splits)
  moreover have "dp_settled f = Some v" if "dispatch_reaches e f" for f
    using that assms(3) by (rule dispatch_reaches_settled)
  ultimately show ?thesis using assms(3) by (auto simp: dispatch_inv_def)
qed


section \<open>Witnesses\<close>

definition viewer_dispatch :: dispatch where
  "viewer_dispatch =
     \<lparr>dp_viewer = True, dp_settled = None, dp_validated = False, dp_sent = False,
      dp_written = False, dp_accepted = False, dp_locked = True, dp_ack = False\<rparr>"

lemma viewer_dispatch_started: "dispatch_start True (hello_message ''wake'') True False = Inr viewer_dispatch"
  by (simp add: dispatch_start_def viewer_dispatch_def is_power_type_def hello_message_def)

definition confirmed_dispatch :: dispatch where
  "confirmed_dispatch =
     on_ack True True (on_written False True (on_send True True False (on_validated True viewer_dispatch)))"

lemma confirmed_reached: "dispatch_reaches viewer_dispatch confirmed_dispatch"
proof -
  define d1 where "d1 = on_validated True viewer_dispatch"
  define d2 where "d2 = on_send True True False d1"
  define d3 where "d3 = on_written False True d2"
  have "dispatch_step viewer_dispatch d1"
    unfolding d1_def by (rule dispatch_step.validated) (simp_all add: viewer_dispatch_def)
  moreover have "dispatch_step d1 d2"
    unfolding d2_def by (rule dispatch_step.send) (simp_all add: d1_def on_validated_def viewer_dispatch_def)
  moreover have sent: "dp_sent d2" "dp_viewer d3" "dp_sent d3"
    by (simp_all add: d1_def d2_def d3_def viewer_dispatch_def dispatch_ops)
  then have "dispatch_step d2 d3" unfolding d3_def by (intro dispatch_step.written) simp
  moreover have "dispatch_step d3 (on_ack True True d3)" using sent by (intro dispatch_step.acked) simp_all
  ultimately have "dispatch_reaches viewer_dispatch (on_ack True True d3)"
    by (meson dispatch_reaches.intros)
  then show ?thesis by (simp add: confirmed_dispatch_def d1_def d2_def d3_def)
qed

lemma confirmed_settled: "dp_settled confirmed_dispatch = Some True"
  by (simp add: confirmed_dispatch_def viewer_dispatch_def dispatch_ops)

theorem power_dispatch_confirmed_witness:
  "dp_settled confirmed_dispatch = Some True \<and> dp_accepted confirmed_dispatch \<and> \<not> dp_locked confirmed_dispatch"
  using power_dispatch_confirmed [OF viewer_dispatch_started confirmed_reached confirmed_settled]
    confirmed_settled by blast


end
