(* ===== verification/BF_Pairing.thy ===== *)
theory BF_Pairing
  imports BF_Samples
begin

text \<open>
  Kiosk pairing (\<^verbatim>\<open>server/src/shared/pairing.ts\<close>) with the repository operations it
  performs.  The global table of pairing codes and the tables of each tenant schema are
  one state; a transaction that throws leaves it unchanged.  Server-written times inside
  the \<^verbatim>\<open>extras\<close> column are JSON numbers, and the stored confirmation request is kept as the
  JSON value that the code serialises.  Random values, the SHA-256 hex digest \<open>sha\<close>, the
  password hash and the sealed serialisation \<open>seal\<close>/\<open>unseal\<close> of \<^verbatim>\<open>secrets.ts\<close> are parameters.
\<close>

section \<open>State\<close>

record pairing_code =
  pc_kiosk_proposed_name :: "string option"
  pc_kiosk_hardware_model :: "string option"
  pc_kiosk_firmware_target :: "string option"
  pc_kiosk_capabilities :: "string list"
  pc_issued_at :: timestamp
  pc_expires_at :: timestamp
  pc_consumed_at :: "timestamp option"
  pc_consumed_by_kiosk_id :: "string option"
  pc_extras :: "(string \<times> json) list"

record tenant_db =
  t_kiosks :: "kiosk list"
  t_displays :: "display list"
  t_display_layouts :: "(string \<times> string) list"
  t_layout_ids :: "string list"
  t_display_defaults :: json
  t_labels :: "label_row list"
  t_kiosk_labels :: "kiosk_label list"

record pairing_db =
  pairing_codes :: "(string, pairing_code) jsmap"
  schemas :: "(string, tenant_db) jsmap"

definition empty_tenant :: tenant_db where
  "empty_tenant = \<lparr>t_kiosks = [], t_displays = [], t_display_layouts = [], t_layout_ids = [],
                   t_display_defaults = JNull, t_labels = [], t_kiosk_labels = []\<rparr>"

definition schema_db :: "pairing_db \<Rightarrow> string \<Rightarrow> tenant_db" where
  "schema_db db schema = nullish (map_of (schemas db) schema) empty_tenant"

abbreviation extra :: "pairing_code \<Rightarrow> string \<Rightarrow> json" where
  "extra pc k \<equiv> json_get (JObj (pc_extras pc)) k"

datatype pairing_error =
    CodeGenerationFailed
  | CodeNotFound
  | AlreadyUsed
  | PairedKioskGone
  | CodeExpired
  | ReplacementNotFound
  | ReplacementDiffers "string list"
  | NoUniqueName
  | NotOwnSession
  | InvalidSecret

section \<open>Secrets\<close>

definition matchesSecret :: "(string \<Rightarrow> string) \<Rightarrow> string option \<Rightarrow> json \<Rightarrow> bool" where
  "matchesSecret sha secret hash =
     (case hash of
        JStr h \<Rightarrow> truthy_str secret \<and> hex_bytes h = hex_bytes (sha (the secret))
      | _ \<Rightarrow> False)"

definition DELIVERY_GRACE_MS :: number where
  "DELIVERY_GRACE_MS = 15 * 60000"

definition CODE_ALPHABET :: string where
  "CODE_ALPHABET = ''ABCDEFGHJKLMNPQRSTUVWXYZ23456789''"

text \<open>A pairing code from eight random bytes.\<close>

definition generateCode :: "nat list \<Rightarrow> string" where
  "generateCode buf = map (\<lambda>b. CODE_ALPHABET ! (b mod length CODE_ALPHABET)) buf"

section \<open>Initiation\<close>

definition getPairingCode :: "pairing_db \<Rightarrow> string \<Rightarrow> pairing_code option" where
  "getPairingCode db code = map_of (pairing_codes db) code"

definition createPairingCode :: "string \<Rightarrow> pairing_code \<Rightarrow> pairing_db \<Rightarrow> pairing_db" where
  "createPairingCode code pc db = db\<lparr>pairing_codes := AList.update code pc (pairing_codes db)\<rparr>"

text \<open>Up to twenty draws; \<open>draw i\<close> are the random bytes of attempt \<open>i\<close>.\<close>

fun pick_code :: "nat \<Rightarrow> nat \<Rightarrow> (nat \<Rightarrow> nat list) \<Rightarrow> pairing_db \<Rightarrow> (pairing_error, string) result" where
  "pick_code 0 i draw db = Inl CodeGenerationFailed"
| "pick_code (Suc n) i draw db =
     (let code = generateCode (draw i) in
      if getPairingCode db code \<noteq> None then pick_code n (Suc i) draw db else Inr code)"

record initiate_input =
  in_proposedName :: "string option"
  in_hardwareModel :: "string option"
  in_firmwareTarget :: "string option"
  in_capabilities :: "string list"
  in_managedImage :: bool
  in_codeTtlSeconds :: number
  in_secureClaim :: bool

definition initiatePairing ::
  "(string \<Rightarrow> string) \<Rightarrow> (nat \<Rightarrow> nat list) \<Rightarrow> string \<Rightarrow> timestamp \<Rightarrow> initiate_input \<Rightarrow> pairing_db
   \<Rightarrow> (pairing_error, pairing_db \<times> string \<times> string option) result" where
  "initiatePairing sha draw secret now input db =
     bind_result (pick_code 20 0 draw db) (\<lambda>code.
       let pollingSecret = (if in_secureClaim input then Some secret else None);
           pc = \<lparr>pc_kiosk_proposed_name = in_proposedName input,
                 pc_kiosk_hardware_model = in_hardwareModel input,
                 pc_kiosk_firmware_target = in_firmwareTarget input,
                 pc_kiosk_capabilities = in_capabilities input,
                 pc_issued_at = now,
                 pc_expires_at = now + in_codeTtlSeconds input * 1000,
                 pc_consumed_at = None, pc_consumed_by_kiosk_id = None,
                 pc_extras = (''managed_image'', JBool (in_managedImage input))
                   # (case pollingSecret of None \<Rightarrow> []
                      | Some s \<Rightarrow> [(''polling_secret_hash'', JStr (sha s))])\<rparr>
       in Inr (createPairingCode code pc db, code, pollingSecret))"

section \<open>Claim\<close>

record credentials =
  cr_expiresInSeconds :: int
  cr_kioskId :: string
  cr_kioskName :: string
  cr_kioskKey :: string
  cr_encryptKey :: "string option"
  cr_demo :: bool

datatype claim_result =
    Pending int
  | Claimed credentials
  | Expired
  | ClaimFailed
  | Acknowledged
  | Revoked

text \<open>\<^verbatim>\<open>Date.parse(String(extras.claim_expires_at ?? expires_at))\<close>; \<open>None\<close> is \<^verbatim>\<open>NaN\<close>.\<close>

definition claim_deadline :: "pairing_code \<Rightarrow> number option" where
  "claim_deadline pc =
     (if pc_consumed_at pc = None then Some (pc_expires_at pc)
      else case extra pc ''claim_expires_at'' of
          JUndefined \<Rightarrow> Some (pc_expires_at pc)
        | JNull \<Rightarrow> Some (pc_expires_at pc)
        | JNum t \<Rightarrow> Some t
        | _ \<Rightarrow> None)"

fun str_or_none :: "json \<Rightarrow> string option" where
  "str_or_none (JStr s) = Some s"
| "str_or_none _ = None"

text \<open>\<open>None\<close>: the sealed claim could not be read.\<close>

definition claim_keys ::
  "(string \<Rightarrow> string \<Rightarrow> json option) \<Rightarrow> pairing_code \<Rightarrow> (string option \<times> string option) option" where
  "claim_keys unseal pc =
     (case extra pc ''pairing_claim_encrypted'' of
        JStr c \<Rightarrow>
          (case unseal ''pairing-claim'' c of
             None \<Rightarrow> None
           | Some parsed \<Rightarrow>
               Some (str_or_none (json_get parsed ''kioskKey''), str_or_none (json_get parsed ''encryptKey'')))
      | _ \<Rightarrow> Some (str_or_none (extra pc ''kiosk_key_plaintext''), str_or_none (extra pc ''encrypt_key'')))"

definition tenant_schema_of :: "pairing_code \<Rightarrow> string" where
  "tenant_schema_of pc = nullish (str_or_none (extra pc ''tenant_schema'')) ''public''"

definition find_kiosk :: "tenant_db \<Rightarrow> string \<Rightarrow> kiosk option" where
  "find_kiosk t kid = find (\<lambda>k. k_id k = kid) (t_kiosks t)"

definition claimPairing ::
  "(string \<Rightarrow> string) \<Rightarrow> (string \<Rightarrow> string \<Rightarrow> json option) \<Rightarrow> pairing_db \<Rightarrow> string \<Rightarrow> string option
   \<Rightarrow> timestamp \<Rightarrow> claim_result" where
  "claimPairing sha unseal db code pollingSecret now =
     (case getPairingCode db code of
        None \<Rightarrow> Expired
      | Some pc \<Rightarrow>
          if truthy (extra pc ''polling_secret_hash'')
             \<and> \<not> matchesSecret sha pollingSecret (extra pc ''polling_secret_hash'') then ClaimFailed
          else if truthy (extra pc ''acknowledged_at'') then Acknowledged
          else case claim_deadline pc of
            None \<Rightarrow> ClaimFailed
          | Some deadline \<Rightarrow>
              let remaining = deadline - now in
              if remaining \<le> 0 then Expired
              else if pc_consumed_at pc = None then Pending \<lceil>remaining / 1000\<rceil>
              else case claim_keys unseal pc of
                None \<Rightarrow> ClaimFailed
              | Some (kioskKey, encryptKey) \<Rightarrow>
                  if \<not> truthy_str kioskKey \<or> \<not> truthy_str (pc_consumed_by_kiosk_id pc) then ClaimFailed
                  else case find_kiosk (schema_db db (tenant_schema_of pc))
                              (the (pc_consumed_by_kiosk_id pc)) of
                    None \<Rightarrow> Revoked
                  | Some k \<Rightarrow>
                      if \<not> k_enabled k then Revoked
                      else Claimed \<lparr>cr_expiresInSeconds = \<lceil>remaining / 1000\<rceil>,
                                    cr_kioskId = the (pc_consumed_by_kiosk_id pc),
                                    cr_kioskName = k_name k, cr_kioskKey = the kioskKey,
                                    cr_encryptKey = encryptKey,
                                    cr_demo = (extra pc ''demo'' = JBool True)\<rparr>)"

section \<open>Confirmation\<close>

record confirm_input =
  ci_demo :: bool
  ci_code :: string
  ci_nameOverride :: "string option"
  ci_initialLabels :: "string list option"
  ci_replaceKioskId :: "string option"
  ci_force :: bool
  ci_tenant :: "(string \<times> string \<times> string) option"

definition ci_schema :: "confirm_input \<Rightarrow> string" where
  "ci_schema input = (case ci_tenant input of None \<Rightarrow> ''public'' | Some (_, _, schema) \<Rightarrow> schema)"

text \<open>The random values one confirmation draws, and the derived hash and ciphertext.\<close>

record confirm_random =
  rnd_key :: string
  rnd_key_hash :: string
  rnd_kiosk_id :: string
  rnd_display_id :: string
  rnd_label_id :: "string \<Rightarrow> string"
  rnd_encrypt_key :: string
  rnd_encrypt_key_encrypted :: string

definition confirmation_request :: "confirm_input \<Rightarrow> json" where
  "confirmation_request input =
     JObj [(''replaceKioskId'', case ci_replaceKioskId input of None \<Rightarrow> JNull | Some s \<Rightarrow> JStr s),
           (''nameOverride'', case ci_nameOverride input of None \<Rightarrow> JNull | Some s \<Rightarrow> JStr s),
           (''initialLabels'', JArr (map JStr (nullish (ci_initialLabels input) [])))]"

text \<open>The search for a free kiosk name; \<open>taken\<close> is \<^verbatim>\<open>getKioskByName\<close>.\<close>

function name_loop :: "(string \<Rightarrow> bool) \<Rightarrow> string \<Rightarrow> string \<Rightarrow> nat \<Rightarrow> (pairing_error, string) result" where
  "name_loop taken baseName candidate sfx =
     (if taken candidate then
        (let candidate' = baseName @ ''-'' @ show_nat sfx; sfx' = sfx + 1
         in if sfx' > 100 then Inl NoUniqueName else name_loop taken baseName candidate' sfx')
      else Inr candidate)"
  by pat_completeness auto
termination by (relation "measure (\<lambda>(_, _, _, sfx). 100 - sfx)") auto

declare name_loop.simps [simp del]

text \<open>Column defaults of the \<^verbatim>\<open>kiosks\<close> table.\<close>

definition default_kiosk :: kiosk where
  "default_kiosk = sample_kiosk\<lparr>k_enabled := True, k_managed_image := False, k_os_update_state := Confirmed,
     k_operator_console_enabled := False, k_operator_console_port := 18443,
     k_operator_tools_json := Some ''[]'', k_simple_vms_enabled := False,
     k_simple_vms_settings_json := Some ''{}'', k_audio_default_volume_percent := 50\<rparr>"

definition createKiosk ::
  "string \<Rightarrow> string \<Rightarrow> string \<Rightarrow> string \<Rightarrow> pairing_code \<Rightarrow> bool \<Rightarrow> timestamp \<Rightarrow> tenant_db \<Rightarrow> tenant_db" where
  "createKiosk kid name key_hash key_prefix pc managed now t =
     t\<lparr>t_kiosks := t_kiosks t @
        [default_kiosk\<lparr>k_id := kid, k_name := name, k_key_hash := key_hash, k_key_prefix := key_prefix,
           k_capabilities := pc_kiosk_capabilities pc, k_hardware_model := pc_kiosk_hardware_model pc,
           k_firmware_target := pc_kiosk_firmware_target pc, k_paired_at := Some now,
           k_managed_image := managed, k_created_at := now\<rparr>]\<rparr>"

definition update_row :: "string \<Rightarrow> (kiosk \<Rightarrow> kiosk) \<Rightarrow> tenant_db \<Rightarrow> tenant_db" where
  "update_row kid f t = t\<lparr>t_kiosks := map (\<lambda>k. if k_id k = kid then f k else k) (t_kiosks t)\<rparr>"

definition replaceKioskKey ::
  "string \<Rightarrow> string \<Rightarrow> string \<Rightarrow> pairing_code \<Rightarrow> timestamp \<Rightarrow> tenant_db \<Rightarrow> tenant_db" where
  "replaceKioskKey kid key_hash key_prefix pc now =
     update_row kid (\<lambda>k. k\<lparr>k_key_hash := key_hash, k_key_prefix := key_prefix,
       k_capabilities := pc_kiosk_capabilities pc, k_hardware_model := pc_kiosk_hardware_model pc,
       k_firmware_target := pc_kiosk_firmware_target pc, k_paired_at := Some now,
       k_last_seen_at := None, k_last_bundle_version := None, k_kiosk_app_version := None,
       k_os_version := None, k_cpu_temp_c := None, k_cpu_load_percent := None, k_fan_rpm := None,
       k_fan_pwm := None, k_memory_total_mb := None, k_memory_used_mb := None,
       k_disk_total_mb := None, k_disk_free_mb := None, k_disk_used_percent := None\<rparr>)"

text \<open>Default layouts of a new display (\<^verbatim>\<open>getDisplayDefaults\<close>).\<close>

definition getDisplayDefaults :: "tenant_db \<Rightarrow> string list \<times> string option" where
  "getDisplayDefaults t =
     (let raw = t_display_defaults t;
          ids = (case json_get raw ''layoutIds'' of
                   JArr vs \<Rightarrow> rev (remdups (rev (filter (\<lambda>i. i \<in> set (t_layout_ids t))
                                (concat (map (\<lambda>v. case v of JStr s \<Rightarrow> [s] | _ \<Rightarrow> []) vs)))))
                 | _ \<Rightarrow> [])
      in (ids, case json_get raw ''defaultLayoutId'' of
                 JStr d \<Rightarrow> if d \<in> set ids then Some d else None
               | _ \<Rightarrow> None))"

definition nextDisplayIndexForKiosk :: "string \<Rightarrow> tenant_db \<Rightarrow> number" where
  "nextDisplayIndexForKiosk kid t =
     (case map d_index (filter (\<lambda>d. d_kiosk_id d = Some kid) (t_displays t)) of
        [] \<Rightarrow> 0
      | i # is \<Rightarrow> foldl max i is + 1)"

definition createDisplayForKiosk :: "string \<Rightarrow> string \<Rightarrow> string \<Rightarrow> tenant_db \<Rightarrow> tenant_db" where
  "createDisplayForKiosk did kid name t =
     (let (layoutIds, defaultLayoutId) = getDisplayDefaults t;
          row = sample_display\<lparr>d_id := did, d_name := name, d_index := nextDisplayIndexForKiosk kid t,
                  d_is_primary := False, d_kiosk_id := Some kid, d_width_px := 1920, d_height_px := 1080,
                  d_idle_timeout_seconds := 600, d_sleep_timeout_seconds := 1800, d_cec_enabled := True,
                  d_actual_power_state := ActualUnknown, d_state_check_enabled := False,
                  d_state_check_interval_seconds := 60, d_is_enabled := True,
                  d_default_layout_id := defaultLayoutId, d_active_layout_id := defaultLayoutId\<rparr>
      in t\<lparr>t_displays := t_displays t @ [row],
           t_display_layouts := t_display_layouts t @ map (Pair did) layoutIds\<rparr>)"

definition ensureLabel :: "string \<Rightarrow> string \<Rightarrow> timestamp \<Rightarrow> tenant_db \<Rightarrow> tenant_db \<times> string" where
  "ensureLabel fresh_id name now t =
     (case find (\<lambda>l. lab_name l = name) (t_labels t) of
        Some l \<Rightarrow> (t, lab_id l)
      | None \<Rightarrow> (t\<lparr>t_labels := t_labels t @ [\<lparr>lab_id = fresh_id, lab_name = name, lab_description = None,
                                              lab_color = None, lab_created_at = now\<rparr>]\<rparr>, fresh_id))"

definition attachKioskLabel :: "string \<Rightarrow> string \<Rightarrow> label_role \<Rightarrow> tenant_db \<Rightarrow> tenant_db" where
  "attachKioskLabel kid lid role t =
     (let row = \<lparr>kl_kiosk_id = kid, kl_label_id = lid, kl_role = role\<rparr>
      in if row \<in> set (t_kiosk_labels t) then t else t\<lparr>t_kiosk_labels := t_kiosk_labels t @ [row]\<rparr>)"

fun attach_labels :: "(string \<Rightarrow> string) \<Rightarrow> string \<Rightarrow> timestamp \<Rightarrow> string list \<Rightarrow> tenant_db \<Rightarrow> tenant_db" where
  "attach_labels fresh kid now [] t = t"
| "attach_labels fresh kid now (l # ls) t =
     (let trimmed = js_lower (js_trim l) in
      if trimmed = [] then attach_labels fresh kid now ls t
      else let (t1, lid) = ensureLabel (fresh trimmed) trimmed now t
           in attach_labels fresh kid now ls (attachKioskLabel kid lid LabelRoleConsume t1))"

definition replacement_mismatches :: "kiosk \<Rightarrow> pairing_code \<Rightarrow> string list" where
  "replacement_mismatches existing pc =
     (if truthy_str (k_hardware_model existing) \<and> truthy_str (pc_kiosk_hardware_model pc)
         \<and> k_hardware_model existing \<noteq> pc_kiosk_hardware_model pc then [''hardware_model''] else []) @
     (if k_managed_image existing \<noteq> (extra pc ''managed_image'' = JBool True) then [''managed_image''] else []) @
     (if filter (\<lambda>c. c \<notin> set (pc_kiosk_capabilities pc)) (k_capabilities existing) \<noteq> []
      then [''lost capabilities''] else [])"

text \<open>The branch of an unused code: replace a kiosk or create one.\<close>

definition place_kiosk ::
  "confirm_random \<Rightarrow> confirm_input \<Rightarrow> pairing_code \<Rightarrow> timestamp \<Rightarrow> tenant_db
   \<Rightarrow> (pairing_error, tenant_db \<times> string \<times> string) result" where
  "place_kiosk rnd input pc now t =
     (let key_prefix = take 8 (''bf-'' @ rnd_key rnd);
          managed = (extra pc ''managed_image'' = JBool True)
      in case ci_replaceKioskId input of
        Some rid \<Rightarrow>
          (case find_kiosk t rid of
             None \<Rightarrow> Inl ReplacementNotFound
           | Some existing \<Rightarrow>
               if \<not> ci_force input \<and> replacement_mismatches existing pc \<noteq> []
               then Inl (ReplacementDiffers (replacement_mismatches existing pc))
               else let t1 = replaceKioskKey rid (rnd_key_hash rnd) key_prefix pc now t;
                        t2 = (if k_managed_image existing \<noteq> managed
                              then update_row rid (\<lambda>k. k\<lparr>k_managed_image := managed\<rparr>) t1 else t1)
                    in Inr (t2, k_id existing, k_name existing))
      | None \<Rightarrow>
          (let baseName = (if truthy_str (ci_nameOverride input) then the (ci_nameOverride input)
                           else if truthy_str (pc_kiosk_proposed_name pc) then the (pc_kiosk_proposed_name pc)
                           else ''kiosk-'' @ js_lower (ci_code input))
           in bind_result (name_loop (\<lambda>n. \<exists>k \<in> set (t_kiosks t). k_name k = n) baseName baseName 2)
                (\<lambda>candidate.
                   let t1 = createKiosk (rnd_kiosk_id rnd) candidate (rnd_key_hash rnd) key_prefix pc managed now t;
                       t2 = createDisplayForKiosk (rnd_display_id rnd) (rnd_kiosk_id rnd)
                              (candidate @ '': HDMI-0'') t1;
                       t3 = attach_labels (rnd_label_id rnd) (rnd_kiosk_id rnd) now
                              (nullish (ci_initialLabels input) []) t2
                   in Inr (t3, rnd_kiosk_id rnd, candidate))))"

definition claim_payload :: "confirm_random \<Rightarrow> json" where
  "claim_payload rnd = JObj [(''kioskKey'', JStr (''bf-'' @ rnd_key rnd)), (''encryptKey'', JStr (rnd_encrypt_key rnd))]"

definition claimed_extras ::
  "(string \<Rightarrow> json \<Rightarrow> string) \<Rightarrow> confirm_random \<Rightarrow> confirm_input \<Rightarrow> timestamp \<Rightarrow> (string \<times> json) list
   \<Rightarrow> (string \<times> json) list" where
  "claimed_extras seal rnd input now extras =
     AList.update ''tenant_schema'' (JStr (ci_schema input))
      (AList.update ''tenant_slug'' (JStr (case ci_tenant input of None \<Rightarrow> ''default'' | Some (_, slug, _) \<Rightarrow> slug))
       (AList.update ''tenant_id'' (JStr (case ci_tenant input of None \<Rightarrow> ''default'' | Some (i, _, _) \<Rightarrow> i))
        (AList.update ''confirmation_request'' (confirmation_request input)
         (AList.update ''claim_expires_at'' (JNum (now + DELIVERY_GRACE_MS))
          (AList.update ''demo'' (JBool (ci_demo input))
           (AList.update ''pairing_claim_encrypted'' (JStr (seal ''pairing-claim'' (claim_payload rnd))) extras))))))"

definition markPairingCodeClaimed ::
  "string \<Rightarrow> string \<Rightarrow> (string \<times> json) list \<Rightarrow> timestamp \<Rightarrow> pairing_db \<Rightarrow> (pairing_error, pairing_db) result" where
  "markPairingCodeClaimed code kid extras now db =
     (case map_of (pairing_codes db) code of
        None \<Rightarrow> Inl AlreadyUsed
      | Some pc \<Rightarrow>
          if pc_consumed_at pc \<noteq> None then Inl AlreadyUsed
          else Inr (db\<lparr>pairing_codes := AList.update code
                  (pc\<lparr>pc_consumed_at := Some now, pc_consumed_by_kiosk_id := Some kid, pc_extras := extras\<rparr>)
                  (pairing_codes db)\<rparr>))"

definition confirmPairing ::
  "(string \<Rightarrow> json \<Rightarrow> string) \<Rightarrow> confirm_random \<Rightarrow> confirm_input \<Rightarrow> timestamp \<Rightarrow> pairing_db
   \<Rightarrow> (pairing_error, pairing_db \<times> string \<times> string) result" where
  "confirmPairing seal rnd input now db =
     (case getPairingCode db (ci_code input) of
        None \<Rightarrow> Inl CodeNotFound
      | Some pc \<Rightarrow>
          (let schema = ci_schema input; t = schema_db db schema in
           if pc_consumed_at pc \<noteq> None then
             (if (extra pc ''demo'' = JBool True) \<noteq> ci_demo input
                 \<or> extra pc ''tenant_schema'' \<noteq> JStr schema
                 \<or> extra pc ''confirmation_request'' \<noteq> confirmation_request input
              then Inl AlreadyUsed
              else case (if truthy_str (pc_consumed_by_kiosk_id pc)
                         then find_kiosk t (the (pc_consumed_by_kiosk_id pc)) else None) of
                  None \<Rightarrow> Inl PairedKioskGone
                | Some k \<Rightarrow> Inr (db, k_id k, k_name k))
           else if pc_expires_at pc < now then Inl CodeExpired
           else bind_result (place_kiosk rnd input pc now t) (\<lambda>(t1, kid, name).
             let t2 = update_row kid (\<lambda>k. k\<lparr>k_encrypt_key_encrypted := Some (rnd_encrypt_key_encrypted rnd)\<rparr>) t1;
                 db1 = db\<lparr>schemas := AList.update schema t2 (schemas db)\<rparr>
             in bind_result (markPairingCodeClaimed (ci_code input) kid
                               (claimed_extras seal rnd input now (pc_extras pc)) now db1)
                  (\<lambda>db2. Inr (db2, kid, name)))))"

section \<open>Acknowledgement\<close>

definition credential_keys :: "string list" where
  "credential_keys = [''pairing_claim_encrypted'', ''kiosk_key_plaintext'', ''cluster_key'', ''encrypt_key'']"

definition acknowledged_extras :: "timestamp \<Rightarrow> (string \<times> json) list \<Rightarrow> (string \<times> json) list" where
  "acknowledged_extras now extras =
     foldl (\<lambda>m k. AList.delete k m) (AList.update ''acknowledged_at'' (JNum now) extras) credential_keys"

definition updatePairingCodeExtras :: "string \<Rightarrow> (string \<times> json) list \<Rightarrow> pairing_db \<Rightarrow> pairing_db" where
  "updatePairingCodeExtras code extras db =
     (case map_of (pairing_codes db) code of
        None \<Rightarrow> db
      | Some pc \<Rightarrow> db\<lparr>pairing_codes := AList.update code (pc\<lparr>pc_extras := extras\<rparr>) (pairing_codes db)\<rparr>)"

definition acknowledgePairing ::
  "(string \<Rightarrow> string) \<Rightarrow> string \<Rightarrow> string \<Rightarrow> string \<Rightarrow> string option \<Rightarrow> timestamp \<Rightarrow> pairing_db
   \<Rightarrow> (pairing_error, pairing_db) result" where
  "acknowledgePairing sha code kid schemaName pollingSecret now db =
     (case getPairingCode db code of
        None \<Rightarrow> Inl NotOwnSession
      | Some pc \<Rightarrow>
          if pc_consumed_by_kiosk_id pc \<noteq> Some kid
             \<or> (case extra pc ''tenant_schema'' of JUndefined \<Rightarrow> JStr ''public'' | JNull \<Rightarrow> JStr ''public''
                  | v \<Rightarrow> v) \<noteq> JStr schemaName then Inl NotOwnSession
          else if truthy (extra pc ''polling_secret_hash'')
             \<and> \<not> matchesSecret sha pollingSecret (extra pc ''polling_secret_hash'') then Inl InvalidSecret
          else Inr (updatePairingCodeExtras code (acknowledged_extras now (pc_extras pc)) db))"

section \<open>Lemmas\<close>

lemma extra_get: "json_get (JObj fs) k = nullish (map_of fs k) JUndefined"
  by (simp add: nullish_def)

lemma extra_update [simp]:
  "json_get (JObj (AList.update k v fs)) x = (if x = k then v else json_get (JObj fs) x)"
  by (simp add: get_set)

lemma extra_delete [simp]:
  "json_get (JObj (AList.delete k fs)) x = (if x = k then JUndefined else json_get (JObj fs) x)"
  by (simp add: get_delete)

declare json_get.simps(1) [simp del]

lemma name_loop_free: "name_loop taken b c n = Inr name \<Longrightarrow> \<not> taken name"
proof (induction taken b c n rule: name_loop.induct)
  case (1 taken b c n)
  from "1.prems" show ?case
    by (subst (asm) name_loop.simps) (auto simp: Let_def split: if_splits dest: "1.IH" [OF _ refl refl])
qed

lemma pick_code_free: "pick_code n i draw db = Inr code \<Longrightarrow> getPairingCode db code = None"
  by (induction n i draw db rule: pick_code.induct) (auto simp: Let_def split: if_splits)

lemma createDisplay_kiosks [simp]: "t_kiosks (createDisplayForKiosk did kid n t) = t_kiosks t"
  by (simp add: createDisplayForKiosk_def Let_def case_prod_unfold)

lemma attach_labels_kiosks [simp]: "t_kiosks (attach_labels fresh kid now ls t) = t_kiosks t"
  by (induction fresh kid now ls t rule: attach_labels.induct)
    (auto simp: Let_def ensureLabel_def attachKioskLabel_def split: option.splits prod.splits)

lemma find_append: "find P (xs @ ys) = (case find P xs of None \<Rightarrow> find P ys | Some x \<Rightarrow> Some x)"
  by (induction xs) auto

lemma find_kiosk_update:
  assumes "\<And>k. k_id (f k) = k_id k"
  shows "find_kiosk (update_row kid f t) kid' =
           (if kid' = kid then map_option f (find_kiosk t kid) else find_kiosk t kid')"
proof -
  have "find (\<lambda>k. k_id k = kid') (map (\<lambda>k. if k_id k = kid then f k else k) ks) =
      (if kid' = kid then map_option f (find (\<lambda>k. k_id k = kid) ks) else find (\<lambda>k. k_id k = kid') ks)" for ks
    by (induction ks) (auto simp: assms)
  then show ?thesis by (simp add: find_kiosk_def update_row_def)
qed

lemma find_kiosk_id: "find_kiosk t kid = Some k \<Longrightarrow> k_id k = kid"
  by (auto simp: find_kiosk_def find_Some_iff)

lemma names_update_row:
  assumes "\<And>k. k_name (f k) = k_name k"
  shows "map k_name (t_kiosks (update_row kid f t)) = map k_name (t_kiosks t)"
  by (simp add: update_row_def assms comp_def if_distrib cong: if_cong)

text \<open>What placing a kiosk yields, on both branches.\<close>

lemma place_kiosk_result:
  assumes "place_kiosk rnd input pc now t = Inr (t', kid, name)"
    and "\<forall>k \<in> set (t_kiosks t). k_id k \<noteq> rnd_kiosk_id rnd"
  shows "\<exists>k. find_kiosk t' kid = Some k \<and> k_name k = name \<and> k_key_hash k = rnd_key_hash rnd
           \<and> (ci_replaceKioskId input = None \<longrightarrow> k_enabled k)"
proof (cases "ci_replaceKioskId input")
  case None
  have none: "find_kiosk t (rnd_kiosk_id rnd) = None"
    using assms(2) by (auto simp: find_kiosk_def find_None_iff)
  obtain candidate where "kid = rnd_kiosk_id rnd" "name = candidate"
    and t': "t_kiosks t' = t_kiosks (createKiosk (rnd_kiosk_id rnd) candidate (rnd_key_hash rnd)
        (take 8 (''bf-'' @ rnd_key rnd)) pc (extra pc ''managed_image'' = JBool True) now t)"
    using assms(1) None by (auto simp: place_kiosk_def Let_def bind_result_eq_Inr)
  then show ?thesis
    using none by (simp add: find_kiosk_def createKiosk_def find_append default_kiosk_def)
next
  case (Some rid)
  then obtain existing where ex: "find_kiosk t rid = Some existing"
    using assms(1) by (auto simp: place_kiosk_def Let_def split: option.splits)
  then have "kid = rid" "name = k_name existing"
    using assms(1) Some find_kiosk_id [OF ex] by (auto simp: place_kiosk_def Let_def split: if_splits)
  moreover have "t' = replaceKioskKey rid (rnd_key_hash rnd) (take 8 (''bf-'' @ rnd_key rnd)) pc now t \<or>
      t' = update_row rid (\<lambda>k. k\<lparr>k_managed_image := (extra pc ''managed_image'' = JBool True)\<rparr>)
        (replaceKioskKey rid (rnd_key_hash rnd) (take 8 (''bf-'' @ rnd_key rnd)) pc now t)"
    using assms(1) Some ex by (auto simp: place_kiosk_def Let_def split: if_splits)
  ultimately show ?thesis
    using ex Some by (auto simp: replaceKioskKey_def find_kiosk_update)
qed

lemma place_kiosk_resultE:
  assumes "place_kiosk rnd input pc now t = Inr (t', kid, name)"
    and "\<forall>k \<in> set (t_kiosks t). k_id k \<noteq> rnd_kiosk_id rnd"
  obtains k where "find_kiosk t' kid = Some k" and "k_name k = name" and "k_key_hash k = rnd_key_hash rnd"
    and "ci_replaceKioskId input = None \<longrightarrow> k_enabled k"
  using place_kiosk_result [OF assms] by (elim exE conjE) (rule that)

lemma place_kiosk_names:
  assumes "place_kiosk rnd input pc now t = Inr (t', kid, name)" and "distinct (map k_name (t_kiosks t))"
  shows "distinct (map k_name (t_kiosks t'))"
proof (cases "ci_replaceKioskId input")
  case None
  then obtain candidate where c: "name_loop (\<lambda>n. \<exists>k \<in> set (t_kiosks t). k_name k = n)
      (if truthy_str (ci_nameOverride input) then the (ci_nameOverride input)
       else if truthy_str (pc_kiosk_proposed_name pc) then the (pc_kiosk_proposed_name pc)
       else ''kiosk-'' @ js_lower (ci_code input))
      (if truthy_str (ci_nameOverride input) then the (ci_nameOverride input)
       else if truthy_str (pc_kiosk_proposed_name pc) then the (pc_kiosk_proposed_name pc)
       else ''kiosk-'' @ js_lower (ci_code input)) 2 = Inr candidate"
    and "t_kiosks t' = t_kiosks (createKiosk (rnd_kiosk_id rnd) candidate (rnd_key_hash rnd)
        (take 8 (''bf-'' @ rnd_key rnd)) pc (extra pc ''managed_image'' = JBool True) now t)"
    using assms(1) by (auto simp: place_kiosk_def Let_def bind_result_eq_Inr)
  with name_loop_free [OF c] assms(2) show ?thesis by (auto simp: createKiosk_def)
next
  case (Some rid)
  then have "map k_name (t_kiosks t') = map k_name (t_kiosks t)"
    using assms(1)
    by (auto simp: place_kiosk_def Let_def replaceKioskKey_def names_update_row split: option.splits if_splits)
  with assms(2) show ?thesis by simp
qed

text \<open>The shape of a successful first confirmation.\<close>

lemma confirm_fresh:
  assumes "confirmPairing seal rnd input now db = Inr (db', kid, name)"
    and "getPairingCode db (ci_code input) = Some pc" and "pc_consumed_at pc = None"
  obtains t1 where
    "place_kiosk rnd input pc now (schema_db db (ci_schema input)) = Inr (t1, kid, name)"
    and "pc_expires_at pc \<ge> now"
    and "db' = db\<lparr>schemas := AList.update (ci_schema input)
                 (update_row kid (\<lambda>k. k\<lparr>k_encrypt_key_encrypted := Some (rnd_encrypt_key_encrypted rnd)\<rparr>) t1)
                 (schemas db),
               pairing_codes := AList.update (ci_code input)
                 (pc\<lparr>pc_consumed_at := Some now, pc_consumed_by_kiosk_id := Some kid,
                     pc_extras := claimed_extras seal rnd input now (pc_extras pc)\<rparr>) (pairing_codes db)\<rparr>"
proof -
  have step: "bind_result (place_kiosk rnd input pc now (schema_db db (ci_schema input)))
      (\<lambda>(t1, kid, name). bind_result (markPairingCodeClaimed (ci_code input) kid
           (claimed_extras seal rnd input now (pc_extras pc)) now
           (db\<lparr>schemas := AList.update (ci_schema input)
              (update_row kid (\<lambda>k. k\<lparr>k_encrypt_key_encrypted := Some (rnd_encrypt_key_encrypted rnd)\<rparr>) t1)
              (schemas db)\<rparr>)) (\<lambda>db2. Inr (db2, kid, name))) = Inr (db', kid, name)"
    and time: "pc_expires_at pc \<ge> now"
    using assms by (simp_all add: confirmPairing_def Let_def split: if_splits)
  then obtain t1 k n where place: "place_kiosk rnd input pc now (schema_db db (ci_schema input)) = Inr (t1, k, n)"
    by (auto simp: bind_result_eq_Inr)
  with step assms(2,3) have "k = kid" "n = name"
    and db': "db' = db\<lparr>schemas := AList.update (ci_schema input)
              (update_row kid (\<lambda>k. k\<lparr>k_encrypt_key_encrypted := Some (rnd_encrypt_key_encrypted rnd)\<rparr>) t1)
              (schemas db),
            pairing_codes := AList.update (ci_code input)
                 (pc\<lparr>pc_consumed_at := Some now, pc_consumed_by_kiosk_id := Some kid,
                     pc_extras := claimed_extras seal rnd input now (pc_extras pc)\<rparr>) (pairing_codes db)\<rparr>"
    by (auto simp: markPairingCodeClaimed_def getPairingCode_def)
  with place time show thesis by (intro that) simp_all
qed

section \<open>Properties\<close>

text \<open>The lookups in the extras of a consumed code.\<close>

lemma claimed_extras_get:
  "json_get (JObj (claimed_extras seal rnd input now fs)) ''tenant_schema'' = JStr (ci_schema input)"
  "json_get (JObj (claimed_extras seal rnd input now fs)) ''confirmation_request'' = confirmation_request input"
  "json_get (JObj (claimed_extras seal rnd input now fs)) ''claim_expires_at'' = JNum (now + DELIVERY_GRACE_MS)"
  "json_get (JObj (claimed_extras seal rnd input now fs)) ''demo'' = JBool (ci_demo input)"
  "json_get (JObj (claimed_extras seal rnd input now fs)) ''pairing_claim_encrypted''
     = JStr (seal ''pairing-claim'' (claim_payload rnd))"
  "json_get (JObj (claimed_extras seal rnd input now fs)) ''polling_secret_hash''
     = json_get (JObj fs) ''polling_secret_hash''"
  "json_get (JObj (claimed_extras seal rnd input now fs)) ''acknowledged_at''
     = json_get (JObj fs) ''acknowledged_at''"
  by (simp_all add: claimed_extras_def)


text \<open>
  (C5) A code is consumed once: after a successful confirmation any further confirmation of
  the code that succeeds changes nothing and names the same kiosk, and it can only come
  from the same tenant, with the same demo flag and the same request; the same operator
  may repeat the submission and gets the same answer.
\<close>

theorem pairing_confirmed_once:
  assumes "confirmPairing seal rnd input now db = Inr (db', kid, name)"
    and "getPairingCode db (ci_code input) = Some pc" and "pc_consumed_at pc = None"
    and "\<forall>k \<in> set (t_kiosks (schema_db db (ci_schema input))). k_id k \<noteq> rnd_kiosk_id rnd"
    and "kid \<noteq> []" and "ci_code input' = ci_code input"
  shows "(confirmPairing seal rnd' input' now' db' = Inr (db'', kid', name') \<longrightarrow>
            db'' = db' \<and> kid' = kid \<and> name' = name \<and> ci_schema input' = ci_schema input \<and>
            ci_demo input' = ci_demo input \<and> confirmation_request input' = confirmation_request input) \<and>
         confirmPairing seal rnd' input now' db' = Inr (db', kid, name)"
proof -
  obtain t1 where place: "place_kiosk rnd input pc now (schema_db db (ci_schema input)) = Inr (t1, kid, name)"
    and db': "db' = db\<lparr>schemas := AList.update (ci_schema input)
                 (update_row kid (\<lambda>k. k\<lparr>k_encrypt_key_encrypted := Some (rnd_encrypt_key_encrypted rnd)\<rparr>) t1)
                 (schemas db),
               pairing_codes := AList.update (ci_code input)
                 (pc\<lparr>pc_consumed_at := Some now, pc_consumed_by_kiosk_id := Some kid,
                     pc_extras := claimed_extras seal rnd input now (pc_extras pc)\<rparr>) (pairing_codes db)\<rparr>"
    using confirm_fresh [OF assms(1-3)] by blast
  define pc' where "pc' = pc\<lparr>pc_consumed_at := Some now, pc_consumed_by_kiosk_id := Some kid,
                     pc_extras := claimed_extras seal rnd input now (pc_extras pc)\<rparr>"
  have code: "getPairingCode db' (ci_code input) = Some pc'"
    by (simp add: db' getPairingCode_def get_set pc'_def)
  note ex = claimed_extras_get [of seal rnd input now "pc_extras pc"]
  have pc': "pc_consumed_at pc' = Some now" "pc_consumed_by_kiosk_id pc' = Some kid"
    "extra pc' ''tenant_schema'' = JStr (ci_schema input)" "extra pc' ''demo'' = JBool (ci_demo input)"
    "extra pc' ''confirmation_request'' = confirmation_request input"
    by (simp_all add: pc'_def ex)
  obtain k where k: "find_kiosk t1 kid = Some k" "k_name k = name"
    by (rule place_kiosk_resultE [OF place assms(4)])
  have find: "find_kiosk (schema_db db' (ci_schema input)) kid
      = Some (k\<lparr>k_encrypt_key_encrypted := Some (rnd_encrypt_key_encrypted rnd)\<rparr>)"
    by (simp add: db' schema_db_def get_set find_kiosk_update k)
  have id: "k_id k = kid" by (rule find_kiosk_id [OF k(1)])
  have again: "confirmPairing seal rnd' input now' db' = Inr (db', kid, name)"
    using assms(5) k(2) id by (simp add: confirmPairing_def code pc' Let_def find)
  have "db'' = db' \<and> kid' = kid \<and> name' = name \<and> ci_schema input' = ci_schema input \<and>
      ci_demo input' = ci_demo input \<and> confirmation_request input' = confirmation_request input"
    if ok: "confirmPairing seal rnd' input' now' db' = Inr (db'', kid', name')"
  proof -
    have same: "ci_schema input' = ci_schema input" "ci_demo input' = ci_demo input"
      "confirmation_request input' = confirmation_request input"
      using ok by (auto simp: confirmPairing_def assms(6) code pc' Let_def split: if_splits)
    with ok assms(5) k(2) id show ?thesis
      by (simp add: confirmPairing_def assms(6) code pc' Let_def find)
  qed
  with again show ?thesis by blast
qed

text \<open>
  Acknowledgement erases: after the paired device acknowledges, none of the credential
  fields is left in the database row, and no later claim, at any time and with any
  secret, returns credentials.
\<close>

theorem acknowledgement_erases:
  assumes "acknowledgePairing sha code kid schema secret now db = Inr db'" and "now \<noteq> 0"
  shows "(\<exists>pc. getPairingCode db' code = Some pc \<and>
            (\<forall>key \<in> set credential_keys. map_of (pc_extras pc) key = None)) \<and>
         claimPairing sha' unseal db' code secret' t \<in> {Acknowledged, ClaimFailed}"
proof -
  obtain pc where pc: "getPairingCode db code = Some pc"
    and db': "db' = updatePairingCodeExtras code (acknowledged_extras now (pc_extras pc)) db"
    using assms(1) by (auto simp: acknowledgePairing_def split: option.splits if_splits)
  have code: "getPairingCode db' code = Some (pc\<lparr>pc_extras := acknowledged_extras now (pc_extras pc)\<rparr>)"
    using pc by (simp add: db' updatePairingCodeExtras_def getPairingCode_def get_set)
  have erased: "\<forall>key \<in> set credential_keys. map_of (acknowledged_extras now (pc_extras pc)) key = None"
    by (simp add: acknowledged_extras_def credential_keys_def get_delete del: map_of_eq_None_iff)
  have "json_get (JObj (acknowledged_extras now (pc_extras pc))) ''acknowledged_at'' = JNum now"
    by (simp add: acknowledged_extras_def credential_keys_def)
  with code erased assms(2) show ?thesis
    by (auto simp: claimPairing_def)
qed

text \<open>
  Pairing never gives two kiosks of a tenant the same name and never touches another
  tenant's tables or another pairing code.
\<close>

theorem pairing_names_unique:
  assumes "confirmPairing seal rnd input now db = Inr (db', kid, name)"
    and "distinct (map k_name (t_kiosks (schema_db db (ci_schema input))))"
  shows "distinct (map k_name (t_kiosks (schema_db db' (ci_schema input)))) \<and>
         (\<forall>schema. schema \<noteq> ci_schema input \<longrightarrow> schema_db db' schema = schema_db db schema) \<and>
         (\<forall>code. code \<noteq> ci_code input \<longrightarrow> getPairingCode db' code = getPairingCode db code)"
proof -
  obtain pc where pc: "getPairingCode db (ci_code input) = Some pc"
    using assms(1) by (auto simp: confirmPairing_def split: option.splits)
  show ?thesis
  proof (cases "pc_consumed_at pc = None")
    case False
    then have "db' = db"
      using assms(1) pc by (auto simp: confirmPairing_def Let_def split: if_splits option.splits)
    with assms(2) show ?thesis by simp
  next
    case True
    then obtain t1 where place: "place_kiosk rnd input pc now (schema_db db (ci_schema input)) = Inr (t1, kid, name)"
      and db': "db' = db\<lparr>schemas := AList.update (ci_schema input)
                 (update_row kid (\<lambda>k. k\<lparr>k_encrypt_key_encrypted := Some (rnd_encrypt_key_encrypted rnd)\<rparr>) t1)
                 (schemas db),
               pairing_codes := AList.update (ci_code input)
                 (pc\<lparr>pc_consumed_at := Some now, pc_consumed_by_kiosk_id := Some kid,
                     pc_extras := claimed_extras seal rnd input now (pc_extras pc)\<rparr>) (pairing_codes db)\<rparr>"
      using confirm_fresh [OF assms(1) pc] by blast
    from place_kiosk_names [OF place assms(2)] show ?thesis
      by (simp add: db' schema_db_def get_set getPairingCode_def names_update_row)
  qed
qed

text \<open>A device that lost a capability of the kiosk it replaces is refused without \<open>force\<close>.\<close>

lemma lost_capability_blocks:
  assumes "ci_replaceKioskId input = Some rid" and "find_kiosk t rid = Some existing" and "\<not> ci_force input"
    and "c \<in> set (k_capabilities existing)" and "c \<notin> set (pc_kiosk_capabilities pc)"
  shows "place_kiosk rnd input pc now t = Inl (ReplacementDiffers (replacement_mismatches existing pc))"
proof -
  have "filter (\<lambda>c. c \<notin> set (pc_kiosk_capabilities pc)) (k_capabilities existing) \<noteq> []"
    using assms(4,5) by (auto simp: filter_empty_conv)
  then have "replacement_mismatches existing pc \<noteq> []" by (simp add: replacement_mismatches_def)
  with assms(1-3) show ?thesis by (simp add: place_kiosk_def Let_def)
qed

section \<open>Witnesses\<close>

text \<open>
  A concrete digest and a concrete sealing on which the hypotheses hold: the digest is the
  hexadecimal form of the characters, and a sealed value is looked up by its context.
\<close>

definition toy_sha :: "string \<Rightarrow> string" where
  "toy_sha s = concat (map (\<lambda>c. if c = CHR ''x'' then ''78'' else ''00'') s)"

definition demo_random :: confirm_random where
  "demo_random = \<lparr>rnd_key = ''KEY'', rnd_key_hash = ''hash-of-key'', rnd_kiosk_id = ''k9'',
     rnd_display_id = ''d9'', rnd_label_id = (\<lambda>n. ''l-'' @ n), rnd_encrypt_key = ''EK'',
     rnd_encrypt_key_encrypted = ''sealed''\<rparr>"

definition demo_pairing_code :: pairing_code where
  "demo_pairing_code = \<lparr>pc_kiosk_proposed_name = Some ''lobby'', pc_kiosk_hardware_model = None,
     pc_kiosk_firmware_target = None, pc_kiosk_capabilities = [], pc_issued_at = 10,
     pc_expires_at = 1000, pc_consumed_at = None, pc_consumed_by_kiosk_id = None,
     pc_extras = [(''managed_image'', JBool True), (''polling_secret_hash'', JStr ''78'')]\<rparr>"

definition demo_pairing_db :: pairing_db where
  "demo_pairing_db = \<lparr>pairing_codes = [(''ABCD2345'', demo_pairing_code)],
     schemas = [(''public'', empty_tenant\<lparr>t_kiosks := [sample_kiosk\<lparr>k_id := ''k1'', k_name := ''lobby''\<rparr>]\<rparr>)]\<rparr>"

definition demo_confirm :: confirm_input where
  "demo_confirm = \<lparr>ci_demo = False, ci_code = ''ABCD2345'', ci_nameOverride = None,
     ci_initialLabels = Some ['' Hall ''], ci_replaceKioskId = None, ci_force = False, ci_tenant = None\<rparr>"

lemma demo_schema: "ci_schema demo_confirm = ''public''"
  by (simp add: ci_schema_def demo_confirm_def)

lemma demo_code: "getPairingCode demo_pairing_db (ci_code demo_confirm) = Some demo_pairing_code"
  by (simp add: getPairingCode_def demo_pairing_db_def demo_confirm_def)

lemma demo_tenant: "t_kiosks (schema_db demo_pairing_db ''public'') = [sample_kiosk\<lparr>k_id := ''k1'', k_name := ''lobby''\<rparr>]"
  by (simp add: schema_db_def demo_pairing_db_def)

text \<open>The sealing of the one value this confirmation stores.\<close>

definition demo_seal :: "string \<Rightarrow> json \<Rightarrow> string" where
  "demo_seal ctx j = ''sealed''"

definition demo_unseal :: "string \<Rightarrow> string \<Rightarrow> json option" where
  "demo_unseal ctx c = (if c = ''sealed'' then Some (claim_payload demo_random) else None)"

lemma show_two: "show_nat 2 = ''2''"
  by code_simp

lemma demo_name: "name_loop ((=) ''lobby'') ''lobby'' ''lobby'' 2 = Inr ''lobby-2''"
  by (simp add: name_loop.simps show_two)

lemma demo_place:
  "\<exists>t1. place_kiosk demo_random demo_confirm demo_pairing_code 20 (schema_db demo_pairing_db ''public'')
      = Inr (t1, ''k9'', ''lobby-2'')"
  by (simp add: place_kiosk_def demo_confirm_def demo_pairing_code_def demo_tenant demo_random_def
      demo_name Let_def)

definition demo_confirmed :: pairing_db where
  "demo_confirmed = (case confirmPairing demo_seal demo_random demo_confirm 20 demo_pairing_db of
      Inr (db', _, _) \<Rightarrow> db' | Inl _ \<Rightarrow> demo_pairing_db)"

lemma demo_confirms:
  "confirmPairing demo_seal demo_random demo_confirm 20 demo_pairing_db = Inr (demo_confirmed, ''k9'', ''lobby-2'')"
proof -
  obtain t1 where "place_kiosk demo_random demo_confirm demo_pairing_code 20
      (schema_db demo_pairing_db ''public'') = Inr (t1, ''k9'', ''lobby-2'')"
    using demo_place ..
  moreover have "pc_consumed_at demo_pairing_code = None" "\<not> pc_expires_at demo_pairing_code < 20"
    by (simp_all add: demo_pairing_code_def)
  moreover have "map_of (pairing_codes demo_pairing_db) (ci_code demo_confirm) = Some demo_pairing_code"
    using demo_code by (simp add: getPairingCode_def del: map_of_eq_Some_iff)
  ultimately have "\<exists>db'. confirmPairing demo_seal demo_random demo_confirm 20 demo_pairing_db
      = Inr (db', ''k9'', ''lobby-2'')"
    by (simp add: confirmPairing_def demo_code demo_schema Let_def markPairingCodeClaimed_def
        del: map_of_eq_Some_iff)
  then show ?thesis by (auto simp: demo_confirmed_def)
qed

lemma demo_hypotheses:
  "pc_consumed_at demo_pairing_code = None"
  "\<forall>k \<in> set (t_kiosks (schema_db demo_pairing_db (ci_schema demo_confirm))). k_id k \<noteq> rnd_kiosk_id demo_random"
  "extra demo_pairing_code ''acknowledged_at'' = JUndefined"
  "truthy (extra demo_pairing_code ''polling_secret_hash'') \<longrightarrow>
     matchesSecret toy_sha (Some ''x'') (extra demo_pairing_code ''polling_secret_hash'')"
  "demo_unseal ''pairing-claim'' (demo_seal ''pairing-claim'' (claim_payload demo_random))
     = Some (claim_payload demo_random)"
  "ci_replaceKioskId demo_confirm = None"
  by (simp_all add: demo_pairing_code_def demo_schema demo_tenant demo_random_def extra_get
      ci_schema_def demo_confirm_def matchesSecret_def toy_sha_def demo_seal_def demo_unseal_def)


theorem pairing_confirmed_once_witness:
  "confirmPairing demo_seal (demo_random\<lparr>rnd_key := ''OTHER''\<rparr>) demo_confirm 25 demo_confirmed
     = Inr (demo_confirmed, ''k9'', ''lobby-2'') \<and>
   confirmPairing demo_seal demo_random (demo_confirm\<lparr>ci_demo := True\<rparr>) 25 demo_confirmed
     \<noteq> Inr (demo_confirmed, ''k9'', ''lobby-2'')"
proof -
  have again: "confirmPairing demo_seal (demo_random\<lparr>rnd_key := ''OTHER''\<rparr>) demo_confirm 25 demo_confirmed
     = Inr (demo_confirmed, ''k9'', ''lobby-2'')"
    using pairing_confirmed_once [OF demo_confirms demo_code demo_hypotheses(1,2), of demo_confirm] by blast
  have "ci_demo (demo_confirm\<lparr>ci_demo := True\<rparr>) \<noteq> ci_demo demo_confirm"
    "ci_code (demo_confirm\<lparr>ci_demo := True\<rparr>) = ci_code demo_confirm"
    by (simp_all add: demo_confirm_def)
  then show ?thesis
    using again pairing_confirmed_once [OF demo_confirms demo_code demo_hypotheses(1,2),
        of "demo_confirm\<lparr>ci_demo := True\<rparr>"] by blast
qed

definition demo_claimed_code :: pairing_code where
  "demo_claimed_code = demo_pairing_code\<lparr>pc_consumed_at := Some 20, pc_consumed_by_kiosk_id := Some ''k9'',
     pc_extras := [(''polling_secret_hash'', JStr ''78''), (''pairing_claim_encrypted'', JStr ''sealed'')]\<rparr>"

definition demo_claimed :: pairing_db where
  "demo_claimed = demo_pairing_db\<lparr>pairing_codes := [(''ABCD2345'', demo_claimed_code)]\<rparr>"

lemma demo_acknowledged:
  "acknowledgePairing toy_sha ''ABCD2345'' ''k9'' ''public'' (Some ''x'') 40 demo_claimed
     = Inr (updatePairingCodeExtras ''ABCD2345'' (acknowledged_extras 40 (pc_extras demo_claimed_code)) demo_claimed)"
  by (simp add: acknowledgePairing_def demo_claimed_def demo_claimed_code_def getPairingCode_def extra_get
      matchesSecret_def toy_sha_def)

theorem acknowledgement_erases_witness:
  "claimPairing toy_sha demo_unseal
     (updatePairingCodeExtras ''ABCD2345'' (acknowledged_extras 40 (pc_extras demo_claimed_code)) demo_claimed)
     ''ABCD2345'' (Some ''x'') 50 \<in> {Acknowledged, ClaimFailed}"
  using acknowledgement_erases [OF demo_acknowledged] by simp

theorem pairing_names_unique_witness:
  "distinct (map k_name (t_kiosks (schema_db demo_confirmed ''public''))) \<and>
   schema_db demo_confirmed ''tenant_b'' = schema_db demo_pairing_db ''tenant_b''"
  using pairing_names_unique [OF demo_confirms] by (simp add: demo_schema demo_tenant)

end
