(* ===== verification/BF_Layouts.thy ===== *)
theory BF_Layouts
  imports BF_Samples "HOL-Library.Product_Lexorder"
begin

text \<open>
  Layouts, cells and entities of \<^verbatim>\<open>server/src/shared/db/repository.ts\<close>.  A cell may point to
  a reusable entity; the repository mirrors the entity's content into the legacy columns
  of the cell, which bundle generation uses to find cameras.  The tables of one tenant
  schema are one record; new identifiers are arguments, and change notifications, which
  only reach listeners, are not modelled.
\<close>

section \<open>State\<close>

record ablesign_screen =
  as_id :: string
  as_screen_id :: string
  as_token_encrypted :: "string option"

datatype subscription_status = SubInactive | SubPending | SubActive | SubFailed

record event_subscription =
  es_id :: string
  es_camera_id :: string
  es_status :: subscription_status
  es_kiosk_id :: "string option"

record content_db =
  c_kiosks :: "kiosk list"
  c_displays :: "display list"
  c_display_layouts :: "(string \<times> string) list"
  c_layouts :: "layout list"
  c_layout_labels :: "(string \<times> string) list"
  c_cells :: "layout_cell list"
  c_entities :: "entity list"
  c_cameras :: "camera list"
  c_devices :: "camera_device list"
  c_streams :: "camera_stream list"
  c_labels :: "label_row list"
  c_kiosk_labels :: "kiosk_label list"
  c_camera_labels :: "(string \<times> string) list"
  c_device_labels :: "(string \<times> string) list"
  c_gpio :: "gpio_binding list"
  c_screens :: "ablesign_screen list"
  c_subscriptions :: "event_subscription list"

datatype content_error = NameTaken | LayoutNotFound

section \<open>Entities\<close>

definition getEntityById :: "content_db \<Rightarrow> string \<Rightarrow> entity option" where
  "getEntityById db eid = find (\<lambda>e. ent_id e = eid) (c_entities db)"

definition getEntityByName :: "content_db \<Rightarrow> string \<Rightarrow> entity option" where
  "getEntityByName db name = find (\<lambda>e. ent_name e = name) (c_entities db)"

definition getEntityForCamera :: "content_db \<Rightarrow> string \<Rightarrow> entity option" where
  "getEntityForCamera db cid =
     find (\<lambda>e. ent_type e = EntCamera \<and> ent_camera_id e = Some cid) (c_entities db)"

record entity_input =
  ei_name :: string
  ei_type :: entity_type
  ei_description :: "string option"
  ei_camera_id :: "string option"
  ei_html_content :: "string option"
  ei_web_url :: "string option"
  ei_dashboard_id :: "string option"
  ei_ablesign_screen_id :: "string option"
  ei_managed :: "bool option"

text \<open>Entity names are unique in the schema, so an insert with a taken name fails.\<close>

definition createEntity ::
  "string \<Rightarrow> timestamp \<Rightarrow> entity_input \<Rightarrow> content_db \<Rightarrow> (content_error, content_db \<times> entity) result" where
  "createEntity eid now i db =
     (if getEntityByName db (ei_name i) \<noteq> None then Inl NameTaken
      else let e = \<lparr>ent_id = eid, ent_name = ei_name i, ent_type = ei_type i,
                   ent_description = ei_description i,
                   ent_camera_id = (if ei_type i = EntCamera then ei_camera_id i else None),
                   ent_html_content = (if ei_type i = EntHtml then ei_html_content i else None),
                   ent_web_url = (if ei_type i = EntWeb \<or> ei_type i = EntAblesign then ei_web_url i else None),
                   ent_dashboard_id = (if ei_type i = EntDashboard then ei_dashboard_id i else None),
                   ent_ablesign_screen_id = (if ei_type i = EntAblesign then ei_ablesign_screen_id i else None),
                   ent_managed = nullish (ei_managed i) False,
                   ent_input_options_json = JObj [], ent_created_at = now\<rparr>
           in Inr (db\<lparr>c_entities := c_entities db @ [e]\<rparr>, e))"

definition ensureCameraEntity ::
  "string \<Rightarrow> timestamp \<Rightarrow> camera \<Rightarrow> content_db \<Rightarrow> (content_error, content_db \<times> entity) result" where
  "ensureCameraEntity eid now cam db =
     (case getEntityForCamera db (cam_id cam) of
        Some e \<Rightarrow> Inr (db, e)
      | None \<Rightarrow>
          let name = (if getEntityByName db (cam_name cam) \<noteq> None
                      then cam_name cam @ '' (cam '' @ take 8 (cam_id cam) @ '')'' else cam_name cam)
          in createEntity eid now \<lparr>ei_name = name, ei_type = EntCamera, ei_description = None,
               ei_camera_id = Some (cam_id cam), ei_html_content = None, ei_web_url = None,
               ei_dashboard_id = None, ei_ablesign_screen_id = None, ei_managed = Some True\<rparr> db)"

text \<open>What an entity puts into the legacy columns of its cells.\<close>

fun cell_type_of :: "entity_type \<Rightarrow> cell_content_type" where
  "cell_type_of EntDashboard = CellWeb"
| "cell_type_of EntCamera = CellCamera"
| "cell_type_of EntHtml = CellHtml"
| "cell_type_of EntWeb = CellWeb"
| "cell_type_of EntAblesign = CellAblesign"

definition cell_camera :: "entity \<Rightarrow> string option" where
  "cell_camera e = (if ent_type e = EntCamera then ent_camera_id e else None)"

definition cell_web_url :: "entity \<Rightarrow> string option" where
  "cell_web_url e =
     (if ent_type e = EntWeb then ent_web_url e
      else if ent_type e = EntDashboard \<and> truthy_str (ent_dashboard_id e)
           then Some (''/dash/'' @ the (ent_dashboard_id e)) else None)"

definition cell_html :: "entity \<Rightarrow> string option" where
  "cell_html e = (if ent_type e = EntHtml then ent_html_content e else None)"

definition mirror_entity :: "entity \<Rightarrow> layout_cell \<Rightarrow> layout_cell" where
  "mirror_entity e c = c\<lparr>lc_content_type := cell_type_of (ent_type e), lc_camera_id := cell_camera e,
      lc_web_url := cell_web_url e, lc_html_content := cell_html e\<rparr>"

text \<open>A patch names the columns to set; \<open>None\<close> leaves a column alone.\<close>

record entity_patch =
  ep_name :: "string option"
  ep_description :: "string option option"
  ep_camera_id :: "string option option"
  ep_html_content :: "string option option"
  ep_web_url :: "string option option"
  ep_dashboard_id :: "string option option"
  ep_input_options_json :: "json option"

definition empty_entity_patch :: entity_patch where
  "empty_entity_patch = \<lparr>ep_name = None, ep_description = None, ep_camera_id = None, ep_html_content = None,
     ep_web_url = None, ep_dashboard_id = None, ep_input_options_json = None\<rparr>"

definition patch_entity :: "entity_patch \<Rightarrow> entity \<Rightarrow> entity" where
  "patch_entity p e = e\<lparr>ent_name := nullish (ep_name p) (ent_name e),
     ent_description := nullish (ep_description p) (ent_description e),
     ent_camera_id := nullish (ep_camera_id p) (ent_camera_id e),
     ent_html_content := nullish (ep_html_content p) (ent_html_content e),
     ent_web_url := nullish (ep_web_url p) (ent_web_url e),
     ent_dashboard_id := nullish (ep_dashboard_id p) (ent_dashboard_id e),
     ent_input_options_json := nullish (ep_input_options_json p) (ent_input_options_json e)\<rparr>"

definition updateEntity :: "string \<Rightarrow> entity_patch \<Rightarrow> content_db \<Rightarrow> (content_error, content_db) result" where
  "updateEntity eid p db =
     (if p = empty_entity_patch then Inr db
      else if ep_name p \<noteq> None \<and> getEntityById db eid \<noteq> None
              \<and> list_ex (\<lambda>e. ent_id e \<noteq> eid \<and> Some (ent_name e) = ep_name p) (c_entities db)
      then Inl NameTaken
      else let db1 = db\<lparr>c_entities := map (\<lambda>e. if ent_id e = eid then patch_entity p e else e) (c_entities db)\<rparr>
           in case getEntityById db1 eid of
                None \<Rightarrow> Inr db1
              | Some e \<Rightarrow> Inr (db1\<lparr>c_cells := map (\<lambda>c. if lc_entity_id c = Some eid then mirror_entity e c else c)
                                         (c_cells db1)\<rparr>))"

text \<open>No foreign key ties \<^verbatim>\<open>layout_cells.entity_id\<close> to the entities table.\<close>

definition deleteEntity :: "string \<Rightarrow> content_db \<Rightarrow> content_db" where
  "deleteEntity eid db = db\<lparr>c_entities := filter (\<lambda>e. ent_id e \<noteq> eid) (c_entities db)\<rparr>"

section \<open>Cells\<close>

record cell_input =
  ni_layout_id :: string
  ni_row :: number
  ni_col :: number
  ni_row_span :: "number option"
  ni_col_span :: "number option"
  ni_content_type :: "cell_content_type option"
  ni_camera_id :: "string option"
  ni_stream_selector :: "stream_selector option"
  ni_web_url :: "string option"
  ni_html_content :: "string option"
  ni_cooling_timeout_seconds :: "number option"
  ni_options :: "json option"
  ni_entity_id :: "string option"
  ni_fit :: "fit_mode option"
  ni_input_options_json :: "json option"

definition new_cell :: "string \<Rightarrow> cell_input \<Rightarrow> layout_cell" where
  "new_cell cid i = \<lparr>lc_id = cid, lc_layout_id = ni_layout_id i, lc_region_name = [], lc_row = ni_row i,
     lc_col = ni_col i, lc_row_span = nullish (ni_row_span i) 1, lc_col_span = nullish (ni_col_span i) 1,
     lc_content_type = nullish (ni_content_type i) CellNone, lc_camera_id = ni_camera_id i,
     lc_stream_selector = nullish (ni_stream_selector i) SelAuto, lc_web_url = ni_web_url i,
     lc_html_content = ni_html_content i, lc_cooling_timeout_seconds = ni_cooling_timeout_seconds i,
     lc_options = nullish (ni_options i) (JObj []),
     lc_input_options_json = nullish (ni_input_options_json i) (JObj []), lc_entity_id = ni_entity_id i,
     lc_fit = nullish (ni_fit i) FitCover\<rparr>"

definition createLayoutCell :: "string \<Rightarrow> cell_input \<Rightarrow> content_db \<Rightarrow> content_db" where
  "createLayoutCell cid i db =
     (let c = new_cell cid i;
          c' = (case ni_entity_id i of
                  None \<Rightarrow> c
                | Some eid \<Rightarrow> (case getEntityById db eid of None \<Rightarrow> c | Some e \<Rightarrow> mirror_entity e c))
      in db\<lparr>c_cells := c_cells db @ [c']\<rparr>)"

definition update_cell :: "string \<Rightarrow> (layout_cell \<Rightarrow> layout_cell) \<Rightarrow> content_db \<Rightarrow> content_db" where
  "update_cell cid f db = db\<lparr>c_cells := map (\<lambda>c. if lc_id c = cid then f c else c) (c_cells db)\<rparr>"

definition assignCellEntity :: "string \<Rightarrow> string option \<Rightarrow> content_db \<Rightarrow> content_db" where
  "assignCellEntity cid eid db =
     (case eid of
        None \<Rightarrow> update_cell cid (\<lambda>c. c\<lparr>lc_entity_id := None, lc_content_type := CellNone,
                  lc_camera_id := None, lc_web_url := None, lc_html_content := None\<rparr>) db
      | Some e \<Rightarrow>
          (case getEntityById db e of
             None \<Rightarrow> db
           | Some ent \<Rightarrow> update_cell cid (\<lambda>c. mirror_entity ent (c\<lparr>lc_entity_id := Some (ent_id ent)\<rparr>)) db))"

text \<open>The columns that the editor patches.\<close>

record cell_patch =
  cp_row :: "number option"
  cp_col :: "number option"
  cp_row_span :: "number option"
  cp_col_span :: "number option"
  cp_stream_selector :: "stream_selector option"
  cp_fit :: "fit_mode option"
  cp_options :: "json option"
  cp_input_options_json :: "json option"

definition patch_cell :: "cell_patch \<Rightarrow> layout_cell \<Rightarrow> layout_cell" where
  "patch_cell p c = c\<lparr>lc_row := nullish (cp_row p) (lc_row c), lc_col := nullish (cp_col p) (lc_col c),
     lc_row_span := nullish (cp_row_span p) (lc_row_span c), lc_col_span := nullish (cp_col_span p) (lc_col_span c),
     lc_stream_selector := nullish (cp_stream_selector p) (lc_stream_selector c),
     lc_fit := nullish (cp_fit p) (lc_fit c), lc_options := nullish (cp_options p) (lc_options c),
     lc_input_options_json := nullish (cp_input_options_json p) (lc_input_options_json c)\<rparr>"

definition updateLayoutCell :: "string \<Rightarrow> cell_patch \<Rightarrow> content_db \<Rightarrow> content_db" where
  "updateLayoutCell cid p = update_cell cid (patch_cell p)"

definition deleteLayoutCell :: "string \<Rightarrow> content_db \<Rightarrow> content_db" where
  "deleteLayoutCell cid db = db\<lparr>c_cells := filter (\<lambda>c. lc_id c \<noteq> cid) (c_cells db)\<rparr>"

datatype axis = AxisRow | AxisCol

definition shiftCellsForLayout :: "string \<Rightarrow> axis \<Rightarrow> number \<Rightarrow> number \<Rightarrow> content_db \<Rightarrow> content_db" where
  "shiftCellsForLayout lid ax from delta db =
     (if delta = 0 then db
      else db\<lparr>c_cells := map (\<lambda>c. if lc_layout_id c \<noteq> lid then c
             else case ax of
               AxisRow \<Rightarrow> if lc_row c \<ge> from then c\<lparr>lc_row := lc_row c + delta\<rparr> else c
             | AxisCol \<Rightarrow> if lc_col c \<ge> from then c\<lparr>lc_col := lc_col c + delta\<rparr> else c) (c_cells db)\<rparr>)"

text \<open>
  Reading a row turns a zero span into one and an absent region into the empty string; the
  order is by row, then column.
\<close>

definition rowToLayoutCell :: "layout_cell \<Rightarrow> layout_cell" where
  "rowToLayoutCell c = c\<lparr>lc_region_name := [],
                         lc_row_span := (if lc_row_span c = 0 then 1 else lc_row_span c),
                         lc_col_span := (if lc_col_span c = 0 then 1 else lc_col_span c)\<rparr>"

definition listLayoutCells :: "content_db \<Rightarrow> string \<Rightarrow> layout_cell list" where
  "listLayoutCells db lid =
     map rowToLayoutCell (sort_key (\<lambda>c. (lc_row c, lc_col c)) (filter (\<lambda>c. lc_layout_id c = lid) (c_cells db)))"

section \<open>Layouts\<close>

definition getLayoutById :: "content_db \<Rightarrow> string \<Rightarrow> layout option" where
  "getLayoutById db lid = find (\<lambda>l. l_id l = lid) (c_layouts db)"

text \<open>
  The order of \<^verbatim>\<open>ORDER BY name\<close> is the collation of the database; \<open>ck\<close> gives the sort key of
  a name.
\<close>

definition listLayoutsForDisplay :: "(string \<Rightarrow> 'k::linorder) \<Rightarrow> content_db \<Rightarrow> string \<Rightarrow> layout list" where
  "listLayoutsForDisplay ck db did =
     sort_key (\<lambda>l. ck (l_name l)) (filter (\<lambda>l. (did, l_id l) \<in> set (c_display_layouts db)) (c_layouts db))"

definition attachLayoutToDisplay :: "string \<Rightarrow> string \<Rightarrow> content_db \<Rightarrow> content_db" where
  "attachLayoutToDisplay did lid db =
     (if (did, lid) \<in> set (c_display_layouts db) then db
      else db\<lparr>c_display_layouts := c_display_layouts db @ [(did, lid)]\<rparr>)"

definition detachLayoutFromDisplay :: "string \<Rightarrow> string \<Rightarrow> content_db \<Rightarrow> content_db" where
  "detachLayoutFromDisplay did lid db =
     db\<lparr>c_display_layouts := filter (\<lambda>x. x \<noteq> (did, lid)) (c_display_layouts db),
        c_displays := map (\<lambda>d. if d_id d = did \<and> d_default_layout_id d = Some lid
                               then d\<lparr>d_default_layout_id := None\<rparr> else d) (c_displays db)\<rparr>"

record layout_input =
  li_name :: string
  li_description :: "string option"
  li_priority :: "layout_priority option"
  li_cooling_timeout_seconds :: "number option"
  li_idle_timeout_seconds :: "number option"
  li_preload_camera_ids :: "string list option"
  li_resets_idle_timer :: "bool option"
  li_input_options_json :: "json option"

text \<open>\<open>sk\<close> is the short key that a database trigger assigns.\<close>

definition createLayout ::
  "string \<Rightarrow> string option \<Rightarrow> layout_input \<Rightarrow> content_db \<Rightarrow> (content_error, content_db \<times> layout) result" where
  "createLayout lid sk i db =
     (if list_ex (\<lambda>l. l_name l = li_name i) (c_layouts db) then Inl NameTaken
      else let l = \<lparr>l_local_short_key = sk, l_id = lid, l_name = li_name i, l_description = li_description i,
                   l_template_id = None, l_regions = [], l_grid_cols = 1, l_grid_rows = 1, l_display_id = None,
                   l_priority = nullish (li_priority i) PrioNormal,
                   l_cooling_timeout_seconds = li_cooling_timeout_seconds i,
                   l_idle_timeout_seconds = li_idle_timeout_seconds i,
                   l_preload_camera_ids = nullish (li_preload_camera_ids i) [], l_is_default = False,
                   l_resets_idle_timer = nullish (li_resets_idle_timer i) True,
                   l_input_options_json = nullish (li_input_options_json i) (JObj [])\<rparr>
           in Inr (db\<lparr>c_layouts := c_layouts db @ [l]\<rparr>, l))"

text \<open>The search for the name of a copy: fuel bounds the candidates tried.\<close>

fun clone_name_loop :: "nat \<Rightarrow> string list \<Rightarrow> string \<Rightarrow> string \<Rightarrow> nat \<Rightarrow> string option" where
  "clone_name_loop 0 names base cand sfx = None"
| "clone_name_loop (Suc n) names base cand sfx =
     (if cand \<in> set names then clone_name_loop n names base (base @ '' (copy '' @ show_nat sfx @ '')'') (sfx + 1)
      else Some cand)"

definition clone_name :: "content_db \<Rightarrow> string \<Rightarrow> string" where
  "clone_name db base =
     (let names = map l_name (c_layouts db)
      in nullish (clone_name_loop (Suc (length names)) names base (base @ '' (copy)'') 2) (base @ '' (copy)''))"

definition clone_cell_input :: "string \<Rightarrow> layout_cell \<Rightarrow> cell_input" where
  "clone_cell_input lid c = \<lparr>ni_layout_id = lid, ni_row = lc_row c, ni_col = lc_col c,
     ni_row_span = Some (lc_row_span c), ni_col_span = Some (lc_col_span c),
     ni_content_type = Some (lc_content_type c), ni_camera_id = lc_camera_id c,
     ni_stream_selector = Some (lc_stream_selector c), ni_web_url = lc_web_url c,
     ni_html_content = lc_html_content c, ni_cooling_timeout_seconds = lc_cooling_timeout_seconds c,
     ni_options = Some (lc_options c), ni_entity_id = lc_entity_id c, ni_fit = Some (lc_fit c),
     ni_input_options_json = None\<rparr>"

fun clone_cells :: "(nat \<Rightarrow> string) \<Rightarrow> string \<Rightarrow> nat \<Rightarrow> layout_cell list \<Rightarrow> content_db \<Rightarrow> content_db" where
  "clone_cells fresh lid n [] db = db"
| "clone_cells fresh lid n (c # cs) db =
     clone_cells fresh lid (Suc n) cs (createLayoutCell (fresh n) (clone_cell_input lid c) db)"

definition cloneLayout ::
  "string \<Rightarrow> string option \<Rightarrow> (nat \<Rightarrow> string) \<Rightarrow> string \<Rightarrow> content_db
   \<Rightarrow> (content_error, content_db \<times> layout) result" where
  "cloneLayout new_id sk fresh lid db =
     (case getLayoutById db lid of
        None \<Rightarrow> Inl LayoutNotFound
      | Some src \<Rightarrow>
          bind_result (createLayout new_id sk \<lparr>li_name = clone_name db (l_name src),
              li_description = l_description src, li_priority = Some (l_priority src),
              li_cooling_timeout_seconds = l_cooling_timeout_seconds src,
              li_idle_timeout_seconds = l_idle_timeout_seconds src,
              li_preload_camera_ids = Some (l_preload_camera_ids src),
              li_resets_idle_timer = Some (l_resets_idle_timer src),
              li_input_options_json = Some (l_input_options_json src)\<rparr> db) (\<lambda>(db1, clone).
            let db2 = clone_cells fresh new_id 0 (listLayoutCells db1 lid) db1;
                db3 = db2\<lparr>c_layout_labels := c_layout_labels db2
                           @ map (\<lambda>(_, lab). (new_id, lab)) (filter (\<lambda>(l, _). l = lid) (c_layout_labels db2))\<rparr>;
                db4 = foldl (\<lambda>d did. attachLayoutToDisplay did new_id d) db3
                        (map fst (filter (\<lambda>(_, l). l = lid) (c_display_layouts db3)))
            in Inr (db4, clone)))"

definition deleteLayout :: "string \<Rightarrow> content_db \<Rightarrow> content_db" where
  "deleteLayout lid db =
     db\<lparr>c_cells := filter (\<lambda>c. lc_layout_id c \<noteq> lid) (c_cells db),
        c_layout_labels := filter (\<lambda>x. fst x \<noteq> lid) (c_layout_labels db),
        c_display_layouts := filter (\<lambda>x. snd x \<noteq> lid) (c_display_layouts db),
        c_displays := map (\<lambda>d. if d_default_layout_id d = Some lid
                               then d\<lparr>d_default_layout_id := None\<rparr> else d) (c_displays db),
        c_layouts := filter (\<lambda>l. l_id l \<noteq> lid) (c_layouts db)\<rparr>"

text \<open>Deleting a camera removes its cells and, by cascade, its entities and subscriptions.\<close>

definition deleteCamera :: "string \<Rightarrow> content_db \<Rightarrow> content_db" where
  "deleteCamera cid db =
     db\<lparr>c_camera_labels := filter (\<lambda>x. fst x \<noteq> cid) (c_camera_labels db),
        c_streams := filter (\<lambda>s. cs_camera_id s \<noteq> cid) (c_streams db),
        c_cells := filter (\<lambda>c. lc_camera_id c \<noteq> Some cid) (c_cells db),
        c_entities := filter (\<lambda>e. ent_camera_id e \<noteq> Some cid) (c_entities db),
        c_subscriptions := filter (\<lambda>s. es_camera_id s \<noteq> cid) (c_subscriptions db),
        c_cameras := filter (\<lambda>c. cam_id c \<noteq> cid) (c_cameras db)\<rparr>"

section \<open>The mirror invariant\<close>

text \<open>A cell whose entity exists shows that entity's content in its legacy columns.\<close>

definition in_step :: "content_db \<Rightarrow> layout_cell \<Rightarrow> bool" where
  "in_step db c \<longleftrightarrow> (case lc_entity_id c of
     None \<Rightarrow> True
   | Some eid \<Rightarrow> (case getEntityById db eid of None \<Rightarrow> True | Some e \<Rightarrow> mirror_entity e c = c))"

definition mirrored :: "content_db \<Rightarrow> bool" where
  "mirrored db \<longleftrightarrow> list_all (in_step db) (c_cells db)"

datatype content_op =
    CreateEntity string timestamp entity_input
  | EnsureCameraEntity string timestamp camera
  | UpdateEntity string entity_patch
  | DeleteEntity string
  | CreateCell string cell_input
  | AssignCell string "string option"
  | UpdateCell string cell_patch
  | DeleteCell string
  | ShiftCells string axis number number
  | CreateLayout string "string option" layout_input
  | CloneLayout string "string option" "nat \<Rightarrow> string" string
  | DeleteLayout string
  | Attach string string
  | Detach string string
  | DeleteCamera string

text \<open>A statement that fails leaves the tables unchanged.\<close>

definition settle_db :: "(content_error, content_db \<times> 'a) result \<Rightarrow> content_db \<Rightarrow> content_db" where
  "settle_db r db = (case r of Inl _ \<Rightarrow> db | Inr (db', _) \<Rightarrow> db')"

fun content_step :: "content_op \<Rightarrow> content_db \<Rightarrow> content_db" where
  "content_step (CreateEntity eid now i) db = settle_db (createEntity eid now i db) db"
| "content_step (EnsureCameraEntity eid now cam) db = settle_db (ensureCameraEntity eid now cam db) db"
| "content_step (UpdateEntity eid p) db = (case updateEntity eid p db of Inl _ \<Rightarrow> db | Inr db' \<Rightarrow> db')"
| "content_step (DeleteEntity eid) db = deleteEntity eid db"
| "content_step (CreateCell cid i) db = createLayoutCell cid i db"
| "content_step (AssignCell cid eid) db = assignCellEntity cid eid db"
| "content_step (UpdateCell cid p) db = updateLayoutCell cid p db"
| "content_step (DeleteCell cid) db = deleteLayoutCell cid db"
| "content_step (ShiftCells lid ax from delta) db = shiftCellsForLayout lid ax from delta db"
| "content_step (CreateLayout lid sk i) db = settle_db (createLayout lid sk i db) db"
| "content_step (CloneLayout new_id sk fresh lid) db = settle_db (cloneLayout new_id sk fresh lid db) db"
| "content_step (DeleteLayout lid) db = deleteLayout lid db"
| "content_step (Attach did lid) db = attachLayoutToDisplay did lid db"
| "content_step (Detach did lid) db = detachLayoutFromDisplay did lid db"
| "content_step (DeleteCamera cid) db = deleteCamera cid db"

text \<open>A new entity's identifier is fresh: no row has it and no cell refers to it yet.\<close>

definition unused_entity_id :: "string \<Rightarrow> content_db \<Rightarrow> bool" where
  "unused_entity_id eid db \<longleftrightarrow> list_all (\<lambda>c. lc_entity_id c \<noteq> Some eid) (c_cells db)
                               \<and> list_all (\<lambda>e. ent_id e \<noteq> eid) (c_entities db)"

fun fresh_op :: "content_op \<Rightarrow> content_db \<Rightarrow> bool" where
  "fresh_op (CreateEntity eid _ _) db = unused_entity_id eid db"
| "fresh_op (EnsureCameraEntity eid _ _) db = unused_entity_id eid db"
| "fresh_op _ db = True"

fun content_run :: "content_op list \<Rightarrow> content_db \<Rightarrow> content_db" where
  "content_run [] db = db"
| "content_run (x # xs) db = content_run xs (content_step x db)"

fun fresh_run :: "content_op list \<Rightarrow> content_db \<Rightarrow> bool" where
  "fresh_run [] db = True"
| "fresh_run (x # xs) db = (fresh_op x db \<and> fresh_run xs (content_step x db))"

lemma mirror_idem [simp]: "mirror_entity e (mirror_entity e c) = mirror_entity e c"
  by (simp add: mirror_entity_def)

lemma mirror_entity_id [simp]: "lc_entity_id (mirror_entity e c) = lc_entity_id c"
  by (simp add: mirror_entity_def)

lemma mirror_fields [simp]:
  "lc_layout_id (mirror_entity e c) = lc_layout_id c" "lc_id (mirror_entity e c) = lc_id c"
  "lc_row (mirror_entity e c) = lc_row c" "lc_col (mirror_entity e c) = lc_col c"
  "lc_camera_id (mirror_entity e c) = cell_camera e" "lc_web_url (mirror_entity e c) = cell_web_url e"
  by (simp_all add: mirror_entity_def)

lemma mirror_eq_iff:
  "mirror_entity e c = c \<longleftrightarrow> lc_content_type c = cell_type_of (ent_type e) \<and> lc_camera_id c = cell_camera e
     \<and> lc_web_url c = cell_web_url e \<and> lc_html_content c = cell_html e"
  by (cases c) (auto simp: mirror_entity_def)

lemma in_step_iff:
  "in_step db c \<longleftrightarrow> (\<forall>eid e. lc_entity_id c = Some eid \<longrightarrow> getEntityById db eid = Some e \<longrightarrow> mirror_entity e c = c)"
  by (simp add: in_step_def split: option.split)

lemma in_step_mirror: "getEntityById db eid = Some e \<Longrightarrow> lc_entity_id c = Some eid \<Longrightarrow> in_step db (mirror_entity e c)"
  by (simp add: in_step_iff)

lemma getEntityById_cells [simp]: "getEntityById (db\<lparr>c_cells := x\<rparr>) = getEntityById db"
  by (simp add: getEntityById_def fun_eq_iff)

lemma in_step_cells [simp]: "in_step (db\<lparr>c_cells := x\<rparr>) = in_step db"
  by (simp add: in_step_iff fun_eq_iff)

text \<open>Only the entity, its legacy columns and the entities table matter for a cell.\<close>

lemma in_step_cong:
  assumes "in_step db c" and "lc_entity_id c' = lc_entity_id c" and "lc_content_type c' = lc_content_type c"
    and "lc_camera_id c' = lc_camera_id c" and "lc_web_url c' = lc_web_url c"
    and "lc_html_content c' = lc_html_content c" and "getEntityById db' = getEntityById db"
  shows "in_step db' c'"
  using assms by (simp add: in_step_iff mirror_eq_iff)

lemma mirrored_cells:
  assumes "mirrored db" and "getEntityById db' = getEntityById db" and "set (c_cells db') \<subseteq> set (c_cells db)"
  shows "mirrored db'"
  using assms by (auto simp: mirrored_def list_all_iff in_step_iff)

lemma mirrored_map:
  assumes "mirrored db" and "\<And>c. in_step db c \<Longrightarrow> in_step db (f c)"
  shows "mirrored (db\<lparr>c_cells := map f (c_cells db)\<rparr>)"
  using assms by (simp add: mirrored_def list_all_iff)

lemma mirrored_snoc: "mirrored (db\<lparr>c_cells := c_cells db @ [c]\<rparr>) \<longleftrightarrow> mirrored db \<and> in_step db c"
  by (auto simp: mirrored_def)

lemma createLayoutCell_mirrored: "mirrored db \<Longrightarrow> mirrored (createLayoutCell cid i db)"
  by (auto simp: createLayoutCell_def Let_def mirrored_snoc in_step_def new_cell_def split: option.splits)

lemma update_cell_mirrored:
  "mirrored db \<Longrightarrow> (\<And>c. in_step db c \<Longrightarrow> in_step db (f c)) \<Longrightarrow> mirrored (update_cell cid f db)"
  unfolding update_cell_def by (rule mirrored_map) auto

lemma getEntityById_id: "getEntityById db eid = Some e \<Longrightarrow> ent_id e = eid"
  by (auto simp: getEntityById_def find_Some_iff)

lemma assignCellEntity_mirrored: "mirrored db \<Longrightarrow> mirrored (assignCellEntity cid eid db)"
  by (auto simp: assignCellEntity_def getEntityById_id in_step_def intro!: update_cell_mirrored split: option.splits)

lemma updateLayoutCell_mirrored: "mirrored db \<Longrightarrow> mirrored (updateLayoutCell cid p db)"
  unfolding updateLayoutCell_def
  by (rule update_cell_mirrored) (auto simp: patch_cell_def elim!: in_step_cong)

lemma shift_mirrored: "mirrored db \<Longrightarrow> mirrored (shiftCellsForLayout lid ax from delta db)"
  by (auto simp: shiftCellsForLayout_def intro!: mirrored_map elim!: in_step_cong split: axis.split)

lemma find_snoc: "find P (xs @ [x]) = (case find P xs of Some y \<Rightarrow> Some y | None \<Rightarrow> if P x then Some x else None)"
  by (induction xs) auto

lemma createEntity_mirrored:
  assumes "mirrored db" and "list_all (\<lambda>c. lc_entity_id c \<noteq> Some eid) (c_cells db)"
    and "createEntity eid now i db = Inr (db', e)"
  shows "mirrored db'"
proof -
  have db': "db' = db\<lparr>c_entities := c_entities db @ [e]\<rparr>" and e: "ent_id e = eid"
    using assms(3) by (auto simp: createEntity_def Let_def split: if_splits)
  have "getEntityById db' x = getEntityById db x" if "x \<noteq> eid" for x
    using that by (simp add: db' e getEntityById_def find_snoc split: option.split)
  then show ?thesis
    using assms(1,2) by (auto simp: db' mirrored_def list_all_iff in_step_iff)
qed

lemma ensureCameraEntity_mirrored:
  assumes "mirrored db" and "list_all (\<lambda>c. lc_entity_id c \<noteq> Some eid) (c_cells db)"
    and "ensureCameraEntity eid now cam db = Inr (db', e)"
  shows "mirrored db'"
  using assms createEntity_mirrored [OF assms(1,2)]
  by (auto simp: ensureCameraEntity_def Let_def split: option.splits)

lemma find_map_id:
  assumes "\<And>e. key (f e) = key e"
  shows "find (\<lambda>e. key e = k) (map (\<lambda>e. if key e = i then f e else e) xs)
           = map_option (\<lambda>e. if key e = i then f e else e) (find (\<lambda>e. key e = k) xs)"
  using assms by (induction xs) auto

lemma updateEntity_mirrored:
  assumes "mirrored db" and "updateEntity eid p db = Inr db'"
  shows "mirrored db'"
proof (cases "p = empty_entity_patch")
  case True
  with assms show ?thesis by (simp add: updateEntity_def)
next
  case False
  define db1 where "db1 = db\<lparr>c_entities := map (\<lambda>e. if ent_id e = eid then patch_entity p e else e) (c_entities db)\<rparr>"
  have look: "getEntityById db1 x = map_option (\<lambda>e. if ent_id e = eid then patch_entity p e else e) (getEntityById db x)" for x
    by (simp add: db1_def getEntityById_def find_map_id patch_entity_def)
  then have other: "getEntityById db1 x = getEntityById db x" if "x \<noteq> eid" for x
    using that by (cases "getEntityById db x") (auto dest: getEntityById_id)
  have res: "db' = (case getEntityById db1 eid of None \<Rightarrow> db1
     | Some e \<Rightarrow> db1\<lparr>c_cells := map (\<lambda>c. if lc_entity_id c = Some eid then mirror_entity e c else c) (c_cells db1)\<rparr>)"
    using assms(2) False by (auto simp: updateEntity_def db1_def Let_def split: if_splits option.splits)
  have cells: "c_cells db1 = c_cells db" by (simp add: db1_def)
  show ?thesis
  proof (cases "getEntityById db1 eid")
    case None
    then have "getEntityById db eid = None" by (simp add: look)
    with None have "getEntityById db1 = getEntityById db" using other by (metis ext)
    with None assms(1) show ?thesis by (auto simp: res cells intro!: mirrored_cells [of db])
  next
    case (Some e)
    have "in_step db1 (if lc_entity_id c = Some eid then mirror_entity e c else c)" if "in_step db c" for c
      using that Some other by (auto simp: in_step_iff)
    with assms(1) have "list_all (\<lambda>c. in_step db1 (if lc_entity_id c = Some eid then mirror_entity e c else c)) (c_cells db)"
      by (simp add: mirrored_def list_all_iff)
    with Some show ?thesis by (simp add: res mirrored_def cells list.pred_map comp_def)
  qed
qed

text \<open>Deleting rows of the entities table only loosens the invariant.\<close>

lemma find_filter_id:
  "find (\<lambda>e. key e = k) (filter (\<lambda>e. key e \<noteq> i) xs) = (if k = i then None else find (\<lambda>e. key e = k) xs)"
  by (induction xs) auto

lemma deleteEntity_mirrored: "mirrored db \<Longrightarrow> mirrored (deleteEntity eid db)"
  by (auto simp: deleteEntity_def mirrored_def list_all_iff in_step_iff getEntityById_def find_filter_id
      split: if_splits)

lemma createLayout_db: "createLayout lid sk i db = Inr (db', l) \<Longrightarrow>
    c_cells db' = c_cells db \<and> getEntityById db' = getEntityById db \<and> c_layouts db' = c_layouts db @ [l]
    \<and> l_id l = lid \<and> c_display_layouts db' = c_display_layouts db \<and> c_layout_labels db' = c_layout_labels db"
  by (auto simp: createLayout_def Let_def getEntityById_def fun_eq_iff split: if_splits)

lemma clone_cells_mirrored: "mirrored db \<Longrightarrow> mirrored (clone_cells fresh lid n cs db)"
  by (induction cs arbitrary: n db) (auto intro: createLayoutCell_mirrored)

lemma attach_db [simp]:
  "c_cells (attachLayoutToDisplay did lid db) = c_cells db"
  "getEntityById (attachLayoutToDisplay did lid db) = getEntityById db"
  "c_layouts (attachLayoutToDisplay did lid db) = c_layouts db"
  by (auto simp: attachLayoutToDisplay_def getEntityById_def fun_eq_iff)

lemma attach_all_db [simp]:
  "c_cells (foldl (\<lambda>d did. attachLayoutToDisplay did lid d) db dids) = c_cells db"
  "getEntityById (foldl (\<lambda>d did. attachLayoutToDisplay did lid d) db dids) = getEntityById db"
  "c_layouts (foldl (\<lambda>d did. attachLayoutToDisplay did lid d) db dids) = c_layouts db"
  by (induction dids arbitrary: db) auto

lemma getEntityById_labels [simp]: "getEntityById (db\<lparr>c_layout_labels := x\<rparr>) = getEntityById db"
  by (simp add: getEntityById_def fun_eq_iff)

lemma cloneLayout_mirrored:
  assumes "mirrored db" and "cloneLayout new_id sk fresh lid db = Inr (db', l)"
  shows "mirrored db'"
proof -
  obtain src db1 i where new: "createLayout new_id sk i db = Inr (db1, l)"
    and db': "c_cells db' = c_cells (clone_cells fresh new_id 0 (listLayoutCells db1 lid) db1)"
      "getEntityById db' = getEntityById (clone_cells fresh new_id 0 (listLayoutCells db1 lid) db1)"
    using assms(2) by (auto simp: cloneLayout_def bind_result_eq_Inr Let_def split: option.splits)
  have "mirrored db1"
    using createLayout_db [OF new] by (intro mirrored_cells [OF assms(1)]) auto
  then have "mirrored (clone_cells fresh new_id 0 (listLayoutCells db1 lid) db1)"
    by (rule clone_cells_mirrored)
  then show ?thesis by (rule mirrored_cells) (simp_all add: db')
qed

lemma filter_mirrored: "mirrored db \<Longrightarrow> getEntityById db' = getEntityById db \<Longrightarrow>
    c_cells db' = filter P (c_cells db) \<Longrightarrow> mirrored db'"
  by (erule mirrored_cells) auto

lemma deleteLayout_mirrored: "mirrored db \<Longrightarrow> mirrored (deleteLayout lid db)"
  by (erule filter_mirrored [where P = "\<lambda>c. lc_layout_id c \<noteq> lid"])
     (simp_all add: deleteLayout_def getEntityById_def fun_eq_iff)

lemma deleteLayoutCell_mirrored: "mirrored db \<Longrightarrow> mirrored (deleteLayoutCell cid db)"
  by (erule filter_mirrored [where P = "\<lambda>c. lc_id c \<noteq> cid"])
     (simp_all add: deleteLayoutCell_def getEntityById_def fun_eq_iff)

lemma attach_mirrored: "mirrored db \<Longrightarrow> mirrored (attachLayoutToDisplay did lid db)"
  by (erule mirrored_cells) auto

lemma detach_mirrored: "mirrored db \<Longrightarrow> mirrored (detachLayoutFromDisplay did lid db)"
  by (erule mirrored_cells) (auto simp: detachLayoutFromDisplay_def getEntityById_def fun_eq_iff)

text \<open>With the primary key, the cascade of a deleted camera also only loosens the invariant.\<close>

definition entity_key :: "content_db \<Rightarrow> bool" where
  "entity_key db \<longleftrightarrow> distinct (map ent_id (c_entities db))"

lemma find_filter_distinct:
  assumes "distinct (map key xs)" and "find (\<lambda>e. key e = k) (filter P xs) = Some y"
  shows "find (\<lambda>e. key e = k) xs = Some y"
  using assms
proof (induction xs)
  case (Cons x xs)
  have "key x \<noteq> k" if "find (\<lambda>e. key e = k) (filter P xs) = Some y"
  proof -
    from that have "y \<in> set xs" "key y = k"
      by (auto simp: find_Some_iff) (metis filter_is_subset nth_mem subsetD)
    with Cons.prems(1) show ?thesis by auto
  qed
  with Cons show ?case by (auto split: if_splits)
qed simp

lemma deleteCamera_mirrored:
  assumes "mirrored db" and "entity_key db"
  shows "mirrored (deleteCamera cid db)"
  using assms
  by (auto simp: deleteCamera_def mirrored_def entity_key_def list_all_iff in_step_iff getEntityById_def
      dest: find_filter_distinct)

lemma clone_cells_entities [simp]: "c_entities (clone_cells fresh lid n cs db) = c_entities db"
  by (induction cs arbitrary: n db) (simp_all add: createLayoutCell_def Let_def)

lemma attach_all_entities [simp]:
  "c_entities (foldl (\<lambda>d did. attachLayoutToDisplay did lid d) db dids) = c_entities db"
  by (induction dids arbitrary: db) (auto simp: attachLayoutToDisplay_def)

lemma cloneLayout_entities: "cloneLayout new_id sk fresh lid db = Inr (db', l) \<Longrightarrow> c_entities db' = c_entities db"
  by (auto simp: cloneLayout_def bind_result_eq_Inr Let_def createLayout_def split: option.splits if_splits)

lemma patch_entity_id [simp]: "ent_id (patch_entity p e) = ent_id e"
  by (simp add: patch_entity_def)

lemma updateEntity_ids: "updateEntity eid p db = Inr db' \<Longrightarrow> map ent_id (c_entities db') = map ent_id (c_entities db)"
  by (auto simp: updateEntity_def Let_def split: if_splits option.splits)

lemma createEntity_key:
  "createEntity eid now i db = Inr (db', e) \<Longrightarrow> entity_key db \<Longrightarrow> unused_entity_id eid db \<Longrightarrow> entity_key db'"
  by (auto simp: createEntity_def Let_def entity_key_def unused_entity_id_def list_all_iff split: if_splits)

lemma ensureCameraEntity_key:
  "ensureCameraEntity eid now cam db = Inr (db', e) \<Longrightarrow> entity_key db \<Longrightarrow> unused_entity_id eid db \<Longrightarrow> entity_key db'"
  by (auto simp: ensureCameraEntity_def Let_def split: option.splits dest: createEntity_key)

lemma content_step_key:
  assumes "entity_key db" and "fresh_op x db"
  shows "entity_key (content_step x db)"
proof (cases x)
  case (CreateEntity eid now i)
  with assms show ?thesis by (auto simp: settle_db_def dest: createEntity_key split: sum.splits)
next
  case (EnsureCameraEntity eid now cam)
  with assms show ?thesis by (auto simp: settle_db_def dest: ensureCameraEntity_key split: sum.splits)
next
  case (UpdateEntity eid p)
  with assms show ?thesis by (auto simp: entity_key_def dest: updateEntity_ids split: sum.splits)
next
  case (CloneLayout new_id sk fresh lid)
  with assms show ?thesis
    by (auto simp: entity_key_def settle_db_def dest: cloneLayout_entities split: sum.splits)
next
  case (CreateLayout lid sk i)
  with assms show ?thesis
    by (auto simp: entity_key_def settle_db_def createLayout_def Let_def split: if_splits)
qed (use assms in \<open>auto simp: entity_key_def deleteEntity_def createLayoutCell_def Let_def assignCellEntity_def
      update_cell_def updateLayoutCell_def deleteLayoutCell_def shiftCellsForLayout_def deleteLayout_def
      attachLayoutToDisplay_def detachLayoutFromDisplay_def deleteCamera_def distinct_map_filter
      split: option.splits\<close>)

lemma content_step_mirrored:
  assumes "mirrored db" and "entity_key db" and "fresh_op x db"
  shows "mirrored (content_step x db)"
proof (cases x)
  case (CreateEntity eid now i)
  with assms show ?thesis
    by (auto simp: settle_db_def unused_entity_id_def dest: createEntity_mirrored split: sum.splits)
next
  case (EnsureCameraEntity eid now cam)
  with assms show ?thesis
    by (auto simp: settle_db_def unused_entity_id_def dest: ensureCameraEntity_mirrored split: sum.splits)
next
  case (UpdateEntity eid p)
  with assms show ?thesis by (auto dest: updateEntity_mirrored split: sum.splits)
next
  case (CloneLayout new_id sk fresh lid)
  with assms show ?thesis by (auto simp: settle_db_def dest: cloneLayout_mirrored split: sum.splits)
next
  case (CreateLayout lid sk i)
  with assms show ?thesis
    by (auto simp: settle_db_def dest: createLayout_db intro!: mirrored_cells [of db] split: sum.splits)
qed (use assms in \<open>simp_all add: deleteEntity_mirrored createLayoutCell_mirrored assignCellEntity_mirrored
      updateLayoutCell_mirrored deleteLayoutCell_mirrored shift_mirrored deleteLayout_mirrored attach_mirrored
      detach_mirrored deleteCamera_mirrored\<close>)

section \<open>Copies of layouts\<close>

lemma clone_name_loop_free: "clone_name_loop n names base cand sfx = Some c \<Longrightarrow> c \<notin> set names"
  by (induction n names base cand sfx rule: clone_name_loop.induct) (auto split: if_splits)

lemma clone_name_loop_None:
  assumes "clone_name_loop n names base cand sfx = None"
  shows "(n > 0 \<longrightarrow> cand \<in> set names) \<and>
         (\<forall>k. sfx \<le> k \<and> Suc k < sfx + n \<longrightarrow> base @ '' (copy '' @ show_nat k @ '')'' \<in> set names)"
  using assms
proof (induction n names base cand sfx rule: clone_name_loop.induct)
  case (2 n names base cand sfx)
  then have taken: "cand \<in> set names"
    and rest: "clone_name_loop n names base (base @ '' (copy '' @ show_nat sfx @ '')'') (sfx + 1) = None"
    by (auto split: if_splits)
  note IH = "2.IH" [OF taken rest]
  have "base @ '' (copy '' @ show_nat k @ '')'' \<in> set names" if "sfx \<le> k" "Suc k < sfx + Suc n" for k
  proof (cases "k = sfx")
    case True
    with that IH show ?thesis by simp
  next
    case False
    with that show ?thesis using conjunct2 [OF IH, rule_format, of k] by simp
  qed
  with taken show ?case by blast
qed auto

text \<open>One of the first \<open>n + 1\<close> candidates is free when \<open>n\<close> names are taken.\<close>

lemma clone_name_loop_total:
  "\<exists>c. clone_name_loop (Suc (length names)) names base (base @ '' (copy)'') 2 = Some c"
proof (rule ccontr)
  let ?f = "\<lambda>k. base @ '' (copy '' @ show_nat k @ '')''"
  assume "\<not> ?thesis"
  then have "clone_name_loop (Suc (length names)) names base (base @ '' (copy)'') 2 = None" by simp
  from clone_name_loop_None [OF this] have sub: "insert (base @ '' (copy)'') (?f ` {2..<2 + length names}) \<subseteq> set names"
    by auto
  have inj: "inj_on ?f {2..<2 + length names}" by (auto intro: inj_onI)
  have "base @ '' (copy)'' \<notin> ?f ` {2..<2 + length names}" by auto
  then have "card (insert (base @ '' (copy)'') (?f ` {2..<2 + length names})) = Suc (length names)"
    using inj by (simp add: card_image)
  with card_mono [OF finite_set sub] card_length [of names] show False by simp
qed

lemma clone_name_free: "clone_name db base \<notin> set (map l_name (c_layouts db))"
proof -
  obtain c where c: "clone_name_loop (Suc (length (map l_name (c_layouts db)))) (map l_name (c_layouts db)) base
      (base @ '' (copy)'') 2 = Some c"
    using clone_name_loop_total by blast
  then have "clone_name db base = c" unfolding clone_name_def Let_def by (simp only: nullish_simps)
  with clone_name_loop_free [OF c] show ?thesis by simp
qed

lemma sort_key_sorted: "sorted (map f xs) \<Longrightarrow> sort_key f xs = xs"
  by (induction xs) (simp_all add: insort_is_Cons)

lemma getEntityById_row [simp]: "in_step db (rowToLayoutCell c) \<longleftrightarrow> in_step db c"
  by (simp add: in_step_iff mirror_eq_iff rowToLayoutCell_def)

lemma listLayoutCells_in_step: "mirrored db \<Longrightarrow> list_all (in_step db) (listLayoutCells db lid)"
  by (auto simp: listLayoutCells_def mirrored_def list_all_iff)

text \<open>A cell in step with its entity is copied column by column.\<close>

lemma createLayoutCell_clone:
  assumes "in_step db c"
  shows "createLayoutCell cid (clone_cell_input lid c) db
           = db\<lparr>c_cells := c_cells db @ [new_cell cid (clone_cell_input lid c)]\<rparr>"
proof -
  have "mirror_entity e (new_cell cid (clone_cell_input lid c)) = new_cell cid (clone_cell_input lid c)"
    if "lc_entity_id c = Some eid" "getEntityById db eid = Some e" for eid e
    using that assms by (auto simp: in_step_iff mirror_eq_iff new_cell_def clone_cell_input_def)
  then show ?thesis
    by (auto simp: createLayoutCell_def Let_def clone_cell_input_def split: option.split)
qed

lemma clone_cells_db:
  assumes "list_all (in_step db) cs"
  shows "clone_cells fresh lid n cs db
           = db\<lparr>c_cells := c_cells db @ map (\<lambda>(k, c). new_cell (fresh k) (clone_cell_input lid c)) (enumerate n cs)\<rparr>"
  using assms
proof (induction cs arbitrary: n db)
  case (Cons c cs)
  have "clone_cells fresh lid n (c # cs) db = clone_cells fresh lid (Suc n) cs
      (db\<lparr>c_cells := c_cells db @ [new_cell (fresh n) (clone_cell_input lid c)]\<rparr>)"
    using Cons.prems by (simp add: createLayoutCell_clone)
  also have "\<dots> = db\<lparr>c_cells := c_cells db @ map (\<lambda>(k, c). new_cell (fresh k) (clone_cell_input lid c)) (enumerate n (c # cs))\<rparr>"
    using Cons.prems by (subst Cons.IH) (simp_all)
  finally show ?case .
qed simp

text \<open>What of a cell a copy keeps.\<close>

definition cell_shape :: "layout_cell \<Rightarrow> layout_cell" where
  "cell_shape c = c\<lparr>lc_id := [], lc_layout_id := [], lc_input_options_json := JObj []\<rparr>"

lemma shape_of_copy:
  "cell_shape (rowToLayoutCell (new_cell cid (clone_cell_input lid (rowToLayoutCell c)))) = cell_shape (rowToLayoutCell c)"
  by (cases c) (simp add: cell_shape_def rowToLayoutCell_def new_cell_def clone_cell_input_def)

lemma copied_cells:
  assumes "list_all (\<lambda>c. lc_layout_id c \<noteq> new_id) cells"
    and "cs = map rowToLayoutCell (sort_key (\<lambda>c. (lc_row c, lc_col c)) ys)"
    and "c_cells db' = cells @ map (\<lambda>(k, c). new_cell (fresh k) (clone_cell_input new_id c)) (enumerate 0 cs)"
  shows "listLayoutCells db' new_id = map (\<lambda>(k, c). rowToLayoutCell (new_cell (fresh k) (clone_cell_input new_id c))) (enumerate 0 cs)"
    and "x \<noteq> new_id \<Longrightarrow> filter (\<lambda>c. lc_layout_id c = x) (c_cells db') = filter (\<lambda>c. lc_layout_id c = x) cells"
proof -
  let ?new = "map (\<lambda>(k, c). new_cell (fresh k) (clone_cell_input new_id c)) (enumerate 0 cs)"
  have lay: "lc_layout_id (new_cell i (clone_cell_input new_id c)) = new_id"
    and key: "lc_row (new_cell i (clone_cell_input new_id c)) = lc_row c"
      "lc_col (new_cell i (clone_cell_input new_id c)) = lc_col c" for i c
    by (simp_all add: new_cell_def clone_cell_input_def)
  have "filter (\<lambda>c. lc_layout_id c = new_id) cells = []"
    using assms(1) by (simp add: filter_empty_conv list_all_iff)
  moreover have "filter (\<lambda>c. lc_layout_id c = new_id) ?new = ?new"
    by (auto simp: filter_id_conv lay)
  moreover have "sorted (map (\<lambda>c. (lc_row c, lc_col c)) ?new)"
  proof -
    have "map (\<lambda>c. (lc_row c, lc_col c)) ?new = map (\<lambda>c. (lc_row c, lc_col c)) (map snd (enumerate 0 cs))"
      by (simp only: map_map comp_def case_prod_beta key)
    also have "\<dots> = map (\<lambda>c. (lc_row c, lc_col c)) (sort_key (\<lambda>c. (lc_row c, lc_col c)) ys)"
      by (simp add: assms(2) rowToLayoutCell_def comp_def)
    finally show ?thesis by simp
  qed
  ultimately show "listLayoutCells db' new_id
      = map (\<lambda>(k, c). rowToLayoutCell (new_cell (fresh k) (clone_cell_input new_id c))) (enumerate 0 cs)"
    by (simp add: listLayoutCells_def assms(3) sort_key_sorted comp_def case_prod_beta)
  show "filter (\<lambda>c. lc_layout_id c = x) (c_cells db') = filter (\<lambda>c. lc_layout_id c = x) cells" if "x \<noteq> new_id"
    using that by (auto simp: assms(3) filter_empty_conv lay)
qed

lemma map_enumerate_snd:
  "(\<And>k c. c \<in> set cs \<Longrightarrow> g k c = h c) \<Longrightarrow> map (\<lambda>x. g (fst x) (snd x)) (enumerate n cs) = map h cs"
  by (induction cs arbitrary: n) auto

lemma attach_all_pairs:
  "(d, l) \<in> set (c_display_layouts (foldl (\<lambda>db did. attachLayoutToDisplay did lid db) db dids))
     \<longleftrightarrow> (d, l) \<in> set (c_display_layouts db) \<or> (l = lid \<and> d \<in> set dids)"
  by (induction dids arbitrary: db) (auto simp: attachLayoutToDisplay_def)

section \<open>Properties\<close>

interpretation content: guarded_system content_step fresh_op "\<lambda>db. mirrored db \<and> entity_key db"
  by unfold_locales (simp add: content_step_mirrored content_step_key)

lemma content_run_fold: "content_run ops db = fold content_step ops db"
  by (induction ops arbitrary: db) auto

lemma fresh_run_guarded: "fresh_run ops db = content.guarded ops db"
  by (induction ops arbitrary: db) auto

text \<open>
  (C24) Cells stay in step with their entities: whatever sequence of the editor's and the
  synchroniser's operations runs, failing statements included, every cell whose entity
  exists shows exactly that entity's type, camera, address and markup in its own columns.
\<close>

theorem cells_mirror_entities:
  assumes "mirrored db" and "entity_key db" and "fresh_run ops db"
  shows "mirrored (content_run ops db)"
  using content.run_keeps [of db ops] assms by (simp add: content_run_fold fresh_run_guarded)

text \<open>
  Copying a layout always succeeds under a name no layout has; the copy shows the same
  cells in the same order, with the same geometry and content but with empty input
  options, is attached to exactly the displays of the original, and leaves the cells of
  every other layout unchanged.
\<close>

theorem clone_layout_faithful:
  assumes "mirrored db" and "getLayoutById db lid = Some src"
    and "list_all (\<lambda>c. lc_layout_id c \<noteq> new_id) (c_cells db)"
    and "list_all (\<lambda>x. snd x \<noteq> new_id) (c_display_layouts db)"
  shows "\<exists>db' l. cloneLayout new_id sk fresh lid db = Inr (db', l) \<and> l_id l = new_id \<and>
           l_name l \<notin> set (map l_name (c_layouts db)) \<and>
           map cell_shape (listLayoutCells db' new_id) = map cell_shape (listLayoutCells db lid) \<and>
           (\<forall>c \<in> set (listLayoutCells db' new_id). lc_input_options_json c = JObj []) \<and>
           (\<forall>x. x \<noteq> new_id \<longrightarrow> listLayoutCells db' x = listLayoutCells db x) \<and>
           (\<forall>d. (d, new_id) \<in> set (c_display_layouts db') \<longleftrightarrow> (d, lid) \<in> set (c_display_layouts db))"
proof -
  let ?i = "\<lparr>li_name = clone_name db (l_name src), li_description = l_description src,
     li_priority = Some (l_priority src), li_cooling_timeout_seconds = l_cooling_timeout_seconds src,
     li_idle_timeout_seconds = l_idle_timeout_seconds src,
     li_preload_camera_ids = Some (l_preload_camera_ids src),
     li_resets_idle_timer = Some (l_resets_idle_timer src),
     li_input_options_json = Some (l_input_options_json src)\<rparr>"
  have "\<not> list_ex (\<lambda>l. l_name l = li_name ?i) (c_layouts db)"
    using clone_name_free [of db "l_name src"] by (simp add: list_ex_iff image_iff) metis
  then obtain db1 l where new: "createLayout new_id sk ?i db = Inr (db1, l)" and name: "l_name l = clone_name db (l_name src)"
    by (auto simp: createLayout_def Let_def)
  note db1 = createLayout_db [OF new]
  have "mirrored db1" using db1 by (intro mirrored_cells [OF assms(1)]) auto
  define cs where "cs = listLayoutCells db1 lid"
  define db2 where "db2 = clone_cells fresh new_id 0 cs db1"
  have db2: "db2 = db1\<lparr>c_cells := c_cells db1 @ map (\<lambda>(k, c). new_cell (fresh k) (clone_cell_input new_id c)) (enumerate 0 cs)\<rparr>"
    unfolding db2_def cs_def by (rule clone_cells_db [OF listLayoutCells_in_step [OF \<open>mirrored db1\<close>]])
  obtain db' where res: "cloneLayout new_id sk fresh lid db = Inr (db', l)"
    and cells: "c_cells db' = c_cells db2"
    and pairs: "\<And>d x. (d, x) \<in> set (c_display_layouts db') \<longleftrightarrow> (d, x) \<in> set (c_display_layouts db2)
                  \<or> (x = new_id \<and> d \<in> set (map fst (filter (\<lambda>(_, l). l = lid) (c_display_layouts db2))))"
    using assms(2) new by (auto simp: cloneLayout_def Let_def db2_def cs_def attach_all_pairs)
  have cs: "cs = map rowToLayoutCell (sort_key (\<lambda>c. (lc_row c, lc_col c)) (filter (\<lambda>c. lc_layout_id c = lid) (c_cells db)))"
    using db1 by (simp add: cs_def listLayoutCells_def)
  have cells': "c_cells db' = c_cells db @ map (\<lambda>(k, c). new_cell (fresh k) (clone_cell_input new_id c)) (enumerate 0 cs)"
    using db1 by (simp add: cells db2)
  note copy = copied_cells [OF assms(3) cs cells']
  have "map cell_shape (listLayoutCells db' new_id) = map cell_shape (listLayoutCells db lid)"
  proof -
    have "cell_shape (rowToLayoutCell (new_cell (fresh k) (clone_cell_input new_id c))) = cell_shape c" if "c \<in> set cs" for k c
      using that by (auto simp: cs shape_of_copy)
    then have "map cell_shape (listLayoutCells db' new_id) = map cell_shape cs"
      unfolding copy(1) map_map comp_def case_prod_beta by (rule map_enumerate_snd)
    then show ?thesis by (simp add: cs listLayoutCells_def)
  qed
  moreover have "lc_input_options_json c = JObj []" if "c \<in> set (listLayoutCells db' new_id)" for c
    using that unfolding copy(1) by (auto simp: rowToLayoutCell_def new_cell_def clone_cell_input_def)
  moreover have "listLayoutCells db' x = listLayoutCells db x" if "x \<noteq> new_id" for x
    using copy(2) [OF that] by (simp add: listLayoutCells_def)
  moreover have "(d, new_id) \<in> set (c_display_layouts db') \<longleftrightarrow> (d, lid) \<in> set (c_display_layouts db)" for d
    using assms(4) db1 by (force simp: pairs db2 list_all_iff)
  ultimately show ?thesis
    using res name db1 clone_name_free [of db "l_name src"] by (intro exI [of _ db'] exI [of _ l]) simp
qed

text \<open>
  Deleting an entity leaves its cells as they are: they keep the identifier of the deleted
  row and show its content from then on.
\<close>

lemma deleteEntity_keeps_cells: "c_cells (deleteEntity eid db) = c_cells db"
  by (simp add: deleteEntity_def)

section \<open>Witnesses\<close>

definition empty_content :: content_db where
  "empty_content = \<lparr>c_kiosks = [], c_displays = [], c_display_layouts = [], c_layouts = [], c_layout_labels = [],
     c_cells = [], c_entities = [], c_cameras = [], c_devices = [], c_streams = [], c_labels = [],
     c_kiosk_labels = [], c_camera_labels = [], c_device_labels = [], c_gpio = [], c_screens = [],
     c_subscriptions = []\<rparr>"

definition demo_entity_input :: entity_input where
  "demo_entity_input = \<lparr>ei_name = ''Door'', ei_type = EntWeb, ei_description = None, ei_camera_id = None,
     ei_html_content = None, ei_web_url = Some ''http://a'', ei_dashboard_id = None, ei_ablesign_screen_id = None,
     ei_managed = None\<rparr>"

definition demo_cell_input :: cell_input where
  "demo_cell_input = \<lparr>ni_layout_id = ''l1'', ni_row = 0, ni_col = 0, ni_row_span = None, ni_col_span = None,
     ni_content_type = None, ni_camera_id = None, ni_stream_selector = None, ni_web_url = None,
     ni_html_content = None, ni_cooling_timeout_seconds = None, ni_options = None, ni_entity_id = Some ''e1'',
     ni_fit = None, ni_input_options_json = Some (JObj [(''a'', JNull)])\<rparr>"

definition demo_content_ops :: "content_op list" where
  "demo_content_ops = [CreateEntity ''e1'' 5 demo_entity_input, CreateCell ''c1'' demo_cell_input,
     UpdateEntity ''e1'' (empty_entity_patch\<lparr>ep_web_url := Some (Some ''http://b'')\<rparr>)]"

lemma empty_content_ok: "mirrored empty_content" "entity_key empty_content"
  by (simp_all add: mirrored_def entity_key_def empty_content_def)

lemma demo_content_fresh: "fresh_run demo_content_ops empty_content"
  by (simp add: demo_content_ops_def empty_content_def unused_entity_id_def)

theorem cells_mirror_entities_witness:
  "mirrored (content_run demo_content_ops empty_content) \<and>
   map lc_web_url (c_cells (content_run demo_content_ops empty_content)) = [Some ''http://b'']"
proof
  show "mirrored (content_run demo_content_ops empty_content)"
    by (rule cells_mirror_entities [OF empty_content_ok demo_content_fresh])
  show "map lc_web_url (c_cells (content_run demo_content_ops empty_content)) = [Some ''http://b'']"
    by (simp add: demo_content_ops_def empty_content_def createEntity_def getEntityByName_def demo_entity_input_def
        settle_db_def createLayoutCell_def demo_cell_input_def new_cell_def getEntityById_def updateEntity_def
        empty_entity_patch_def patch_entity_def mirror_entity_def cell_web_url_def Let_def)
qed

definition demo_layout_db :: content_db where
  "demo_layout_db = empty_content\<lparr>c_layouts := [sample_layout\<lparr>l_id := ''l1'', l_name := ''Wall''\<rparr>],
     c_cells := [new_cell ''c1'' (demo_cell_input\<lparr>ni_entity_id := None\<rparr>)],
     c_display_layouts := [(''d1'', ''l1'')]\<rparr>"

theorem clone_layout_faithful_witness:
  "\<exists>db' l. cloneLayout ''l2'' None (\<lambda>k. ''n'') ''l1'' demo_layout_db = Inr (db', l) \<and>
     map cell_shape (listLayoutCells db' ''l2'') = map cell_shape (listLayoutCells demo_layout_db ''l1'') \<and>
     (''d1'', ''l2'') \<in> set (c_display_layouts db')"
proof -
  have "mirrored demo_layout_db"
    by (simp add: mirrored_def demo_layout_db_def in_step_iff new_cell_def)
  moreover have "getLayoutById demo_layout_db ''l1'' = Some (sample_layout\<lparr>l_id := ''l1'', l_name := ''Wall''\<rparr>)"
    by (simp add: getLayoutById_def demo_layout_db_def)
  moreover have "list_all (\<lambda>c. lc_layout_id c \<noteq> ''l2'') (c_cells demo_layout_db)"
    "list_all (\<lambda>x. snd x \<noteq> ''l2'') (c_display_layouts demo_layout_db)"
    by (simp_all add: demo_layout_db_def new_cell_def demo_cell_input_def)
  moreover have "(''d1'', ''l1'') \<in> set (c_display_layouts demo_layout_db)"
    by (simp add: demo_layout_db_def)
  ultimately show ?thesis
    using clone_layout_faithful [of demo_layout_db "''l1''" _ "''l2''" None "\<lambda>k. ''n''"] by metis
qed

end
