(* ===== verification/BF_Bundle.thy ===== *)
theory BF_Bundle
  imports BF_Layouts
begin

text \<open>
  Bundle generation (\<^verbatim>\<open>server/src/shared/bundle.ts\<close>) with \<^verbatim>\<open>rtsp.ts\<close>,
  \<^verbatim>\<open>onvif-callback-token.ts\<close>, the viewer gate of \<^verbatim>\<open>android-viewer.ts\<close> and the repository
  queries they use.  A bundle is what one kiosk receives: its displays with their layouts
  and cells, the cameras it may play, and its settings.  The runtime's URL parser, JSON
  parser, number formatting, digests and ciphers are arguments (\<open>bundle_env\<close>); a cipher call
  takes the number of the call as its nonce, so repeated calls give different ciphertexts.
\<close>

section \<open>Environment\<close>

record url =
  url_protocol :: string
  url_hostname :: string
  url_port :: string
  url_pathname :: string
  url_search :: string
  url_username :: string
  url_password :: string

record bundle_env =
  be_parse_url :: "string \<Rightarrow> url option"
  be_print_url :: "url \<Rightarrow> string"
  be_decode_uri :: "string \<Rightarrow> string option"
  be_parse_json :: "string \<Rightarrow> json option"
  be_show_number :: "number \<Rightarrow> string"
  be_decrypt :: "string \<Rightarrow> string \<Rightarrow> string option"
  be_encrypt :: "nat \<Rightarrow> string \<Rightarrow> string \<Rightarrow> string option"
  be_sha :: "string \<Rightarrow> string"
  be_hmac :: "string \<Rightarrow> string"
  be_nonce :: "string \<Rightarrow> string"
  be_digest :: "json \<Rightarrow> string"

section \<open>RTSP addresses\<close>

record rtsp_parts =
  rp_host :: "string option"
  rp_port :: "number option"
  rp_path :: "string option"
  rp_username :: "string option"
  rp_password :: "string option"

definition no_rtsp_parts :: rtsp_parts where
  "no_rtsp_parts = \<lparr>rp_host = None, rp_port = None, rp_path = None, rp_username = None, rp_password = None\<rparr>"

definition non_empty :: "string \<Rightarrow> string option" where
  "non_empty s = (if s = [] then None else Some s)"

text \<open>A malformed escape makes \<^verbatim>\<open>decodeURIComponent\<close> throw, and the whole parse fail.\<close>

definition parseRtspUri :: "bundle_env \<Rightarrow> string option \<Rightarrow> rtsp_parts" where
  "parseRtspUri env raw =
     (if \<not> truthy_str raw then no_rtsp_parts
      else case be_parse_url env (the raw) of
        None \<Rightarrow> no_rtsp_parts
      | Some u \<Rightarrow>
          if url_protocol u \<noteq> ''rtsp:'' then no_rtsp_parts
          else case (if url_username u = [] then Some None else map_option Some (be_decode_uri env (url_username u)),
                     if url_password u = [] then Some None else map_option Some (be_decode_uri env (url_password u))) of
            (Some name, Some pw) \<Rightarrow>
              \<lparr>rp_host = non_empty (url_hostname u),
               rp_port = (if url_port u = [] then Some 554 else string_to_number (url_port u)),
               rp_path = Some ((if url_pathname u = [] then ''/'' else url_pathname u) @ url_search u),
               rp_username = name, rp_password = pw\<rparr>
          | _ \<Rightarrow> no_rtsp_parts)"

definition stripRtspCredentials :: "bundle_env \<Rightarrow> string option \<Rightarrow> string option" where
  "stripRtspCredentials env raw =
     (if \<not> truthy_str raw then None
      else case be_parse_url env (the raw) of
        None \<Rightarrow> raw
      | Some u \<Rightarrow> if url_protocol u \<noteq> ''rtsp:'' then raw
                   else Some (be_print_url env (u\<lparr>url_username := [], url_password := []\<rparr>)))"

text \<open>The setters percent-encode what they are given; \<open>enc\<close> is that encoding.\<close>

definition buildRtspUri :: "bundle_env \<Rightarrow> (string \<Rightarrow> string) \<Rightarrow> string option \<Rightarrow> string option \<Rightarrow> string option \<Rightarrow> string option" where
  "buildRtspUri env enc raw username password =
     (if \<not> truthy_str raw then None
      else case be_parse_url env (the raw) of
        None \<Rightarrow> raw
      | Some u \<Rightarrow> if url_protocol u \<noteq> ''rtsp:'' then raw
                   else Some (be_print_url env
                     (if truthy_str username
                      then u\<lparr>url_username := enc (the username), url_password := enc (nullish password [])\<rparr>
                      else u\<lparr>url_username := [], url_password := []\<rparr>)))"

definition buildRtspUriFromParts :: "bundle_env \<Rightarrow> string \<Rightarrow> number \<Rightarrow> string \<Rightarrow> string" where
  "buildRtspUriFromParts env host port path =
     (let cleanPath = (if prefix ''/'' path then path else ''/'' @ path);
          portSuffix = (if port = 554 then [] else '':'' @ be_show_number env port)
      in ''rtsp://'' @ host @ portSuffix @ cleanPath)"

definition resolvePlaybackCredentials :: "bundle_env \<Rightarrow> camera \<Rightarrow> string list \<Rightarrow> string option \<times> string option" where
  "resolvePlaybackCredentials env cam uris =
     (if truthy_str (cam_onvif_username cam) \<or> truthy_str (cam_onvif_password cam)
      then (cam_onvif_username cam, cam_onvif_password cam)
      else case find (\<lambda>p. truthy_str (rp_username p) \<or> truthy_str (rp_password p))
                  (map (parseRtspUri env) (cam_rtsp_url cam # map Some uris)) of
        Some p \<Rightarrow> (rp_username p, rp_password p)
      | None \<Rightarrow> (None, None))"

section \<open>Callback tokens\<close>

record callback = cb_nonce :: string  cb_token :: string  cb_hash :: string

definition hashOnvifCallbackToken :: "bundle_env \<Rightarrow> string \<Rightarrow> string" where
  "hashOnvifCallbackToken env token = be_sha env token"

definition createOnvifCallbackToken :: "bundle_env \<Rightarrow> string \<Rightarrow> string option \<Rightarrow> callback" where
  "createOnvifCallbackToken env cid nonce =
     (let n = nullish nonce (be_nonce env cid); token = be_hmac env (cid @ ''.'' @ n)
      in \<lparr>cb_nonce = n, cb_token = token, cb_hash = hashOnvifCallbackToken env token\<rparr>)"

definition onvifCallbackTokenMatches :: "bundle_env \<Rightarrow> string \<Rightarrow> string option \<Rightarrow> bool" where
  "onvifCallbackTokenMatches env token expected =
     (token \<noteq> [] \<and> truthy_str expected \<and> length (the expected) = 64 \<and> list_all is_hex_lower (the expected)
      \<and> hashOnvifCallbackToken env token = the expected)"

section \<open>Bundle types\<close>

record bundle_stream =
  bs_id :: string
  bs_role :: stream_role
  bs_name :: string
  bs_profile_token :: "string option"
  bs_rtsp_uri :: string
  bs_width :: "number option"
  bs_height :: "number option"
  bs_encoding :: "string option"
  bs_framerate :: "number option"

record bundle_camera =
  bk_local_short_key :: "string option"
  bk_id :: string
  bk_device_id :: "string option"
  bk_device_name :: "string option"
  bk_name :: string
  bk_camera_number :: "string option"
  bk_labels :: "string list"
  bk_capabilities :: "string list"
  bk_enabled :: bool
  bk_last_seen_at :: "timestamp option"
  bk_simple_vms_managed :: bool
  bk_recording_config :: json
  bk_type :: camera_type
  bk_onvif_host :: "string option"
  bk_onvif_port :: "number option"
  bk_onvif_username :: "string option"
  bk_onvif_password_encrypted :: "string option"
  bk_playback_username :: "string option"
  bk_playback_password_encrypted :: "string option"
  bk_event_source :: string
  bk_event_sink :: string
  bk_event_callback_token :: string
  bk_stream_policy :: stream_policy
  bk_streams :: "bundle_stream list"

record bundle_cell =
  bl_view_id :: string
  bl_entity_id :: "string option"
  bl_row :: number
  bl_col :: number
  bl_row_span :: number
  bl_col_span :: number
  bl_content_type :: cell_content_type
  bl_camera_id :: "string option"
  bl_stream_selector :: "stream_selector option"
  bl_web_url :: "string option"
  bl_html_content :: "string option"
  bl_cooling_timeout_seconds :: "number option"
  bl_fit :: fit_mode
  bl_smart_url :: json
  bl_local_storage :: "(string \<times> string) list option"
  bl_input_options :: json

record bundle_layout =
  by_local_short_key :: "string option"
  by_id :: string
  by_name :: string
  by_grid_cols :: number
  by_grid_rows :: number
  by_priority :: layout_priority
  by_cooling_timeout_seconds :: "number option"
  by_idle_timeout_seconds :: "number option"
  by_preload_camera_ids :: "string list"
  by_resets_idle_timer :: bool
  by_is_default :: bool
  by_cells :: "bundle_cell list"
  by_input_options :: json

record bundle_display =
  bd_id :: string
  bd_name :: string
  bd_width_px :: number
  bd_height_px :: number
  bd_idle_timeout_seconds :: number
  bd_sleep_timeout_seconds :: number
  bd_default_layout_id :: "string option"
  bd_layouts :: "bundle_layout list"

record bundle_gpio =
  bg_id :: string
  bg_chip :: string
  bg_pin :: number
  bg_direction :: gpio_direction
  bg_pull :: "gpio_pull option"
  bg_edge :: "gpio_edge option"
  bg_topic :: string

record operator_console =
  oc_enabled :: bool
  oc_host :: "string option"
  oc_port :: number
  oc_tools :: "(string \<times> string) list"
  oc_vms_enabled :: bool
  oc_vms_storage_path :: "string option"
  oc_vms_settings :: json

record kiosk_bundle =
  kb_kiosk_id :: string
  kb_kiosk_name :: string
  kb_displays :: "bundle_display list"
  kb_cameras :: "bundle_camera list"
  kb_gpio_bindings :: "bundle_gpio list"
  kb_operator_console :: operator_console
  kb_version :: string

text \<open>
  The deprecated fields \<^verbatim>\<open>display\<close> and \<^verbatim>\<open>layouts\<close> repeat the first display and appear in the
  JSON form; \<^verbatim>\<open>tenant_slug\<close> is always \<^verbatim>\<open>default\<close>.
\<close>

datatype bundle_cause = NoViewerKey | EncryptFailed

datatype bundle_error = BundleGenerationError string bundle_cause

section \<open>Queries\<close>

definition getDisplayById :: "content_db \<Rightarrow> string \<Rightarrow> display option" where
  "getDisplayById db did = find (\<lambda>d. d_id d = did) (c_displays db)"

definition listDisplaysForKiosk :: "content_db \<Rightarrow> string \<Rightarrow> display list" where
  "listDisplaysForKiosk db kid = sort_key d_index (filter (\<lambda>d. d_kiosk_id d = Some kid) (c_displays db))"

definition getKioskById :: "content_db \<Rightarrow> string \<Rightarrow> kiosk option" where
  "getKioskById db kid = find (\<lambda>k. k_id k = kid) (c_kiosks db)"

definition getCameraById :: "content_db \<Rightarrow> string \<Rightarrow> camera option" where
  "getCameraById db cid = find (\<lambda>c. cam_id c = cid) (c_cameras db)"

definition camerasForLayoutIds :: "(string \<Rightarrow> 'k::linorder) \<Rightarrow> content_db \<Rightarrow> string list \<Rightarrow> camera list" where
  "camerasForLayoutIds ck db lids =
     (if lids = [] then []
      else sort_key (\<lambda>c. ck (cam_name c))
        (filter (\<lambda>c. list_ex (\<lambda>l. lc_camera_id l = Some (cam_id c) \<and> lc_layout_id l \<in> set lids) (c_cells db)
                     \<and> cam_enabled c) (c_cameras db)))"

text \<open>Label rows of a kiosk in table order; a label row exists for each by foreign key.\<close>

definition operateLabelIds :: "content_db \<Rightarrow> string \<Rightarrow> string list" where
  "operateLabelIds db kid =
     map kl_label_id (filter (\<lambda>r. kl_kiosk_id r = kid \<and> kl_role r = LabelRoleOperate) (c_kiosk_labels db))"

definition has_label :: "content_db \<Rightarrow> camera \<Rightarrow> string \<Rightarrow> bool" where
  "has_label db c lid \<longleftrightarrow>
     (cam_id c, lid) \<in> set (c_camera_labels db)
     \<or> (case cam_device_id c of None \<Rightarrow> False | Some d \<Rightarrow> (d, lid) \<in> set (c_device_labels db))"

definition camerasForLabelIds :: "(string \<Rightarrow> 'k::linorder) \<Rightarrow> content_db \<Rightarrow> string list \<Rightarrow> camera list" where
  "camerasForLabelIds ck db lids =
     sort_key (\<lambda>c. ck (cam_name c)) (filter (\<lambda>c. list_ex (has_label db c) lids \<and> cam_enabled c) (c_cameras db))"

definition cameraLabelNames :: "(string \<Rightarrow> 'k::linorder) \<Rightarrow> content_db \<Rightarrow> camera \<Rightarrow> string list" where
  "cameraLabelNames ck db c =
     sort_key ck (remdups (map lab_name (filter (\<lambda>l. has_label db c (lab_id l)) (c_labels db))))"

definition listCameraStreams :: "content_db \<Rightarrow> string \<Rightarrow> camera_stream list" where
  "listCameraStreams db cid = filter (\<lambda>s. cs_camera_id s = cid) (c_streams db)"

definition listEntities :: "(string \<Rightarrow> 'k::linorder) \<Rightarrow> content_db \<Rightarrow> entity list" where
  "listEntities ck db = sort_key (\<lambda>e. ck (ent_name e)) (c_entities db)"

definition listGpioBindings :: "(string \<Rightarrow> 'k::linorder) \<Rightarrow> content_db \<Rightarrow> string \<Rightarrow> gpio_binding list" where
  "listGpioBindings ck db kid =
     sort_key (\<lambda>g. (ck (gb_chip g), gb_pin g)) (filter (\<lambda>g. gb_kiosk_id g = kid) (c_gpio db))"

definition getAbleSignScreen :: "content_db \<Rightarrow> string \<Rightarrow> ablesign_screen option" where
  "getAbleSignScreen db sid = find (\<lambda>s. as_id s = sid) (c_screens db)"

definition releaseStaleEventOwnership :: "number \<Rightarrow> timestamp \<Rightarrow> content_db \<Rightarrow> content_db" where
  "releaseStaleEventOwnership hours now db =
     (let cutoff = now - hours * 3600000;
          stale = (\<lambda>kid. list_ex (\<lambda>k. k_id k = kid \<and>
                     (case k_last_seen_at k of None \<Rightarrow> True | Some t \<Rightarrow> t < cutoff)) (c_kiosks db))
      in db\<lparr>c_subscriptions := map (\<lambda>s. if (case es_kiosk_id s of None \<Rightarrow> False | Some kid \<Rightarrow> stale kid)
                                         \<and> es_status s \<in> {SubActive, SubPending}
                                      then s\<lparr>es_status := SubInactive\<rparr> else s) (c_subscriptions db)\<rparr>)"

definition setCameraEventCallbackToken :: "string \<Rightarrow> string \<Rightarrow> string \<Rightarrow> content_db \<Rightarrow> content_db" where
  "setCameraEventCallbackToken cid nonce hash db =
     db\<lparr>c_cameras := map (\<lambda>c. if cam_id c = cid
          then c\<lparr>cam_event_callback_nonce := Some nonce, cam_event_callback_token_hash := Some hash\<rparr> else c)
        (c_cameras db)\<rparr>"

section \<open>Encryption for one kiosk\<close>

text \<open>
  A generation step threads the number of cipher calls made so far and the stable
  fingerprint of every ciphertext, and may fail with the cause of a thrown error.
\<close>

record gen_state =
  gs_calls :: nat
  gs_stable :: "(string, string) jsmap"

type_synonym 'a gen = "gen_state \<Rightarrow> (bundle_cause, 'a \<times> gen_state) result"

definition gen_return :: "'a \<Rightarrow> 'a gen" where
  "gen_return x s = Inr (x, s)"

definition gen_bind :: "'a gen \<Rightarrow> ('a \<Rightarrow> 'b gen) \<Rightarrow> 'b gen" where
  "gen_bind m f s = bind_result (m s) (\<lambda>(x, s'). f x s')"

fun gen_map :: "('a \<Rightarrow> 'b gen) \<Rightarrow> 'a list \<Rightarrow> 'b list gen" where
  "gen_map f [] = gen_return []"
| "gen_map f (x # xs) = gen_bind (f x) (\<lambda>y. gen_bind (gen_map f xs) (\<lambda>ys. gen_return (y # ys)))"

definition stableSecretFingerprint :: "bundle_env \<Rightarrow> string \<Rightarrow> string \<Rightarrow> string" where
  "stableSecretFingerprint env ctx plaintext = ''secret:'' @ be_sha env (ctx @ [CHR 0x00] @ plaintext)"

definition encryptForBundle :: "bundle_env \<Rightarrow> string \<Rightarrow> string \<Rightarrow> string \<Rightarrow> string gen" where
  "encryptForBundle env plaintext key ctx s =
     (case be_encrypt env (gs_calls s) key plaintext of
        None \<Rightarrow> Inl EncryptFailed
      | Some c \<Rightarrow> Inr (c, \<lparr>gs_calls = Suc (gs_calls s),
                          gs_stable = AList.update c (stableSecretFingerprint env ctx plaintext) (gs_stable s)\<rparr>))"

text \<open>A cipher only takes text: any other value throws.\<close>

definition encrypt_value :: "bundle_env \<Rightarrow> json \<Rightarrow> string \<Rightarrow> string \<Rightarrow> string gen" where
  "encrypt_value env v key ctx =
     (case v of JStr s \<Rightarrow> encryptForBundle env s key ctx | _ \<Rightarrow> (\<lambda>_. Inl EncryptFailed))"

section \<open>Cells and layouts\<close>

text \<open>What is fixed during one generation.\<close>

record ('k) bundle_ctx =
  bx_env :: bundle_env
  bx_db :: content_db
  bx_collate :: "string \<Rightarrow> 'k"
  bx_viewer :: bool
  bx_key :: "string option"

record resolved_content =
  rc_content_type :: cell_content_type
  rc_camera_id :: "string option"
  rc_web_url :: "string option"
  rc_html_content :: "string option"
  rc_local_storage :: "(string \<times> string) list option"

definition ablesign_storage :: "bundle_env \<Rightarrow> content_db \<Rightarrow> entity \<Rightarrow> (string \<times> string) list option" where
  "ablesign_storage env db ent =
     (if ent_type ent = EntAblesign \<and> truthy_str (ent_ablesign_screen_id ent)
      then map_option (\<lambda>screen. (''screenId'', as_screen_id screen)
             # (if truthy_str (as_token_encrypted screen)
                then case be_decrypt env (the (as_token_encrypted screen)) ''ablesign-token'' of
                       Some t \<Rightarrow> [(''screenToken'', t)] | None \<Rightarrow> []
                else []))
           (getAbleSignScreen db (the (ent_ablesign_screen_id ent)))
      else None)"

fun resolved_type :: "entity_type \<Rightarrow> cell_content_type" where
  "resolved_type EntDashboard = CellWeb"
| "resolved_type EntAblesign = CellWeb"
| "resolved_type EntCamera = CellCamera"
| "resolved_type EntHtml = CellHtml"
| "resolved_type EntWeb = CellWeb"

definition resolveEntityContent :: "bundle_env \<Rightarrow> content_db \<Rightarrow> entity \<Rightarrow> resolved_content" where
  "resolveEntityContent env db ent =
     \<lparr>rc_content_type = resolved_type (ent_type ent),
      rc_camera_id = (if ent_type ent = EntCamera then ent_camera_id ent else None),
      rc_web_url = (if ent_type ent = EntWeb \<or> ent_type ent = EntAblesign then ent_web_url ent
                    else if ent_type ent = EntDashboard \<and> truthy_str (ent_dashboard_id ent)
                         then Some (''/dash/'' @ the (ent_dashboard_id ent)) else None),
      rc_html_content = (if ent_type ent = EntHtml then ent_html_content ent else None),
      rc_local_storage = ablesign_storage env db ent\<rparr>"

text \<open>Whether \<^verbatim>\<open>Object.keys(value ?? {})\<close> is non-empty.\<close>

fun has_keys :: "json \<Rightarrow> bool" where
  "has_keys (JObj fs) = (fs \<noteq> [])"
| "has_keys (JArr vs) = (vs \<noteq> [])"
| "has_keys (JStr s) = (s \<noteq> [])"
| "has_keys _ = False"

definition cell_entity :: "content_db \<Rightarrow> layout_cell \<Rightarrow> entity option" where
  "cell_entity db c = (case lc_entity_id c of None \<Rightarrow> None | Some eid \<Rightarrow> getEntityById db eid)"

definition smart_step :: "'k bundle_ctx \<Rightarrow> layout_cell \<Rightarrow> json \<Rightarrow> json gen" where
  "smart_step cx c raw =
     (let fs = spread raw; value = json_get (JObj fs) ''value'' in
      if truthy value \<and> json_get (JObj fs) ''type'' = JStr ''fill'' \<and> truthy_str (bx_key cx)
      then gen_bind (encrypt_value (bx_env cx) value (the (bx_key cx))
               (''smart-url:'' @ lc_id c @ '':''
                @ js_string (be_show_number (bx_env cx)) (json_or (json_get (JObj fs) ''selector'') (JStr []))))
             (\<lambda>e. gen_return (JObj (AList.delete ''value'' (AList.update ''value_encrypted'' (JStr e) fs))))
      else gen_return (JObj fs))"

definition smart_url :: "'k bundle_ctx \<Rightarrow> layout_cell \<Rightarrow> json gen" where
  "smart_url cx c =
     (let raw = json_get (lc_options c) ''smart_url'' in
      if \<not> truthy raw then gen_return JUndefined
      else if bx_viewer cx then gen_return (JObj [(''steps'', JArr [])])
      else gen_bind (case json_get raw ''steps'' of JArr vs \<Rightarrow> gen_map (smart_step cx c) vs | _ \<Rightarrow> gen_return [])
             (\<lambda>steps. gen_return (JObj [(''steps'', JArr steps),
                (''login_detect_url'', json_get raw ''login_detect_url''),
                (''session_check_interval_ms'', json_get raw ''session_check_interval_ms'')])))"

definition cell_content :: "'k bundle_ctx \<Rightarrow> layout_cell \<Rightarrow> resolved_content" where
  "cell_content cx c =
     (case cell_entity (bx_db cx) c of
        None \<Rightarrow> \<lparr>rc_content_type = lc_content_type c, rc_camera_id = lc_camera_id c, rc_web_url = lc_web_url c,
                  rc_html_content = lc_html_content c, rc_local_storage = None\<rparr>
      | Some ent \<Rightarrow> resolveEntityContent (bx_env cx) (bx_db cx) ent)"

definition cell_input_options :: "'k bundle_ctx \<Rightarrow> layout_cell \<Rightarrow> json" where
  "cell_input_options cx c =
     (case cell_entity (bx_db cx) c of
        None \<Rightarrow> lc_input_options_json c
      | Some ent \<Rightarrow> if has_keys (ent_input_options_json ent) then ent_input_options_json ent
                     else lc_input_options_json c)"

definition make_cell :: "'k bundle_ctx \<Rightarrow> layout_cell \<Rightarrow> json \<Rightarrow> bundle_cell" where
  "make_cell cx c smart =
     (let r = cell_content cx c in
      \<lparr>bl_view_id = lc_id c, bl_entity_id = lc_entity_id c, bl_row = lc_row c, bl_col = lc_col c,
       bl_row_span = lc_row_span c, bl_col_span = lc_col_span c, bl_content_type = rc_content_type r,
       bl_camera_id = rc_camera_id r, bl_stream_selector = Some (lc_stream_selector c),
       bl_web_url = rc_web_url r, bl_html_content = rc_html_content r,
       bl_cooling_timeout_seconds = lc_cooling_timeout_seconds c, bl_fit = lc_fit c, bl_smart_url = smart,
       bl_local_storage = rc_local_storage r, bl_input_options = cell_input_options cx c\<rparr>)"

definition bundle_cell_of :: "'k bundle_ctx \<Rightarrow> layout_cell \<Rightarrow> bundle_cell gen" where
  "bundle_cell_of cx c = gen_bind (smart_url cx c) (\<lambda>smart. gen_return (make_cell cx c smart))"

text \<open>The full-screen layout a cell's entity gets, shown alone in a one-by-one grid.\<close>

definition virtual_layout :: "'k bundle_ctx \<Rightarrow> layout \<Rightarrow> entity \<Rightarrow> bundle_cell \<Rightarrow> bundle_layout" where
  "virtual_layout cx l ent b =
     \<lparr>by_local_short_key = None, by_id = ent_id ent, by_name = ''Full Screen: '' @ ent_name ent,
      by_grid_cols = 1, by_grid_rows = 1, by_priority = PrioNormal,
      by_cooling_timeout_seconds = l_cooling_timeout_seconds l,
      by_idle_timeout_seconds = l_idle_timeout_seconds l, by_preload_camera_ids = [],
      by_resets_idle_timer = True, by_is_default = False,
      by_cells = [b\<lparr>bl_view_id := ''virtual:'' @ ent_id ent, bl_row := 0, bl_col := 0, bl_row_span := 1,
                    bl_col_span := 1,
                    bl_input_options := JObj (AList.delete ''events'' (spread (bl_input_options b)))\<rparr>],
      by_input_options = (if bx_viewer cx then JUndefined else ent_input_options_json ent)\<rparr>"

type_synonym virtuals = "(string, bundle_layout) jsmap"

definition add_virtual :: "'k bundle_ctx \<Rightarrow> layout \<Rightarrow> layout_cell \<Rightarrow> bundle_cell \<Rightarrow> virtuals \<Rightarrow> virtuals" where
  "add_virtual cx l c b vs =
     (case cell_entity (bx_db cx) c of
        None \<Rightarrow> vs
      | Some ent \<Rightarrow> if map_has vs (the (lc_entity_id c)) then vs
                     else AList.update (the (lc_entity_id c)) (virtual_layout cx l ent b) vs)"

fun build_cells ::
  "'k bundle_ctx \<Rightarrow> layout \<Rightarrow> layout_cell list \<Rightarrow> virtuals \<Rightarrow> (bundle_cell list \<times> virtuals) gen" where
  "build_cells cx l [] vs = gen_return ([], vs)"
| "build_cells cx l (c # cs) vs =
     gen_bind (bundle_cell_of cx c) (\<lambda>b.
       gen_bind (build_cells cx l cs (add_virtual cx l c b vs)) (\<lambda>(bs, vs'). gen_return (b # bs, vs')))"

definition grid_extent :: "(layout_cell \<Rightarrow> number) \<Rightarrow> layout_cell list \<Rightarrow> number" where
  "grid_extent edge cells = foldl (\<lambda>m c. if edge c > m then edge c else m) 1 cells"

definition real_layout :: "'k bundle_ctx \<Rightarrow> string option \<Rightarrow> layout \<Rightarrow> bundle_cell list \<Rightarrow> bundle_layout" where
  "real_layout cx defaultId l bs =
     (let cells = listLayoutCells (bx_db cx) (l_id l) in
      \<lparr>by_local_short_key = l_local_short_key l, by_id = l_id l, by_name = l_name l,
       by_grid_cols = grid_extent (\<lambda>c. lc_col c + lc_col_span c) cells,
       by_grid_rows = grid_extent (\<lambda>c. lc_row c + lc_row_span c) cells,
       by_priority = l_priority l, by_cooling_timeout_seconds = l_cooling_timeout_seconds l,
       by_idle_timeout_seconds = l_idle_timeout_seconds l,
       by_preload_camera_ids = (if bx_viewer cx then [] else l_preload_camera_ids l),
       by_resets_idle_timer = l_resets_idle_timer l, by_is_default = (defaultId = Some (l_id l)), by_cells = bs,
       by_input_options = (if bx_viewer cx then JUndefined else l_input_options_json l)\<rparr>)"

fun build_real ::
  "'k bundle_ctx \<Rightarrow> string option \<Rightarrow> layout list \<Rightarrow> virtuals \<Rightarrow> (bundle_layout list \<times> virtuals) gen" where
  "build_real cx defaultId [] vs = gen_return ([], vs)"
| "build_real cx defaultId (l # ls) vs =
     gen_bind (build_cells cx l (listLayoutCells (bx_db cx) (l_id l)) vs) (\<lambda>(bs, vs1).
       gen_bind (build_real cx defaultId ls vs1) (\<lambda>(rest, vs2).
         gen_return (real_layout cx defaultId l bs # rest, vs2)))"

text \<open>Every other entity becomes a full-screen layout for the operator console.\<close>

definition operator_layout :: "'k bundle_ctx \<Rightarrow> entity \<Rightarrow> bundle_layout" where
  "operator_layout cx ent =
     (let r = resolveEntityContent (bx_env cx) (bx_db cx) ent;
          opts = (if bx_viewer cx then JUndefined else ent_input_options_json ent)
      in \<lparr>by_local_short_key = None, by_id = ent_id ent, by_name = ''Full Screen: '' @ ent_name ent,
          by_grid_cols = 1, by_grid_rows = 1, by_priority = PrioNormal, by_cooling_timeout_seconds = None,
          by_idle_timeout_seconds = None, by_preload_camera_ids = [], by_resets_idle_timer = True,
          by_is_default = False,
          by_cells = [\<lparr>bl_view_id = ''operator:'' @ ent_id ent, bl_entity_id = Some (ent_id ent), bl_row = 0,
            bl_col = 0, bl_row_span = 1, bl_col_span = 1, bl_content_type = rc_content_type r,
            bl_camera_id = rc_camera_id r, bl_stream_selector = None, bl_web_url = rc_web_url r,
            bl_html_content = rc_html_content r, bl_cooling_timeout_seconds = None, bl_fit = FitContain,
            bl_smart_url = JUndefined, bl_local_storage = rc_local_storage r, bl_input_options = opts\<rparr>],
          by_input_options = opts\<rparr>)"

definition add_operator :: "'k bundle_ctx \<Rightarrow> entity list \<Rightarrow> virtuals \<Rightarrow> virtuals" where
  "add_operator cx ents vs =
     foldl (\<lambda>m ent. if map_has m (ent_id ent) then m else AList.update (ent_id ent) (operator_layout cx ent) m) vs ents"

text \<open>Only local click actions survive for a viewer.\<close>

definition click_action :: "string \<Rightarrow> (string \<times> json) list \<Rightarrow> json" where
  "click_action action params =
     JObj [(''events'', JObj [(''click'', JObj [(''action'', JStr action), (''params'', JObj params)])])]"

definition viewerInputOptions :: "bundle_env \<Rightarrow> json \<Rightarrow> string list \<Rightarrow> json" where
  "viewerInputOptions env options layoutIds =
     (let click = json_get (json_get options ''events'') ''click'' in
      if \<not> truthy click then JUndefined
      else let action = js_string (be_show_number env) (json_or (json_get click ''action'') (JStr []));
               lid = json_get (json_get click ''params'') ''layout_id'';
               lid_text = js_string (be_show_number env) lid
           in if action \<in> {''expand'', ''view.expand'', ''restore'', ''view.restore''} then click_action action []
              else if action = ''layout.switch'' \<and> (case lid of JStr _ \<Rightarrow> True | JNum _ \<Rightarrow> True | _ \<Rightarrow> False)
                      \<and> lid_text \<in> set layoutIds
              then click_action action [(''layout_id'', JStr lid_text)]
              else click_action ''unsupported'' [])"

definition viewer_layout :: "bundle_env \<Rightarrow> string list \<Rightarrow> bundle_layout \<Rightarrow> bundle_layout" where
  "viewer_layout env allowed y =
     y\<lparr>by_input_options := JUndefined,
       by_cells := map (\<lambda>b. b\<lparr>bl_input_options := viewerInputOptions env (bl_input_options b) allowed\<rparr>) (by_cells y)\<rparr>"

definition buildLayouts ::
  "('k::linorder) bundle_ctx \<Rightarrow> entity list \<Rightarrow> string \<Rightarrow> string option \<Rightarrow> bundle_layout list gen" where
  "buildLayouts cx operatorContent did defaultId =
     gen_bind (build_real cx defaultId (listLayoutsForDisplay (bx_collate cx) (bx_db cx) did) []) (\<lambda>(real, vs).
       let virtual = map snd (filter (\<lambda>(eid, _). eid \<notin> set (map by_id real)) (add_operator cx operatorContent vs));
           result = real @ virtual
       in gen_return (if bx_viewer cx then map (viewer_layout (bx_env cx) (map by_id result)) result else result))"

section \<open>Cameras\<close>

definition first_occurrences :: "'a list \<Rightarrow> 'a list" where
  "first_occurrences xs = rev (remdups (rev xs))"

text \<open>Cameras of the layouts and, for operated labels, of the labels, each once.\<close>

definition scoped_cameras :: "(string \<Rightarrow> 'k::linorder) \<Rightarrow> content_db \<Rightarrow> string list \<Rightarrow> string \<Rightarrow> camera list" where
  "scoped_cameras ck db layoutIds kid =
     (let byLayout = map (\<lambda>c. (cam_id c, c)) (camerasForLayoutIds ck db layoutIds);
          byId = foldl (\<lambda>m c. AList.update (cam_id c) c m) byLayout (camerasForLabelIds ck db (operateLabelIds db kid))
      in sort_key (\<lambda>c. ck (cam_name c)) (map snd byId))"

definition assigned_camera_ids :: "bundle_display list \<Rightarrow> string list" where
  "assigned_camera_ids ds =
     first_occurrences (concat (map (\<lambda>d. concat (map (\<lambda>y. concat (map
       (\<lambda>b. if bl_content_type b = CellCamera \<and> truthy_str (bl_camera_id b) then [the (bl_camera_id b)] else [])
       (by_cells y))) (bd_layouts d))) ds))"

definition viewer_cameras :: "(string \<Rightarrow> 'k::linorder) \<Rightarrow> content_db \<Rightarrow> bundle_display list \<Rightarrow> camera list" where
  "viewer_cameras ck db ds =
     sort_key (\<lambda>c. ck (cam_name c))
       (filter cam_enabled (concat (map (\<lambda>cid. case getCameraById db cid of None \<Rightarrow> [] | Some c \<Rightarrow> [c])
          (assigned_camera_ids ds))))"

text \<open>The callback token of a camera, stored when it is new or has changed.\<close>

definition camera_callback :: "bundle_env \<Rightarrow> camera \<Rightarrow> callback" where
  "camera_callback env cam = createOnvifCallbackToken env (cam_id cam) (cam_event_callback_nonce cam)"

definition store_callback :: "bundle_env \<Rightarrow> content_db \<Rightarrow> camera \<Rightarrow> content_db" where
  "store_callback env db cam =
     (let cb = camera_callback env cam in
      if cam_event_callback_nonce cam \<noteq> Some (cb_nonce cb) \<or> cam_event_callback_token_hash cam \<noteq> Some (cb_hash cb)
      then setCameraEventCallbackToken (cam_id cam) (cb_nonce cb) (cb_hash cb) db else db)"

definition claim_events :: "string \<Rightarrow> camera \<Rightarrow> camera" where
  "claim_events kid cam =
     (if cam_type cam = CamOnvif \<and> cam_event_source cam = ''auto''
      then cam\<lparr>cam_event_source := ''kiosk:'' @ kid\<rparr> else cam)"

text \<open>An RTSP camera without stream rows plays its own address as the main stream.\<close>

definition effective_streams :: "bundle_env \<Rightarrow> content_db \<Rightarrow> camera \<Rightarrow> bundle_stream list" where
  "effective_streams env db cam =
     (let streams = listCameraStreams db (cam_id cam) in
      if streams \<noteq> [] then
        map (\<lambda>s. \<lparr>bs_id = cs_id s, bs_role = cs_role s, bs_name = cs_name s, bs_profile_token = cs_profile_token s,
                  bs_rtsp_uri = cs_rtsp_uri s, bs_width = cs_width s, bs_height = cs_height s,
                  bs_encoding = cs_encoding s, bs_framerate = cs_framerate s\<rparr>) streams
      else if cam_type cam = CamRtsp \<and> truthy_str (cam_rtsp_url cam) then
        [\<lparr>bs_id = [], bs_role = StreamRoleMain, bs_name = ''Main'', bs_profile_token = None,
          bs_rtsp_uri = nullish (stripRtspCredentials env (cam_rtsp_url cam)) (the (cam_rtsp_url cam)),
          bs_width = None, bs_height = None, bs_encoding = None, bs_framerate = None\<rparr>]
      else [])"

definition encrypt_password :: "'k bundle_ctx \<Rightarrow> bool \<Rightarrow> string option \<Rightarrow> string \<Rightarrow> string option gen" where
  "encrypt_password cx wanted pw ctx =
     (if wanted \<and> truthy_str pw \<and> truthy_str (bx_key cx)
      then gen_bind (encryptForBundle (bx_env cx) (the pw) (the (bx_key cx)) ctx) (\<lambda>c. gen_return (Some c))
      else gen_return None)"

definition bundle_camera_of ::
  "('k::linorder) bundle_ctx \<Rightarrow> string list \<Rightarrow> camera \<Rightarrow> bundle_camera gen" where
  "bundle_camera_of cx operateIds cam =
     (let env = bx_env cx; db = bx_db cx; viewer = bx_viewer cx;
          streams = effective_streams env db cam;
          (username, password) = resolvePlaybackCredentials env cam (map bs_rtsp_uri streams)
      in gen_bind (encrypt_password cx (\<not> viewer) (cam_onvif_password cam) (''onvif:'' @ cam_id cam)) (\<lambda>onvifPw.
         gen_bind (encrypt_password cx True password (''playback:'' @ cam_id cam)) (\<lambda>playPw.
         gen_return \<lparr>bk_local_short_key = cam_local_short_key cam, bk_id = cam_id cam,
           bk_device_id = cam_device_id cam,
           bk_device_name = (if truthy_str (cam_device_id cam)
                             then map_option cd_name (find (\<lambda>d. Some (cd_id d) = cam_device_id cam) (c_devices db))
                             else None),
           bk_name = cam_name cam, bk_camera_number = cam_camera_number cam,
           bk_labels = cameraLabelNames (bx_collate cx) db cam,
           bk_capabilities = (if viewer then [] else cam_capabilities cam),
           bk_enabled = cam_enabled cam, bk_last_seen_at = cam_last_seen_at cam,
           bk_simple_vms_managed = (cam_id cam \<in> set operateIds),
           bk_recording_config = (if viewer then JObj [] else cam_recording_config_json cam),
           bk_type = cam_type cam,
           bk_onvif_host = (if viewer then None else cam_onvif_host cam),
           bk_onvif_port = (if viewer then None else cam_onvif_port cam),
           bk_onvif_username = (if viewer then None else cam_onvif_username cam),
           bk_onvif_password_encrypted = onvifPw, bk_playback_username = username,
           bk_playback_password_encrypted = playPw,
           bk_event_source = (if viewer then ''disabled'' else cam_event_source cam),
           bk_event_sink = (if viewer then ''none'' else cam_event_sink cam),
           bk_event_callback_token = (if viewer then [] else cb_token (camera_callback env cam)),
           bk_stream_policy = cam_stream_policy cam,
           bk_streams = map (\<lambda>s. s\<lparr>bs_profile_token := (if viewer then None else bs_profile_token s),
               bs_rtsp_uri := nullish (stripRtspCredentials env (Some (bs_rtsp_uri s))) (bs_rtsp_uri s)\<rparr>) streams\<rparr>)))"

section \<open>Settings\<close>

definition parseJsonObject :: "bundle_env \<Rightarrow> string option \<Rightarrow> json" where
  "parseJsonObject env raw =
     (if \<not> truthy_str raw then JObj []
      else case be_parse_json env (the raw) of Some (JObj fs) \<Rightarrow> JObj fs | _ \<Rightarrow> JObj [])"

definition is_http_url :: "string \<Rightarrow> bool" where
  "is_http_url s \<longleftrightarrow> prefix ''http://'' (js_lower s) \<or> prefix ''https://'' (js_lower s)"

definition operator_tool :: "bundle_env \<Rightarrow> json \<Rightarrow> (string \<times> string) list" where
  "operator_tool env item =
     (let text = (\<lambda>k. js_trim (js_string (be_show_number env) (json_or (json_get item k) (JStr [])))) in
      case item of
        JObj _ \<Rightarrow> if text ''label'' \<noteq> [] \<and> is_http_url (text ''url'') then [(text ''label'', text ''url'')] else []
      | _ \<Rightarrow> [])"

definition parseOperatorTools :: "bundle_env \<Rightarrow> string option \<Rightarrow> (string \<times> string) list" where
  "parseOperatorTools env raw =
     (if \<not> truthy_str raw then []
      else case be_parse_json env (the raw) of
        Some (JArr vs) \<Rightarrow> concat (map (operator_tool env) vs) | _ \<Rightarrow> [])"

definition stripDisplayKioskPrefix :: "string \<Rightarrow> string \<Rightarrow> string" where
  "stripDisplayKioskPrefix displayName kioskName =
     (let p = kioskName @ '': '' in if prefix p displayName then drop (length p) displayName else displayName)"

definition console_of :: "bundle_env \<Rightarrow> bool \<Rightarrow> kiosk \<Rightarrow> operator_console" where
  "console_of env viewer k =
     \<lparr>oc_enabled = (\<not> viewer \<and> k_operator_console_enabled k),
      oc_host = (if viewer then None else k_operator_console_host k), oc_port = k_operator_console_port k,
      oc_tools = (if viewer then [] else parseOperatorTools env (k_operator_tools_json k)),
      oc_vms_enabled = (\<not> viewer \<and> k_simple_vms_enabled k),
      oc_vms_storage_path = (if viewer then None else k_simple_vms_storage_path k),
      oc_vms_settings = (if viewer then JObj [] else parseJsonObject env (k_simple_vms_settings_json k))\<rparr>"

definition gpio_of :: "gpio_binding \<Rightarrow> bundle_gpio" where
  "gpio_of g = \<lparr>bg_id = gb_id g, bg_chip = gb_chip g, bg_pin = gb_pin g, bg_direction = gb_direction g,
                bg_pull = gb_pull g, bg_edge = gb_edge g, bg_topic = gb_topic g\<rparr>"

section \<open>Wire form and version\<close>

definition opt_str :: "string option \<Rightarrow> json" where
  "opt_str x = (case x of None \<Rightarrow> JNull | Some s \<Rightarrow> JStr s)"

definition opt_num :: "number option \<Rightarrow> json" where
  "opt_num x = (case x of None \<Rightarrow> JNull | Some n \<Rightarrow> JNum n)"

definition opt_field :: "string option \<Rightarrow> json" where
  "opt_field x = (case x of None \<Rightarrow> JUndefined | Some s \<Rightarrow> JStr s)"

fun camera_type_str :: "camera_type \<Rightarrow> string" where
  "camera_type_str CamRtsp = ''rtsp''" | "camera_type_str CamOnvif = ''onvif''" | "camera_type_str CamCloud = ''cloud''"

fun stream_role_str :: "stream_role \<Rightarrow> string" where
  "stream_role_str StreamRoleMain = ''main''" | "stream_role_str StreamRoleSub = ''sub''"
| "stream_role_str StreamRoleOther = ''other''"

fun stream_policy_str :: "stream_policy \<Rightarrow> string" where
  "stream_policy_str PolicyAuto = ''auto''" | "stream_policy_str PolicyAlwaysMain = ''always_main''"
| "stream_policy_str PolicyAlwaysSub = ''always_sub''"

fun content_type_str :: "cell_content_type \<Rightarrow> string" where
  "content_type_str CellNone = ''none''" | "content_type_str CellCamera = ''camera''"
| "content_type_str CellWeb = ''web''" | "content_type_str CellHtml = ''html''"
| "content_type_str CellAblesign = ''ablesign''"

fun selector_str :: "stream_selector \<Rightarrow> string" where
  "selector_str SelAuto = ''auto''" | "selector_str SelMain = ''main''" | "selector_str SelSub = ''sub''"

fun fit_str :: "fit_mode \<Rightarrow> string" where
  "fit_str FitCover = ''cover''" | "fit_str FitContain = ''contain''" | "fit_str FitFill = ''fill''"

fun priority_str :: "layout_priority \<Rightarrow> string" where
  "priority_str PrioHot = ''hot''" | "priority_str PrioNormal = ''normal''" | "priority_str PrioCold = ''cold''"

fun direction_str :: "gpio_direction \<Rightarrow> string" where
  "direction_str GpioIn = ''in''" | "direction_str GpioOut = ''out''"

fun pull_str :: "gpio_pull \<Rightarrow> string" where
  "pull_str PullUp = ''up''" | "pull_str PullDown = ''down''" | "pull_str PullNone = ''none''"

fun edge_str :: "gpio_edge \<Rightarrow> string" where
  "edge_str EdgeRising = ''rising''" | "edge_str EdgeFalling = ''falling''" | "edge_str EdgeBoth = ''both''"

definition stream_json :: "bundle_stream \<Rightarrow> json" where
  "stream_json s = JObj [(''id'', JStr (bs_id s)), (''role'', JStr (stream_role_str (bs_role s))),
     (''name'', JStr (bs_name s)), (''profile_token'', opt_str (bs_profile_token s)),
     (''rtsp_uri'', JStr (bs_rtsp_uri s)), (''width'', opt_num (bs_width s)), (''height'', opt_num (bs_height s)),
     (''encoding'', opt_str (bs_encoding s)), (''framerate'', opt_num (bs_framerate s))]"

text \<open>\<open>show_time\<close> prints a time; the mapped row already holds its text.\<close>

definition camera_json :: "(timestamp \<Rightarrow> string) \<Rightarrow> bundle_camera \<Rightarrow> json" where
  "camera_json show_time c = JObj [(''id'', JStr (bk_id c)), (''local_short_key'', opt_field (bk_local_short_key c)),
     (''device_id'', opt_str (bk_device_id c)), (''device_name'', opt_str (bk_device_name c)),
     (''name'', JStr (bk_name c)), (''camera_number'', opt_str (bk_camera_number c)),
     (''labels'', JArr (map JStr (bk_labels c))), (''capabilities'', JArr (map JStr (bk_capabilities c))),
     (''enabled'', JBool (bk_enabled c)), (''last_seen_at'', opt_str (map_option show_time (bk_last_seen_at c))),
     (''simple_vms_managed'', JBool (bk_simple_vms_managed c)), (''recording_config'', bk_recording_config c),
     (''type'', JStr (camera_type_str (bk_type c))), (''onvif_host'', opt_str (bk_onvif_host c)),
     (''onvif_port'', opt_num (bk_onvif_port c)), (''onvif_username'', opt_str (bk_onvif_username c)),
     (''onvif_password_encrypted'', opt_str (bk_onvif_password_encrypted c)),
     (''playback_username'', opt_str (bk_playback_username c)),
     (''playback_password_encrypted'', opt_str (bk_playback_password_encrypted c)),
     (''event_source'', JStr (bk_event_source c)), (''event_sink'', JStr (bk_event_sink c)),
     (''event_callback_token'', JStr (bk_event_callback_token c)),
     (''stream_policy'', JStr (stream_policy_str (bk_stream_policy c))),
     (''streams'', JArr (map stream_json (bk_streams c)))]"

definition cell_json :: "bundle_cell \<Rightarrow> json" where
  "cell_json b = JObj [(''view_id'', JStr (bl_view_id b)), (''entity_id'', opt_str (bl_entity_id b)),
     (''row'', JNum (bl_row b)), (''col'', JNum (bl_col b)), (''row_span'', JNum (bl_row_span b)),
     (''col_span'', JNum (bl_col_span b)), (''content_type'', JStr (content_type_str (bl_content_type b))),
     (''camera_id'', opt_str (bl_camera_id b)),
     (''stream_selector'', opt_str (map_option selector_str (bl_stream_selector b))),
     (''web_url'', opt_str (bl_web_url b)), (''html_content'', opt_str (bl_html_content b)),
     (''cooling_timeout_seconds'', opt_num (bl_cooling_timeout_seconds b)), (''fit'', JStr (fit_str (bl_fit b))),
     (''smart_url'', bl_smart_url b),
     (''local_storage'', case bl_local_storage b of None \<Rightarrow> JUndefined
                         | Some kvs \<Rightarrow> JObj (map (\<lambda>(k, v). (k, JStr v)) kvs)),
     (''input_options'', bl_input_options b)]"

definition layout_json :: "bundle_layout \<Rightarrow> json" where
  "layout_json y = JObj [(''id'', JStr (by_id y)), (''local_short_key'', opt_field (by_local_short_key y)),
     (''name'', JStr (by_name y)), (''grid_cols'', JNum (by_grid_cols y)), (''grid_rows'', JNum (by_grid_rows y)),
     (''priority'', JStr (priority_str (by_priority y))),
     (''cooling_timeout_seconds'', opt_num (by_cooling_timeout_seconds y)),
     (''idle_timeout_seconds'', opt_num (by_idle_timeout_seconds y)),
     (''preload_camera_ids'', JArr (map JStr (by_preload_camera_ids y))),
     (''resets_idle_timer'', JBool (by_resets_idle_timer y)), (''is_default'', JBool (by_is_default y)),
     (''cells'', JArr (map cell_json (by_cells y))), (''input_options'', by_input_options y)]"

definition display_fields :: "bundle_display \<Rightarrow> (string \<times> json) list" where
  "display_fields d = [(''id'', JStr (bd_id d)), (''name'', JStr (bd_name d)), (''width_px'', JNum (bd_width_px d)),
     (''height_px'', JNum (bd_height_px d)), (''idle_timeout_seconds'', JNum (bd_idle_timeout_seconds d)),
     (''sleep_timeout_seconds'', JNum (bd_sleep_timeout_seconds d)),
     (''default_layout_id'', opt_str (bd_default_layout_id d))]"

definition layouts_json :: "bundle_display \<Rightarrow> json" where
  "layouts_json d = JArr (map layout_json (bd_layouts d))"

definition gpio_json :: "bundle_gpio \<Rightarrow> json" where
  "gpio_json g = JObj [(''id'', JStr (bg_id g)), (''chip'', JStr (bg_chip g)), (''pin'', JNum (bg_pin g)),
     (''direction'', JStr (direction_str (bg_direction g))), (''pull'', opt_str (map_option pull_str (bg_pull g))),
     (''edge'', opt_str (map_option edge_str (bg_edge g))), (''topic'', JStr (bg_topic g))]"

definition console_json :: "operator_console \<Rightarrow> json" where
  "console_json c = JObj [(''enabled'', JBool (oc_enabled c)), (''host'', opt_str (oc_host c)),
     (''port'', JNum (oc_port c)),
     (''tools'', JArr (map (\<lambda>(l, u). JObj [(''label'', JStr l), (''url'', JStr u)]) (oc_tools c))),
     (''simple_vms'', JObj [(''enabled'', JBool (oc_vms_enabled c)), (''storage_path'', opt_str (oc_vms_storage_path c)),
        (''settings'', oc_vms_settings c)])]"

definition bundle_json :: "(timestamp \<Rightarrow> string) \<Rightarrow> kiosk_bundle \<Rightarrow> json" where
  "bundle_json show_time b = JObj [(''kiosk_id'', JStr (kb_kiosk_id b)), (''kiosk_name'', JStr (kb_kiosk_name b)),
     (''tenant_slug'', JStr ''default''), (''display'', JObj (display_fields (hd (kb_displays b)))),
     (''layouts'', layouts_json (hd (kb_displays b))),
     (''displays'', JArr (map (\<lambda>d. JObj (display_fields d @ [(''layouts'', layouts_json d)])) (kb_displays b))),
     (''cameras'', JArr (map (camera_json show_time) (kb_cameras b))),
     (''gpio_bindings'', JArr (map gpio_json (kb_gpio_bindings b))),
     (''operator_console'', console_json (kb_operator_console b)), (''version'', JStr (kb_version b))]"

text \<open>The value that is hashed: version fields blanked, ciphertexts replaced by fingerprints.\<close>

fun stableBundleForVersion :: "(string, string) jsmap \<Rightarrow> json \<Rightarrow> json" where
  "stableBundleForVersion m (JArr vs) = JArr (map (stableBundleForVersion m) vs)"
| "stableBundleForVersion m (JObj fs) =
     JObj (map (\<lambda>(k, v). (k, if k = ''version'' then JStr []
                            else case v of
                                JStr s \<Rightarrow> if suffix ''_encrypted'' k then JStr (nullish (map_of m s) s) else JStr s
                              | _ \<Rightarrow> stableBundleForVersion m v)) fs)"
| "stableBundleForVersion m v = v"

section \<open>Generation\<close>

definition kiosk_displays :: "content_db \<Rightarrow> kiosk \<Rightarrow> display list" where
  "kiosk_displays db k =
     (let found = listDisplaysForKiosk db (k_id k) in
      if found \<noteq> [] then found
      else if truthy_str (k_display_id k)
           then (case getDisplayById db (the (k_display_id k)) of None \<Rightarrow> [] | Some d \<Rightarrow> [d]) else [])"

definition bundle_display_of :: "('k::linorder) bundle_ctx \<Rightarrow> kiosk \<Rightarrow> entity list \<Rightarrow> display \<Rightarrow> bundle_display gen" where
  "bundle_display_of cx k operatorContent d =
     gen_bind (buildLayouts cx operatorContent (d_id d) (d_default_layout_id d)) (\<lambda>layouts. gen_return
       \<lparr>bd_id = d_id d, bd_name = stripDisplayKioskPrefix (d_name d) (k_name k), bd_width_px = d_width_px d,
        bd_height_px = d_height_px d, bd_idle_timeout_seconds = d_idle_timeout_seconds d,
        bd_sleep_timeout_seconds = d_sleep_timeout_seconds d, bd_default_layout_id = d_default_layout_id d,
        bd_layouts = layouts\<rparr>)"

definition in_phase :: "string \<Rightarrow> (bundle_cause, 'a) result \<Rightarrow> (bundle_error, 'a) result" where
  "in_phase phase r = (case r of Inl c \<Rightarrow> Inl (BundleGenerationError phase c) | Inr x \<Rightarrow> Inr x)"

text \<open>Each camera is its own phase.\<close>

fun bundle_cameras ::
  "('k::linorder) bundle_ctx \<Rightarrow> string list \<Rightarrow> camera list \<Rightarrow> gen_state \<Rightarrow> (bundle_error, bundle_camera list \<times> gen_state) result" where
  "bundle_cameras cx operateIds [] s = Inr ([], s)"
| "bundle_cameras cx operateIds (c # cs) s =
     bind_result (in_phase (''build-camera-credentials:'' @ cam_id c) (bundle_camera_of cx operateIds c s)) (\<lambda>(b, s1).
       bind_result (bundle_cameras cx operateIds cs s1) (\<lambda>(bs, s2). Inr (b # bs, s2)))"

definition own_key :: "bundle_env \<Rightarrow> kiosk \<Rightarrow> string option" where
  "own_key env k = (if truthy_str (k_encrypt_key_encrypted k)
     then be_decrypt env (the (k_encrypt_key_encrypted k)) ''kiosk-encrypt'' else None)"

definition is_viewer :: "kiosk \<Rightarrow> bool" where
  "is_viewer k \<longleftrightarrow> ''android-viewer'' \<in> set (k_capabilities k)"

text \<open>A viewer drives one display; a disabled display is never shown.\<close>

definition shown_displays :: "content_db \<Rightarrow> kiosk \<Rightarrow> display list" where
  "shown_displays db k =
     (let enabled = filter d_is_enabled (kiosk_displays db k) in if is_viewer k then take 1 enabled else enabled)"

definition bundle_context ::
  "bundle_env \<Rightarrow> (string \<Rightarrow> 'k) \<Rightarrow> content_db \<Rightarrow> kiosk \<Rightarrow> string option \<Rightarrow> 'k bundle_ctx" where
  "bundle_context env ck db k clusterKey =
     \<lparr>bx_env = env, bx_db = db, bx_collate = ck, bx_viewer = is_viewer k,
      bx_key = (case own_key env k of None \<Rightarrow> clusterKey | Some x \<Rightarrow> Some x)\<rparr>"

definition operator_content :: "(string \<Rightarrow> 'k::linorder) \<Rightarrow> content_db \<Rightarrow> kiosk \<Rightarrow> entity list" where
  "operator_content ck db k =
     (if \<not> is_viewer k \<and> k_operator_console_enabled k
      then filter (\<lambda>e. ent_type e \<noteq> EntCamera) (listEntities ck db) else [])"

definition shown_layout_ids :: "(string \<Rightarrow> 'k::linorder) \<Rightarrow> content_db \<Rightarrow> display list \<Rightarrow> string list" where
  "shown_layout_ids ck db ds =
     first_occurrences (concat (map (\<lambda>d. map l_id (listLayoutsForDisplay ck db (d_id d))) ds))"

definition bundle_camera_rows ::
  "(string \<Rightarrow> 'k::linorder) \<Rightarrow> content_db \<Rightarrow> kiosk \<Rightarrow> bundle_display list \<Rightarrow> camera list" where
  "bundle_camera_rows ck db k bds =
     (if is_viewer k then viewer_cameras ck db bds
      else scoped_cameras ck db (shown_layout_ids ck db (shown_displays db k)) (k_id k))"

definition operate_camera_ids :: "(string \<Rightarrow> 'k::linorder) \<Rightarrow> content_db \<Rightarrow> kiosk \<Rightarrow> string list" where
  "operate_camera_ids ck db k =
     (if is_viewer k then [] else map cam_id (camerasForLabelIds ck db (operateLabelIds db (k_id k))))"

definition event_ownership :: "bundle_env \<Rightarrow> kiosk \<Rightarrow> timestamp \<Rightarrow> camera list \<Rightarrow> content_db \<Rightarrow> content_db" where
  "event_ownership env k now cameras db =
     (if is_viewer k then db else foldl (store_callback env) (releaseStaleEventOwnership 24 now db) cameras)"

definition owned_cameras :: "kiosk \<Rightarrow> camera list \<Rightarrow> camera list" where
  "owned_cameras k cameras = (if is_viewer k then cameras else map (claim_events (k_id k)) cameras)"

definition finish_bundle ::
  "bundle_env \<Rightarrow> (timestamp \<Rightarrow> string) \<Rightarrow> (string \<Rightarrow> 'k::linorder) \<Rightarrow> content_db \<Rightarrow> kiosk \<Rightarrow> bundle_display list
   \<Rightarrow> bundle_camera list \<Rightarrow> (string, string) jsmap \<Rightarrow> kiosk_bundle" where
  "finish_bundle env show_time ck db k bds bks prints =
     (let bundle = \<lparr>kb_kiosk_id = k_id k, kb_kiosk_name = k_name k, kb_displays = bds, kb_cameras = bks,
            kb_gpio_bindings = (if is_viewer k then [] else map gpio_of (listGpioBindings ck db (k_id k))),
            kb_operator_console = console_of env (is_viewer k) k, kb_version = []\<rparr>
      in bundle\<lparr>kb_version := be_digest env (stableBundleForVersion prints (bundle_json show_time bundle))\<rparr>)"

text \<open>
  Generation returns the tables it leaves behind, also when it fails, and either an error,
  no bundle (unknown kiosk, no enabled display) or the bundle.
\<close>

definition generateBundle ::
  "bundle_env \<Rightarrow> (timestamp \<Rightarrow> string) \<Rightarrow> (string \<Rightarrow> 'k::linorder) \<Rightarrow> content_db \<Rightarrow> string \<Rightarrow> string option \<Rightarrow> timestamp
   \<Rightarrow> content_db \<times> (bundle_error, kiosk_bundle option) result" where
  "generateBundle env show_time ck db kid clusterKey now =
     (case getKioskById db kid of
        None \<Rightarrow> (db, Inr None)
      | Some k \<Rightarrow>
        let displays = shown_displays db k; cx = bundle_context env ck db k clusterKey in
        if displays = [] then (db, Inr None)
        else if is_viewer k \<and> \<not> truthy_str (own_key env k)
        then (db, Inl (BundleGenerationError ''load-displays'' NoViewerKey))
        else case in_phase ''build-displays''
                  (gen_map (bundle_display_of cx k (operator_content ck db k)) displays \<lparr>gs_calls = 0, gs_stable = []\<rparr>) of
          Inl e \<Rightarrow> (db, Inl e)
        | Inr (bds, s1) \<Rightarrow>
            let cameras = bundle_camera_rows ck db k bds
            in (event_ownership env k now cameras db,
                bind_result (bundle_cameras cx (operate_camera_ids ck db k) (owned_cameras k cameras) s1)
                  (\<lambda>(bks, s2). Inr (Some (finish_bundle env show_time ck db k bds bks (gs_stable s2))))))"

section \<open>The viewer's assignment\<close>

record viewer_assignment =
  va_display :: "display option"
  va_layout_ids :: "string list"
  va_dashboard_paths :: "string list"

definition dashboard_source :: "content_db \<Rightarrow> layout_cell \<Rightarrow> string option" where
  "dashboard_source db c =
     (case (if truthy_str (lc_entity_id c) then getEntityById db (the (lc_entity_id c)) else None) of
        Some ent \<Rightarrow>
          if ent_type ent = EntDashboard \<and> truthy_str (ent_dashboard_id ent)
          then Some (''/dash/'' @ the (ent_dashboard_id ent))
          else if ent_type ent = EntWeb \<or> ent_type ent = EntAblesign then ent_web_url ent else None
      | None \<Rightarrow> if lc_content_type c = CellWeb then lc_web_url c else None)"

text \<open>\<open>pathname\<close> is the path of an address resolved against the display origin.\<close>

definition dashboard_path :: "(string \<Rightarrow> string) \<Rightarrow> string option \<Rightarrow> string list" where
  "dashboard_path pathname src =
     (case src of
        None \<Rightarrow> []
      | Some u \<Rightarrow>
          if prefix ''/dash/'' u then
            (let p = pathname u in
             if prefix ''/dash/'' p \<and> p \<noteq> ''/dash/'' then [if suffix ''/'' p then butlast p else p] else [])
          else [])"

definition viewerAssignment :: "(string \<Rightarrow> 'k::linorder) \<Rightarrow> (string \<Rightarrow> string) \<Rightarrow> content_db \<Rightarrow> kiosk \<Rightarrow> viewer_assignment" where
  "viewerAssignment ck pathname db k =
     (let display = find d_is_enabled (kiosk_displays db k);
          layouts = (case display of None \<Rightarrow> [] | Some d \<Rightarrow> listLayoutsForDisplay ck db (d_id d));
          cells = concat (map (\<lambda>l. listLayoutCells db (l_id l)) layouts);
          entities = concat (map (\<lambda>c. case (if truthy_str (lc_entity_id c) then getEntityById db (the (lc_entity_id c)) else None) of
                        None \<Rightarrow> [] | Some e \<Rightarrow> [ent_id e]) cells)
      in \<lparr>va_display = display, va_layout_ids = first_occurrences (map l_id layouts @ entities),
          va_dashboard_paths = first_occurrences (concat (map (\<lambda>c. dashboard_path pathname (dashboard_source db c)) cells))\<rparr>)"

section \<open>What every successful step returns\<close>

definition gen_all :: "'a gen \<Rightarrow> ('a \<Rightarrow> bool) \<Rightarrow> bool" where
  "gen_all m P \<longleftrightarrow> (\<forall>s x s'. m s = Inr (x, s') \<longrightarrow> P x)"

lemma gen_all_return [simp]: "gen_all (gen_return x) P \<longleftrightarrow> P x"
  by (auto simp: gen_all_def gen_return_def)

lemma gen_all_bind:
  assumes "gen_all m Q" and "\<And>x. Q x \<Longrightarrow> gen_all (f x) P"
  shows "gen_all (gen_bind m f) P"
  using assms by (fastforce simp: gen_all_def gen_bind_def bind_result_eq_Inr)

lemma gen_all_mono: "gen_all m P \<Longrightarrow> (\<And>x. P x \<Longrightarrow> Q x) \<Longrightarrow> gen_all m Q"
  by (auto simp: gen_all_def)

lemma gen_allD: "gen_all m P \<Longrightarrow> m s = Inr (x, s') \<Longrightarrow> P x"
  by (auto simp: gen_all_def)

lemma gen_all_map:
  assumes "\<And>x. x \<in> set xs \<Longrightarrow> gen_all (f x) (P x)"
  shows "gen_all (gen_map f xs) (list_all2 P xs)"
  using assms
proof (induction xs)
  case (Cons x xs)
  show ?case
    unfolding gen_map.simps
    by (rule gen_all_bind [where Q = "P x"])
       (use Cons in \<open>auto intro!: gen_all_bind [where Q = "list_all2 P xs"]\<close>)
qed simp

section \<open>Layouts of a bundle\<close>

definition smart_ok :: "'k bundle_ctx \<Rightarrow> json \<Rightarrow> bool" where
  "smart_ok cx smart \<longleftrightarrow> (bx_viewer cx \<longrightarrow> smart \<in> {JUndefined, JObj [(''steps'', JArr [])]})"

definition cell_made :: "'k bundle_ctx \<Rightarrow> layout_cell \<Rightarrow> bundle_cell \<Rightarrow> bool" where
  "cell_made cx c b \<longleftrightarrow> (\<exists>smart. smart_ok cx smart \<and> b = make_cell cx c smart)"

definition layout_made :: "'k bundle_ctx \<Rightarrow> string option \<Rightarrow> layout \<Rightarrow> bundle_layout \<Rightarrow> bool" where
  "layout_made cx d l y \<longleftrightarrow>
     (\<exists>bs. y = real_layout cx d l bs \<and> list_all2 (cell_made cx) (listLayoutCells (bx_db cx) (l_id l)) bs)"

definition cells_of :: "content_db \<Rightarrow> layout list \<Rightarrow> layout_cell list" where
  "cells_of db ls = concat (map (\<lambda>l. listLayoutCells db (l_id l)) ls)"

definition entity_ids :: "content_db \<Rightarrow> layout_cell list \<Rightarrow> string set" where
  "entity_ids db cs = {eid. \<exists>c \<in> set cs. lc_entity_id c = Some eid \<and> getEntityById db eid \<noteq> None}"

definition virtual_made :: "'k bundle_ctx \<Rightarrow> layout_cell set \<Rightarrow> string \<times> bundle_layout \<Rightarrow> bool" where
  "virtual_made cx cs kv \<longleftrightarrow>
     (\<exists>c \<in> cs. \<exists>l ent b. cell_entity (bx_db cx) c = Some ent \<and> lc_entity_id c = Some (fst kv)
        \<and> cell_made cx c b \<and> snd kv = virtual_layout cx l ent b)"

lemma smart_url_ok: "gen_all (smart_url cx c) (smart_ok cx)"
proof (cases "truthy (json_get (lc_options c) ''smart_url'') \<and> \<not> bx_viewer cx")
  case True
  then show ?thesis by (simp add: gen_all_def smart_ok_def)
next
  case False
  then show ?thesis by (auto simp: smart_url_def Let_def smart_ok_def)
qed

lemma bundle_cell_made: "gen_all (bundle_cell_of cx c) (cell_made cx c)"
  unfolding bundle_cell_of_def
  by (rule gen_all_bind [OF smart_url_ok]) (auto simp: cell_made_def)

lemma cell_entity_Some: "cell_entity db c = Some ent \<longleftrightarrow> (\<exists>eid. lc_entity_id c = Some eid \<and> getEntityById db eid = Some ent)"
  by (simp add: cell_entity_def split: option.split)

definition virtuals_grow :: "'k bundle_ctx \<Rightarrow> layout_cell list \<Rightarrow> virtuals \<Rightarrow> virtuals \<Rightarrow> bool" where
  "virtuals_grow cx cs vs vs' \<longleftrightarrow>
     (\<forall>kv \<in> set vs'. kv \<in> set vs \<or> virtual_made cx (set cs) kv) \<and>
     fst ` set vs' = fst ` set vs \<union> entity_ids (bx_db cx) cs"

lemma map_has_keys: "map_has vs k \<longleftrightarrow> k \<in> fst ` set vs"
  by (metis map_of_eq_None_iff)

lemma add_virtual_grow:
  assumes "cell_made cx c b"
  shows "virtuals_grow cx [c] vs (add_virtual cx l c b vs)"
proof (cases "cell_entity (bx_db cx) c")
  case None
  then have "entity_ids (bx_db cx) [c] = {}"
    by (auto simp: entity_ids_def cell_entity_def split: option.splits)
  with None show ?thesis by (simp add: virtuals_grow_def add_virtual_def)
next
  case (Some ent)
  then obtain eid where eid: "lc_entity_id c = Some eid" "getEntityById (bx_db cx) eid = Some ent"
    by (auto simp: cell_entity_Some)
  then have ids: "entity_ids (bx_db cx) [c] = {eid}" by (auto simp: entity_ids_def)
  show ?thesis
  proof (cases "map_has vs eid")
    case True
    then have "eid \<in> fst ` set vs" by (simp only: map_has_keys)
    with True Some eid ids show ?thesis by (auto simp: virtuals_grow_def add_virtual_def)
  next
    case False
    have "virtual_made cx {c} (eid, virtual_layout cx l ent b)"
      using Some eid assms by (auto simp: virtual_made_def)
    with False Some eid ids show ?thesis
      by (auto simp: virtuals_grow_def add_virtual_def set_absent)
  qed
qed

lemma virtuals_grow_trans:
  assumes "virtuals_grow cx cs vs vs1" and "virtuals_grow cx cs' vs1 vs2"
  shows "virtuals_grow cx (cs @ cs') vs vs2"
proof -
  have "virtual_made cx (set (cs @ cs')) kv" if "virtual_made cx (set cs) kv \<or> virtual_made cx (set cs') kv" for kv
    using that by (auto simp: virtual_made_def)
  moreover have "entity_ids db (cs @ cs') = entity_ids db cs \<union> entity_ids db cs'" for db
    by (auto simp: entity_ids_def)
  ultimately show ?thesis
    using assms unfolding virtuals_grow_def by (metis (no_types, lifting) Un_assoc)
qed

lemma virtuals_grow_refl: "virtuals_grow cx [] vs vs"
  by (simp add: virtuals_grow_def entity_ids_def)

lemma build_cells_made:
  "gen_all (build_cells cx l cs vs) (\<lambda>(bs, vs'). list_all2 (cell_made cx) cs bs \<and> virtuals_grow cx cs vs vs')"
proof (induction cs arbitrary: vs)
  case Nil
  show ?case by (simp add: virtuals_grow_refl)
next
  case (Cons c cs)
  show ?case
    unfolding build_cells.simps
  proof (rule gen_all_bind [OF bundle_cell_made])
    fix b
    assume b: "cell_made cx c b"
    show "gen_all (gen_bind (build_cells cx l cs (add_virtual cx l c b vs)) (\<lambda>(bs, vs'). gen_return (b # bs, vs')))
        (\<lambda>(bs, vs'). list_all2 (cell_made cx) (c # cs) bs \<and> virtuals_grow cx (c # cs) vs vs')"
      by (rule gen_all_bind [OF Cons.IH])
         (use b virtuals_grow_trans [OF add_virtual_grow [OF b, of vs l]] in auto)
  qed
qed

lemma build_real_made:
  "gen_all (build_real cx d ls vs) (\<lambda>(ys, vs'). list_all2 (layout_made cx d) ls ys
     \<and> virtuals_grow cx (cells_of (bx_db cx) ls) vs vs')"
proof (induction ls arbitrary: vs)
  case Nil
  show ?case by (simp add: virtuals_grow_refl cells_of_def)
next
  case (Cons l ls)
  have step: "list_all2 (layout_made cx d) (l # ls) (real_layout cx d l bs # ys)
      \<and> virtuals_grow cx (cells_of (bx_db cx) (l # ls)) vs vs2"
    if "list_all2 (cell_made cx) (listLayoutCells (bx_db cx) (l_id l)) bs"
      "virtuals_grow cx (listLayoutCells (bx_db cx) (l_id l)) vs vs1"
      "list_all2 (layout_made cx d) ls ys" "virtuals_grow cx (cells_of (bx_db cx) ls) vs1 vs2" for bs vs1 ys vs2
    using that virtuals_grow_trans [OF that(2,4)] by (auto simp: layout_made_def cells_of_def)
  show ?case
    unfolding build_real.simps
    by (rule gen_all_bind [OF build_cells_made])
       (use step in \<open>auto intro!: gen_all_bind [OF Cons.IH]\<close>)
qed

lemma add_operator_keys:
  "fst ` set (add_operator cx ents vs) = fst ` set vs \<union> ent_id ` set ents \<and>
   (\<forall>kv \<in> set (add_operator cx ents vs). kv \<in> set vs \<or> (\<exists>e \<in> set ents. kv = (ent_id e, operator_layout cx e)))"
proof (induction ents arbitrary: vs)
  case Nil
  show ?case by (simp add: add_operator_def)
next
  case (Cons e ents)
  define vs1 where "vs1 = (if map_has vs (ent_id e) then vs else AList.update (ent_id e) (operator_layout cx e) vs)"
  have step: "add_operator cx (e # ents) vs = add_operator cx ents vs1"
    by (simp add: add_operator_def vs1_def)
  have keys: "fst ` set vs1 = fst ` set vs \<union> {ent_id e}"
  proof (cases "map_has vs (ent_id e)")
    case True
    then have "ent_id e \<in> fst ` set vs" by (simp only: map_has_keys)
    with True show ?thesis by (auto simp: vs1_def)
  qed (auto simp: vs1_def set_absent)
  have vals: "kv \<in> set vs \<or> kv = (ent_id e, operator_layout cx e)" if "kv \<in> set vs1" for kv
    using that by (auto simp: vs1_def set_absent split: if_splits)
  show ?case
    unfolding step using Cons.IH [of vs1] keys vals by (simp add: insert_commute) blast
qed

lemma grid_extent_ge: "c \<in> set cs \<Longrightarrow> edge c \<le> grid_extent edge cs"
proof -
  have "\<forall>m. m \<le> foldl (\<lambda>m c. if edge c > m then edge c else m) m cs \<and>
        (\<forall>c \<in> set cs. edge c \<le> foldl (\<lambda>m c. if edge c > m then edge c else m) m cs)"
  proof (induction cs)
    case (Cons x cs)
    show ?case
    proof
      fix m
      show "m \<le> foldl (\<lambda>m c. if edge c > m then edge c else m) m (x # cs) \<and>
        (\<forall>c \<in> set (x # cs). edge c \<le> foldl (\<lambda>m c. if edge c > m then edge c else m) m (x # cs))"
        using Cons.IH [rule_format, of "if edge x > m then edge x else m"] by (auto split: if_splits)
    qed
  qed simp
  then show "c \<in> set cs \<Longrightarrow> edge c \<le> grid_extent edge cs" by (simp add: grid_extent_def)
qed

text \<open>What bundle layouts promise, stated for any list of stored layouts and extra entities.\<close>

definition cell_fits :: "bundle_layout \<Rightarrow> bundle_cell \<Rightarrow> bool" where
  "cell_fits y b \<longleftrightarrow> bl_col b + bl_col_span b \<le> by_grid_cols y \<and> bl_row b + bl_row_span b \<le> by_grid_rows y"

definition cell_camera_from :: "'k bundle_ctx \<Rightarrow> layout_cell set \<Rightarrow> entity set \<Rightarrow> bundle_cell \<Rightarrow> bool" where
  "cell_camera_from cx cs ents b \<longleftrightarrow>
     (\<exists>c \<in> cs. bl_camera_id b = rc_camera_id (cell_content cx c)) \<or>
     (\<exists>e \<in> ents. bl_camera_id b = (if ent_type e = EntCamera then ent_camera_id e else None))"

definition layout_ok :: "'k bundle_ctx \<Rightarrow> layout_cell set \<Rightarrow> entity set \<Rightarrow> bundle_layout \<Rightarrow> bool" where
  "layout_ok cx cs ents y \<longleftrightarrow>
     (\<forall>b \<in> set (by_cells y). cell_fits y b \<and> cell_camera_from cx cs ents b \<and> smart_ok cx (bl_smart_url b)) \<and>
     (bx_viewer cx \<longrightarrow> by_preload_camera_ids y = [])"

lemma make_cell_fields:
  "bl_camera_id (make_cell cx c smart) = rc_camera_id (cell_content cx c)"
  "bl_smart_url (make_cell cx c smart) = smart"
  "bl_row (make_cell cx c smart) = lc_row c" "bl_col (make_cell cx c smart) = lc_col c"
  "bl_row_span (make_cell cx c smart) = lc_row_span c" "bl_col_span (make_cell cx c smart) = lc_col_span c"
  by (simp_all add: make_cell_def Let_def)

lemma list_all2_setE:
  assumes "list_all2 P xs ys" and "y \<in> set ys"
  obtains x where "x \<in> set xs" and "P x y"
  using assms by (metis in_set_conv_nth list_all2_conv_all_nth)

lemma layout_made_ok:
  assumes "layout_made cx d l y" and "l \<in> set ls"
  shows "layout_ok cx (set (cells_of (bx_db cx) ls)) ents y \<and> by_id y = l_id l"
proof -
  let ?cs = "listLayoutCells (bx_db cx) (l_id l)"
  obtain bs where y: "y = real_layout cx d l bs" and bs: "list_all2 (cell_made cx) ?cs bs"
    using assms(1) by (auto simp: layout_made_def)
  have "cell_fits y b \<and> cell_camera_from cx (set (cells_of (bx_db cx) ls)) ents b \<and> smart_ok cx (bl_smart_url b)"
    if "b \<in> set bs" for b
  proof -
    from list_all2_setE [OF bs \<open>b \<in> set bs\<close>] obtain c where c: "c \<in> set ?cs" "cell_made cx c b" by blast
    then obtain smart where b: "b = make_cell cx c smart" "smart_ok cx smart" by (auto simp: cell_made_def)
    have "c \<in> set (cells_of (bx_db cx) ls)" using c(1) assms(2) by (auto simp: cells_of_def)
    then show ?thesis
      using b grid_extent_ge [OF c(1), of "\<lambda>c. lc_col c + lc_col_span c"]
        grid_extent_ge [OF c(1), of "\<lambda>c. lc_row c + lc_row_span c"]
      by (auto simp: cell_fits_def cell_camera_from_def make_cell_fields y real_layout_def Let_def)
  qed
  then show ?thesis by (simp add: layout_ok_def y real_layout_def Let_def)
qed

lemma virtual_made_ok:
  assumes "virtual_made cx cs kv"
  shows "layout_ok cx cs ents (snd kv) \<and> by_id (snd kv) = fst kv"
proof -
  obtain c l ent b where c: "c \<in> cs" "cell_entity (bx_db cx) c = Some ent" "lc_entity_id c = Some (fst kv)"
    "cell_made cx c b" "snd kv = virtual_layout cx l ent b"
    using assms by (auto simp: virtual_made_def)
  then have "ent_id ent = fst kv" by (auto simp: cell_entity_Some dest: getEntityById_id)
  with c show ?thesis
    by (auto simp: layout_ok_def virtual_layout_def cell_fits_def cell_camera_from_def cell_made_def make_cell_fields)
qed

lemma operator_layout_ok:
  assumes "e \<in> ents"
  shows "layout_ok cx cs ents (operator_layout cx e)" and "by_id (operator_layout cx e) = ent_id e"
  using assms
  by (auto simp: layout_ok_def operator_layout_def Let_def cell_fits_def cell_camera_from_def resolveEntityContent_def
      smart_ok_def)

lemma viewer_layout_ok:
  "layout_ok cx cs ents y \<Longrightarrow> layout_ok cx cs ents (viewer_layout env ids y)"
  by (auto simp: layout_ok_def viewer_layout_def cell_fits_def cell_camera_from_def)

lemma viewer_layout_id [simp]: "by_id (viewer_layout env ids y) = by_id y"
  by (simp add: viewer_layout_def)

definition viewer_options_ok :: "'k bundle_ctx \<Rightarrow> string list \<Rightarrow> bundle_layout \<Rightarrow> bool" where
  "viewer_options_ok cx ids y \<longleftrightarrow> by_input_options y = JUndefined \<and>
     (\<forall>b \<in> set (by_cells y). \<exists>opts. bl_input_options b = viewerInputOptions (bx_env cx) opts ids)"

definition layouts_ok :: "'k bundle_ctx \<Rightarrow> layout list \<Rightarrow> entity list \<Rightarrow> bundle_layout list \<Rightarrow> bool" where
  "layouts_ok cx ls ents ys \<longleftrightarrow>
     set (map by_id ys) = l_id ` set ls \<union> entity_ids (bx_db cx) (cells_of (bx_db cx) ls) \<union> ent_id ` set ents \<and>
     (\<forall>y \<in> set ys. layout_ok cx (set (cells_of (bx_db cx) ls)) (set ents) y) \<and>
     (bx_viewer cx \<longrightarrow> (\<forall>y \<in> set ys. viewer_options_ok cx (map by_id ys) y))"

lemma viewer_layout_options: "viewer_options_ok cx ids (viewer_layout (bx_env cx) ids y)"
  by (auto simp: viewer_options_ok_def viewer_layout_def)

lemma layouts_ok_finish:
  assumes "set (map by_id ys) = l_id ` set ls \<union> entity_ids (bx_db cx) (cells_of (bx_db cx) ls) \<union> ent_id ` set ents"
    and "\<And>y. y \<in> set ys \<Longrightarrow> layout_ok cx (set (cells_of (bx_db cx) ls)) (set ents) y"
  shows "layouts_ok cx ls ents (if bx_viewer cx then map (viewer_layout (bx_env cx) (map by_id ys)) ys else ys)"
proof (cases "bx_viewer cx")
  case True
  define zs where "zs = map (viewer_layout (bx_env cx) (map by_id ys)) ys"
  have ids: "map by_id zs = map by_id ys" by (simp add: zs_def)
  have "layout_ok cx (set (cells_of (bx_db cx) ls)) (set ents) z \<and> viewer_options_ok cx (map by_id zs) z"
    if "z \<in> set zs" for z
    using that assms(2) unfolding ids by (auto simp: zs_def viewer_layout_ok viewer_layout_options)
  then have "layouts_ok cx ls ents zs" using assms(1) by (simp add: layouts_ok_def ids del: set_map)
  with True show ?thesis by (simp add: zs_def)
next
  case False
  with assms show ?thesis by (simp add: layouts_ok_def)
qed

lemma buildLayouts_ok:
  "gen_all (buildLayouts cx ents did d) (layouts_ok cx (listLayoutsForDisplay (bx_collate cx) (bx_db cx) did) ents)"
proof -
  let ?ls = "listLayoutsForDisplay (bx_collate cx) (bx_db cx) did"
  let ?cs = "cells_of (bx_db cx) ?ls"
  have result: "layouts_ok cx ?ls ents
      (if bx_viewer cx then map (viewer_layout (bx_env cx) (map by_id (real @ virt))) (real @ virt) else real @ virt)"
    if real: "list_all2 (layout_made cx d) ?ls real" and grow: "virtuals_grow cx ?cs [] vs"
      and virt: "virt = map snd (filter (\<lambda>(eid, _). eid \<notin> set (map by_id real)) (add_operator cx ents vs))" for real vs virt
  proof -
    let ?all = "add_operator cx ents vs"
    have ok: "layout_ok cx (set ?cs) (set ents) (snd kv) \<and> by_id (snd kv) = fst kv" if "kv \<in> set ?all" for kv
    proof (cases "kv \<in> set vs")
      case True
      with grow have "virtual_made cx (set ?cs) kv" by (auto simp: virtuals_grow_def)
      then show ?thesis by (rule virtual_made_ok)
    next
      case False
      with that add_operator_keys obtain e where "e \<in> set ents" "kv = (ent_id e, operator_layout cx e)" by blast
      then show ?thesis by (simp add: operator_layout_ok)
    qed
    have keys: "fst ` set ?all = entity_ids (bx_db cx) ?cs \<union> ent_id ` set ents"
      using grow add_operator_keys [of cx ents vs] by (simp add: virtuals_grow_def)
    have real_ok: "layout_ok cx (set ?cs) (set ents) y" if "y \<in> set real" for y
      by (rule list_all2_setE [OF real that]) (use layout_made_ok in blast)
    have real_ids: "map by_id real = map l_id ?ls"
      using real by (induction rule: list_all2_induct) (auto simp: layout_made_def real_layout_def Let_def)
    have "set (map by_id virt) = (entity_ids (bx_db cx) ?cs \<union> ent_id ` set ents) - set (map by_id real)"
      unfolding keys [symmetric] virt using ok by (force simp: image_iff)
    then have ids: "set (map by_id (real @ virt)) = l_id ` set ?ls \<union> entity_ids (bx_db cx) ?cs \<union> ent_id ` set ents"
      using real_ids by (metis (no_types, lifting) Un_Diff_cancel Un_assoc list.set_map map_append set_append)
    have all_ok: "layout_ok cx (set ?cs) (set ents) y" if "y \<in> set (real @ virt)" for y
      using that real_ok ok by (auto simp: virt)
    show ?thesis by (rule layouts_ok_finish [OF ids all_ok])
  qed
  show ?thesis
    unfolding buildLayouts_def
    by (rule gen_all_bind [OF build_real_made]) (use result in \<open>auto simp: Let_def\<close>)
qed

section \<open>Successful generation\<close>

lemma generateBundle_SomeE:
  assumes "generateBundle env show_time ck db kid clusterKey now = (db', Inr (Some b))"
  obtains k bds s1 bks s2 where "getKioskById db kid = Some k" and "shown_displays db k \<noteq> []"
    and "is_viewer k \<longrightarrow> truthy_str (own_key env k)"
    and "gen_map (bundle_display_of (bundle_context env ck db k clusterKey) k (operator_content ck db k))
           (shown_displays db k) \<lparr>gs_calls = 0, gs_stable = []\<rparr> = Inr (bds, s1)"
    and "bundle_cameras (bundle_context env ck db k clusterKey) (operate_camera_ids ck db k)
           (owned_cameras k (bundle_camera_rows ck db k bds)) s1 = Inr (bks, s2)"
    and "b = finish_bundle env show_time ck db k bds bks (gs_stable s2)"
    and "db' = event_ownership env k now (bundle_camera_rows ck db k bds) db"
  using assms
  by (auto simp: generateBundle_def Let_def in_phase_def bind_result_eq_Inr split: option.splits if_splits sum.splits)

lemma generateBundle_kioskE:
  assumes "generateBundle env show_time ck db kid clusterKey now = (db', Inr (Some b))" and "getKioskById db kid = Some k"
  obtains bds s1 bks s2 where "shown_displays db k \<noteq> []"
    and "gen_map (bundle_display_of (bundle_context env ck db k clusterKey) k (operator_content ck db k))
           (shown_displays db k) \<lparr>gs_calls = 0, gs_stable = []\<rparr> = Inr (bds, s1)"
    and "bundle_cameras (bundle_context env ck db k clusterKey) (operate_camera_ids ck db k)
           (owned_cameras k (bundle_camera_rows ck db k bds)) s1 = Inr (bks, s2)"
    and "b = finish_bundle env show_time ck db k bds bks (gs_stable s2)"
    and "db' = event_ownership env k now (bundle_camera_rows ck db k bds) db"
proof (rule generateBundle_SomeE [OF assms(1)])
  fix k' bds s1 bks s2
  assume "getKioskById db kid = Some k'"
  with assms(2) have "k' = k" by simp
  then show thesis
    if "shown_displays db k' \<noteq> []"
      "gen_map (bundle_display_of (bundle_context env ck db k' clusterKey) k' (operator_content ck db k'))
           (shown_displays db k') \<lparr>gs_calls = 0, gs_stable = []\<rparr> = Inr (bds, s1)"
      "bundle_cameras (bundle_context env ck db k' clusterKey) (operate_camera_ids ck db k')
           (owned_cameras k' (bundle_camera_rows ck db k' bds)) s1 = Inr (bks, s2)"
      "b = finish_bundle env show_time ck db k' bds bks (gs_stable s2)"
      "db' = event_ownership env k' now (bundle_camera_rows ck db k' bds) db"
    using that \<open>\<And>bds s1 bks s2. \<lbrakk>shown_displays db k \<noteq> [];
        gen_map (bundle_display_of (bundle_context env ck db k clusterKey) k (operator_content ck db k))
           (shown_displays db k) \<lparr>gs_calls = 0, gs_stable = []\<rparr> = Inr (bds, s1);
        bundle_cameras (bundle_context env ck db k clusterKey) (operate_camera_ids ck db k)
           (owned_cameras k (bundle_camera_rows ck db k bds)) s1 = Inr (bks, s2);
        b = finish_bundle env show_time ck db k bds bks (gs_stable s2);
        db' = event_ownership env k now (bundle_camera_rows ck db k bds) db\<rbrakk> \<Longrightarrow> thesis\<close> by simp
qed

lemma getKioskById_id: "getKioskById db kid = Some k \<Longrightarrow> k_id k = kid"
  by (auto simp: getKioskById_def find_Some_iff)

lemma context_simps [simp]:
  "bx_env (bundle_context env ck db k cl) = env" "bx_db (bundle_context env ck db k cl) = db"
  "bx_collate (bundle_context env ck db k cl) = ck" "bx_viewer (bundle_context env ck db k cl) = is_viewer k"
  by (simp_all add: bundle_context_def)

lemma finish_simps [simp]:
  "kb_displays (finish_bundle env t ck db k bds bks m) = bds"
  "kb_cameras (finish_bundle env t ck db k bds bks m) = bks"
  "kb_gpio_bindings (finish_bundle env t ck db k bds bks m)
     = (if is_viewer k then [] else map gpio_of (listGpioBindings ck db (k_id k)))"
  "kb_operator_console (finish_bundle env t ck db k bds bks m) = console_of env (is_viewer k) k"
  by (simp_all add: finish_bundle_def Let_def)

text \<open>The displays of a bundle, one per shown display row, each with well-formed layouts.\<close>

definition display_made ::
  "('k::linorder) bundle_ctx \<Rightarrow> entity list \<Rightarrow> display \<Rightarrow> bundle_display \<Rightarrow> bool" where
  "display_made cx ents d bd \<longleftrightarrow> bd_id bd = d_id d \<and> bd_default_layout_id bd = d_default_layout_id d \<and>
     layouts_ok cx (listLayoutsForDisplay (bx_collate cx) (bx_db cx) (d_id d)) ents (bd_layouts bd)"

lemma bundle_display_made: "gen_all (bundle_display_of cx k ents d) (display_made cx ents d)"
  unfolding bundle_display_of_def
  by (rule gen_all_bind [OF buildLayouts_ok]) (simp add: display_made_def)

lemma bundle_displays_made:
  assumes "gen_map (bundle_display_of cx k ents) ds s = Inr (bds, s')"
  shows "list_all2 (display_made cx ents) ds bds"
  by (rule gen_allD [OF gen_all_map assms]) (rule bundle_display_made)

text \<open>Each camera row gives one bundle camera.\<close>

lemma bundle_cameras_made:
  assumes "\<And>c. gen_all (bundle_camera_of cx ids c) (P c)"
  shows "bundle_cameras cx ids cs s = Inr (bks, s') \<Longrightarrow> list_all2 P cs bks"
proof (induction cs arbitrary: s bks)
  case (Cons c cs)
  from Cons.prems obtain b s1 bs where b: "bundle_camera_of cx ids c s = Inr (b, s1)"
    and bs: "bundle_cameras cx ids cs s1 = Inr (bs, s')" and "bks = b # bs"
    by (auto simp: bind_result_eq_Inr in_phase_def split: sum.splits)
  with Cons.IH [OF bs] gen_allD [OF assms b] show ?case by simp
qed simp

section \<open>Cameras of a bundle\<close>

text \<open>A ciphertext under a key, whatever nonce it was made with.\<close>

definition sealed_under :: "bundle_env \<Rightarrow> string option \<Rightarrow> string option \<Rightarrow> bool" where
  "sealed_under env key c \<longleftrightarrow> (c = None \<or> (truthy_str key \<and> (\<exists>n p. be_encrypt env n (the key) p = c)))"

definition camera_made :: "'k bundle_ctx \<Rightarrow> camera \<Rightarrow> bundle_camera \<Rightarrow> bool" where
  "camera_made cx cam b \<longleftrightarrow>
     bk_id b = cam_id cam \<and> bk_enabled b = cam_enabled cam \<and>
     sealed_under (bx_env cx) (bx_key cx) (bk_onvif_password_encrypted b) \<and>
     sealed_under (bx_env cx) (bx_key cx) (bk_playback_password_encrypted b) \<and>
     (\<forall>s \<in> set (bk_streams b). \<exists>raw. bs_rtsp_uri s = nullish (stripRtspCredentials (bx_env cx) (Some raw)) raw) \<and>
     (bx_viewer cx \<longrightarrow> bk_onvif_host b = None \<and> bk_onvif_username b = None \<and> bk_onvif_password_encrypted b = None \<and>
        bk_capabilities b = [] \<and> bk_recording_config b = JObj [] \<and> bk_event_source b = ''disabled'' \<and>
        bk_event_callback_token b = [] \<and> (\<forall>s \<in> set (bk_streams b). bs_profile_token s = None))"

lemma encrypt_password_sealed:
  "gen_all (encrypt_password cx w pw ctx) (\<lambda>c. sealed_under (bx_env cx) (bx_key cx) c \<and> (\<not> w \<longrightarrow> c = None))"
  by (auto simp: gen_all_def encrypt_password_def gen_bind_def gen_return_def encryptForBundle_def sealed_under_def
      bind_result_eq_Inr split: if_splits option.splits)

lemma bundle_camera_made: "gen_all (bundle_camera_of cx ids cam) (camera_made cx cam)"
proof -
  obtain name pw where creds: "resolvePlaybackCredentials (bx_env cx) cam
      (map bs_rtsp_uri (effective_streams (bx_env cx) (bx_db cx) cam)) = (name, pw)"
    by (cases "resolvePlaybackCredentials (bx_env cx) cam (map bs_rtsp_uri (effective_streams (bx_env cx) (bx_db cx) cam))")
  show ?thesis
    unfolding bundle_camera_of_def Let_def creds prod.case
    by (rule gen_all_bind [OF encrypt_password_sealed], rule gen_all_bind [OF encrypt_password_sealed])
       (auto simp: camera_made_def)
qed

lemma bundle_cameras_spec:
  assumes "bundle_cameras cx ids cs s = Inr (bks, s')"
  shows "list_all2 (camera_made cx) cs bks"
  by (rule bundle_cameras_made [OF bundle_camera_made assms])

lemma first_occurrences_set [simp]: "set (first_occurrences xs) = set xs"
  by (simp add: first_occurrences_def)

lemma claim_events_fields [simp]: "cam_id (claim_events kid c) = cam_id c" "cam_enabled (claim_events kid c) = cam_enabled c"
  by (simp_all add: claim_events_def)

lemma owned_ids [simp]: "map cam_id (owned_cameras k cs) = map cam_id cs"
  by (simp add: owned_cameras_def comp_def)

lemma camera_made_ids: "list_all2 (camera_made cx) cs bks \<Longrightarrow> map bk_id bks = map cam_id cs"
  by (induction rule: list_all2_induct) (auto simp: camera_made_def)

lemma list_all2_setE1:
  assumes "list_all2 P xs ys" and "x \<in> set xs"
  obtains y where "y \<in> set ys" and "P x y"
  using assms by (metis in_set_conv_nth list_all2_conv_all_nth)

lemma getCameraById_in: "getCameraById db cid = Some cam \<Longrightarrow> cam \<in> set (c_cameras db) \<and> cam_id cam = cid"
  by (auto simp: getCameraById_def find_Some_iff)

lemma merged_ids:
  assumes "\<forall>(i, c) \<in> set m. cam_id c = i"
  shows "cam_id ` snd ` set (foldl (\<lambda>m c. AList.update (cam_id c) c m) m xs) = fst ` set m \<union> cam_id ` set xs"
  using assms
proof (induction xs arbitrary: m)
  case Nil
  then show ?case by (force simp: image_iff)
next
  case (Cons x xs)
  have ok: "\<forall>(i, c) \<in> set (AList.update (cam_id x) x m). cam_id c = i"
    using Cons.prems set_update_subset [of "cam_id x" x m] by auto
  have "fst ` set (AList.update (cam_id x) x m) = insert (cam_id x) (fst ` set m)"
    using dom_update [of "cam_id x" x m] by simp
  with Cons.IH [OF ok] show ?case by simp
qed

lemma scoped_cameras_ids:
  "cam_id ` set (camerasForLayoutIds ck db lids) \<subseteq> cam_id ` set (scoped_cameras ck db lids kid)"
proof -
  have "\<forall>(i, c) \<in> set (map (\<lambda>c. (cam_id c, c)) (camerasForLayoutIds ck db lids)). cam_id c = i" by auto
  from merged_ids [OF this] have "cam_id ` set (scoped_cameras ck db lids kid)
      = cam_id ` set (camerasForLayoutIds ck db lids) \<union> cam_id ` set (camerasForLabelIds ck db (operateLabelIds db kid))"
    by (simp add: scoped_cameras_def Let_def image_image)
  then show ?thesis by simp
qed

lemma viewer_cameras_spec:
  assumes "bd \<in> set bds" and "y \<in> set (bd_layouts bd)" and "b \<in> set (by_cells y)"
    and "bl_content_type b = CellCamera" and "bl_camera_id b = Some cid" and "cid \<noteq> []"
    and "getCameraById db cid = Some cam" and "cam_enabled cam"
  shows "cam \<in> set (viewer_cameras ck db bds)"
proof -
  have "cid \<in> set (assigned_camera_ids bds)"
    using assms(1-6) by (force simp: assigned_camera_ids_def)
  with assms(7,8) show ?thesis by (force simp: viewer_cameras_def)
qed

lemma viewer_cameras_assigned:
  assumes "cam \<in> set (viewer_cameras ck db bds)"
  shows "cam_enabled cam \<and> (\<exists>bd \<in> set bds. \<exists>y \<in> set (bd_layouts bd). \<exists>b \<in> set (by_cells y).
           bl_content_type b = CellCamera \<and> bl_camera_id b = Some (cam_id cam))"
proof -
  obtain cid where "cid \<in> set (assigned_camera_ids bds)" "getCameraById db cid = Some cam" "cam_enabled cam"
    using assms by (auto simp: viewer_cameras_def split: option.splits)
  then show ?thesis
    using getCameraById_in by (fastforce simp: assigned_camera_ids_def truthy_str_iff split: if_splits)
qed

text \<open>In a mirrored schema the cell's own column names the camera that its content shows.\<close>

lemma cell_content_camera:
  assumes "in_step (bx_db cx) c" and "rc_camera_id (cell_content cx c) = Some cid"
  shows "lc_camera_id c = Some cid"
  using assms
  by (auto simp: cell_content_def cell_entity_Some in_step_iff mirror_eq_iff resolveEntityContent_def cell_camera_def
      split: option.splits if_splits)

lemma scoped_camera_present:
  assumes "mirrored db" and "c \<in> set (cells_of db (listLayoutsForDisplay ck db (d_id d)))" and "d \<in> set ds"
    and "lc_camera_id c = Some cid" and "getCameraById db cid = Some cam" and "cam_enabled cam"
  shows "cid \<in> cam_id ` set (scoped_cameras ck db (shown_layout_ids ck db ds) kid)"
proof -
  obtain l where l: "l \<in> set (listLayoutsForDisplay ck db (d_id d))" "c \<in> set (listLayoutCells db (l_id l))"
    using assms(2) by (auto simp: cells_of_def)
  then obtain c0 where c0: "c0 \<in> set (c_cells db)" "lc_layout_id c0 = l_id l" "c = rowToLayoutCell c0"
    by (auto simp: listLayoutCells_def)
  have lid: "l_id l \<in> set (shown_layout_ids ck db ds)"
    using l(1) assms(3) by (auto simp: shown_layout_ids_def)
  have "lc_camera_id c0 = Some (cam_id cam)"
    using c0(3) assms(4) getCameraById_in [OF assms(5)] by (simp add: rowToLayoutCell_def)
  with c0 lid have "list_ex (\<lambda>l. lc_camera_id l = Some (cam_id cam) \<and> lc_layout_id l \<in> set (shown_layout_ids ck db ds)) (c_cells db)"
    by (auto simp: list_ex_iff)
  then have "cam \<in> set (camerasForLayoutIds ck db (shown_layout_ids ck db ds))"
    using lid assms(6) getCameraById_in [OF assms(5)] by (auto simp: camerasForLayoutIds_def)
  with scoped_cameras_ids [of ck db "shown_layout_ids ck db ds" kid] getCameraById_in [OF assms(5)] show ?thesis by blast
qed

section \<open>Properties\<close>

text \<open>The click actions a viewer may be given.\<close>

definition viewer_action :: "string set \<Rightarrow> json \<Rightarrow> bool" where
  "viewer_action ids j \<longleftrightarrow> j = JUndefined \<or> j = click_action ''unsupported'' [] \<or>
     (\<exists>a \<in> {''expand'', ''view.expand'', ''restore'', ''view.restore''}. j = click_action a []) \<or>
     (\<exists>lid \<in> ids. j = click_action ''layout.switch'' [(''layout_id'', JStr lid)])"

lemma viewerInputOptions_action: "viewer_action (set ids) (viewerInputOptions env opts ids)"
  by (auto simp: viewerInputOptions_def viewer_action_def Let_def)

lemma viewer_console: "console_of env True k = \<lparr>oc_enabled = False, oc_host = None, oc_port = k_operator_console_port k,
    oc_tools = [], oc_vms_enabled = False, oc_vms_storage_path = None, oc_vms_settings = JObj []\<rparr>"
  by (simp add: console_of_def)

lemma viewer_one_display: "is_viewer k \<Longrightarrow> shown_displays db k \<noteq> [] \<Longrightarrow>
    \<exists>d. shown_displays db k = [d] \<and> find d_is_enabled (kiosk_displays db k) = Some d"
proof -
  have "find P xs = Some (hd (filter P xs))" if "filter P xs \<noteq> []" for P and xs :: "display list"
    using that by (induction xs) auto
  then show "is_viewer k \<Longrightarrow> shown_displays db k \<noteq> [] \<Longrightarrow> ?thesis"
    by (cases "filter d_is_enabled (kiosk_displays db k)") (auto simp: shown_displays_def Let_def)
qed

lemma viewer_cell_ok:
  assumes "display_made cx ents d bd" and "bx_viewer cx" and "y \<in> set (bd_layouts bd)"
  shows "by_input_options y = JUndefined"
    and "b \<in> set (by_cells y) \<Longrightarrow> bl_smart_url b \<in> {JUndefined, JObj [(''steps'', JArr [])]}"
    and "b \<in> set (by_cells y) \<Longrightarrow> viewer_action (by_id ` set (bd_layouts bd)) (bl_input_options b)"
proof -
  have opts: "viewer_options_ok cx (map by_id (bd_layouts bd)) y"
    and ok: "layout_ok cx (set (cells_of (bx_db cx) (listLayoutsForDisplay (bx_collate cx) (bx_db cx) (d_id d)))) (set ents) y"
    using assms by (simp_all add: display_made_def layouts_ok_def)
  from opts show "by_input_options y = JUndefined" by (simp add: viewer_options_ok_def)
  show "bl_smart_url b \<in> {JUndefined, JObj [(''steps'', JArr [])]}" if "b \<in> set (by_cells y)"
    using ok that assms(2) by (auto simp: layout_ok_def smart_ok_def)
  show "viewer_action (by_id ` set (bd_layouts bd)) (bl_input_options b)" if "b \<in> set (by_cells y)"
    using opts that viewerInputOptions_action [of "map by_id (bd_layouts bd)"]
    by (auto simp: viewer_options_ok_def simp flip: set_map)
qed

text \<open>
  (C7) An Android viewer is confined to viewing: its bundle holds one display, no GPIO pins
  and no operator console, changes nothing in the database, carries only enabled cameras
  that one of its cells shows, without management host, management password or callback
  token, and every cell action is local: expand, restore, a switch to a layout of the same
  bundle, or marked unsupported.
\<close>

theorem viewer_bundle_confined:
  assumes "generateBundle env show_time ck db kid clusterKey now = (db', Inr (Some b))"
    and "getKioskById db kid = Some k" and "is_viewer k"
  shows "db' = db \<and> length (kb_displays b) = 1 \<and> kb_gpio_bindings b = [] \<and>
         \<not> oc_enabled (kb_operator_console b) \<and> oc_tools (kb_operator_console b) = [] \<and>
         (\<forall>c \<in> set (kb_cameras b). bk_enabled c \<and> bk_onvif_host c = None \<and> bk_onvif_password_encrypted c = None \<and>
            bk_capabilities c = [] \<and> bk_event_callback_token c = [] \<and>
            (\<exists>d \<in> set (kb_displays b). \<exists>y \<in> set (bd_layouts d). \<exists>x \<in> set (by_cells y).
               bl_content_type x = CellCamera \<and> bl_camera_id x = Some (bk_id c))) \<and>
         (\<forall>d \<in> set (kb_displays b). \<forall>y \<in> set (bd_layouts d). by_input_options y = JUndefined \<and>
            (\<forall>x \<in> set (by_cells y). bl_smart_url x \<in> {JUndefined, JObj [(''steps'', JArr [])]} \<and>
               viewer_action (by_id ` set (bd_layouts d)) (bl_input_options x)))"
proof -
  obtain bds s1 bks s2 where shown: "shown_displays db k \<noteq> []"
    and bds: "gen_map (bundle_display_of (bundle_context env ck db k clusterKey) k (operator_content ck db k))
           (shown_displays db k) \<lparr>gs_calls = 0, gs_stable = []\<rparr> = Inr (bds, s1)"
    and bks: "bundle_cameras (bundle_context env ck db k clusterKey) (operate_camera_ids ck db k)
           (owned_cameras k (bundle_camera_rows ck db k bds)) s1 = Inr (bks, s2)"
    and b: "b = finish_bundle env show_time ck db k bds bks (gs_stable s2)"
    and db': "db' = event_ownership env k now (bundle_camera_rows ck db k bds) db"
    by (rule generateBundle_kioskE [OF assms(1,2)])
  let ?cx = "bundle_context env ck db k clusterKey"
  note made = bundle_displays_made [OF bds]
  obtain d where "shown_displays db k = [d]" using viewer_one_display [OF assms(3) shown] by blast
  with made have len: "length bds = 1" by (auto simp: list_all2_Cons1)
  have cam: "bk_enabled c \<and> bk_onvif_host c = None \<and> bk_onvif_password_encrypted c = None \<and> bk_capabilities c = [] \<and>
      bk_event_callback_token c = [] \<and> (\<exists>d \<in> set bds. \<exists>y \<in> set (bd_layouts d). \<exists>x \<in> set (by_cells y).
        bl_content_type x = CellCamera \<and> bl_camera_id x = Some (bk_id c))" if "c \<in> set bks" for c
  proof -
    from list_all2_setE [OF bundle_cameras_spec [OF bks] \<open>c \<in> set bks\<close>]
    obtain row where row: "row \<in> set (viewer_cameras ck db bds)" "camera_made ?cx row c"
      using assms(3) by (auto simp: owned_cameras_def bundle_camera_rows_def)
    with viewer_cameras_assigned [OF row(1)] assms(3) show ?thesis by (auto simp: camera_made_def)
  qed
  have cell: "by_input_options y = JUndefined \<and> (\<forall>x \<in> set (by_cells y).
      bl_smart_url x \<in> {JUndefined, JObj [(''steps'', JArr [])]} \<and>
      viewer_action (by_id ` set (bd_layouts bd)) (bl_input_options x))" if "bd \<in> set bds" "y \<in> set (bd_layouts bd)" for bd y
  proof -
    from list_all2_setE [OF made \<open>bd \<in> set bds\<close>]
    obtain d where "display_made ?cx (operator_content ck db k) d bd" by blast
    then show ?thesis using viewer_cell_ok [of ?cx _ d bd y] assms(3) that(2) by auto
  qed
  show ?thesis
    using assms(3) len cam cell by (simp add: b db' event_ownership_def viewer_console)
qed

text \<open>
  The gate and the bundle agree: the layout identifiers that the coordinator lets an
  operator switch a viewer to are exactly those of the layouts in the viewer's bundle,
  full-screen layouts of its cells included.
\<close>

theorem viewer_assignment_matches_bundle:
  assumes "generateBundle env show_time ck db kid clusterKey now = (db', Inr (Some b))"
    and "getKioskById db kid = Some k" and "is_viewer k" and "list_all (\<lambda>e. ent_id e \<noteq> []) (c_entities db)"
  shows "set (va_layout_ids (viewerAssignment ck pathname db k))
           = (\<Union>d \<in> set (kb_displays b). by_id ` set (bd_layouts d))"
proof -
  obtain bds s1 bks s2 where shown: "shown_displays db k \<noteq> []"
    and bds: "gen_map (bundle_display_of (bundle_context env ck db k clusterKey) k (operator_content ck db k))
           (shown_displays db k) \<lparr>gs_calls = 0, gs_stable = []\<rparr> = Inr (bds, s1)"
    and bks: "bundle_cameras (bundle_context env ck db k clusterKey) (operate_camera_ids ck db k)
           (owned_cameras k (bundle_camera_rows ck db k bds)) s1 = Inr (bks, s2)"
    and b: "b = finish_bundle env show_time ck db k bds bks (gs_stable s2)"
    by (rule generateBundle_kioskE [OF assms(1,2)])
  let ?cx = "bundle_context env ck db k clusterKey"
  obtain d where d: "shown_displays db k = [d]" "find d_is_enabled (kiosk_displays db k) = Some d"
    using viewer_one_display [OF assms(3) shown] by blast
  let ?ls = "listLayoutsForDisplay ck db (d_id d)"
  obtain bd where bd: "bds = [bd]" "display_made ?cx (operator_content ck db k) d bd"
    using bundle_displays_made [OF bds] d(1) by (auto simp: list_all2_Cons1)
  have "operator_content ck db k = []" using assms(3) by (simp add: operator_content_def)
  with bd(2) have ids: "by_id ` set (bd_layouts bd) = l_id ` set ?ls \<union> entity_ids db (cells_of db ?ls)"
    by (simp add: display_made_def layouts_ok_def)
  have nonempty: "eid \<noteq> []" if "getEntityById db eid = Some e" for eid e
  proof -
    from that have "e \<in> set (c_entities db)" "ent_id e = eid" by (auto simp: getEntityById_def find_Some_iff)
    with assms(4) show ?thesis by (auto simp: list_all_iff)
  qed
  have "set (concat (map (\<lambda>c. case (if truthy_str (lc_entity_id c) then getEntityById db (the (lc_entity_id c)) else None) of
           None \<Rightarrow> [] | Some e \<Rightarrow> [ent_id e]) (cells_of db ?ls))) = entity_ids db (cells_of db ?ls)"
  proof -
    have eq: "set (case (if truthy_str (lc_entity_id c) then getEntityById db (the (lc_entity_id c)) else None) of
        None \<Rightarrow> [] | Some e \<Rightarrow> [ent_id e]) = {eid. lc_entity_id c = Some eid \<and> getEntityById db eid \<noteq> None}" for c
    proof (cases "lc_entity_id c")
      case (Some eid)
      show ?thesis
      proof (cases "getEntityById db eid")
        case (Some e)
        with \<open>lc_entity_id c = Some eid\<close> nonempty [OF Some] getEntityById_id [OF Some] show ?thesis by auto
      qed (use \<open>lc_entity_id c = Some eid\<close> in auto)
    qed simp
    show ?thesis unfolding set_concat set_map image_image eq entity_ids_def by blast
  qed
  then show ?thesis
    using ids d(2) bd(1) by (simp add: viewerAssignment_def Let_def b cells_of_def)
qed



section \<open>Witnesses\<close>

text \<open>
  An address syntax that can be printed and read back: every field is preceded by its
  length in unary.
\<close>

definition put_field :: "string \<Rightarrow> string" where
  "put_field s = replicate (length s) CHR ''1'' @ CHR ''0'' # s"

definition get_field :: "string \<Rightarrow> string \<times> string" where
  "get_field t = (let n = length (takeWhile (\<lambda>c. c = CHR ''1'') t) in (take n (drop (Suc n) t), drop (2 * n + 1) t))"

lemma get_put_field [simp]: "get_field (put_field s @ t) = (s, t)"
proof -
  have "takeWhile (\<lambda>c. c = CHR ''1'') (replicate n CHR ''1'' @ CHR ''0'' # u) = replicate n CHR ''1''" for n u
    by (induction n) simp_all
  then show ?thesis by (simp add: get_field_def put_field_def Let_def)
qed

definition demo_print :: "url \<Rightarrow> string" where
  "demo_print u = put_field (url_protocol u) @ put_field (url_hostname u) @ put_field (url_port u)
     @ put_field (url_pathname u) @ put_field (url_search u) @ put_field (url_username u) @ put_field (url_password u) @ []"

definition demo_parse :: "string \<Rightarrow> url option" where
  "demo_parse t =
     (if t = [] then None
      else let (a, t1) = get_field t; (b, t2) = get_field t1; (c, t3) = get_field t2; (d, t4) = get_field t3;
               (e, t5) = get_field t4; (f, t6) = get_field t5; (g, _) = get_field t6
           in Some \<lparr>url_protocol = a, url_hostname = b, url_port = c, url_pathname = d, url_search = e,
                    url_username = f, url_password = g\<rparr>)"

lemma demo_parse_print: "demo_parse (demo_print u) = Some u"
proof -
  have "demo_print u \<noteq> []" by (simp add: demo_print_def put_field_def)
  then show ?thesis using get_put_field [of "url_password u" "[]"] by (simp add: demo_parse_def demo_print_def)
qed

definition demo_env :: bundle_env where
  "demo_env = \<lparr>be_parse_url = demo_parse, be_print_url = demo_print, be_decode_uri = Some, be_parse_json = (\<lambda>_. None),
     be_show_number = (\<lambda>_. ''0''), be_decrypt = (\<lambda>c i. Some c), be_encrypt = (\<lambda>n k p. Some (k @ p)),
     be_sha = (\<lambda>s. s), be_hmac = (\<lambda>s. s), be_nonce = (\<lambda>c. ''n''), be_digest = (\<lambda>j. ''v'')\<rparr>"

definition demo_uri :: string where
  "demo_uri = demo_print \<lparr>url_protocol = ''rtsp:'', url_hostname = ''h'', url_port = [], url_pathname = [],
     url_search = [], url_username = ''u'', url_password = ''p''\<rparr>"

definition bundle_demo_db :: "string list \<Rightarrow> content_db" where
  "bundle_demo_db caps = empty_content\<lparr>
     c_kiosks := [sample_kiosk\<lparr>k_id := ''k1'', k_capabilities := caps, k_encrypt_key_encrypted := Some ''K''\<rparr>],
     c_displays := [sample_display\<lparr>d_id := ''d1'', d_kiosk_id := Some ''k1'', d_is_enabled := True\<rparr>],
     c_display_layouts := [(''d1'', ''l1'')], c_layouts := [sample_layout\<lparr>l_id := ''l1''\<rparr>],
     c_cells := [sample_layout_cell\<lparr>lc_id := ''c1'', lc_layout_id := ''l1'', lc_content_type := CellCamera,
                  lc_camera_id := Some ''m1'', lc_web_url := None, lc_html_content := None,
                  lc_entity_id := Some ''e1''\<rparr>],
     c_entities := [sample_entity\<lparr>ent_id := ''e1'', ent_type := EntCamera, ent_camera_id := Some ''m1''\<rparr>],
     c_cameras := [sample_camera\<lparr>cam_id := ''m1'', cam_enabled := True, cam_type := CamRtsp,
                    cam_rtsp_url := Some demo_uri\<rparr>]\<rparr>"

definition demo_bundle :: "string list \<Rightarrow> content_db \<times> (bundle_error, kiosk_bundle option) result" where
  "demo_bundle caps = generateBundle demo_env (\<lambda>t. ''t'') length (bundle_demo_db caps) ''k1'' None 5"

definition demo_ok :: "string list \<Rightarrow> bool" where
  "demo_ok caps = (case snd (demo_bundle caps) of Inr (Some b) \<Rightarrow> True | _ \<Rightarrow> False)"

lemma viewer_demo_ok: "demo_ok [''android-viewer'']"
  by code_simp

lemma plain_demo_ok: "demo_ok []"
  by code_simp

lemma demo_bundleE:
  assumes "demo_ok caps"
  obtains db' b where "generateBundle demo_env (\<lambda>t. ''t'') length (bundle_demo_db caps) ''k1'' None 5 = (db', Inr (Some b))"
  using assms by (cases "demo_bundle caps") (auto simp: demo_ok_def demo_bundle_def split: sum.splits option.splits)

lemma demo_kiosk: "getKioskById (bundle_demo_db caps) ''k1''
    = Some (sample_kiosk\<lparr>k_id := ''k1'', k_capabilities := caps, k_encrypt_key_encrypted := Some ''K''\<rparr>)"
  by (simp add: getKioskById_def bundle_demo_db_def)

lemma demo_mirrored: "mirrored (bundle_demo_db caps)"
  by (simp add: mirrored_def bundle_demo_db_def in_step_iff mirror_eq_iff getEntityById_def cell_camera_def
      cell_web_url_def cell_html_def)

theorem viewer_bundle_confined_witness:
  "\<exists>db' b. generateBundle demo_env (\<lambda>t. ''t'') length (bundle_demo_db [''android-viewer'']) ''k1'' None 5 = (db', Inr (Some b))
     \<and> db' = bundle_demo_db [''android-viewer''] \<and> length (kb_displays b) = 1 \<and> kb_gpio_bindings b = []"
proof (rule demo_bundleE [OF viewer_demo_ok])
  fix db' b
  assume gen: "generateBundle demo_env (\<lambda>t. ''t'') length (bundle_demo_db [''android-viewer'']) ''k1'' None 5 = (db', Inr (Some b))"
  show ?thesis
    using gen viewer_bundle_confined [OF gen demo_kiosk] by (auto simp: is_viewer_def)
qed

theorem viewer_assignment_matches_bundle_witness:
  "\<exists>db' b. generateBundle demo_env (\<lambda>t. ''t'') length (bundle_demo_db [''android-viewer'']) ''k1'' None 5 = (db', Inr (Some b))
     \<and> set (va_layout_ids (viewerAssignment length (\<lambda>u. u) (bundle_demo_db [''android-viewer''])
          (sample_kiosk\<lparr>k_id := ''k1'', k_capabilities := [''android-viewer''], k_encrypt_key_encrypted := Some ''K''\<rparr>)))
        = (\<Union>d \<in> set (kb_displays b). by_id ` set (bd_layouts d))"
proof (rule demo_bundleE [OF viewer_demo_ok])
  fix db' b
  assume gen: "generateBundle demo_env (\<lambda>t. ''t'') length (bundle_demo_db [''android-viewer'']) ''k1'' None 5 = (db', Inr (Some b))"
  have "list_all (\<lambda>e. ent_id e \<noteq> []) (c_entities (bundle_demo_db [''android-viewer'']))"
    by (simp add: bundle_demo_db_def)
  then show ?thesis
    using gen viewer_assignment_matches_bundle [OF gen demo_kiosk, of "\<lambda>u. u"] by (auto simp: is_viewer_def)
qed

definition demo_cameras :: "kiosk_bundle \<Rightarrow> string list" where
  "demo_cameras b = map bk_id (kb_cameras b)"

definition demo_cells :: "kiosk_bundle \<Rightarrow> bool" where
  "demo_cells b = list_ex (\<lambda>d. list_ex (\<lambda>y. list_ex (\<lambda>x. bl_content_type x = CellCamera \<and> bl_camera_id x = Some ''m1'')
     (by_cells y)) (bd_layouts d)) (kb_displays b)"

lemma plain_demo_cell: "case snd (demo_bundle []) of Inr (Some b) \<Rightarrow> demo_cells b | _ \<Rightarrow> False"
  by code_simp


lemma plain_demo_cameras: "case snd (demo_bundle []) of Inr (Some b) \<Rightarrow> demo_cameras b = [''m1''] | _ \<Rightarrow> False"
  by code_simp


end
