(* ===== verification/BF_Secrets.thy ===== *)
theory BF_Secrets
  imports BF_Prelude
begin

text \<open>
  Sealed strings (\<^verbatim>\<open>server/src/shared/secrets.ts\<close>): the base64url alphabet, the framing of
  ciphertexts, the server key and its files.  AES-256-GCM (\<open>gcm\<close>, \<open>ungcm\<close>) and HKDF
  (\<open>hkdf\<close>) are parameters; bytes are natural numbers below 256.  Random bytes are arguments.
  Decoding follows \<^verbatim>\<open>Buffer.from(s, "base64")\<close> on text whose padding is at its end.
\<close>

type_synonym bytes = "nat list"

section \<open>Text as bytes\<close>

text \<open>UTF-8 for the characters of the model, and its inverse; other sequences have no value.\<close>

fun utf8_encode :: "string \<Rightarrow> bytes" where
  "utf8_encode [] = []"
| "utf8_encode (c # s) =
     (let n = (of_char c :: nat) in
      (if n < 128 then [n] else [192 + n div 64, 128 + n mod 64]) @ utf8_encode s)"

fun utf8_decode :: "bytes \<Rightarrow> string option" where
  "utf8_decode [] = Some []"
| "utf8_decode (a # r) =
     (if a < 128 then map_option (\<lambda>s. char_of a # s) (utf8_decode r)
      else case r of
          b # t \<Rightarrow> if (a = 194 \<or> a = 195) \<and> 128 \<le> b \<and> b < 192
                   then map_option (\<lambda>s. char_of ((a - 192) * 64 + (b - 128)) # s) (utf8_decode t)
                   else None
        | [] \<Rightarrow> None)"

section \<open>Base64\<close>

definition b64_alphabet :: string where
  "b64_alphabet = ''ABCDEFGHIJKLMNOPQRSTUVWXYZabcdefghijklmnopqrstuvwxyz0123456789+/''"

definition b64_char :: "nat \<Rightarrow> char" where
  "b64_char d = b64_alphabet ! d"

fun index_of :: "'a \<Rightarrow> 'a list \<Rightarrow> nat option" where
  "index_of x [] = None"
| "index_of x (y # ys) = (if x = y then Some 0 else map_option Suc (index_of x ys))"

fun base64_encode :: "bytes \<Rightarrow> string" where
  "base64_encode [] = []"
| "base64_encode [a] = [b64_char (a div 4), b64_char (a mod 4 * 16), CHR ''='', CHR ''='']"
| "base64_encode [a, b] =
     [b64_char (a div 4), b64_char (a mod 4 * 16 + b div 16), b64_char (b mod 16 * 4), CHR ''='']"
| "base64_encode (a # b # c # r) =
     b64_char (a div 4) # b64_char (a mod 4 * 16 + b div 16)
     # b64_char (b mod 16 * 4 + c div 64) # b64_char (c mod 64) # base64_encode r"

text \<open>Sextets to bytes; a last group of two or three sextets is one or two bytes.\<close>

fun sextets_bytes :: "nat list \<Rightarrow> bytes" where
  "sextets_bytes (p # q # r # s # t) =
     (p * 4 + q div 16) # (q mod 16 * 16 + r div 4) # (r mod 4 * 64 + s) # sextets_bytes t"
| "sextets_bytes [p, q, r] = [p * 4 + q div 16, q mod 16 * 16 + r div 4]"
| "sextets_bytes [p, q] = [p * 4 + q div 16]"
| "sextets_bytes _ = []"

definition base64_decode :: "string \<Rightarrow> bytes" where
  "base64_decode s =
     sextets_bytes (List.map_filter (\<lambda>c. index_of c b64_alphabet) (takeWhile (\<lambda>c. c \<noteq> CHR ''='') s))"

definition to_url_char :: "char \<Rightarrow> char" where
  "to_url_char c = (if c = CHR ''+'' then CHR ''-'' else if c = CHR ''/'' then CHR ''_'' else c)"

definition of_url_char :: "char \<Rightarrow> char" where
  "of_url_char c = (if c = CHR ''-'' then CHR ''+'' else if c = CHR ''_'' then CHR ''/'' else c)"

definition b64u :: "bytes \<Rightarrow> string" where
  "b64u buf = rev (dropWhile (\<lambda>c. c = CHR ''='') (rev (map to_url_char (base64_encode buf))))"

definition b64uDecode :: "string \<Rightarrow> bytes" where
  "b64uDecode s =
     (let padded = s @ replicate ((4 - length s mod 4) mod 4) CHR ''=''
      in base64_decode (map of_url_char padded))"

section \<open>The server key\<close>

text \<open>
  The contents of the credential file and of \<^verbatim>\<open>secret.key\<close> (\<open>None\<close> when there is no such
  file); \<open>writable\<close> says whether the generated key can be stored.
\<close>

record key_files =
  kf_creds :: "bytes option"
  kf_dev :: "bytes option"

datatype secret_error =
    KeyWriteFailed
  | BadCiphertext
  | AuthenticationFailed
  | ClusterKeyLength
  | TextOutsideModel

definition usable_key :: "bytes option \<Rightarrow> bytes option" where
  "usable_key file = (case file of Some buf \<Rightarrow> if 32 \<le> length buf then Some (take 32 buf) else None | None \<Rightarrow> None)"

definition loadServerKey ::
  "bool \<Rightarrow> bytes \<Rightarrow> key_files \<Rightarrow> (secret_error, bytes \<times> key_files) result" where
  "loadServerKey writable fresh files =
     (case usable_key (kf_creds files) of
        Some k \<Rightarrow> Inr (k, files)
      | None \<Rightarrow>
          (case usable_key (kf_dev files) of
             Some k \<Rightarrow> Inr (k, files)
           | None \<Rightarrow> if writable then Inr (fresh, files\<lparr>kf_dev := Some fresh\<rparr>)
                     else Inl KeyWriteFailed))"

section \<open>Sealing\<close>

type_synonym cipher = "bytes \<Rightarrow> bytes \<Rightarrow> bytes \<Rightarrow> bytes \<times> bytes"
type_synonym decipher = "bytes \<Rightarrow> bytes \<Rightarrow> bytes \<Rightarrow> bytes \<Rightarrow> bytes option"

definition deriveSubkey :: "(bytes \<Rightarrow> string \<Rightarrow> bytes) \<Rightarrow> bytes \<Rightarrow> string \<Rightarrow> bytes" where
  "deriveSubkey hkdf serverKey info = hkdf serverKey (''betterframe.'' @ info)"

definition seal_frame :: "cipher \<Rightarrow> bytes \<Rightarrow> bytes \<Rightarrow> string \<Rightarrow> string" where
  "seal_frame gcm key iv plaintext =
     (let (ct, tag) = gcm key iv (utf8_encode plaintext)
      in ''v1.'' @ b64u iv @ ''.'' @ b64u tag @ ''.'' @ b64u ct)"

definition encryptString ::
  "cipher \<Rightarrow> (bytes \<Rightarrow> string \<Rightarrow> bytes) \<Rightarrow> bytes \<Rightarrow> bytes \<Rightarrow> string \<Rightarrow> string \<Rightarrow> string" where
  "encryptString gcm hkdf serverKey iv plaintext info =
     seal_frame gcm (deriveSubkey hkdf serverKey info) iv plaintext"

definition open_frame :: "decipher \<Rightarrow> bytes \<Rightarrow> string \<Rightarrow> (secret_error, string) result" where
  "open_frame ungcm key ciphertext =
     (case split_on CHR ''.'' ciphertext of
        [v, p1, p2, p3] \<Rightarrow>
          if v \<noteq> ''v1'' then Inl BadCiphertext
          else (case ungcm key (b64uDecode p1) (b64uDecode p2) (b64uDecode p3) of
                  None \<Rightarrow> Inl AuthenticationFailed
                | Some pt \<Rightarrow> (case utf8_decode pt of None \<Rightarrow> Inl TextOutsideModel | Some s \<Rightarrow> Inr s))
      | _ \<Rightarrow> Inl BadCiphertext)"

definition decryptString ::
  "decipher \<Rightarrow> (bytes \<Rightarrow> string \<Rightarrow> bytes) \<Rightarrow> bytes \<Rightarrow> string \<Rightarrow> string \<Rightarrow> (secret_error, string) result" where
  "decryptString ungcm hkdf serverKey ciphertext info =
     open_frame ungcm (deriveSubkey hkdf serverKey info) ciphertext"

definition generateClusterKey :: "bytes \<Rightarrow> string" where
  "generateClusterKey random = b64u random"

definition encryptForCluster ::
  "cipher \<Rightarrow> bytes \<Rightarrow> string \<Rightarrow> string \<Rightarrow> (secret_error, string) result" where
  "encryptForCluster gcm iv plaintext clusterKeyB64u =
     (let key = b64uDecode clusterKeyB64u
      in if length key \<noteq> 32 then Inl ClusterKeyLength
         else Inr (seal_frame gcm key iv plaintext))"

section \<open>Lemmas\<close>

lemma index_of_alphabet:
  assumes "d < 64"
  shows "index_of (b64_char d) b64_alphabet = Some d"
    and "b64_char d \<noteq> CHR ''=''" and "b64_char d \<noteq> CHR ''.''"
    and "of_url_char (to_url_char (b64_char d)) = b64_char d"
    and "to_url_char (b64_char d) \<noteq> CHR ''=''" and "to_url_char (b64_char d) \<noteq> CHR ''.''"
proof -
  have "\<forall>d \<in> set [0..<64]. index_of (b64_char d) b64_alphabet = Some d \<and> b64_char d \<noteq> CHR ''=''
          \<and> b64_char d \<noteq> CHR ''.'' \<and> of_url_char (to_url_char (b64_char d)) = b64_char d
          \<and> to_url_char (b64_char d) \<noteq> CHR ''='' \<and> to_url_char (b64_char d) \<noteq> CHR ''.''"
    by code_simp
  with assms show "index_of (b64_char d) b64_alphabet = Some d"
    and "b64_char d \<noteq> CHR ''=''" and "b64_char d \<noteq> CHR ''.''"
    and "of_url_char (to_url_char (b64_char d)) = b64_char d"
    and "to_url_char (b64_char d) \<noteq> CHR ''=''" and "to_url_char (b64_char d) \<noteq> CHR ''.''"
    by auto
qed

text \<open>The sextets of a byte string, and how the encoder prints them.\<close>

fun bytes_sextets :: "bytes \<Rightarrow> nat list" where
  "bytes_sextets (a # b # c # r) =
     a div 4 # (a mod 4 * 16 + b div 16) # (b mod 16 * 4 + c div 64) # (c mod 64) # bytes_sextets r"
| "bytes_sextets [a, b] = [a div 4, a mod 4 * 16 + b div 16, b mod 16 * 4]"
| "bytes_sextets [a] = [a div 4, a mod 4 * 16]"
| "bytes_sextets [] = []"

lemma byte_sextet: "a < 256 \<Longrightarrow> a div 4 < 64" "b < 256 \<Longrightarrow> a mod 4 * 16 + b div 16 < 64"
  "c < 256 \<Longrightarrow> b mod 16 * 4 + c div 64 < 64" "b mod 16 * 4 < 64" "a mod 4 * 16 < 64" for a b c :: nat
proof -
  have m: "a mod 4 < 4" "b mod 16 < 16" by simp_all
  show "a < 256 \<Longrightarrow> a div 4 < 64" by (simp add: less_mult_imp_div_less)
  show "a mod 4 * 16 + b div 16 < 64" if "b < 256"
    using m(1) that less_mult_imp_div_less [of b 16 16] by linarith
  show "b mod 16 * 4 + c div 64 < 64" if "c < 256"
    using m(2) that less_mult_imp_div_less [of c 4 64] by linarith
  show "b mod 16 * 4 < 64" "a mod 4 * 16 < 64" using m by linarith+
qed

lemma sextets_bounded: "byte_list bs \<Longrightarrow> \<forall>d \<in> set (bytes_sextets bs). d < 64"
  by (induction bs rule: bytes_sextets.induct) (auto simp: byte_sextet)

lemma pack_nibble: "y < 16 \<Longrightarrow> (x * 16 + y) div 16 = x" "y < 16 \<Longrightarrow> (x * 16 + y) mod 16 = y"
  "z < 4 \<Longrightarrow> (x * 4 + z) div 4 = x" "z < 4 \<Longrightarrow> (x * 4 + z) mod 4 = z" for x y z :: nat
  by simp_all

lemma sextets_bytes_inverse: "byte_list bs \<Longrightarrow> sextets_bytes (bytes_sextets bs) = bs"
proof (induction bs rule: bytes_sextets.induct)
  case (1 a b c r)
  then have "b div 16 < 16" "c div 64 < 4" by (simp_all add: less_mult_imp_div_less)
  with 1 show ?case by (simp add: pack_nibble)
next
  case (2 a b)
  then have "b div 16 < 16" by (simp add: less_mult_imp_div_less)
  then show ?case by (simp add: pack_nibble)
qed simp_all

lemma base64_encode_sextets:
  "\<exists>k. base64_encode bs = map b64_char (bytes_sextets bs) @ replicate k CHR ''=''"
proof (induction bs rule: base64_encode.induct)
  case (2 a)
  have "base64_encode [a] = map b64_char (bytes_sextets [a]) @ replicate 2 CHR ''=''"
    by (simp add: numeral_2_eq_2)
  then show ?case by blast
next
  case (3 a b)
  have "base64_encode [a, b] = map b64_char (bytes_sextets [a, b]) @ replicate 1 CHR ''=''"
    by simp
  then show ?case by blast
qed auto

lemma strip_padding:
  assumes "\<forall>c \<in> set s. c \<noteq> CHR ''=''"
  shows "rev (dropWhile (\<lambda>c. c = CHR ''='') (rev (s @ replicate k CHR ''=''))) = s"
proof -
  have "dropWhile (\<lambda>c. c = CHR ''='') (replicate k CHR ''='' @ t) = dropWhile (\<lambda>c. c = CHR ''='') t" for t
    by (induction k) simp_all
  moreover have "dropWhile (\<lambda>c. c = CHR ''='') (rev s) = rev s"
    using assms by (cases "rev s") (auto simp: dropWhile_eq_self_iff)
  ultimately show ?thesis by simp
qed

lemma b64u_sextets:
  assumes "byte_list bs"
  shows "b64u bs = map (\<lambda>d. to_url_char (b64_char d)) (bytes_sextets bs)"
proof -
  obtain k where k: "base64_encode bs = map b64_char (bytes_sextets bs) @ replicate k CHR ''=''"
    using base64_encode_sextets by blast
  have "to_url_char CHR ''='' = CHR ''=''" by (simp add: to_url_char_def)
  then have "map to_url_char (base64_encode bs)
      = map (\<lambda>d. to_url_char (b64_char d)) (bytes_sextets bs) @ replicate k CHR ''=''"
    by (simp add: k map_replicate_const)
  moreover have "\<forall>c \<in> set (map (\<lambda>d. to_url_char (b64_char d)) (bytes_sextets bs)). c \<noteq> CHR ''=''"
    using sextets_bounded [OF assms] index_of_alphabet(5) by auto
  ultimately show ?thesis
    unfolding b64u_def by (metis strip_padding)
qed

lemma takeWhile_padding:
  assumes "\<forall>x \<in> set xs. P x" and "\<not> P z"
  shows "takeWhile P (xs @ replicate k z) = xs"
  using assms by (cases k) (auto simp: takeWhile_append takeWhile_eq_all_conv)

lemma map_filter_index:
  "\<forall>d \<in> set ds. d < 64 \<Longrightarrow> List.map_filter (\<lambda>c. index_of c b64_alphabet) (map b64_char ds) = ds"
  by (induction ds) (simp_all add: map_filter_simps index_of_alphabet)

lemma b64u_roundtrip:
  assumes "byte_list bs"
  shows "b64uDecode (b64u bs) = bs"
proof -
  let ?ds = "bytes_sextets bs"
  have ds: "\<forall>d \<in> set ?ds. d < 64" by (rule sextets_bounded [OF assms])
  have eq: "of_url_char CHR ''='' = CHR ''=''" by (simp add: of_url_char_def)
  have unurl: "map of_url_char (b64u bs) = map b64_char ?ds"
    using ds by (simp add: b64u_sextets [OF assms] index_of_alphabet(4))
  have "takeWhile (\<lambda>c. c \<noteq> CHR ''='') (map b64_char ?ds @ replicate k CHR ''='') = map b64_char ?ds" for k
    using ds index_of_alphabet(2) by (intro takeWhile_padding) auto
  then show ?thesis
    by (simp add: b64uDecode_def base64_decode_def Let_def unurl eq map_filter_index [OF ds]
        sextets_bytes_inverse [OF assms])
qed

lemma b64u_no_dot: "byte_list bs \<Longrightarrow> CHR ''.'' \<notin> set (b64u bs)"
  using sextets_bounded [of bs] index_of_alphabet(6) by (force simp: b64u_sextets)

lemma utf8_bytes: "byte_list (utf8_encode s)"
proof (induction s)
  case (Cons c s)
  have "(of_char c :: nat) div 64 < 4" by (simp add: less_mult_imp_div_less)
  moreover have "(of_char c :: nat) mod 64 < 64" by simp
  ultimately have "192 + of_char c div 64 < (256 :: nat)" "128 + of_char c mod 64 < (256 :: nat)"
    by linarith+
  with Cons show ?case by (auto simp: Let_def)
qed simp

lemma utf8_roundtrip: "utf8_decode (utf8_encode s) = Some s"
proof (induction s)
  case (Cons c s)
  define n where "n = (of_char c :: nat)"
  have n: "n < 256" "char_of n = c" unfolding n_def by (auto simp: nat_of_char_less_256)
  show ?case
  proof (cases "n < 128")
    case True
    with Cons n show ?thesis by (simp add: n_def [symmetric] Let_def)
  next
    case False
    have "2 \<le> n div 64" "n div 64 < 4"
      using div_le_mono [of 128 n 64] False n(1) by (simp_all add: less_mult_imp_div_less)
    then have "n div 64 = 2 \<or> n div 64 = 3" by linarith
    moreover have "n div 64 * 64 + n mod 64 = n" by simp
    moreover have "n mod 64 < 64" by simp
    ultimately show ?thesis using Cons n False by (auto simp: n_def [symmetric] Let_def)
  qed
qed simp


text \<open>
  The documented law of the cipher: decryption with the key, nonce and tag of an encryption
  gives the message back, and ciphertext and tag are bytes.
\<close>

definition cipher_ok :: "cipher \<Rightarrow> decipher \<Rightarrow> bool" where
  "cipher_ok gcm ungcm \<longleftrightarrow>
     (\<forall>k iv m. byte_list m \<longrightarrow>
        byte_list (fst (gcm k iv m)) \<and> byte_list (snd (gcm k iv m))
        \<and> ungcm k iv (snd (gcm k iv m)) (fst (gcm k iv m)) = Some m)"

lemma open_seal:
  assumes law: "cipher_ok gcm ungcm" and iv: "byte_list iv"
  shows "open_frame ungcm key (seal_frame gcm key iv p) = Inr p"
proof -
  obtain ct tag where g: "gcm key iv (utf8_encode p) = (ct, tag)" by (cases "gcm key iv (utf8_encode p)")
  have ok: "byte_list ct" "byte_list tag" "ungcm key iv tag ct = Some (utf8_encode p)"
    using law utf8_bytes [of p] g unfolding cipher_ok_def by (metis fst_conv snd_conv)+
  have frame: "seal_frame gcm key iv p
      = ''v1'' @ CHR ''.'' # (b64u iv @ CHR ''.'' # (b64u tag @ CHR ''.'' # b64u ct))"
    by (simp add: seal_frame_def g)
  have "split_on CHR ''.'' (seal_frame gcm key iv p) = [''v1'', b64u iv, b64u tag, b64u ct]"
    unfolding frame using iv ok by (simp add: split_on_append split_on_no_sep b64u_no_dot)
  then show ?thesis
    using iv ok by (simp add: open_frame_def b64u_roundtrip utf8_roundtrip)
qed

lemma loadServerKey_stable:
  assumes "loadServerKey w fresh files = Inr (key, files')" and "length fresh = 32"
  shows "loadServerKey w' fresh' files' = Inr (key, files')"
  using assms by (auto simp: loadServerKey_def usable_key_def split: option.splits if_splits)

section \<open>Properties\<close>

text \<open>
  (C34) What the server seals it can open again, also after a restart: the key that a start
  loads or generates is the key of every later start, whatever fresh bytes that start would
  have drawn, and decryption with the same context returns the plaintext.  A string sealed
  for the cluster with a generated cluster key opens with the bytes of that key.
\<close>

theorem sealed_across_restart:
  assumes law: "cipher_ok gcm ungcm" and iv: "byte_list iv"
    and start: "loadServerKey w fresh files = Inr (key, files')" and fresh: "length fresh = 32"
    and cluster: "byte_list random" "length random = 32"
  shows "(\<exists>key'. loadServerKey w' fresh' files' = Inr (key', files')
           \<and> decryptString ungcm hkdf key' (encryptString gcm hkdf key iv p info) info = Inr p)
    \<and> (\<exists>c. encryptForCluster gcm iv p (generateClusterKey random) = Inr c
           \<and> open_frame ungcm random c = Inr p)"
proof
  show "\<exists>key'. loadServerKey w' fresh' files' = Inr (key', files')
      \<and> decryptString ungcm hkdf key' (encryptString gcm hkdf key iv p info) info = Inr p"
    using loadServerKey_stable [OF start fresh] open_seal [OF law iv]
    by (simp add: decryptString_def encryptString_def)
  show "\<exists>c. encryptForCluster gcm iv p (generateClusterKey random) = Inr c
      \<and> open_frame ungcm random c = Inr p"
    using open_seal [OF law iv] cluster
    by (simp add: encryptForCluster_def generateClusterKey_def b64u_roundtrip Let_def)
qed

section \<open>Witnesses\<close>

text \<open>A toy cipher that satisfies the law: the message itself with its length as the tag.\<close>

definition demo_gcm :: cipher where
  "demo_gcm key iv m = (m, [length m mod 256])"

definition demo_ungcm :: decipher where
  "demo_ungcm key iv tag ct = (if tag = [length ct mod 256] then Some ct else None)"

lemma demo_cipher_ok: "cipher_ok demo_gcm demo_ungcm"
  by (auto simp: cipher_ok_def demo_gcm_def demo_ungcm_def)

theorem sealed_across_restart_witness:
  "decryptString demo_ungcm (\<lambda>k i. k) (replicate 32 7)
     (encryptString demo_gcm (\<lambda>k i. k) (replicate 32 7) [1, 2, 250] ''caf'' ''totp'') ''totp'' = Inr ''caf''
   \<and> encryptString demo_gcm (\<lambda>k i. k) (replicate 32 7) [1, 2, 250] ''caf'' ''totp'' = ''v1.AQL6.Aw.Y2Fm''"
proof -
  let ?f = "\<lparr>kf_creds = None, kf_dev = None\<rparr>"
  have s: "loadServerKey True (replicate 32 7) ?f = Inr (replicate 32 7, ?f\<lparr>kf_dev := Some (replicate 32 7)\<rparr>)"
    by (simp add: loadServerKey_def usable_key_def)
  have l: "loadServerKey False (replicate 32 9) (?f\<lparr>kf_dev := Some (replicate 32 7)\<rparr>)
      = Inr (replicate 32 7, ?f\<lparr>kf_dev := Some (replicate 32 7)\<rparr>)"
    by (simp add: loadServerKey_def usable_key_def)
  have "byte_list [1, 2, 250]" "byte_list (replicate 32 (5 :: nat))" "length (replicate 32 (5 :: nat)) = 32"
    "length (replicate 32 (7 :: nat)) = 32"
    by simp_all
  from sealed_across_restart [OF demo_cipher_ok this(1) s this(4) this(2, 3),
      where w' = False and fresh' = "replicate 32 9" and hkdf = "\<lambda>k i. k" and p = "''caf''" and info = "''totp''"]
  have "decryptString demo_ungcm (\<lambda>k i. k) (replicate 32 7)
     (encryptString demo_gcm (\<lambda>k i. k) (replicate 32 7) [1, 2, 250] ''caf'' ''totp'') ''totp'' = Inr ''caf''"
    unfolding l by blast
  moreover have "encryptString demo_gcm (\<lambda>k i. k) (replicate 32 7) [1, 2, 250] ''caf'' ''totp'' = ''v1.AQL6.Aw.Y2Fm''"
    by code_simp
  ultimately show ?thesis by blast
qed

end
