(* ===== verification/BF_Auth.thy ===== *)
theory BF_Auth
  imports BF_Samples BF_Secrets
begin

text \<open>
  Users, sessions and keys: \<^verbatim>\<open>server/src/shared/auth.ts\<close> with the repository operations it
  performs, the schema names of \<^verbatim>\<open>db/tenant-schema.ts\<close>, the search path of
  \<^verbatim>\<open>db/pg-adapter.ts\<close> and the mirroring of platform administrators in
  \<^verbatim>\<open>db/platform-admin.ts\<close>.

  The database is the registry of tenants and one set of tables per schema.  A statement on
  an unqualified table name reads the first schema of the search path that exists, so a
  missing tenant schema falls through to \<^verbatim>\<open>public\<close>.  A call that throws returns \<open>Inl\<close>; what it
  wrote before is kept unless it ran in a transaction.  Argon2, HMAC, SHA-256, TOTP, AES-GCM,
  HKDF, the URL parser, the body schemas and the JSON parser for recovery codes are the fields of \<open>auth_lib\<close>; times are
  milliseconds, and random bytes are arguments.  \<open>demo_marker\<close> is the stored identifier of the
  demo tenant.
\<close>

section \<open>State\<close>

record auth_tables =
  at_users :: "user list"
  at_sessions :: "session list"
  at_api_keys :: "api_key list"
  at_kiosks :: "kiosk list"
  at_ioboxes :: "iobox list"
  at_audit :: "audit_entry list"
  at_setup_complete :: bool

record global_admin =
  ga_id :: string
  ga_username :: string
  ga_password_hash :: string
  ga_is_active :: bool

record auth_db =
  tenants :: "tenant list"
  global_admins :: "global_admin list"
  demo_marker :: json
  auth_schemas :: "(string, auth_tables) jsmap"

datatype auth_error =
    InvalidSchemaName string
  | UndefinedTable string
  | PlatformAdminNotFound
  | UniqueViolation
  | ForeignKeyViolation
  | LoginTenantUnresolved
  | SecretError secret_error
  | JsonSyntaxError

record auth_config =
  sessionIdleSeconds :: number
  sessionMaxSeconds :: number
  loginLockoutThreshold :: number
  loginLockoutSeconds :: number

record auth_lib =
  lib_verify :: "string \<Rightarrow> string \<Rightarrow> bool"
  lib_hash :: "bytes \<Rightarrow> string \<Rightarrow> string"
  lib_mac :: "string \<Rightarrow> bytes"
  lib_sha :: "string \<Rightarrow> bytes"
  lib_totp :: "timestamp \<Rightarrow> string \<Rightarrow> string \<Rightarrow> bool"
  lib_gcm :: cipher
  lib_ungcm :: decipher
  lib_hkdf :: "bytes \<Rightarrow> string \<Rightarrow> bytes"
  lib_server_key :: bytes
  lib_url_host :: "string \<Rightarrow> string option"
  lib_login_body :: "json \<Rightarrow> (string \<times> string) option"
  lib_totp_body :: "json \<Rightarrow> string option"
  lib_parse_codes :: "string \<Rightarrow> string list option"

definition empty_tables :: auth_tables where
  "empty_tables = \<lparr>at_users = [], at_sessions = [], at_api_keys = [], at_kiosks = [], at_ioboxes = [], at_audit = [],
                   at_setup_complete = False\<rparr>"

section \<open>Schemas and the search path\<close>

definition is_slug_char :: "char \<Rightarrow> bool" where
  "is_slug_char c \<longleftrightarrow> is_lower c \<or> is_digit c \<or> c = CHR ''_'' \<or> c = CHR ''-''"

definition valid_slug :: "string \<Rightarrow> bool" where
  "valid_slug slug = (case slug of [] \<Rightarrow> False
     | c # r \<Rightarrow> (is_lower c \<or> is_digit c) \<and> list_all is_slug_char r \<and> length r \<le> 127)"

definition legacyTenantSchemaName :: "(string \<Rightarrow> bytes) \<Rightarrow> string \<Rightarrow> string" where
  "legacyTenantSchemaName sha slug = ''tenant_'' @ take 48 (hex_encode (sha slug))"

text \<open>\<open>None\<close> is the error for an invalid slug.\<close>

definition tenantSchemaName :: "(string \<Rightarrow> bytes) \<Rightarrow> string \<Rightarrow> string option" where
  "tenantSchemaName sha slug =
     (if \<not> valid_slug slug then None
      else if slug = ''default'' then Some ''public''
      else if list_all (\<lambda>c. is_lower c \<or> is_digit c \<or> c = CHR ''_'') slug \<and> length slug \<le> 56
      then Some (''tenant_'' @ slug)
      else Some (legacyTenantSchemaName sha slug))"

definition assertSchema :: "string \<Rightarrow> bool" where
  "assertSchema schema = (case schema of [] \<Rightarrow> False
     | c # r \<Rightarrow> (is_lower c \<or> is_upper c \<or> c = CHR ''_'') \<and> list_all (\<lambda>d. is_alnum d \<or> d = CHR ''_'') r)"

definition visible_schema :: "auth_db \<Rightarrow> string \<Rightarrow> string" where
  "visible_schema db schema = (if map_has (auth_schemas db) schema then schema else ''public'')"

definition tables :: "auth_db \<Rightarrow> string \<Rightarrow> auth_tables" where
  "tables db schema = nullish (map_of (auth_schemas db) (visible_schema db schema)) empty_tables"

definition put_tables :: "string \<Rightarrow> auth_tables \<Rightarrow> auth_db \<Rightarrow> auth_db" where
  "put_tables schema t db = db\<lparr>auth_schemas := AList.update (visible_schema db schema) t (auth_schemas db)\<rparr>"

section \<open>Repository\<close>

definition listTenants :: "auth_db \<Rightarrow> tenant list" where
  "listTenants db = sort_key tn_created_at (tenants db)"

definition getTenantById :: "auth_db \<Rightarrow> string \<Rightarrow> tenant option" where
  "getTenantById db tid = find (\<lambda>t. tn_id t = tid) (tenants db)"

definition getTenantBySlug :: "auth_db \<Rightarrow> string \<Rightarrow> tenant option" where
  "getTenantBySlug db slug = find (\<lambda>t. tn_slug t = slug) (tenants db)"

definition getUserById :: "auth_db \<Rightarrow> string \<Rightarrow> string \<Rightarrow> user option" where
  "getUserById db schema uid = find (\<lambda>u. u_id u = uid) (at_users (tables db schema))"

definition getUserByUsername :: "auth_db \<Rightarrow> string \<Rightarrow> string \<Rightarrow> user option" where
  "getUserByUsername db schema name = find (\<lambda>u. u_username u = name) (at_users (tables db schema))"

text \<open>A \<^verbatim>\<open>Partial<User>\<close> is the list of the columns it sets.\<close>

datatype user_column =
    SetPasswordHash string
  | SetTotpEnabled bool
  | SetTotpSecret "string option"
  | SetRecoveryCodes "string list"
  | SetMustChangePassword bool
  | SetFailedLoginCount number
  | SetLockedUntil "timestamp option"
  | SetLastLoginAt "timestamp option"
  | SetIsActive bool

fun set_column :: "user_column \<Rightarrow> user \<Rightarrow> user" where
  "set_column (SetPasswordHash h) u = u\<lparr>u_password_hash := h\<rparr>"
| "set_column (SetTotpEnabled b) u = u\<lparr>u_totp_enabled := b\<rparr>"
| "set_column (SetTotpSecret s) u = u\<lparr>u_totp_secret_encrypted := s\<rparr>"
| "set_column (SetRecoveryCodes cs) u = u\<lparr>u_recovery_codes_hashed := cs\<rparr>"
| "set_column (SetMustChangePassword b) u = u\<lparr>u_must_change_password := b\<rparr>"
| "set_column (SetFailedLoginCount n) u = u\<lparr>u_failed_login_count := n\<rparr>"
| "set_column (SetLockedUntil t) u = u\<lparr>u_locked_until := t\<rparr>"
| "set_column (SetLastLoginAt t) u = u\<lparr>u_last_login_at := t\<rparr>"
| "set_column (SetIsActive b) u = u\<lparr>u_is_active := b\<rparr>"

definition patch_user :: "user_column list \<Rightarrow> user \<Rightarrow> user" where
  "patch_user patch u = fold set_column patch u"

definition map_user :: "string \<Rightarrow> (user \<Rightarrow> user) \<Rightarrow> auth_tables \<Rightarrow> auth_tables" where
  "map_user uid f t = t\<lparr>at_users := map (\<lambda>u. if u_id u = uid then f u else u) (at_users t)\<rparr>"

definition updateUser :: "string \<Rightarrow> string \<Rightarrow> user_column list \<Rightarrow> auth_db \<Rightarrow> auth_db" where
  "updateUser schema uid patch db =
     (if patch = [] then db
      else put_tables schema (map_user uid (patch_user patch) (tables db schema)) db)"

definition mirror_user :: "user \<Rightarrow> user \<Rightarrow> user" where
  "mirror_user source target =
     target\<lparr>u_password_hash := u_password_hash source, u_role := u_role source,
            u_is_active := u_is_active source, u_totp_enabled := u_totp_enabled source,
            u_totp_secret_encrypted := u_totp_secret_encrypted source,
            u_recovery_codes_hashed := u_recovery_codes_hashed source,
            u_must_change_password := u_must_change_password source,
            u_failed_login_count := u_failed_login_count source,
            u_locked_until := u_locked_until source, u_last_login_at := u_last_login_at source\<rparr>"

text \<open>The two statements of \<^verbatim>\<open>mirrorPlatformAdmins\<close> for one source row and one schema.\<close>

definition mirror_into :: "user \<Rightarrow> auth_tables \<Rightarrow> auth_tables" where
  "mirror_into source t =
     (let users = map (\<lambda>u. if u_username u = u_username source then mirror_user source u else u) (at_users t)
      in t\<lparr>at_users := (if list_ex (\<lambda>u. u_id u = u_id source \<or> u_username u = u_username source) users
                        then users else users @ [source])\<rparr>)"

fun mirrorPlatformAdmins ::
  "string list \<Rightarrow> string \<Rightarrow> auth_db \<Rightarrow> (auth_error, auth_db) result" where
  "mirrorPlatformAdmins [] adminId db = Inr db"
| "mirrorPlatformAdmins (schema # rest) adminId db =
     (if \<not> assertSchema schema then Inl (InvalidSchemaName schema)
      else case map_of (auth_schemas db) schema of
          None \<Rightarrow> Inl (UndefinedTable schema)
        | Some t \<Rightarrow>
            let sources = filter (\<lambda>u. u_role u = RoleAdmin \<and> u_id u = adminId) (at_users (tables db ''public''));
                t' = fold mirror_into sources t
            in mirrorPlatformAdmins rest adminId
                 (db\<lparr>auth_schemas := AList.update schema t' (auth_schemas db)\<rparr>))"

definition tenant_schemas :: "auth_db \<Rightarrow> string list" where
  "tenant_schemas db = filter (\<lambda>s. s \<noteq> ''public'') (map tn_schema_name (listTenants db))"

definition platform_admin :: "auth_db \<Rightarrow> string \<Rightarrow> user option" where
  "platform_admin db uid = find (\<lambda>u. u_id u = uid \<and> u_role u = RoleAdmin) (at_users (tables db ''public''))"

definition updatePlatformAdmin :: "string \<Rightarrow> user_column list \<Rightarrow> auth_db \<Rightarrow> (auth_error, auth_db) result" where
  "updatePlatformAdmin uid patch db =
     (if patch = [] then Inr db
      else case platform_admin db uid of
          None \<Rightarrow> Inl PlatformAdminNotFound
        | Some admin \<Rightarrow>
            mirrorPlatformAdmins (tenant_schemas db) uid
              (put_tables ''public'' (map_user uid (patch_user patch) (tables db ''public'')) db))"

definition getSessionById :: "auth_db \<Rightarrow> string \<Rightarrow> string \<Rightarrow> session option" where
  "getSessionById db schema sid = find (\<lambda>s. ss_id s = sid) (at_sessions (tables db schema))"

definition map_sessions :: "string \<Rightarrow> (session \<Rightarrow> session) \<Rightarrow> auth_db \<Rightarrow> auth_db" where
  "map_sessions schema f db =
     put_tables schema ((tables db schema)\<lparr>at_sessions := map f (at_sessions (tables db schema))\<rparr>) db"

definition map_session :: "string \<Rightarrow> string \<Rightarrow> (session \<Rightarrow> session) \<Rightarrow> auth_db \<Rightarrow> auth_db" where
  "map_session schema sid f db = map_sessions schema (\<lambda>s. if ss_id s = sid then f s else s) db"

definition insertSession :: "string \<Rightarrow> session \<Rightarrow> auth_db \<Rightarrow> (auth_error, auth_db \<times> session) result" where
  "insertSession schema s db =
     (if getSessionById db schema (ss_id s) \<noteq> None then Inl UniqueViolation
      else if getUserById db schema (ss_user_id s) = None then Inl ForeignKeyViolation
      else Inr (put_tables schema ((tables db schema)\<lparr>at_sessions := at_sessions (tables db schema) @ [s]\<rparr>) db, s))"

definition touchSession :: "string \<Rightarrow> string \<Rightarrow> timestamp \<Rightarrow> auth_db \<Rightarrow> auth_db" where
  "touchSession schema sid lastSeenAt = map_session schema sid (\<lambda>s. s\<lparr>ss_last_seen_at := lastSeenAt\<rparr>)"

definition setSessionTotpPending :: "string \<Rightarrow> string \<Rightarrow> bool \<Rightarrow> auth_db \<Rightarrow> auth_db" where
  "setSessionTotpPending schema sid pending = map_session schema sid (\<lambda>s. s\<lparr>ss_totp_pending := pending\<rparr>)"

definition revokeSession :: "string \<Rightarrow> string \<Rightarrow> timestamp \<Rightarrow> auth_db \<Rightarrow> auth_db" where
  "revokeSession schema sid now = map_session schema sid (\<lambda>s. s\<lparr>ss_revoked_at := Some now\<rparr>)"

definition revoke_where :: "(session \<Rightarrow> bool) \<Rightarrow> timestamp \<Rightarrow> session \<Rightarrow> session" where
  "revoke_where p now s = (if p s \<and> ss_revoked_at s = None then s\<lparr>ss_revoked_at := Some now\<rparr> else s)"

definition revokeAllSessionsForUser :: "string \<Rightarrow> string \<Rightarrow> timestamp \<Rightarrow> auth_db \<Rightarrow> auth_db" where
  "revokeAllSessionsForUser schema userId now =
     map_sessions schema (revoke_where (\<lambda>s. ss_user_id s = userId) now)"

fun revoke_in_schemas :: "string list \<Rightarrow> string \<Rightarrow> timestamp \<Rightarrow> auth_db \<Rightarrow> (auth_error, auth_db) result" where
  "revoke_in_schemas [] username now db = Inr db"
| "revoke_in_schemas (schema # rest) username now db =
     (if \<not> assertSchema schema then Inl (InvalidSchemaName schema)
      else case map_of (auth_schemas db) schema of
          None \<Rightarrow> Inl (UndefinedTable schema)
        | Some t \<Rightarrow>
            let ids = map u_id (filter (\<lambda>u. u_username u = username) (at_users t))
            in revoke_in_schemas rest username now
                 (map_sessions schema (revoke_where (\<lambda>s. ss_user_id s \<in> set ids) now) db))"

definition revokePlatformAdminSessions :: "string \<Rightarrow> timestamp \<Rightarrow> auth_db \<Rightarrow> (auth_error, auth_db) result" where
  "revokePlatformAdminSessions userId now db =
     (case platform_admin db userId of
        None \<Rightarrow> Inl PlatformAdminNotFound
      | Some admin \<Rightarrow>
          revoke_in_schemas (tenant_schemas db) (u_username admin) now
            (revokeAllSessionsForUser ''public'' userId now db))"

definition insertApiKey :: "string \<Rightarrow> api_key \<Rightarrow> auth_db \<Rightarrow> auth_db" where
  "insertApiKey schema k db =
     put_tables schema ((tables db schema)\<lparr>at_api_keys := at_api_keys (tables db schema) @ [k]\<rparr>) db"

definition listApiKeysByPrefix :: "auth_db \<Rightarrow> string \<Rightarrow> string \<Rightarrow> api_key list" where
  "listApiKeysByPrefix db schema pfx =
     filter (\<lambda>k. ak_key_prefix k = pfx \<and> ak_revoked_at k = None) (at_api_keys (tables db schema))"

definition touchApiKey :: "string \<Rightarrow> string \<Rightarrow> timestamp \<Rightarrow> string option \<Rightarrow> auth_db \<Rightarrow> auth_db" where
  "touchApiKey schema kid now ip db =
     put_tables schema ((tables db schema)\<lparr>at_api_keys :=
       map (\<lambda>k. if ak_id k = kid then k\<lparr>ak_last_used_at := Some now, ak_last_used_ip := ip\<rparr> else k)
         (at_api_keys (tables db schema))\<rparr>) db"

definition listKiosksByKeyPrefix :: "auth_db \<Rightarrow> string \<Rightarrow> string \<Rightarrow> kiosk list" where
  "listKiosksByKeyPrefix db schema pfx =
     filter (\<lambda>k. k_key_prefix k = pfx \<and> k_enabled k) (at_kiosks (tables db schema))"

definition listIoBoxesByKeyPrefix :: "auth_db \<Rightarrow> string \<Rightarrow> string \<Rightarrow> iobox list" where
  "listIoBoxesByKeyPrefix db schema pfx =
     filter (\<lambda>b. iob_key_prefix b = Some pfx \<and> iob_enabled b) (at_ioboxes (tables db schema))"

definition markSetupComplete :: "string \<Rightarrow> auth_db \<Rightarrow> auth_db" where
  "markSetupComplete schema db = put_tables schema ((tables db schema)\<lparr>at_setup_complete := True\<rparr>) db"

definition global_admin_user :: "timestamp \<Rightarrow> global_admin \<Rightarrow> user" where
  "global_admin_user now ga =
     \<lparr>u_id = ga_id ga, u_username = ga_username ga, u_password_hash = ga_password_hash ga,
      u_role = RoleAdmin, u_is_active = True, u_totp_enabled = False, u_totp_secret_encrypted = None,
      u_recovery_codes_hashed = [], u_must_change_password = False, u_failed_login_count = 0,
      u_locked_until = None, u_last_login_at = None, u_created_at = now\<rparr>"

definition isSetupComplete :: "timestamp \<Rightarrow> string \<Rightarrow> auth_db \<Rightarrow> auth_db \<times> bool" where
  "isSetupComplete now schema db =
     (if at_setup_complete (tables db schema) then (db, True)
      else if at_users (tables db schema) \<noteq> [] then (db, True)
      else case find ga_is_active (global_admins db) of
          None \<Rightarrow> (db, False)
        | Some ga \<Rightarrow>
            (markSetupComplete schema
               (put_tables schema ((tables db schema)\<lparr>at_users := [global_admin_user now ga]\<rparr>) db), True))"

definition insertAudit :: "string \<Rightarrow> audit_entry \<Rightarrow> auth_db \<Rightarrow> auth_db" where
  "insertAudit schema e db =
     put_tables schema ((tables db schema)\<lparr>at_audit := at_audit (tables db schema) @ [e]\<rparr>) db"


section \<open>Passwords and recovery codes\<close>

definition verifyPassword :: "auth_lib \<Rightarrow> string \<Rightarrow> string \<Rightarrow> bool" where
  "verifyPassword lib plain hash = lib_verify lib plain hash"

definition RECOVERY_ALPHABET :: string where
  "RECOVERY_ALPHABET = ''ABCDEFGHJKLMNPQRSTUVWXYZ23456789''"

definition RECOVERY_CODE_COUNT :: nat where
  "RECOVERY_CODE_COUNT = 10"

definition RECOVERY_CODE_LENGTH :: nat where
  "RECOVERY_CODE_LENGTH = 10"

text \<open>\<open>draw i\<close> are the random bytes of code \<open>i\<close>.\<close>

definition generateRecoveryCodes :: "(nat \<Rightarrow> bytes) \<Rightarrow> string list" where
  "generateRecoveryCodes draw =
     map (\<lambda>i. map (\<lambda>j. RECOVERY_ALPHABET ! ((draw i ! j) mod length RECOVERY_ALPHABET))
                [0..<RECOVERY_CODE_LENGTH])
       [0..<RECOVERY_CODE_COUNT]"

definition hashRecoveryCodes :: "auth_lib \<Rightarrow> (nat \<Rightarrow> bytes) \<Rightarrow> string list \<Rightarrow> string list" where
  "hashRecoveryCodes lib salts codes = map (\<lambda>(i, c). lib_hash lib (salts i) c) (enumerate 0 codes)"

fun consume_loop :: "(string \<Rightarrow> bool) \<Rightarrow> string list \<Rightarrow> bool \<Rightarrow> string list \<Rightarrow> bool \<times> string list" where
  "consume_loop match [] consumed remaining = (consumed, remaining)"
| "consume_loop match (h # hs) consumed remaining =
     (if \<not> consumed \<and> match h then consume_loop match hs True remaining
      else consume_loop match hs consumed (remaining @ [h]))"

definition consumeRecoveryCode :: "auth_lib \<Rightarrow> string \<Rightarrow> string list \<Rightarrow> bool \<times> string list" where
  "consumeRecoveryCode lib code hashedCodes = consume_loop (verifyPassword lib code) hashedCodes False []"

section \<open>Cookies\<close>

definition cookieMac :: "auth_lib \<Rightarrow> string \<Rightarrow> string" where
  "cookieMac lib payload = hex_encode (lib_mac lib payload)"

definition signCookie :: "auth_lib \<Rightarrow> string \<Rightarrow> string \<Rightarrow> string" where
  "signCookie lib tenantId sid =
     (let payload = tenantId @ ''.'' @ sid in payload @ ''.'' @ cookieMac lib payload)"

definition is_tenant_id :: "string \<Rightarrow> bool" where
  "is_tenant_id s \<longleftrightarrow> s \<noteq> [] \<and> list_all (\<lambda>c. is_alnum c \<or> c = CHR ''_'' \<or> c = CHR ''-'') s"

definition is_session_id :: "string \<Rightarrow> bool" where
  "is_session_id s \<longleftrightarrow> length s = 64 \<and> list_all is_hex_lower s"

definition unsignCookie :: "auth_lib \<Rightarrow> string \<Rightarrow> (string \<times> string) option" where
  "unsignCookie lib cookieValue =
     (case split_on CHR ''.'' cookieValue of
        [tenantId, sid, mac] \<Rightarrow>
          if mac = [] \<or> \<not> is_tenant_id tenantId \<or> \<not> is_session_id sid then None
          else if hex_bytes mac = hex_bytes (cookieMac lib (tenantId @ ''.'' @ sid))
          then Some (tenantId, sid) else None
      | _ \<Rightarrow> None)"

section \<open>Sessions\<close>

definition createSession ::
  "auth_lib \<Rightarrow> auth_config \<Rightarrow> timestamp \<Rightarrow> bytes \<Rightarrow> bytes \<Rightarrow> string \<Rightarrow> user \<Rightarrow> string \<Rightarrow> string option
   \<Rightarrow> string option \<Rightarrow> bool \<Rightarrow> auth_db \<Rightarrow> (auth_error, auth_db \<times> session \<times> string) result" where
  "createSession lib cfg now idBytes csrfBytes schema u originTenantId userAgent ipAddress totpPending db =
     (let sid = hex_encode idBytes;
          s = \<lparr>ss_id = sid, ss_user_id = u_id u, ss_csrf_token = hex_encode csrfBytes,
               ss_totp_pending = totpPending, ss_user_agent = userAgent, ss_ip_address = ipAddress,
               ss_issued_at = now, ss_last_seen_at = now,
               ss_expires_at = now + sessionMaxSeconds cfg * 1000, ss_revoked_at = None\<rparr>
      in bind_result (insertSession schema s db)
           (\<lambda>(db1, s1). Inr (db1, s1, signCookie lib originTenantId sid)))"

type_synonym resolved = "session \<times> user \<times> tenant"

definition resolveSession ::
  "auth_lib \<Rightarrow> auth_config \<Rightarrow> timestamp \<Rightarrow> string \<Rightarrow> auth_db \<Rightarrow> (auth_error, auth_db \<times> resolved option) result" where
  "resolveSession lib cfg now cookieValue db =
     (case unsignCookie lib cookieValue of
        None \<Rightarrow> Inr (db, None)
      | Some (tenantId, sid) \<Rightarrow>
          (case getTenantById db tenantId of
             None \<Rightarrow> Inr (db, None)
           | Some tenant \<Rightarrow>
               if \<not> tn_is_active tenant then Inr (db, None)
               else if \<not> assertSchema (tn_schema_name tenant)
               then Inl (InvalidSchemaName (tn_schema_name tenant))
               else let schema = tn_schema_name tenant in
               (case getSessionById db schema sid of
                  None \<Rightarrow> Inr (db, None)
                | Some s \<Rightarrow>
                    if ss_revoked_at s \<noteq> None then Inr (db, None)
                    else if ss_expires_at s \<le> now then Inr (db, None)
                    else if now - ss_last_seen_at s > sessionIdleSeconds cfg * 1000
                    then Inr (revokeSession schema sid now db, None)
                    else (case getUserById db schema (ss_user_id s) of
                            None \<Rightarrow> Inr (db, None)
                          | Some u \<Rightarrow>
                              if \<not> u_is_active u then Inr (db, None)
                              else Inr (touchSession schema sid now db, Some (s, u, tenant))))))"

section \<open>Keys\<close>

definition createApiKey ::
  "auth_lib \<Rightarrow> timestamp \<Rightarrow> string \<Rightarrow> bytes \<Rightarrow> bytes \<Rightarrow> string \<Rightarrow> string \<Rightarrow> api_key_scope list \<Rightarrow> timestamp option
   \<Rightarrow> auth_db \<Rightarrow> auth_db \<times> api_key \<times> string" where
  "createApiKey lib now kid random salt schema name scopes expiresAt db =
     (let plaintext = ''bf-'' @ b64u random;
          k = \<lparr>ak_id = kid, ak_name = name, ak_key_hash = lib_hash lib salt plaintext,
               ak_key_prefix = take 8 plaintext, ak_scopes = scopes, ak_expires_at = expiresAt,
               ak_last_used_at = None, ak_last_used_ip = None, ak_created_at = now, ak_revoked_at = None\<rparr>
      in (insertApiKey schema k db, k, plaintext))"

definition api_key_matches :: "auth_lib \<Rightarrow> timestamp \<Rightarrow> string \<Rightarrow> api_key \<Rightarrow> bool" where
  "api_key_matches lib now plaintext k \<longleftrightarrow>
     ak_revoked_at k = None
     \<and> (case ak_expires_at k of None \<Rightarrow> True | Some e \<Rightarrow> \<not> e \<le> now)
     \<and> verifyPassword lib plaintext (ak_key_hash k)"

definition verifyApiKey ::
  "auth_lib \<Rightarrow> timestamp \<Rightarrow> string \<Rightarrow> string \<Rightarrow> string option \<Rightarrow> auth_db \<Rightarrow> auth_db \<times> api_key option" where
  "verifyApiKey lib now schema plaintext ip db =
     (case find (api_key_matches lib now plaintext) (listApiKeysByPrefix db schema (take 8 plaintext)) of
        None \<Rightarrow> (db, None)
      | Some k \<Rightarrow> (touchApiKey schema (ak_id k) now ip db, Some k))"

record device_identity =
  di_id :: string
  di_tenant_id :: string
  di_tenant_slug :: string
  di_tenant_name :: string
  di_schema_name :: string

definition default_device :: "string \<Rightarrow> device_identity" where
  "default_device did = \<lparr>di_id = did, di_tenant_id = ''default'', di_tenant_slug = ''default'',
                         di_tenant_name = ''Default'', di_schema_name = ''public''\<rparr>"

definition tenant_device :: "tenant \<Rightarrow> string \<Rightarrow> device_identity" where
  "tenant_device t did = \<lparr>di_id = did, di_tenant_id = tn_id t, di_tenant_slug = tn_slug t,
                          di_tenant_name = tn_name t, di_schema_name = tn_schema_name t\<rparr>"

text \<open>The loop over the tenants; \<open>device schema\<close> is the first device of a schema whose key matches.\<close>

fun scan_tenants ::
  "(string \<Rightarrow> string option) \<Rightarrow> tenant list \<Rightarrow> (auth_error, device_identity option) result" where
  "scan_tenants device [] = Inr None"
| "scan_tenants device (t # ts) =
     (if \<not> tn_is_active t then scan_tenants device ts
      else if \<not> assertSchema (tn_schema_name t) then Inl (InvalidSchemaName (tn_schema_name t))
      else (case device (tn_schema_name t) of
              Some did \<Rightarrow> Inr (Some (tenant_device t did))
            | None \<Rightarrow> scan_tenants device ts))"

definition verify_device_key ::
  "(string \<Rightarrow> string option) \<Rightarrow> string \<Rightarrow> auth_db \<Rightarrow> (auth_error, device_identity option) result" where
  "verify_device_key device plaintext db =
     (if length plaintext < 8 then Inr None
      else if listTenants db = [] then Inr (map_option default_device (device ''public''))
      else scan_tenants device (listTenants db))"

definition matching_kiosk :: "auth_lib \<Rightarrow> auth_db \<Rightarrow> string \<Rightarrow> string \<Rightarrow> string option" where
  "matching_kiosk lib db plaintext schema =
     map_option k_id (find (\<lambda>k. verifyPassword lib plaintext (k_key_hash k))
       (listKiosksByKeyPrefix db schema (take 8 plaintext)))"

definition matching_iobox :: "auth_lib \<Rightarrow> auth_db \<Rightarrow> string \<Rightarrow> string \<Rightarrow> string option" where
  "matching_iobox lib db plaintext schema =
     map_option iob_id (find (\<lambda>b. truthy_str (iob_key_hash b) \<and> verifyPassword lib plaintext (the (iob_key_hash b)))
       (listIoBoxesByKeyPrefix db schema (take 8 plaintext)))"

definition verifyKioskKey :: "auth_lib \<Rightarrow> string \<Rightarrow> auth_db \<Rightarrow> (auth_error, device_identity option) result" where
  "verifyKioskKey lib plaintext db = verify_device_key (matching_kiosk lib db plaintext) plaintext db"

definition verifyIoBoxKey :: "auth_lib \<Rightarrow> string \<Rightarrow> auth_db \<Rightarrow> (auth_error, device_identity option) result" where
  "verifyIoBoxKey lib plaintext db = verify_device_key (matching_iobox lib db plaintext) plaintext db"


section \<open>The tables as a store\<close>

text \<open>
  What the operations rely on: writing the tables of one schema changes what is read
  through the names of that schema and through no other.
\<close>

locale keyed_store =
  fixes get :: "'s \<Rightarrow> 'k \<Rightarrow> 'v" and put :: "'k \<Rightarrow> 'v \<Rightarrow> 's \<Rightarrow> 's" and place :: "'s \<Rightarrow> 'k \<Rightarrow> 'p"
  assumes get_put: "get (put k v s) k' = (if place s k = place s k' then v else get s k')"
    and place_put: "place (put k v s) = place s"
begin

lemma get_put_same [simp]: "get (put k v s) k = v"
  by (simp add: get_put)

lemma get_modify:
  "get (put k (f (get s k)) s) k' = (if place s k = place s k' then f (get s k) else get s k')"
  by (simp add: get_put)

lemma read_modify:
  assumes "\<And>v. r (f v) = r v" and "\<And>k k'. place s k = place s k' \<Longrightarrow> get s k = get s k'"
  shows "r (get (put k (f (get s k)) s) k') = r (get s k')"
proof (cases "place s k = place s k'")
  case True
  then have "get s k = get s k'" by (rule assms(2))
  with True assms(1) show ?thesis by (simp add: get_put)
qed (simp add: get_put)

end

lemma visible_put [simp]: "visible_schema (put_tables k t db) k' = visible_schema db k'"
  by (auto simp: visible_schema_def put_tables_def get_set)

interpretation auth: keyed_store tables put_tables visible_schema
proof
  show "tables (put_tables k t db) k'
      = (if visible_schema db k = visible_schema db k' then t else tables db k')" for k t db k'
    unfolding tables_def visible_put by (simp add: put_tables_def get_set)
  show "visible_schema (put_tables k t db) = visible_schema db" for k t db
    by (rule ext) simp
qed

lemma tables_visible: "visible_schema db k = visible_schema db k' \<Longrightarrow> tables db k = tables db k'"
  by (simp add: tables_def)

lemma put_tables_frame [simp]: "tenants (put_tables k t db) = tenants db"
  "global_admins (put_tables k t db) = global_admins db" "demo_marker (put_tables k t db) = demo_marker db"
  by (simp_all add: put_tables_def)

lemmas read_users = auth.read_modify [where r = at_users, OF _ tables_visible]
lemmas read_sessions = auth.read_modify [where r = at_sessions, OF _ tables_visible]

section \<open>Sessions under the operations\<close>

text \<open>\<open>keeps_sessions\<close>: the tables of sessions, the schema names and the tenants are the same.\<close>

definition keeps_sessions :: "auth_db \<Rightarrow> auth_db \<Rightarrow> bool" where
  "keeps_sessions db db' \<longleftrightarrow>
     (\<forall>k. at_sessions (tables db' k) = at_sessions (tables db k))
     \<and> visible_schema db' = visible_schema db \<and> tenants db' = tenants db"

lemma keeps_sessions_refl [simp]: "keeps_sessions db db"
  by (simp add: keeps_sessions_def)

lemma keeps_sessions_trans: "keeps_sessions a b \<Longrightarrow> keeps_sessions b c \<Longrightarrow> keeps_sessions a c"
  by (simp add: keeps_sessions_def)

lemma put_keeps_sessions:
  assumes "at_sessions t = at_sessions (tables db k)"
  shows "keeps_sessions db (put_tables k t db)"
proof -
  have "at_sessions (tables (put_tables k t db) k') = at_sessions (tables db k')" for k'
    using assms tables_visible [of db k k'] by (cases "visible_schema db k = visible_schema db k'") (simp_all add: auth.get_put)
  then show ?thesis by (simp add: keeps_sessions_def auth.place_put)
qed

lemma updateUser_sessions: "keeps_sessions db (updateUser k uid patch db)"
  by (simp add: updateUser_def put_keeps_sessions map_user_def)

lemma insertAudit_sessions: "keeps_sessions db (insertAudit k e db)"
  by (simp add: insertAudit_def put_keeps_sessions)

lemma touchApiKey_sessions: "keeps_sessions db (touchApiKey k kid now ip db)"
  by (simp add: touchApiKey_def put_keeps_sessions)

lemma isSetupComplete_sessions: "keeps_sessions db (fst (isSetupComplete now k db))"
proof -
  have mark: "keeps_sessions d (markSetupComplete k d)" for d
    by (simp add: markSetupComplete_def put_keeps_sessions)
  have "keeps_sessions db (put_tables k ((tables db k)\<lparr>at_users := us\<rparr>) db)" for us
    by (simp add: put_keeps_sessions)
  then have "keeps_sessions db (markSetupComplete k (put_tables k ((tables db k)\<lparr>at_users := us\<rparr>) db))" for us
    by (rule keeps_sessions_trans) (rule mark)
  then show ?thesis by (simp add: isSetupComplete_def split: option.splits)
qed

lemma mirror_into_sessions [simp]: "at_sessions (mirror_into u t) = at_sessions t"
  by (simp add: mirror_into_def Let_def)

lemma fold_mirror_sessions [simp]: "at_sessions (fold mirror_into us t) = at_sessions t"
  by (induction us arbitrary: t) simp_all

lemma schema_write:
  assumes "map_of (auth_schemas db) k = Some t0"
  shows "db\<lparr>auth_schemas := AList.update k t (auth_schemas db)\<rparr> = put_tables k t db"
  using assms by (simp add: put_tables_def visible_schema_def)

lemma schema_read: "map_of (auth_schemas db) k = Some t0 \<Longrightarrow> tables db k = t0"
  by (simp add: tables_def visible_schema_def)

lemma mirrorPlatformAdmins_sessions:
  "mirrorPlatformAdmins ks uid db = Inr db' \<Longrightarrow> keeps_sessions db db'"
proof (induction ks uid db arbitrary: db' rule: mirrorPlatformAdmins.induct)
  case (2 k rest uid db)
  from 2 obtain t0 where t0: "assertSchema k" "map_of (auth_schemas db) k = Some t0"
    by (auto split: if_splits option.splits)
  define us where "us = filter (\<lambda>u. u_role u = RoleAdmin \<and> u_id u = uid) (at_users (tables db ''public''))"
  have "mirrorPlatformAdmins rest uid (put_tables k (fold mirror_into us t0) db) = Inr db'"
    using 2 t0 by (simp add: us_def schema_write)
  then have "keeps_sessions (put_tables k (fold mirror_into us t0) db) db'"
    using 2 t0 by (simp add: us_def schema_write)
  moreover have "keeps_sessions db (put_tables k (fold mirror_into us t0) db)"
    by (rule put_keeps_sessions) (simp add: schema_read [OF t0(2)])
  ultimately show ?case by (rule keeps_sessions_trans [rotated])
qed simp

lemma updatePlatformAdmin_sessions:
  assumes "updatePlatformAdmin uid patch db = Inr db'"
  shows "keeps_sessions db db'"
proof (cases "patch = []")
  case False
  let ?db1 = "put_tables ''public'' (map_user uid (patch_user patch) (tables db ''public'')) db"
  have "mirrorPlatformAdmins (tenant_schemas db) uid ?db1 = Inr db'"
    using assms False by (auto simp: updatePlatformAdmin_def split: option.splits)
  then have "keeps_sessions ?db1 db'" by (rule mirrorPlatformAdmins_sessions)
  moreover have "keeps_sessions db ?db1" by (rule put_keeps_sessions) (simp add: map_user_def)
  ultimately show ?thesis by (rule keeps_sessions_trans [rotated])
qed (use assms in \<open>simp add: updatePlatformAdmin_def\<close>)


section \<open>The life of a session\<close>

text \<open>
  The abstract view of a session: what a schema knows under an identifier, and the steps a
  session may take.  An ended session never comes back.
\<close>

datatype session_life = Absent | Waiting | Opened | Ended

datatype life_event = ByPassword | BySecondFactor | ByRevocation

inductive life_step :: "life_event \<Rightarrow> session_life \<Rightarrow> session_life \<Rightarrow> bool" where
  password_waiting: "life_step ByPassword Absent Waiting"
| password_opened: "life_step ByPassword Absent Opened"
| second_factor: "life_step BySecondFactor Waiting Opened"
| revoke_waiting: "life_step ByRevocation Waiting Ended"
| revoke_opened: "life_step ByRevocation Opened Ended"

inductive_simps life_step_password [simp]: "life_step ByPassword a b"
inductive_simps life_step_second [simp]: "life_step BySecondFactor a b"
inductive_simps life_step_revoke [simp]: "life_step ByRevocation a b"

definition life_of :: "session \<Rightarrow> session_life" where
  "life_of s = (if ss_revoked_at s \<noteq> None then Ended else if ss_totp_pending s then Waiting else Opened)"

definition life :: "auth_db \<Rightarrow> string \<Rightarrow> string \<Rightarrow> session_life" where
  "life db schema sid = (case getSessionById db schema sid of None \<Rightarrow> Absent | Some s \<Rightarrow> life_of s)"

definition same_life :: "auth_db \<Rightarrow> auth_db \<Rightarrow> bool" where
  "same_life db db' \<longleftrightarrow> (\<forall>k sid. life db' k sid = life db k sid)"

definition only_revokes :: "auth_db \<Rightarrow> auth_db \<Rightarrow> bool" where
  "only_revokes db db' \<longleftrightarrow>
     (\<forall>k sid. life db' k sid = life db k sid \<or> life_step ByRevocation (life db k sid) (life db' k sid))"

lemma find_map_session:
  assumes "\<And>s. ss_id (f s) = ss_id s"
  shows "find (\<lambda>s. ss_id s = sid) (map f ss) = map_option f (find (\<lambda>s. ss_id s = sid) ss)"
  using assms by (induction ss) auto

lemma get_map_sessions:
  assumes "\<And>s. ss_id (f s) = ss_id s"
  shows "getSessionById (map_sessions k f db) k' sid
    = (if visible_schema db k = visible_schema db k' then map_option f (getSessionById db k' sid)
       else getSessionById db k' sid)"
proof (cases "visible_schema db k = visible_schema db k'")
  case True
  then have "tables db k = tables db k'" by (rule tables_visible)
  with True show ?thesis
    by (simp add: map_sessions_def getSessionById_def auth.get_put find_map_session [OF assms])
qed (simp add: map_sessions_def getSessionById_def auth.get_put)

lemma getSessionById_id: "getSessionById db k sid = Some s \<Longrightarrow> ss_id s = sid"
  by (auto simp: getSessionById_def find_Some_iff)

lemma get_map_session:
  assumes "\<And>s. ss_id (f s) = ss_id s"
  shows "getSessionById (map_session k sid f db) k' sid'
    = (if visible_schema db k = visible_schema db k' \<and> sid' = sid
       then map_option f (getSessionById db k' sid') else getSessionById db k' sid')"
proof -
  have "map_option (\<lambda>s. if ss_id s = sid then f s else s) (getSessionById db k' sid')
      = (if sid' = sid then map_option f (getSessionById db k' sid') else getSessionById db k' sid')"
    using getSessionById_id [of db k' sid'] by (cases "getSessionById db k' sid'") auto
  then show ?thesis
    unfolding map_session_def by (cases "sid' = sid") (simp_all add: get_map_sessions assms)
qed

lemma keeps_sessions_get: "keeps_sessions db db' \<Longrightarrow> getSessionById db' k sid = getSessionById db k sid"
  by (simp add: keeps_sessions_def getSessionById_def)

lemma keeps_sessions_same: "keeps_sessions db db' \<Longrightarrow> same_life db db'"
  by (simp add: same_life_def life_def keeps_sessions_get)

lemma same_revokes: "same_life db db' \<Longrightarrow> only_revokes db db'"
  by (simp add: same_life_def only_revokes_def)

lemma only_revokes_trans: "only_revokes a b \<Longrightarrow> only_revokes b c \<Longrightarrow> only_revokes a c"
  unfolding only_revokes_def by (metis life_step_revoke session_life.distinct)

lemmas keeps_sessions_revokes = same_revokes [OF keeps_sessions_same]

lemma map_sessions_revokes:
  assumes id: "\<And>s. ss_id (f s) = ss_id s"
    and step: "\<And>s. life_of (f s) = life_of s \<or> life_step ByRevocation (life_of s) (life_of (f s))"
  shows "only_revokes db (map_sessions k f db)"
proof -
  have "life (map_sessions k f db) k' sid = life db k' sid
      \<or> life_step ByRevocation (life db k' sid) (life (map_sessions k f db) k' sid)" for k' sid
    using step unfolding life_def get_map_sessions [OF id]
    by (cases "getSessionById db k' sid") (auto simp del: life_step_revoke)
  then show ?thesis by (simp add: only_revokes_def)
qed

lemma touchSession_same: "same_life db (touchSession k sid now db)"
  unfolding same_life_def life_def touchSession_def
  by (auto simp: get_map_session life_of_def split: option.splits)

lemma revokeSession_revokes: "only_revokes db (revokeSession k sid now db)"
  unfolding revokeSession_def map_session_def
  by (rule map_sessions_revokes) (auto simp: life_of_def)

lemma revoke_where_revokes: "only_revokes db (map_sessions k (revoke_where p now) db)"
  by (rule map_sessions_revokes) (auto simp: revoke_where_def life_of_def)

lemma revokeAllSessionsForUser_revokes: "only_revokes db (revokeAllSessionsForUser k uid now db)"
  unfolding revokeAllSessionsForUser_def by (rule revoke_where_revokes)

lemma revoke_in_schemas_revokes:
  "revoke_in_schemas ks name now db = Inr db' \<Longrightarrow> only_revokes db db'"
proof (induction ks name now db rule: revoke_in_schemas.induct)
  case (2 k rest name now db)
  then obtain t where t: "assertSchema k" "map_of (auth_schemas db) k = Some t"
    by (auto split: if_splits option.splits)
  let ?p = "\<lambda>s. ss_user_id s \<in> set (map u_id (filter (\<lambda>u. u_username u = name) (at_users t)))"
  have "only_revokes (map_sessions k (revoke_where ?p now) db) db'"
    using 2 t by (simp add: Let_def)
  with revoke_where_revokes show ?case by (rule only_revokes_trans)
qed (simp add: same_revokes same_life_def)

lemma revokePlatformAdminSessions_revokes:
  assumes "revokePlatformAdminSessions uid now db = Inr db'"
  shows "only_revokes db db'"
proof (cases "platform_admin db uid")
  case (Some a)
  have "revoke_in_schemas (tenant_schemas db) (u_username a) now
      (revokeAllSessionsForUser ''public'' uid now db) = Inr db'"
    using assms Some by (simp add: revokePlatformAdminSessions_def)
  then show ?thesis
    by (rule only_revokes_trans [OF revokeAllSessionsForUser_revokes revoke_in_schemas_revokes])
qed (use assms in \<open>simp add: revokePlatformAdminSessions_def\<close>)

section \<open>Resolving a session\<close>

text \<open>What a resolved cookie guarantees.\<close>

definition good_session :: "auth_lib \<Rightarrow> auth_config \<Rightarrow> timestamp \<Rightarrow> string \<Rightarrow> auth_db \<Rightarrow> resolved \<Rightarrow> bool" where
  "good_session lib cfg now c db r \<longleftrightarrow>
     (case r of (s, u, t) \<Rightarrow>
        unsignCookie lib c = Some (tn_id t, ss_id s)
        \<and> getTenantById db (tn_id t) = Some t \<and> tn_is_active t
        \<and> getSessionById db (tn_schema_name t) (ss_id s) = Some s
        \<and> ss_revoked_at s = None \<and> now < ss_expires_at s
        \<and> now - ss_last_seen_at s \<le> sessionIdleSeconds cfg * 1000
        \<and> getUserById db (tn_schema_name t) (ss_user_id s) = Some u \<and> u_is_active u)"

lemma getTenantById_id: "getTenantById db tid = Some t \<Longrightarrow> tn_id t = tid"
  by (auto simp: getTenantById_def find_Some_iff)

lemma resolveSession_Some:
  assumes "resolveSession lib cfg now c db = Inr (db', Some (s, u, t))"
  shows "good_session lib cfg now c db (s, u, t)"
    and "db' = touchSession (tn_schema_name t) (ss_id s) now db" and "assertSchema (tn_schema_name t)"
proof -
  obtain tid sid where c: "unsignCookie lib c = Some (tid, sid)"
    using assms by (auto simp: resolveSession_def split: option.splits)
  have *: "getTenantById db tid = Some t" "tn_is_active t" "assertSchema (tn_schema_name t)"
    "getSessionById db (tn_schema_name t) sid = Some s" "ss_revoked_at s = None" "\<not> ss_expires_at s \<le> now"
    "\<not> now - ss_last_seen_at s > sessionIdleSeconds cfg * 1000"
    "getUserById db (tn_schema_name t) (ss_user_id s) = Some u" "u_is_active u"
    "db' = touchSession (tn_schema_name t) sid now db"
    using assms unfolding resolveSession_def c by (auto simp: Let_def split: option.splits if_splits)
  note ids = getTenantById_id [OF *(1)] getSessionById_id [OF *(4)]
  show "good_session lib cfg now c db (s, u, t)" using * c ids by (simp add: good_session_def)
  show "db' = touchSession (tn_schema_name t) (ss_id s) now db" using * ids by simp
  show "assertSchema (tn_schema_name t)" by (rule *(3))
qed

lemma resolveSession_None:
  assumes "resolveSession lib cfg now c db = Inr (db', None)"
  shows "only_revokes db db'"
proof -
  have "only_revokes db db" by (simp add: same_revokes same_life_def)
  with assms revokeSession_revokes show ?thesis
    unfolding resolveSession_def by (auto simp: Let_def split: option.splits if_splits)
qed


section \<open>Issued cookies\<close>

definition mac_ok :: "auth_lib \<Rightarrow> bool" where
  "mac_ok lib \<longleftrightarrow> (\<forall>p. byte_list (lib_mac lib p) \<and> length (lib_mac lib p) = 32)"

lemma hex_lower_no_dot: "list_all is_hex_lower s \<Longrightarrow> CHR ''.'' \<notin> set s"
  by (auto simp: list_all_iff is_hex_lower_def is_digit_def)

lemma tenant_id_no_dot: "is_tenant_id s \<Longrightarrow> CHR ''.'' \<notin> set s"
  by (auto simp: is_tenant_id_def list_all_iff is_alnum_def is_digit_def is_upper_def is_lower_def)

lemma unsign_sign:
  assumes lib: "mac_ok lib" and t: "is_tenant_id tid" and sid: "is_session_id sid"
  shows "unsignCookie lib (signCookie lib tid sid) = Some (tid, sid)"
proof -
  let ?mac = "cookieMac lib (tid @ ''.'' @ sid)"
  have mac: "list_all is_hex_lower ?mac" "?mac \<noteq> []"
    using lib hex_encode_lower [of "lib_mac lib (tid @ ''.'' @ sid)"]
      length_hex_encode [of "lib_mac lib (tid @ ''.'' @ sid)"]
    by (auto simp: mac_ok_def cookieMac_def simp del: length_hex_encode)
  have "signCookie lib tid sid = tid @ CHR ''.'' # (sid @ CHR ''.'' # ?mac)"
    by (simp add: signCookie_def)
  then have "split_on CHR ''.'' (signCookie lib tid sid) = [tid, sid, ?mac]"
    using tenant_id_no_dot [OF t] hex_lower_no_dot [OF mac(1)] hex_lower_no_dot [of sid] sid
    by (simp add: split_on_append split_on_no_sep is_session_id_def)
  then show ?thesis using t sid mac(2) by (simp add: unsignCookie_def)
qed

lemma session_id_hex: "byte_list bs \<Longrightarrow> length bs = 32 \<Longrightarrow> is_session_id (hex_encode bs)"
  by (simp add: is_session_id_def hex_encode_lower)

lemma insertSession_Inr:
  assumes "insertSession k s db = Inr (db', s')"
  shows "s' = s" and "getSessionById db k (ss_id s) = None"
    and "getSessionById db' k' sid = (if visible_schema db k = visible_schema db k' \<and> sid = ss_id s
           then Some s else getSessionById db k' sid)"
    and "visible_schema db' = visible_schema db" and "tenants db' = tenants db"
    and "at_users (tables db' k') = at_users (tables db k')"
proof -
  have none: "getSessionById db k (ss_id s) = None" and s': "s' = s"
    and db': "db' = put_tables k ((tables db k)\<lparr>at_sessions := at_sessions (tables db k) @ [s]\<rparr>) db"
    using assms by (auto simp: insertSession_def split: if_splits)
  show "s' = s" "getSessionById db k (ss_id s) = None" by (fact s', fact none)
  show "visible_schema db' = visible_schema db" "tenants db' = tenants db"
    by (simp_all add: db' auth.place_put)
  have app: "find (\<lambda>x. ss_id x = sid) (xs @ [s])
      = (case find (\<lambda>x. ss_id x = sid) xs of None \<Rightarrow> if ss_id s = sid then Some s else None | Some x \<Rightarrow> Some x)" for xs
    by (induction xs) auto
  show "getSessionById db' k' sid = (if visible_schema db k = visible_schema db k' \<and> sid = ss_id s
           then Some s else getSessionById db k' sid)"
  proof (cases "visible_schema db k = visible_schema db k'")
    case True
    then have "tables db k = tables db k'" by (rule tables_visible)
    with True none show ?thesis
      by (auto simp: getSessionById_def db' auth.get_put app split: option.splits)
  qed (simp add: getSessionById_def db' auth.get_put)
  show "at_users (tables db' k') = at_users (tables db k')"
    using tables_visible [of db k k'] by (simp add: db' auth.get_put)
qed

lemma createSession_made:
  assumes "createSession lib cfg now idBytes csrf k u tid agent ip pending db = Inr (db1, s, c)"
  shows "insertSession k s db = Inr (db1, s)" and "ss_id s = hex_encode idBytes" and "ss_user_id s = u_id u"
    and "ss_revoked_at s = None" and "ss_expires_at s = now + sessionMaxSeconds cfg * 1000"
    and "ss_last_seen_at s = now" and "life_of s = (if pending then Waiting else Opened)"
    and "c = signCookie lib tid (ss_id s)"
  using assms
  by (auto simp: createSession_def Let_def bind_result_eq_Inr insertSession_def life_of_def split: if_splits)

section \<open>Schema names\<close>

definition ident_char :: "char \<Rightarrow> bool" where
  "ident_char c \<longleftrightarrow> is_alnum c \<or> c = CHR ''_''"

lemma assertSchema_tenant: "list_all ident_char s \<Longrightarrow> assertSchema (''tenant_'' @ s)"
  by (auto simp: assertSchema_def ident_char_def is_lower_def is_alnum_def list_all_iff)

lemma tenantSchemaName_shape:
  assumes "byte_list (sha slug)" and "tenantSchemaName sha slug = Some schema"
  shows "assertSchema schema \<and> length schema \<le> 63"
proof -
  consider "schema = ''public''"
    | "schema = ''tenant_'' @ slug" "list_all (\<lambda>c. is_lower c \<or> is_digit c \<or> c = CHR ''_'') slug" "length slug \<le> 56"
    | "schema = legacyTenantSchemaName sha slug"
    using assms(2) by (auto simp: tenantSchemaName_def split: if_splits)
  then show ?thesis
  proof cases
    case 1
    then show ?thesis by (simp add: assertSchema_def is_lower_def is_alnum_def)
  next
    case 2
    then have "list_all ident_char slug" by (auto simp: list_all_iff ident_char_def is_alnum_def)
    from assertSchema_tenant [OF this] 2 show ?thesis by simp
  next
    case 3
    let ?h = "take 48 (hex_encode (sha slug))"
    have "list_all is_hex_lower ?h"
      using hex_encode_lower [OF assms(1)] set_take_subset [of 48 "hex_encode (sha slug)"]
      by (auto simp: list_all_iff)
    moreover have "is_hex_lower c \<Longrightarrow> ident_char c" for c
      by (auto simp: is_hex_lower_def ident_char_def is_alnum_def is_lower_def)
    ultimately have "list_all ident_char ?h" by (auto simp: list_all_iff)
    from assertSchema_tenant [OF this] 3 show ?thesis by (simp add: legacyTenantSchemaName_def)
  qed
qed

lemma tenantSchemaName_public:
  "tenantSchemaName sha slug = Some schema \<Longrightarrow> schema = ''public'' \<longleftrightarrow> slug = ''default''"
  by (auto simp: tenantSchemaName_def legacyTenantSchemaName_def split: if_splits)

lemma tenantSchemaName_plain:
  assumes "tenantSchemaName sha slug = Some schema" and "slug \<noteq> ''default''"
    and "length slug \<le> 56" and "CHR ''-'' \<notin> set slug"
  shows "schema = ''tenant_'' @ slug"
proof -
  have "valid_slug slug" using assms(1) by (auto simp: tenantSchemaName_def split: if_splits)
  then have "list_all (\<lambda>c. is_lower c \<or> is_digit c \<or> c = CHR ''_'') slug"
    using assms(4) by (auto simp: valid_slug_def is_slug_char_def list_all_iff split: list.splits)
  then show ?thesis using assms by (auto simp: tenantSchemaName_def split: if_splits)
qed

section \<open>Properties\<close>

text \<open>
  The cookie of a new session is good: until the idle or the absolute limit is reached it
  resolves to that session, its user and its tenant, and each use restarts the idle clock.
  Once the session is revoked the same cookie resolves to nothing.
\<close>

theorem issued_session_resolves:
  assumes lib: "mac_ok lib" and idb: "byte_list idBytes" "length idBytes = 32"
    and t: "getTenantById db tid = Some t" "tn_is_active t" "is_tenant_id tid" "assertSchema (tn_schema_name t)"
    and schema: "visible_schema db k = visible_schema db (tn_schema_name t)"
    and u: "getUserById db k (u_id u) = Some u" "u_is_active u"
    and new: "createSession lib cfg now idBytes csrf k u tid agent ip pending db = Inr (db1, s, c)"
    and time: "now' < now + sessionMaxSeconds cfg * 1000" "now' - now \<le> sessionIdleSeconds cfg * 1000"
  shows "resolveSession lib cfg now' c db1 = Inr (touchSession (tn_schema_name t) (ss_id s) now' db1, Some (s, u, t))
    \<and> resolveSession lib cfg now'' c (revokeSession (tn_schema_name t) (ss_id s) r db1)
      = Inr (revokeSession (tn_schema_name t) (ss_id s) r db1, None)"
proof
  note made = createSession_made [OF new]
  note i = insertSession_Inr [OF made(1)]
  have "unsignCookie lib c = Some (tid, ss_id s)"
    unfolding made(8) by (rule unsign_sign [OF lib t(3)]) (simp add: made(2) session_id_hex idb)
  moreover have "getTenantById db1 tid = Some t" using t(1) i(5) by (simp add: getTenantById_def)
  moreover have got: "getSessionById db1 (tn_schema_name t) (ss_id s) = Some s" using i(3) schema by simp
  moreover have "getUserById db1 (tn_schema_name t) (ss_user_id s) = Some u"
    using u(1) made(3) i(6) tables_visible [OF schema] by (simp add: getUserById_def)
  ultimately show "resolveSession lib cfg now' c db1
      = Inr (touchSession (tn_schema_name t) (ss_id s) now' db1, Some (s, u, t))"
    using t u time made(4-6) by (simp add: resolveSession_def)
  let ?db2 = "revokeSession (tn_schema_name t) (ss_id s) r db1"
  have "getSessionById ?db2 (tn_schema_name t) (ss_id s) = Some (s\<lparr>ss_revoked_at := Some r\<rparr>)"
    by (simp add: revokeSession_def get_map_session got)
  moreover have "getTenantById ?db2 tid = Some t"
    using \<open>getTenantById db1 tid = Some t\<close>
    by (simp add: getTenantById_def revokeSession_def map_session_def map_sessions_def)
  ultimately show "resolveSession lib cfg now'' c ?db2 = Inr (?db2, None)"
    using \<open>unsignCookie lib c = Some (tid, ss_id s)\<close> t by (simp add: resolveSession_def)
qed

text \<open>
  (C35) The schema of a tenant is a safe identifier: for every valid slug it passes the check
  that guards the search path and fits in 63 bytes, only the slug \<^verbatim>\<open>default\<close> gets the public
  schema, and two slugs of at most 56 characters without a hyphen share a schema only when
  they are equal.
\<close>

theorem tenant_schema_identifier:
  assumes digest: "\<forall>x. byte_list (sha x)" and name: "tenantSchemaName sha slug = Some schema"
  shows "assertSchema schema \<and> length schema \<le> 63 \<and> (schema = ''public'' \<longleftrightarrow> slug = ''default'')
    \<and> (\<forall>slug'. tenantSchemaName sha slug' = Some schema \<and> length slug \<le> 56 \<and> length slug' \<le> 56
          \<and> CHR ''-'' \<notin> set slug \<and> CHR ''-'' \<notin> set slug' \<longrightarrow> slug' = slug)"
proof -
  have shape: "assertSchema schema \<and> length schema \<le> 63"
    using tenantSchemaName_shape [OF _ name] digest by simp
  have public: "schema = ''public'' \<longleftrightarrow> slug = ''default''" by (rule tenantSchemaName_public [OF name])
  have "slug' = slug" if o: "tenantSchemaName sha slug' = Some schema" "length slug \<le> 56" "length slug' \<le> 56"
    "CHR ''-'' \<notin> set slug" "CHR ''-'' \<notin> set slug'" for slug'
  proof (cases "slug = ''default''")
    case True
    with public tenantSchemaName_public [OF o(1)] show ?thesis by simp
  next
    case False
    with public tenantSchemaName_public [OF o(1)] have "slug' \<noteq> ''default''" by simp
    with False o name show ?thesis
      using tenantSchemaName_plain [OF name] tenantSchemaName_plain [OF o(1)] by simp
  qed
  with shape public show ?thesis by blast
qed


section \<open>Witnesses\<close>

text \<open>A toy library: hashing prefixes the password, the code is always the same.\<close>

definition demo_lib :: auth_lib where
  "demo_lib = \<lparr>lib_verify = (\<lambda>plain hash. hash = ''h:'' @ plain), lib_hash = (\<lambda>salt plain. ''h:'' @ plain),
     lib_mac = (\<lambda>p. replicate 32 (length p mod 256)), lib_sha = map of_char,
     lib_totp = (\<lambda>now secret code. code = ''123456''), lib_gcm = demo_gcm, lib_ungcm = demo_ungcm,
     lib_hkdf = (\<lambda>k i. k), lib_server_key = replicate 32 7, lib_url_host = (\<lambda>s. Some s),
     lib_login_body = (\<lambda>b. case (json_get b ''username'', json_get b ''password'') of
                             (JStr a, JStr p) \<Rightarrow> Some (a, p) | _ \<Rightarrow> None),
     lib_totp_body = (\<lambda>b. case json_get b ''code'' of JStr c \<Rightarrow> Some c | _ \<Rightarrow> None),
     lib_parse_codes = (\<lambda>s. None)\<rparr>"

definition default_tenant_row :: tenant where
  "default_tenant_row = \<lparr>tn_id = ''t1'', tn_name = ''Default'', tn_slug = ''default'', tn_schema_name = ''public'',
     tn_is_active = True, tn_max_kiosks = None, tn_max_cameras = None, tn_max_users = None, tn_created_at = 0\<rparr>"

definition demo_operator :: user where
  "demo_operator = \<lparr>u_id = ''u1'', u_username = ''olga'', u_password_hash = ''h:secret'', u_role = RoleOperator,
     u_is_active = True, u_totp_enabled = False, u_totp_secret_encrypted = None, u_recovery_codes_hashed = [],
     u_must_change_password = False, u_failed_login_count = 0, u_locked_until = None, u_last_login_at = None,
     u_created_at = 0\<rparr>"

definition demo_auth_db :: auth_db where
  "demo_auth_db = \<lparr>tenants = [default_tenant_row], global_admins = [], demo_marker = JUndefined,
     auth_schemas = [(''public'', empty_tables\<lparr>at_users := [demo_operator], at_setup_complete := True\<rparr>)]\<rparr>"

definition demo_auth_config :: auth_config where
  "demo_auth_config = \<lparr>sessionIdleSeconds = 600, sessionMaxSeconds = 3600, loginLockoutThreshold = 3,
     loginLockoutSeconds = 900\<rparr>"

lemma demo_mac_ok: "mac_ok demo_lib"
  by (simp add: mac_ok_def demo_lib_def)

lemma demo_visible: "visible_schema demo_auth_db ''public'' = ''public''"
  by (simp add: visible_schema_def)

lemma demo_tenant_by_id: "getTenantById demo_auth_db ''t1'' = Some default_tenant_row"
  by (simp add: getTenantById_def demo_auth_db_def default_tenant_row_def)

lemma demo_user_by_id: "getUserById demo_auth_db ''public'' (u_id demo_operator) = Some demo_operator"
  by (simp add: getUserById_def demo_auth_db_def tables_def visible_schema_def demo_operator_def)

theorem issued_session_resolves_witness:
  "\<exists>db1 s c. createSession demo_lib demo_auth_config 1000 (replicate 32 171) (replicate 32 5) ''public'' demo_operator
       ''t1'' None None False demo_auth_db = Inr (db1, s, c)
     \<and> resolveSession demo_lib demo_auth_config 2000 c db1
         = Inr (touchSession ''public'' (ss_id s) 2000 db1, Some (s, demo_operator, default_tenant_row))"
proof -
  have none: "getSessionById demo_auth_db ''public'' sid = None" for sid
    by (simp add: getSessionById_def demo_auth_db_def tables_def visible_schema_def empty_tables_def)
  have "\<exists>db1 s c. createSession demo_lib demo_auth_config 1000 (replicate 32 171) (replicate 32 5) ''public''
      demo_operator ''t1'' None None False demo_auth_db = Inr (db1, s, c)"
    by (simp add: createSession_def insertSession_def none demo_user_by_id Let_def)
  then obtain db1 s c where c: "createSession demo_lib demo_auth_config 1000 (replicate 32 171) (replicate 32 5) ''public''
      demo_operator ''t1'' None None False demo_auth_db = Inr (db1, s, c)"
    by blast
  have sch: "tn_schema_name default_tenant_row = ''public''" by (simp add: default_tenant_row_def)
  have "resolveSession demo_lib demo_auth_config 2000 c db1
      = Inr (touchSession (tn_schema_name default_tenant_row) (ss_id s) 2000 db1, Some (s, demo_operator, default_tenant_row))"
    by (rule conjunct1 [OF issued_session_resolves [OF demo_mac_ok _ _ demo_tenant_by_id _ _ _ _ demo_user_by_id _ c]])
       (simp_all add: default_tenant_row_def is_tenant_id_def is_alnum_def is_digit_def is_lower_def
         assertSchema_def demo_operator_def demo_auth_config_def)
  with c show ?thesis by (simp add: sch)
qed

theorem tenant_schema_identifier_witness:
  "tenantSchemaName (\<lambda>x. map of_char (take 32 (x @ replicate 32 CHR ''0''))) ''acme-corp''
     = Some ''tenant_61636d652d636f7270303030303030303030303030303030''
   \<and> assertSchema ''tenant_61636d652d636f7270303030303030303030303030303030''"
proof -
  let ?sha = "\<lambda>x. map of_char (take 32 (x @ replicate 32 CHR ''0'')) :: nat list"
  have n: "tenantSchemaName ?sha ''acme-corp'' = Some ''tenant_61636d652d636f7270303030303030303030303030303030''"
    by code_simp
  moreover have "\<forall>x. byte_list (?sha x)" by auto
  ultimately show ?thesis using tenant_schema_identifier [of ?sha] by blast
qed

end
