(* ===== verification/BF_Gate.thy ===== *)
theory BF_Gate
  imports BF_Auth BF_RateLimit
begin

text \<open>
  The request path of the admin service: the cross-site checks of \<^verbatim>\<open>shared/csrf.ts\<close>, tenant
  resolution and the authentication gate of \<^verbatim>\<open>service-admin-http/middleware.ts\<close>, the login,
  second-factor, recovery and logout handlers of \<^verbatim>\<open>routes-auth.ts\<close> and the account handlers
  of \<^verbatim>\<open>routes-account.ts\<close>.  Header names are lower case; cookies are parsed.
\<close>

section \<open>Requests and responses\<close>

record request =
  rq_method :: string
  rq_path :: string
  rq_headers :: "(string, string) jsmap"
  rq_cookies :: "(string, string) jsmap"
  rq_body :: json

abbreviation header :: "request \<Rightarrow> string \<Rightarrow> string option" where
  "header rq name \<equiv> map_of (rq_headers rq) name"

abbreviation cookie :: "request \<Rightarrow> string \<Rightarrow> string option" where
  "cookie rq name \<equiv> map_of (rq_cookies rq) name"

record gate_context =
  gx_user :: "user option"
  gx_session :: "session option"
  gx_apiKeyPrefix :: "string option"
  gx_tenant :: "tenant option"
  gx_originTenant :: "tenant option"
  gx_tenantHeaderError :: "string option"

definition empty_context :: gate_context where
  "empty_context = \<lparr>gx_user = None, gx_session = None, gx_apiKeyPrefix = None, gx_tenant = None,
                    gx_originTenant = None, gx_tenantHeaderError = None\<rparr>"

text \<open>
  A page is its template and error text; \<open>Delegated\<close> hands the request to a route of another
  module.
\<close>

datatype response =
    HtmlPage string string
  | Plain nat string
  | Status nat
  | Redirect string
  | RedirectWithCookie string "(string \<times> string) list"
  | RedirectClearCookie string "string list"
  | Delegated gate_context

record gate_config =
  gc_cookieName :: string
  gc_enableDemoTenant :: bool
  gc_firmwareImportApiKey :: "string option"
  gc_otaImportApiKey :: "string option"
  gc_auth :: auth_config

section \<open>Cross-site checks\<close>

definition requestOriginIsValid :: "auth_lib \<Rightarrow> request \<Rightarrow> bool" where
  "requestOriginIsValid lib rq \<longleftrightarrow>
     header rq ''sec-fetch-site'' \<noteq> Some ''cross-site''
     \<and> (let origin = header rq ''origin'';
            host = (case header rq ''x-forwarded-host'' of Some h \<Rightarrow> Some h | None \<Rightarrow> header rq ''host'')
        in truthy_str origin \<and> truthy_str host \<longrightarrow> lib_url_host lib (the origin) = host)"

definition csrfRequestIsValid :: "auth_lib \<Rightarrow> request \<Rightarrow> session \<Rightarrow> bool" where
  "csrfRequestIsValid lib rq s \<longleftrightarrow>
     requestOriginIsValid lib rq
     \<and> (let supplied = nullish (cookie rq ''betterframe_csrf'') []
        in supplied \<noteq> [] \<and> lib_sha lib supplied = lib_sha lib (ss_csrf_token s))"

section \<open>Operator permissions\<close>

definition isUnsafeMethod :: "string \<Rightarrow> bool" where
  "isUnsafeMethod method \<longleftrightarrow> js_upper method \<notin> {''GET'', ''HEAD'', ''OPTIONS''}"

text \<open>
  The anchored path expressions, as segments: a fixed one, \<^verbatim>\<open>[^/]+\<close>, and a tail
  \<^verbatim>\<open>(?:/.*)?\<close>, which holds no line break.
\<close>

datatype segment = Fixed string | OneOf "string list" | AnySegment | AnyTail

definition no_line_break :: "string \<Rightarrow> bool" where
  "no_line_break s \<longleftrightarrow> list_all (\<lambda>c. (of_char c :: nat) \<noteq> 10 \<and> (of_char c :: nat) \<noteq> 13) s"

fun path_matches :: "segment list \<Rightarrow> string list \<Rightarrow> bool" where
  "path_matches [] ps = (ps = [])"
| "path_matches (AnyTail # _) ps = list_all no_line_break ps"
| "path_matches (Fixed s # es) (p # ps) = (p = s \<and> path_matches es ps)"
| "path_matches (OneOf ss # es) (p # ps) = (p \<in> set ss \<and> path_matches es ps)"
| "path_matches (AnySegment # es) (p # ps) = (p \<noteq> [] \<and> path_matches es ps)"
| "path_matches _ [] = False"

definition OPERATOR_MUTATIONS :: "segment list list" where
  "OPERATOR_MUTATIONS =
     [[Fixed '''', Fixed ''api'', Fixed ''displays'', AnySegment, OneOf [''focus'', ''clear'', ''restore'']],
      [Fixed '''', Fixed ''admin'', Fixed ''displays'', AnySegment, Fixed ''layout''],
      [Fixed '''', Fixed ''admin'', Fixed ''displays'', AnySegment, Fixed ''layout'', AnySegment],
      [Fixed '''', Fixed ''admin'', Fixed ''displays'', AnySegment, Fixed ''power'', OneOf [''standby'', ''wake'']],
      [Fixed '''', Fixed ''admin'', Fixed ''kiosks'', AnySegment, Fixed ''power'', OneOf [''standby'', ''wake'']],
      [Fixed '''', Fixed ''admin'', Fixed ''kiosks'', AnySegment, Fixed ''volume''],
      [Fixed '''', Fixed ''admin'', Fixed ''account'', Fixed ''password''],
      [Fixed '''', Fixed ''admin'', Fixed ''account'', Fixed ''totp'', OneOf [''begin'', ''confirm'', ''disable'']]]"

definition OPERATOR_READS :: "segment list list" where
  "OPERATOR_READS =
     [[Fixed '''', Fixed ''admin'', Fixed ''logs''],
      [Fixed '''', Fixed ''admin'', Fixed ''logs'', AnySegment],
      [Fixed '''', Fixed ''admin''],
      [Fixed '''', Fixed ''admin'', Fixed ''''],
      [Fixed '''', Fixed ''admin'', Fixed ''account''],
      [Fixed '''', Fixed ''admin'',
       OneOf [''cameras'', ''displays'', ''entities'', ''health'', ''iobox'', ''kiosks'', ''labels'', ''layouts''], AnyTail],
      [Fixed '''', Fixed ''api'', Fixed ''admin'',
       OneOf [''_check'', ''cameras'', ''displays'', ''entities'', ''kiosks'', ''layouts''], AnyTail]]"

text \<open>The unanchored \<^verbatim>\<open>/kiosks/[^/]+/(?:logs|terminal)$\<close>: a suffix that follows a slash.\<close>

definition is_debug_path :: "string list \<Rightarrow> bool" where
  "is_debug_path ps =
     (case rev ps of
        l # k # m # _ # _ \<Rightarrow> l \<in> {''logs'', ''terminal''} \<and> k \<noteq> [] \<and> m = ''kiosks''
      | _ \<Rightarrow> False)"

definition operatorMayAccess :: "string \<Rightarrow> string \<Rightarrow> bool" where
  "operatorMayAccess path method =
     (let ps = split_on CHR ''/'' path;
          patterns = (if isUnsafeMethod method then OPERATOR_MUTATIONS else OPERATOR_READS)
      in \<not> is_debug_path ps \<and> list_ex (\<lambda>p. path_matches p ps) patterns)"

section \<open>Tenant resolution\<close>

definition DEMO_SLUG :: string where
  "DEMO_SLUG = ''demo''"

definition demoTenant :: "auth_db \<Rightarrow> tenant option" where
  "demoTenant db = (case demo_marker db of JStr tid \<Rightarrow> getTenantById db tid | _ \<Rightarrow> None)"

definition demoTenantHidden :: "auth_db \<Rightarrow> bool \<Rightarrow> tenant \<Rightarrow> bool" where
  "demoTenantHidden db enabled t \<longleftrightarrow>
     \<not> (enabled \<or> tn_slug t \<noteq> DEMO_SLUG) \<and> map_option tn_id (demoTenant db) = Some (tn_id t)"

definition untenanted_path :: "string \<Rightarrow> bool" where
  "untenanted_path path \<longleftrightarrow>
     prefix ''/static/'' path \<or> path \<in> {''/healthz'', ''/readyz'', ''/version''}"

definition tenant_usable :: "gate_config \<Rightarrow> auth_db \<Rightarrow> tenant \<Rightarrow> bool" where
  "tenant_usable cfg db t \<longleftrightarrow> tn_is_active t \<and> \<not> demoTenantHidden db (gc_enableDemoTenant cfg) t"

definition default_tenant :: "auth_db \<Rightarrow> gate_context \<Rightarrow> string \<times> gate_context" where
  "default_tenant db cx =
     (case getTenantBySlug db ''default'' of
        Some t \<Rightarrow> (tn_schema_name t, cx\<lparr>gx_tenant := Some t\<rparr>)
      | None \<Rightarrow> (''public'', cx))"

definition cookie_tenant ::
  "gate_config \<Rightarrow> request \<Rightarrow> auth_db \<Rightarrow> bool \<Rightarrow> gate_context \<Rightarrow> string \<times> gate_context" where
  "cookie_tenant cfg rq db loginRequest cx =
     (let chosen = cookie rq ''bf_tenant'';
          tenantSlug = (if loginRequest \<or> \<not> truthy_str chosen then ''default'' else the chosen)
      in case getTenantBySlug db tenantSlug of
           Some t \<Rightarrow>
             if tenant_usable cfg db t then (tn_schema_name t, cx\<lparr>gx_tenant := Some t\<rparr>)
             else default_tenant db cx
         | None \<Rightarrow> default_tenant db cx)"

text \<open>The schema the request runs in and the context the first middleware leaves.\<close>

definition resolve_tenant :: "gate_config \<Rightarrow> request \<Rightarrow> auth_db \<Rightarrow> string \<times> gate_context" where
  "resolve_tenant cfg rq db =
     (let path = rq_path rq;
          loginRequest = (path = ''/auth/login'');
          headerSlug = (if loginRequest then []
                        else js_lower (js_trim (nullish (header rq ''x-betterframe-tenant'') [])));
          headerTenant = (if headerSlug = [] then None else getTenantBySlug db headerSlug)
      in if untenanted_path path then (''public'', empty_context)
         else case headerTenant of
             Some t \<Rightarrow>
               if tenant_usable cfg db t then (tn_schema_name t, empty_context\<lparr>gx_tenant := Some t\<rparr>)
               else cookie_tenant cfg rq db loginRequest (empty_context\<lparr>gx_tenantHeaderError := Some ''inactive tenant''\<rparr>)
           | None \<Rightarrow>
               cookie_tenant cfg rq db loginRequest
                 (if headerSlug = [] then empty_context
                  else empty_context\<lparr>gx_tenantHeaderError := Some ''unknown tenant''\<rparr>))"


section \<open>The authentication gate\<close>

definition syntheticApiKeyUser :: "string \<Rightarrow> user" where
  "syntheticApiKeyUser keyPrefix =
     \<lparr>u_id = [], u_username = ''api:'' @ keyPrefix, u_password_hash = [], u_role = RoleAdmin,
      u_is_active = True, u_totp_enabled = False, u_totp_secret_encrypted = None,
      u_recovery_codes_hashed = [], u_must_change_password = False, u_failed_login_count = 0,
      u_locked_until = None, u_last_login_at = None, u_created_at = 0\<rparr>"

definition tokenMatchesExpected :: "auth_lib \<Rightarrow> string \<Rightarrow> string option \<Rightarrow> bool" where
  "tokenMatchesExpected lib token expected \<longleftrightarrow>
     (case expected of
        None \<Rightarrow> False
      | Some e \<Rightarrow> 32 \<le> length e \<and> 32 \<le> length token \<and> lib_sha lib token = lib_sha lib e)"

definition open_path :: "string \<Rightarrow> bool" where
  "open_path path \<longleftrightarrow>
     path \<in> {''/setup'', ''/healthz'', ''/readyz'', ''/version'', ''/''} \<or> prefix ''/static/'' path"

definition protected_path :: "string \<Rightarrow> bool" where
  "protected_path path \<longleftrightarrow>
     prefix ''/admin'' path \<or> prefix ''/api/admin'' path \<or> prefix ''/api/displays/'' path"

definition import_path :: "string \<Rightarrow> bool" where
  "import_path path \<longleftrightarrow>
     path \<in> {''/api/admin/firmware/import'', ''/api/admin/iobox/firmware/import'', ''/api/admin/os/import''}"

definition import_label :: "string \<Rightarrow> string" where
  "import_label path =
     (if path = ''/api/admin/os/import'' then ''ota-import''
      else if sublist ''/iobox/'' path then ''iobox-fw-import'' else ''fw-import'')"

datatype gate_result = Next gate_context | Reply response

definition login_redirect :: "string \<Rightarrow> response" where
  "login_redirect path = (if path = ''/api/admin/_check'' then Status 401 else Redirect ''/auth/login'')"

definition bearer_gate ::
  "auth_lib \<Rightarrow> gate_config \<Rightarrow> timestamp \<Rightarrow> string \<Rightarrow> gate_context \<Rightarrow> request \<Rightarrow> string \<Rightarrow> auth_db
   \<Rightarrow> auth_db \<times> gate_result" where
  "bearer_gate lib cfg now schema cx rq token db =
     (let path = rq_path rq in
      case gx_tenantHeaderError cx of
        Some msg \<Rightarrow> (db, Reply (Plain 401 msg))
      | None \<Rightarrow>
          if import_path path
             \<and> (tokenMatchesExpected lib token (gc_firmwareImportApiKey cfg)
                \<or> tokenMatchesExpected lib token (gc_otaImportApiKey cfg))
          then (db, Next (cx\<lparr>gx_user := Some (syntheticApiKeyUser (import_label path)),
                             gx_apiKeyPrefix := Some (import_label path)\<rparr>))
          else
            let (db1, key) = verifyApiKey lib now schema token (header rq ''x-real-ip'') db
            in case key of
                 Some k \<Rightarrow>
                   if ScopeAdmin \<in> set (ak_scopes k)
                   then (db1, Next (cx\<lparr>gx_user := Some (syntheticApiKeyUser (ak_key_prefix k)),
                                       gx_apiKeyPrefix := Some (ak_key_prefix k)\<rparr>))
                   else (db1, Reply (Status 401))
               | None \<Rightarrow> (db1, Reply (Status 401)))"

text \<open>The checks on a resolved session, in the order of the code.\<close>

definition session_gate ::
  "auth_lib \<Rightarrow> gate_config \<Rightarrow> timestamp \<Rightarrow> gate_context \<Rightarrow> request \<Rightarrow> resolved \<Rightarrow> auth_db
   \<Rightarrow> auth_db \<times> (auth_error, gate_result) result" where
  "session_gate lib cfg now cx rq r db =
     (case r of (s, u, t) \<Rightarrow>
      let path = rq_path rq;
          authCheck = (path = ''/api/admin/_check'');
          platformAdmin = (u_role u = RoleAdmin \<and> tn_slug t = ''default'');
          target = nullish (gx_tenant cx) t
      in if u_role u = RoleAdmin \<and> tn_slug t \<noteq> ''default''
         then (revokeSession (tn_schema_name t) (ss_id s) now db,
               Inr (Reply (if authCheck then Status 401
                           else RedirectClearCookie ''/auth/login''
                                  [gc_cookieName cfg, ''betterframe_csrf'', ''bf_tenant''])))
         else if ss_totp_pending s
         then (db, Inr (Reply (if authCheck then Status 401 else Redirect ''/auth/totp'')))
         else if tn_id target \<noteq> tn_id t \<and> \<not> platformAdmin
         then (db, Inr (Reply (Plain 403 ''tenant access denied'')))
         else if prefix ''/admin/tenants'' path \<and> \<not> platformAdmin
         then (db, Inr (Reply (Plain 403 ''platform administrator required'')))
         else if u_role u = RoleOperator \<and> \<not> operatorMayAccess path (rq_method rq)
         then (db, Inr (Reply (Plain 403 ''administrator required'')))
         else if isUnsafeMethod (rq_method rq) \<and> \<not> csrfRequestIsValid lib rq s
         then (db, Inr (Reply (Plain 403 ''invalid CSRF token'')))
         else
           let foreign = (platformAdmin \<and> tn_id target \<noteq> tn_id t)
           in if foreign \<and> \<not> assertSchema (tn_schema_name target)
              then (db, Inl (InvalidSchemaName (tn_schema_name target)))
              else let tenantUser = (if foreign then getUserByUsername db (tn_schema_name target) (u_username u) else None)
                   in (db, Inr (Next (cx\<lparr>gx_user := Some (nullish tenantUser u), gx_session := Some s,
                                         gx_originTenant := Some t, gx_tenant := Some target\<rparr>))))"

definition cookie_gate ::
  "auth_lib \<Rightarrow> gate_config \<Rightarrow> timestamp \<Rightarrow> gate_context \<Rightarrow> request \<Rightarrow> auth_db
   \<Rightarrow> auth_db \<times> (auth_error, gate_result) result" where
  "cookie_gate lib cfg now cx rq db =
     (let c = cookie rq (gc_cookieName cfg)
      in if \<not> truthy_str c then (db, Inr (Reply (login_redirect (rq_path rq))))
         else case resolveSession lib (gc_auth cfg) now (the c) db of
             Inl e \<Rightarrow> (db, Inl e)
           | Inr (db1, None) \<Rightarrow> (db1, Inr (Reply (login_redirect (rq_path rq))))
           | Inr (db1, Some r) \<Rightarrow> session_gate lib cfg now cx rq r db1)"

definition auth_gate ::
  "auth_lib \<Rightarrow> gate_config \<Rightarrow> timestamp \<Rightarrow> string \<Rightarrow> gate_context \<Rightarrow> request \<Rightarrow> auth_db
   \<Rightarrow> auth_db \<times> (auth_error, gate_result) result" where
  "auth_gate lib cfg now schema cx rq db =
     (let path = rq_path rq in
      if open_path path then (db, Inr (Next cx))
      else
        let (db1, complete) = isSetupComplete now schema db
        in if \<not> complete \<and> path = ''/api/admin/_check'' then (db1, Inr (Reply (Status 401)))
           else if \<not> complete \<and> \<not> prefix ''/auth/'' path then (db1, Inr (Reply (Redirect ''/setup'')))
           else if prefix ''/auth/'' path then (db1, Inr (Next cx))
           else if protected_path path then
             (case header rq ''authorization'' of
                Some authz \<Rightarrow>
                  if prefix ''Bearer '' authz
                  then (let (db2, g) = bearer_gate lib cfg now schema cx rq (drop 7 authz) db1 in (db2, Inr g))
                  else cookie_gate lib cfg now cx rq db1
              | None \<Rightarrow> cookie_gate lib cfg now cx rq db1)
           else (db1, Inr (Next cx)))"

text \<open>Both middlewares: the second runs in the schema the first selects.\<close>

definition gate_request ::
  "auth_lib \<Rightarrow> gate_config \<Rightarrow> timestamp \<Rightarrow> request \<Rightarrow> auth_db \<Rightarrow> auth_db \<times> (auth_error, gate_result) result" where
  "gate_request lib cfg now rq db =
     (let (schema, cx) = resolve_tenant cfg rq db
      in if \<not> assertSchema schema then (db, Inl (InvalidSchemaName schema))
         else auth_gate lib cfg now schema cx rq db)"

section \<open>Audit\<close>

record audit_input =
  ain_metadata :: json
  ain_result :: "audit_result option"
  ain_actor_type :: "audit_actor_type option"
  ain_actor_id :: "string option"
  ain_actor_label :: "string option"

definition request_ip :: "request \<Rightarrow> string option" where
  "request_ip rq =
     (case header rq ''x-real-ip'' of
        Some ip \<Rightarrow> Some ip
      | None \<Rightarrow> map_option (\<lambda>f. js_trim (hd (split_on CHR '','' f))) (header rq ''x-forwarded-for''))"

definition audit ::
  "string \<Rightarrow> timestamp \<Rightarrow> string \<Rightarrow> gate_context \<Rightarrow> request \<Rightarrow> string \<Rightarrow> audit_input \<Rightarrow> auth_db \<Rightarrow> auth_db" where
  "audit aid now schema cx rq action input db =
     (let (actor_type, actor_id, actor_label) =
            (case ain_actor_type input of
               Some ty \<Rightarrow> (ty, ain_actor_id input, ain_actor_label input)
             | None \<Rightarrow>
                 if truthy_str (gx_apiKeyPrefix cx) then (ActorApiKey, ain_actor_id input, gx_apiKeyPrefix cx)
                 else (case gx_user cx of
                         Some u \<Rightarrow> (ActorUser, Some (u_id u), Some (u_username u))
                       | None \<Rightarrow> (ActorSystem, ain_actor_id input, ain_actor_label input)))
      in insertAudit schema
           \<lparr>ae_id = aid, ae_ts = now, ae_actor_type = actor_type, ae_actor_id = actor_id,
            ae_actor_label = actor_label, ae_action = action, ae_resource_type = None,
            ae_resource_id = None, ae_ip = request_ip rq, ae_metadata = ain_metadata input,
            ae_result = nullish (ain_result input) AuditOk\<rparr> db)"


section \<open>Login, second factor, recovery, logout\<close>

text \<open>The database and the two rate limiters of \<^verbatim>\<open>registerAuthRoutes\<close>.\<close>

record auth_server =
  sv_db :: auth_db
  sv_loginGuard :: limiter
  sv_secondFactorGuard :: limiter

definition guard_config :: rate_limit_config where
  "guard_config = \<lparr>windowMs = 60000, max_hits = 8, maxBuckets = None, maxEntries = None\<rparr>"

text \<open>Random values a request may draw.\<close>

record draws =
  dr_session :: bytes
  dr_csrf :: bytes
  dr_audit :: string
  dr_salt :: bytes
  dr_salts :: "nat \<Rightarrow> bytes"
  dr_iv :: bytes
  dr_totp :: string
  dr_codes :: "nat \<Rightarrow> bytes"

definition updateAuthenticatedUser ::
  "string \<Rightarrow> user \<Rightarrow> user_column list \<Rightarrow> auth_db \<Rightarrow> (auth_error, auth_db) result" where
  "updateAuthenticatedUser schema u patch db =
     (if u_role u = RoleAdmin then updatePlatformAdmin (u_id u) patch db
      else Inr (updateUser schema (u_id u) patch db))"

type_synonym handled = "auth_server \<times> (auth_error, response) result"

definition reply :: "response \<Rightarrow> auth_server \<Rightarrow> handled" where
  "reply r sv = (sv, Inr r)"

definition throw :: "auth_error \<Rightarrow> auth_server \<Rightarrow> handled" where
  "throw e sv = (sv, Inl e)"

text \<open>A database call of a handler: its error ends the handler with the state before the call.\<close>

definition run_db ::
  "(auth_db \<Rightarrow> (auth_error, auth_db) result) \<Rightarrow> (auth_server \<Rightarrow> handled) \<Rightarrow> auth_server \<Rightarrow> handled" where
  "run_db f k sv =
     (case f (sv_db sv) of Inl e \<Rightarrow> throw e sv | Inr db \<Rightarrow> k (sv\<lparr>sv_db := db\<rparr>))"

definition login_ip :: "request \<Rightarrow> string" where
  "login_ip rq = nullish (request_ip rq) ''anon''"

definition is_locked :: "timestamp \<Rightarrow> user \<Rightarrow> bool" where
  "is_locked now u \<longleftrightarrow> (case u_locked_until u of None \<Rightarrow> False | Some e \<Rightarrow> now < e)"

definition failure_patch :: "auth_config \<Rightarrow> timestamp \<Rightarrow> user \<Rightarrow> user_column list" where
  "failure_patch cfg now u =
     (let count = u_failed_login_count u + 1
      in SetFailedLoginCount count
         # (if count \<ge> loginLockoutThreshold cfg
            then [SetLockedUntil (Some (now + loginLockoutSeconds cfg * 1000))] else []))"

definition success_patch :: "timestamp \<Rightarrow> user_column list" where
  "success_patch now = [SetFailedLoginCount 0, SetLockedUntil None, SetLastLoginAt (Some now)]"

definition open_login_session ::
  "auth_lib \<Rightarrow> gate_config \<Rightarrow> timestamp \<Rightarrow> draws \<Rightarrow> string \<Rightarrow> gate_context \<Rightarrow> request \<Rightarrow> user \<Rightarrow> auth_server
   \<Rightarrow> handled" where
  "open_login_session lib cfg now dr schema cx rq u sv =
     (case gx_tenant cx of
        None \<Rightarrow> throw LoginTenantUnresolved sv
      | Some origin \<Rightarrow>
          (case createSession lib (gc_auth cfg) now (dr_session dr) (dr_csrf dr) schema u (tn_id origin)
                  (header rq ''user-agent'')
                  (case header rq ''x-forwarded-for'' of Some f \<Rightarrow> Some f | None \<Rightarrow> header rq ''x-real-ip'')
                  (u_totp_enabled u) (sv_db sv) of
             Inl e \<Rightarrow> throw e sv
           | Inr (db1, s, cookieValue) \<Rightarrow>
               reply (RedirectWithCookie (if u_totp_enabled u then ''/auth/totp'' else ''/admin/'')
                        [(gc_cookieName cfg, cookieValue), (''betterframe_csrf'', ss_csrf_token s)])
                     (sv\<lparr>sv_db := db1\<rparr>)))"

definition check_password ::
  "auth_lib \<Rightarrow> gate_config \<Rightarrow> timestamp \<Rightarrow> draws \<Rightarrow> string \<Rightarrow> gate_context \<Rightarrow> request \<Rightarrow> string \<Rightarrow> string \<Rightarrow> user
   \<Rightarrow> auth_server \<Rightarrow> handled" where
  "check_password lib cfg now dr schema cx rq username password u sv =
     (if \<not> verifyPassword lib password (u_password_hash u) then
        let count = u_failed_login_count u + 1 in
        run_db (updateAuthenticatedUser schema u (failure_patch (gc_auth cfg) now u))
          (\<lambda>sv1. reply (HtmlPage ''LoginPage'' ''Invalid credentials.'')
             (sv1\<lparr>sv_db := audit (dr_audit dr) now schema cx rq ''user.login''
                  \<lparr>ain_metadata = JObj [(''failed_count'', JNum count),
                                        (''locked'', JBool (count \<ge> loginLockoutThreshold (gc_auth cfg)))],
                   ain_result = Some AuditFailed, ain_actor_type = Some ActorSystem, ain_actor_id = None,
                   ain_actor_label = Some username\<rparr> (sv_db sv1)\<rparr>)) sv
      else
        run_db (updateAuthenticatedUser schema u (success_patch now))
          (\<lambda>sv1. open_login_session lib cfg now dr schema cx rq u
             (sv1\<lparr>sv_db := audit (dr_audit dr) now schema cx rq ''user.login''
                  \<lparr>ain_metadata = JObj [(''totp_pending'', JBool (u_totp_enabled u))],
                   ain_result = None, ain_actor_type = Some ActorUser, ain_actor_id = Some (u_id u),
                   ain_actor_label = Some (u_username u)\<rparr> (sv_db sv1)\<rparr>)) sv)"

definition login_account ::
  "auth_lib \<Rightarrow> gate_config \<Rightarrow> timestamp \<Rightarrow> draws \<Rightarrow> string \<Rightarrow> gate_context \<Rightarrow> request \<Rightarrow> auth_server \<Rightarrow> handled" where
  "login_account lib cfg now dr schema cx rq sv =
     (case lib_login_body lib (rq_body rq) of
        None \<Rightarrow> reply (HtmlPage ''LoginPage'' ''Username and password required.'') sv
      | Some (rawUsername, password) \<Rightarrow>
          let username = js_trim rawUsername
          in case getUserByUsername (sv_db sv) schema username of
               None \<Rightarrow> reply (HtmlPage ''LoginPage'' ''Invalid credentials.'') sv
             | Some u \<Rightarrow>
                 if \<not> u_is_active u then reply (HtmlPage ''LoginPage'' ''Invalid credentials.'') sv
                 else if is_locked now u
                 then reply (HtmlPage ''LoginPage'' ''Account locked. Try again later.'') sv
                 else check_password lib cfg now dr schema cx rq username password u sv)"

definition login_post ::
  "auth_lib \<Rightarrow> gate_config \<Rightarrow> timestamp \<Rightarrow> draws \<Rightarrow> string \<Rightarrow> gate_context \<Rightarrow> request \<Rightarrow> auth_server \<Rightarrow> handled" where
  "login_post lib cfg now dr schema cx rq sv =
     (if \<not> requestOriginIsValid lib rq then reply (Plain 403 ''invalid request origin'') sv
      else
        let ip = login_ip rq;
            (ok, guard) = rl_take (''login:'' @ ip) now (sv_loginGuard sv);
            sv1 = sv\<lparr>sv_loginGuard := guard\<rparr>
        in if \<not> ok then
             reply (Plain 429 ''Too many login attempts. Try again in a minute.'')
               (sv1\<lparr>sv_db := audit (dr_audit dr) now schema cx rq ''user.login''
                    \<lparr>ain_metadata = JObj [(''reason'', JStr ''rate_limited''), (''ip'', JStr ip)],
                     ain_result = Some AuditFailed, ain_actor_type = None, ain_actor_id = None,
                     ain_actor_label = None\<rparr> (sv_db sv1)\<rparr>)
           else login_account lib cfg now dr schema cx rq sv1)"

text \<open>
  What the second-factor, recovery and logout handlers share: the session of the cookie, the
  test that it waits for its second factor, the cross-site check and the rate limiter.
\<close>

definition pending_session ::
  "auth_lib \<Rightarrow> gate_config \<Rightarrow> timestamp \<Rightarrow> request \<Rightarrow> string \<Rightarrow> (resolved \<Rightarrow> auth_server \<Rightarrow> handled)
   \<Rightarrow> auth_server \<Rightarrow> handled" where
  "pending_session lib cfg now rq label k sv =
     (let c = cookie rq (gc_cookieName cfg)
      in if \<not> truthy_str c then reply (Redirect ''/auth/login'') sv
         else case resolveSession lib (gc_auth cfg) now (the c) (sv_db sv) of
             Inl e \<Rightarrow> throw e sv
           | Inr (db1, None) \<Rightarrow> reply (Redirect ''/admin/'') (sv\<lparr>sv_db := db1\<rparr>)
           | Inr (db1, Some (s, u, t)) \<Rightarrow>
               let sv1 = sv\<lparr>sv_db := db1\<rparr>
               in if \<not> ss_totp_pending s then reply (Redirect ''/admin/'') sv1
                  else if \<not> csrfRequestIsValid lib rq s then reply (Plain 403 ''invalid CSRF token'') sv1
                  else
                    let (ok, guard) = rl_take (label @ ss_id s) now (sv_secondFactorGuard sv1);
                        sv2 = sv1\<lparr>sv_secondFactorGuard := guard\<rparr>
                    in if \<not> ok then reply (Plain 429 ''Too many attempts. Try again in a minute.'') sv2
                       else k (s, u, t) sv2)"

definition strip_ws :: "string \<Rightarrow> string" where
  "strip_ws s = filter (\<lambda>c. \<not> is_ws c) s"

definition decryptTotpSecret :: "auth_lib \<Rightarrow> string \<Rightarrow> (secret_error, string) result" where
  "decryptTotpSecret lib ciphertext =
     decryptString (lib_ungcm lib) (lib_hkdf lib) (lib_server_key lib) ciphertext ''totp''"

definition encryptTotpSecret :: "auth_lib \<Rightarrow> bytes \<Rightarrow> string \<Rightarrow> string" where
  "encryptTotpSecret lib iv secret =
     encryptString (lib_gcm lib) (lib_hkdf lib) (lib_server_key lib) iv secret ''totp''"

text \<open>The pages post forms, whose fields are strings; a missing field is empty.\<close>

definition form_field :: "request \<Rightarrow> string \<Rightarrow> string" where
  "form_field rq name = (case json_get (rq_body rq) name of JStr c \<Rightarrow> c | _ \<Rightarrow> [])"

definition second_factor_page ::
  "auth_lib \<Rightarrow> gate_config \<Rightarrow> timestamp \<Rightarrow> request \<Rightarrow> string \<Rightarrow> auth_server \<Rightarrow> handled" where
  "second_factor_page lib cfg now rq page sv =
     (let c = cookie rq (gc_cookieName cfg)
      in if \<not> truthy_str c then reply (Redirect ''/auth/login'') sv
         else case resolveSession lib (gc_auth cfg) now (the c) (sv_db sv) of
             Inl e \<Rightarrow> throw e sv
           | Inr (db1, None) \<Rightarrow> reply (Redirect ''/admin/'') (sv\<lparr>sv_db := db1\<rparr>)
           | Inr (db1, Some (s, u, t)) \<Rightarrow>
               reply (if ss_totp_pending s then HtmlPage page [] else Redirect ''/admin/'') (sv\<lparr>sv_db := db1\<rparr>))"

definition totp_body :: "auth_lib \<Rightarrow> timestamp \<Rightarrow> request \<Rightarrow> resolved \<Rightarrow> auth_server \<Rightarrow> handled" where
  "totp_body lib now rq r sv =
     (case r of (s, u, t) \<Rightarrow>
       case lib_totp_body lib (rq_body rq) of
         None \<Rightarrow> reply (HtmlPage ''TotpPage'' ''Enter a 6-digit code.'') sv
       | Some raw \<Rightarrow>
           let code = strip_ws (js_trim raw)
           in if length code \<noteq> 6 then reply (HtmlPage ''TotpPage'' ''Enter a 6-digit code.'') sv
              else if \<not> truthy_str (u_totp_secret_encrypted u)
              then reply (HtmlPage ''TotpPage'' ''TOTP not configured for this account.'') sv
              else case decryptTotpSecret lib (the (u_totp_secret_encrypted u)) of
                  Inl e \<Rightarrow> throw (SecretError e) sv
                | Inr secret \<Rightarrow>
                    if \<not> lib_totp lib now secret code
                    then reply (HtmlPage ''TotpPage'' ''Invalid code. Try again.'') sv
                    else reply (Redirect ''/admin/'')
                           (sv\<lparr>sv_db := setSessionTotpPending (tn_schema_name t) (ss_id s) False (sv_db sv)\<rparr>))"

definition totp_post ::
  "auth_lib \<Rightarrow> gate_config \<Rightarrow> timestamp \<Rightarrow> request \<Rightarrow> auth_server \<Rightarrow> handled" where
  "totp_post lib cfg now rq = pending_session lib cfg now rq ''totp:'' (totp_body lib now rq)"

definition recovery_body :: "auth_lib \<Rightarrow> request \<Rightarrow> resolved \<Rightarrow> auth_server \<Rightarrow> handled" where
  "recovery_body lib rq r sv =
     (case r of (s, u, t) \<Rightarrow>
       let raw = form_field rq ''code'';
           code = strip_ws (js_upper (js_trim raw))
       in if code = [] then reply (HtmlPage ''RecoveryPage'' ''Enter a recovery code.'') sv
          else
            let (ok, remaining) = consumeRecoveryCode lib code (u_recovery_codes_hashed u)
            in if \<not> ok then reply (HtmlPage ''RecoveryPage'' ''Invalid recovery code.'') sv
               else run_db (updateAuthenticatedUser (tn_schema_name t) u [SetRecoveryCodes remaining])
                      (\<lambda>sv1. reply (Redirect ''/admin/'')
                         (sv1\<lparr>sv_db := setSessionTotpPending (tn_schema_name t) (ss_id s) False (sv_db sv1)\<rparr>)) sv)"

definition recovery_post ::
  "auth_lib \<Rightarrow> gate_config \<Rightarrow> timestamp \<Rightarrow> request \<Rightarrow> auth_server \<Rightarrow> handled" where
  "recovery_post lib cfg now rq = pending_session lib cfg now rq ''recovery:'' (recovery_body lib rq)"

definition logout_post ::
  "auth_lib \<Rightarrow> gate_config \<Rightarrow> timestamp \<Rightarrow> request \<Rightarrow> auth_server \<Rightarrow> handled" where
  "logout_post lib cfg now rq sv =
     (let c = cookie rq (gc_cookieName cfg);
          bye = RedirectClearCookie ''/auth/login'' [gc_cookieName cfg, ''betterframe_csrf'', ''bf_tenant'']
      in if \<not> truthy_str c then reply bye sv
         else case resolveSession lib (gc_auth cfg) now (the c) (sv_db sv) of
             Inl e \<Rightarrow> throw e sv
           | Inr (db1, None) \<Rightarrow> reply bye (sv\<lparr>sv_db := db1\<rparr>)
           | Inr (db1, Some (s, u, t)) \<Rightarrow>
               if \<not> csrfRequestIsValid lib rq s
               then reply (Plain 403 ''invalid CSRF token'') (sv\<lparr>sv_db := db1\<rparr>)
               else reply bye (sv\<lparr>sv_db := revokeSession (tn_schema_name t) (ss_id s) now db1\<rparr>))"


section \<open>Account\<close>

definition outsideDefaultTenant :: "gate_context \<Rightarrow> bool" where
  "outsideDefaultTenant cx \<longleftrightarrow> map_option tn_slug (gx_tenant cx) \<noteq> Some ''default''"

definition account_page :: "string \<Rightarrow> auth_server \<Rightarrow> handled" where
  "account_page msg = reply (HtmlPage ''AccountPage'' msg)"

text \<open>The user of the request, once a change outside the default tenant has been turned away.\<close>

definition account_change ::
  "gate_context \<Rightarrow> (user \<Rightarrow> auth_server \<Rightarrow> handled) \<Rightarrow> auth_server \<Rightarrow> handled" where
  "account_change cx k sv =
     (if outsideDefaultTenant cx then reply (Redirect ''/admin/account'') sv
      else k (the (gx_user cx)) sv)"

definition revoke_user_sessions :: "string \<Rightarrow> timestamp \<Rightarrow> user \<Rightarrow> auth_db \<Rightarrow> (auth_error, auth_db) result" where
  "revoke_user_sessions schema now u db =
     (if u_role u = RoleAdmin then revokePlatformAdminSessions (u_id u) now db
      else Inr (revokeAllSessionsForUser schema (u_id u) now db))"

definition account_password ::
  "auth_lib \<Rightarrow> timestamp \<Rightarrow> draws \<Rightarrow> string \<Rightarrow> gate_context \<Rightarrow> request \<Rightarrow> auth_server \<Rightarrow> handled" where
  "account_password lib now dr schema cx rq =
     account_change cx (\<lambda>u sv.
       let current = form_field rq ''current_password'';
           newPw = form_field rq ''new_password''
       in if current = [] \<or> newPw = [] then account_page ''Both current and new password required.'' sv
          else if length newPw < 12 then account_page ''New password must be at least 12 characters.'' sv
          else if \<not> verifyPassword lib current (u_password_hash u)
          then account_page ''Current password incorrect.'' sv
          else run_db (updateAuthenticatedUser schema u [SetPasswordHash (lib_hash lib (dr_salt dr) newPw)])
                 (run_db (revoke_user_sessions schema now u) (reply (Redirect ''/auth/login''))) sv)"

definition account_totp_begin ::
  "auth_lib \<Rightarrow> draws \<Rightarrow> string \<Rightarrow> gate_context \<Rightarrow> auth_server \<Rightarrow> handled" where
  "account_totp_begin lib dr schema cx =
     account_change cx (\<lambda>u sv.
       if u_totp_enabled u then account_page ''TOTP already enabled.'' sv
       else run_db (updateAuthenticatedUser schema u
                      [SetTotpSecret (Some (encryptTotpSecret lib (dr_iv dr) (dr_totp dr)))])
              (reply (HtmlPage ''TotpEnrollPage'' (join_with '' '' (dr_totp dr # generateRecoveryCodes (dr_codes dr))))) sv)"

definition account_totp_confirm ::
  "auth_lib \<Rightarrow> timestamp \<Rightarrow> draws \<Rightarrow> string \<Rightarrow> gate_context \<Rightarrow> request \<Rightarrow> auth_server \<Rightarrow> handled" where
  "account_totp_confirm lib now dr schema cx rq =
     account_change cx (\<lambda>u sv.
       let code = strip_ws (js_trim (form_field rq ''code''))
       in if length code \<noteq> 6 then account_page ''Enter a valid 6-digit code.'' sv
          else if \<not> truthy_str (u_totp_secret_encrypted u)
          then account_page ''No TOTP enrollment in progress. Start again.'' sv
          else case decryptTotpSecret lib (the (u_totp_secret_encrypted u)) of
              Inl e \<Rightarrow> throw (SecretError e) sv
            | Inr secret \<Rightarrow>
                if \<not> lib_totp lib now secret code
                then account_page ''Invalid code. Scan the QR code again and enter the current code.'' sv
                else case lib_parse_codes lib (case json_get (rq_body rq) ''recovery_codes'' of
                                                 JStr c \<Rightarrow> c | _ \<Rightarrow> ''[]'') of
                    None \<Rightarrow> throw JsonSyntaxError sv
                  | Some codes \<Rightarrow>
                      run_db (updateAuthenticatedUser schema u
                                [SetTotpEnabled True, SetRecoveryCodes (hashRecoveryCodes lib (dr_salts dr) codes)])
                        (reply (Redirect ''/admin/account'')) sv)"

definition account_totp_disable ::
  "auth_lib \<Rightarrow> string \<Rightarrow> gate_context \<Rightarrow> request \<Rightarrow> auth_server \<Rightarrow> handled" where
  "account_totp_disable lib schema cx rq =
     account_change cx (\<lambda>u sv.
       if \<not> verifyPassword lib (form_field rq ''password'') (u_password_hash u)
       then account_page ''Password incorrect.'' sv
       else run_db (updateAuthenticatedUser schema u
                      [SetTotpEnabled False, SetTotpSecret None, SetRecoveryCodes []])
              (reply (Redirect ''/admin/account'')) sv)"

section \<open>The service\<close>

text \<open>One request: both middlewares, then the handler of its route or a route of another module.\<close>

definition run_handler ::
  "auth_lib \<Rightarrow> gate_config \<Rightarrow> timestamp \<Rightarrow> draws \<Rightarrow> string \<Rightarrow> gate_context \<Rightarrow> request \<Rightarrow> auth_server \<Rightarrow> handled" where
  "run_handler lib cfg now dr schema cx rq sv =
     (let route = (js_upper (rq_method rq), rq_path rq) in
      if route = (''POST'', ''/auth/login'') then login_post lib cfg now dr schema cx rq sv
      else if route = (''GET'', ''/auth/totp'') then second_factor_page lib cfg now rq ''TotpPage'' sv
      else if route = (''POST'', ''/auth/totp'') then totp_post lib cfg now rq sv
      else if route = (''GET'', ''/auth/recovery'') then second_factor_page lib cfg now rq ''RecoveryPage'' sv
      else if route = (''POST'', ''/auth/recovery'') then recovery_post lib cfg now rq sv
      else if route = (''POST'', ''/auth/logout'') then logout_post lib cfg now rq sv
      else if route = (''POST'', ''/admin/account/password'') then account_password lib now dr schema cx rq sv
      else if route = (''POST'', ''/admin/account/totp/begin'') then account_totp_begin lib dr schema cx sv
      else if route = (''POST'', ''/admin/account/totp/confirm'') then account_totp_confirm lib now dr schema cx rq sv
      else if route = (''POST'', ''/admin/account/totp/disable'') then account_totp_disable lib schema cx rq sv
      else reply (Delegated cx) sv)"

definition serve ::
  "auth_lib \<Rightarrow> gate_config \<Rightarrow> timestamp \<Rightarrow> draws \<Rightarrow> request \<Rightarrow> auth_server \<Rightarrow> handled" where
  "serve lib cfg now dr rq sv =
     (let schema = fst (resolve_tenant cfg rq (sv_db sv));
          (db1, g) = gate_request lib cfg now rq (sv_db sv);
          sv1 = sv\<lparr>sv_db := db1\<rparr>
      in case g of
           Inl e \<Rightarrow> throw e sv1
         | Inr (Reply r) \<Rightarrow> reply r sv1
         | Inr (Next cx) \<Rightarrow> run_handler lib cfg now dr schema cx rq sv1)"


section \<open>What the gate admits\<close>

text \<open>A bearer token that may enter: an import key on its path, or an administrator's key.\<close>

definition token_admitted ::
  "auth_lib \<Rightarrow> gate_config \<Rightarrow> timestamp \<Rightarrow> string \<Rightarrow> auth_db \<Rightarrow> request \<Rightarrow> string \<Rightarrow> bool" where
  "token_admitted lib cfg now schema db rq token \<longleftrightarrow>
     import_path (rq_path rq)
       \<and> (tokenMatchesExpected lib token (gc_firmwareImportApiKey cfg)
          \<or> tokenMatchesExpected lib token (gc_otaImportApiKey cfg))
     \<or> (\<exists>k \<in> set (at_api_keys (tables db schema)).
          ak_key_prefix k = take 8 token \<and> api_key_matches lib now token k \<and> ScopeAdmin \<in> set (ak_scopes k))"

text \<open>A session that may enter, with the context its handler gets.\<close>

definition session_admitted ::
  "auth_lib \<Rightarrow> gate_config \<Rightarrow> timestamp \<Rightarrow> auth_db \<Rightarrow> request \<Rightarrow> gate_context \<Rightarrow> resolved \<Rightarrow> bool" where
  "session_admitted lib cfg now db rq cx r \<longleftrightarrow>
     (case r of (s, u, t) \<Rightarrow>
        (\<exists>c. cookie rq (gc_cookieName cfg) = Some c \<and> good_session lib (gc_auth cfg) now c db (s, u, t))
        \<and> \<not> ss_totp_pending s
        \<and> (u_role u = RoleAdmin \<longrightarrow> tn_slug t = ''default'')
        \<and> (u_role u = RoleOperator \<longrightarrow> operatorMayAccess (rq_path rq) (rq_method rq) \<and> \<not> prefix ''/admin/tenants'' (rq_path rq)
              \<and> map_option tn_id (gx_tenant cx) = Some (tn_id t) \<and> gx_user cx = Some u)
        \<and> (isUnsafeMethod (rq_method rq) \<longrightarrow> csrfRequestIsValid lib rq s)
        \<and> gx_session cx = Some s \<and> gx_originTenant cx = Some t)"

lemma protected_not_open:
  assumes "protected_path path"
  shows "\<not> open_path path" and "\<not> prefix ''/auth/'' path"
  using assms by (auto simp: protected_path_def open_path_def prefix_def)

lemma verifyApiKey_Some:
  assumes "verifyApiKey lib now k token ip db = (db', Some key)"
  shows "key \<in> set (at_api_keys (tables db k))" and "ak_key_prefix key = take 8 token"
    and "api_key_matches lib now token key"
  using assms by (auto simp: verifyApiKey_def listApiKeysByPrefix_def find_Some_iff split: option.splits
      dest!: nth_mem [of _ "filter _ _"])

lemma bearer_gate_Next:
  assumes "bearer_gate lib cfg now k cx rq token db = (db', Next cx')"
  shows "token_admitted lib cfg now k db rq token"
proof -
  obtain db1 key where v: "verifyApiKey lib now k token (header rq ''x-real-ip'') db = (db1, key)"
    by (cases "verifyApiKey lib now k token (header rq ''x-real-ip'') db")
  show ?thesis
  proof (cases "import_path (rq_path rq) \<and> (tokenMatchesExpected lib token (gc_firmwareImportApiKey cfg)
      \<or> tokenMatchesExpected lib token (gc_otaImportApiKey cfg))")
    case True
    then show ?thesis by (simp add: token_admitted_def)
  next
    case False
    with assms obtain a where "key = Some a" "ScopeAdmin \<in> set (ak_scopes a)"
      by (auto simp: bearer_gate_def v Let_def split: option.splits if_splits)
    with verifyApiKey_Some [of lib now k token "header rq ''x-real-ip''" db db1 a] v show ?thesis
      by (auto simp: token_admitted_def)
  qed
qed

lemma session_gate_Next:
  assumes "session_gate lib cfg now cx rq (s, u, t) db = (db', Inr (Next cx'))"
  shows "\<not> ss_totp_pending s" and "u_role u = RoleAdmin \<longrightarrow> tn_slug t = ''default''"
    and "u_role u = RoleOperator \<longrightarrow> operatorMayAccess (rq_path rq) (rq_method rq) \<and> \<not> prefix ''/admin/tenants'' (rq_path rq)
           \<and> map_option tn_id (gx_tenant cx') = Some (tn_id t) \<and> gx_user cx' = Some u"
    and "isUnsafeMethod (rq_method rq) \<longrightarrow> csrfRequestIsValid lib rq s"
    and "gx_session cx' = Some s" and "gx_originTenant cx' = Some t" and "db' = db"
  using assms unfolding session_gate_def Let_def prod.case by (auto split: if_splits)

lemma cookie_gate_Next:
  assumes "cookie_gate lib cfg now cx rq db = (db', Inr (Next cx'))"
  obtains r where "session_admitted lib cfg now db rq cx' r"
proof -
  obtain c db1 s u t where c: "cookie rq (gc_cookieName cfg) = Some c"
    and r: "resolveSession lib (gc_auth cfg) now c db = Inr (db1, Some (s, u, t))"
    and g: "session_gate lib cfg now cx rq (s, u, t) db1 = (db', Inr (Next cx'))"
    using assms unfolding cookie_gate_def Let_def
    by (auto simp: truthy_str_iff split: if_splits sum.splits prod.splits option.splits)
  show thesis
    using that [of "(s, u, t)"] c session_gate_Next [OF g] resolveSession_Some(1) [OF r]
    unfolding session_admitted_def prod.case by blast
qed

section \<open>Sessions under the gate\<close>

lemma verifyApiKey_sessions: "keeps_sessions db (fst (verifyApiKey lib now k token ip db))"
  by (simp add: verifyApiKey_def touchApiKey_sessions split: option.splits)

lemma bearer_gate_sessions: "keeps_sessions db (fst (bearer_gate lib cfg now k cx rq token db))"
  using verifyApiKey_sessions [of db lib now k token "header rq ''x-real-ip''"]
  by (auto simp: bearer_gate_def Let_def split: option.splits prod.splits)

lemma session_gate_revokes: "only_revokes db (fst (session_gate lib cfg now cx rq r db))"
proof -
  obtain s u t where r: "r = (s, u, t)" by (cases r)
  have "fst (session_gate lib cfg now cx rq r db) = revokeSession (tn_schema_name t) (ss_id s) now db
      \<or> fst (session_gate lib cfg now cx rq r db) = db"
    unfolding r session_gate_def Let_def prod.case by (auto split: if_splits)
  then show ?thesis
    using revokeSession_revokes by (auto simp: same_revokes same_life_def)
qed

lemma resolveSession_revokes:
  assumes "resolveSession lib cfg now c db = Inr (db', r)"
  shows "only_revokes db db'"
proof (cases r)
  case (Some x)
  obtain s u t where "x = (s, u, t)" by (cases x)
  with Some assms resolveSession_Some(2) [of lib cfg now c db db' s u t] show ?thesis
    by (simp add: same_revokes touchSession_same)
qed (use assms resolveSession_None in blast)

lemma cookie_gate_revokes: "only_revokes db (fst (cookie_gate lib cfg now cx rq db))"
proof (cases "resolveSession lib (gc_auth cfg) now (the (cookie rq (gc_cookieName cfg))) db")
  case (Inr x)
  obtain db1 r where x: "x = (db1, r)" by (cases x)
  note rev = resolveSession_revokes [OF Inr [unfolded x]]
  show ?thesis
  proof (cases r)
    case None
    with rev show ?thesis by (simp add: cookie_gate_def Let_def Inr x same_revokes same_life_def)
  next
    case (Some y)
    with only_revokes_trans [OF rev session_gate_revokes] show ?thesis
      by (simp add: cookie_gate_def Let_def Inr x same_revokes same_life_def)
  qed
qed (simp add: cookie_gate_def Let_def same_revokes same_life_def)

lemma auth_gate_revokes: "only_revokes db (fst (auth_gate lib cfg now k cx rq db))"
proof -
  obtain db1 b where s: "isSetupComplete now k db = (db1, b)" by (cases "isSetupComplete now k db")
  have keep: "only_revokes db db1"
    using isSetupComplete_sessions [of db now k] by (simp add: s keeps_sessions_revokes)
  have cg: "only_revokes db (fst (cookie_gate lib cfg now cx rq db1))"
    by (rule only_revokes_trans [OF keep cookie_gate_revokes])
  have bg: "only_revokes db (fst (bearer_gate lib cfg now k cx rq token db1))" for token
    by (rule only_revokes_trans [OF keep keeps_sessions_revokes [OF bearer_gate_sessions]])
  have refl: "only_revokes db db" by (simp add: same_revokes same_life_def)
  show ?thesis
    using keep cg bg refl by (auto simp: auth_gate_def Let_def s case_prod_beta split: option.splits)
qed

lemma gate_request_revokes: "only_revokes db (fst (gate_request lib cfg now rq db))"
  using auth_gate_revokes by (auto simp: gate_request_def same_revokes same_life_def split: prod.splits)


section \<open>Sessions under the handlers\<close>

text \<open>
  Evidence for the two ways a session advances: a login with the right password of an active,
  unlocked account, and a second factor presented with the cookie and the cross-site token of
  the waiting session.
\<close>

definition password_evidence ::
  "auth_lib \<Rightarrow> timestamp \<Rightarrow> draws \<Rightarrow> string \<Rightarrow> request \<Rightarrow> auth_db \<Rightarrow> string \<Rightarrow> bool \<Rightarrow> bool" where
  "password_evidence lib now dr k rq db sid pending \<longleftrightarrow>
     (\<exists>name pw u. lib_login_body lib (rq_body rq) = Some (name, pw)
        \<and> getUserByUsername db k (js_trim name) = Some u \<and> u_is_active u \<and> \<not> is_locked now u
        \<and> verifyPassword lib pw (u_password_hash u) \<and> u_totp_enabled u = pending
        \<and> sid = hex_encode (dr_session dr))"

definition factor_shown :: "auth_lib \<Rightarrow> timestamp \<Rightarrow> request \<Rightarrow> user \<Rightarrow> bool" where
  "factor_shown lib now rq u \<longleftrightarrow>
     (\<exists>sealed secret raw. u_totp_secret_encrypted u = Some sealed \<and> decryptTotpSecret lib sealed = Inr secret
        \<and> lib_totp_body lib (rq_body rq) = Some raw \<and> lib_totp lib now secret (strip_ws (js_trim raw)))
     \<or> (\<exists>h \<in> set (u_recovery_codes_hashed u).
          verifyPassword lib (strip_ws (js_upper (js_trim (form_field rq ''code'')))) h)"

definition factor_evidence ::
  "auth_lib \<Rightarrow> gate_config \<Rightarrow> timestamp \<Rightarrow> request \<Rightarrow> auth_db \<Rightarrow> string \<Rightarrow> string \<Rightarrow> bool" where
  "factor_evidence lib cfg now rq db k sid \<longleftrightarrow>
     (\<exists>c s u t. cookie rq (gc_cookieName cfg) = Some c \<and> good_session lib (gc_auth cfg) now c db (s, u, t)
        \<and> ss_id s = sid \<and> visible_schema db (tn_schema_name t) = visible_schema db k \<and> csrfRequestIsValid lib rq s
        \<and> factor_shown lib now rq u)"

lemma updateAuthenticatedUser_sessions:
  "updateAuthenticatedUser k u patch db = Inr db' \<Longrightarrow> keeps_sessions db db'"
  using updatePlatformAdmin_sessions updateUser_sessions
  by (auto simp: updateAuthenticatedUser_def split: if_splits)

lemma audit_sessions: "keeps_sessions db (audit aid now k cx rq act inp db)"
  by (simp add: audit_def insertAudit_sessions case_prod_beta)

lemma only_revokes_refl [simp]: "only_revokes db db"
  by (simp add: same_revokes same_life_def)

text \<open>The handlers as database transformers, with their effect on sessions.\<close>

abbreviation handled_db :: "handled \<Rightarrow> auth_db" where
  "handled_db h \<equiv> sv_db (fst h)"

lemma reply_throw_db [simp]: "handled_db (reply r sv) = sv_db sv" "handled_db (throw e sv) = sv_db sv"
  by (simp_all add: reply_def throw_def)

lemma run_db_revokes:
  assumes "\<And>db'. f (sv_db sv) = Inr db' \<Longrightarrow> only_revokes (sv_db sv) db'"
    and "\<And>sv'. only_revokes (sv_db sv') (handled_db (k sv'))"
  shows "only_revokes (sv_db sv) (handled_db (run_db f k sv))"
proof (cases "f (sv_db sv)")
  case (Inr db')
  from only_revokes_trans [OF assms(1) [OF Inr] assms(2) [of "sv\<lparr>sv_db := db'\<rparr>", simplified]] Inr
  show ?thesis by (simp add: run_db_def)
qed (simp add: run_db_def)

lemma updateAuthenticatedUser_revokes:
  "updateAuthenticatedUser k u patch db = Inr db' \<Longrightarrow> only_revokes db db'"
  by (rule keeps_sessions_revokes [OF updateAuthenticatedUser_sessions])

lemma revoke_user_sessions_revokes:
  "revoke_user_sessions k now u db = Inr db' \<Longrightarrow> only_revokes db db'"
  using revokePlatformAdminSessions_revokes revokeAllSessionsForUser_revokes
  by (auto simp: revoke_user_sessions_def split: if_splits)

lemma account_change_revokes:
  assumes "\<And>u sv. only_revokes (sv_db sv) (handled_db (h u sv))"
  shows "only_revokes (sv_db sv) (handled_db (account_change cx h sv))"
  using assms by (simp add: account_change_def)

lemma account_page_db [simp]: "handled_db (account_page m sv) = sv_db sv"
  by (simp add: account_page_def)

lemma run_update_revokes [simp]:
  assumes "\<And>sv'. only_revokes (sv_db sv') (handled_db (k sv'))"
  shows "only_revokes (sv_db sv) (handled_db (run_db (updateAuthenticatedUser schema u patch) k sv))"
  by (rule run_db_revokes [OF updateAuthenticatedUser_revokes assms])

lemma run_revoke_revokes [simp]:
  assumes "\<And>sv'. only_revokes (sv_db sv') (handled_db (k sv'))"
  shows "only_revokes (sv_db sv) (handled_db (run_db (revoke_user_sessions schema now u) k sv))"
  by (rule run_db_revokes [OF revoke_user_sessions_revokes assms])

lemma account_password_revokes: "only_revokes (sv_db sv) (handled_db (account_password lib now dr k cx rq sv))"
  unfolding account_password_def by (rule account_change_revokes) (simp add: Let_def)

lemma account_totp_begin_revokes: "only_revokes (sv_db sv) (handled_db (account_totp_begin lib dr k cx sv))"
  unfolding account_totp_begin_def by (rule account_change_revokes) (simp add: Let_def)

lemma account_totp_confirm_revokes: "only_revokes (sv_db sv) (handled_db (account_totp_confirm lib now dr k cx rq sv))"
  unfolding account_totp_confirm_def
  by (rule account_change_revokes) (simp add: Let_def split: sum.split option.split)

lemma account_totp_disable_revokes: "only_revokes (sv_db sv) (handled_db (account_totp_disable lib k cx rq sv))"
  unfolding account_totp_disable_def by (rule account_change_revokes) (simp add: Let_def)

lemmas account_revokes = account_password_revokes account_totp_begin_revokes
  account_totp_confirm_revokes account_totp_disable_revokes

lemma second_factor_page_revokes: "only_revokes (sv_db sv) (handled_db (second_factor_page lib cfg now rq p sv))"
  unfolding second_factor_page_def Let_def
  by (auto split: sum.splits option.splits dest: resolveSession_revokes)

lemma logout_revokes: "only_revokes (sv_db sv) (handled_db (logout_post lib cfg now rq sv))"
  unfolding logout_post_def Let_def
  by (auto split: sum.splits option.splits dest!: resolveSession_revokes
      intro: only_revokes_trans [OF _ revokeSession_revokes])


lemma keeps_sessions_life: "keeps_sessions db db' \<Longrightarrow> life db' k sid = life db k sid"
  using keeps_sessions_same by (simp add: same_life_def)

lemma keeps_sessions_visible: "keeps_sessions db db' \<Longrightarrow> visible_schema db' = visible_schema db"
  by (simp add: keeps_sessions_def)

lemma open_login_session_life:
  assumes "db' = handled_db (open_login_session lib cfg now dr k cx rq u sv)"
  shows "life db' k' sid = life (sv_db sv) k' sid
    \<or> visible_schema (sv_db sv) k' = visible_schema (sv_db sv) k \<and> sid = hex_encode (dr_session dr)
       \<and> life (sv_db sv) k' sid = Absent \<and> life db' k' sid = (if u_totp_enabled u then Waiting else Opened)"
proof (cases "gx_tenant cx")
  case (Some origin)
  define made where "made = createSession lib (gc_auth cfg) now (dr_session dr) (dr_csrf dr) k u (tn_id origin)
    (header rq ''user-agent'')
    (case header rq ''x-forwarded-for'' of Some f \<Rightarrow> Some f | None \<Rightarrow> header rq ''x-real-ip'')
    (u_totp_enabled u) (sv_db sv)"
  show ?thesis
  proof (cases made)
    case (Inl e)
    then show ?thesis using assms Some by (simp add: open_login_session_def made_def)
  next
    case (Inr x)
    obtain db1 s c where x: "x = (db1, s, c)" by (cases x)
    note new = createSession_made [OF Inr [unfolded made_def x]]
    have "db' = db1" using assms Some Inr x by (simp add: open_login_session_def made_def)
    with insertSession_Inr [OF new(1)] new(2,7) tables_visible [of "sv_db sv" k k'] show ?thesis
      by (auto simp: life_def getSessionById_def)
  qed
qed (use assms in \<open>simp add: open_login_session_def\<close>)

lemma check_password_life:
  assumes "db' = handled_db (check_password lib cfg now dr k cx rq name pw u sv)"
  shows "life db' k' sid = life (sv_db sv) k' sid
    \<or> visible_schema (sv_db sv) k' = visible_schema (sv_db sv) k \<and> sid = hex_encode (dr_session dr)
       \<and> life (sv_db sv) k' sid = Absent \<and> life db' k' sid = (if u_totp_enabled u then Waiting else Opened)
       \<and> verifyPassword lib pw (u_password_hash u)"
proof -
  define p where "p = (if verifyPassword lib pw (u_password_hash u) then success_patch now
    else failure_patch (gc_auth cfg) now u)"
  show ?thesis
  proof (cases "updateAuthenticatedUser k u p (sv_db sv)")
    case (Inl e)
    then show ?thesis using assms by (auto simp: check_password_def run_db_def p_def split: if_splits)
  next
    case (Inr db1)
    note keep = updateAuthenticatedUser_sessions [OF Inr]
    show ?thesis
    proof (cases "verifyPassword lib pw (u_password_hash u)")
      case False
      then obtain act inp where "db' = audit (dr_audit dr) now k cx rq act inp db1"
        using assms Inr by (auto simp: check_password_def run_db_def p_def Let_def)
      with keeps_sessions_trans [OF keep audit_sessions] show ?thesis by (simp add: keeps_sessions_life)
    next
      case True
      then obtain act inp where d: "db' = handled_db (open_login_session lib cfg now dr k cx rq u
          (sv\<lparr>sv_db := audit (dr_audit dr) now k cx rq act inp db1\<rparr>))"
        using assms Inr by (auto simp: check_password_def run_db_def p_def Let_def)
      have keeps: "keeps_sessions (sv_db sv) (audit (dr_audit dr) now k cx rq act inp db1)"
        by (rule keeps_sessions_trans [OF keep audit_sessions])
      from open_login_session_life [OF d, of k' sid] True show ?thesis
        by (simp add: keeps_sessions_life [OF keeps] keeps_sessions_visible [OF keeps])
    qed
  qed
qed

lemma login_account_cases:
  obtains (same) "handled_db (login_account lib cfg now dr k cx rq sv) = sv_db sv"
    | (checked) raw pw u where "lib_login_body lib (rq_body rq) = Some (raw, pw)"
        "getUserByUsername (sv_db sv) k (js_trim raw) = Some u" "u_is_active u" "\<not> is_locked now u"
        "login_account lib cfg now dr k cx rq sv = check_password lib cfg now dr k cx rq (js_trim raw) pw u sv"
proof (cases "lib_login_body lib (rq_body rq)")
  case (Some x)
  obtain raw pw where x: "x = (raw, pw)" by (cases x)
  show thesis
  proof (cases "getUserByUsername (sv_db sv) k (js_trim raw)")
    case (Some u)
    with \<open>lib_login_body lib (rq_body rq) = Some x\<close> x same checked [of raw pw u] show thesis
      by (cases "u_is_active u \<and> \<not> is_locked now u") (auto simp: login_account_def)
  qed (use Some x same in \<open>simp add: login_account_def\<close>)
qed (use same in \<open>simp add: login_account_def\<close>)

lemma login_post_cases:
  obtains (same) "handled_db (login_post lib cfg now dr k cx rq sv) = sv_db sv"
    | (limited) inp where "handled_db (login_post lib cfg now dr k cx rq sv)
        = audit (dr_audit dr) now k cx rq ''user.login'' inp (sv_db sv)"
    | (checked) sv1 where "sv_db sv1 = sv_db sv"
        "login_post lib cfg now dr k cx rq sv = login_account lib cfg now dr k cx rq sv1"
proof -
  obtain ok g where g: "rl_take (''login:'' @ login_ip rq) now (sv_loginGuard sv) = (ok, g)"
    by (cases "rl_take (''login:'' @ login_ip rq) now (sv_loginGuard sv)")
  show thesis
    using same limited checked [of "sv\<lparr>sv_loginGuard := g\<rparr>"]
    unfolding login_post_def Let_def g prod.case
    by (cases "requestOriginIsValid lib rq"; cases ok) simp_all
qed

lemma login_post_life:
  assumes "db' = handled_db (login_post lib cfg now dr k cx rq sv)"
  shows "life db' k' sid = life (sv_db sv) k' sid
    \<or> life_step ByPassword (life (sv_db sv) k' sid) (life db' k' sid)
      \<and> password_evidence lib now dr k rq (sv_db sv) sid (life db' k' sid = Waiting)"
proof (cases rule: login_post_cases [of lib cfg now dr k cx rq sv])
  case same
  then show ?thesis using assms by simp
next
  case limited
  then show ?thesis using assms by (simp add: keeps_sessions_life [OF audit_sessions])
next
  case (checked sv1)
  show ?thesis
  proof (cases rule: login_account_cases [of lib cfg now dr k cx rq sv1])
    case same
    then show ?thesis using assms checked by simp
  next
    case (checked raw pw u)
    have "db' = handled_db (check_password lib cfg now dr k cx rq (js_trim raw) pw u sv1)"
      using assms checked(5) \<open>login_post lib cfg now dr k cx rq sv = login_account lib cfg now dr k cx rq sv1\<close> by simp
    from check_password_life [OF this, of k' sid] checked(1-4) \<open>sv_db sv1 = sv_db sv\<close> show ?thesis
      by (auto simp: password_evidence_def split: if_splits)
  qed
qed

lemma totp_pending_life:
  "life (setSessionTotpPending k sid False db) k' sid'
    = (if visible_schema db k = visible_schema db k' \<and> sid' = sid \<and> life db k' sid' = Waiting
       then Opened else life db k' sid')"
  unfolding life_def setSessionTotpPending_def
  by (auto simp: get_map_session life_of_def split: option.splits if_splits)

lemma visible_touch: "visible_schema (touchSession k sid now db) = visible_schema db"
  by (simp add: touchSession_def map_session_def map_sessions_def auth.place_put)

text \<open>A handler for waiting sessions either does not reach its body or runs it on one.\<close>

lemma pending_session_cases:
  obtains (early) "only_revokes (sv_db sv) (handled_db (pending_session lib cfg now rq label h sv))"
    | (body) c s u t sv2 where "cookie rq (gc_cookieName cfg) = Some c"
        "good_session lib (gc_auth cfg) now c (sv_db sv) (s, u, t)" "csrfRequestIsValid lib rq s"
        "sv_db sv2 = touchSession (tn_schema_name t) (ss_id s) now (sv_db sv)"
        "pending_session lib cfg now rq label h sv = h (s, u, t) sv2"
proof (cases "cookie rq (gc_cookieName cfg)")
  case None
  then show thesis using early by (simp add: pending_session_def Let_def)
next
  case (Some c)
  show thesis
  proof (cases "resolveSession lib (gc_auth cfg) now c (sv_db sv)")
    case (Inl e)
    then show thesis using early Some by (simp add: pending_session_def Let_def)
  next
    case (Inr x)
    obtain db1 r where x: "x = (db1, r)" by (cases x)
    note rev = resolveSession_revokes [OF Inr [unfolded x]]
    show thesis
    proof (cases r)
      case None
      then show thesis using early rev Some Inr x by (simp add: pending_session_def Let_def)
    next
      case (Some y)
      obtain s u t where y: "y = (s, u, t)" by (cases y)
      note res = resolveSession_Some [OF Inr [unfolded x Some y]]
      obtain ok g where g: "rl_take (label @ ss_id s) now (sv_secondFactorGuard sv) = (ok, g)"
        by (cases "rl_take (label @ ss_id s) now (sv_secondFactorGuard sv)")
      let ?sv2 = "sv\<lparr>sv_db := db1, sv_secondFactorGuard := g\<rparr>"
      show thesis
      proof (cases "c \<noteq> [] \<and> ss_totp_pending s \<and> csrfRequestIsValid lib rq s \<and> ok")
        case True
        then have "pending_session lib cfg now rq label h sv = h (s, u, t) ?sv2"
          using \<open>cookie rq (gc_cookieName cfg) = Some c\<close> Inr x Some y g
          by (simp add: pending_session_def Let_def)
        then show thesis
          using body [of c s u t ?sv2] \<open>cookie rq (gc_cookieName cfg) = Some c\<close> res True by simp
      next
        case False
        then show thesis
          using early rev \<open>cookie rq (gc_cookieName cfg) = Some c\<close> Inr x Some y g
          by (auto simp: pending_session_def Let_def split: if_splits)
      qed
    qed
  qed
qed

text \<open>Opening the waiting session is justified when the factor was.\<close>

lemma second_factor_life:
  assumes c: "cookie rq (gc_cookieName cfg) = Some c" "good_session lib (gc_auth cfg) now c db (s, u, t)"
      "csrfRequestIsValid lib rq s"
    and factor: "factor_shown lib now rq u"
    and db: "keeps_sessions (touchSession (tn_schema_name t) (ss_id s) now db) db1"
    and db': "db' = setSessionTotpPending (tn_schema_name t) (ss_id s) False db1"
  shows "life db' k' sid = life db k' sid
    \<or> life_step BySecondFactor (life db k' sid) (life db' k' sid) \<and> factor_evidence lib cfg now rq db k' sid"
proof -
  have l: "life db1 k' sid = life db k' sid"
    using keeps_sessions_life [OF db] touchSession_same by (simp add: same_life_def)
  have v: "visible_schema db1 = visible_schema db"
    using keeps_sessions_visible [OF db] by (simp add: visible_touch)
  have "factor_evidence lib cfg now rq db k' (ss_id s)"
    if "visible_schema db (tn_schema_name t) = visible_schema db k'"
    unfolding factor_evidence_def using c factor that by blast
  then show ?thesis
    unfolding db' totp_pending_life l v by auto
qed

lemma totp_body_db:
  "handled_db (totp_body lib now rq (s, u, t) sv) = sv_db sv
   \<or> factor_shown lib now rq u
      \<and> handled_db (totp_body lib now rq (s, u, t) sv) = setSessionTotpPending (tn_schema_name t) (ss_id s) False (sv_db sv)"
  unfolding totp_body_def factor_shown_def prod.case
  by (auto simp: Let_def truthy_str_iff split: option.splits sum.splits)

lemma totp_post_life:
  assumes "db' = handled_db (totp_post lib cfg now rq sv)"
  shows "life db' k' sid = life (sv_db sv) k' sid \<or> life_step ByRevocation (life (sv_db sv) k' sid) (life db' k' sid)
    \<or> life_step BySecondFactor (life (sv_db sv) k' sid) (life db' k' sid)
      \<and> factor_evidence lib cfg now rq (sv_db sv) k' sid"
proof (cases rule: pending_session_cases [of sv lib cfg now rq "''totp:''" "totp_body lib now rq"])
  case early
  then show ?thesis using assms unfolding totp_post_def only_revokes_def by blast
next
  case (body c s u t sv2)
  let ?db1 = "touchSession (tn_schema_name t) (ss_id s) now (sv_db sv)"
  have d: "db' = handled_db (totp_body lib now rq (s, u, t) sv2)"
    using assms body(5) by (simp add: totp_post_def)
  from totp_body_db [of lib now rq s u t sv2] consider "db' = ?db1"
    | "factor_shown lib now rq u" "db' = setSessionTotpPending (tn_schema_name t) (ss_id s) False ?db1"
    unfolding d body(4) by blast
  then show ?thesis
  proof cases
    case 1
    then show ?thesis using touchSession_same by (simp add: same_life_def)
  next
    case 2
    from second_factor_life [OF body(1-3) 2(1) keeps_sessions_refl 2(2)] show ?thesis by blast
  qed
qed

lemma consume_loop_spec:
  "consume_loop match hs consumed rest
    = (if consumed \<or> \<not> list_ex match hs then (consumed, rest @ hs)
       else (True, rest @ takeWhile (\<lambda>h. \<not> match h) hs @ tl (dropWhile (\<lambda>h. \<not> match h) hs)))"
  by (induction hs arbitrary: consumed rest) auto

lemma consumeRecoveryCode_ok:
  "fst (consumeRecoveryCode lib code hs) \<longleftrightarrow> (\<exists>h \<in> set hs. verifyPassword lib code h)"
  by (auto simp: consumeRecoveryCode_def consume_loop_spec list_ex_iff)

lemma recovery_body_db:
  "handled_db (recovery_body lib rq (s, u, t) sv) = sv_db sv
   \<or> (\<exists>db1. factor_shown lib now rq u \<and> keeps_sessions (sv_db sv) db1
        \<and> handled_db (recovery_body lib rq (s, u, t) sv) = setSessionTotpPending (tn_schema_name t) (ss_id s) False db1)"
proof -
  let ?code = "strip_ws (js_upper (js_trim (form_field rq ''code'')))"
  obtain ok rest where c: "consumeRecoveryCode lib ?code (u_recovery_codes_hashed u) = (ok, rest)"
    by (cases "consumeRecoveryCode lib ?code (u_recovery_codes_hashed u)")
  show ?thesis
  proof (cases "?code \<noteq> [] \<and> ok")
    case False
    then show ?thesis by (auto simp: recovery_body_def Let_def c)
  next
    case True
    then have "factor_shown lib now rq u"
      using c consumeRecoveryCode_ok [of lib ?code "u_recovery_codes_hashed u"] by (simp add: factor_shown_def)
    with True show ?thesis
      using updateAuthenticatedUser_sessions [of "tn_schema_name t" u "[SetRecoveryCodes rest]" "sv_db sv"]
      by (auto simp: recovery_body_def Let_def c run_db_def split: sum.splits)
  qed
qed

lemma recovery_post_life:
  assumes "db' = handled_db (recovery_post lib cfg now rq sv)"
  shows "life db' k' sid = life (sv_db sv) k' sid \<or> life_step ByRevocation (life (sv_db sv) k' sid) (life db' k' sid)
    \<or> life_step BySecondFactor (life (sv_db sv) k' sid) (life db' k' sid)
      \<and> factor_evidence lib cfg now rq (sv_db sv) k' sid"
proof (cases rule: pending_session_cases [of sv lib cfg now rq "''recovery:''" "recovery_body lib rq"])
  case early
  then show ?thesis using assms unfolding recovery_post_def only_revokes_def by blast
next
  case (body c s u t sv2)
  let ?db1 = "touchSession (tn_schema_name t) (ss_id s) now (sv_db sv)"
  have d: "db' = handled_db (recovery_body lib rq (s, u, t) sv2)"
    using assms body(5) by (simp add: recovery_post_def)
  from recovery_body_db [of lib rq s u t sv2 now] consider "db' = ?db1"
    | db2 where "factor_shown lib now rq u" "keeps_sessions ?db1 db2"
        "db' = setSessionTotpPending (tn_schema_name t) (ss_id s) False db2"
    unfolding d body(4) by blast
  then show ?thesis
  proof cases
    case 1
    then show ?thesis using touchSession_same by (simp add: same_life_def)
  next
    case 2
    from second_factor_life [OF body(1-3) 2] show ?thesis by blast
  qed
qed


lemma auth_path_sessions:
  assumes "prefix ''/auth/'' (rq_path rq)"
  shows "keeps_sessions db (fst (gate_request lib cfg now rq db))"
proof -
  have "\<not> protected_path (rq_path rq)" using assms protected_not_open(2) by blast
  then show ?thesis
    using assms isSetupComplete_sessions [of db now "fst (resolve_tenant cfg rq db)"]
    by (auto simp: gate_request_def auth_gate_def Let_def case_prod_beta)
qed

lemma both_branches: "(c \<Longrightarrow> P a) \<Longrightarrow> (\<not> c \<Longrightarrow> P b) \<Longrightarrow> P (if c then a else b)"
  by simp

lemma run_handler_cases:
  assumes "h = run_handler lib cfg now dr k cx rq sv"
  shows "rq_path rq = ''/auth/login'' \<and> h = login_post lib cfg now dr k cx rq sv
    \<or> rq_path rq = ''/auth/totp'' \<and> h = totp_post lib cfg now rq sv
    \<or> rq_path rq = ''/auth/recovery'' \<and> h = recovery_post lib cfg now rq sv
    \<or> only_revokes (sv_db sv) (handled_db h)"
proof -
  define P where "P h \<longleftrightarrow> rq_path rq = ''/auth/login'' \<and> h = login_post lib cfg now dr k cx rq sv
    \<or> rq_path rq = ''/auth/totp'' \<and> h = totp_post lib cfg now rq sv
    \<or> rq_path rq = ''/auth/recovery'' \<and> h = recovery_post lib cfg now rq sv
    \<or> only_revokes (sv_db sv) (handled_db h)" for h
  have advance: "rq_path rq = ''/auth/login'' \<Longrightarrow> P (login_post lib cfg now dr k cx rq sv)"
    "rq_path rq = ''/auth/totp'' \<Longrightarrow> P (totp_post lib cfg now rq sv)"
    "rq_path rq = ''/auth/recovery'' \<Longrightarrow> P (recovery_post lib cfg now rq sv)"
    unfolding P_def by blast+
  have revoke: "only_revokes (sv_db sv) (handled_db h) \<Longrightarrow> P h" for h unfolding P_def by blast
  have "only_revokes (sv_db sv) (handled_db (reply r sv))" for r by simp
  note others = revoke [OF this] account_revokes [THEN revoke] second_factor_page_revokes [THEN revoke]
    logout_revokes [THEN revoke]
  have "P (run_handler lib cfg now dr k cx rq sv)"
    unfolding run_handler_def Let_def prod.inject
    by (intro both_branches [of _ P])
       (erule conjunct2 [THEN advance(1)] | erule conjunct2 [THEN advance(2)]
        | erule conjunct2 [THEN advance(3)] | rule others)+
  then show ?thesis unfolding assms P_def .
qed

text \<open>One request, seen from any session: it stays, is revoked, or advances with evidence.\<close>

lemma serve_life:
  assumes "db' = handled_db (serve lib cfg now dr rq sv)"
    and "db1 = fst (gate_request lib cfg now rq (sv_db sv))"
    and "schema = fst (resolve_tenant cfg rq (sv_db sv))"
  shows "life db' k sid = life (sv_db sv) k sid \<or> life_step ByRevocation (life (sv_db sv) k sid) (life db' k sid)
    \<or> life_step ByPassword (life (sv_db sv) k sid) (life db' k sid) \<and> rq_path rq = ''/auth/login''
       \<and> password_evidence lib now dr schema rq db1 sid (life db' k sid = Waiting)
    \<or> life_step BySecondFactor (life (sv_db sv) k sid) (life db' k sid)
       \<and> rq_path rq \<in> {''/auth/totp'', ''/auth/recovery''} \<and> factor_evidence lib cfg now rq db1 k sid"
proof -
  obtain g where g: "gate_request lib cfg now rq (sv_db sv) = (db1, g)"
    using assms(2) by (cases "gate_request lib cfg now rq (sv_db sv)") simp
  let ?sv1 = "sv\<lparr>sv_db := db1\<rparr>"
  have gate: "only_revokes (sv_db sv) db1"
    using gate_request_revokes [of "sv_db sv" lib cfg now rq] by (simp add: g)
  consider (replied) "db' = db1" | (passed) cx where "db' = handled_db (run_handler lib cfg now dr schema cx rq ?sv1)"
    using assms(1,3) g by (auto simp: serve_def Let_def split: sum.splits gate_result.splits)
  then show ?thesis
  proof cases
    case replied
    with gate show ?thesis unfolding only_revokes_def by blast
  next
    case passed
    show ?thesis
    proof (cases "prefix ''/auth/'' (rq_path rq)")
      case False
      have "only_revokes (sv_db ?sv1) db'"
        using run_handler_cases [OF refl, of rq lib cfg now dr schema cx ?sv1] False unfolding passed by auto
      then have "only_revokes db1 db'" by simp
      with gate have "only_revokes (sv_db sv) db'" by (rule only_revokes_trans)
      then show ?thesis unfolding only_revokes_def by blast
    next
      case True
      have l: "life (sv_db sv) k sid = life db1 k sid"
        using keeps_sessions_life [OF auth_path_sessions [OF True], of lib cfg now "sv_db sv"] by (simp add: g)
      from run_handler_cases [OF refl, of rq lib cfg now dr schema cx ?sv1] consider "rq_path rq = ''/auth/login''" "db' = handled_db (login_post lib cfg now dr schema cx rq ?sv1)"
        | "rq_path rq = ''/auth/totp''" "db' = handled_db (totp_post lib cfg now rq ?sv1)"
        | "rq_path rq = ''/auth/recovery''" "db' = handled_db (recovery_post lib cfg now rq ?sv1)"
        | "only_revokes db1 db'"
        unfolding passed by auto
      then show ?thesis
      proof cases
        case 1
        from login_post_life [OF 1(2), of k sid] show ?thesis unfolding l by (auto simp: 1(1))
      next
        case 2
        from totp_post_life [OF 2(2), of k sid] show ?thesis unfolding l by (auto simp: 2(1))
      next
        case 3
        from recovery_post_life [OF 3(2), of k sid] show ?thesis unfolding l by (auto simp: 3(1))
      next
        case 4
        then show ?thesis unfolding l only_revokes_def by blast
      qed
    qed
  qed
qed

definition serve_all ::
  "auth_lib \<Rightarrow> gate_config \<Rightarrow> (timestamp \<times> draws \<times> request) list \<Rightarrow> auth_server \<Rightarrow> auth_server" where
  "serve_all lib cfg rqs sv = fold (\<lambda>(now, dr, rq) sv. fst (serve lib cfg now dr rq sv)) rqs sv"

definition life_moves :: "session_life \<Rightarrow> session_life \<Rightarrow> bool" where
  "life_moves a b \<longleftrightarrow> (\<exists>ev. life_step ev a b)"

lemma serve_moves: "life_moves\<^sup>*\<^sup>* (life (sv_db sv) k sid) (life (handled_db (serve lib cfg now dr rq sv)) k sid)"
proof -
  have "life (handled_db (serve lib cfg now dr rq sv)) k sid = life (sv_db sv) k sid
      \<or> life_moves (life (sv_db sv) k sid) (life (handled_db (serve lib cfg now dr rq sv)) k sid)"
    using serve_life [OF refl refl refl, of lib cfg now dr rq sv k sid] unfolding life_moves_def by blast
  then show ?thesis by auto
qed

lemma serve_all_moves: "life_moves\<^sup>*\<^sup>* (life (sv_db sv) k sid) (life (sv_db (serve_all lib cfg rqs sv)) k sid)"
proof (induction rqs arbitrary: sv)
  case Nil
  show ?case by (simp add: serve_all_def)
next
  case (Cons x rqs)
  obtain now dr rq where x: "x = (now, dr, rq)" by (cases x)
  have "serve_all lib cfg (x # rqs) sv = serve_all lib cfg rqs (fst (serve lib cfg now dr rq sv))"
    by (simp add: serve_all_def x)
  with rtranclp_trans [OF serve_moves Cons.IH] show ?case by simp
qed

lemma ended_final: "life_moves\<^sup>*\<^sup>* Ended l \<Longrightarrow> l = Ended"
proof (induction rule: rtranclp_induct)
  case (step y z)
  then obtain ev where "life_step ev Ended z" by (auto simp: life_moves_def)
  then show ?case by cases
qed simp

section \<open>Accounts under login\<close>

text \<open>The public tables: users and sessions of the default tenant.\<close>

abbreviation public_users :: "auth_db \<Rightarrow> user list" where
  "public_users db \<equiv> at_users (tables db ''public'')"

abbreviation public_sessions :: "auth_db \<Rightarrow> session list" where
  "public_sessions db \<equiv> at_sessions (tables db ''public'')"

abbreviation patch_row :: "string \<Rightarrow> user_column list \<Rightarrow> user list \<Rightarrow> user list" where
  "patch_row uid patch \<equiv> map (\<lambda>u. if u_id u = uid then patch_user patch u else u)"

lemma visible_public: "visible_schema db ''public'' = ''public''"
  by (simp add: visible_schema_def)

lemma mirror_public:
  "''public'' \<notin> set ks \<Longrightarrow> mirrorPlatformAdmins ks uid db = Inr db' \<Longrightarrow> tables db' ''public'' = tables db ''public''"
proof (induction ks arbitrary: db)
  case (Cons k rest)
  from Cons.prems(2) obtain t0 where t0: "assertSchema k" "map_of (auth_schemas db) k = Some t0"
    by (auto split: if_splits option.splits)
  define db1 where "db1 = put_tables k
    (fold mirror_into (filter (\<lambda>u. u_role u = RoleAdmin \<and> u_id u = uid) (public_users db)) t0) db"
  have "mirrorPlatformAdmins rest uid db1 = Inr db'"
    using Cons.prems(2) t0 by (simp add: db1_def schema_write)
  with Cons.IH Cons.prems(1) have "tables db' ''public'' = tables db1 ''public''" by simp
  moreover have "tables db1 ''public'' = tables db ''public''"
    using Cons.prems(1) t0 unfolding db1_def auth.get_put visible_public by (auto simp: visible_schema_def)
  ultimately show ?case by simp
qed simp

lemma update_public:
  assumes "updateAuthenticatedUser ''public'' w patch db = Inr db'" and "patch \<noteq> []"
  shows "public_users db' = patch_row (u_id w) patch (public_users db)"
    and "public_sessions db' = public_sessions db"
proof -
  let ?t = "map_user (u_id w) (patch_user patch) (tables db ''public'')"
  have "tables db' ''public'' = ?t"
  proof (cases "u_role w = RoleAdmin")
    case True
    then have "mirrorPlatformAdmins (tenant_schemas db) (u_id w) (put_tables ''public'' ?t db) = Inr db'"
      using assms by (simp add: updateAuthenticatedUser_def updatePlatformAdmin_def split: option.splits)
    with mirror_public [OF _ this] show ?thesis by (simp add: tenant_schemas_def)
  next
    case False
    then show ?thesis using assms by (auto simp: updateAuthenticatedUser_def updateUser_def)
  qed
  then show "public_users db' = patch_row (u_id w) patch (public_users db)"
    and "public_sessions db' = public_sessions db" by (simp_all add: map_user_def)
qed

lemma audit_public: "public_users (audit aid now ''public'' cx rq act inp db) = public_users db"
  "public_sessions (audit aid now ''public'' cx rq act inp db) = public_sessions db"
  by (simp_all add: audit_def insertAudit_def case_prod_beta)

lemma open_login_session_public:
  fixes sv :: auth_server
  assumes "db' = handled_db (open_login_session lib cfg now dr ''public'' cx rq w sv)"
  shows "public_users db' = public_users (sv_db sv)"
    and "filter (\<lambda>s. ss_user_id s \<noteq> u_id w) (public_sessions db')
       = filter (\<lambda>s. ss_user_id s \<noteq> u_id w) (public_sessions (sv_db sv))"
proof -
  have "db' = sv_db sv \<or> (\<exists>s. ss_user_id s = u_id w \<and> insertSession ''public'' s (sv_db sv) = Inr (db', s))"
    using assms unfolding open_login_session_def
    by (auto split: option.splits sum.splits dest: createSession_made(1,3))
  then have "db' = sv_db sv \<or> (\<exists>s. ss_user_id s = u_id w \<and> db' = put_tables ''public''
      ((tables (sv_db sv) ''public'')\<lparr>at_sessions := public_sessions (sv_db sv) @ [s]\<rparr>) (sv_db sv))"
    by (auto simp: insertSession_def split: if_splits)
  then show "public_users db' = public_users (sv_db sv)"
    and "filter (\<lambda>s. ss_user_id s \<noteq> u_id w) (public_sessions db')
       = filter (\<lambda>s. ss_user_id s \<noteq> u_id w) (public_sessions (sv_db sv))"
    by auto
qed

text \<open>What one checked password does to the public tables.\<close>

lemma check_password_public:
  fixes sv :: auth_server
  assumes "db' = handled_db (check_password lib cfg now dr ''public'' cx rq name pw w sv)"
  shows "public_users db' = public_users (sv_db sv)
      \<or> public_users db' = patch_row (u_id w)
          (if verifyPassword lib pw (u_password_hash w) then success_patch now else failure_patch (gc_auth cfg) now w)
          (public_users (sv_db sv))"
    and "\<not> verifyPassword lib pw (u_password_hash w) \<Longrightarrow> public_sessions db' = public_sessions (sv_db sv)"
    and "filter (\<lambda>s. ss_user_id s \<noteq> u_id w) (public_sessions db')
       = filter (\<lambda>s. ss_user_id s \<noteq> u_id w) (public_sessions (sv_db sv))"
proof -
  define p where "p = (if verifyPassword lib pw (u_password_hash w) then success_patch now
    else failure_patch (gc_auth cfg) now w)"
  have p: "p \<noteq> []" by (simp add: p_def success_patch_def failure_patch_def Let_def)
  have "(public_users db' = public_users (sv_db sv) \<or> public_users db' = patch_row (u_id w) p (public_users (sv_db sv)))
      \<and> (\<not> verifyPassword lib pw (u_password_hash w) \<longrightarrow> public_sessions db' = public_sessions (sv_db sv))
      \<and> filter (\<lambda>s. ss_user_id s \<noteq> u_id w) (public_sessions db')
         = filter (\<lambda>s. ss_user_id s \<noteq> u_id w) (public_sessions (sv_db sv))"
  proof (cases "updateAuthenticatedUser ''public'' w p (sv_db sv)")
    case (Inl e)
    then have "db' = sv_db sv" using assms by (auto simp: check_password_def run_db_def p_def split: if_splits)
    then show ?thesis by simp
  next
    case (Inr db1)
    note up = update_public [OF Inr p]
    show ?thesis
    proof (cases "verifyPassword lib pw (u_password_hash w)")
      case False
      then obtain act inp where "db' = audit (dr_audit dr) now ''public'' cx rq act inp db1"
        using assms Inr by (auto simp: check_password_def run_db_def p_def Let_def)
      with up show ?thesis by (simp add: audit_public)
    next
      case True
      then obtain act inp where d: "db' = handled_db (open_login_session lib cfg now dr ''public'' cx rq w
          (sv\<lparr>sv_db := audit (dr_audit dr) now ''public'' cx rq act inp db1\<rparr>))"
        using assms Inr by (auto simp: check_password_def run_db_def p_def Let_def)
      from open_login_session_public [OF d] up True show ?thesis by (simp add: audit_public)
    qed
  qed
  then show "public_users db' = public_users (sv_db sv)
      \<or> public_users db' = patch_row (u_id w)
          (if verifyPassword lib pw (u_password_hash w) then success_patch now else failure_patch (gc_auth cfg) now w)
          (public_users (sv_db sv))"
    and "\<not> verifyPassword lib pw (u_password_hash w) \<Longrightarrow> public_sessions db' = public_sessions (sv_db sv)"
    and "filter (\<lambda>s. ss_user_id s \<noteq> u_id w) (public_sessions db')
       = filter (\<lambda>s. ss_user_id s \<noteq> u_id w) (public_sessions (sv_db sv))"
    unfolding p_def by blast+
qed

lemma set_column_key [simp]: "u_id (set_column c u) = u_id u" "u_username (set_column c u) = u_username u"
  by (cases c; simp)+

lemma patch_user_key [simp]: "u_id (patch_user p u) = u_id u" "u_username (patch_user p u) = u_username u"
  by (induction p arbitrary: u) (simp_all add: patch_user_def)

lemma patch_row_ids: "map u_id (patch_row uid p us) = map u_id us"
  by (induction us) simp_all

lemma find_patch_row:
  assumes "distinct (map u_id us)" and "find (\<lambda>u. u_username u = name) us = Some u" and "w \<in> set us"
  shows "find (\<lambda>u. u_username u = name) (patch_row (u_id w) p us) = Some (if w = u then patch_user p u else u)"
proof -
  have find: "find (\<lambda>u. u_username u = name) (patch_row (u_id w) p us)
      = map_option (\<lambda>u. if u_id u = u_id w then patch_user p u else u) (find (\<lambda>u. u_username u = name) us)"
    by (induction us) auto
  have "u \<in> set us" using assms(2) by (auto simp: find_Some_iff)
  then have "u_id u = u_id w \<longleftrightarrow> w = u" using assms(1,3) by (auto simp: distinct_map inj_on_def)
  then show ?thesis by (simp add: find assms(2))
qed

text \<open>A login attempt whose password is wrong for the account named.\<close>

definition wrong_guess :: "auth_lib \<Rightarrow> string \<Rightarrow> string \<Rightarrow> request \<Rightarrow> bool" where
  "wrong_guess lib name hash rq \<longleftrightarrow>
     (case lib_login_body lib (rq_body rq) of
        None \<Rightarrow> True
      | Some (raw, pw) \<Rightarrow> js_trim raw = name \<longrightarrow> \<not> verifyPassword lib pw hash)"

abbreviation sessions_of :: "string \<Rightarrow> auth_db \<Rightarrow> session list" where
  "sessions_of uid db \<equiv> filter (\<lambda>s. ss_user_id s = uid) (public_sessions db)"

lemma filter_other:
  assumes "filter (\<lambda>s. ss_user_id s \<noteq> b) xs = filter (\<lambda>s. ss_user_id s \<noteq> b) ys" and "a \<noteq> b"
  shows "filter (\<lambda>s. ss_user_id s = a) xs = filter (\<lambda>s. ss_user_id s = a) ys"
proof -
  have "filter (\<lambda>s. ss_user_id s = a) zs = filter (\<lambda>s. ss_user_id s = a) (filter (\<lambda>s. ss_user_id s \<noteq> b) zs)" for zs
    using assms(2) by (auto intro: filter_cong)
  with assms(1) show ?thesis by metis
qed

text \<open>
  One attempt, seen from the account: nothing happens to it, or its unlocked row records one
  more failure; no session of it appears.
\<close>

lemma login_attempt:
  assumes ids: "distinct (map u_id (public_users (sv_db sv)))"
    and row: "getUserByUsername (sv_db sv) ''public'' name = Some u"
    and wrong: "is_locked now u \<or> wrong_guess lib name (u_password_hash u) rq"
    and db': "db' = handled_db (login_post lib cfg now dr ''public'' cx rq sv)"
  shows "distinct (map u_id (public_users db')) \<and> sessions_of (u_id u) db' = sessions_of (u_id u) (sv_db sv)
    \<and> (getUserByUsername db' ''public'' name = Some u
       \<or> \<not> is_locked now u
          \<and> getUserByUsername db' ''public'' name = Some (patch_user (failure_patch (gc_auth cfg) now u) u))"
proof (cases rule: login_post_cases [of lib cfg now dr "''public''" cx rq sv])
  case (checked sv1)
  show ?thesis
  proof (cases rule: login_account_cases [of lib cfg now dr "''public''" cx rq sv1])
    case same
    then show ?thesis using checked assms by simp
  next
    case guess: (checked raw pw w)
    have d: "db' = handled_db (check_password lib cfg now dr ''public'' cx rq (js_trim raw) pw w sv1)"
      using db' checked(2) guess(5) by simp
    note pub = check_password_public [OF d, unfolded checked(1)]
    define p where "p = (if verifyPassword lib pw (u_password_hash w) then success_patch now
      else failure_patch (gc_auth cfg) now w)"
    have found: "find (\<lambda>u. u_username u = name) (public_users (sv_db sv)) = Some u"
      "find (\<lambda>u. u_username u = js_trim raw) (public_users (sv_db sv)) = Some w"
      using row guess(2) checked(1) by (simp_all add: getUserByUsername_def)
    then have mem: "w \<in> set (public_users (sv_db sv))" "u \<in> set (public_users (sv_db sv))"
      and names: "u_username u = name" "u_username w = js_trim raw"
      by (auto simp: find_Some_iff)
    have rows: "public_users db' = public_users (sv_db sv) \<or> public_users db' = patch_row (u_id w) p (public_users (sv_db sv))"
      using pub(1) unfolding p_def .
    have "map u_id (public_users db') = map u_id (public_users (sv_db sv))"
      using rows by (elim disjE) (simp_all only: patch_row_ids)
    with ids have "distinct (map u_id (public_users db'))" by (simp only:)
    moreover have "sessions_of (u_id u) db' = sessions_of (u_id u) (sv_db sv)
        \<and> (w = u \<longrightarrow> \<not> is_locked now u \<and> p = failure_patch (gc_auth cfg) now u)"
    proof (cases "w = u")
      case True
      then have "\<not> is_locked now u" "\<not> verifyPassword lib pw (u_password_hash w)"
        using wrong guess(1,4) names by (auto simp: wrong_guess_def)
      with pub(2) True show ?thesis by (simp add: p_def)
    next
      case False
      then have "u_id u \<noteq> u_id w" using ids mem by (auto simp: distinct_map inj_on_def)
      with filter_other [OF pub(3)] False show ?thesis by simp
    qed
    moreover have "getUserByUsername db' ''public'' name = Some u
        \<or> getUserByUsername db' ''public'' name = Some (if w = u then patch_user p u else u)"
      using rows found(1) find_patch_row [OF ids found(1) mem(1)] by (auto simp: getUserByUsername_def)
    ultimately show ?thesis by (auto split: if_splits)
  qed
qed (use assms in \<open>simp_all add: audit_public getUserByUsername_def\<close>)

type_synonym attempt = "timestamp \<times> draws \<times> gate_context \<times> request"

definition login_run :: "auth_lib \<Rightarrow> gate_config \<Rightarrow> attempt list \<Rightarrow> auth_server \<Rightarrow> auth_server" where
  "login_run lib cfg attempts sv =
     fold (\<lambda>(now, dr, cx, rq) sv. fst (login_post lib cfg now dr ''public'' cx rq sv)) attempts sv"

text \<open>The account during a run of wrong guesses inside one lockout period that starts at \<open>t0\<close>.\<close>

definition guess_inv :: "auth_config \<Rightarrow> timestamp \<Rightarrow> user \<Rightarrow> user \<Rightarrow> bool" where
  "guess_inv cfg t0 u0 u \<longleftrightarrow>
     u_id u = u_id u0 \<and> u_password_hash u = u_password_hash u0
     \<and> (u_failed_login_count u = u_failed_login_count u0 \<or> u_failed_login_count u < loginLockoutThreshold cfg
        \<or> (\<exists>e. u_locked_until u = Some e \<and> t0 + loginLockoutSeconds cfg * 1000 \<le> e))
     \<and> (u_failed_login_count u \<le> u_failed_login_count u0 + 1 \<or> u_failed_login_count u < loginLockoutThreshold cfg + 1)"

lemma guess_inv_failure:
  assumes "guess_inv cfg t0 u0 u" and "\<not> is_locked now u"
    and "t0 \<le> now" and "now < t0 + loginLockoutSeconds cfg * 1000"
  shows "guess_inv cfg t0 u0 (patch_user (failure_patch cfg now u) u)"
proof -
  have "\<nexists>e. u_locked_until u = Some e \<and> t0 + loginLockoutSeconds cfg * 1000 \<le> e"
    using assms(2,4) by (auto simp: is_locked_def)
  with assms show ?thesis
    by (auto simp: guess_inv_def failure_patch_def patch_user_def Let_def)
qed

lemma login_run_inv:
  assumes "distinct (map u_id (public_users (sv_db sv)))"
    and "getUserByUsername (sv_db sv) ''public'' name = Some u" and "guess_inv (gc_auth cfg) t0 u0 u"
    and "\<forall>(now, dr, cx, rq) \<in> set attempts. t0 \<le> now \<and> now < t0 + loginLockoutSeconds (gc_auth cfg) * 1000
           \<and> wrong_guess lib name (u_password_hash u0) rq"
  shows "\<exists>u'. getUserByUsername (sv_db (login_run lib cfg attempts sv)) ''public'' name = Some u'
    \<and> guess_inv (gc_auth cfg) t0 u0 u'
    \<and> sessions_of (u_id u0) (sv_db (login_run lib cfg attempts sv)) = sessions_of (u_id u0) (sv_db sv)"
  using assms
proof (induction attempts arbitrary: sv u)
  case Nil
  then show ?case by (auto simp: login_run_def)
next
  case (Cons a attempts)
  obtain now dr cx rq where a: "a = (now, dr, cx, rq)" by (cases a)
  define sv1 where "sv1 = fst (login_post lib cfg now dr ''public'' cx rq sv)"
  have t: "t0 \<le> now" "now < t0 + loginLockoutSeconds (gc_auth cfg) * 1000"
    and w: "wrong_guess lib name (u_password_hash u) rq" and id: "u_id u = u_id u0"
    using Cons.prems by (auto simp: a guess_inv_def)
  note step = login_attempt [OF Cons.prems(1,2) disjI2 [OF w] refl, where now = now and cfg = cfg and dr = dr and cx = cx,
      folded sv1_def]
  obtain u1 where "getUserByUsername (sv_db sv1) ''public'' name = Some u1" "guess_inv (gc_auth cfg) t0 u0 u1"
    using step Cons.prems(3) guess_inv_failure [OF Cons.prems(3) _ t] by auto
  moreover have "distinct (map u_id (public_users (sv_db sv1)))"
    "sessions_of (u_id u0) (sv_db sv1) = sessions_of (u_id u0) (sv_db sv)"
    using step id by auto
  moreover have "login_run lib cfg (a # attempts) sv = login_run lib cfg attempts sv1"
    by (simp add: login_run_def a sv1_def)
  ultimately show ?case using Cons.IH [of sv1 u1] Cons.prems(4) by simp
qed

section \<open>Recovery codes\<close>

lemma consume_single:
  assumes "filter match hs = [h]"
  shows "takeWhile (\<lambda>h. \<not> match h) hs @ tl (dropWhile (\<lambda>h. \<not> match h) hs) = remove1 h hs"
  using assms
proof (induction hs)
  case (Cons x hs)
  show ?case
  proof (cases "match x")
    case False
    then have "filter match hs = [h]" using Cons.prems by simp
    moreover from this have "match h" by (metis filter_eq_Cons_iff)
    ultimately show ?thesis using Cons.IH False by auto
  qed (use Cons.prems in simp)
qed simp

lemma consumeRecoveryCode_single:
  assumes "filter (verifyPassword lib code) hs = [h]"
  shows "consumeRecoveryCode lib code hs = (True, remove1 h hs)"
proof -
  have "h \<in> set (filter (verifyPassword lib code) hs)" by (simp add: assms)
  then have "list_ex (verifyPassword lib code) hs" by (auto simp: list_ex_iff)
  then show ?thesis
    by (simp add: consumeRecoveryCode_def consume_loop_spec consume_single [OF assms])
qed

lemma filter_remove1_single:
  assumes "filter match hs = [h]"
  shows "\<not> (\<exists>x \<in> set (remove1 h hs). match x)"
proof -
  have "filter match (remove1 h hs) = []" by (simp add: filter_remove1 assms)
  then show ?thesis by (simp add: filter_empty_conv)
qed

lemma find_id_patch_row:
  "find (\<lambda>u. u_id u = uid) (patch_row uid p us) = map_option (patch_user p) (find (\<lambda>u. u_id u = uid) us)"
  by (induction us) auto

section \<open>Properties\<close>

text \<open>
  (C2) The service refines the life cycle of sessions.  Over any sequence of requests a
  session moves only along the abstract steps, so an ended one stays ended.  A request that
  starts a session is a login with the right password of an active account that is not
  locked, and the session waits for the second factor exactly when the account has one; a
  request that opens a waiting session carries its cookie, its cross-site token and a valid
  code or unused recovery code.
\<close>

theorem session_lifecycle_refined:
  "life_moves\<^sup>*\<^sup>* (life (sv_db sv) k sid) (life (sv_db (serve_all lib cfg rqs sv)) k sid)
   \<and> (life (sv_db sv) k sid = Ended \<longrightarrow> life (sv_db (serve_all lib cfg rqs sv)) k sid = Ended)
   \<and> (life (sv_db sv) k sid = Absent \<and> life (sv_db (fst (serve lib cfg now dr rq sv))) k sid \<noteq> Absent \<longrightarrow>
        rq_path rq = ''/auth/login''
        \<and> password_evidence lib now dr (fst (resolve_tenant cfg rq (sv_db sv))) rq
            (fst (gate_request lib cfg now rq (sv_db sv))) sid
            (life (sv_db (fst (serve lib cfg now dr rq sv))) k sid = Waiting))
   \<and> (life (sv_db sv) k sid = Waiting \<and> life (sv_db (fst (serve lib cfg now dr rq sv))) k sid = Opened \<longrightarrow>
        rq_path rq \<in> {''/auth/totp'', ''/auth/recovery''}
        \<and> factor_evidence lib cfg now rq (fst (gate_request lib cfg now rq (sv_db sv))) k sid)"
proof (intro conjI impI)
  show "life_moves\<^sup>*\<^sup>* (life (sv_db sv) k sid) (life (sv_db (serve_all lib cfg rqs sv)) k sid)"
    by (rule serve_all_moves)
  show "life (sv_db (serve_all lib cfg rqs sv)) k sid = Ended" if "life (sv_db sv) k sid = Ended"
    using serve_all_moves [of sv k sid lib cfg rqs] that by (auto dest: ended_final)
qed (use serve_life [OF refl refl refl, of lib cfg now dr rq sv k sid] in auto)


text \<open>
  A recovery code opens one session: the request that presents it removes exactly its hash
  from the account, so the same code is refused afterwards, and every code with another
  stored hash still works.
\<close>

theorem recovery_code_single_use:
  assumes user: "getUserById (sv_db sv) ''public'' (u_id u) = Some u" and t: "tn_schema_name t = ''public''"
    and code: "code = strip_ws (js_upper (js_trim (form_field rq ''code'')))" "code \<noteq> []"
    and match: "filter (verifyPassword lib code) (u_recovery_codes_hashed u) = [h]"
    and ran: "recovery_body lib rq (s, u, t) sv = (sv', Inr r)"
  shows "\<exists>u'. getUserById (sv_db sv') ''public'' (u_id u) = Some u'
    \<and> u_recovery_codes_hashed u' = remove1 h (u_recovery_codes_hashed u)
    \<and> \<not> fst (consumeRecoveryCode lib code (u_recovery_codes_hashed u'))
    \<and> (\<forall>code' h'. h' \<in> set (u_recovery_codes_hashed u) \<and> h' \<noteq> h \<and> verifyPassword lib code' h' \<longrightarrow>
         fst (consumeRecoveryCode lib code' (u_recovery_codes_hashed u')))"
proof -
  let ?p = "[SetRecoveryCodes (remove1 h (u_recovery_codes_hashed u))]"
  obtain db1 where up: "updateAuthenticatedUser ''public'' u ?p (sv_db sv) = Inr db1"
    and sv': "sv_db sv' = setSessionTotpPending ''public'' (ss_id s) False db1"
    using ran code t consumeRecoveryCode_single [OF match]
    by (auto simp: recovery_body_def Let_def run_db_def reply_def throw_def split: sum.splits)
  have "public_users (sv_db sv') = public_users db1"
    by (simp add: sv' setSessionTotpPending_def map_session_def map_sessions_def)
  also have "\<dots> = patch_row (u_id u) ?p (public_users (sv_db sv))" by (rule update_public(1) [OF up]) simp
  finally have "getUserById (sv_db sv') ''public'' (u_id u) = Some (patch_user ?p u)"
    using user by (simp add: getUserById_def find_id_patch_row)
  moreover have "u_recovery_codes_hashed (patch_user ?p u) = remove1 h (u_recovery_codes_hashed u)"
    by (simp add: patch_user_def)
  moreover have "fst (consumeRecoveryCode lib code' (remove1 h (u_recovery_codes_hashed u)))"
    if "h' \<in> set (u_recovery_codes_hashed u)" "h' \<noteq> h" "verifyPassword lib code' h'" for code' h'
    using that by (auto simp: consumeRecoveryCode_ok)
  ultimately show ?thesis
    using filter_remove1_single [OF match] by (auto simp: consumeRecoveryCode_ok)
qed



section \<open>Witnesses\<close>

definition demo_gate_config :: gate_config where
  "demo_gate_config = \<lparr>gc_cookieName = ''bf'', gc_enableDemoTenant = False, gc_firmwareImportApiKey = None,
     gc_otaImportApiKey = None, gc_auth = demo_auth_config\<rparr>"

definition demo_limiter :: limiter where
  "demo_limiter = \<lparr>rl_window = 60000, rl_max = 8, rl_maxBuckets = 10000, rl_maxEntries = 100000,
     buckets = [], entries = 0, nextSweep = 0\<rparr>"

lemma demo_limiter_created: "createRateLimiter guard_config = Inr demo_limiter"
  by (simp add: createRateLimiter_def guard_config_def demo_limiter_def is_safe_integer_def is_integer_def)

definition demo_server :: auth_server where
  "demo_server = \<lparr>sv_db = demo_auth_db, sv_loginGuard = demo_limiter, sv_secondFactorGuard = demo_limiter\<rparr>"

definition demo_draws :: draws where
  "demo_draws = \<lparr>dr_session = replicate 32 171, dr_csrf = replicate 32 5, dr_audit = ''a1'', dr_salt = [],
     dr_salts = (\<lambda>i. []), dr_iv = [], dr_totp = [], dr_codes = (\<lambda>i. [])\<rparr>"

definition demo_login :: "string \<Rightarrow> request" where
  "demo_login pw = \<lparr>rq_method = ''POST'', rq_path = ''/auth/login'', rq_headers = [], rq_cookies = [],
     rq_body = JObj [(''username'', JStr ''olga''), (''password'', JStr pw)]\<rparr>"

definition demo_sid :: string where
  "demo_sid = hex_encode (replicate 32 171)"

definition demo_logged_in :: auth_server where
  "demo_logged_in = fst (serve demo_lib demo_gate_config 1000 demo_draws (demo_login ''secret'') demo_server)"

lemma demo_absent: "life (sv_db demo_server) ''public'' demo_sid = Absent"
  by code_simp

lemma demo_opened: "life (sv_db demo_logged_in) ''public'' demo_sid = Opened"
  by code_simp

theorem session_lifecycle_refined_witness:
  "life (sv_db demo_server) ''public'' demo_sid = Absent \<and> life (sv_db demo_logged_in) ''public'' demo_sid = Opened
   \<and> password_evidence demo_lib 1000 demo_draws (fst (resolve_tenant demo_gate_config (demo_login ''secret'') (sv_db demo_server)))
       (demo_login ''secret'')
       (fst (gate_request demo_lib demo_gate_config 1000 (demo_login ''secret'') (sv_db demo_server))) demo_sid False"
  using session_lifecycle_refined [of demo_server "''public''" demo_sid demo_lib demo_gate_config "[]" 1000 demo_draws
      "demo_login ''secret''", folded demo_logged_in_def] demo_absent demo_opened
  by simp

definition demo_visit :: request where
  "demo_visit = \<lparr>rq_method = ''GET'', rq_path = ''/admin/kiosks'', rq_headers = [],
     rq_cookies = [(''bf'', signCookie demo_lib ''t1'' demo_sid)], rq_body = JNull\<rparr>"

fun passes :: "(auth_error, gate_result) result \<Rightarrow> bool" where
  "passes (Inr (Next cx)) = True"
| "passes _ = False"

lemma passes_Next: "passes g \<Longrightarrow> \<exists>cx. g = Inr (Next cx)"
  by (cases g rule: passes.cases) auto

lemma demo_visit_passes: "passes (snd (gate_request demo_lib demo_gate_config 2000 demo_visit (sv_db demo_logged_in)))"
  by code_simp


definition demo_attempts :: "attempt list" where
  "demo_attempts = [(1000, demo_draws, empty_context, demo_login ''wrong''), (1500, demo_draws, empty_context, demo_login ''guess''),
     (2000, demo_draws, empty_context, demo_login ''again''), (2500, demo_draws, empty_context, demo_login ''more'')]"


definition demo_coded :: user where
  "demo_coded = demo_operator\<lparr>u_totp_enabled := True, u_recovery_codes_hashed := [''h:AAA'', ''h:BBB'']\<rparr>"

definition demo_coded_server :: auth_server where
  "demo_coded_server = demo_server\<lparr>sv_db := put_tables ''public'' (empty_tables\<lparr>at_users := [demo_coded]\<rparr>) demo_auth_db\<rparr>"

definition demo_recovery :: request where
  "demo_recovery = \<lparr>rq_method = ''POST'', rq_path = ''/auth/recovery'', rq_headers = [], rq_cookies = [],
     rq_body = JObj [(''code'', JStr '' bbb '')]\<rparr>"

definition demo_waiting :: session where
  "demo_waiting = \<lparr>ss_id = demo_sid, ss_user_id = ''u1'', ss_csrf_token = [], ss_totp_pending = True, ss_user_agent = None,
     ss_ip_address = None, ss_issued_at = 0, ss_last_seen_at = 0, ss_expires_at = 9000, ss_revoked_at = None\<rparr>"

definition demo_recovered :: handled where
  "demo_recovered = recovery_body demo_lib demo_recovery (demo_waiting, demo_coded, default_tenant_row) demo_coded_server"

theorem recovery_code_single_use_witness:
  "\<exists>u'. getUserById (sv_db (fst demo_recovered)) ''public'' ''u1'' = Some u' \<and> u_recovery_codes_hashed u' = [''h:AAA'']"
proof -
  have user: "getUserById (sv_db demo_coded_server) ''public'' (u_id demo_coded) = Some demo_coded" by code_simp
  have t: "tn_schema_name default_tenant_row = ''public''" by (simp add: default_tenant_row_def)
  have code: "''BBB'' = strip_ws (js_upper (js_trim (form_field demo_recovery ''code'')))" by code_simp
  have match: "filter (verifyPassword demo_lib ''BBB'') (u_recovery_codes_hashed demo_coded) = [''h:BBB'']" by code_simp
  have "snd demo_recovered = Inr (Redirect ''/admin/'')" by code_simp
  then have ran: "recovery_body demo_lib demo_recovery (demo_waiting, demo_coded, default_tenant_row) demo_coded_server
      = (fst demo_recovered, Inr (Redirect ''/admin/''))"
    unfolding demo_recovered_def by (metis prod.collapse)
  have "u_id demo_coded = ''u1''" "remove1 ''h:BBB'' (u_recovery_codes_hashed demo_coded) = [''h:AAA'']" by code_simp+
  with recovery_code_single_use [OF user t code _ match ran] show ?thesis by auto
qed

end
