(* ===== verification/BF_LayoutEditor.thy ===== *)
theory BF_LayoutEditor
  imports BF_Layouts
begin

text \<open>
  The visual layout editor of \<^verbatim>\<open>server/src/plugins/service-admin-http/routes-admin.ts\<close>: grid
  geometry, the quick layouts, the routines that push cells out of the way, and the routes
  that create, resize, move and delete cells.  A route returns its response and the tables;
  a write that the INTEGER columns or a foreign key refuse ends the route with an error and
  keeps the earlier writes, except inside a transaction.
\<close>

section \<open>Grid geometry\<close>

record cell_pos =
  ps_row :: number
  ps_col :: number
  ps_row_span :: number
  ps_col_span :: number

definition at_pos :: "number \<Rightarrow> number \<Rightarrow> number \<Rightarrow> number \<Rightarrow> cell_pos" where
  "at_pos r c rs cs = \<lparr>ps_row = r, ps_col = c, ps_row_span = rs, ps_col_span = cs\<rparr>"

definition rangesOverlap :: "number \<Rightarrow> number \<Rightarrow> number \<Rightarrow> number \<Rightarrow> bool" where
  "rangesOverlap aStart aEnd bStart bEnd \<longleftrightarrow> aStart < bEnd \<and> bStart < aEnd"

definition cellsOverlap :: "cell_pos \<Rightarrow> cell_pos \<Rightarrow> bool" where
  "cellsOverlap a b \<longleftrightarrow>
     ps_col a < ps_col b + ps_col_span b \<and> ps_col b < ps_col a + ps_col_span a \<and>
     ps_row a < ps_row b + ps_row_span b \<and> ps_row b < ps_row a + ps_row_span a"

definition gridQuickLayout :: "nat \<Rightarrow> cell_pos list" where
  "gridQuickLayout n =
     concat (map (\<lambda>row. map (\<lambda>col. at_pos (of_nat row) (of_nat col) 1 1) [0..<n]) [0..<n])"

text \<open>\<^verbatim>\<open>Math.ceil(Math.sqrt(count))\<close>: the least number whose square is not below the count.\<close>

definition ceil_sqrt :: "nat \<Rightarrow> nat" where
  "ceil_sqrt n = nullish (find (\<lambda>c. n \<le> c * c) [0..<Suc n]) n"

definition deviceGridPositions :: "nat \<Rightarrow> (nat \<times> nat) list" where
  "deviceGridPositions count =
     (if count = 0 then []
      else let cols = ceil_sqrt count in map (\<lambda>i. (i div cols, i mod cols)) [0..<count])"

definition quickLayoutCells :: "string \<Rightarrow> cell_pos list option" where
  "quickLayoutCells preset =
     (if preset = ''single'' then Some [at_pos 0 0 1 1]
      else if preset = ''grid-2'' then Some (gridQuickLayout 2)
      else if preset = ''grid-4'' then Some (gridQuickLayout 4)
      else if preset = ''grid-8'' then Some (gridQuickLayout 8)
      else if preset = ''left-focus'' then
        Some [at_pos 0 0 4 3, at_pos 0 3 1 1, at_pos 1 3 1 1, at_pos 2 3 1 1, at_pos 3 3 1 1]
      else if preset = ''focus-right-bottom'' then
        Some [at_pos 0 0 3 3, at_pos 0 3 1 1, at_pos 1 3 1 1, at_pos 2 3 1 1,
              at_pos 3 0 1 1, at_pos 3 1 1 1, at_pos 3 2 1 1, at_pos 3 3 1 1]
      else None)"

section \<open>Writes\<close>

text \<open>The columns are 32-bit integers: another number is refused by the database.\<close>

definition is_int4 :: "number \<Rightarrow> bool" where
  "is_int4 x \<longleftrightarrow> is_integer x \<and> - 2147483648 \<le> x \<and> x \<le> 2147483647"

definition int4_or_null :: "number option \<Rightarrow> bool" where
  "int4_or_null x = (case x of None \<Rightarrow> True | Some v \<Rightarrow> is_int4 v)"

definition patch_fits :: "cell_patch \<Rightarrow> bool" where
  "patch_fits p \<longleftrightarrow> int4_or_null (cp_row p) \<and> int4_or_null (cp_col p)
                  \<and> int4_or_null (cp_row_span p) \<and> int4_or_null (cp_col_span p)"

text \<open>A write returns whether it succeeded; after a failure the route goes no further.\<close>

type_synonym db_write = "content_db \<Rightarrow> bool \<times> content_db"

definition put_cell :: "string \<Rightarrow> cell_patch \<Rightarrow> db_write" where
  "put_cell cid p db = (if patch_fits p then (True, updateLayoutCell cid p db) else (False, db))"

definition insert_cell :: "string \<Rightarrow> cell_input \<Rightarrow> db_write" where
  "insert_cell cid i db =
     (if getLayoutById db (ni_layout_id i) \<noteq> None \<and> is_int4 (ni_row i) \<and> is_int4 (ni_col i)
         \<and> int4_or_null (ni_row_span i) \<and> int4_or_null (ni_col_span i)
      then (True, createLayoutCell cid i db) else (False, db))"

definition and_then :: "db_write \<Rightarrow> db_write \<Rightarrow> db_write" where
  "and_then f g db = (case f db of (True, db1) \<Rightarrow> g db1 | (False, db1) \<Rightarrow> (False, db1))"

fun write_all :: "db_write list \<Rightarrow> db_write" where
  "write_all [] db = (True, db)"
| "write_all (w # ws) db = and_then w (write_all ws) db"

definition transact :: "db_write \<Rightarrow> db_write" where
  "transact f db = (case f db of (True, db1) \<Rightarrow> (True, db1) | (False, _) \<Rightarrow> (False, db))"

definition no_patch :: cell_patch where
  "no_patch = \<lparr>cp_row = None, cp_col = None, cp_row_span = None, cp_col_span = None, cp_stream_selector = None,
     cp_fit = None, cp_options = None, cp_input_options_json = None\<rparr>"

definition getLayoutCellById :: "content_db \<Rightarrow> string \<Rightarrow> layout_cell option" where
  "getLayoutCellById db cid = map_option rowToLayoutCell (find (\<lambda>c. lc_id c = cid) (c_cells db))"

section \<open>Pushing cells out of the way\<close>

definition pos_of :: "layout_cell \<Rightarrow> cell_pos" where
  "pos_of c = at_pos (lc_row c) (lc_col c) (lc_row_span c) (lc_col_span c)"

type_synonym positions = "(string, cell_pos) jsmap"

definition push_after :: "axis \<Rightarrow> cell_pos \<Rightarrow> cell_pos \<Rightarrow> cell_pos" where
  "push_after ax a p = (case ax of
     AxisCol \<Rightarrow> p\<lparr>ps_col := ps_col a + ps_col_span a\<rparr>
   | AxisRow \<Rightarrow> p\<lparr>ps_row := ps_row a + ps_row_span a\<rparr>)"

definition push_if :: "axis \<Rightarrow> bool \<Rightarrow> cell_pos \<Rightarrow> cell_pos \<Rightarrow> cell_pos" where
  "push_if ax other a p = (if other \<and> cellsOverlap a p then push_after ax a p else p)"

definition push_from_anchor :: "axis \<Rightarrow> string \<Rightarrow> cell_pos \<Rightarrow> positions \<Rightarrow> positions" where
  "push_from_anchor ax aid a ps = map (\<lambda>(i, p). (i, push_if ax (i \<noteq> aid) a p)) ps"

definition anchor_hits :: "string \<Rightarrow> cell_pos \<Rightarrow> positions \<Rightarrow> bool" where
  "anchor_hits aid a ps \<longleftrightarrow> list_ex (\<lambda>(i, p). i \<noteq> aid \<and> cellsOverlap a p) ps"

definition axis_key :: "axis \<Rightarrow> cell_pos \<Rightarrow> number \<times> number" where
  "axis_key ax p = (case ax of AxisCol \<Rightarrow> (ps_col p, ps_row p) | AxisRow \<Rightarrow> (ps_row p, ps_col p))"

text \<open>The cascade visits the cells in sorted order; each pushes the later ones it overlaps.\<close>

fun cascade :: "axis \<Rightarrow> positions \<Rightarrow> positions" where
  "cascade ax [] = []"
| "cascade ax ((i, p) # xs) = (i, p) # cascade ax (map (\<lambda>(j, q). (j, push_if ax (i \<noteq> j) p q)) xs)"

fun cascaded :: "axis \<Rightarrow> positions \<Rightarrow> bool" where
  "cascaded ax [] = False"
| "cascaded ax ((i, p) # xs) =
     (list_ex (\<lambda>(j, q). i \<noteq> j \<and> cellsOverlap p q) xs
      \<or> cascaded ax (map (\<lambda>(j, q). (j, push_if ax (i \<noteq> j) p q)) xs))"

definition cascade_map :: "axis \<Rightarrow> positions \<Rightarrow> positions" where
  "cascade_map ax ps =
     (let moved = cascade ax (sort_key (\<lambda>x. axis_key ax (snd x)) ps)
      in map (\<lambda>(i, p). (i, nullish (map_of moved i) p)) ps)"

fun resolve_loop :: "nat \<Rightarrow> axis \<Rightarrow> string \<Rightarrow> positions \<Rightarrow> positions" where
  "resolve_loop 0 ax aid ps = ps"
| "resolve_loop (Suc n) ax aid ps =
     (case map_of ps aid of
        None \<Rightarrow> ps
      | Some a \<Rightarrow>
          if \<not> anchor_hits aid a ps then ps
          else let ps1 = push_from_anchor ax aid a ps;
                   ps2 = cascade_map ax ps1
               in if cascaded ax (sort_key (\<lambda>x. axis_key ax (snd x)) ps1) then resolve_loop n ax aid ps2 else ps2)"

definition read_positions :: "layout_cell list \<Rightarrow> positions" where
  "read_positions cells = fold (\<lambda>c m. AList.update (lc_id c) (pos_of c) m) cells []"

definition resolved_positions :: "axis \<Rightarrow> string \<Rightarrow> layout_cell list \<Rightarrow> positions" where
  "resolved_positions ax aid cells =
     (let ps = read_positions cells in resolve_loop (length ps * length ps) ax aid ps)"

definition move_write :: "layout_cell list \<Rightarrow> string \<times> cell_pos \<Rightarrow> db_write" where
  "move_write cells ip =
     (case find (\<lambda>c. lc_id c = fst ip) cells of
        None \<Rightarrow> (\<lambda>db. (False, db))
      | Some orig \<Rightarrow>
          if lc_row orig \<noteq> ps_row (snd ip) \<or> lc_col orig \<noteq> ps_col (snd ip)
          then put_cell (fst ip) (no_patch\<lparr>cp_row := Some (ps_row (snd ip)), cp_col := Some (ps_col (snd ip))\<rparr>)
          else (\<lambda>db. (True, db)))"

definition resolveOverlaps :: "string \<Rightarrow> string \<Rightarrow> axis \<Rightarrow> db_write" where
  "resolveOverlaps lid aid ax db =
     (let all = listLayoutCells db lid
      in write_all (map (move_write all) (resolved_positions ax aid all)) db)"

datatype direction = DirLeft | DirRight | DirAbove | DirBottom

definition parse_direction :: "string \<Rightarrow> direction option" where
  "parse_direction s = (if s = ''left'' then Some DirLeft else if s = ''right'' then Some DirRight
     else if s = ''above'' then Some DirAbove else if s = ''bottom'' then Some DirBottom else None)"

definition expansion_patch :: "direction \<Rightarrow> layout_cell \<Rightarrow> cell_patch" where
  "expansion_patch d cell = (case d of
     DirRight \<Rightarrow> no_patch\<lparr>cp_col_span := Some (lc_col_span cell + 1)\<rparr>
   | DirBottom \<Rightarrow> no_patch\<lparr>cp_row_span := Some (lc_row_span cell + 1)\<rparr>
   | DirLeft \<Rightarrow> no_patch\<lparr>cp_col := Some (max 0 (lc_col cell - 1)), cp_col_span := Some (lc_col_span cell + 1)\<rparr>
   | DirAbove \<Rightarrow> no_patch\<lparr>cp_row := Some (max 0 (lc_row cell - 1)), cp_row_span := Some (lc_row_span cell + 1)\<rparr>)"

fun direction_axis :: "direction \<Rightarrow> axis" where
  "direction_axis DirRight = AxisCol"
| "direction_axis DirLeft = AxisCol"
| "direction_axis DirBottom = AxisRow"
| "direction_axis DirAbove = AxisRow"

definition shiftCellsForExpansion :: "string \<Rightarrow> string \<Rightarrow> direction \<Rightarrow> db_write" where
  "shiftCellsForExpansion lid cid d db =
     (case getLayoutCellById db cid of
        None \<Rightarrow> (True, db)
      | Some cell \<Rightarrow>
          if lc_layout_id cell \<noteq> lid then (True, db)
          else and_then (put_cell (lc_id cell) (expansion_patch d cell))
                        (resolveOverlaps lid (lc_id cell) (direction_axis d)) db)"

definition insertion_write :: "axis \<Rightarrow> number \<Rightarrow> number \<Rightarrow> number \<Rightarrow> layout_cell \<Rightarrow> db_write" where
  "insertion_write ax from crossStart crossEnd c = (case ax of
     AxisCol \<Rightarrow> if lc_col c \<ge> from \<and> rangesOverlap (lc_row c) (lc_row c + lc_row_span c) crossStart crossEnd
                then put_cell (lc_id c) (no_patch\<lparr>cp_col := Some (lc_col c + 1)\<rparr>) else (\<lambda>db. (True, db))
   | AxisRow \<Rightarrow> if lc_row c \<ge> from \<and> rangesOverlap (lc_col c) (lc_col c + lc_col_span c) crossStart crossEnd
                then put_cell (lc_id c) (no_patch\<lparr>cp_row := Some (lc_row c + 1)\<rparr>) else (\<lambda>db. (True, db)))"

definition shiftCellsForInsertion :: "string \<Rightarrow> axis \<Rightarrow> number \<Rightarrow> number \<Rightarrow> number \<Rightarrow> db_write" where
  "shiftCellsForInsertion lid ax from crossStart crossEnd db =
     write_all (map (insertion_write ax from crossStart crossEnd) (listLayoutCells db lid)) db"



section \<open>Routes\<close>

text \<open>
  A response is the grid fragment (for htmx), a redirect to the layout's page, a plain text
  with status 400, the acknowledgement, or the error of an uncaught exception.  The fragments
  are drawn from the cells that the route reads after its writes.
\<close>

datatype editor_response =
    GridFragment "layout_cell list"
  | SidebarFragment "layout_cell list"
  | ToLayout string
  | Refused string
  | Acknowledged
  | Errored

definition grid_response :: "bool \<Rightarrow> string \<Rightarrow> content_db \<Rightarrow> editor_response" where
  "grid_response htmx lid db = (if htmx then GridFragment (listLayoutCells db lid) else ToLayout lid)"

definition respond :: "(content_db \<Rightarrow> editor_response) \<Rightarrow> bool \<times> content_db \<Rightarrow> editor_response \<times> content_db" where
  "respond f r = (case r of (True, db) \<Rightarrow> (f db, db) | (False, db) \<Rightarrow> (Errored, db))"

definition number_or_zero :: "json \<Rightarrow> number" where
  "number_or_zero v = (if v = JUndefined \<or> v = JNull then 0 else nullish (json_to_number v) 0)"

text \<open>
  The request to create a cell: \<open>rq_after\<close> is \<^verbatim>\<open>after_cell_id\<close> as a string, empty when it is
  falsy; \<open>rq_direction\<close> is empty unless the field is a string; \<open>rq_position\<close> is the pair of
  fields of \<^verbatim>\<open>position\<close> when that is an object.
\<close>

record cell_request =
  rq_after :: string
  rq_direction :: string
  rq_position :: "(json \<times> json) option"
  rq_row :: json
  rq_col :: json

definition explicit_position :: "cell_request \<Rightarrow> number \<times> number" where
  "explicit_position rq = (case rq_position rq of
     Some (r, c) \<Rightarrow> (number_or_zero r, number_or_zero c)
   | None \<Rightarrow> (number_or_zero (rq_row rq), number_or_zero (rq_col rq)))"

definition adjacent_position :: "direction \<Rightarrow> layout_cell \<Rightarrow> number \<times> number" where
  "adjacent_position d ref = (case d of
     DirRight \<Rightarrow> (lc_row ref, lc_col ref + lc_col_span ref)
   | DirBottom \<Rightarrow> (lc_row ref + lc_row_span ref, lc_col ref)
   | DirLeft \<Rightarrow> (lc_row ref, max 0 (lc_col ref - 1))
   | DirAbove \<Rightarrow> (max 0 (lc_row ref - 1), lc_col ref))"

definition make_room :: "string \<Rightarrow> direction \<Rightarrow> number \<times> number \<Rightarrow> db_write" where
  "make_room lid d rc = (case direction_axis d of
     AxisCol \<Rightarrow> shiftCellsForInsertion lid AxisCol (snd rc) (fst rc) (fst rc + 1)
   | AxisRow \<Rightarrow> shiftCellsForInsertion lid AxisRow (fst rc) (snd rc) (snd rc + 1))"

definition grid_cell_input :: "string \<Rightarrow> number \<Rightarrow> number \<Rightarrow> number option \<Rightarrow> number option \<Rightarrow> cell_input" where
  "grid_cell_input lid row col rs cs = \<lparr>ni_layout_id = lid, ni_row = row, ni_col = col, ni_row_span = rs,
     ni_col_span = cs, ni_content_type = None, ni_camera_id = None, ni_stream_selector = None,
     ni_web_url = None, ni_html_content = None, ni_cooling_timeout_seconds = None, ni_options = None,
     ni_entity_id = None, ni_fit = None, ni_input_options_json = None\<rparr>"

text \<open>An unknown direction moves no cell and puts the new one at the origin.\<close>

definition create_at :: "bool \<Rightarrow> string \<Rightarrow> string \<Rightarrow> number \<times> number \<Rightarrow> db_write \<Rightarrow> content_db
  \<Rightarrow> editor_response \<times> content_db" where
  "create_at htmx lid cid rc room db =
     respond (grid_response htmx lid)
       (and_then room (insert_cell cid (grid_cell_input lid (fst rc) (snd rc) (Some 1) (Some 1))) db)"

definition create_cell :: "bool \<Rightarrow> string \<Rightarrow> string \<Rightarrow> cell_request \<Rightarrow> content_db \<Rightarrow> editor_response \<times> content_db" where
  "create_cell htmx lid cid rq db =
     (if rq_after rq \<noteq> [] \<and> rq_direction rq \<noteq> [] then
        (case find (\<lambda>c. lc_id c = rq_after rq) (listLayoutCells db lid) of
           None \<Rightarrow> (grid_response htmx lid db, db)
         | Some ref \<Rightarrow>
             (case parse_direction (rq_direction rq) of
                None \<Rightarrow> create_at htmx lid cid (0, 0) (\<lambda>db. (True, db)) db
              | Some d \<Rightarrow> let rc = adjacent_position d ref
                          in create_at htmx lid cid rc (make_room lid d rc) db))
      else create_at htmx lid cid (explicit_position rq) (\<lambda>db. (True, db)) db)"

definition delete_all_cells :: "string \<Rightarrow> content_db \<Rightarrow> content_db" where
  "delete_all_cells lid db = fold (\<lambda>c. deleteLayoutCell (lc_id c)) (listLayoutCells db lid) db"

definition replace_cells :: "string \<Rightarrow> db_write list \<Rightarrow> db_write" where
  "replace_cells lid ws = transact (\<lambda>db. write_all ws (delete_all_cells lid db))"

definition quick_writes :: "string \<Rightarrow> (nat \<Rightarrow> string) \<Rightarrow> cell_pos list \<Rightarrow> db_write list" where
  "quick_writes lid fresh template =
     map (\<lambda>(n, c). insert_cell (fresh n)
            (grid_cell_input lid (ps_row c) (ps_col c) (Some (ps_row_span c)) (Some (ps_col_span c))))
         (enumerate 0 template)"

definition quick_layout :: "bool \<Rightarrow> string \<Rightarrow> (nat \<Rightarrow> string) \<Rightarrow> string \<Rightarrow> content_db
  \<Rightarrow> editor_response \<times> content_db" where
  "quick_layout htmx lid fresh preset db =
     (case quickLayoutCells preset of
        None \<Rightarrow> (Refused ''Unknown quick layout'', db)
      | Some template \<Rightarrow>
          respond (grid_response htmx lid) (replace_cells lid (quick_writes lid fresh template) db))"

text \<open>The cameras of a device in the collation order \<open>ck\<close> of their names.\<close>

definition listCamerasByDevice :: "(string \<Rightarrow> 'k::linorder) \<Rightarrow> content_db \<Rightarrow> string \<Rightarrow> camera list" where
  "listCamerasByDevice ck db did =
     sort_key (\<lambda>c. ck (cam_name c)) (filter (\<lambda>c. cam_device_id c = Some did) (c_cameras db))"

definition default_fit :: "json \<Rightarrow> fit_mode" where
  "default_fit d = (let f = json_get d ''fit'' in
     if f = JStr ''contain'' then FitContain else if f = JStr ''fill'' then FitFill else FitCover)"

definition default_selector :: "json \<Rightarrow> stream_selector" where
  "default_selector d = (let s = json_get d ''stream_selector'' in
     if s = JStr ''main'' then SelMain else if s = JStr ''sub'' then SelSub else SelAuto)"

definition default_input_options :: "json \<Rightarrow> json" where
  "default_input_options d = (case json_get d ''input_options_json'' of
     JObj fs \<Rightarrow> JObj fs | JArr xs \<Rightarrow> JArr xs | _ \<Rightarrow> JObj [])"

definition device_cell_input :: "string \<Rightarrow> json \<Rightarrow> nat \<times> nat \<Rightarrow> entity \<Rightarrow> cell_input" where
  "device_cell_input lid defaults rc e =
     (grid_cell_input lid (of_nat (fst rc)) (of_nat (snd rc)) None None)
       \<lparr>ni_entity_id := Some (ent_id e), ni_stream_selector := Some (default_selector defaults),
        ni_fit := Some (default_fit defaults), ni_input_options_json := Some (default_input_options defaults)\<rparr>"

definition device_write :: "string \<Rightarrow> json \<Rightarrow> (nat \<Rightarrow> string) \<Rightarrow> nat \<times> (nat \<times> nat) \<times> camera \<Rightarrow> db_write" where
  "device_write lid defaults fresh x db = (case x of (n, rc, cam) \<Rightarrow>
     (case getEntityForCamera db (cam_id cam) of
        None \<Rightarrow> (True, db)
      | Some e \<Rightarrow> insert_cell (fresh n) (device_cell_input lid defaults rc e) db))"

definition device_layout :: "(string \<Rightarrow> 'k::linorder) \<Rightarrow> bool \<Rightarrow> string \<Rightarrow> (nat \<Rightarrow> string) \<Rightarrow> string \<Rightarrow> content_db
  \<Rightarrow> editor_response \<times> content_db" where
  "device_layout ck htmx lid fresh did db =
     (case find (\<lambda>d. cd_id d = did) (c_devices db) of
        None \<Rightarrow> (Refused ''Unknown device'', db)
      | Some device \<Rightarrow>
          let cameras = filter cam_enabled (listCamerasByDevice ck db (cd_id device));
              places = deviceGridPositions (length cameras)
          in respond (grid_response htmx lid)
               (replace_cells lid (map (device_write lid (cd_layout_defaults_json device) fresh)
                                       (enumerate 0 (zip places cameras))) db))"

definition span_patch :: "axis \<Rightarrow> number \<Rightarrow> cell_patch" where
  "span_patch ax n = (case ax of AxisCol \<Rightarrow> no_patch\<lparr>cp_col_span := Some n\<rparr> | AxisRow \<Rightarrow> no_patch\<lparr>cp_row_span := Some n\<rparr>)"

definition parse_dim :: "string \<Rightarrow> axis option" where
  "parse_dim s = (if s = ''row_span'' then Some AxisRow else if s = ''col_span'' then Some AxisCol else None)"

fun cell_span :: "axis \<Rightarrow> layout_cell \<Rightarrow> number" where
  "cell_span AxisRow c = lc_row_span c"
| "cell_span AxisCol c = lc_col_span c"

definition resize_by :: "string \<Rightarrow> string \<Rightarrow> string \<Rightarrow> number \<Rightarrow> layout_cell \<Rightarrow> db_write" where
  "resize_by lid cid field delta cell db =
     (case parse_dim field of
        None \<Rightarrow> (True, db)
      | Some ax \<Rightarrow>
          let current = cell_span ax cell; new = max 1 (current + delta)
          in if delta = 0 \<or> new = current then (True, db)
             else and_then (put_cell cid (span_patch ax new)) (resolveOverlaps lid cid ax) db)"

definition resize_cell :: "bool \<Rightarrow> string \<Rightarrow> string \<Rightarrow> string \<Rightarrow> json \<Rightarrow> string \<Rightarrow> content_db
  \<Rightarrow> editor_response \<times> content_db" where
  "resize_cell htmx lid cid field delta dir db =
     respond (grid_response htmx lid)
       (case getLayoutCellById db cid of
          None \<Rightarrow> (True, db)
        | Some cell \<Rightarrow>
            if lc_layout_id cell \<noteq> lid then (True, db)
            else (case parse_direction dir of
                    Some d \<Rightarrow> shiftCellsForExpansion lid cid d db
                  | None \<Rightarrow> resize_by lid cid field (number_or_zero delta) cell db))"

text \<open>The coordinates are \<open>None\<close> where \<^verbatim>\<open>Number\<close> gives \<^verbatim>\<open>NaN\<close> or an infinity.\<close>

definition coordinate :: "json \<Rightarrow> number option" where
  "coordinate v = (if v = JUndefined \<or> v = JNull then Some 0 else json_to_number v)"

definition move_cell :: "string \<Rightarrow> json \<Rightarrow> json \<Rightarrow> content_db \<Rightarrow> editor_response \<times> content_db" where
  "move_cell cid row col db =
     (case (coordinate row, coordinate col) of
        (Some r, Some c) \<Rightarrow>
          if is_integer r \<and> is_integer c \<and> r \<ge> 0 \<and> c \<ge> 0
          then respond (\<lambda>_. Acknowledged) (put_cell cid (no_patch\<lparr>cp_row := Some r, cp_col := Some c\<rparr>) db)
          else (Acknowledged, db)
      | _ \<Rightarrow> (Acknowledged, db))"

definition delete_cell :: "bool \<Rightarrow> string \<Rightarrow> string \<Rightarrow> string \<Rightarrow> content_db \<Rightarrow> editor_response \<times> content_db" where
  "delete_cell htmx target lid cid db =
     (let db1 = deleteLayoutCell cid db
      in (if htmx \<and> target = ''layout-cell-sidebar'' then SidebarFragment (listLayoutCells db1 lid)
          else grid_response htmx lid db1, db1))"

text \<open>
  The sidebar form of a cell, field by field; \<open>jparse\<close> is \<^verbatim>\<open>JSON.parse\<close>, which gives \<open>None\<close>
  where it throws.  A mode that no option names counts as disabled.
\<close>

type_synonym form = "string \<Rightarrow> string option"

definition form_text :: "form \<Rightarrow> string \<Rightarrow> string" where
  "form_text body k = nullish (body k) []"

definition parseList :: "string \<Rightarrow> string list" where
  "parseList raw = filter (\<lambda>s. s \<noteq> []) (map js_trim (concat (map (split_on CHR 0x0A) (split_on CHR '','' raw))))"

definition parseJsonFormField :: "(string \<Rightarrow> json option) \<Rightarrow> string \<Rightarrow> json \<Rightarrow> json option" where
  "parseJsonFormField jparse raw fallback = (let t = js_trim raw in if t = [] then Some fallback else jparse t)"

fun event_fields :: "(string \<Rightarrow> json option) \<Rightarrow> form \<Rightarrow> string list \<Rightarrow> (string \<times> json) list option" where
  "event_fields jparse body [] = Some []"
| "event_fields jparse body (k # ks) =
     (let action = js_trim (form_text body (k @ ''_action''));
          params = js_trim (form_text body (k @ ''_params_json''))
      in if action = [] then event_fields jparse body ks
         else case parseJsonFormField jparse params (JObj []) of
                None \<Rightarrow> None
              | Some v \<Rightarrow> map_option (\<lambda>r. (k, JObj [(''action'', JStr action), (''params'', v)]) # r)
                            (event_fields jparse body ks))"

definition elementInputOptions :: "(string \<Rightarrow> json option) \<Rightarrow> form \<Rightarrow> json option" where
  "elementInputOptions jparse body =
     (let mode = form_text body ''keyboard_mode''
      in map_option (\<lambda>events. JObj
           [(''keyboard_mode'', JStr (if mode \<in> {''all'', ''alphanumeric'', ''custom''} then mode else ''disabled'')),
            (''keyboard_allowlist'', JArr (map JStr (parseList (form_text body ''keyboard_allowlist'')))),
            (''mouse_enabled'', JBool (body ''mouse_enabled'' = Some ''1'')),
            (''ptz_enabled'', JBool (body ''ptz_enabled'' = Some ''1'')),
            (''events'', JObj events)])
         (event_fields jparse body [''click'', ''double_click'', ''hold'']))"

definition form_span :: "form \<Rightarrow> string \<Rightarrow> number option" where
  "form_span body k = (case body k of
     None \<Rightarrow> None
   | Some raw \<Rightarrow> if js_trim raw = [] then None
                 else let n = nullish (string_to_number raw) 0 in Some (max 1 (if n = 0 then 1 else n)))"

definition dims_patch :: "form \<Rightarrow> json \<Rightarrow> cell_patch" where
  "dims_patch body options = no_patch
     \<lparr>cp_stream_selector := (if body ''stream_selector'' = Some ''auto'' then Some SelAuto
        else if body ''stream_selector'' = Some ''main'' then Some SelMain
        else if body ''stream_selector'' = Some ''sub'' then Some SelSub else None),
      cp_fit := (if body ''fit'' = Some ''cover'' then Some FitCover
        else if body ''fit'' = Some ''contain'' then Some FitContain
        else if body ''fit'' = Some ''fill'' then Some FitFill else None),
      cp_col_span := form_span body ''col_span'', cp_row_span := form_span body ''row_span'',
      cp_input_options_json := Some options\<rparr>"

text \<open>An absent value is a property that is not stored.\<close>

definition given :: "string \<Rightarrow> string option \<Rightarrow> (string \<times> json) list" where
  "given k v = (case v of None \<Rightarrow> [] | Some s \<Rightarrow> [(k, JStr s)])"

definition smart_form_step :: "string \<Rightarrow> string option \<Rightarrow> json" where
  "smart_form_step ty v = JObj ((''type'', JStr ty) #
     (if ty = ''navigate'' then given ''url'' v
      else if ty = ''fill'' \<and> CHR ''='' \<in> set (nullish v []) then
        [(''selector'', JStr (takeWhile (\<lambda>c. c \<noteq> CHR ''='') (nullish v []))),
         (''value'', JStr (drop 1 (dropWhile (\<lambda>c. c \<noteq> CHR ''='') (nullish v []))))]
      else if ty = ''click'' \<or> ty = ''wait_for'' then given ''selector'' v
      else if ty = ''wait'' then
        [(''delay_ms'', JNum (let n = nullish (Option.bind v string_to_number) 0 in if n = 0 then 1000 else n))]
      else if ty = ''javascript'' then given ''script'' v else []))"

fun smart_steps :: "nat \<Rightarrow> nat \<Rightarrow> form \<Rightarrow> json list" where
  "smart_steps 0 i body = []"
| "smart_steps (Suc n) i body =
     (case body (''step_'' @ show_nat i @ ''_type'') of
        None \<Rightarrow> []
      | Some ty \<Rightarrow> if ty = [] then []
                   else smart_form_step ty (body (''step_'' @ show_nat i @ ''_value'')) # smart_steps n (Suc i) body)"

definition smart_options :: "form \<Rightarrow> json \<Rightarrow> json" where
  "smart_options body options =
     (let steps = smart_steps 50 0 body; login = js_trim (form_text body ''smart_url_login_detect'')
      in if steps \<noteq> [] then JObj (AList.update ''smart_url''
              (JObj ((''steps'', JArr steps) # (if login \<noteq> [] then [(''login_detect_url'', JStr login)] else [])))
              (spread options))
         else JObj (AList.delete ''smart_url'' (spread options)))"

definition form_entity :: "form \<Rightarrow> string option" where
  "form_entity body = (case body ''entity_id'' of
     None \<Rightarrow> None | Some raw \<Rightarrow> if js_trim raw = [] then None else Some raw)"

definition assign_cell :: "string \<Rightarrow> string option \<Rightarrow> db_write" where
  "assign_cell cid eid db = (True, assignCellEntity cid eid db)"

definition patch_and_push :: "string \<Rightarrow> string \<Rightarrow> cell_patch \<Rightarrow> db_write" where
  "patch_and_push lid cid p =
     and_then (put_cell cid p)
       (if cp_col_span p \<noteq> None then resolveOverlaps lid cid AxisCol
        else if cp_row_span p \<noteq> None then resolveOverlaps lid cid AxisRow
        else (\<lambda>db. (True, db)))"

definition write_smart_url :: "form \<Rightarrow> string \<Rightarrow> db_write" where
  "write_smart_url body cid db =
     (case getLayoutCellById db cid of
        None \<Rightarrow> (True, db)
      | Some c \<Rightarrow> put_cell cid (no_patch\<lparr>cp_options := Some (smart_options body (lc_options c))\<rparr>) db)"

text \<open>The entity is assigned before the input options are parsed.\<close>

definition edit_cell :: "(string \<Rightarrow> json option) \<Rightarrow> bool \<Rightarrow> string \<Rightarrow> string \<Rightarrow> form \<Rightarrow> content_db
  \<Rightarrow> editor_response \<times> content_db" where
  "edit_cell jparse htmx lid cid body db =
     respond (\<lambda>db. if htmx then SidebarFragment (listLayoutCells db lid) else ToLayout lid)
       (and_then (assign_cell cid (form_entity body))
          (case elementInputOptions jparse body of
             None \<Rightarrow> (\<lambda>db. (False, db))
           | Some options \<Rightarrow> and_then (patch_and_push lid cid (dims_patch body options)) (write_smart_url body cid)) db)"

section \<open>Tilings\<close>

definition covers :: "cell_pos \<Rightarrow> nat \<Rightarrow> nat \<Rightarrow> bool" where
  "covers p r c \<longleftrightarrow> ps_row p \<le> of_nat r \<and> of_nat r < ps_row p + ps_row_span p
                 \<and> ps_col p \<le> of_nat c \<and> of_nat c < ps_col p + ps_col_span p"

definition tiles_square :: "nat \<Rightarrow> cell_pos list \<Rightarrow> bool" where
  "tiles_square n cells \<longleftrightarrow>
     (\<forall>r c. length (filter (\<lambda>p. covers p r c) cells) = (if r < n \<and> c < n then 1 else 0))"

lemma at_pos_sel [simp]:
  "ps_row (at_pos r c rs cs) = r" "ps_col (at_pos r c rs cs) = c"
  "ps_row_span (at_pos r c rs cs) = rs" "ps_col_span (at_pos r c rs cs) = cs"
  by (simp_all add: at_pos_def)

lemma of_nat_less_rat: "(of_nat m :: number) < of_nat n + 1 \<longleftrightarrow> m \<le> n"
  using of_nat_less_iff [of m "Suc n", where ?'a = number] by (simp add: less_Suc_eq_le add.commute)

lemma covers_unit: "covers (at_pos (of_nat a) (of_nat b) 1 1) r c \<longleftrightarrow> r = a \<and> c = b"
  by (auto simp: covers_def of_nat_less_rat)

lemma filter_eq_upt: "length (filter (\<lambda>b. c = b) [0..<n]) = (if c < n then 1 else 0)"
  by (induction n) auto

lemma grid_row_cover:
  "length (filter (\<lambda>p. covers p r c) (map (\<lambda>b. at_pos (of_nat a) (of_nat b) 1 1) [0..<n]))
   = (if r = a \<and> c < n then 1 else 0)"
  by (cases "r = a") (simp_all add: filter_map comp_def covers_unit filter_eq_upt)

lemma grid_cover:
  "length (filter (\<lambda>p. covers p r c)
     (concat (map (\<lambda>a. map (\<lambda>b. at_pos (of_nat a) (of_nat b) 1 1) [0..<n]) [0..<m])))
   = (if r < m \<and> c < n then 1 else 0)"
proof (induction m)
  case (Suc m)
  then show ?case
    by (simp only: upt_Suc_append le0 map_append concat_append filter_append length_append
        list.map concat.simps append_Nil2 grid_row_cover) auto
qed simp

lemma gridQuickLayout_tiles: "tiles_square n (gridQuickLayout n)"
  by (simp add: tiles_square_def gridQuickLayout_def grid_cover)

lemma covers_nat:
  "covers (at_pos (of_nat a) (of_nat b) (of_nat h) (of_nat w)) r c \<longleftrightarrow> a \<le> r \<and> r < a + h \<and> b \<le> c \<and> c < b + w"
proof -
  have "(of_nat x :: number) < of_nat y + of_nat z \<longleftrightarrow> x < y + z" for x y z :: nat
    using of_nat_less_iff [of x "y + z", where ?'a = number] by simp
  then show ?thesis by (simp add: covers_def)
qed

lemma covers_literal:
  "covers (at_pos (numeral a) (numeral b) 1 1) r c \<longleftrightarrow> r = numeral a \<and> c = numeral b"
  "covers (at_pos 0 (numeral b) 1 1) r c \<longleftrightarrow> r = 0 \<and> c = numeral b"
  "covers (at_pos 1 (numeral b) 1 1) r c \<longleftrightarrow> r = 1 \<and> c = numeral b"
  "covers (at_pos (numeral a) 0 1 1) r c \<longleftrightarrow> r = numeral a \<and> c = 0"
  "covers (at_pos (numeral a) 1 1 1) r c \<longleftrightarrow> r = numeral a \<and> c = 1"
  "covers (at_pos 0 0 1 1) r c \<longleftrightarrow> r = 0 \<and> c = 0"
  "covers (at_pos 0 0 (numeral a) (numeral b)) r c \<longleftrightarrow> r < numeral a \<and> c < numeral b"
  using covers_unit [of "numeral a" "numeral b" r c] covers_unit [of 0 "numeral b" r c]
    covers_unit [of 1 "numeral b" r c] covers_unit [of "numeral a" 0 r c] covers_unit [of "numeral a" 1 r c]
    covers_unit [of 0 0 r c] covers_nat [of 0 0 "numeral a" "numeral b" r c]
  by simp_all

lemma single_tiles: "tiles_square 1 [at_pos 0 0 1 1]"
  by (simp add: tiles_square_def covers_literal)

lemma left_focus_tiles:
  "tiles_square 4 [at_pos 0 0 4 3, at_pos 0 3 1 1, at_pos 1 3 1 1, at_pos 2 3 1 1, at_pos 3 3 1 1]"
proof -
  have "r < 4 \<longleftrightarrow> r \<in> {0, 1, 2, 3}" for r :: nat by auto
  then show ?thesis
    by (auto simp: tiles_square_def covers_literal)
qed

lemma focus_right_bottom_tiles:
  "tiles_square 4 [at_pos 0 0 3 3, at_pos 0 3 1 1, at_pos 1 3 1 1, at_pos 2 3 1 1,
                   at_pos 3 0 1 1, at_pos 3 1 1 1, at_pos 3 2 1 1, at_pos 3 3 1 1]"
proof -
  have "r < 3 \<longleftrightarrow> r \<in> {0, 1, 2}" "r < 4 \<longleftrightarrow> r \<in> {0, 1, 2, 3}" for r :: nat by auto
  then show ?thesis
    by (auto simp: tiles_square_def covers_literal)
qed

lemma quickLayoutCells_tiles:
  assumes "quickLayoutCells preset = Some cells"
  obtains n where "n > 0" and "tiles_square n cells"
proof -
  consider "cells = [at_pos 0 0 1 1]" | n where "n > 0" "cells = gridQuickLayout n"
    | "cells = [at_pos 0 0 4 3, at_pos 0 3 1 1, at_pos 1 3 1 1, at_pos 2 3 1 1, at_pos 3 3 1 1]"
    | "cells = [at_pos 0 0 3 3, at_pos 0 3 1 1, at_pos 1 3 1 1, at_pos 2 3 1 1,
                at_pos 3 0 1 1, at_pos 3 1 1 1, at_pos 3 2 1 1, at_pos 3 3 1 1]"
    using assms unfolding quickLayoutCells_def
    by (metis option.inject option.distinct(1) zero_less_numeral)
  then show thesis
    using single_tiles gridQuickLayout_tiles left_focus_tiles focus_right_bottom_tiles that
    by cases (metis zero_less_one zero_less_numeral)+
qed

text \<open>A tiling has no two cells over one square, so cells with whole coordinates are apart.\<close>

lemma tiles_disjoint:
  assumes "tiles_square n (xs @ p # ys @ q # zs)" and "covers p r c"
  shows "\<not> covers q r c"
proof
  assume "covers q r c"
  with assms(2) have "length (filter (\<lambda>p. covers p r c) (xs @ p # ys @ q # zs)) \<ge> 2" by simp
  moreover have "length (filter (\<lambda>p. covers p r c) (xs @ p # ys @ q # zs)) \<le> 1"
    using assms(1) unfolding tiles_square_def by (metis le_refl zero_le_one)
  ultimately show False by linarith
qed

section \<open>The grid of a device\<close>

lemma ceil_sqrt_least: "n \<le> ceil_sqrt n * ceil_sqrt n" "c < ceil_sqrt n \<Longrightarrow> c * c < n"
proof -
  have "\<exists>c. find (\<lambda>c. n \<le> c * c) [0..<Suc n] = Some c"
    by (cases "find (\<lambda>c. n \<le> c * c) [0..<Suc n]") (auto simp: find_None_iff)
  then obtain k where k: "find (\<lambda>c. n \<le> c * c) [0..<Suc n] = Some k" by blast
  then obtain i where i: "i < length [0..<Suc n]" "n \<le> [0..<Suc n] ! i * [0..<Suc n] ! i" "k = [0..<Suc n] ! i"
    "\<forall>j<i. \<not> n \<le> [0..<Suc n] ! j * [0..<Suc n] ! j"
    unfolding find_Some_iff by blast
  have nth: "[0..<Suc n] ! j = j" if "j \<le> i" for j
    using that i(1) by (simp del: upt_Suc)
  have "ceil_sqrt n = i" using k i(3) nth by (simp add: ceil_sqrt_def del: upt_Suc)
  then show "n \<le> ceil_sqrt n * ceil_sqrt n" "c < ceil_sqrt n \<Longrightarrow> c * c < n"
    using i(2,4) nth by (simp_all del: upt_Suc) (metis nth less_imp_le not_le)
qed

lemma ceil_sqrt_pos: "0 < n \<Longrightarrow> 0 < ceil_sqrt n"
  using ceil_sqrt_least(1) [of n] by (cases "ceil_sqrt n") auto

lemma div_less_ceil: "i < n \<Longrightarrow> i div ceil_sqrt n < ceil_sqrt n"
  using ceil_sqrt_least(1) [of n] by (intro less_mult_imp_div_less) simp

lemma div_mod_inj: "inj_on (\<lambda>i. (i div c, i mod c)) (A :: nat set)"
  by (rule inj_onI) (metis div_mult_mod_eq prod.inject)

section \<open>Cells only move forward\<close>

text \<open>\<open>moved_on ax p q\<close>: \<open>q\<close> is \<open>p\<close> moved along the axis, away from the origin.\<close>

definition moved_on :: "axis \<Rightarrow> cell_pos \<Rightarrow> cell_pos \<Rightarrow> bool" where
  "moved_on ax p q \<longleftrightarrow>
     ps_row_span q = ps_row_span p \<and> ps_col_span q = ps_col_span p \<and> ps_row p \<le> ps_row q \<and> ps_col p \<le> ps_col q
     \<and> (case ax of AxisCol \<Rightarrow> ps_row q = ps_row p | AxisRow \<Rightarrow> ps_col q = ps_col p)"

abbreviation advances :: "axis \<Rightarrow> positions \<Rightarrow> positions \<Rightarrow> bool" where
  "advances ax \<equiv> list_all2 (\<lambda>(i, p) (j, q). i = j \<and> moved_on ax p q)"

lemma forward_refl [simp]: "moved_on ax p p"
  by (simp add: moved_on_def split: axis.split)

lemma forward_trans: "moved_on ax p q \<Longrightarrow> moved_on ax q r \<Longrightarrow> moved_on ax p r"
  by (auto simp: moved_on_def split: axis.splits)

lemma push_if_forward: "moved_on ax p (push_if ax b a p)"
  by (auto simp: moved_on_def push_if_def push_after_def cellsOverlap_def split: axis.split)

lemma advances_refl: "advances ax ps ps"
  by (auto intro: list_all2_refl)

lemma advances_trans:
  assumes "advances ax xs ys" and "advances ax ys zs"
  shows "advances ax xs zs"
  using list_all2_trans [OF _ assms, of "\<lambda>(i, p) (j, q). i = j \<and> moved_on ax p q"]
  by (auto intro: forward_trans)

lemma advances_map: "(\<And>i p. moved_on ax p (f i p)) \<Longrightarrow> advances ax ps (map (\<lambda>(i, p). (i, f i p)) ps)"
  by (induction ps) auto

lemma advances_keys: "advances ax xs ys \<Longrightarrow> map fst ys = map fst xs"
  by (induction xs ys rule: list_all2_induct) auto

lemma cascade_advances: "advances ax xs (cascade ax xs)"
proof (induction ax xs rule: cascade.induct)
  case (2 ax i p xs)
  have "advances ax xs (map (\<lambda>(j, q). (j, push_if ax (i \<noteq> j) p q)) xs)"
    by (rule advances_map) (rule push_if_forward)
  from advances_trans [OF this 2] show ?case by simp
qed simp

lemma advances_lookup:
  assumes "advances ax xs ys" and "map_of ys i = Some q"
  shows "\<exists>p. map_of xs i = Some p \<and> moved_on ax p q"
  using assms by (induction xs ys rule: list_all2_induct) (auto split: if_splits)

lemma advances_member:
  assumes "advances ax xs ys" and "(i, q) \<in> set ys"
  shows "\<exists>p. (i, p) \<in> set xs \<and> moved_on ax p q"
  using assms by (induction xs ys rule: list_all2_induct) auto

lemma cascade_map_advances:
  assumes "wf_map ps"
  shows "advances ax ps (cascade_map ax ps)"
proof -
  let ?sorted = "sort_key (\<lambda>x. axis_key ax (snd x)) ps"
  have perm: "map_of ?sorted i = map_of ps i" for i
  proof -
    have "distinct (map fst ?sorted)"
      using assms by (simp add: distinct_map)
    then show ?thesis
      using assms by (metis map_of_eq_Some_iff not_Some_eq set_sort)
  qed
  have "moved_on ax p (nullish (map_of (cascade ax ?sorted) i) p)" if "(i, p) \<in> set ps" for i p
  proof (cases "map_of (cascade ax ?sorted) i")
    case (Some q)
    with advances_lookup [OF cascade_advances, of ax ?sorted i q] perm obtain p' where
      "map_of ps i = Some p'" "moved_on ax p' q" by auto
    with that assms Some show ?thesis by simp
  qed simp
  then show ?thesis
    by (auto simp: cascade_map_def Let_def list_all2_map2 list_all2_same)
qed

lemma push_from_anchor_advances: "advances ax ps (push_from_anchor ax aid a ps)"
  unfolding push_from_anchor_def by (rule advances_map) (rule push_if_forward)

lemma resolve_loop_advances:
  assumes "wf_map ps"
  shows "advances ax ps (resolve_loop n ax aid ps)"
  using assms
proof (induction n arbitrary: ps)
  case 0
  show ?case by (simp add: advances_refl)
next
  case (Suc n)
  show ?case
  proof (cases "map_of ps aid")
    case None
    then show ?thesis by (simp add: advances_refl)
  next
    case (Some a)
    define ps1 where "ps1 = push_from_anchor ax aid a ps"
    have one: "advances ax ps ps1" unfolding ps1_def by (rule push_from_anchor_advances)
    then have "wf_map ps1" using Suc.prems advances_keys by metis
    then have two: "advances ax ps1 (cascade_map ax ps1)" by (rule cascade_map_advances)
    then have "wf_map (cascade_map ax ps1)" using \<open>wf_map ps1\<close> advances_keys by metis
    then have "advances ax (cascade_map ax ps1) (resolve_loop n ax aid (cascade_map ax ps1))" by (rule Suc.IH)
    with one two show ?thesis
      by (auto simp: Some Let_def ps1_def [symmetric] advances_refl intro: advances_trans)
  qed
qed

lemma read_positions_fold:
  assumes "wf_map m" and "\<forall>(i, p) \<in> set m. \<exists>c \<in> C. i = lc_id c \<and> p = pos_of c" and "set cells \<subseteq> C"
  shows "wf_map (fold (\<lambda>c m. AList.update (lc_id c) (pos_of c) m) cells m)
       \<and> (\<forall>(i, p) \<in> set (fold (\<lambda>c m. AList.update (lc_id c) (pos_of c) m) cells m).
            \<exists>c \<in> C. i = lc_id c \<and> p = pos_of c)"
  using assms
proof (induction cells arbitrary: m)
  case (Cons c cells)
  have "wf_map (AList.update (lc_id c) (pos_of c) m)" using Cons.prems(1) by (rule wf_set)
  moreover have "\<forall>(i, p) \<in> set (AList.update (lc_id c) (pos_of c) m). \<exists>c \<in> C. i = lc_id c \<and> p = pos_of c"
    using Cons.prems(2,3) set_update_subset [of "lc_id c" "pos_of c" m] by fastforce
  ultimately show ?case using Cons.IH Cons.prems(3) by simp
qed simp

lemma read_positions_wf: "wf_map (read_positions cells)"
  unfolding read_positions_def using read_positions_fold [of "[]" "set cells" cells] by simp

lemma read_positions_from:
  "(i, p) \<in> set (read_positions cells) \<Longrightarrow> \<exists>c \<in> set cells. i = lc_id c \<and> p = pos_of c"
  unfolding read_positions_def using read_positions_fold [of "[]" "set cells" cells] by auto

lemma resolved_advances: "advances ax (read_positions cells) (resolved_positions ax aid cells)"
  unfolding resolved_positions_def Let_def by (rule resolve_loop_advances [OF read_positions_wf])

lemma resolved_from:
  assumes "(i, q) \<in> set (resolved_positions ax aid cells)"
  shows "\<exists>c \<in> set cells. i = lc_id c \<and> moved_on ax (pos_of c) q"
proof -
  obtain p where "(i, p) \<in> set (read_positions cells)" "moved_on ax p q"
    using advances_member [OF resolved_advances assms] by blast
  then show ?thesis using read_positions_from by blast
qed

section \<open>The editor on top of the layout tables\<close>

text \<open>
  Cells on the grid have whole coordinates from zero and whole spans from one.  An editor
  operation is a sequence of creations, updates and deletions that each keep a cell there.
\<close>

definition on_axis :: "number \<Rightarrow> bool" where
  "on_axis x \<longleftrightarrow> is_int4 x \<and> 0 \<le> x"

definition is_span :: "number \<Rightarrow> bool" where
  "is_span x \<longleftrightarrow> is_int4 x \<and> 1 \<le> x"

definition cell_on_grid :: "layout_cell \<Rightarrow> bool" where
  "cell_on_grid c \<longleftrightarrow> on_axis (lc_row c) \<and> on_axis (lc_col c) \<and> is_span (lc_row_span c) \<and> is_span (lc_col_span c)"

definition on_grid :: "content_db \<Rightarrow> bool" where
  "on_grid db \<longleftrightarrow> list_all cell_on_grid (c_cells db)"

definition holds_if_some :: "('a \<Rightarrow> bool) \<Rightarrow> 'a option \<Rightarrow> bool" where
  "holds_if_some P x = (case x of None \<Rightarrow> True | Some v \<Rightarrow> P v)"

lemma holds_if_some_simps [simp]: "holds_if_some P None" "holds_if_some P (Some v) = P v"
  by (simp_all add: holds_if_some_def)

fun grid_op :: "content_op \<Rightarrow> bool" where
  "grid_op (CreateCell _ i) =
     (on_axis (ni_row i) \<and> on_axis (ni_col i) \<and> holds_if_some is_span (ni_row_span i) \<and> holds_if_some is_span (ni_col_span i))"
| "grid_op (UpdateCell _ p) =
     (holds_if_some on_axis (cp_row p) \<and> holds_if_some on_axis (cp_col p)
      \<and> holds_if_some is_span (cp_row_span p) \<and> holds_if_some is_span (cp_col_span p))"
| "grid_op (DeleteCell _) = True"
| "grid_op (AssignCell _ _) = True"
| "grid_op _ = False"

lemma is_int4_small [simp]: "is_int4 0" "is_int4 1"
  by (simp_all add: is_int4_def is_integer_def)

lemma small_on_grid [simp]: "on_axis 0" "is_span 1"
  by (simp_all add: on_axis_def is_span_def)

lemma nullish_holds: "holds_if_some P x \<Longrightarrow> P d \<Longrightarrow> P (nullish x d)"
  by (cases x) simp_all

lemma mirror_on_grid [simp]: "cell_on_grid (mirror_entity e c) = cell_on_grid c"
  by (simp add: cell_on_grid_def mirror_entity_def)

lemma new_cell_on_grid: "grid_op (CreateCell cid i) \<Longrightarrow> cell_on_grid (new_cell cid i)"
  by (simp add: cell_on_grid_def new_cell_def nullish_holds)

lemma patch_on_grid: "grid_op (UpdateCell cid p) \<Longrightarrow> cell_on_grid c \<Longrightarrow> cell_on_grid (patch_cell p c)"
  by (simp add: cell_on_grid_def patch_cell_def nullish_holds)

lemma grid_op_keeps: "on_grid db \<Longrightarrow> grid_op opn \<Longrightarrow> on_grid (content_step opn db)"
proof (induction opn rule: grid_op.induct)
  case (1 cid i)
  then show ?case
    using new_cell_on_grid [of cid i]
    by (simp add: on_grid_def createLayoutCell_def Let_def split: option.split)
next
  case (2 cid p)
  then show ?case
    using patch_on_grid [of cid p]
    by (auto simp: on_grid_def updateLayoutCell_def update_cell_def list_all_iff)
next
  case (3 cid)
  then show ?case by (simp add: on_grid_def deleteLayoutCell_def list_all_iff)
next
  case (4 cid eid)
  then show ?case
    by (auto simp: on_grid_def assignCellEntity_def update_cell_def list_all_iff cell_on_grid_def mirror_entity_def
        split: option.splits)
qed simp_all

lemma grid_ops_keep: "on_grid db \<Longrightarrow> list_all grid_op ops \<Longrightarrow> on_grid (content_run ops db)"
  by (induction ops arbitrary: db) (simp_all add: grid_op_keeps)

lemma content_run_append: "content_run (xs @ ys) db = content_run ys (content_run xs db)"
  by (simp add: content_run_fold)

definition reached_by :: "content_op list \<Rightarrow> content_db \<Rightarrow> content_db \<Rightarrow> bool" where
  "reached_by ops db db' \<longleftrightarrow> list_all grid_op ops \<and> db' = content_run ops db"

definition steps_by :: "db_write \<Rightarrow> bool" where
  "steps_by w \<longleftrightarrow> (\<forall>db. on_grid db \<longrightarrow> (\<exists>ops. reached_by ops db (snd (w db))))"

lemma steps_byI: "(\<And>db. on_grid db \<Longrightarrow> \<exists>ops. reached_by ops db (snd (w db))) \<Longrightarrow> steps_by w"
  by (simp add: steps_by_def)

lemma steps_byE: "steps_by w \<Longrightarrow> on_grid db \<Longrightarrow> \<exists>ops. reached_by ops db (snd (w db))"
  by (simp add: steps_by_def)

lemma reached_refl: "reached_by [] db db"
  by (simp add: reached_by_def)

lemma reached_one: "grid_op x \<Longrightarrow> reached_by [x] db (content_step x db)"
  by (simp add: reached_by_def)

lemma reached_trans: "reached_by xs db db1 \<Longrightarrow> reached_by ys db1 db2 \<Longrightarrow> reached_by (xs @ ys) db db2"
  by (simp add: reached_by_def content_run_append)

lemma reached_on_grid: "on_grid db \<Longrightarrow> reached_by ops db db' \<Longrightarrow> on_grid db'"
  by (simp add: reached_by_def grid_ops_keep)

lemma steps_skip [intro]: "steps_by (\<lambda>db. (b, db))"
  by (rule steps_byI) (auto intro: reached_refl)

lemma steps_and_then [intro]:
  assumes "steps_by f" and "steps_by g"
  shows "steps_by (and_then f g)"
proof (rule steps_byI)
  fix db assume "on_grid db"
  then obtain xs where xs: "reached_by xs db (snd (f db))" using steps_byE [OF assms(1)] by blast
  then have "on_grid (snd (f db))" using \<open>on_grid db\<close> reached_on_grid by blast
  then obtain ys where "reached_by ys (snd (f db)) (snd (g (snd (f db))))" using steps_byE [OF assms(2)] by blast
  with xs have "reached_by (xs @ ys) db (snd (g (snd (f db))))" by (rule reached_trans)
  with xs show "\<exists>ops. reached_by ops db (snd (and_then f g db))"
    by (cases "f db") (auto simp: and_then_def split: bool.split)
qed

lemma steps_write_all [intro]: "(\<And>w. w \<in> set ws \<Longrightarrow> steps_by w) \<Longrightarrow> steps_by (write_all ws)"
proof (induction ws)
  case (Cons w ws)
  then have "steps_by (and_then w (write_all ws))" by (intro steps_and_then) auto
  then show ?case by (simp add: steps_by_def)
next
  case Nil
  show ?case by (rule steps_byI) (auto intro: reached_refl)
qed

lemma steps_transact [intro]:
  assumes "steps_by f"
  shows "steps_by (transact f)"
proof (rule steps_byI)
  fix db assume "on_grid db"
  then obtain xs where "reached_by xs db (snd (f db))" using steps_byE [OF assms] by blast
  then show "\<exists>ops. reached_by ops db (snd (transact f db))"
    using reached_refl by (cases "f db") (auto simp: transact_def split: bool.split)
qed

text \<open>What a written patch has to satisfy beyond being 32-bit integers.\<close>

definition patch_forward :: "cell_patch \<Rightarrow> bool" where
  "patch_forward p \<longleftrightarrow> holds_if_some (\<lambda>x. 0 \<le> x) (cp_row p) \<and> holds_if_some (\<lambda>x. 0 \<le> x) (cp_col p)
     \<and> holds_if_some (\<lambda>x. 1 \<le> x) (cp_row_span p) \<and> holds_if_some (\<lambda>x. 1 \<le> x) (cp_col_span p)"

lemma patch_grid_op: "patch_fits p \<Longrightarrow> patch_forward p \<Longrightarrow> grid_op (UpdateCell cid p)"
  by (auto simp: patch_fits_def patch_forward_def int4_or_null_def holds_if_some_def on_axis_def is_span_def
      split: option.splits)

lemma steps_put_cell [intro]: "patch_forward p \<Longrightarrow> steps_by (put_cell cid p)"
  by (rule steps_byI, simp add: put_cell_def)
    (metis content_step.simps(7) patch_grid_op reached_one reached_refl)

definition input_forward :: "cell_input \<Rightarrow> bool" where
  "input_forward i \<longleftrightarrow> 0 \<le> ni_row i \<and> 0 \<le> ni_col i
     \<and> holds_if_some (\<lambda>x. 1 \<le> x) (ni_row_span i) \<and> holds_if_some (\<lambda>x. 1 \<le> x) (ni_col_span i)"

lemma steps_insert_cell [intro]:
  assumes "input_forward i"
  shows "steps_by (insert_cell cid i)"
proof (rule steps_byI)
  fix db
  show "\<exists>ops. reached_by ops db (snd (insert_cell cid i db))"
  proof (cases "fst (insert_cell cid i db)")
    case True
    then have "grid_op (CreateCell cid i)"
      using assms by (auto simp: insert_cell_def input_forward_def int4_or_null_def holds_if_some_def on_axis_def
          is_span_def split: option.splits if_splits)
    from reached_one [OF this, of db] True show ?thesis
      by (auto simp: insert_cell_def split: if_splits)
  qed (auto simp: insert_cell_def intro: reached_refl split: if_splits)
qed

lemma listLayoutCells_on_grid: "on_grid db \<Longrightarrow> c \<in> set (listLayoutCells db lid) \<Longrightarrow> cell_on_grid c"
  by (auto simp: on_grid_def listLayoutCells_def list_all_iff cell_on_grid_def rowToLayoutCell_def)

lemma getLayoutCellById_on_grid: "on_grid db \<Longrightarrow> getLayoutCellById db cid = Some c \<Longrightarrow> cell_on_grid c"
  by (auto simp: getLayoutCellById_def find_Some_iff on_grid_def list_all_length cell_on_grid_def rowToLayoutCell_def)

lemma cell_on_grid_bounds:
  "cell_on_grid c \<Longrightarrow> 0 \<le> lc_row c \<and> 0 \<le> lc_col c \<and> 1 \<le> lc_row_span c \<and> 1 \<le> lc_col_span c"
  by (simp add: cell_on_grid_def on_axis_def is_span_def)

lemma no_patch_sel [simp]:
  "cp_row no_patch = None" "cp_col no_patch = None" "cp_row_span no_patch = None" "cp_col_span no_patch = None"
  by (simp_all add: no_patch_def)

lemma steps_move_write:
  assumes "\<forall>c \<in> set cells. cell_on_grid c" and "(i, q) \<in> set (resolved_positions ax aid cells)"
  shows "steps_by (move_write cells (i, q))"
proof -
  obtain c where "c \<in> set cells" "moved_on ax (pos_of c) q"
    using resolved_from [OF assms(2)] by blast
  then have "0 \<le> ps_row q" "0 \<le> ps_col q"
    using assms(1) cell_on_grid_bounds [of c] by (auto simp: moved_on_def pos_of_def)
  then have "patch_forward (no_patch\<lparr>cp_row := Some (ps_row q), cp_col := Some (ps_col q)\<rparr>)"
    by (simp add: patch_forward_def)
  then show ?thesis
    by (auto simp: move_write_def split: option.split)
qed

lemma steps_resolveOverlaps [intro]: "steps_by (resolveOverlaps lid aid ax)"
proof (rule steps_byI)
  fix db assume ok: "on_grid db"
  let ?all = "listLayoutCells db lid"
  have "steps_by (write_all (map (move_write ?all) (resolved_positions ax aid ?all)))"
    using steps_move_write [of ?all] listLayoutCells_on_grid [OF ok] by (intro steps_write_all) auto
  from steps_byE [OF this ok] show "\<exists>ops. reached_by ops db (snd (resolveOverlaps lid aid ax db))"
    by (simp add: resolveOverlaps_def Let_def)
qed

lemma expansion_patch_forward: "cell_on_grid c \<Longrightarrow> patch_forward (expansion_patch d c)"
  using cell_on_grid_bounds [of c] by (auto simp: expansion_patch_def patch_forward_def split: direction.split)

lemma steps_shiftCellsForExpansion [intro]: "steps_by (shiftCellsForExpansion lid cid d)"
proof (rule steps_byI)
  fix db assume ok: "on_grid db"
  show "\<exists>ops. reached_by ops db (snd (shiftCellsForExpansion lid cid d db))"
  proof (cases "getLayoutCellById db cid")
    case None
    then show ?thesis by (auto simp: shiftCellsForExpansion_def intro: reached_refl)
  next
    case (Some cell)
    then have "patch_forward (expansion_patch d cell)"
      using ok getLayoutCellById_on_grid expansion_patch_forward by blast
    then have "steps_by (and_then (put_cell (lc_id cell) (expansion_patch d cell))
                                  (resolveOverlaps lid (lc_id cell) (direction_axis d)))" by auto
    from steps_byE [OF this ok] show ?thesis
      by (auto simp: shiftCellsForExpansion_def Some intro: reached_refl)
  qed
qed

lemma steps_insertion_write: "cell_on_grid c \<Longrightarrow> steps_by (insertion_write ax from a b c)"
  using cell_on_grid_bounds [of c] by (cases ax) (auto simp: insertion_write_def patch_forward_def)

lemma steps_shiftCellsForInsertion [intro]: "steps_by (shiftCellsForInsertion lid ax from a b)"
proof (rule steps_byI)
  fix db assume ok: "on_grid db"
  have "steps_by (write_all (map (insertion_write ax from a b) (listLayoutCells db lid)))"
    using steps_insertion_write listLayoutCells_on_grid [OF ok] by (intro steps_write_all) auto
  from steps_byE [OF this ok] show "\<exists>ops. reached_by ops db (snd (shiftCellsForInsertion lid ax from a b db))"
    by (simp add: shiftCellsForInsertion_def)
qed

lemma steps_make_room [intro]: "steps_by (make_room lid d rc)"
  by (auto simp: make_room_def split: axis.split)

lemma delete_all_run:
  "fold (\<lambda>c. deleteLayoutCell (lc_id c)) cells db = content_run (map (\<lambda>c. DeleteCell (lc_id c)) cells) db"
  by (induction cells arbitrary: db) simp_all

lemma delete_all_reached: "reached_by (map (\<lambda>c. DeleteCell (lc_id c)) (listLayoutCells db lid)) db (delete_all_cells lid db)"
  by (simp add: reached_by_def delete_all_cells_def delete_all_run list_all_iff)

lemma steps_replace_cells:
  assumes "\<And>w. w \<in> set ws \<Longrightarrow> steps_by w"
  shows "steps_by (replace_cells lid ws)"
proof -
  have "steps_by (\<lambda>db. write_all ws (delete_all_cells lid db))"
  proof (rule steps_byI)
    fix db assume ok: "on_grid db"
    from delete_all_reached have "on_grid (delete_all_cells lid db)" by (rule reached_on_grid [OF ok])
    then obtain ys where "reached_by ys (delete_all_cells lid db) (snd (write_all ws (delete_all_cells lid db)))"
      using steps_byE [OF steps_write_all [OF assms]] by blast
    with reached_trans [OF delete_all_reached] show "\<exists>ops. reached_by ops db (snd (write_all ws (delete_all_cells lid db)))"
      by blast
  qed
  then show ?thesis unfolding replace_cells_def by (rule steps_transact)
qed

lemma grid_cell_input_sel [simp]:
  "ni_row (grid_cell_input lid r c rs cs) = r" "ni_col (grid_cell_input lid r c rs cs) = c"
  "ni_row_span (grid_cell_input lid r c rs cs) = rs" "ni_col_span (grid_cell_input lid r c rs cs) = cs"
  "ni_layout_id (grid_cell_input lid r c rs cs) = lid" "ni_entity_id (grid_cell_input lid r c rs cs) = None"
  by (simp_all add: grid_cell_input_def)

definition template_ok :: "cell_pos list \<Rightarrow> bool" where
  "template_ok cells \<longleftrightarrow> list_all (\<lambda>p. on_axis (ps_row p) \<and> on_axis (ps_col p)
                                     \<and> is_span (ps_row_span p) \<and> is_span (ps_col_span p)) cells"

lemma on_axis_of_nat: "n \<le> 1000 \<Longrightarrow> on_axis (of_nat n)"
proof -
  assume "n \<le> 1000"
  then have "(of_nat n :: number) \<le> of_nat 1000" by (simp only: of_nat_le_iff)
  then show ?thesis by (simp add: on_axis_def is_int4_def)
qed

lemma gridQuickLayout_ok: "n \<le> 1000 \<Longrightarrow> template_ok (gridQuickLayout n)"
  by (auto simp: template_ok_def gridQuickLayout_def list_all_iff intro!: on_axis_of_nat)

lemma on_axis_numeral: "on_axis 2" "on_axis 3" "is_span 3" "is_span 4" "on_axis 1"
  using on_axis_of_nat [of 2] on_axis_of_nat [of 3] on_axis_of_nat [of 4] on_axis_of_nat [of 1]
  by (simp_all add: is_span_def on_axis_def)

lemma quickLayoutCells_ok: "quickLayoutCells preset = Some cells \<Longrightarrow> template_ok cells"
  using gridQuickLayout_ok [of 2] gridQuickLayout_ok [of 4] gridQuickLayout_ok [of 8]
  by (auto simp: quickLayoutCells_def template_ok_def on_axis_numeral split: if_splits)

lemma template_bounds: "template_ok cells \<Longrightarrow> p \<in> set cells \<Longrightarrow>
    0 \<le> ps_row p \<and> 0 \<le> ps_col p \<and> 1 \<le> ps_row_span p \<and> 1 \<le> ps_col_span p"
  by (auto simp: template_ok_def list_all_iff on_axis_def is_span_def)

lemma steps_quick_writes:
  assumes "template_ok cells" and "w \<in> set (quick_writes lid fresh cells)"
  shows "steps_by w"
proof -
  obtain n p where p: "(n, p) \<in> set (enumerate 0 cells)"
    and w: "w = insert_cell (fresh n) (grid_cell_input lid (ps_row p) (ps_col p) (Some (ps_row_span p)) (Some (ps_col_span p)))"
    using assms(2) by (auto simp: quick_writes_def)
  from p have "p \<in> set cells" by (metis enumerate_eq_zip set_zip_rightD)
  with template_bounds [OF assms(1)] show ?thesis
    unfolding w by (intro steps_insert_cell) (simp add: input_forward_def)
qed

lemma steps_device_write: "steps_by (device_write lid d fresh x)"
proof (cases x)
  case (fields n rc cam)
  have "input_forward (device_cell_input lid d rc e)" for e
    by (simp add: input_forward_def device_cell_input_def)
  then have "steps_by (insert_cell (fresh n) (device_cell_input lid d rc e))" for e by blast
  then show ?thesis
    by (auto simp: steps_by_def device_write_def fields split: option.split intro: reached_refl)
qed

section \<open>The editor as a system\<close>

text \<open>The identifiers of new cells come with the event.\<close>

datatype editor_event =
    EvCreate bool string string cell_request
  | EvQuick bool string "nat \<Rightarrow> string" string
  | EvDevice bool string "nat \<Rightarrow> string" string
  | EvEdit bool string string form
  | EvResize bool string string string json string
  | EvMove string json json
  | EvDelete bool string string string

fun editor_step :: "(string \<Rightarrow> 'k::linorder) \<Rightarrow> (string \<Rightarrow> json option) \<Rightarrow> editor_event \<Rightarrow> content_db
  \<Rightarrow> editor_response \<times> content_db" where
  "editor_step ck jparse (EvCreate htmx lid cid rq) db = create_cell htmx lid cid rq db"
| "editor_step ck jparse (EvQuick htmx lid fresh preset) db = quick_layout htmx lid fresh preset db"
| "editor_step ck jparse (EvDevice htmx lid fresh did) db = device_layout ck htmx lid fresh did db"
| "editor_step ck jparse (EvEdit htmx lid cid body) db = edit_cell jparse htmx lid cid body db"
| "editor_step ck jparse (EvResize htmx lid cid field delta dir) db = resize_cell htmx lid cid field delta dir db"
| "editor_step ck jparse (EvMove cid row col) db = move_cell cid row col db"
| "editor_step ck jparse (EvDelete htmx target lid cid) db = delete_cell htmx target lid cid db"

text \<open>A cell created at an explicit position is inside the grid; the route does not test it.\<close>

fun inside_grid :: "editor_event \<Rightarrow> bool" where
  "inside_grid (EvCreate _ _ _ rq) =
     ((rq_after rq \<noteq> [] \<and> rq_direction rq \<noteq> []) \<or> (0 \<le> fst (explicit_position rq) \<and> 0 \<le> snd (explicit_position rq)))"
| "inside_grid _ = True"

lemma respond_snd: "snd (respond f r) = snd r"
  by (cases r) (auto simp: respond_def split: bool.split)

lemma steps_create_at:
  assumes "steps_by room" and "0 \<le> fst rc" and "0 \<le> snd rc" and "on_grid db"
  shows "\<exists>ops. reached_by ops db (snd (create_at htmx lid cid rc room db))"
proof -
  have "input_forward (grid_cell_input lid (fst rc) (snd rc) (Some 1) (Some 1))"
    using assms(2,3) by (simp add: input_forward_def)
  with assms(1) have "steps_by (and_then room (insert_cell cid (grid_cell_input lid (fst rc) (snd rc) (Some 1) (Some 1))))"
    by blast
  from steps_byE [OF this assms(4)] show ?thesis
    by (simp add: create_at_def respond_snd)
qed

lemma adjacent_inside:
  assumes "cell_on_grid ref"
  shows "0 \<le> fst (adjacent_position d ref)" "0 \<le> snd (adjacent_position d ref)"
  using cell_on_grid_bounds [OF assms] by (auto simp: adjacent_position_def split: direction.split)

lemma create_cell_reached:
  assumes "on_grid db" and "inside_grid (EvCreate htmx lid cid rq)"
  shows "\<exists>ops. reached_by ops db (snd (create_cell htmx lid cid rq db))"
proof (cases "rq_after rq \<noteq> [] \<and> rq_direction rq \<noteq> []")
  case False
  then have "create_cell htmx lid cid rq db = create_at htmx lid cid (explicit_position rq) (\<lambda>db. (True, db)) db"
    by (auto simp: create_cell_def)
  moreover have "0 \<le> fst (explicit_position rq)" "0 \<le> snd (explicit_position rq)"
    using assms(2) False by auto
  ultimately show ?thesis using steps_create_at [OF steps_skip _ _ assms(1)] by metis
next
  case True
  show ?thesis
  proof (cases "find (\<lambda>c. lc_id c = rq_after rq) (listLayoutCells db lid)")
    case None
    with True show ?thesis by (auto simp: create_cell_def intro: reached_refl)
  next
    case (Some ref)
    then have "cell_on_grid ref"
      using listLayoutCells_on_grid [OF assms(1)] by (metis find_Some_iff nth_mem)
    then show ?thesis
      using True Some steps_create_at [OF steps_make_room adjacent_inside(1) adjacent_inside(2) assms(1)] steps_create_at [OF steps_skip _ _ assms(1), of "(0, 0)"]
      by (auto simp: create_cell_def Let_def split: option.split)
  qed
qed

lemma quick_layout_reached:
  "on_grid db \<Longrightarrow> \<exists>ops. reached_by ops db (snd (quick_layout htmx lid fresh preset db))"
  using steps_byE [OF steps_replace_cells [OF steps_quick_writes [OF quickLayoutCells_ok]]]
  by (auto simp: quick_layout_def respond_snd split: option.split intro: reached_refl)

lemma device_layout_reached:
  assumes "on_grid db"
  shows "\<exists>ops. reached_by ops db (snd (device_layout ck htmx lid fresh did db))"
proof (cases "find (\<lambda>d. cd_id d = did) (c_devices db)")
  case None
  then show ?thesis by (auto simp: device_layout_def intro: reached_refl)
next
  case (Some device)
  have "steps_by (replace_cells lid (map (device_write lid (cd_layout_defaults_json device) fresh) xs))" for xs
    by (rule steps_replace_cells) (auto simp: steps_device_write)
  from steps_byE [OF this assms] show ?thesis by (simp add: device_layout_def Some Let_def respond_snd)
qed

lemma steps_assign_cell [intro]: "steps_by (assign_cell cid eid)"
proof (rule steps_byI)
  fix db
  show "\<exists>ops. reached_by ops db (snd (assign_cell cid eid db))"
    using reached_one [of "AssignCell cid eid" db] by (auto simp: assign_cell_def)
qed

lemma form_span_ge: "holds_if_some (\<lambda>x. 1 \<le> x) (form_span body k)"
  by (simp add: form_span_def Let_def split: option.split)

lemma dims_patch_forward: "patch_forward (dims_patch body options)"
  by (simp add: patch_forward_def dims_patch_def form_span_ge)

lemma steps_patch_and_push [intro]: "patch_forward p \<Longrightarrow> steps_by (patch_and_push lid cid p)"
  by (auto simp: patch_and_push_def)

lemma steps_write_smart_url [intro]: "steps_by (write_smart_url body cid)"
proof (rule steps_byI)
  fix db assume ok: "on_grid db"
  have "steps_by (put_cell cid (no_patch\<lparr>cp_options := x\<rparr>))" for x
    by (rule steps_put_cell) (simp add: patch_forward_def)
  from steps_byE [OF this ok] show "\<exists>ops. reached_by ops db (snd (write_smart_url body cid db))"
    by (auto simp: write_smart_url_def split: option.split intro: reached_refl)
qed

lemma edit_cell_reached:
  assumes "on_grid db"
  shows "\<exists>ops. reached_by ops db (snd (edit_cell jparse htmx lid cid body db))"
proof -
  have "steps_by (case elementInputOptions jparse body of
             None \<Rightarrow> (\<lambda>db. (False, db))
           | Some options \<Rightarrow> and_then (patch_and_push lid cid (dims_patch body options)) (write_smart_url body cid))"
    using dims_patch_forward by (auto split: option.split)
  then have "steps_by (and_then (assign_cell cid (form_entity body)) (case elementInputOptions jparse body of
             None \<Rightarrow> (\<lambda>db. (False, db))
           | Some options \<Rightarrow> and_then (patch_and_push lid cid (dims_patch body options)) (write_smart_url body cid)))"
    by (intro steps_and_then steps_assign_cell)
  from steps_byE [OF this assms] show ?thesis by (simp add: edit_cell_def respond_snd)
qed

lemma steps_resize_by: "steps_by (resize_by lid cid field delta cell)"
proof (rule steps_byI)
  fix db assume ok: "on_grid db"
  have "steps_by (and_then (put_cell cid (span_patch ax (max 1 x))) (resolveOverlaps lid cid ax))" for ax x
    by (intro steps_and_then steps_put_cell steps_resolveOverlaps)
      (simp add: patch_forward_def span_patch_def split: axis.split)
  from steps_byE [OF this ok] show "\<exists>ops. reached_by ops db (snd (resize_by lid cid field delta cell db))"
    by (auto simp: resize_by_def Let_def split: option.split intro: reached_refl)
qed

lemma resize_cell_reached:
  "on_grid db \<Longrightarrow> \<exists>ops. reached_by ops db (snd (resize_cell htmx lid cid field delta dir db))"
  using steps_byE [OF steps_resize_by] steps_byE [OF steps_shiftCellsForExpansion]
  by (auto simp: resize_cell_def respond_snd split: option.split intro: reached_refl)

lemma move_cell_reached:
  assumes "on_grid db"
  shows "\<exists>ops. reached_by ops db (snd (move_cell cid row col db))"
proof -
  have "0 \<le> r \<Longrightarrow> 0 \<le> c \<Longrightarrow> steps_by (put_cell cid (no_patch\<lparr>cp_row := Some r, cp_col := Some c\<rparr>))" for r c
    by (rule steps_put_cell) (simp add: patch_forward_def)
  from steps_byE [OF this assms] show ?thesis
    by (auto simp: move_cell_def respond_snd split: option.split intro: reached_refl)
qed

lemma delete_cell_reached: "\<exists>ops. reached_by ops db (snd (delete_cell htmx target lid cid db))"
  using reached_one [of "DeleteCell cid" db] by (auto simp: delete_cell_def Let_def)

lemma editor_step_reached:
  "on_grid db \<Longrightarrow> inside_grid ev \<Longrightarrow> \<exists>ops. reached_by ops db (snd (editor_step ck jparse ev db))"
  by (cases ev) (simp_all add: create_cell_reached quick_layout_reached device_layout_reached edit_cell_reached
      resize_cell_reached move_cell_reached delete_cell_reached del: inside_grid.simps(1))

lemma grid_op_fresh: "grid_op opn \<Longrightarrow> fresh_op opn db"
  by (cases opn) simp_all

lemma grid_ops_guarded: "list_all grid_op ops \<Longrightarrow> content.guarded ops db"
  by (induction ops arbitrary: db) (simp_all add: grid_op_fresh)

definition editor_inv :: "content_db \<Rightarrow> bool" where
  "editor_inv db \<longleftrightarrow> on_grid db \<and> mirrored db \<and> entity_key db"

lemma reached_inv: "editor_inv db \<Longrightarrow> reached_by ops db db' \<Longrightarrow> editor_inv db'"
  using content.run_keeps [of db ops] grid_ops_guarded [of ops db] reached_on_grid [of db ops db']
  by (simp add: editor_inv_def reached_by_def content_run_fold)

interpretation editor: guarded_system "\<lambda>ev db. snd (editor_step ck jparse ev db)" "\<lambda>ev db. inside_grid ev" editor_inv
  for ck :: "string \<Rightarrow> 'k::linorder" and jparse
proof
  fix db :: content_db and ev
  assume inv: "editor_inv db" and "inside_grid ev"
  then obtain ops where "reached_by ops db (snd (editor_step ck jparse ev db))"
    using editor_step_reached [of db ev] unfolding editor_inv_def by blast
  with inv show "editor_inv (snd (editor_step ck jparse ev db))" by (rule reached_inv)
qed

abbreviation editor_run :: "(string \<Rightarrow> 'k::linorder) \<Rightarrow> (string \<Rightarrow> json option) \<Rightarrow> editor_event list \<Rightarrow> content_db \<Rightarrow> content_db" where
  "editor_run ck jparse \<equiv> fold (\<lambda>ev db. snd (editor_step ck jparse ev db))"

lemma editor_guarded:
  "guarded_system.guarded (\<lambda>ev db. snd (editor_step ck jparse ev db)) (\<lambda>ev db. inside_grid ev) evs db
     \<longleftrightarrow> list_all inside_grid evs"
  by (induction evs arbitrary: db) (simp_all add: editor.guarded.simps)

lemma editor_run_reached:
  "on_grid db \<Longrightarrow> list_all inside_grid evs \<Longrightarrow> \<exists>ops. reached_by ops db (editor_run ck jparse evs db)"
proof (induction evs arbitrary: db)
  case Nil
  show ?case by (auto intro: reached_refl)
next
  case (Cons ev evs)
  then obtain xs where xs: "reached_by xs db (snd (editor_step ck jparse ev db))"
    using editor_step_reached [of db ev ck jparse] by auto
  with Cons.prems have "on_grid (snd (editor_step ck jparse ev db))" using reached_on_grid by blast
  with Cons obtain ys where
    "reached_by ys (snd (editor_step ck jparse ev db)) (editor_run ck jparse evs (snd (editor_step ck jparse ev db)))"
    by auto
  from reached_trans [OF xs this] show ?case by auto
qed

section \<open>Replacing the cells of a layout\<close>

lemma delete_all_cells_eq:
  assumes "distinct (map lc_id (c_cells db))"
  shows "delete_all_cells lid db = db\<lparr>c_cells := filter (\<lambda>c. lc_layout_id c \<noteq> lid) (c_cells db)\<rparr>"
proof -
  have "fold (\<lambda>c. deleteLayoutCell (lc_id c)) cs d
          = d\<lparr>c_cells := filter (\<lambda>c. lc_id c \<notin> lc_id ` set cs) (c_cells d)\<rparr>" for cs :: "layout_cell list" and d
  proof (induction cs arbitrary: d)
    case (Cons a cs)
    show ?case
      by (simp add: Cons.IH) (simp add: deleteLayoutCell_def conj_commute)
  qed simp
  moreover have "filter (\<lambda>c. lc_id c \<notin> lc_id ` set (listLayoutCells db lid)) (c_cells db)
               = filter (\<lambda>c. lc_layout_id c \<noteq> lid) (c_cells db)"
  proof (rule filter_cong)
    fix c assume c: "c \<in> set (c_cells db)"
    have "lc_id ` set (listLayoutCells db lid) = lc_id ` {c \<in> set (c_cells db). lc_layout_id c = lid}"
      by (simp add: listLayoutCells_def image_image rowToLayoutCell_def)
    moreover have "lc_id c = lc_id d \<longleftrightarrow> c = d" if "d \<in> set (c_cells db)" for d
      using assms c that by (auto simp: distinct_map inj_on_def)
    ultimately show "lc_id c \<notin> lc_id ` set (listLayoutCells db lid) \<longleftrightarrow> lc_layout_id c \<noteq> lid"
      using c by auto
  qed simp
  ultimately show ?thesis by (simp only: delete_all_cells_def)
qed

definition quick_cell :: "string \<Rightarrow> string \<Rightarrow> cell_pos \<Rightarrow> layout_cell" where
  "quick_cell lid cid p =
     new_cell cid (grid_cell_input lid (ps_row p) (ps_col p) (Some (ps_row_span p)) (Some (ps_col_span p)))"

lemma quick_cell_sel [simp]: "lc_layout_id (quick_cell lid cid p) = lid" "pos_of (quick_cell lid cid p) = p"
  by (simp_all add: quick_cell_def new_cell_def pos_of_def at_pos_def)

lemma getLayoutById_cells [simp]: "getLayoutById (db\<lparr>c_cells := x\<rparr>) lid = getLayoutById db lid"
  by (simp add: getLayoutById_def)

lemma insert_quick_cell:
  assumes "template_ok [p]" and "getLayoutById db lid \<noteq> None"
  shows "insert_cell cid (grid_cell_input lid (ps_row p) (ps_col p) (Some (ps_row_span p)) (Some (ps_col_span p))) db
       = (True, db\<lparr>c_cells := c_cells db @ [quick_cell lid cid p]\<rparr>)"
  using assms by (simp add: insert_cell_def createLayoutCell_def quick_cell_def template_ok_def on_axis_def is_span_def
      int4_or_null_def Let_def)

lemma write_quick_cells:
  assumes "template_ok cells" and "getLayoutById db lid \<noteq> None"
  shows "write_all (map (\<lambda>(n, c). insert_cell (fresh n)
            (grid_cell_input lid (ps_row c) (ps_col c) (Some (ps_row_span c)) (Some (ps_col_span c))))
            (enumerate k cells)) db
       = (True, db\<lparr>c_cells := c_cells db @ map (\<lambda>(n, c). quick_cell lid (fresh n) c) (enumerate k cells)\<rparr>)"
  using assms
proof (induction cells arbitrary: k db)
  case (Cons p cells)
  then have "template_ok [p]" "template_ok cells" by (simp_all add: template_ok_def)
  with Cons show ?case by (simp add: and_then_def insert_quick_cell)
qed simp

lemma map_enumerate_pos: "map (pos_of \<circ> (\<lambda>(n, c). quick_cell lid (fresh n) c)) (enumerate k cells) = cells"
  by (induction cells arbitrary: k) simp_all

lemma quick_layout_result:
  assumes "distinct (map lc_id (c_cells db))" and "getLayoutById db lid \<noteq> None" and "quickLayoutCells preset = Some cells"
  shows "quick_layout htmx lid fresh preset db =
     (let db1 = db\<lparr>c_cells := filter (\<lambda>c. lc_layout_id c \<noteq> lid) (c_cells db)
                             @ map (\<lambda>(n, c). quick_cell lid (fresh n) c) (enumerate 0 cells)\<rparr>
      in (grid_response htmx lid db1, db1))"
  using assms write_quick_cells [OF quickLayoutCells_ok [OF assms(3)], of "delete_all_cells lid db" lid fresh 0]
  by (simp add: quick_layout_def replace_cells_def transact_def quick_writes_def respond_def delete_all_cells_eq Let_def)

lemma grid_response_fine: "grid_response htmx lid db \<noteq> Errored"
  by (simp add: grid_response_def)

text \<open>
  Choosing a quick layout for an existing layout succeeds, leaves the cells of every other
  layout alone, and the layout then shows exactly the cells of the template, which tile a
  square: each grid position inside it is under exactly one cell and no cell reaches outside.
\<close>

theorem quick_layout_tiles_grid:
  assumes "distinct (map lc_id (c_cells db))" and "getLayoutById db lid \<noteq> None"
    and "quickLayoutCells preset = Some cells"
  shows "fst (quick_layout htmx lid fresh preset db) \<noteq> Errored
    \<and> filter (\<lambda>c. lc_layout_id c \<noteq> lid) (c_cells (snd (quick_layout htmx lid fresh preset db)))
        = filter (\<lambda>c. lc_layout_id c \<noteq> lid) (c_cells db)
    \<and> map pos_of (filter (\<lambda>c. lc_layout_id c = lid) (c_cells (snd (quick_layout htmx lid fresh preset db)))) = cells
    \<and> (\<exists>n > 0. tiles_square n cells)"
proof -
  let ?new = "map (\<lambda>(n, c). quick_cell lid (fresh n) c) (enumerate 0 cells)"
  have new: "filter (\<lambda>c. lc_layout_id c \<noteq> lid) ?new = []" "filter (\<lambda>c. lc_layout_id c = lid) ?new = ?new"
    by (auto simp: filter_empty_conv filter_id_conv)
  obtain n where "n > 0" "tiles_square n cells" using quickLayoutCells_tiles [OF assms(3)] by blast
  then show ?thesis
    using new by (auto simp: quick_layout_result [OF assms] Let_def grid_response_fine map_enumerate_pos)
qed

text \<open>
  The grid of a device places every camera on a position of its own, in reading order, in
  the smallest square that holds them all.
\<close>

theorem device_grid_smallest_square:
  "length (deviceGridPositions n) = n \<and> distinct (deviceGridPositions n)
   \<and> set (deviceGridPositions n) \<subseteq> {..<ceil_sqrt n} \<times> {..<ceil_sqrt n}
   \<and> (\<forall>i < n. fst (deviceGridPositions n ! i) * ceil_sqrt n + snd (deviceGridPositions n ! i) = i)
   \<and> n \<le> ceil_sqrt n * ceil_sqrt n \<and> (\<forall>c < ceil_sqrt n. c * c < n)"
proof (cases "n = 0")
  case True
  then show ?thesis by (simp add: deviceGridPositions_def ceil_sqrt_def)
next
  case False
  then have "0 < ceil_sqrt n" by (simp add: ceil_sqrt_pos)
  with False show ?thesis
    using ceil_sqrt_least(1) [of n] ceil_sqrt_least(2) [of _ n] div_mod_inj [of "ceil_sqrt n" "{0..<n}"]
    by (auto simp: deviceGridPositions_def Let_def distinct_map div_less_ceil)
qed

text \<open>
  Pushing cells out of the way of an anchor keeps the cells and their sizes: no cell moves
  against or across the axis of the push.
\<close>

theorem resolve_pushes_forward:
  assumes "distinct (map lc_id cells)"
  shows "map fst (resolved_positions ax aid cells) = map lc_id cells
    \<and> list_all2 (\<lambda>c p. moved_on ax (pos_of c) p) cells (map snd (resolved_positions ax aid cells))"
proof -
  have "fold (\<lambda>c m. AList.update (lc_id c) (pos_of c) m) cs m = m @ map (\<lambda>c. (lc_id c, pos_of c)) cs"
    if "distinct (map lc_id cs)" "lc_id ` set cs \<inter> fst ` set m = {}" for cs m
    using that
  proof (induction cs arbitrary: m)
    case (Cons c cs)
    then have "map_of m (lc_id c) = None" by (auto simp: map_of_eq_None_iff)
    with Cons show ?case by (auto simp: set_absent)
  qed simp
  from this [OF assms, of "[]"] have read: "read_positions cells = map (\<lambda>c. (lc_id c, pos_of c)) cells"
    by (simp add: read_positions_def)
  have adv: "advances ax (read_positions cells) (resolved_positions ax aid cells)" by (rule resolved_advances)
  from advances_keys [OF adv] have "map fst (resolved_positions ax aid cells) = map lc_id cells"
    by (simp add: read comp_def)
  moreover from adv have "list_all2 (\<lambda>c p. moved_on ax (pos_of c) p) cells (map snd (resolved_positions ax aid cells))"
    by (auto simp: read list_all2_map1 list_all2_map2 elim!: list_all2_mono)
  ultimately show ?thesis by blast
qed

text \<open>
  (C8) Any sequence of editor requests whose explicit positions are not negative amounts to
  creations, updates, assignments and deletions of cells, keeps every cell on the grid with
  whole coordinates from zero and spans from one, and keeps cells in step with their entities.
\<close>

theorem editor_refines_layouts:
  assumes "editor_inv db" and "list_all inside_grid evs"
  shows "(\<exists>ops. list_all grid_op ops \<and> editor_run ck jparse evs db = content_run ops db)
    \<and> editor_inv (editor_run ck jparse evs db)"
proof -
  have "editor_inv (editor_run ck jparse evs db)"
    using editor.run_keeps [OF assms(1)] assms(2) editor_guarded by blast
  moreover obtain ops where "reached_by ops db (editor_run ck jparse evs db)"
    using assms editor_run_reached unfolding editor_inv_def by blast
  ultimately show ?thesis unfolding reached_by_def by blast
qed

section \<open>What the pushes do not achieve\<close>

text \<open>
  Expanding the cell \<^verbatim>\<open>b\<close> to the left pushes and cascades once; the anchor is then clear, so the
  loop stops, although the cells \<^verbatim>\<open>c\<close> and \<^verbatim>\<open>e\<close> lie over each other, which they did not before.
\<close>

definition wall_layout :: layout where
  "wall_layout = \<lparr>l_local_short_key = None, l_id = ''L'', l_name = ''Wall'', l_description = None,
     l_template_id = None, l_regions = [], l_grid_cols = 1, l_grid_rows = 1, l_display_id = None,
     l_priority = PrioNormal, l_cooling_timeout_seconds = None, l_idle_timeout_seconds = None,
     l_preload_camera_ids = [], l_is_default = False, l_resets_idle_timer = True, l_input_options_json = JObj []\<rparr>"

definition wall_cells :: "(string \<times> cell_pos) list" where
  "wall_cells =
     [(''a'', at_pos 0 0 1 2), (''b'', at_pos 0 2 2 1), (''c'', at_pos 0 3 3 1), (''d'', at_pos 1 0 3 2),
      (''e'', at_pos 1 4 3 1)]"

definition wall_db :: content_db where
  "wall_db = empty_content\<lparr>c_layouts := [wall_layout],
     c_cells := map (\<lambda>(i, p). quick_cell ''L'' i p) wall_cells\<rparr>"

definition overlapping :: "content_db \<Rightarrow> string \<Rightarrow> (string \<times> string) list" where
  "overlapping db lid = (let cs = listLayoutCells db lid in
     concat (map (\<lambda>c. map (\<lambda>d. (lc_id c, lc_id d))
       (filter (\<lambda>d. lc_id c \<noteq> lc_id d \<and> cellsOverlap (pos_of c) (pos_of d)) cs)) cs))"

lemma expansion_leaves_overlap:
  "overlapping wall_db ''L'' = []
   \<and> overlapping (snd (resize_cell False ''L'' ''b'' [] JNull ''left'' wall_db)) ''L'' = [(''c'', ''e''), (''e'', ''c'')]"
  by code_simp

text \<open>A cell created at an explicit position may lie outside the grid, where a move refuses to go.\<close>

lemma create_accepts_negative:
  "map pos_of (listLayoutCells (snd (create_cell False ''L'' ''x''
       \<lparr>rq_after = [], rq_direction = [], rq_position = None, rq_row = JNum (- 3), rq_col = JNum 0\<rparr>
       (wall_db\<lparr>c_cells := []\<rparr>))) ''L'') = [at_pos (- 3) 0 1 1]
   \<and> snd (move_cell ''e'' (JNum (- 3)) (JNum 0) wall_db) = wall_db"
  by code_simp

section \<open>Witnesses\<close>

lemma wall_db_inv: "editor_inv wall_db"
  by code_simp

theorem quick_layout_tiles_grid_witness:
  "map pos_of (filter (\<lambda>c. lc_layout_id c = ''L'') (c_cells (snd (quick_layout True ''L'' show_nat ''left-focus'' wall_db))))
     = [at_pos 0 0 4 3, at_pos 0 3 1 1, at_pos 1 3 1 1, at_pos 2 3 1 1, at_pos 3 3 1 1]"
proof -
  have "distinct (map lc_id (c_cells wall_db))" "getLayoutById wall_db ''L'' \<noteq> None"
    "quickLayoutCells ''left-focus''
       = Some [at_pos 0 0 4 3, at_pos 0 3 1 1, at_pos 1 3 1 1, at_pos 2 3 1 1, at_pos 3 3 1 1]"
    by code_simp+
  from quick_layout_tiles_grid [OF this] show ?thesis by blast
qed

theorem resolve_pushes_forward_witness:
  "map fst (resolved_positions AxisCol ''e'' (listLayoutCells wall_db ''L'')) = [''a'', ''b'', ''c'', ''d'', ''e'']"
proof -
  have ids: "map lc_id (listLayoutCells wall_db ''L'') = [''a'', ''b'', ''c'', ''d'', ''e'']" by code_simp
  have "distinct (map lc_id (listLayoutCells wall_db ''L''))" unfolding ids by simp
  from resolve_pushes_forward [OF this, of AxisCol "''e''"] show ?thesis unfolding ids by blast
qed

definition wall_events :: "editor_event list" where
  "wall_events = [EvResize False ''L'' ''e'' [] JNull ''left'', EvMove ''a'' (JNum 5) (JNum 0),
     EvCreate False ''L'' ''x'' \<lparr>rq_after = ''a'', rq_direction = ''right'', rq_position = None,
        rq_row = JUndefined, rq_col = JUndefined\<rparr>,
     EvEdit True ''L'' ''b'' (map_of [(''col_span'', ''2''), (''step_0_type'', ''wait''), (''step_0_value'', ''250'')]),
     EvDelete True [] ''L'' ''c'']"

theorem editor_refines_layouts_witness:
  "editor_inv (editor_run length (\<lambda>_. None) wall_events wall_db)
   \<and> map lc_id (c_cells (editor_run length (\<lambda>_. None) wall_events wall_db)) = [''a'', ''b'', ''d'', ''e'', ''x'']"
proof -
  have "list_all inside_grid wall_events" by code_simp
  from editor_refines_layouts [OF wall_db_inv this, of length "\<lambda>_. None"]
  have "editor_inv (editor_run length (\<lambda>_. None) wall_events wall_db)" by blast
  moreover have "map lc_id (c_cells (editor_run length (\<lambda>_. None) wall_events wall_db)) = [''a'', ''b'', ''d'', ''e'', ''x'']"
    by code_simp
  ultimately show ?thesis by blast
qed

end
