(* ===== verification/BF_IoBox.thy ===== *)
theory BF_IoBox
  imports BF_Auth BF_Pairing BF_RateLimit BF_Version
begin

text \<open>
  IO boxes: \<^verbatim>\<open>server/src/shared/iobox-pairing.ts\<close>, the repository operations on models, serials,
  boxes, input mappings and firmware, and the routes under \<^verbatim>\<open>/api/iobox\<close> of
  \<^verbatim>\<open>plugins/service-api-http/index.ts\<close>.  The inventory of models, serials and pairing claims
  is global; boxes are rows of a tenant schema.  A transaction that throws leaves the state as
  it was.  Times, identifiers, random bytes and salts are arguments; the request bodies are
  those the body schemas let through; \<open>seal\<close>/\<open>unseal\<close> stand for the serialised and encrypted
  envelope of \<^verbatim>\<open>secrets.ts\<close>.
\<close>

section \<open>State\<close>

record pairing_claim =
  cl_secret_hash :: string
  cl_encrypted :: "string option"
  cl_acknowledged_at :: "timestamp option"

record input_mapping =
  im_id :: string
  im_iobox_id :: "string option"
  im_display_id :: "string option"
  im_layout_id :: "string option"
  im_cell_id :: "string option"
  im_source_kind :: string
  im_match_json :: "(string \<times> json) list"
  im_target_kind :: string
  im_action :: string
  im_params_json :: json
  im_enabled :: bool
  im_created_at :: timestamp

record iobox_release =
  ir_id :: string
  ir_version :: string
  ir_channel :: firmware_channel
  ir_arch :: string
  ir_model_id :: "string option"
  ir_artifact_path :: string
  ir_size_bytes :: number
  ir_sha256 :: string
  ir_signature :: string
  ir_release_notes :: "string option"
  ir_uploaded_at :: timestamp
  ir_uploaded_by :: "string option"
  ir_yanked_at :: "timestamp option"

record io_tables =
  io_displays :: "display list"
  io_kiosks :: "kiosk list"
  io_mappings :: "input_mapping list"
  io_releases :: "iobox_release list"
  io_events :: "event_log list"

record iobox_db =
  ib_auth :: auth_db
  ib_models :: "iobox_model list"
  ib_serials :: "iobox_serial list"
  ib_claims :: "(string, pairing_claim) jsmap"
  ib_schemas :: "(string, io_tables) jsmap"

datatype iobox_error =
    UnknownSerial
  | WrongProvisioningSecret
  | PairedNeedsReset
  | SerialAlreadyPaired
  | ClaimUnreadable
  | TenantUnavailable
  | DeviceRevoked
  | SerialModelMissing
  | InvalidAcknowledgement
  | BadSchema
  | ConstraintViolation

definition empty_io :: io_tables where
  "empty_io = \<lparr>io_displays = [], io_kiosks = [], io_mappings = [], io_releases = [], io_events = []\<rparr>"

definition io_table :: "iobox_db \<Rightarrow> string \<Rightarrow> io_tables" where
  "io_table db schema = nullish (map_of (ib_schemas db) (visible_schema (ib_auth db) schema)) empty_io"

definition put_io :: "string \<Rightarrow> io_tables \<Rightarrow> iobox_db \<Rightarrow> iobox_db" where
  "put_io schema t db = db\<lparr>ib_schemas := AList.update (visible_schema (ib_auth db) schema) t (ib_schemas db)\<rparr>"

definition boxes :: "iobox_db \<Rightarrow> string \<Rightarrow> iobox list" where
  "boxes db schema = at_ioboxes (tables (ib_auth db) schema)"

definition put_boxes :: "string \<Rightarrow> iobox list \<Rightarrow> iobox_db \<Rightarrow> iobox_db" where
  "put_boxes schema bs db =
     db\<lparr>ib_auth := put_tables schema ((tables (ib_auth db) schema)\<lparr>at_ioboxes := bs\<rparr>) (ib_auth db)\<rparr>"

section \<open>Models and serials\<close>

definition getIoBoxModel :: "iobox_db \<Rightarrow> string \<Rightarrow> iobox_model option" where
  "getIoBoxModel db mid = find (\<lambda>m. iom_id m = mid) (ib_models db)"

definition createIoBoxModel :: "iobox_model \<Rightarrow> iobox_db \<Rightarrow> (iobox_error, iobox_db) result" where
  "createIoBoxModel m db =
     (if list_ex (\<lambda>x. iom_id x = iom_id m \<or> iom_name x = iom_name m) (ib_models db) then Inl ConstraintViolation
      else Inr (db\<lparr>ib_models := ib_models db @ [m]\<rparr>))"

text \<open>A model with registered serials cannot be deleted.\<close>

definition deleteIoBoxModel :: "string \<Rightarrow> iobox_db \<Rightarrow> (iobox_error, iobox_db) result" where
  "deleteIoBoxModel mid db =
     (if list_ex (\<lambda>s. ios_model_id s = mid) (ib_serials db) then Inl ConstraintViolation
      else Inr (db\<lparr>ib_models := filter (\<lambda>m. iom_id m \<noteq> mid) (ib_models db)\<rparr>))"

definition getIoBoxSerial :: "iobox_db \<Rightarrow> string \<Rightarrow> iobox_serial option" where
  "getIoBoxSerial db serial = find (\<lambda>s. ios_serial s = serial) (ib_serials db)"

definition map_serial :: "string \<Rightarrow> (iobox_serial \<Rightarrow> iobox_serial) \<Rightarrow> iobox_db \<Rightarrow> iobox_db" where
  "map_serial serial f db = db\<lparr>ib_serials := map (\<lambda>s. if ios_serial s = serial then f s else s) (ib_serials db)\<rparr>"

text \<open>Registering a serial again changes its model and notes and keeps its pairing.\<close>

definition registerIoBoxSerial :: "timestamp \<Rightarrow> string \<Rightarrow> string \<Rightarrow> string option \<Rightarrow> iobox_db \<Rightarrow> (iobox_error, iobox_db) result" where
  "registerIoBoxSerial now serial mid notes db =
     (if getIoBoxModel db mid = None then Inl ConstraintViolation
      else if getIoBoxSerial db serial \<noteq> None
      then Inr (map_serial serial (\<lambda>s. s\<lparr>ios_model_id := mid, ios_notes := notes\<rparr>) db)
      else Inr (db\<lparr>ib_serials := ib_serials db @
             [\<lparr>ios_serial = serial, ios_model_id = mid, ios_notes = notes, ios_registered_at = now,
               ios_paired_tenant_id = None, ios_paired_iobox_id = None, ios_last_seen_at = None\<rparr>]\<rparr>))"

definition touchIoBoxSerial :: "timestamp \<Rightarrow> string \<Rightarrow> iobox_db \<Rightarrow> iobox_db" where
  "touchIoBoxSerial now serial = map_serial serial (\<lambda>s. s\<lparr>ios_last_seen_at := Some now\<rparr>)"

definition markIoBoxSerialPaired :: "timestamp \<Rightarrow> string \<Rightarrow> string option \<Rightarrow> string \<Rightarrow> iobox_db \<Rightarrow> iobox_db" where
  "markIoBoxSerialPaired now serial tid bid =
     map_serial serial (\<lambda>s. s\<lparr>ios_paired_tenant_id := tid, ios_paired_iobox_id := Some bid, ios_last_seen_at := Some now\<rparr>)"

section \<open>Boxes\<close>

definition getIoBoxById :: "iobox_db \<Rightarrow> string \<Rightarrow> string \<Rightarrow> iobox option" where
  "getIoBoxById db schema bid = find (\<lambda>b. iob_id b = bid) (boxes db schema)"

record box_input =
  bi_serial :: string
  bi_model_id :: string
  bi_name :: string
  bi_key_hash :: string
  bi_key_prefix :: string
  bi_assigned_display_id :: "string option"

definition new_box :: "string \<Rightarrow> timestamp \<Rightarrow> box_input \<Rightarrow> iobox" where
  "new_box bid now i =
     \<lparr>iob_id = bid, iob_serial = bi_serial i, iob_model_id = bi_model_id i, iob_name = bi_name i,
      iob_key_hash = Some (bi_key_hash i), iob_key_prefix = Some (bi_key_prefix i), iob_enabled = True,
      iob_paired_at = Some now, iob_last_seen_at = None, iob_assigned_display_id = bi_assigned_display_id i,
      iob_firmware_version = None, iob_firmware_channel = ChStable, iob_firmware_target_version = None,
      iob_firmware_last_attempt_at = None, iob_firmware_last_attempt_version = None,
      iob_firmware_last_error = None, iob_config_json = JObj [], iob_config_version = 0,
      iob_config_applied_version = 0, iob_config_applied_at = None, iob_config_error = None,
      iob_route_mode = RouteUnknown, iob_local_last_ip = None, iob_network_json = JObj [], iob_created_at = now\<rparr>"

text \<open>Identifier and serial are unique in the schema, and an assigned display has to exist.\<close>

definition createIoBox :: "string \<Rightarrow> string \<Rightarrow> timestamp \<Rightarrow> box_input \<Rightarrow> iobox_db \<Rightarrow> (iobox_error, iobox_db \<times> iobox) result" where
  "createIoBox schema bid now i db =
     (if list_ex (\<lambda>b. iob_id b = bid \<or> iob_serial b = bi_serial i) (boxes db schema)
         \<or> (case bi_assigned_display_id i of None \<Rightarrow> False
            | Some d \<Rightarrow> \<not> list_ex (\<lambda>x. d_id x = d) (io_displays (io_table db schema)))
      then Inl ConstraintViolation
      else Inr (put_boxes schema (boxes db schema @ [new_box bid now i]) db, new_box bid now i))"

definition map_box :: "string \<Rightarrow> string \<Rightarrow> (iobox \<Rightarrow> iobox) \<Rightarrow> iobox_db \<Rightarrow> iobox_db" where
  "map_box schema bid f db = put_boxes schema (map (\<lambda>b. if iob_id b = bid then f b else b) (boxes db schema)) db"

definition set_when :: "'a option \<Rightarrow> 'a option \<Rightarrow> 'a option" where
  "set_when a b = (case a of None \<Rightarrow> b | Some _ \<Rightarrow> a)"

record touch_patch =
  tp_firmware_version :: "string option"
  tp_config_applied_version :: "number option"
  tp_config_error :: "string option"
  tp_route_mode :: "iobox_route_mode option"
  tp_local_last_ip :: "string option"
  tp_network_json :: "json option"

definition touch_box :: "timestamp \<Rightarrow> touch_patch \<Rightarrow> iobox \<Rightarrow> iobox" where
  "touch_box now p b = b\<lparr>iob_last_seen_at := Some now,
     iob_firmware_version := set_when (tp_firmware_version p) (iob_firmware_version b),
     iob_config_applied_version := nullish (tp_config_applied_version p) (iob_config_applied_version b),
     iob_config_applied_at := (if tp_config_applied_version p = None then iob_config_applied_at b else Some now),
     iob_config_error := tp_config_error p,
     iob_route_mode := nullish (tp_route_mode p) (iob_route_mode b),
     iob_local_last_ip := set_when (tp_local_last_ip p) (iob_local_last_ip b),
     iob_network_json := nullish (tp_network_json p) (iob_network_json b)\<rparr>"

definition touchIoBox :: "timestamp \<Rightarrow> string \<Rightarrow> string \<Rightarrow> touch_patch \<Rightarrow> iobox_db \<Rightarrow> iobox_db" where
  "touchIoBox now schema bid p = map_box schema bid (touch_box now p)"

section \<open>Pairing\<close>

record envelope =
  en_tenant_slug :: string
  en_iobox_id :: string
  en_iobox_key :: string

record io_lib =
  io_auth :: auth_lib
  io_seal :: "bytes \<Rightarrow> envelope \<Rightarrow> string"
  io_unseal :: "string \<Rightarrow> envelope option"

definition secret_hash :: "io_lib \<Rightarrow> string \<Rightarrow> string" where
  "secret_hash lib s = hex_encode (lib_sha (io_auth lib) s)"

definition secret_fits :: "io_lib \<Rightarrow> string option \<Rightarrow> pairing_claim \<Rightarrow> bool" where
  "secret_fits lib secret c = matchesSecret (secret_hash lib) secret (JStr (cl_secret_hash c))"

definition put_claim :: "string \<Rightarrow> pairing_claim \<Rightarrow> iobox_db \<Rightarrow> iobox_db" where
  "put_claim serial c db = db\<lparr>ib_claims := AList.update serial c (ib_claims db)\<rparr>"

definition bindIoBoxProvisioning :: "io_lib \<Rightarrow> string \<Rightarrow> string option \<Rightarrow> iobox_db \<Rightarrow> (iobox_error, iobox_db) result" where
  "bindIoBoxProvisioning lib serial secret db =
     (if \<not> truthy_str secret then Inr db
      else case getIoBoxSerial db serial of
          None \<Rightarrow> Inl UnknownSerial
        | Some row \<Rightarrow>
            (case map_of (ib_claims db) serial of
               Some c \<Rightarrow> if secret_fits lib secret c then Inr db else Inl WrongProvisioningSecret
             | None \<Rightarrow>
                 if truthy_str (ios_paired_iobox_id row) then Inl PairedNeedsReset
                 else Inr (put_claim serial \<lparr>cl_secret_hash = secret_hash lib (the secret), cl_encrypted = None,
                                              cl_acknowledged_at = None\<rparr> db)))"

record claim_input =
  ci_serial :: string
  ci_secret :: "string option"
  ci_name :: string
  ci_display :: "string option"

record claim_tenant =
  ct_id :: "string option"
  ct_slug :: string
  ct_schema :: string

text \<open>Fresh values of one claim: identifier, time, key bytes, salt and initialisation vector.\<close>

record claim_fresh =
  cf_id :: string
  cf_now :: timestamp
  cf_key :: bytes
  cf_salt :: bytes
  cf_iv :: bytes

definition iobox_key :: "bytes \<Rightarrow> string" where
  "iobox_key random = ''bfio-'' @ b64u random"

text \<open>A serial that is already paired: the stored envelope, while the device is usable.\<close>

definition reclaim :: "io_lib \<Rightarrow> iobox_serial \<Rightarrow> pairing_claim option \<Rightarrow> iobox_db \<Rightarrow> (iobox_error, envelope) result" where
  "reclaim lib reg claim db =
     (case Option.bind claim cl_encrypted of
        None \<Rightarrow> Inl SerialAlreadyPaired
      | Some c \<Rightarrow>
          if c = [] then Inl SerialAlreadyPaired
          else (case io_unseal lib c of
             None \<Rightarrow> Inl ClaimUnreadable
           | Some e \<Rightarrow>
               let tn = (if truthy_str (ios_paired_tenant_id reg)
                         then getTenantById (ib_auth db) (the (ios_paired_tenant_id reg)) else None);
                   schema = (case tn of None \<Rightarrow> ''public'' | Some t \<Rightarrow> tn_schema_name t)
               in if truthy_str (ios_paired_tenant_id reg) \<and> (case tn of None \<Rightarrow> True | Some t \<Rightarrow> \<not> tn_is_active t)
                  then Inl TenantUnavailable
                  else if \<not> assertSchema schema then Inl BadSchema
                  else (case getIoBoxById db schema (the (ios_paired_iobox_id reg)) of
                          None \<Rightarrow> Inl DeviceRevoked
                        | Some b \<Rightarrow> if iob_enabled b then Inr e else Inl DeviceRevoked)))"

definition store_envelope :: "io_lib \<Rightarrow> claim_fresh \<Rightarrow> string \<Rightarrow> envelope \<Rightarrow> pairing_claim option \<Rightarrow> iobox_db \<Rightarrow> iobox_db" where
  "store_envelope lib fresh serial e claim db =
     (case claim of None \<Rightarrow> db
      | Some c \<Rightarrow> put_claim serial (c\<lparr>cl_encrypted := Some (io_seal lib (cf_iv fresh) e)\<rparr>) db)"

definition claimed_box :: "io_lib \<Rightarrow> claim_fresh \<Rightarrow> claim_input \<Rightarrow> iobox_model \<Rightarrow> box_input" where
  "claimed_box lib fresh i model =
     (let key = iobox_key (cf_key fresh); name = js_trim (ci_name i)
      in \<lparr>bi_serial = ci_serial i, bi_model_id = iom_id model,
          bi_name = (if name \<noteq> [] then name else iom_name model @ '' '' @ ci_serial i),
          bi_key_hash = lib_hash (io_auth lib) (cf_salt fresh) key, bi_key_prefix = take 8 key,
          bi_assigned_display_id = ci_display i\<rparr>)"

definition first_claim :: "io_lib \<Rightarrow> claim_fresh \<Rightarrow> claim_input \<Rightarrow> claim_tenant \<Rightarrow> iobox_serial \<Rightarrow> pairing_claim option
  \<Rightarrow> iobox_db \<Rightarrow> (iobox_error, iobox_db \<times> envelope) result" where
  "first_claim lib fresh i tn reg claim db =
     (case getIoBoxModel db (ios_model_id reg) of
        None \<Rightarrow> Inl SerialModelMissing
      | Some model \<Rightarrow>
          if \<not> assertSchema (ct_schema tn) then Inl BadSchema
          else bind_result (createIoBox (ct_schema tn) (cf_id fresh) (cf_now fresh) (claimed_box lib fresh i model) db)
                 (\<lambda>(db1, box).
                  let e = \<lparr>en_tenant_slug = ct_slug tn, en_iobox_id = iob_id box, en_iobox_key = iobox_key (cf_key fresh)\<rparr>
                  in Inr (store_envelope lib fresh (ci_serial i) e claim
                            (markIoBoxSerialPaired (cf_now fresh) (ci_serial i) (ct_id tn) (iob_id box) db1), e)))"

definition claimIoBox :: "io_lib \<Rightarrow> claim_fresh \<Rightarrow> claim_input \<Rightarrow> claim_tenant \<Rightarrow> iobox_db
  \<Rightarrow> (iobox_error, iobox_db \<times> envelope) result" where
  "claimIoBox lib fresh i tn db =
     (case getIoBoxSerial db (ci_serial i) of
        None \<Rightarrow> Inl UnknownSerial
      | Some reg \<Rightarrow>
          bind_result (bindIoBoxProvisioning lib (ci_serial i) (ci_secret i) db) (\<lambda>db1.
            let claim = map_of (ib_claims db1) (ci_serial i)
            in if (case claim of None \<Rightarrow> False | Some c \<Rightarrow> \<not> secret_fits lib (ci_secret i) c)
               then Inl WrongProvisioningSecret
               else if truthy_str (ios_paired_iobox_id reg)
               then bind_result (reclaim lib reg claim db1) (\<lambda>e. Inr (db1, e))
               else first_claim lib fresh i tn reg claim db1))"

definition acknowledgeIoBox :: "io_lib \<Rightarrow> timestamp \<Rightarrow> string \<Rightarrow> string \<Rightarrow> string \<Rightarrow> string option \<Rightarrow> iobox_db
  \<Rightarrow> (iobox_error, iobox_db) result" where
  "acknowledgeIoBox lib now serial deviceId tenantId secret db =
     (case (getIoBoxSerial db serial, map_of (ib_claims db) serial) of
        (Some reg, Some c) \<Rightarrow>
          if ios_paired_iobox_id reg \<noteq> Some deviceId \<or> ios_paired_tenant_id reg \<noteq> Some tenantId
             \<or> \<not> secret_fits lib secret c then Inl InvalidAcknowledgement
          else Inr (put_claim serial (c\<lparr>cl_encrypted := None,
                      cl_acknowledged_at := set_when (cl_acknowledged_at c) (Some now)\<rparr>) db)
      | _ \<Rightarrow> Inl InvalidAcknowledgement)"

section \<open>The enrolment of a serial\<close>

text \<open>
  The abstract life of a serial: unknown, open, bound to a provisioning secret, paired with
  its sealed envelope still held, and done.  A box that claims without a secret is paired the
  legacy way, without an envelope.  \<open>h\<close> is the hash of the secret, \<open>b\<close> the box.
\<close>

datatype phase =
    NoSerial
  | Unbound
  | Legacy string
  | Bound string
  | Held string string
  | Done string string

inductive serial_step :: "phase \<Rightarrow> phase \<Rightarrow> bool" where
  registered: "serial_step NoSerial Unbound"
| bound: "serial_step Unbound (Bound h)"
| legacy: "serial_step Unbound (Legacy b)"
| enrolled: "serial_step Unbound (Held h b)"
| delivered: "serial_step (Bound h) (Held h b)"
| acknowledged: "serial_step (Held h b) (Done h b)"

inductive_simps serial_step_from [simp]:
  "serial_step NoSerial q" "serial_step Unbound q" "serial_step (Legacy b) q" "serial_step (Bound h) q"
  "serial_step (Held h b) q" "serial_step (Done h b) q"

definition paired_box :: "iobox_serial \<Rightarrow> string option" where
  "paired_box r = (if truthy_str (ios_paired_iobox_id r) then ios_paired_iobox_id r else None)"

definition slot :: "iobox_db \<Rightarrow> string \<Rightarrow> string option option \<times> pairing_claim option" where
  "slot db serial = (map_option paired_box (getIoBoxSerial db serial), map_of (ib_claims db) serial)"

fun slot_phase :: "string option option \<times> pairing_claim option \<Rightarrow> phase" where
  "slot_phase (None, _) = NoSerial"
| "slot_phase (Some None, None) = Unbound"
| "slot_phase (Some None, Some c) = Bound (cl_secret_hash c)"
| "slot_phase (Some (Some b), None) = Legacy b"
| "slot_phase (Some (Some b), Some c) =
     (if truthy_str (cl_encrypted c) then Held (cl_secret_hash c) b else Done (cl_secret_hash c) b)"

definition phase :: "iobox_db \<Rightarrow> string \<Rightarrow> phase" where
  "phase db serial = slot_phase (slot db serial)"

text \<open>
  What happens to the inventory: the calls above, the deletion of a tenant, which clears the
  reference to it, and any change of tenants, boxes, models and other tables by the rest of
  the system.
\<close>

datatype io_op =
    OpRegister timestamp string string "string option"
  | OpAnnounce timestamp string "string option"
  | OpClaim claim_fresh claim_input claim_tenant
  | OpAck timestamp string string string "string option"
  | OpForgetTenant string
  | OpElsewhere auth_db "iobox_model list" "(string, io_tables) jsmap"

definition announce :: "io_lib \<Rightarrow> timestamp \<Rightarrow> string \<Rightarrow> string option \<Rightarrow> iobox_db \<Rightarrow> (iobox_error, iobox_db) result" where
  "announce lib now serial secret db =
     bind_result (bindIoBoxProvisioning lib serial secret db) (\<lambda>db1. Inr (touchIoBoxSerial now serial db1))"

definition keep_on_error :: "iobox_db \<Rightarrow> (iobox_error, iobox_db) result \<Rightarrow> iobox_db" where
  "keep_on_error db r = (case r of Inl _ \<Rightarrow> db | Inr db1 \<Rightarrow> db1)"

fun io_step :: "io_lib \<Rightarrow> io_op \<Rightarrow> iobox_db \<Rightarrow> iobox_db \<times> (string \<times> envelope) option" where
  "io_step lib (OpRegister now serial mid notes) db = (keep_on_error db (registerIoBoxSerial now serial mid notes db), None)"
| "io_step lib (OpAnnounce now serial secret) db = (keep_on_error db (announce lib now serial secret db), None)"
| "io_step lib (OpClaim fresh i tn) db = (case claimIoBox lib fresh i tn db of
     Inl _ \<Rightarrow> (db, None) | Inr (db1, e) \<Rightarrow> (db1, Some (ci_serial i, e)))"
| "io_step lib (OpAck now serial did tid secret) db =
     (keep_on_error db (acknowledgeIoBox lib now serial did tid secret db), None)"
| "io_step lib (OpForgetTenant tid) db =
     (db\<lparr>ib_serials := map (\<lambda>s. if ios_paired_tenant_id s = Some tid then s\<lparr>ios_paired_tenant_id := None\<rparr> else s)
        (ib_serials db)\<rparr>, None)"
| "io_step lib (OpElsewhere a ms ts) db = (db\<lparr>ib_auth := a, ib_models := ms, ib_schemas := ts\<rparr>, None)"

text \<open>Identifiers of new boxes are not empty.\<close>

fun named_op :: "io_op \<Rightarrow> bool" where
  "named_op (OpClaim fresh _ _) = (cf_id fresh \<noteq> [])"
| "named_op _ = True"

definition good_lib :: "io_lib \<Rightarrow> bool" where
  "good_lib lib \<longleftrightarrow> (\<forall>iv e. io_unseal lib (io_seal lib iv e) = Some e \<and> io_seal lib iv e \<noteq> [])"

text \<open>What a held envelope says is what the inventory says.\<close>

definition vault_ok :: "io_lib \<Rightarrow> iobox_db \<Rightarrow> bool" where
  "vault_ok lib db \<longleftrightarrow> (\<forall>serial h b c. phase db serial = Held h b \<longrightarrow> map_of (ib_claims db) serial = Some c \<longrightarrow>
     (\<exists>e. io_unseal lib (the (cl_encrypted c)) = Some e \<and> en_iobox_id e = b))"

lemma find_map_serial:
  assumes "\<And>r. ios_serial (f r) = ios_serial r"
  shows "find (\<lambda>s. ios_serial s = t) (map (\<lambda>s. if ios_serial s = serial then f s else s) xs)
       = (if t = serial then map_option f (find (\<lambda>s. ios_serial s = t) xs) else find (\<lambda>s. ios_serial s = t) xs)"
  using assms by (induction xs) auto

lemma getIoBoxSerial_map:
  "(\<And>r. ios_serial (f r) = ios_serial r) \<Longrightarrow> getIoBoxSerial (map_serial serial f db) t
     = (if t = serial then map_option f (getIoBoxSerial db t) else getIoBoxSerial db t)"
  by (simp add: getIoBoxSerial_def map_serial_def find_map_serial)

lemma map_serial_claims [simp]: "ib_claims (map_serial serial f db) = ib_claims db"
  by (simp add: map_serial_def)

lemma put_claim_simps [simp]:
  "getIoBoxSerial (put_claim serial c db) t = getIoBoxSerial db t"
  "map_of (ib_claims (put_claim serial c db)) t = (if t = serial then Some c else map_of (ib_claims db) t)"
  by (simp_all add: put_claim_def getIoBoxSerial_def get_set)

lemma slot_put_claim: "slot (put_claim serial c db) t = (if t = serial then (fst (slot db t), Some c) else slot db t)"
  by (simp add: slot_def)

lemma slot_map_serial:
  assumes "\<And>r. ios_serial (f r) = ios_serial r" and "\<And>r. paired_box (f r) = paired_box r"
  shows "slot (map_serial serial f db) t = slot db t"
  using assms by (simp add: slot_def getIoBoxSerial_map option.map_comp comp_def)

lemma slot_touch [simp]: "slot (touchIoBoxSerial now serial db) t = slot db t"
  unfolding touchIoBoxSerial_def by (rule slot_map_serial) (simp_all add: paired_box_def)

lemma slot_mark:
  assumes "getIoBoxSerial db serial \<noteq> None" and "bid \<noteq> []"
  shows "slot (markIoBoxSerialPaired now serial tid bid db) t
       = (if t = serial then (Some (Some bid), snd (slot db t)) else slot db t)"
  using assms by (auto simp: slot_def markIoBoxSerialPaired_def getIoBoxSerial_map paired_box_def)

lemma slot_put_boxes [simp]: "slot (put_boxes schema bs db) t = slot db t"
  by (simp add: slot_def put_boxes_def getIoBoxSerial_def)

lemma bind_cases:
  assumes "bindIoBoxProvisioning lib serial secret db = Inr db1"
  obtains "db1 = db" and "truthy_str secret \<longrightarrow> (\<exists>c. map_of (ib_claims db) serial = Some c \<and> secret_fits lib secret c)"
  | "truthy_str secret" and "fst (slot db serial) = Some None" and "map_of (ib_claims db) serial = None"
    and "db1 = put_claim serial \<lparr>cl_secret_hash = secret_hash lib (the secret), cl_encrypted = None,
                                 cl_acknowledged_at = None\<rparr> db"
proof (cases "truthy_str secret")
  case False
  with assms that(1) show thesis by (simp add: bindIoBoxProvisioning_def)
next
  case True
  with assms obtain row where row: "getIoBoxSerial db serial = Some row"
    by (auto simp: bindIoBoxProvisioning_def split: option.splits)
  show thesis
  proof (cases "map_of (ib_claims db) serial")
    case None
    with assms True row that(2) show thesis
      by (auto simp: bindIoBoxProvisioning_def slot_def paired_box_def split: if_splits)
  next
    case (Some c)
    with assms True row that(1) show thesis
      by (auto simp: bindIoBoxProvisioning_def split: if_splits)
  qed
qed

lemma bind_slot:
  assumes "bindIoBoxProvisioning lib serial secret db = Inr db1"
  shows "slot db1 t = slot db t \<or>
     (t = serial \<and> truthy_str secret \<and> slot db t = (Some None, None)
      \<and> slot db1 t = (Some None, Some \<lparr>cl_secret_hash = secret_hash lib (the secret), cl_encrypted = None,
                                      cl_acknowledged_at = None\<rparr>))"
  using assms by (cases rule: bind_cases) (auto simp: slot_put_claim, auto simp: slot_def)

lemma bind_serial:
  "bindIoBoxProvisioning lib serial secret db = Inr db1 \<Longrightarrow> getIoBoxSerial db1 t = getIoBoxSerial db t"
  by (erule bind_cases) simp_all

lemma put_boxes_claims [simp]: "ib_claims (put_boxes schema bs db) = ib_claims db"
  by (simp add: put_boxes_def)

lemma createIoBox_result:
  "createIoBox schema bid now i db = Inr (db1, box) \<Longrightarrow>
     db1 = put_boxes schema (boxes db schema @ [new_box bid now i]) db \<and> box = new_box bid now i"
  by (auto simp: createIoBox_def split: if_splits)

lemma new_box_sel [simp]: "iob_id (new_box bid now i) = bid"
  by (simp add: new_box_def)

lemma first_claim_slot:
  assumes "first_claim lib fresh i tn reg claim db = Inr (db1, e)" and "cf_id fresh \<noteq> []"
    and "getIoBoxSerial db (ci_serial i) \<noteq> None" and "claim = map_of (ib_claims db) (ci_serial i)"
  shows "en_iobox_id e = cf_id fresh
    \<and> slot db1 t = (if t = ci_serial i
        then (Some (Some (cf_id fresh)), map_option (\<lambda>c. c\<lparr>cl_encrypted := Some (io_seal lib (cf_iv fresh) e)\<rparr>) claim)
        else slot db t)"
proof -
  obtain inp db2 box where box: "createIoBox (ct_schema tn) (cf_id fresh) (cf_now fresh) inp db = Inr (db2, box)"
    and e: "e = \<lparr>en_tenant_slug = ct_slug tn, en_iobox_id = iob_id box, en_iobox_key = iobox_key (cf_key fresh)\<rparr>"
    and db1: "db1 = store_envelope lib fresh (ci_serial i) e claim
                (markIoBoxSerialPaired (cf_now fresh) (ci_serial i) (ct_id tn) (iob_id box) db2)"
    using assms(1) by (auto simp: first_claim_def Let_def bind_result_eq_Inr split: option.splits if_split_asm)
  from createIoBox_result [OF box] have id: "iob_id box = cf_id fresh"
    and slot2: "slot db2 t = slot db t" for t by simp_all
  have "getIoBoxSerial db2 (ci_serial i) \<noteq> None"
    using slot2 [of "ci_serial i"] assms(3) by (auto simp: slot_def)
  from slot_mark [OF this, of "cf_id fresh"] assms(2)
  have mark: "slot (markIoBoxSerialPaired (cf_now fresh) (ci_serial i) (ct_id tn) (iob_id box) db2) t
      = (if t = ci_serial i then (Some (Some (cf_id fresh)), snd (slot db t)) else slot db t)" for t
    by (simp add: id slot2)
  have own: "snd (slot db (ci_serial i)) = claim" using assms(4) by (simp add: slot_def)
  have "slot db1 t = (if t = ci_serial i
        then (Some (Some (cf_id fresh)), map_option (\<lambda>c. c\<lparr>cl_encrypted := Some (io_seal lib (cf_iv fresh) e)\<rparr>) claim)
        else slot db t)"
  proof (cases claim)
    case None
    then show ?thesis using own by (simp add: db1 store_envelope_def mark)
  next
    case (Some c)
    then show ?thesis by (simp add: db1 store_envelope_def mark slot_put_claim)
  qed
  then show ?thesis by (simp add: e id)
qed

lemma reclaim_result:
  assumes "reclaim lib reg claim db = Inr e"
  shows "\<exists>c. claim = Some c \<and> truthy_str (cl_encrypted c) \<and> io_unseal lib (the (cl_encrypted c)) = Some e"
  using assms by (auto simp: reclaim_def Let_def split: option.splits if_splits) (auto simp: bind_eq_Some_conv)

lemma claim_cases:
  assumes "claimIoBox lib fresh i tn db = Inr (db1, e)" and "cf_id fresh \<noteq> []"
  obtains (again) b c where "slot db (ci_serial i) = (Some (Some b), Some c)" and "truthy_str (cl_encrypted c)"
      and "secret_fits lib (ci_secret i) c" and "io_unseal lib (the (cl_encrypted c)) = Some e"
      and "\<And>t. slot db1 t = slot db t"
  | (plain) "slot db (ci_serial i) = (Some None, None)" and "\<not> truthy_str (ci_secret i)"
      and "en_iobox_id e = cf_id fresh"
      and "\<And>t. slot db1 t = (if t = ci_serial i then (Some (Some (cf_id fresh)), None) else slot db t)"
  | (sealed) c where "slot db (ci_serial i) = (Some None, None) \<or> slot db (ci_serial i) = (Some None, Some c)"
      and "secret_fits lib (ci_secret i) c" and "en_iobox_id e = cf_id fresh"
      and "\<And>t. slot db1 t = (if t = ci_serial i
            then (Some (Some (cf_id fresh)), Some (c\<lparr>cl_encrypted := Some (io_seal lib (cf_iv fresh) e)\<rparr>)) else slot db t)"
proof -
  let ?s = "ci_serial i"
  obtain reg where reg: "getIoBoxSerial db ?s = Some reg"
    using assms(1) by (auto simp: claimIoBox_def split: option.splits)
  with assms(1) obtain db2 where bind: "bindIoBoxProvisioning lib ?s (ci_secret i) db = Inr db2"
    by (auto simp: claimIoBox_def bind_result_eq_Inr)
  let ?claim = "map_of (ib_claims db2) ?s"
  from assms(1) reg bind have fits: "\<And>c. ?claim = Some c \<Longrightarrow> secret_fits lib (ci_secret i) c"
    and rest: "if truthy_str (ios_paired_iobox_id reg) then reclaim lib reg ?claim db2 = Inr e \<and> db1 = db2
               else first_claim lib fresh i tn reg ?claim db2 = Inr (db1, e)"
    by (auto simp: claimIoBox_def Let_def bind_result_eq_Inr split: if_splits option.splits)
  have own: "fst (slot db ?s) = Some (paired_box reg)" by (simp add: slot_def reg)
  show thesis
  proof (cases "truthy_str (ios_paired_iobox_id reg)")
    case True
    then obtain b where b: "paired_box reg = Some b" by (auto simp: paired_box_def truthy_str_iff)
    with bind_slot [OF bind] own have same: "slot db2 t = slot db t" for t by fastforce
    from True rest reclaim_result obtain c where "?claim = Some c" "truthy_str (cl_encrypted c)"
      "io_unseal lib (the (cl_encrypted c)) = Some e" "db1 = db2" by fastforce
    then show thesis
      using again [of b c] fits same own b by (metis prod.collapse slot_def snd_conv)
  next
    case False
    then have none: "paired_box reg = None" by (simp add: paired_box_def)
    from False rest have first: "first_claim lib fresh i tn reg ?claim db2 = Inr (db1, e)" by simp
    have "getIoBoxSerial db2 ?s \<noteq> None" using reg by (simp add: bind_serial [OF bind])
    from first_claim_slot [OF first assms(2) this refl]
    have id: "en_iobox_id e = cf_id fresh" and slots: "\<And>t. slot db1 t = (if t = ?s
        then (Some (Some (cf_id fresh)), map_option (\<lambda>c. c\<lparr>cl_encrypted := Some (io_seal lib (cf_iv fresh) e)\<rparr>) ?claim)
        else slot db2 t)" by auto
    have others: "slot db2 t = slot db t" if "t \<noteq> ?s" for t using bind_slot [OF bind, of t] that by simp
    show thesis
    proof (cases ?claim)
      case None
      have "slot db ?s = (Some None, None)"
        using bind_slot [OF bind, of ?s] None own none by (auto simp: slot_def)
      moreover have "\<not> truthy_str (ci_secret i)"
        using bind None by (cases rule: bind_cases) auto
      ultimately show thesis
        using plain id slots others None by simp
    next
      case (Some c)
      have "slot db ?s = (Some None, None) \<or> slot db ?s = (Some None, Some c)"
        using bind_slot [OF bind, of ?s] Some own none by (auto simp: slot_def)
      then show thesis
        using sealed [of c] fits [OF Some] id slots others Some by simp
    qed
  qed
qed

lemma ack_slot:
  assumes "acknowledgeIoBox lib now serial did tid secret db = Inr db1"
  shows "\<exists>c. map_of (ib_claims db) serial = Some c \<and> secret_fits lib secret c
    \<and> (\<forall>t. slot db1 t = (if t = serial then (fst (slot db t), Some (c\<lparr>cl_encrypted := None,
         cl_acknowledged_at := set_when (cl_acknowledged_at c) (Some now)\<rparr>)) else slot db t))"
  using assms by (auto simp: acknowledgeIoBox_def slot_put_claim split: option.splits if_splits)

lemma find_snoc_none: "find P (xs @ [y]) = (case find P xs of None \<Rightarrow> if P y then Some y else None | Some z \<Rightarrow> Some z)"
  by (induction xs) auto

lemma register_slot:
  assumes "registerIoBoxSerial now serial mid notes db = Inr db1"
  shows "slot db1 t = slot db t \<or> fst (slot db t) = None \<and> slot db1 t = (Some None, snd (slot db t))"
proof (cases "getIoBoxSerial db serial")
  case None
  with assms show ?thesis
    by (auto simp: registerIoBoxSerial_def slot_def getIoBoxSerial_def find_snoc_none paired_box_def
        split: if_splits option.splits)
next
  case (Some r)
  with assms have "db1 = map_serial serial (\<lambda>s. s\<lparr>ios_model_id := mid, ios_notes := notes\<rparr>) db"
    by (auto simp: registerIoBoxSerial_def split: if_splits)
  then show ?thesis by (simp add: slot_map_serial paired_box_def)
qed

lemma forget_slot:
  "slot (db\<lparr>ib_serials := map (\<lambda>s. if ios_paired_tenant_id s = Some tid then s\<lparr>ios_paired_tenant_id := None\<rparr> else s)
     (ib_serials db)\<rparr>) t = slot db t"
proof -
  have "map_option paired_box (find (\<lambda>s. ios_serial s = t)
          (map (\<lambda>s. if ios_paired_tenant_id s = Some tid then s\<lparr>ios_paired_tenant_id := None\<rparr> else s) xs))
      = map_option paired_box (find (\<lambda>s. ios_serial s = t) xs)" for xs
    by (induction xs) (auto simp: paired_box_def)
  then show ?thesis by (simp add: slot_def getIoBoxSerial_def)
qed

text \<open>A claim row exists only for a registered serial.\<close>

definition claims_registered :: "iobox_db \<Rightarrow> bool" where
  "claims_registered db \<longleftrightarrow> (\<forall>t. map_of (ib_claims db) t \<noteq> None \<longrightarrow> getIoBoxSerial db t \<noteq> None)"

lemma claims_registered_slot: "claims_registered db \<longleftrightarrow> (\<forall>t. fst (slot db t) = None \<longrightarrow> snd (slot db t) = None)"
  by (auto simp: claims_registered_def slot_def)

text \<open>Everything a step can do to the slots, with what it may give out.\<close>

inductive slot_move :: "io_lib \<Rightarrow> string option \<Rightarrow> string option option \<times> pairing_claim option \<Rightarrow> envelope option
  \<Rightarrow> string option option \<times> pairing_claim option \<Rightarrow> bool" for lib secret where
  stay: "slot_move lib secret s None s"
| add: "slot_move lib secret (None, c) None (Some None, c)"
| bind: "cl_encrypted c = None \<Longrightarrow> cl_secret_hash c = secret_hash lib (the secret) \<Longrightarrow> slot_move lib secret (Some None, None) None (Some None, Some c)"
| plain: "b \<noteq> [] \<Longrightarrow> en_iobox_id e = b \<Longrightarrow> slot_move lib secret (Some None, None) (Some e) (Some (Some b), None)"
| enrol: "b \<noteq> [] \<Longrightarrow> en_iobox_id e = b \<Longrightarrow> o1 = None \<or> o1 = Some c \<Longrightarrow> secret_fits lib secret c
    \<Longrightarrow> slot_move lib secret (Some None, o1) (Some e) (Some (Some b), Some (c\<lparr>cl_encrypted := Some (io_seal lib iv e)\<rparr>))"
| again: "truthy_str (cl_encrypted c) \<Longrightarrow> io_unseal lib (the (cl_encrypted c)) = Some e \<Longrightarrow> secret_fits lib secret c
    \<Longrightarrow> slot_move lib secret (Some (Some b), Some c) (Some e) (Some (Some b), Some c)"
| ack: "secret_fits lib secret c \<Longrightarrow> slot_move lib secret (s, Some c) None (s, Some (c\<lparr>cl_encrypted := None, cl_acknowledged_at := a\<rparr>))"

definition given_to :: "string \<Rightarrow> (string \<times> envelope) option \<Rightarrow> envelope option" where
  "given_to t out = (case out of None \<Rightarrow> None | Some (s, e) \<Rightarrow> if s = t then Some e else None)"

lemma given_to_simps [simp]: "given_to t None = None" "given_to t (Some (s, e)) = (if s = t then Some e else None)"
  by (simp_all add: given_to_def)

lemma announce_slot:
  "announce lib now serial secret db = Inr db1 \<Longrightarrow> slot_move lib secret (slot db t) None (slot db1 t)"
  by (auto simp: announce_def bind_result_eq_Inr dest!: bind_slot [where t = t] intro: slot_move.stay intro!: slot_move.bind)

lemma claim_move:
  assumes "claimIoBox lib fresh i tn db = Inr (db1, e)" and "cf_id fresh \<noteq> []"
  shows "slot_move lib (ci_secret i) (slot db t) (given_to t (Some (ci_serial i, e))) (slot db1 t)"
  using assms
proof (cases rule: claim_cases)
  case (again b c)
  then show ?thesis by (cases "t = ci_serial i") (auto intro: slot_move.intros)
next
  case plain
  then show ?thesis using assms(2) by (cases "t = ci_serial i") (auto intro: slot_move.intros)
next
  case (sealed c)
  show ?thesis
  proof (cases "t = ci_serial i")
    case True
    from sealed(1) obtain o1 where "slot db (ci_serial i) = (Some None, o1)" "o1 = None \<or> o1 = Some c" by blast
    with True sealed assms(2) show ?thesis by (auto intro: slot_move.enrol)
  next
    case False
    with sealed(4) show ?thesis by (auto intro: slot_move.stay)
  qed
qed

lemma ack_move:
  assumes "acknowledgeIoBox lib now serial did tid secret db = Inr db1"
  shows "slot_move lib secret (slot db t) None (slot db1 t)"
proof -
  obtain c where c: "map_of (ib_claims db) serial = Some c" "secret_fits lib secret c"
    and s: "\<And>t. slot db1 t = (if t = serial then (fst (slot db t), Some (c\<lparr>cl_encrypted := None,
         cl_acknowledged_at := set_when (cl_acknowledged_at c) (Some now)\<rparr>)) else slot db t)"
    using ack_slot [OF assms] by blast
  show ?thesis
  proof (cases "t = serial")
    case True
    have "slot db serial = (fst (slot db serial), Some c)" using c(1) by (simp add: slot_def)
    with slot_move.ack [OF c(2)] show ?thesis unfolding s True by (metis (full_types))
  next
    case False
    then show ?thesis by (simp add: s slot_move.stay)
  qed
qed

lemma register_move:
  assumes "registerIoBoxSerial now serial mid notes db = Inr db1"
  shows "slot_move lib secret (slot db t) None (slot db1 t)"
  using register_slot [OF assms, of t] slot_move.add [of lib secret "snd (slot db t)"]
  by (metis prod.collapse slot_move.stay)

fun op_secret :: "io_op \<Rightarrow> string option" where
  "op_secret (OpAnnounce _ _ secret) = secret"
| "op_secret (OpClaim _ i _) = ci_secret i"
| "op_secret (OpAck _ _ _ _ secret) = secret"
| "op_secret _ = None"

lemma io_step_move:
  assumes "named_op opn"
  shows "slot_move lib (op_secret opn) (slot db t) (given_to t (snd (io_step lib opn db))) (slot (fst (io_step lib opn db)) t)"
proof (cases opn)
  case (OpRegister now serial mid remark)
  then show ?thesis
    using register_move by (auto simp: keep_on_error_def slot_move.stay split: sum.split)
next
  case (OpAnnounce now serial secret)
  then show ?thesis
    using announce_slot by (auto simp: keep_on_error_def slot_move.stay split: sum.split)
next
  case (OpClaim fresh i tn)
  then show ?thesis
    using claim_move [of lib fresh i tn db _ _ t] assms by (auto simp: slot_move.stay split: sum.split)
next
  case (OpAck now serial did tid secret)
  then show ?thesis
    using ack_move by (auto simp: keep_on_error_def slot_move.stay split: sum.split)
next
  case (OpForgetTenant tid)
  then show ?thesis by (simp add: forget_slot slot_move.stay)
next
  case (OpElsewhere a ms ts)
  then show ?thesis by (simp add: slot_def getIoBoxSerial_def slot_move.stay)
qed

lemma slot_move_registered:
  "slot_move lib secret s out s' \<Longrightarrow> (fst s = None \<longrightarrow> snd s = None) \<Longrightarrow> (fst s' = None \<longrightarrow> snd s' = None)"
  by (induction rule: slot_move.induct) auto

lemma io_step_registered:
  "claims_registered db \<Longrightarrow> named_op opn \<Longrightarrow> claims_registered (fst (io_step lib opn db))"
  unfolding claims_registered_slot using slot_move_registered [OF io_step_move] by blast

definition move_allowed :: "io_lib \<Rightarrow> string option \<Rightarrow> phase \<Rightarrow> envelope option \<Rightarrow> phase \<Rightarrow> bool" where
  "move_allowed lib secret p out q \<longleftrightarrow>
     (q = p \<or> serial_step p q)
     \<and> (case out of None \<Rightarrow> True | Some e \<Rightarrow> (q = Legacy (en_iobox_id e) \<and> p = Unbound)
          \<or> (\<exists>h. q = Held h (en_iobox_id e) \<and> matchesSecret (secret_hash lib) secret (JStr h) \<and> p \<in> {Unbound, Bound h})
          \<or> (\<exists>h b. q = Held h b \<and> p = q \<and> matchesSecret (secret_hash lib) secret (JStr h)))"

lemma slot_move_phase:
  assumes "good_lib lib" and "slot_move lib secret s out s'" and "fst s = None \<longrightarrow> snd s = None"
  shows "move_allowed lib secret (slot_phase s) out (slot_phase s')"
  using assms(2,3)
proof cases
  case stay
  then show ?thesis by (simp add: move_allowed_def)
next
  case (add c)
  then show ?thesis using assms(3) by (simp add: move_allowed_def)
next
  case (bind c)
  then show ?thesis by (simp add: move_allowed_def)
next
  case (plain b e)
  then show ?thesis by (simp add: move_allowed_def)
next
  case (enrol b e o1 c iv)
  then show ?thesis using assms(1)
    by (auto simp: move_allowed_def good_lib_def secret_fits_def)
next
  case (again c e b)
  then show ?thesis by (simp add: move_allowed_def secret_fits_def)
next
  case (ack c s a)
  then show ?thesis by (cases "(s, Some c)" rule: slot_phase.cases) (simp_all add: move_allowed_def)
qed

fun io_run :: "io_lib \<Rightarrow> io_op list \<Rightarrow> iobox_db \<Rightarrow> iobox_db \<times> (string \<times> envelope) list" where
  "io_run lib [] db = (db, [])"
| "io_run lib (x # xs) db =
     (let (db1, out) = io_step lib x db; (db2, outs) = io_run lib xs db1
      in (db2, (case out of None \<Rightarrow> outs | Some se \<Rightarrow> se # outs)))"

text \<open>Once a serial has given out an envelope, this one is all it can give out.\<close>

definition settled :: "io_lib \<Rightarrow> envelope \<Rightarrow> string option option \<times> pairing_claim option \<Rightarrow> bool" where
  "settled lib e s \<longleftrightarrow> (\<exists>b. fst s = Some (Some b)) \<and> (case snd s of None \<Rightarrow> True
     | Some c \<Rightarrow> truthy_str (cl_encrypted c) \<longrightarrow> io_unseal lib (the (cl_encrypted c)) = Some e)"

lemma slot_move_settled:
  "slot_move lib secret s out s' \<Longrightarrow> settled lib e s \<Longrightarrow> settled lib e s' \<and> (\<forall>e'. out = Some e' \<longrightarrow> e' = e)"
  by (induction rule: slot_move.induct) (auto simp: settled_def)

lemma slot_move_settles:
  "good_lib lib \<Longrightarrow> slot_move lib secret s (Some e) s' \<Longrightarrow> settled lib e s'"
  by (erule slot_move.cases) (auto simp: settled_def good_lib_def)

lemma given_to_iff: "given_to t out = Some e \<longleftrightarrow> out = Some (t, e)"
  by (auto simp: given_to_def split: option.splits)

lemma io_run_settled:
  "list_all named_op ops \<Longrightarrow> settled lib e (slot db t) \<Longrightarrow> (t, e') \<in> set (snd (io_run lib ops db)) \<Longrightarrow> e' = e"
proof (induction ops arbitrary: db)
  case (Cons x xs)
  obtain db1 out where step: "io_step lib x db = (db1, out)" by fastforce
  have "named_op x" using Cons.prems(1) by simp
  from slot_move_settled [OF io_step_move [OF this, of lib db t] Cons.prems(2)]
  have one: "settled lib e (slot db1 t)" "\<forall>e'. given_to t out = Some e' \<longrightarrow> e' = e" by (simp_all add: step)
  show ?case
  proof (cases "(t, e') \<in> set (snd (io_run lib xs db1))")
    case True
    then show ?thesis using Cons.IH Cons.prems(1) one(1) by simp
  next
    case False
    then have "out = Some (t, e')"
      using Cons.prems(3) by (auto simp: step Let_def split: prod.splits option.splits)
    then show ?thesis using one(2) by (simp add: given_to_iff)
  qed
qed simp

lemma io_run_single:
  "good_lib lib \<Longrightarrow> list_all named_op ops \<Longrightarrow> (t, e) \<in> set (snd (io_run lib ops db))
    \<Longrightarrow> (t, e') \<in> set (snd (io_run lib ops db)) \<Longrightarrow> e' = e"
proof (induction ops arbitrary: db e e')
  case (Cons x xs)
  obtain db1 out where step: "io_step lib x db = (db1, out)" by fastforce
  have named: "named_op x" "list_all named_op xs" using Cons.prems(2) by simp_all
  have split: "out = Some (t, a) \<or> (t, a) \<in> set (snd (io_run lib xs db1))"
    if "(t, a) \<in> set (snd (io_run lib (x # xs) db))" for a
    using that by (auto simp: step Let_def split: prod.splits option.splits)
  have all: "a = b" if "out = Some (t, b)" "(t, a) \<in> set (snd (io_run lib (x # xs) db))" for a b
  proof -
    have "slot_move lib (op_secret x) (slot db t) (Some b) (slot db1 t)"
      using io_step_move [OF named(1), of lib db t] that(1) by (simp add: step)
    then have "settled lib b (slot db1 t)" by (rule slot_move_settles [OF Cons.prems(1)])
    then show ?thesis using split [OF that(2)] that(1) io_run_settled [OF named(2)] by auto
  qed
  from split [OF Cons.prems(3)] split [OF Cons.prems(4)] all Cons.prems(3,4) Cons.IH [OF Cons.prems(1) named(2)]
  show ?case by blast
qed simp

lemma slot_move_done:
  assumes "slot_move lib secret s out s'" and "slot_phase s = Done h b"
  shows "slot_phase s' = Done h b \<and> out = None"
  using assms by (cases rule: slot_move.cases) (auto split: if_splits elim!: slot_phase.elims)

lemma io_run_done:
  "list_all named_op ops \<Longrightarrow> phase db t = Done h b
    \<Longrightarrow> phase (fst (io_run lib ops db)) t = Done h b \<and> t \<notin> fst ` set (snd (io_run lib ops db))"
proof (induction ops arbitrary: db)
  case (Cons x xs)
  obtain db1 out where step: "io_step lib x db = (db1, out)" by fastforce
  have "named_op x" using Cons.prems(1) by simp
  from slot_move_done [OF io_step_move [OF this, of lib db t]] Cons.prems(2)
  have "phase db1 t = Done h b" "given_to t out = None" by (simp_all add: phase_def step)
  then show ?case
    using Cons.IH [of db1] Cons.prems(1) by (auto simp: step Let_def given_to_def split: prod.splits option.splits if_splits)
qed simp


text \<open>
  (C4) A serial is enrolled once: all envelopes that it ever gives out, whatever else happens
  in the system, are the same envelope, and after the acknowledgement there are none.
\<close>

theorem iobox_enrolled_once:
  assumes "good_lib lib" and "list_all named_op ops"
  shows "(\<forall>e e'. (t, e) \<in> set (snd (io_run lib ops db)) \<longrightarrow> (t, e') \<in> set (snd (io_run lib ops db)) \<longrightarrow> e' = e)
    \<and> (\<forall>h b. phase db t = Done h b \<longrightarrow>
         phase (fst (io_run lib ops db)) t = Done h b \<and> t \<notin> fst ` set (snd (io_run lib ops db)))"
  using io_run_single [OF assms] io_run_done [OF assms(2)] by blast

section \<open>A provisioned box gets through\<close>

lemma bytes_sextets_length: "length bs \<le> length (bytes_sextets bs)"
  by (induction bs rule: bytes_sextets.induct) simp_all

lemma iobox_key_length: "byte_list random \<Longrightarrow> length random = 24 \<Longrightarrow> 8 \<le> length (iobox_key random)"
  using bytes_sextets_length [of random] by (simp add: iobox_key_def b64u_sextets)

lemma scan_tenants_find:
  assumes "\<And>u. u \<in> set us \<Longrightarrow> assertSchema (tn_schema_name u)" and "t \<in> set us" and "tn_is_active t"
    and "device (tn_schema_name t) = Some did" and "\<And>u. u \<in> set us \<Longrightarrow> u \<noteq> t \<Longrightarrow> device (tn_schema_name u) = None"
  shows "scan_tenants device us = Inr (Some (tenant_device t did))"
  using assms
proof (induction us)
  case (Cons u us)
  show ?case
  proof (cases "u = t")
    case True
    with Cons.prems show ?thesis by simp
  next
    case False
    then have "scan_tenants device us = Inr (Some (tenant_device t did))"
      using Cons by auto
    with False Cons.prems show ?thesis by auto
  qed
qed simp

lemma boxes_put_boxes:
  "boxes (put_boxes schema bs db) schema' =
     (if visible_schema (ib_auth db) schema = visible_schema (ib_auth db) schema' then bs else boxes db schema')"
  by (simp add: boxes_def put_boxes_def auth.get_put)

lemma matching_iobox_boxes:
  "matching_iobox lib (ib_auth db) key schema = map_option iob_id
     (find (\<lambda>b. truthy_str (iob_key_hash b) \<and> lib_verify lib key (the (iob_key_hash b)))
       (filter (\<lambda>b. iob_key_prefix b = Some (take 8 key) \<and> iob_enabled b) (boxes db schema)))"
  by (simp add: matching_iobox_def listIoBoxesByKeyPrefix_def boxes_def verifyPassword_def)

lemma find_append_none: "find P xs = None \<Longrightarrow> find P (xs @ ys) = find P ys"
  by (induction xs) (auto split: if_splits)

lemma put_claim_auth [simp]: "ib_auth (put_claim serial c db) = ib_auth db" "ib_models (put_claim serial c db) = ib_models db"
  "ib_schemas (put_claim serial c db) = ib_schemas db"
  by (simp_all add: put_claim_def)

lemma mark_auth [simp]: "ib_auth (markIoBoxSerialPaired now serial tid bid db) = ib_auth db"
  by (simp add: markIoBoxSerialPaired_def map_serial_def)

lemma store_auth [simp]: "ib_auth (store_envelope lib fresh serial e claim db) = ib_auth db"
  by (simp add: store_envelope_def split: option.split)

lemma bind_same_tables:
  "bindIoBoxProvisioning lib serial secret db = Inr db1 \<Longrightarrow>
     ib_auth db1 = ib_auth db \<and> ib_models db1 = ib_models db \<and> ib_schemas db1 = ib_schemas db"
  by (erule bind_cases) simp_all

text \<open>What the first claim of a box needs: the key library, a model, room in the tenant, an own key.\<close>

definition claim_ready :: "io_lib \<Rightarrow> claim_fresh \<Rightarrow> claim_input \<Rightarrow> tenant \<Rightarrow> iobox_db \<Rightarrow> bool" where
  "claim_ready lib fresh i tn db \<longleftrightarrow>
     (\<exists>reg c. getIoBoxSerial db (ci_serial i) = Some reg \<and> paired_box reg = None
        \<and> getIoBoxModel db (ios_model_id reg) \<noteq> None
        \<and> map_of (ib_claims db) (ci_serial i) = Some c \<and> secret_fits lib (ci_secret i) c)
     \<and> list_ex (\<lambda>u. u = tn) (tenants (ib_auth db)) \<and> tn_is_active tn
     \<and> list_all (\<lambda>u. assertSchema (tn_schema_name u)) (tenants (ib_auth db))
     \<and> list_all (\<lambda>u. u = tn \<or> visible_schema (ib_auth db) (tn_schema_name u) \<noteq> visible_schema (ib_auth db) (tn_schema_name tn))
          (tenants (ib_auth db))
     \<and> list_all (\<lambda>u. matching_iobox (io_auth lib) (ib_auth db) (iobox_key (cf_key fresh)) (tn_schema_name u) = None)
          (tenants (ib_auth db))
     \<and> \<not> list_ex (\<lambda>b. iob_id b = cf_id fresh \<or> iob_serial b = ci_serial i) (boxes db (tn_schema_name tn))
     \<and> ci_display i = None \<and> cf_id fresh \<noteq> []
     \<and> list_all (\<lambda>b. b < 256) (cf_key fresh) \<and> length (cf_key fresh) = 24"

definition key_lib_ok :: "io_lib \<Rightarrow> bool" where
  "key_lib_ok lib \<longleftrightarrow> (\<forall>salt key. lib_hash (io_auth lib) salt key \<noteq> []
     \<and> lib_verify (io_auth lib) key (lib_hash (io_auth lib) salt key))"

definition tenant_target :: "tenant \<Rightarrow> claim_tenant" where
  "tenant_target t = \<lparr>ct_id = Some (tn_id t), ct_slug = tn_slug t, ct_schema = tn_schema_name t\<rparr>"

lemma tenant_target_sel:
  "ct_id (tenant_target t) = Some (tn_id t)" "ct_slug (tenant_target t) = tn_slug t"
  "ct_schema (tenant_target t) = tn_schema_name t"
  by (simp_all add: tenant_target_def)

definition fresh_envelope :: "claim_fresh \<Rightarrow> tenant \<Rightarrow> envelope" where
  "fresh_envelope fresh tn =
     \<lparr>en_tenant_slug = tn_slug tn, en_iobox_id = cf_id fresh, en_iobox_key = iobox_key (cf_key fresh)\<rparr>"

lemma matchesSecret_truthy: "matchesSecret sha secret h \<Longrightarrow> truthy_str secret"
  by (auto simp: matchesSecret_def split: json.splits)

lemma claim_ready_tenant:
  assumes "claim_ready lib fresh i tn db"
  shows "tn \<in> set (tenants (ib_auth db))" "tn_is_active tn"
    and "u \<in> set (tenants (ib_auth db)) \<Longrightarrow> assertSchema (tn_schema_name u)"
    and "u \<in> set (tenants (ib_auth db)) \<Longrightarrow>
      matching_iobox (io_auth lib) (ib_auth db) (iobox_key (cf_key fresh)) (tn_schema_name u) = None"
    and "u \<in> set (tenants (ib_auth db)) \<Longrightarrow> u \<noteq> tn \<Longrightarrow>
      visible_schema (ib_auth db) (tn_schema_name tn) \<noteq> visible_schema (ib_auth db) (tn_schema_name u)"
proof -
  from assms have facts: "list_ex (\<lambda>u. u = tn) (tenants (ib_auth db))" "tn_is_active tn"
    "list_all (\<lambda>u. assertSchema (tn_schema_name u)) (tenants (ib_auth db))"
    "list_all (\<lambda>u. u = tn \<or> visible_schema (ib_auth db) (tn_schema_name u) \<noteq> visible_schema (ib_auth db) (tn_schema_name tn))
       (tenants (ib_auth db))"
    "list_all (\<lambda>u. matching_iobox (io_auth lib) (ib_auth db) (iobox_key (cf_key fresh)) (tn_schema_name u) = None)
       (tenants (ib_auth db))"
    unfolding claim_ready_def by blast+
  from facts(1,2) show "tn \<in> set (tenants (ib_auth db))" "tn_is_active tn" by (simp_all add: list_ex_iff)
  assume u: "u \<in> set (tenants (ib_auth db))"
  from u facts(3) show "assertSchema (tn_schema_name u)" by (simp add: list_all_iff)
  from u facts(5) show "matching_iobox (io_auth lib) (ib_auth db) (iobox_key (cf_key fresh)) (tn_schema_name u) = None"
    by (simp add: list_all_iff)
  assume "u \<noteq> tn"
  with u facts(4) show "visible_schema (ib_auth db) (tn_schema_name tn) \<noteq> visible_schema (ib_auth db) (tn_schema_name u)"
    by (simp add: list_all_iff eq_commute) metis
qed

lemmas tenant_schema_ok = claim_ready_tenant(3) [OF _ claim_ready_tenant(1)]

lemma claim_succeeds:
  assumes "claim_ready lib fresh i tn db"
  obtains box_in db1 box c where "box = new_box (cf_id fresh) (cf_now fresh) box_in"
    "claimIoBox lib fresh i (tenant_target tn) db = Inr (db1, fresh_envelope fresh tn)"
    "bi_key_hash box_in = lib_hash (io_auth lib) (cf_salt fresh) (iobox_key (cf_key fresh))"
    "bi_key_prefix box_in = take 8 (iobox_key (cf_key fresh))"
    "db1 = put_claim (ci_serial i) (c\<lparr>cl_encrypted := Some (io_seal lib (cf_iv fresh) (fresh_envelope fresh tn))\<rparr>)
        (markIoBoxSerialPaired (cf_now fresh) (ci_serial i) (Some (tn_id tn)) (cf_id fresh)
           (put_boxes (tn_schema_name tn) (boxes db (tn_schema_name tn) @ [box]) db))"
    "secret_fits lib (ci_secret i) c" "getIoBoxSerial db (ci_serial i) \<noteq> None"
proof -
  obtain reg c where reg: "getIoBoxSerial db (ci_serial i) = Some reg" "paired_box reg = None"
    and model: "getIoBoxModel db (ios_model_id reg) \<noteq> None"
    and c: "map_of (ib_claims db) (ci_serial i) = Some c" "secret_fits lib (ci_secret i) c"
    using assms by (auto simp: claim_ready_def)
  from model obtain m where m: "getIoBoxModel db (ios_model_id reg) = Some m" by blast
  have unpaired: "\<not> truthy_str (ios_paired_iobox_id reg)"
    using reg(2) by (auto simp: paired_box_def truthy_str_iff split: if_splits)
  have bind: "bindIoBoxProvisioning lib (ci_serial i) (ci_secret i) db = Inr db"
    using reg(1) c by (simp add: bindIoBoxProvisioning_def)
  define inp where "inp = claimed_box lib fresh i m"
  have inp: "bi_serial inp = ci_serial i" "bi_assigned_display_id inp = ci_display i"
    "bi_key_hash inp = lib_hash (io_auth lib) (cf_salt fresh) (iobox_key (cf_key fresh))"
    "bi_key_prefix inp = take 8 (iobox_key (cf_key fresh))"
    by (simp_all add: inp_def claimed_box_def Let_def)
  have "\<not> list_ex (\<lambda>b. iob_id b = cf_id fresh \<or> iob_serial b = ci_serial i) (boxes db (tn_schema_name tn))"
    "ci_display i = None"
    using assms by (simp_all add: claim_ready_def)
  then have made: "createIoBox (tn_schema_name tn) (cf_id fresh) (cf_now fresh) inp db
      = Inr (put_boxes (tn_schema_name tn) (boxes db (tn_schema_name tn) @ [new_box (cf_id fresh) (cf_now fresh) inp]) db,
             new_box (cf_id fresh) (cf_now fresh) inp)"
    by (simp add: createIoBox_def inp)
  have "first_claim lib fresh i (tenant_target tn) reg (Some c) db =
     Inr (put_claim (ci_serial i) (c\<lparr>cl_encrypted := Some (io_seal lib (cf_iv fresh) (fresh_envelope fresh tn))\<rparr>)
        (markIoBoxSerialPaired (cf_now fresh) (ci_serial i) (Some (tn_id tn)) (cf_id fresh)
           (put_boxes (tn_schema_name tn)
             (boxes db (tn_schema_name tn) @ [new_box (cf_id fresh) (cf_now fresh) inp]) db)), fresh_envelope fresh tn)"
    unfolding first_claim_def m option.case inp_def [symmetric] tenant_target_sel made
    using tenant_schema_ok [OF assms assms]
    by (simp only: if_False not_True_eq_False bind_result_Inr prod.case Let_def new_box_sel store_envelope_def
        option.case fresh_envelope_def)
  then have claim: "claimIoBox lib fresh i (tenant_target tn) db =
     Inr (put_claim (ci_serial i) (c\<lparr>cl_encrypted := Some (io_seal lib (cf_iv fresh) (fresh_envelope fresh tn))\<rparr>)
        (markIoBoxSerialPaired (cf_now fresh) (ci_serial i) (Some (tn_id tn)) (cf_id fresh)
           (put_boxes (tn_schema_name tn)
             (boxes db (tn_schema_name tn) @ [new_box (cf_id fresh) (cf_now fresh) inp]) db)), fresh_envelope fresh tn)"
    using reg(1) bind c unpaired by (simp add: claimIoBox_def Let_def)
  show thesis
    by (rule that [OF refl claim _ _ refl c(2)]) (simp_all add: inp reg)
qed

lemma new_box_keys [simp]:
  "iob_key_hash (new_box bid now x) = Some (bi_key_hash x)" "iob_key_prefix (new_box bid now x) = Some (bi_key_prefix x)"
  "iob_enabled (new_box bid now x)"
  by (simp_all add: new_box_def)

lemma new_key_verifies:
  assumes "claim_ready lib fresh i tn db" and "key_lib_ok lib"
    and "bi_key_hash x = lib_hash (io_auth lib) (cf_salt fresh) (iobox_key (cf_key fresh))"
    and "bi_key_prefix x = take 8 (iobox_key (cf_key fresh))"
  shows "verifyIoBoxKey (io_auth lib) (iobox_key (cf_key fresh))
     (ib_auth (put_boxes (tn_schema_name tn) (boxes db (tn_schema_name tn) @ [new_box (cf_id fresh) now x]) db))
     = Inr (Some (tenant_device tn (cf_id fresh)))"
proof -
  let ?key = "iobox_key (cf_key fresh)"
  let ?db = "put_boxes (tn_schema_name tn) (boxes db (tn_schema_name tn) @ [new_box (cf_id fresh) now x]) db"
  have tns: "tenants (ib_auth ?db) = tenants (ib_auth db)" by (simp add: put_boxes_def)
  have none: "matching_iobox (io_auth lib) (ib_auth db) ?key (tn_schema_name u) = None" if "u \<in> set (tenants (ib_auth db))" for u
    using claim_ready_tenant(4) [OF assms(1) that] .
  note tn = claim_ready_tenant(1,2) [OF assms(1)]
  have key: "lib_hash (io_auth lib) s k \<noteq> []" "lib_verify (io_auth lib) k (lib_hash (io_auth lib) s k)" for s k
    using assms(2) by (simp_all add: key_lib_ok_def)
  have own: "matching_iobox (io_auth lib) (ib_auth ?db) ?key (tn_schema_name tn) = Some (cf_id fresh)"
    using none [OF tn(1)] assms(3,4) key
    by (simp add: matching_iobox_boxes boxes_put_boxes find_append_none)
  have others: "matching_iobox (io_auth lib) (ib_auth ?db) ?key (tn_schema_name u) = None"
    if "u \<in> set (tenants (ib_auth db))" "u \<noteq> tn" for u
  proof -
    have "visible_schema (ib_auth db) (tn_schema_name tn) \<noteq> visible_schema (ib_auth db) (tn_schema_name u)"
      using claim_ready_tenant(5) [OF assms(1) that] .
    then show ?thesis using none [OF that(1)] by (simp add: matching_iobox_boxes boxes_put_boxes)
  qed
  have "8 \<le> length ?key"
    using assms(1) iobox_key_length by (auto simp: claim_ready_def list_all_iff)
  moreover have "listTenants (ib_auth ?db) \<noteq> []" using tn(1) tns
    by (metis empty_iff listTenants_def list.set(1) set_sort)
  moreover have "scan_tenants (matching_iobox (io_auth lib) (ib_auth ?db) ?key) (listTenants (ib_auth ?db))
      = Inr (Some (tenant_device tn (cf_id fresh)))"
  proof (rule scan_tenants_find)
    show "assertSchema (tn_schema_name u)" if "u \<in> set (listTenants (ib_auth ?db))" for u
      using that claim_ready_tenant(3) [OF assms(1)] by (simp add: listTenants_def tns)
    show "tn \<in> set (listTenants (ib_auth ?db))" using tn(1) by (simp add: listTenants_def tns)
    show "matching_iobox (io_auth lib) (ib_auth ?db) ?key (tn_schema_name u) = None"
      if "u \<in> set (listTenants (ib_auth ?db))" "u \<noteq> tn" for u
      using that others by (simp add: listTenants_def tns)
  qed (use tn own in simp_all)
  ultimately show ?thesis by (simp add: verifyIoBoxKey_def verify_device_key_def)
qed

lemma ack_succeeds:
  assumes "getIoBoxSerial db (ci_serial i) \<noteq> None" and "secret_fits lib secret c" and "bid \<noteq> []"
  shows "\<exists>db2. acknowledgeIoBox lib later (ci_serial i) bid tid secret
      (put_claim (ci_serial i) (c\<lparr>cl_encrypted := x\<rparr>) (markIoBoxSerialPaired now (ci_serial i) (Some tid) bid db)) = Inr db2
    \<and> phase db2 (ci_serial i) = Done (cl_secret_hash c) bid"
proof -
  obtain reg where "getIoBoxSerial db (ci_serial i) = Some reg" using assms(1) by blast
  then have "getIoBoxSerial (markIoBoxSerialPaired now (ci_serial i) (Some tid) bid db) (ci_serial i)
      = Some (reg\<lparr>ios_paired_tenant_id := Some tid, ios_paired_iobox_id := Some bid, ios_last_seen_at := Some now\<rparr>)"
    by (simp add: markIoBoxSerialPaired_def getIoBoxSerial_map)
  with assms(2,3) show ?thesis
    by (simp add: acknowledgeIoBox_def secret_fits_def phase_def slot_def paired_box_def)
qed

text \<open>
  (C12) A box whose serial is registered and bound to its secret gets through: its claim
  succeeds, the delivered key authenticates it as a device of the claiming tenant, and the
  acknowledgement with this identity succeeds and ends the enrolment.
\<close>

theorem iobox_pairing_completes:
  assumes "claim_ready lib fresh i tn db" and "key_lib_ok lib"
  shows "\<exists>db1 e db2 h. claimIoBox lib fresh i (tenant_target tn) db = Inr (db1, e)
    \<and> verifyIoBoxKey (io_auth lib) (en_iobox_key e) (ib_auth db1) = Inr (Some (tenant_device tn (en_iobox_id e)))
    \<and> acknowledgeIoBox lib later (ci_serial i) (en_iobox_id e) (tn_id tn) (ci_secret i) db1 = Inr db2
    \<and> phase db2 (ci_serial i) = Done h (en_iobox_id e)"
proof -
  have "cf_id fresh \<noteq> []" using assms(1) by (simp add: claim_ready_def)
  obtain box_in db1 box c where box: "box = new_box (cf_id fresh) (cf_now fresh) box_in"
    and claim: "claimIoBox lib fresh i (tenant_target tn) db = Inr (db1, fresh_envelope fresh tn)"
    and key: "bi_key_hash box_in = lib_hash (io_auth lib) (cf_salt fresh) (iobox_key (cf_key fresh))"
      "bi_key_prefix box_in = take 8 (iobox_key (cf_key fresh))"
    and db1: "db1 = put_claim (ci_serial i) (c\<lparr>cl_encrypted := Some (io_seal lib (cf_iv fresh) (fresh_envelope fresh tn))\<rparr>)
        (markIoBoxSerialPaired (cf_now fresh) (ci_serial i) (Some (tn_id tn)) (cf_id fresh)
           (put_boxes (tn_schema_name tn) (boxes db (tn_schema_name tn) @ [box]) db))"
    and fits: "secret_fits lib (ci_secret i) c" and reg: "getIoBoxSerial db (ci_serial i) \<noteq> None"
    by (rule claim_succeeds [OF assms(1)])
  have "verifyIoBoxKey (io_auth lib) (iobox_key (cf_key fresh)) (ib_auth db1) = Inr (Some (tenant_device tn (cf_id fresh)))"
    using new_key_verifies [OF assms key] by (simp add: db1 box)
  moreover have "getIoBoxSerial (put_boxes (tn_schema_name tn) (boxes db (tn_schema_name tn) @ [box]) db) (ci_serial i) \<noteq> None"
    using reg by (simp add: put_boxes_def getIoBoxSerial_def)
  from ack_succeeds [OF this fits \<open>cf_id fresh \<noteq> []\<close>] obtain db2 where
    "acknowledgeIoBox lib later (ci_serial i) (cf_id fresh) (tn_id tn) (ci_secret i) db1 = Inr db2"
    "phase db2 (ci_serial i) = Done (cl_secret_hash c) (cf_id fresh)"
    unfolding db1 by blast
  ultimately show ?thesis using claim by (auto simp: fresh_envelope_def)
qed

section \<open>Firmware of boxes\<close>

definition find_release :: "io_tables \<Rightarrow> string \<Rightarrow> string \<Rightarrow> string option \<Rightarrow> iobox_release option" where
  "find_release t version arch mid =
     find (\<lambda>r. ir_version r = version \<and> ir_arch r = arch \<and> ir_model_id r = mid) (io_releases t)"

definition getIoBoxFirmwareRelease :: "io_tables \<Rightarrow> string \<Rightarrow> iobox_release option" where
  "getIoBoxFirmwareRelease t rid = find (\<lambda>r. ir_id r = rid) (io_releases t)"

text \<open>A release for the model of the box comes before a release for every model, then the newest.\<close>

definition getLatestIoBoxFirmwareRelease :: "io_tables \<Rightarrow> firmware_channel \<Rightarrow> string \<Rightarrow> string \<Rightarrow> iobox_release option" where
  "getLatestIoBoxFirmwareRelease t ch arch mid =
     (case sort_key (\<lambda>r. if ir_model_id r = Some mid then 0 else 1 :: nat)
             (sort_key (\<lambda>r. - ir_uploaded_at r)
               (filter (\<lambda>r. ir_channel r = ch \<and> ir_arch r = arch \<and> ir_yanked_at r = None
                            \<and> (ir_model_id r = None \<or> ir_model_id r = Some mid)) (io_releases t))) of
        [] \<Rightarrow> None | r # _ \<Rightarrow> Some r)"

text \<open>
  The unique key of the table treats an absent model as different from every other absent
  model, so only a release with a model replaces the row of an earlier upload.
\<close>

definition republish :: "timestamp \<Rightarrow> iobox_release \<Rightarrow> iobox_release \<Rightarrow> iobox_release" where
  "republish now n r = r\<lparr>ir_channel := ir_channel n, ir_artifact_path := ir_artifact_path n,
     ir_size_bytes := ir_size_bytes n, ir_sha256 := ir_sha256 n, ir_signature := ir_signature n,
     ir_release_notes := ir_release_notes n, ir_uploaded_by := ir_uploaded_by n, ir_uploaded_at := now,
     ir_yanked_at := None\<rparr>"

definition same_release_key :: "iobox_release \<Rightarrow> iobox_release \<Rightarrow> bool" where
  "same_release_key n r \<longleftrightarrow> ir_version r = ir_version n \<and> ir_arch r = ir_arch n
                          \<and> ir_model_id r = ir_model_id n \<and> ir_model_id n \<noteq> None"

definition createIoBoxFirmwareRelease :: "timestamp \<Rightarrow> iobox_release \<Rightarrow> io_tables \<Rightarrow> (iobox_error, io_tables) result" where
  "createIoBoxFirmwareRelease now n t =
     (if list_ex (same_release_key n) (io_releases t)
      then Inr (t\<lparr>io_releases := map (\<lambda>r. if same_release_key n r then republish now n r else r) (io_releases t)\<rparr>)
      else if list_ex (\<lambda>r. ir_id r = ir_id n) (io_releases t) then Inl ConstraintViolation
      else Inr (t\<lparr>io_releases := io_releases t @ [n\<lparr>ir_uploaded_at := now, ir_yanked_at := None\<rparr>]\<rparr>))"

datatype io_reply =
    HttpError nat
  | UnknownSerialReply
  | Announced bool iobox_serial "iobox_model option"
  | Envelope envelope
  | PairingAcknowledged
  | HeartbeatOk timestamp
  | UpToDate
  | Offer iobox_release
  | Download iobox_release
  | AppliedOk

definition or_option :: "'a option \<Rightarrow> 'a option \<Rightarrow> 'a option" where
  "or_option a b = (case a of None \<Rightarrow> b | Some x \<Rightarrow> Some x)"

definition pinned_release :: "io_tables \<Rightarrow> string \<Rightarrow> iobox \<Rightarrow> iobox_release option" where
  "pinned_release t arch box =
     (if truthy_str (iob_firmware_target_version box)
      then (case or_option (find_release t (the (iob_firmware_target_version box)) arch (Some (iob_model_id box)))
                   (find_release t (the (iob_firmware_target_version box)) arch None) of
              None \<Rightarrow> None | Some r \<Rightarrow> if ir_yanked_at r = None then Some r else None)
      else None)"

definition io_firmware_check :: "(string \<Rightarrow> string \<Rightarrow> int) \<Rightarrow> string option \<Rightarrow> string option \<Rightarrow> string \<Rightarrow> string
  \<Rightarrow> iobox_db \<Rightarrow> io_reply" where
  "io_firmware_check lc current arch schema bid db =
     (case getIoBoxById db schema bid of
        None \<Rightarrow> HttpError 404
      | Some box \<Rightarrow>
          let cur = nullish current (nullish (iob_firmware_version box) []);
              ar = nullish arch ''esp32s3'';
              t = io_table db schema
          in (case or_option (pinned_release t ar box)
                     (getLatestIoBoxFirmwareRelease t (iob_firmware_channel box) ar (iob_model_id box)) of
                None \<Rightarrow> UpToDate
              | Some r \<Rightarrow> if isVersionUpgrade lc (ir_version r) cur then Offer r else UpToDate))"

definition io_firmware_download :: "string \<Rightarrow> string \<Rightarrow> iobox_db \<Rightarrow> io_reply" where
  "io_firmware_download rid schema db =
     (if rid = [] then HttpError 400
      else case getIoBoxFirmwareRelease (io_table db schema) rid of
          None \<Rightarrow> HttpError 404
        | Some r \<Rightarrow> if ir_yanked_at r = None then Download r else HttpError 404)"

definition applied_box :: "timestamp \<Rightarrow> string \<Rightarrow> string option \<Rightarrow> iobox \<Rightarrow> iobox" where
  "applied_box now version err b = b\<lparr>
     iob_firmware_version := (if truthy_str err then iob_firmware_version b else Some version),
     iob_firmware_last_attempt_at := Some now, iob_firmware_last_attempt_version := Some version,
     iob_firmware_last_error := err\<rparr>"

definition io_firmware_applied :: "timestamp \<Rightarrow> string \<Rightarrow> string option \<Rightarrow> string \<Rightarrow> string \<Rightarrow> iobox_db \<Rightarrow> io_reply \<times> iobox_db" where
  "io_firmware_applied now version err schema bid db = (AppliedOk, map_box schema bid (applied_box now version err) db)"

section \<open>Routes\<close>

text \<open>The bearer token of the header, or the kiosk cookie.\<close>

definition authorizationBearerToken :: "string option \<Rightarrow> string option" where
  "authorizationBearerToken header = (case header of None \<Rightarrow> None
     | Some h \<Rightarrow> if prefix ''Bearer '' h then Some (drop 7 h) else None)"

definition cookie_token :: "string \<Rightarrow> string option" where
  "cookie_token part =
     (let ps = split_on CHR ''='' (js_trim part); v = js_trim (join_with ''='' (tl ps))
      in if js_trim (hd ps) = ''betterframe_kiosk_key'' \<and> v \<noteq> [] then Some v else None)"

fun first_token :: "string list \<Rightarrow> string option" where
  "first_token [] = None"
| "first_token (p # ps) = or_option (cookie_token p) (first_token ps)"

definition extractBearerToken :: "string option \<Rightarrow> string option \<Rightarrow> string option" where
  "extractBearerToken header cookie =
     (let b = authorizationBearerToken header
      in if truthy_str b then b else first_token (split_on CHR '';'' (nullish cookie [])))"

text \<open>The guard of the routes that need a box key: its identity or 401.\<close>

definition verified_iobox :: "io_lib \<Rightarrow> string option \<Rightarrow> string option \<Rightarrow> iobox_db \<Rightarrow> (nat, device_identity) result" where
  "verified_iobox lib header cookie db =
     (let token = extractBearerToken header cookie
      in if \<not> truthy_str token then Inl 401
         else case verifyIoBoxKey (io_auth lib) (the token) (ib_auth db) of
             Inl _ \<Rightarrow> Inl 500
           | Inr None \<Rightarrow> Inl 401
           | Inr (Some d) \<Rightarrow> if assertSchema (di_schema_name d) then Inr d else Inl 500)"

record iobox_api =
  ia_db :: iobox_db
  ia_guard :: limiter

definition announce_route :: "io_lib \<Rightarrow> timestamp \<Rightarrow> string \<Rightarrow> string option \<Rightarrow> iobox_api \<Rightarrow> io_reply \<times> iobox_api" where
  "announce_route lib now raw_serial secret s =
     (let serial = js_trim raw_serial in
      case getIoBoxSerial (ia_db s) serial of
        None \<Rightarrow> (UnknownSerialReply, s)
      | Some reg \<Rightarrow>
          let (ok, g) = rl_take (''announce:'' @ serial) now (ia_guard s); s1 = s\<lparr>ia_guard := g\<rparr>
          in if \<not> ok then (HttpError 429, s1)
             else (case announce lib now serial secret (ia_db s1) of
                     Inl _ \<Rightarrow> (HttpError 409, s1)
                   | Inr db1 \<Rightarrow> (Announced (truthy_str (ios_paired_iobox_id reg)) reg (getIoBoxModel db1 (ios_model_id reg)),
                                 s1\<lparr>ia_db := db1\<rparr>)))"

definition resolveTenantForIoBoxClaim :: "string option \<Rightarrow> iobox_db \<Rightarrow> claim_tenant option" where
  "resolveTenantForIoBoxClaim header db =
     (let wanted = (case header of None \<Rightarrow> ''default'' | Some h \<Rightarrow> if js_trim h = [] then ''default'' else js_trim h);
          ts = listTenants (ib_auth db)
      in if ts = [] then Some \<lparr>ct_id = None, ct_slug = ''default'', ct_schema = ''public''\<rparr>
         else map_option tenant_target
           (or_option (find (\<lambda>t. tn_slug t = wanted \<and> tn_is_active t) ts)
             (or_option (find (\<lambda>t. tn_slug t = ''default'' \<and> tn_is_active t) ts) (find tn_is_active ts))))"

definition claim_route :: "io_lib \<Rightarrow> claim_fresh \<Rightarrow> string option \<Rightarrow> claim_input \<Rightarrow> iobox_api \<Rightarrow> io_reply \<times> iobox_api" where
  "claim_route lib fresh header body s =
     (let i = body\<lparr>ci_serial := js_trim (ci_serial body)\<rparr>;
          (ok, g) = rl_take (''claim:'' @ ci_serial i) (cf_now fresh) (ia_guard s); s1 = s\<lparr>ia_guard := g\<rparr>
      in if \<not> ok then (HttpError 429, s1)
         else case resolveTenantForIoBoxClaim header (ia_db s1) of
             None \<Rightarrow> (HttpError 400, s1)
           | Some tn \<Rightarrow> (case claimIoBox lib fresh i tn (ia_db s1) of
                 Inl _ \<Rightarrow> (HttpError 409, s1)
               | Inr (db1, e) \<Rightarrow> (Envelope e, s1\<lparr>ia_db := db1\<rparr>)))"

definition ack_route :: "io_lib \<Rightarrow> timestamp \<Rightarrow> string option \<Rightarrow> string option \<Rightarrow> string \<Rightarrow> string option
  \<Rightarrow> iobox_api \<Rightarrow> io_reply \<times> iobox_api" where
  "ack_route lib now header cookie raw_serial secret s =
     (case verified_iobox lib header cookie (ia_db s) of
        Inl code \<Rightarrow> (HttpError code, s)
      | Inr d \<Rightarrow> (case acknowledgeIoBox lib now (js_trim raw_serial) (di_id d) (di_tenant_id d) secret (ia_db s) of
            Inl _ \<Rightarrow> (HttpError 409, s)
          | Inr db1 \<Rightarrow> (PairingAcknowledged, s\<lparr>ia_db := db1\<rparr>)))"

definition safeRouteMode :: "string \<Rightarrow> iobox_route_mode" where
  "safeRouteMode raw = (if raw = ''direct'' then RouteDirect else if raw = ''proxy'' then RouteProxy
     else if raw = ''server'' then RouteServer else if raw = ''offline'' then RouteOffline else RouteUnknown)"

record heartbeat_body =
  hb_firmware_version :: string
  hb_config_applied_version :: "number option"
  hb_config_error :: "string option"
  hb_route_mode :: string
  hb_network :: json

definition heartbeat_network :: "json \<Rightarrow> json" where
  "heartbeat_network v = (case v of JObj fs \<Rightarrow> v | JArr xs \<Rightarrow> v | _ \<Rightarrow> JObj [])"

definition io_heartbeat :: "io_lib \<Rightarrow> timestamp \<Rightarrow> string option \<Rightarrow> string option \<Rightarrow> string option \<Rightarrow> heartbeat_body
  \<Rightarrow> iobox_api \<Rightarrow> io_reply \<times> iobox_api" where
  "io_heartbeat lib now header cookie ip body s =
     (case verified_iobox lib header cookie (ia_db s) of
        Inl code \<Rightarrow> (HttpError code, s)
      | Inr d \<Rightarrow> (HeartbeatOk now, s\<lparr>ia_db := touchIoBox now (di_schema_name d) (di_id d)
          \<lparr>tp_firmware_version = (if hb_firmware_version body = [] then None else Some (hb_firmware_version body)),
           tp_config_applied_version = hb_config_applied_version body, tp_config_error = hb_config_error body,
           tp_route_mode = Some (safeRouteMode (hb_route_mode body)), tp_local_last_ip = ip,
           tp_network_json = Some (heartbeat_network (hb_network body))\<rparr> (ia_db s)\<rparr>))"

lemma find_release_SomeD:
  "find_release t v arch mid = Some r \<Longrightarrow> r \<in> set (io_releases t) \<and> ir_version r = v \<and> ir_arch r = arch \<and> ir_model_id r = mid"
  by (auto simp: find_release_def find_Some_iff)

lemma latest_release_SomeD:
  assumes "getLatestIoBoxFirmwareRelease t ch arch mid = Some r"
  shows "r \<in> set (io_releases t) \<and> ir_yanked_at r = None \<and> ir_arch r = arch \<and> ir_channel r = ch
    \<and> (ir_model_id r = None \<or> ir_model_id r = Some mid)"
proof -
  let ?f = "filter (\<lambda>r. ir_channel r = ch \<and> ir_arch r = arch \<and> ir_yanked_at r = None
                            \<and> (ir_model_id r = None \<or> ir_model_id r = Some mid)) (io_releases t)"
  let ?s = "sort_key (\<lambda>r. if ir_model_id r = Some mid then 0 else 1 :: nat) (sort_key (\<lambda>r. - ir_uploaded_at r) ?f)"
  obtain rs where "?s = r # rs" using assms by (auto simp: getLatestIoBoxFirmwareRelease_def split: list.splits)
  then have "r \<in> set ?s" by (simp only: list.set_intros)
  then show ?thesis by simp
qed

lemma pinned_release_SomeD:
  assumes "pinned_release t arch box = Some r"
  shows "r \<in> set (io_releases t) \<and> ir_yanked_at r = None \<and> ir_arch r = arch
    \<and> (ir_model_id r = None \<or> ir_model_id r = Some (iob_model_id box))"
  using assms
  by (auto simp: pinned_release_def or_option_def dest!: find_release_SomeD split: option.splits if_splits)

text \<open>
  A release that the firmware check offers to a box is in the tables of its tenant, not
  withdrawn, built for the requested architecture and for the model of the box or for every
  model, and strictly newer than the version the box runs.
\<close>

theorem iobox_firmware_check_sound:
  assumes "io_firmware_check lc current arch schema bid db = Offer r"
  shows "\<exists>box. getIoBoxById db schema bid = Some box
    \<and> r \<in> set (io_releases (io_table db schema)) \<and> ir_yanked_at r = None \<and> ir_arch r = nullish arch ''esp32s3''
    \<and> (ir_model_id r = None \<or> ir_model_id r = Some (iob_model_id box))
    \<and> isVersionUpgrade lc (ir_version r) (nullish current (nullish (iob_firmware_version box) []))"
proof -
  let ?t = "io_table db schema" and ?ar = "nullish arch ''esp32s3''"
  obtain box where box: "getIoBoxById db schema bid = Some box"
    using assms by (auto simp: io_firmware_check_def split: option.splits)
  with assms have up: "isVersionUpgrade lc (ir_version r) (nullish current (nullish (iob_firmware_version box) []))"
    and src: "or_option (pinned_release ?t ?ar box)
       (getLatestIoBoxFirmwareRelease ?t (iob_firmware_channel box) ?ar (iob_model_id box)) = Some r"
    by (simp_all add: io_firmware_check_def Let_def split: option.splits if_splits)
  from src have "pinned_release ?t ?ar box = Some r
      \<or> getLatestIoBoxFirmwareRelease ?t (iob_firmware_channel box) ?ar (iob_model_id box) = Some r"
    by (auto simp: or_option_def split: option.splits)
  then have "r \<in> set (io_releases ?t) \<and> ir_yanked_at r = None \<and> ir_arch r = ?ar
      \<and> (ir_model_id r = None \<or> ir_model_id r = Some (iob_model_id box))"
    using pinned_release_SomeD latest_release_SomeD by blast
  with box up show ?thesis by blast
qed

section \<open>Limits of the code\<close>

text \<open>
  Without tenants a claim records no tenant, and the identity of the box names the tenant
  \<^verbatim>\<open>default\<close>, so no acknowledgement of such a box succeeds.
\<close>

lemma ack_refused_without_tenants:
  assumes "resolveTenantForIoBoxClaim header db = Some tn" and "listTenants (ib_auth db) = []"
    and "claimIoBox lib fresh i tn db = Inr (db1, e)" and "\<not> truthy_str (ios_paired_iobox_id (the (getIoBoxSerial db (ci_serial i))))"
  shows "acknowledgeIoBox lib now (ci_serial i) did tid secret db1 = Inl InvalidAcknowledgement"
proof -
  from assms(1,2) have tn: "ct_id tn = None" by (auto simp: resolveTenantForIoBoxClaim_def)
  obtain reg db2 where reg: "getIoBoxSerial db (ci_serial i) = Some reg"
    and bind: "bindIoBoxProvisioning lib (ci_serial i) (ci_secret i) db = Inr db2"
    and first: "first_claim lib fresh i tn reg (map_of (ib_claims db2) (ci_serial i)) db2 = Inr (db1, e)"
    using assms(3,4) by (auto simp: claimIoBox_def bind_result_eq_Inr Let_def split: option.splits if_splits)
  obtain inp db3 box where box: "createIoBox (ct_schema tn) (cf_id fresh) (cf_now fresh) inp db2 = Inr (db3, box)"
    and db1: "db1 = store_envelope lib fresh (ci_serial i) e (map_of (ib_claims db2) (ci_serial i))
                (markIoBoxSerialPaired (cf_now fresh) (ci_serial i) (ct_id tn) (iob_id box) db3)"
    using first by (auto simp: first_claim_def Let_def bind_result_eq_Inr split: option.splits if_split_asm)
  have same: "getIoBoxSerial (store_envelope lib fresh s e c d) = getIoBoxSerial d" for s c d
    by (simp add: store_envelope_def fun_eq_iff split: option.split)
  have "getIoBoxSerial db3 (ci_serial i) = Some reg"
    using createIoBox_result [OF box] reg bind_serial [OF bind] by (simp add: put_boxes_def getIoBoxSerial_def)
  then have "map_option ios_paired_tenant_id (getIoBoxSerial db1 (ci_serial i)) = Some None"
    by (simp add: db1 same markIoBoxSerialPaired_def getIoBoxSerial_map tn)
  then show ?thesis by (auto simp: acknowledgeIoBox_def split: option.splits)
qed

text \<open>Uploading a release for every model again adds a row instead of replacing the first.\<close>

lemma generic_republish_duplicates:
  assumes "ir_model_id n = None" and "ir_id n \<notin> ir_id ` set (io_releases t)"
  shows "createIoBoxFirmwareRelease now n t = Inr (t\<lparr>io_releases := io_releases t @ [n\<lparr>ir_uploaded_at := now, ir_yanked_at := None\<rparr>]\<rparr>)"
  using assms by (auto simp: createIoBoxFirmwareRelease_def same_release_key_def list_ex_iff image_iff)

section \<open>Witnesses\<close>

text \<open>The toy seal writes each string with a dot before every character.\<close>

definition dotted :: "string \<Rightarrow> string" where
  "dotted s = concat (map (\<lambda>c. [CHR ''.'', c]) s)"

fun undot :: "string \<Rightarrow> string \<times> string" where
  "undot (x # c # r) = (if x = CHR ''.'' then (case undot r of (a, b) \<Rightarrow> (c # a, b)) else ([], c # r))"
| "undot _ = ([], [])"

lemma undot_dotted: "undot (dotted a @ CHR '';'' # r) = (a, r)"
proof (induction a)
  case Nil
  show ?case by (cases r) (simp_all add: dotted_def)
next
  case (Cons c a)
  then show ?case by (simp add: dotted_def)
qed

definition toy_io_lib :: io_lib where
  "toy_io_lib = \<lparr>io_auth = demo_lib,
     io_seal = (\<lambda>iv e. dotted (en_tenant_slug e) @ CHR '';'' # dotted (en_iobox_id e) @ CHR '';''
                       # dotted (en_iobox_key e) @ [CHR '';'']),
     io_unseal = (\<lambda>s. let (a, r) = undot s; (b, q) = undot r; (c, _) = undot q
                      in Some \<lparr>en_tenant_slug = a, en_iobox_id = b, en_iobox_key = c\<rparr>)\<rparr>"

lemma toy_io_good: "good_lib toy_io_lib"
  by (simp add: good_lib_def toy_io_lib_def undot_dotted)

lemma toy_io_keys: "key_lib_ok toy_io_lib"
  by (simp add: key_lib_ok_def toy_io_lib_def demo_lib_def)

definition toy_serial :: string where
  "toy_serial = ''S-1''"

definition toy_iobox_db :: iobox_db where
  "toy_iobox_db = \<lparr>ib_auth = demo_auth_db,
     ib_models = [sample_iobox_model\<lparr>iom_id := ''ioBOX-WIFI'', iom_name := ''ioBOX''\<rparr>],
     ib_serials = [sample_iobox_serial\<lparr>ios_serial := toy_serial, ios_model_id := ''ioBOX-WIFI''\<rparr>],
     ib_claims = [], ib_schemas = []\<rparr>"

definition toy_fresh :: claim_fresh where
  "toy_fresh = \<lparr>cf_id = ''b1'', cf_now = 5, cf_key = replicate 24 9, cf_salt = [], cf_iv = []\<rparr>"

definition toy_claim :: claim_input where
  "toy_claim = \<lparr>ci_serial = toy_serial, ci_secret = Some ''hush'', ci_name = [], ci_display = None\<rparr>"

definition toy_bound_db :: iobox_db where
  "toy_bound_db = fst (io_step toy_io_lib (OpAnnounce 1 toy_serial (Some ''hush'')) toy_iobox_db)"

definition toy_envelope :: envelope where
  "toy_envelope = fresh_envelope toy_fresh default_tenant_row"

definition toy_ops :: "io_op list" where
  "toy_ops = [OpAnnounce 1 toy_serial (Some ''hush''), OpClaim toy_fresh toy_claim (tenant_target default_tenant_row),
     OpClaim toy_fresh (toy_claim\<lparr>ci_secret := Some ''wrong''\<rparr>) (tenant_target default_tenant_row),
     OpClaim toy_fresh toy_claim (tenant_target default_tenant_row)]"


theorem iobox_enrolled_once_witness:
  "snd (io_run toy_io_lib toy_ops toy_iobox_db) = [(toy_serial, toy_envelope), (toy_serial, toy_envelope)]
   \<and> {e. (toy_serial, e) \<in> set (snd (io_run toy_io_lib toy_ops toy_iobox_db))} = {toy_envelope}"
proof -
  have outs: "snd (io_run toy_io_lib toy_ops toy_iobox_db) = [(toy_serial, toy_envelope), (toy_serial, toy_envelope)]"
    by code_simp
  have "(toy_serial, toy_envelope) \<in> set (snd (io_run toy_io_lib toy_ops toy_iobox_db))" unfolding outs by simp
  moreover have "list_all named_op toy_ops" by code_simp
  note conjunct1 [OF iobox_enrolled_once [OF toy_io_good this, of toy_serial toy_iobox_db], rule_format]
  ultimately show ?thesis using outs by blast
qed

theorem iobox_pairing_completes_witness:
  "\<exists>db1 e db2 h. claimIoBox toy_io_lib toy_fresh toy_claim (tenant_target default_tenant_row) toy_bound_db = Inr (db1, e)
    \<and> verifyIoBoxKey (io_auth toy_io_lib) (en_iobox_key e) (ib_auth db1)
        = Inr (Some (tenant_device default_tenant_row (en_iobox_id e)))
    \<and> acknowledgeIoBox toy_io_lib 9 (ci_serial toy_claim) (en_iobox_id e) (tn_id default_tenant_row) (ci_secret toy_claim) db1 = Inr db2
    \<and> phase db2 (ci_serial toy_claim) = Done h (en_iobox_id e)"
proof -
  have reg: "map_option (\<lambda>r. (paired_box r, getIoBoxModel toy_bound_db (ios_model_id r) \<noteq> None))
      (getIoBoxSerial toy_bound_db (ci_serial toy_claim)) = Some (None, True)"
    "map_option (secret_fits toy_io_lib (ci_secret toy_claim)) (map_of (ib_claims toy_bound_db) (ci_serial toy_claim)) = Some True"
    by code_simp+
  have rest: "list_ex (\<lambda>u. u = default_tenant_row) (tenants (ib_auth toy_bound_db))" "tn_is_active default_tenant_row"
    "list_all (\<lambda>u. assertSchema (tn_schema_name u)) (tenants (ib_auth toy_bound_db))"
    "list_all (\<lambda>u. u = default_tenant_row \<or> visible_schema (ib_auth toy_bound_db) (tn_schema_name u)
        \<noteq> visible_schema (ib_auth toy_bound_db) (tn_schema_name default_tenant_row)) (tenants (ib_auth toy_bound_db))"
    "list_all (\<lambda>u. matching_iobox (io_auth toy_io_lib) (ib_auth toy_bound_db) (iobox_key (cf_key toy_fresh)) (tn_schema_name u) = None)
       (tenants (ib_auth toy_bound_db))"
    "\<not> list_ex (\<lambda>b. iob_id b = cf_id toy_fresh \<or> iob_serial b = ci_serial toy_claim)
       (boxes toy_bound_db (tn_schema_name default_tenant_row))"
    "ci_display toy_claim = None" "cf_id toy_fresh \<noteq> []" "list_all (\<lambda>b. b < 256) (cf_key toy_fresh)"
    "length (cf_key toy_fresh) = 24"
    by code_simp+
  from reg obtain r c where "getIoBoxSerial toy_bound_db (ci_serial toy_claim) = Some r" "paired_box r = None"
    "getIoBoxModel toy_bound_db (ios_model_id r) \<noteq> None"
    "map_of (ib_claims toy_bound_db) (ci_serial toy_claim) = Some c" "secret_fits toy_io_lib (ci_secret toy_claim) c"
    by (auto simp only: map_option_eq_Some prod.inject)
  with rest have "claim_ready toy_io_lib toy_fresh toy_claim default_tenant_row toy_bound_db"
    unfolding claim_ready_def by blast
  from iobox_pairing_completes [OF this toy_io_keys, of 9] show ?thesis .
qed

definition toy_release :: iobox_release where
  "toy_release = \<lparr>ir_id = ''r1'', ir_version = ''1.2.0'', ir_channel = ChStable, ir_arch = ''esp32s3'', ir_model_id = None,
     ir_artifact_path = ''a'', ir_size_bytes = 1, ir_sha256 = ''s'', ir_signature = ''g'', ir_release_notes = None,
     ir_uploaded_at = 1, ir_uploaded_by = None, ir_yanked_at = None\<rparr>"

definition toy_firmware_db :: iobox_db where
  "toy_firmware_db = put_io ''public'' (empty_io\<lparr>io_releases := [toy_release]\<rparr>)
     (put_boxes ''public'' [sample_iobox\<lparr>iob_id := ''b1'', iob_model_id := ''ioBOX-WIFI''\<rparr>] toy_iobox_db)"

lemma toy_upgrade: "isVersionUpgrade (\<lambda>a b. 0) ''1.2.0'' ''1.1.0''"
  by (simp add: version_eval)

theorem iobox_firmware_check_sound_witness:
  "\<exists>box. getIoBoxById toy_firmware_db ''public'' ''b1'' = Some box
    \<and> toy_release \<in> set (io_releases (io_table toy_firmware_db ''public''))
    \<and> isVersionUpgrade (\<lambda>a b. 0) (ir_version toy_release) (nullish (Some ''1.1.0'') (nullish (iob_firmware_version box) []))"
proof -
  have "map_option (\<lambda>b. or_option (pinned_release (io_table toy_firmware_db ''public'') ''esp32s3'' b)
      (getLatestIoBoxFirmwareRelease (io_table toy_firmware_db ''public'') (iob_firmware_channel b) ''esp32s3'' (iob_model_id b)))
      (getIoBoxById toy_firmware_db ''public'' ''b1'') = Some (Some toy_release)"
    by code_simp
  then have "io_firmware_check (\<lambda>a b. 0) (Some ''1.1.0'') None ''public'' ''b1'' toy_firmware_db = Offer toy_release"
    using toy_upgrade by (auto simp: io_firmware_check_def Let_def toy_release_def)
  from iobox_firmware_check_sound [OF this] show ?thesis by blast
qed

end
