(* ===== verification/BF_Events.thy ===== *)
theory BF_Events
  imports BF_IoBox BF_Bundle
begin

text \<open>
  Device events of \<^verbatim>\<open>server/src/plugins/service-api-http/index.ts\<close>: the event routes of kiosks,
  ioBOXes and cameras, their duplicate caches, the event log and the camera subscriptions of
  \<^verbatim>\<open>shared/db/repository.ts\<close>, and the control commands an ioBOX input causes on a kiosk.  Posts
  to Node-RED, MQTT messages and commands are recorded in order; whether a post succeeds is an
  operation of its own.  Bodies are the values after validation, and the XML of a camera
  callback is given as the notifications that were read from it.
\<close>

section \<open>Printing JSON\<close>

text \<open>\<^verbatim>\<open>JSON.stringify\<close>; a value that has no text is \<open>None\<close> at the top and \<^verbatim>\<open>null\<close> in an array.\<close>

definition quote_char :: "char \<Rightarrow> string" where
  "quote_char c = (let n = of_char c :: nat in
     if c = CHR 0x22 then [CHR 0x5C, CHR 0x22]
     else if c = CHR 0x5C then [CHR 0x5C, CHR 0x5C]
     else if n = 8 then CHR 0x5C # ''b'' else if n = 9 then CHR 0x5C # ''t''
     else if n = 10 then CHR 0x5C # ''n'' else if n = 12 then CHR 0x5C # ''f''
     else if n = 13 then CHR 0x5C # ''r''
     else if n < 32 then CHR 0x5C # ''u00'' @ hex_encode [n]
     else [c])"

definition quote :: "string \<Rightarrow> string" where
  "quote s = CHR 0x22 # concat (map quote_char s) @ [CHR 0x22]"

fun json_text :: "(number \<Rightarrow> string) \<Rightarrow> json \<Rightarrow> string" where
  "json_text num JUndefined = ''null''"
| "json_text num JNull = ''null''"
| "json_text num (JBool b) = (if b then ''true'' else ''false'')"
| "json_text num (JNum n) = num n"
| "json_text num (JStr s) = quote s"
| "json_text num (JArr vs) = ''['' @ join_with '','' (map (json_text num) vs) @ '']''"
| "json_text num (JObj fs) = ''{'' @ join_with '',''
     (map (\<lambda>(k, v). quote k @ '':'' @ json_text num v) (filter (\<lambda>kv. snd kv \<noteq> JUndefined) fs)) @ ''}''"

definition stringify :: "(number \<Rightarrow> string) \<Rightarrow> json \<Rightarrow> string option" where
  "stringify num v = (if v = JUndefined then None else Some (json_text num v))"

text \<open>An object literal that spreads some properties and sets others after them.\<close>

definition with_fields :: "(string \<times> json) list \<Rightarrow> (string \<times> json) list \<Rightarrow> json" where
  "with_fields base fs = JObj (fold (\<lambda>(k, v). AList.update k v) fs base)"

definition json_opt :: "string option \<Rightarrow> json" where
  "json_opt x = (case x of None \<Rightarrow> JNull | Some s \<Rightarrow> JStr s)"

section \<open>State\<close>

text \<open>A row of \<^verbatim>\<open>camera_event_subscriptions\<close>.\<close>

record subscription_row =
  sr_id :: string
  sr_camera_id :: string
  sr_topic :: string
  sr_status :: subscription_status
  sr_kiosk_id :: "string option"
  sr_event_source :: "string option"
  sr_event_sink :: "string option"
  sr_subscribed_at :: "timestamp option"
  sr_last_event_at :: "timestamp option"
  sr_error_message :: "string option"

record event_db =
  ed_log :: "event_log list"
  ed_subs :: "subscription_row list"
  ed_displays :: "display list"
  ed_cameras :: "camera list"
  ed_kiosks :: "kiosk list"
  ed_ioboxes :: "iobox list"
  ed_mappings :: "input_mapping list"

text \<open>A post to Node-RED; \<open>np_event\<close> is the event it marks as forwarded when it succeeds.\<close>

record node_post =
  np_topic :: string
  np_body :: json
  np_tenant :: string
  np_event :: "string option"

record event_api =
  ea_db :: event_db
  ea_kiosk_cache :: "(string, timestamp) jsmap"
  ea_iobox_cache :: "(string, timestamp) jsmap"
  ea_guard :: limiter
  ea_posts :: "node_post list"
  ea_mqtt :: "(string \<times> string \<times> json) list"
  ea_commands :: "(string \<times> json) list"

text \<open>Collaborators: cryptography and number printing, and \<^verbatim>\<open>toISOString\<close>.\<close>

record event_lib =
  el_env :: bundle_env
  el_iso :: "timestamp \<Rightarrow> string"

abbreviation show_num :: "event_lib \<Rightarrow> number \<Rightarrow> string" where
  "show_num lib \<equiv> be_show_number (el_env lib)"

section \<open>The event log\<close>

definition source_type_of :: "string \<Rightarrow> event_source_type option" where
  "source_type_of s =
     (if s = ''onvif'' then Some SourceOnvif else if s = ''gpio'' then Some SourceGpio
      else if s = ''synthetic'' then Some SourceSynthetic else if s = ''system'' then Some SourceSystem
      else if s = ''io'' then Some SourceIo else if s = ''interaction'' then Some SourceInteraction
      else None)"

record new_event =
  ne_kiosk_id :: "string option"
  ne_camera_id :: "string option"
  ne_iobox_id :: "string option"
  ne_ingress_path :: "string option"
  ne_source_type :: string
  ne_topic :: string
  ne_property_op :: "string option"
  ne_payload :: json

text \<open>
  An insert with an unknown source type or a taken identifier is refused by a constraint; one
  that refers to a missing kiosk, camera or ioBOX fails the foreign key (code 23503).
\<close>

datatype insert_error = EventRefused | EventForeignKey

definition row_refs :: "new_event \<Rightarrow> event_db \<Rightarrow> bool" where
  "row_refs i db \<longleftrightarrow>
     (case ne_kiosk_id i of None \<Rightarrow> True | Some k \<Rightarrow> list_ex (\<lambda>x. k_id x = k) (ed_kiosks db))
   \<and> (case ne_camera_id i of None \<Rightarrow> True | Some c \<Rightarrow> list_ex (\<lambda>x. cam_id x = c) (ed_cameras db))
   \<and> (case ne_iobox_id i of None \<Rightarrow> True | Some b \<Rightarrow> list_ex (\<lambda>x. iob_id x = b) (ed_ioboxes db))"

definition event_row :: "string \<Rightarrow> timestamp \<Rightarrow> event_source_type \<Rightarrow> new_event \<Rightarrow> event_log" where
  "event_row eid now st i =
     \<lparr>ev_id = eid, ev_source_kiosk_id = ne_kiosk_id i, ev_source_camera_id = ne_camera_id i,
      ev_source_iobox_id = ne_iobox_id i, ev_ingress_path = ne_ingress_path i, ev_source_type = st,
      ev_topic = ne_topic i, ev_property_op = ne_property_op i, ev_payload = json_or (ne_payload i) JNull,
      ev_received_at = now, ev_forwarded_to_nodered = False\<rparr>"

definition insertEvent :: "string \<Rightarrow> timestamp \<Rightarrow> new_event \<Rightarrow> event_db \<Rightarrow> (insert_error, event_db) result" where
  "insertEvent eid now i db =
     (case source_type_of (ne_source_type i) of
        None \<Rightarrow> Inl EventRefused
      | Some st \<Rightarrow>
          if list_ex (\<lambda>e. ev_id e = eid) (ed_log db) then Inl EventRefused
          else if \<not> row_refs i db then Inl EventForeignKey
          else Inr (db\<lparr>ed_log := ed_log db @ [event_row eid now st i]\<rparr>))"

definition markEventForwarded :: "string \<Rightarrow> event_db \<Rightarrow> event_db" where
  "markEventForwarded eid db =
     db\<lparr>ed_log := map (\<lambda>e. if ev_id e = eid then e\<lparr>ev_forwarded_to_nodered := True\<rparr> else e) (ed_log db)\<rparr>"

text \<open>The newest rows first; rows of the same instant come in the order of their insertion.\<close>

definition newest_first :: "event_log list \<Rightarrow> event_log list" where
  "newest_first es = sort_key (\<lambda>e. - ev_received_at e) es"

definition recentEvents :: "nat \<Rightarrow> event_db \<Rightarrow> event_log list" where
  "recentEvents limit db = take limit (newest_first (ed_log db))"

definition purgeEventLog :: "timestamp \<Rightarrow> number \<Rightarrow> nat \<Rightarrow> event_db \<Rightarrow> nat \<times> event_db" where
  "purgeEventLog now days maxRows db =
     (let cutoff = now - days * 86400000;
          kept1 = filter (\<lambda>e. \<not> ev_received_at e < cutoff) (ed_log db);
          top = map ev_id (take maxRows (newest_first kept1));
          kept2 = filter (\<lambda>e. ev_id e \<in> set top) kept1
      in (length (ed_log db) - length kept2, db\<lparr>ed_log := kept2\<rparr>))"

record event_filters =
  qf_topic :: "string option"
  qf_kiosk_id :: "string option"
  qf_camera_id :: "string option"
  qf_source_type :: "event_source_type option"
  qf_from :: "timestamp option"
  qf_to :: "timestamp option"
  qf_limit :: "nat option"
  qf_offset :: "nat option"

definition event_matches :: "event_filters \<Rightarrow> event_log \<Rightarrow> bool" where
  "event_matches q e \<longleftrightarrow>
     (truthy_str (qf_topic q) \<longrightarrow> qf_topic q = Some (ev_topic e))
   \<and> (qf_kiosk_id q \<noteq> None \<longrightarrow> qf_kiosk_id q = ev_source_kiosk_id e)
   \<and> (qf_camera_id q \<noteq> None \<longrightarrow> qf_camera_id q = ev_source_camera_id e)
   \<and> (qf_source_type q \<noteq> None \<longrightarrow> qf_source_type q = Some (ev_source_type e))
   \<and> (case qf_from q of None \<Rightarrow> True | Some t \<Rightarrow> t \<le> ev_received_at e)
   \<and> (case qf_to q of None \<Rightarrow> True | Some t \<Rightarrow> ev_received_at e \<le> t)"

definition queryEvents :: "event_filters \<Rightarrow> event_db \<Rightarrow> event_log list \<times> nat" where
  "queryEvents q db =
     (let hits = filter (event_matches q) (ed_log db)
      in (take (nullish (qf_limit q) 50) (drop (nullish (qf_offset q) 0) (newest_first hits)), length hits))"


section \<open>Camera subscriptions\<close>

definition map_subs :: "(subscription_row \<Rightarrow> bool) \<Rightarrow> (subscription_row \<Rightarrow> subscription_row) \<Rightarrow> event_db \<Rightarrow> event_db" where
  "map_subs P f db = db\<lparr>ed_subs := map (\<lambda>s. if P s then f s else s) (ed_subs db)\<rparr>"

definition sub_for :: "string \<Rightarrow> string \<Rightarrow> subscription_row \<Rightarrow> bool" where
  "sub_for cid topic s \<longleftrightarrow> sr_camera_id s = cid \<and> sr_topic s = topic"

text \<open>The owner of a camera; a camera with several active rows has the last one read.\<close>

definition getActiveOnvifOwners :: "event_db \<Rightarrow> (string, string) jsmap" where
  "getActiveOnvifOwners db =
     fold (\<lambda>s m. case sr_kiosk_id s of Some k \<Rightarrow>
             (if sr_status s = SubActive then AList.update (sr_camera_id s) k m else m) | None \<Rightarrow> m)
       (ed_subs db) []"

definition listEventSubscriptions :: "(string \<Rightarrow> 'k::linorder) \<Rightarrow> string \<Rightarrow> event_db \<Rightarrow> subscription_row list" where
  "listEventSubscriptions ck cid db = sort_key (\<lambda>s. ck (sr_topic s)) (filter (\<lambda>s. sr_camera_id s = cid) (ed_subs db))"

text \<open>
  An upsert proposes a row first: a row without identifier violates the column's constraint,
  which has no default, before a conflict with an existing row is considered.
\<close>

definition upsert_subscription :: "string option \<Rightarrow> string \<Rightarrow> string \<Rightarrow> subscription_status \<Rightarrow> event_db
  \<Rightarrow> (insert_error, event_db) result" where
  "upsert_subscription identifier cid topic status db =
     (case identifier of
        None \<Rightarrow> Inl EventRefused
      | Some i \<Rightarrow>
          if list_ex (sub_for cid topic) (ed_subs db)
          then Inr (map_subs (sub_for cid topic) (\<lambda>s. s\<lparr>sr_status := status\<rparr>) db)
          else if \<not> list_ex (\<lambda>c. cam_id c = cid) (ed_cameras db) then Inl EventForeignKey
          else Inr (db\<lparr>ed_subs := ed_subs db @ [\<lparr>sr_id = i, sr_camera_id = cid, sr_topic = topic,
                 sr_status = status, sr_kiosk_id = None, sr_event_source = None, sr_event_sink = None,
                 sr_subscribed_at = None, sr_last_event_at = None, sr_error_message = None\<rparr>]\<rparr>))"

text \<open>The statement of the repository lists camera, topic and status, and no identifier.\<close>

definition upsertEventSubscription :: "string \<Rightarrow> string \<Rightarrow> subscription_status \<Rightarrow> event_db \<Rightarrow> (insert_error, event_db) result" where
  "upsertEventSubscription cid topic status db = upsert_subscription None cid topic status db"

definition updateEventSubscriptionStatus ::
  "string \<Rightarrow> string \<Rightarrow> subscription_status \<Rightarrow> string option \<Rightarrow> event_db \<Rightarrow> event_db" where
  "updateEventSubscriptionStatus cid topic status err db =
     map_subs (sub_for cid topic) (\<lambda>s. s\<lparr>sr_status := status, sr_error_message := err\<rparr>) db"

definition markEventReceived :: "timestamp \<Rightarrow> string \<Rightarrow> string \<Rightarrow> event_db \<Rightarrow> event_db" where
  "markEventReceived now cid topic db =
     map_subs (sub_for cid topic) (\<lambda>s. s\<lparr>sr_last_event_at := Some now, sr_status := SubActive\<rparr>) db"

definition setAllEventSubscriptionsStatus ::
  "string \<Rightarrow> subscription_status \<Rightarrow> subscription_status \<Rightarrow> event_db \<Rightarrow> event_db" where
  "setAllEventSubscriptionsStatus cid old new db =
     map_subs (\<lambda>s. sr_camera_id s = cid \<and> sr_status s = old) (\<lambda>s. s\<lparr>sr_status := new\<rparr>) db"

record sub_info =
  si_state :: string
  si_subscribed_at :: "timestamp option"
  si_error :: "string option"
  si_resolved_sink :: "string option"

definition reported_status :: "string \<Rightarrow> subscription_status" where
  "reported_status state =
     (if state = ''active'' then SubActive else if state = ''failed'' then SubFailed
      else if state = ''subscribing'' then SubPending else SubInactive)"

definition refresh_row :: "timestamp \<Rightarrow> string \<Rightarrow> sub_info \<Rightarrow> subscription_row \<Rightarrow> subscription_row" where
  "refresh_row now kid info s = s\<lparr>sr_status := reported_status (si_state info), sr_kiosk_id := Some kid,
     sr_event_source := Some (''kiosk:'' @ kid),
     sr_event_sink := or_option (si_resolved_sink info) (sr_event_sink s),
     sr_subscribed_at := Some (nullish (si_subscribed_at info) now), sr_error_message := si_error info\<rparr>"

definition reported_row :: "timestamp \<Rightarrow> string \<Rightarrow> string \<Rightarrow> string \<Rightarrow> sub_info \<Rightarrow> subscription_row" where
  "reported_row now sid kid cid info =
     \<lparr>sr_id = sid, sr_camera_id = cid, sr_topic = ''onvif'', sr_status = reported_status (si_state info),
      sr_kiosk_id = Some kid, sr_event_source = Some (''kiosk:'' @ kid), sr_event_sink = si_resolved_sink info,
      sr_subscribed_at = Some (nullish (si_subscribed_at info) now), sr_last_event_at = None,
      sr_error_message = si_error info\<rparr>"

definition syncSubscription :: "timestamp \<Rightarrow> string \<Rightarrow> string \<Rightarrow> string \<Rightarrow> sub_info \<Rightarrow> event_db \<Rightarrow> (insert_error, event_db) result" where
  "syncSubscription now sid kid cid info db =
     (if list_ex (sub_for cid ''onvif'') (ed_subs db)
      then Inr (map_subs (sub_for cid ''onvif'') (refresh_row now kid info) db)
      else if \<not> list_ex (\<lambda>c. cam_id c = cid) (ed_cameras db) \<or> \<not> list_ex (\<lambda>k. k_id k = kid) (ed_kiosks db)
      then Inl EventForeignKey
      else Inr (db\<lparr>ed_subs := ed_subs db @ [reported_row now sid kid cid info]\<rparr>))"

text \<open>
  The loop stops at the first statement that fails and the handler only logs it, so the rows
  before it stay.  \<open>fresh\<close> names the new row of each position.
\<close>

fun syncKioskSubscriptions :: "timestamp \<Rightarrow> (nat \<Rightarrow> string) \<Rightarrow> nat \<Rightarrow> string \<Rightarrow> (string \<times> sub_info) list \<Rightarrow> event_db \<Rightarrow> event_db" where
  "syncKioskSubscriptions now fresh n kid [] db = db"
| "syncKioskSubscriptions now fresh n kid ((cid, info) # rest) db =
     (case syncSubscription now (fresh n) kid cid info db of
        Inl _ \<Rightarrow> db
      | Inr db1 \<Rightarrow> syncKioskSubscriptions now fresh (Suc n) kid rest db1)"

definition stale_kiosk :: "timestamp \<Rightarrow> event_db \<Rightarrow> string \<Rightarrow> bool" where
  "stale_kiosk cutoff db kid \<longleftrightarrow>
     list_ex (\<lambda>k. k_id k = kid \<and> (case k_last_seen_at k of None \<Rightarrow> True | Some t \<Rightarrow> t < cutoff)) (ed_kiosks db)"

definition releaseStaleSubscriptions :: "timestamp \<Rightarrow> number \<Rightarrow> event_db \<Rightarrow> event_db" where
  "releaseStaleSubscriptions now maxAgeHours db =
     map_subs (\<lambda>s. (case sr_kiosk_id s of None \<Rightarrow> False
                    | Some k \<Rightarrow> stale_kiosk (now - maxAgeHours * 3600000) db k)
                   \<and> (sr_status s = SubActive \<or> sr_status s = SubPending))
       (\<lambda>s. s\<lparr>sr_status := SubInactive\<rparr>) db"

section \<open>Input mappings\<close>

definition listIoBoxMappingsForDisplay :: "string \<Rightarrow> event_db \<Rightarrow> input_mapping list" where
  "listIoBoxMappingsForDisplay did db =
     sort_key im_created_at
       (filter (\<lambda>m. im_enabled m \<and> (im_display_id m = Some did \<or> im_display_id m = None)) (ed_mappings db))"

definition listIoBoxMappingsForIoBox :: "string \<Rightarrow> event_db \<Rightarrow> input_mapping list" where
  "listIoBoxMappingsForIoBox bid db =
     sort_key im_created_at (filter (\<lambda>m. im_iobox_id m = Some bid) (ed_mappings db))"

definition createIoBoxMapping :: "timestamp \<Rightarrow> input_mapping \<Rightarrow> event_db \<Rightarrow> event_db" where
  "createIoBoxMapping now m db = db\<lparr>ed_mappings := ed_mappings db @ [m\<lparr>im_created_at := now\<rparr>]\<rparr>"

definition deleteIoBoxMapping :: "string \<Rightarrow> event_db \<Rightarrow> event_db" where
  "deleteIoBoxMapping mid db = db\<lparr>ed_mappings := filter (\<lambda>m. im_id m \<noteq> mid) (ed_mappings db)\<rparr>"

definition mappingMatches :: "(number \<Rightarrow> string) \<Rightarrow> input_mapping \<Rightarrow> json \<Rightarrow> bool" where
  "mappingMatches num m ev \<longleftrightarrow>
     im_source_kind m = js_string num (json_or (json_get ev ''kind'') (JStr []))
   \<and> list_all (\<lambda>(key, expected). stringify num (json_get ev key) = stringify num expected) (im_match_json m)"

definition control_message :: "string \<Rightarrow> string \<Rightarrow> json \<Rightarrow> input_mapping \<Rightarrow> json" where
  "control_message bid did ev m =
     JObj [(''type'', JStr ''iobox-control''), (''iobox_id'', JStr bid), (''display_id'', JStr did),
           (''action'', JStr (im_action m)), (''target_kind'', JStr (im_target_kind m)),
           (''params'', im_params_json m), (''event'', ev)]"

text \<open>
  The commands are requested one after the other; \<open>answer n\<close> is what the coordinator gives for
  the \<open>n\<close>th, and a rejection ends the loop.
\<close>

fun request_all :: "(nat \<Rightarrow> (string, json) result) \<Rightarrow> string \<Rightarrow> nat \<Rightarrow> json list
  \<Rightarrow> (string \<times> json) list \<times> (string, json list) result" where
  "request_all answer kid n [] = ([], Inr [])"
| "request_all answer kid n (m # ms) =
     (case answer n of
        Inl e \<Rightarrow> ([(kid, m)], Inl e)
      | Inr r \<Rightarrow> (case request_all answer kid (Suc n) ms of (sent, rest) \<Rightarrow>
          ((kid, m) # sent, (case rest of Inl e \<Rightarrow> Inl e | Inr rs \<Rightarrow> Inr (r # rs)))))"

definition matching_mappings :: "(number \<Rightarrow> string) \<Rightarrow> string \<Rightarrow> string \<Rightarrow> json \<Rightarrow> event_db \<Rightarrow> input_mapping list" where
  "matching_mappings num bid did ev db =
     filter (\<lambda>m. (im_iobox_id m = None \<or> im_iobox_id m = Some bid) \<and> mappingMatches num m ev)
       (listIoBoxMappingsForDisplay did db)"

definition proxyIoBoxEventToKiosk :: "(number \<Rightarrow> string) \<Rightarrow> (nat \<Rightarrow> (string, json) result) \<Rightarrow> string \<Rightarrow> string \<Rightarrow> json
  \<Rightarrow> event_db \<Rightarrow> (string \<times> json) list \<times> (string, json) result" where
  "proxyIoBoxEventToKiosk num answer bid did ev db =
     (case find (\<lambda>d. d_id d = did) (ed_displays db) of
        Some d \<Rightarrow>
          if truthy_str (d_kiosk_id d) then
            (case matching_mappings num bid did ev db of
               [] \<Rightarrow> ([], Inr (JObj [(''ok'', JBool True), (''matched'', JBool False)]))
             | ms \<Rightarrow> (case request_all answer (the (d_kiosk_id d)) 0 (map (control_message bid did ev) ms) of
                 (sent, Inl e) \<Rightarrow> (sent, Inl e)
               | (sent, Inr rs) \<Rightarrow> (sent, Inr (JObj [(''ok'', JBool True), (''matched'', JBool True),
                                                     (''results'', JArr rs)]))))
          else ([], Inr (JObj [(''ok'', JBool False), (''error'', JStr ''assigned display has no kiosk'')]))
      | None \<Rightarrow> ([], Inr (JObj [(''ok'', JBool False), (''error'', JStr ''assigned display has no kiosk'')])))"


section \<open>Duplicate caches\<close>

text \<open>
  Both caches record when a key was last let through and forget old keys once they hold more
  than ten thousand.
\<close>

definition remember :: "timestamp \<Rightarrow> string \<Rightarrow> timestamp \<Rightarrow> (string, timestamp) jsmap \<Rightarrow> (string, timestamp) jsmap" where
  "remember keep key now cache =
     (let c = AList.update key now cache
      in if length c > 10000 then filter (\<lambda>(k, t). \<not> t < now - keep) c else c)"

definition kiosk_dedup :: "string \<Rightarrow> timestamp \<Rightarrow> (string, timestamp) jsmap \<Rightarrow> bool \<times> (string, timestamp) jsmap" where
  "kiosk_dedup key now cache =
     (case map_of cache key of
        Some t \<Rightarrow> if now - t < 2000 then (True, cache) else (False, remember 5000 key now cache)
      | None \<Rightarrow> (False, remember 5000 key now cache))"

definition iobox_dedup :: "string \<Rightarrow> timestamp \<Rightarrow> (string, timestamp) jsmap \<Rightarrow> bool \<times> (string, timestamp) jsmap" where
  "iobox_dedup key now cache =
     (case map_of cache key of
        Some t \<Rightarrow> if t \<noteq> 0 \<and> now - t < 60000 then (True, cache) else (False, remember 120000 key now cache)
      | None \<Rightarrow> (False, remember 120000 key now cache))"

section \<open>Kiosk events\<close>

record event_body =
  eb_topic :: string
  eb_source_type :: string
  eb_camera_id :: "string option"
  eb_property_op :: "string option"
  eb_payload :: json

definition body_payload :: "event_body \<Rightarrow> json" where
  "body_payload b = json_or (eb_payload b) (JObj [])"

definition event_key :: "(number \<Rightarrow> string) \<Rightarrow> string \<Rightarrow> event_body \<Rightarrow> string" where
  "event_key num kid b =
     kid @ '':'' @ nullish (eb_camera_id b) ''0'' @ '':'' @ eb_topic b @ '':''
     @ json_text num (json_or (json_get (body_payload b) ''source'') (JStr []))"

definition kiosk_new_event :: "string \<Rightarrow> string option \<Rightarrow> event_body \<Rightarrow> new_event" where
  "kiosk_new_event kid cid b =
     \<lparr>ne_kiosk_id = Some kid, ne_camera_id = cid, ne_iobox_id = None, ne_ingress_path = Some ''/api/kiosk/event'',
      ne_source_type = eb_source_type b, ne_topic = eb_topic b, ne_property_op = eb_property_op b,
      ne_payload = body_payload b\<rparr>"

text \<open>An event of a camera that no longer exists is stored without the camera.\<close>

definition store_kiosk_event :: "string \<Rightarrow> timestamp \<Rightarrow> string \<Rightarrow> event_body \<Rightarrow> event_db \<Rightarrow> (insert_error, event_db) result" where
  "store_kiosk_event eid now kid b db =
     (case insertEvent eid now (kiosk_new_event kid (eb_camera_id b) b) db of
        Inl EventForeignKey \<Rightarrow> insertEvent eid now (kiosk_new_event kid None b) db
      | r \<Rightarrow> r)"

text \<open>\<^verbatim>\<open>updateDisplay\<close> with the one column this route sets.\<close>

definition set_active_layout :: "string \<Rightarrow> string \<Rightarrow> event_db \<Rightarrow> event_db" where
  "set_active_layout did lid db =
     db\<lparr>ed_displays := map (\<lambda>d. if d_id d = did then d\<lparr>d_active_layout_id := Some lid\<rparr> else d) (ed_displays db)\<rparr>"

definition payload_text :: "(number \<Rightarrow> string) \<Rightarrow> json \<Rightarrow> string \<Rightarrow> string" where
  "payload_text num p key = js_string num (json_or (json_get p key) (JStr []))"

definition note_layout :: "(number \<Rightarrow> string) \<Rightarrow> event_body \<Rightarrow> event_db \<Rightarrow> event_db" where
  "note_layout num b db =
     (if eb_topic b = ''layout.changed'' then
        (let did = payload_text num (body_payload b) ''display_id'';
             lid = payload_text num (body_payload b) ''layout_id''
         in if did \<noteq> [] \<and> lid \<noteq> [] then set_active_layout did lid db else db)
      else db)"

definition note_camera :: "timestamp \<Rightarrow> event_body \<Rightarrow> event_db \<Rightarrow> event_db" where
  "note_camera now b db =
     (case eb_camera_id b of
        Some c \<Rightarrow> if eb_topic b \<noteq> [] then markEventReceived now c (eb_topic b) db else db
      | None \<Rightarrow> db)"

definition flatTopics :: "string list" where
  "flatTopics = [''layout.changed'', ''kiosk.changed'', ''kiosk.status'', ''display.power.changed'',
                 ''camera.changed'', ''web-change'']"

definition post :: "string \<Rightarrow> json \<Rightarrow> string \<Rightarrow> string option \<Rightarrow> event_api \<Rightarrow> event_api" where
  "post topic body tenant mark s =
     s\<lparr>ea_posts := ea_posts s @ [\<lparr>np_topic = topic, np_body = body, np_tenant = tenant, np_event = mark\<rparr>]\<rparr>"

definition publishEvent :: "string \<Rightarrow> string \<Rightarrow> json \<Rightarrow> event_api \<Rightarrow> event_api" where
  "publishEvent who topic body s = s\<lparr>ea_mqtt := ea_mqtt s @ [(who, topic, body)]\<rparr>"

definition flat_body :: "string \<Rightarrow> event_body \<Rightarrow> json" where
  "flat_body kid b =
     with_fields [(''kiosk_id'', JStr kid)] (spread (body_payload b) @ [(''source'', JStr ''kiosk'')])"

definition wrapped_body :: "event_lib \<Rightarrow> timestamp \<Rightarrow> string \<Rightarrow> string \<Rightarrow> event_body \<Rightarrow> json" where
  "wrapped_body lib now eid kid b =
     JObj [(''event_id'', JStr eid), (''kiosk_id'', JStr kid), (''camera_id'', json_opt (eb_camera_id b)),
           (''source_type'', JStr (eb_source_type b)), (''property_op'', json_opt (eb_property_op b)),
           (''topic'', JStr (eb_topic b)), (''payload'', body_payload b),
           (''timestamp'', JStr (el_iso lib now)), (''source'', JStr ''kiosk'')]"

definition forward_kiosk_event :: "event_lib \<Rightarrow> timestamp \<Rightarrow> string \<Rightarrow> device_identity \<Rightarrow> event_body \<Rightarrow> event_api \<Rightarrow> event_api" where
  "forward_kiosk_event lib now eid k b s =
     (let tenant = di_tenant_id k; topic = eb_topic b in
      if topic \<in> set flatTopics then
        let out = flat_body (di_id k) b
        in publishEvent (di_id k) topic out (post topic out tenant (Some eid) s)
      else
        let out = wrapped_body lib now eid (di_id k) b;
            s1 = post ''camera.event'' out tenant None
                   (publishEvent (di_id k) topic out (post topic out tenant (Some eid) s))
        in if eb_source_type b = ''onvif''
           then post ''onvif.anpr'' out tenant None (post ''onvif.motion'' out tenant None
                  (post ''onvif.event'' out tenant None s1))
           else if eb_source_type b = ''io'' then post ''io.event'' out tenant None s1
           else s1)"

datatype event_reply =
    EventStored string json
  | EventDuplicate
  | EventFailed nat
  | CallbackDone nat

definition set_db :: "event_db \<Rightarrow> event_api \<Rightarrow> event_api" where
  "set_db db s = s\<lparr>ea_db := db\<rparr>"

definition kiosk_event_route :: "event_lib \<Rightarrow> timestamp \<Rightarrow> string \<Rightarrow> device_identity \<Rightarrow> event_body \<Rightarrow> event_api
  \<Rightarrow> event_reply \<times> event_api" where
  "kiosk_event_route lib now eid k b s =
     (case kiosk_dedup (event_key (show_num lib) (di_id k) b) now (ea_kiosk_cache s) of (dup, cache) \<Rightarrow>
      if dup then (EventDuplicate, s)
      else let s1 = s\<lparr>ea_kiosk_cache := cache\<rparr> in
        (case store_kiosk_event eid now (di_id k) b (ea_db s1) of
           Inl _ \<Rightarrow> (EventFailed 500, s1)
         | Inr db1 \<Rightarrow>
             (EventStored eid JNull,
              forward_kiosk_event lib now eid k b
                (set_db (note_camera now b (note_layout (show_num lib) b db1)) s1))))"


section \<open>Events of ioBOXes\<close>

record io_event_body =
  xb_event_id :: "string option"
  xb_topic :: string
  xb_kind :: string
  xb_action :: "string option"
  xb_code :: "string option"
  xb_value :: json
  xb_display_id :: "string option"
  xb_payload :: json
  xb_route :: "string option"

definition route_text :: "iobox_route_mode \<Rightarrow> string" where
  "route_text r = (case r of RouteUnknown \<Rightarrow> ''unknown'' | RouteDirect \<Rightarrow> ''direct'' | RouteProxy \<Rightarrow> ''proxy''
     | RouteServer \<Rightarrow> ''server'' | RouteOffline \<Rightarrow> ''offline'')"

definition io_event_key :: "string \<Rightarrow> io_event_body \<Rightarrow> string option" where
  "io_event_key bid b = (if truthy_str (xb_event_id b) then Some (bid @ '':'' @ the (xb_event_id b)) else None)"

definition io_dedup :: "string \<Rightarrow> timestamp \<Rightarrow> io_event_body \<Rightarrow> (string, timestamp) jsmap \<Rightarrow> bool \<times> (string, timestamp) jsmap" where
  "io_dedup bid now b cache =
     (case io_event_key bid b of None \<Rightarrow> (False, cache) | Some key \<Rightarrow> iobox_dedup key now cache)"

definition io_display :: "iobox \<Rightarrow> io_event_body \<Rightarrow> string option" where
  "io_display box b = or_option (xb_display_id b) (iob_assigned_display_id box)"

definition io_route :: "iobox \<Rightarrow> io_event_body \<Rightarrow> string" where
  "io_route box b = nullish (xb_route b) (route_text (iob_route_mode box))"

definition own_properties :: "json \<Rightarrow> (string \<times> json) list" where
  "own_properties p = (case p of JObj _ \<Rightarrow> spread p | JArr _ \<Rightarrow> spread p | _ \<Rightarrow> [])"

definition io_payload :: "iobox \<Rightarrow> io_event_body \<Rightarrow> json" where
  "io_payload box b =
     with_fields (own_properties (xb_payload b))
       [(''event_id'', json_opt (xb_event_id b)), (''iobox_id'', JStr (iob_id box)),
        (''serial'', JStr (iob_serial box)), (''display_id'', json_opt (io_display box b)),
        (''kind'', JStr (xb_kind b)), (''action'', json_opt (xb_action b)), (''code'', json_opt (xb_code b)),
        (''value'', json_or (xb_value b) JNull), (''route'', JStr (io_route box b))]"

definition io_new_event :: "iobox \<Rightarrow> io_event_body \<Rightarrow> new_event" where
  "io_new_event box b =
     \<lparr>ne_kiosk_id = None, ne_camera_id = None, ne_iobox_id = Some (iob_id box),
      ne_ingress_path = Some ''/api/iobox/event'', ne_source_type = ''io'', ne_topic = xb_topic b,
      ne_property_op = xb_action b, ne_payload = io_payload box b\<rparr>"

definition io_out :: "event_lib \<Rightarrow> timestamp \<Rightarrow> string \<Rightarrow> iobox \<Rightarrow> io_event_body \<Rightarrow> json" where
  "io_out lib now eid box b =
     JObj [(''event_id'', JStr eid), (''iobox_id'', JStr (iob_id box)), (''display_id'', json_opt (io_display box b)),
           (''source_type'', JStr ''io''), (''topic'', JStr (xb_topic b)), (''kind'', JStr (xb_kind b)),
           (''action'', json_opt (xb_action b)), (''code'', json_opt (xb_code b)), (''payload'', io_payload box b),
           (''timestamp'', JStr (el_iso lib now)), (''source'', JStr ''iobox'')]"

text \<open>What the mappings are matched against.\<close>

definition io_input :: "iobox \<Rightarrow> io_event_body \<Rightarrow> json" where
  "io_input box b =
     JObj [(''topic'', JStr (xb_topic b)), (''kind'', JStr (xb_kind b)), (''action'', json_opt (xb_action b)),
           (''code'', json_opt (xb_code b)), (''value'', json_or (xb_value b) JNull), (''payload'', io_payload box b)]"

definition io_proxy :: "event_lib \<Rightarrow> (nat \<Rightarrow> (string, json) result) \<Rightarrow> iobox \<Rightarrow> io_event_body \<Rightarrow> event_db
  \<Rightarrow> (string \<times> json) list \<times> json" where
  "io_proxy lib answer box b db =
     (if io_route box b = ''proxy'' \<and> truthy_str (io_display box b) then
        (case proxyIoBoxEventToKiosk (show_num lib) answer (iob_id box) (the (io_display box b)) (io_input box b) db of
           (sent, Inl e) \<Rightarrow> (sent, JObj [(''ok'', JBool False), (''error'', JStr e)])
         | (sent, Inr v) \<Rightarrow> (sent, v))
      else ([], JNull))"

definition iobox_event_route :: "event_lib \<Rightarrow> timestamp \<Rightarrow> string \<Rightarrow> (nat \<Rightarrow> (string, json) result) \<Rightarrow> device_identity
  \<Rightarrow> io_event_body \<Rightarrow> event_api \<Rightarrow> event_reply \<times> event_api" where
  "iobox_event_route lib now eid answer d b s =
     (case find (\<lambda>x. iob_id x = di_id d) (ed_ioboxes (ea_db s)) of
        None \<Rightarrow> (EventFailed 404, s)
      | Some box \<Rightarrow>
          (case io_dedup (iob_id box) now b (ea_iobox_cache s) of (dup, cache) \<Rightarrow>
           if dup then (EventDuplicate, s)
           else let s1 = s\<lparr>ea_iobox_cache := cache\<rparr> in
             (case insertEvent eid now (io_new_event box b) (ea_db s1) of
                Inl _ \<Rightarrow> (EventFailed 500, s1)
              | Inr db1 \<Rightarrow>
                  (case io_proxy lib answer box b db1 of (sent, result) \<Rightarrow>
                   let out = io_out lib now eid box b; tenant = di_tenant_slug d;
                       s2 = set_db db1 s1\<lparr>ea_commands := ea_commands s1 @ sent\<rparr>
                   in (EventStored eid result,
                       publishEvent (iob_id box) (xb_topic b) out
                         (post ''io.event'' out tenant None
                           (post (xb_topic b) out tenant (Some eid) s2)))))))"

section \<open>Events that cameras push\<close>

record notification =
  nt_topic :: string
  nt_property_op :: "string option"
  nt_payload :: json

definition callback_new_event :: "string option \<Rightarrow> string \<Rightarrow> notification \<Rightarrow> new_event" where
  "callback_new_event kid cid n =
     \<lparr>ne_kiosk_id = kid, ne_camera_id = Some cid, ne_iobox_id = None,
      ne_ingress_path = Some ''/oce/:tenantSlug/:cameraId/:callbackToken'', ne_source_type = ''onvif'',
      ne_topic = nt_topic n, ne_property_op = nt_property_op n, ne_payload = nt_payload n\<rparr>"

definition callback_out :: "event_lib \<Rightarrow> timestamp \<Rightarrow> string \<Rightarrow> string option \<Rightarrow> string \<Rightarrow> notification \<Rightarrow> json" where
  "callback_out lib now eid kid cid n =
     JObj [(''event_id'', JStr eid), (''kiosk_id'', json_opt kid), (''camera_id'', JStr cid),
           (''source_type'', JStr ''onvif''), (''property_op'', json_opt (nt_property_op n)),
           (''topic'', JStr (nt_topic n)), (''payload'', nt_payload n),
           (''timestamp'', JStr (el_iso lib now)), (''source'', JStr ''camera-push'')]"

definition push_one :: "event_lib \<Rightarrow> timestamp \<Rightarrow> string \<Rightarrow> string \<Rightarrow> string option \<Rightarrow> string \<Rightarrow> notification
  \<Rightarrow> event_api \<Rightarrow> event_api" where
  "push_one lib now eid slug kid cid n s =
     (case insertEvent eid now (callback_new_event kid cid n) (ea_db s) of
        Inl _ \<Rightarrow> s
      | Inr db1 \<Rightarrow>
          let db2 = (if nt_topic n \<noteq> [] then markEventReceived now cid (nt_topic n) db1 else db1);
              out = callback_out lib now eid kid cid n;
              s1 = publishEvent (nullish kid ''server'') (nt_topic n) out (post (nt_topic n) out slug None (set_db db2 s))
          in post ''onvif.anpr'' out slug None (post ''onvif.motion'' out slug None
               (post ''onvif.event'' out slug None (post ''camera.event'' out slug None s1))))"

fun push_all :: "event_lib \<Rightarrow> timestamp \<Rightarrow> (nat \<Rightarrow> string) \<Rightarrow> nat \<Rightarrow> string \<Rightarrow> string option \<Rightarrow> string
  \<Rightarrow> notification list \<Rightarrow> event_api \<Rightarrow> event_api" where
  "push_all lib now fresh i slug kid cid [] s = s"
| "push_all lib now fresh i slug kid cid (n # ns) s =
     push_all lib now fresh (Suc i) slug kid cid ns (push_one lib now (fresh i) slug kid cid n s)"

text \<open>
  The request of a callback: the address it came from, the tenant of the slug when there is
  one (its schema is the modelled one), the path and the body.
\<close>

record callback_request =
  cq_ip :: "string option"
  cq_slug :: string
  cq_tenant :: "tenant option"
  cq_camera_id :: string
  cq_token :: string
  cq_body_empty :: bool
  cq_notifications :: "notification list"

definition active_subscriber :: "(string \<Rightarrow> 'k::linorder) \<Rightarrow> string \<Rightarrow> event_db \<Rightarrow> string option" where
  "active_subscriber ck cid db =
     (case find (\<lambda>s. sr_status s = SubActive) (listEventSubscriptions ck cid db) of
        None \<Rightarrow> None | Some s \<Rightarrow> sr_kiosk_id s)"

definition callback_allowed :: "event_lib \<Rightarrow> callback_request \<Rightarrow> event_db \<Rightarrow> bool" where
  "callback_allowed lib q db =
     (case find (\<lambda>c. cam_id c = cq_camera_id q) (ed_cameras db) of
        None \<Rightarrow> False
      | Some cam \<Rightarrow> onvifCallbackTokenMatches (el_env lib) (cq_token q) (cam_event_callback_token_hash cam))"

definition camera_callback_route :: "event_lib \<Rightarrow> (string \<Rightarrow> 'k::linorder) \<Rightarrow> timestamp \<Rightarrow> (nat \<Rightarrow> string) \<Rightarrow> callback_request
  \<Rightarrow> event_api \<Rightarrow> event_reply \<times> event_api" where
  "camera_callback_route lib ck now fresh q s =
     (case rl_take (''oce:'' @ nullish (cq_ip q) ''unknown'') now (ea_guard s) of (ok, g) \<Rightarrow>
      let s1 = s\<lparr>ea_guard := g\<rparr> in
      if \<not> ok then (EventFailed 429, s1)
      else if \<not> (case cq_tenant q of None \<Rightarrow> False | Some t \<Rightarrow> tn_is_active t) then (EventFailed 404, s1)
      else if \<not> callback_allowed lib q (ea_db s1) then (EventFailed 404, s1)
      else if cq_body_empty q \<or> cq_camera_id q = [] then (CallbackDone 0, s1)
      else let kid = active_subscriber ck (cq_camera_id q) (ea_db s1) in
        (CallbackDone (length (cq_notifications q)),
         push_all lib now fresh 0 (cq_slug q) kid (cq_camera_id q) (cq_notifications q) s1))"

section \<open>Operations\<close>

datatype event_op =
    OpKiosk timestamp string device_identity event_body
  | OpIoBox timestamp string "nat \<Rightarrow> (string, json) result" device_identity io_event_body
  | OpCallback timestamp "nat \<Rightarrow> string" callback_request
  | OpForwarded string
  | OpReport timestamp "nat \<Rightarrow> string" string "(string \<times> sub_info) list"
  | OpDiscovered string "string list"
  | OpSubscribe string
  | OpRelease timestamp number
  | OpMap timestamp input_mapping
  | OpUnmap string

text \<open>
  Topic discovery upserts a row for each topic; the first failure ends it and is swallowed.
  Subscribing marks the inactive rows of a camera as pending.
\<close>

fun discover_topics :: "string \<Rightarrow> string list \<Rightarrow> event_db \<Rightarrow> event_db" where
  "discover_topics cid [] db = db"
| "discover_topics cid (t # ts) db =
     (case upsertEventSubscription cid t SubInactive db of Inl _ \<Rightarrow> db | Inr db1 \<Rightarrow> discover_topics cid ts db1)"

definition on_db :: "(event_db \<Rightarrow> event_db) \<Rightarrow> event_api \<Rightarrow> event_reply option \<times> event_api" where
  "on_db f s = (None, set_db (f (ea_db s)) s)"

fun event_step :: "event_lib \<Rightarrow> (string \<Rightarrow> 'k::linorder) \<Rightarrow> event_op \<Rightarrow> event_api \<Rightarrow> event_reply option \<times> event_api" where
  "event_step lib ck (OpKiosk now eid k b) s = apfst Some (kiosk_event_route lib now eid k b s)"
| "event_step lib ck (OpIoBox now eid answer d b) s = apfst Some (iobox_event_route lib now eid answer d b s)"
| "event_step lib ck (OpCallback now fresh q) s = apfst Some (camera_callback_route lib ck now fresh q s)"
| "event_step lib ck (OpForwarded eid) s = on_db (markEventForwarded eid) s"
| "event_step lib ck (OpReport now fresh kid subs) s = on_db (syncKioskSubscriptions now fresh 0 kid subs) s"
| "event_step lib ck (OpDiscovered cid topics) s = on_db (discover_topics cid topics) s"
| "event_step lib ck (OpSubscribe cid) s = on_db (setAllEventSubscriptionsStatus cid SubInactive SubPending) s"
| "event_step lib ck (OpRelease now h) s = on_db (releaseStaleSubscriptions now h) s"
| "event_step lib ck (OpMap now m) s = on_db (createIoBoxMapping now m) s"
| "event_step lib ck (OpUnmap mid) s = on_db (deleteIoBoxMapping mid) s"

text \<open>A run with the reply of every operation.\<close>

fun event_run :: "event_lib \<Rightarrow> (string \<Rightarrow> 'k::linorder) \<Rightarrow> event_op list \<Rightarrow> event_api
  \<Rightarrow> (event_op \<times> event_reply option) list \<times> event_api" where
  "event_run lib ck [] s = ([], s)"
| "event_run lib ck (e # es) s =
     (case event_step lib ck e s of (r, s1) \<Rightarrow>
      case event_run lib ck es s1 of (tr, s2) \<Rightarrow> ((e, r) # tr, s2))"


section \<open>The caches decide as an unbounded memory would\<close>

text \<open>
  The reference: a call is a duplicate when the last call of its key that was let through is
  less than the window ago.  It remembers every key for ever.
\<close>

fun thin :: "timestamp \<Rightarrow> (string \<times> timestamp) list \<Rightarrow> (string \<Rightarrow> timestamp option) \<Rightarrow> bool list" where
  "thin w [] m = []"
| "thin w ((k, now) # cs) m =
     (case m k of
        Some l \<Rightarrow> if now - l < w then True # thin w cs m else False # thin w cs (m(k \<mapsto> now))
      | None \<Rightarrow> False # thin w cs (m(k \<mapsto> now)))"

definition clock_ok :: "(string \<times> timestamp) list \<Rightarrow> bool" where
  "clock_ok cs \<longleftrightarrow> sorted (map snd cs) \<and> list_all (\<lambda>c. 0 < snd c) cs"

locale dedup_cache =
  fixes dd :: "string \<Rightarrow> timestamp \<Rightarrow> (string, timestamp) jsmap \<Rightarrow> bool \<times> (string, timestamp) jsmap"
    and window :: timestamp
  assumes duplicate_iff: "\<lbrakk>\<And>t. map_of c k = Some t \<Longrightarrow> t \<noteq> 0\<rbrakk>
      \<Longrightarrow> fst (dd k now c) \<longleftrightarrow> (\<exists>t. map_of c k = Some t \<and> now - t < window)"
    and duplicate_same: "fst (dd k now c) \<Longrightarrow> snd (dd k now c) = c"
    and keeps_wf: "wf_map c \<Longrightarrow> wf_map (snd (dd k now c))"
    and passed_get: "wf_map c \<Longrightarrow> \<not> fst (dd k now c) \<Longrightarrow> map_of (snd (dd k now c)) k = Some now"
    and passed_other: "\<lbrakk>wf_map c; \<not> fst (dd k now c); j \<noteq> k\<rbrakk> \<Longrightarrow>
      map_of (snd (dd k now c)) j = map_of c j
      \<or> map_of (snd (dd k now c)) j = None \<and> (\<exists>t. map_of c j = Some t \<and> window \<le> now - t)"
begin

definition agree :: "timestamp \<Rightarrow> (string, timestamp) jsmap \<Rightarrow> (string \<Rightarrow> timestamp option) \<Rightarrow> bool" where
  "agree now c m \<longleftrightarrow> wf_map c
     \<and> (\<forall>k t. map_of c k = Some t \<longrightarrow> m k = Some t \<and> 0 < t)
     \<and> (\<forall>k l. m k = Some l \<longrightarrow> map_of c k = Some l \<or> window \<le> now - l)"

lemma agree_empty: "agree now [] Map.empty"
  by (simp add: agree_def)

lemma agree_later: "agree now c m \<Longrightarrow> now \<le> now' \<Longrightarrow> agree now' c m"
  unfolding agree_def by force

lemma agree_decides:
  assumes "agree now c m"
  shows "fst (dd k now c) \<longleftrightarrow> (\<exists>l. m k = Some l \<and> now - l < window)"
proof -
  have "fst (dd k now c) \<longleftrightarrow> (\<exists>t. map_of c k = Some t \<and> now - t < window)"
    using assms by (intro duplicate_iff) (fastforce simp: agree_def)
  with assms show ?thesis unfolding agree_def by (metis leD)
qed

lemma agree_pass:
  assumes "agree now c m" and "\<not> fst (dd k now c)" and "0 < now"
  shows "agree now (snd (dd k now c)) (m(k \<mapsto> now))"
proof -
  have wf: "wf_map c" using assms(1) by (simp add: agree_def)
  note get = passed_get [OF wf assms(2)] and other = passed_other [OF wf assms(2)]
  have "map_of (snd (dd k now c)) j = Some t \<Longrightarrow> (m(k \<mapsto> now)) j = Some t \<and> 0 < t" for j t
    using get other [of j] assms(1,3) unfolding agree_def by (cases "j = k") auto
  moreover have "(m(k \<mapsto> now)) j = Some l \<Longrightarrow> map_of (snd (dd k now c)) j = Some l \<or> window \<le> now - l" for j l
    using get other [of j] assms(1) unfolding agree_def by (cases "j = k") force+
  ultimately show ?thesis using keeps_wf [OF wf] unfolding agree_def by blast
qed

text \<open>One call: its decision, and the memory it leaves.\<close>

definition memory_after :: "string \<Rightarrow> timestamp \<Rightarrow> (string \<Rightarrow> timestamp option) \<Rightarrow> string \<Rightarrow> timestamp option" where
  "memory_after k now m = (case m k of Some l \<Rightarrow> if now - l < window then m else m(k \<mapsto> now) | None \<Rightarrow> m(k \<mapsto> now))"

lemma thin_Cons:
  assumes "agree now c m"
  shows "thin window ((k, now) # cs) m = fst (dd k now c) # thin window cs (memory_after k now m)"
  using agree_decides [OF assms, of k] by (auto simp: memory_after_def split: option.splits)

lemma agree_step:
  assumes "agree now c m" and "0 < now"
  shows "agree now (snd (dd k now c)) (memory_after k now m)"
proof (cases "fst (dd k now c)")
  case True
  then have "memory_after k now m = m"
    using agree_decides [OF assms(1), of k] by (auto simp: memory_after_def)
  then show ?thesis using True assms(1) by (simp add: duplicate_same)
next
  case False
  then have "memory_after k now m = m(k \<mapsto> now)"
    using agree_decides [OF assms(1), of k] by (auto simp: memory_after_def split: option.splits)
  then show ?thesis using agree_pass [OF assms(1) False assms(2)] by simp
qed

end

lemma remember_wf: "wf_map c \<Longrightarrow> wf_map (remember keep k now c)"
  by (simp add: remember_def Let_def wf_set distinct_map_filter)

lemma map_of_filter_time:
  assumes "wf_map c"
  shows "map_of (filter (\<lambda>(k, t). P t) c) j = (case map_of c j of None \<Rightarrow> None | Some t \<Rightarrow> if P t then Some t else None)"
  using assms
proof (induction c)
  case (Cons x c)
  obtain k t where x: "x = (k, t)" by (cases x)
  have "map_of c k = None" using Cons.prems x by (simp add: map_of_eq_None_iff)
  with Cons x show ?case by (auto split: option.split)
qed simp

lemma remember_get:
  assumes "wf_map c" and "0 \<le> keep"
  shows "map_of (remember keep k now c) k = Some now"
  using assms by (simp add: remember_def Let_def map_of_filter_time wf_set get_set)

lemma remember_other:
  assumes "wf_map c" and "j \<noteq> k" and "window \<le> keep"
  shows "map_of (remember keep k now c) j = map_of c j
    \<or> map_of (remember keep k now c) j = None \<and> (\<exists>t. map_of c j = Some t \<and> window \<le> now - t)"
  using assms by (auto simp: remember_def Let_def map_of_filter_time wf_set get_set split: option.splits)

lemma kiosk_dedup_fst: "fst (kiosk_dedup k now c) \<longleftrightarrow> (\<exists>t. map_of c k = Some t \<and> now - t < 2000)"
  by (auto simp: kiosk_dedup_def split: option.splits)

lemma kiosk_dedup_snd: "snd (kiosk_dedup k now c) = (if fst (kiosk_dedup k now c) then c else remember 5000 k now c)"
  by (auto simp: kiosk_dedup_def split: option.splits)

lemma iobox_dedup_fst: "fst (iobox_dedup k now c) \<longleftrightarrow> (\<exists>t. map_of c k = Some t \<and> t \<noteq> 0 \<and> now - t < 60000)"
  by (auto simp: iobox_dedup_def split: option.splits)

lemma iobox_dedup_snd: "snd (iobox_dedup k now c) = (if fst (iobox_dedup k now c) then c else remember 120000 k now c)"
  by (auto simp: iobox_dedup_def split: option.splits)

lemma kiosk_dedup_remember: "\<not> fst (kiosk_dedup k now c) \<Longrightarrow> snd (kiosk_dedup k now c) = remember 5000 k now c"
  by (simp only: kiosk_dedup_snd if_False)

lemma iobox_dedup_remember: "\<not> fst (iobox_dedup k now c) \<Longrightarrow> snd (iobox_dedup k now c) = remember 120000 k now c"
  by (simp only: iobox_dedup_snd if_False)

interpretation kiosk_cache: dedup_cache kiosk_dedup 2000
proof unfold_locales
  fix c k now j
  show "fst (kiosk_dedup k now c) \<longleftrightarrow> (\<exists>t. map_of c k = Some t \<and> now - t < 2000)" by (rule kiosk_dedup_fst)
  show "fst (kiosk_dedup k now c) \<Longrightarrow> snd (kiosk_dedup k now c) = c" by (simp add: kiosk_dedup_snd)
  show "wf_map c \<Longrightarrow> wf_map (snd (kiosk_dedup k now c))" by (simp add: kiosk_dedup_snd remember_wf)
  show "wf_map c \<Longrightarrow> \<not> fst (kiosk_dedup k now c) \<Longrightarrow> map_of (snd (kiosk_dedup k now c)) k = Some now"
    unfolding kiosk_dedup_remember by (rule remember_get) simp_all
  show "\<lbrakk>wf_map c; \<not> fst (kiosk_dedup k now c); j \<noteq> k\<rbrakk> \<Longrightarrow> map_of (snd (kiosk_dedup k now c)) j = map_of c j
      \<or> map_of (snd (kiosk_dedup k now c)) j = None \<and> (\<exists>t. map_of c j = Some t \<and> 2000 \<le> now - t)"
    unfolding kiosk_dedup_remember by (rule remember_other) simp_all
qed

interpretation iobox_cache: dedup_cache iobox_dedup 60000
proof unfold_locales
  fix c k now j
  show "(\<And>t. map_of c k = Some t \<Longrightarrow> t \<noteq> 0) \<Longrightarrow>
      fst (iobox_dedup k now c) \<longleftrightarrow> (\<exists>t. map_of c k = Some t \<and> now - t < 60000)"
    unfolding iobox_dedup_fst by blast
  show "fst (iobox_dedup k now c) \<Longrightarrow> snd (iobox_dedup k now c) = c" by (simp add: iobox_dedup_snd)
  show "wf_map c \<Longrightarrow> wf_map (snd (iobox_dedup k now c))" by (simp add: iobox_dedup_snd remember_wf)
  show "wf_map c \<Longrightarrow> \<not> fst (iobox_dedup k now c) \<Longrightarrow> map_of (snd (iobox_dedup k now c)) k = Some now"
    unfolding iobox_dedup_remember by (rule remember_get) simp_all
  show "\<lbrakk>wf_map c; \<not> fst (iobox_dedup k now c); j \<noteq> k\<rbrakk> \<Longrightarrow> map_of (snd (iobox_dedup k now c)) j = map_of c j
      \<or> map_of (snd (iobox_dedup k now c)) j = None \<and> (\<exists>t. map_of c j = Some t \<and> 60000 \<le> now - t)"
    unfolding iobox_dedup_remember by (rule remember_other) simp_all
qed

section \<open>Decisions of the event routes\<close>

text \<open>The calls a trace made to each cache, with whether they were answered as duplicates.\<close>

fun kiosk_call :: "event_lib \<Rightarrow> event_op \<times> event_reply option \<Rightarrow> ((string \<times> timestamp) \<times> bool) option" where
  "kiosk_call lib (OpKiosk now eid k b, r) =
     Some ((event_key (show_num lib) (di_id k) b, now), r = Some EventDuplicate)"
| "kiosk_call lib _ = None"

fun iobox_call :: "event_op \<times> event_reply option \<Rightarrow> ((string \<times> timestamp) \<times> bool) option" where
  "iobox_call (OpIoBox now eid answer d b, r) =
     (if r = Some (EventFailed 404) then None
      else map_option (\<lambda>key. ((key, now), r = Some EventDuplicate)) (io_event_key (di_id d) b))"
| "iobox_call _ = None"

definition kiosk_calls :: "event_lib \<Rightarrow> (event_op \<times> event_reply option) list \<Rightarrow> ((string \<times> timestamp) \<times> bool) list" where
  "kiosk_calls lib tr = List.map_filter (kiosk_call lib) tr"

definition iobox_calls :: "(event_op \<times> event_reply option) list \<Rightarrow> ((string \<times> timestamp) \<times> bool) list" where
  "iobox_calls tr = List.map_filter iobox_call tr"

lemma post_caches [simp]:
  "ea_kiosk_cache (post t b n m s) = ea_kiosk_cache s" "ea_iobox_cache (post t b n m s) = ea_iobox_cache s"
  "ea_kiosk_cache (publishEvent w t b s) = ea_kiosk_cache s" "ea_iobox_cache (publishEvent w t b s) = ea_iobox_cache s"
  "ea_kiosk_cache (set_db db s) = ea_kiosk_cache s" "ea_iobox_cache (set_db db s) = ea_iobox_cache s"
  by (simp_all add: post_def publishEvent_def set_db_def)

lemma post_db [simp]:
  "ea_db (post t b n m s) = ea_db s" "ea_db (publishEvent w t b s) = ea_db s" "ea_db (set_db db s) = db"
  by (simp_all add: post_def publishEvent_def set_db_def)

lemma forward_caches [simp]:
  "ea_kiosk_cache (forward_kiosk_event lib now eid k b s) = ea_kiosk_cache s"
  "ea_iobox_cache (forward_kiosk_event lib now eid k b s) = ea_iobox_cache s"
  "ea_db (forward_kiosk_event lib now eid k b s) = ea_db s"
  by (simp_all add: forward_kiosk_event_def Let_def)

lemma push_one_caches [simp]:
  "ea_kiosk_cache (push_one lib now eid slug kid cid n s) = ea_kiosk_cache s"
  "ea_iobox_cache (push_one lib now eid slug kid cid n s) = ea_iobox_cache s"
  by (simp_all add: push_one_def Let_def split: sum.split)

lemma push_all_caches [simp]:
  "ea_kiosk_cache (push_all lib now fresh i slug kid cid ns s) = ea_kiosk_cache s"
  "ea_iobox_cache (push_all lib now fresh i slug kid cid ns s) = ea_iobox_cache s"
  by (induction ns arbitrary: i s) simp_all

lemma callback_caches [simp]:
  "ea_kiosk_cache (snd (camera_callback_route lib ck now fresh q s)) = ea_kiosk_cache s"
  "ea_iobox_cache (snd (camera_callback_route lib ck now fresh q s)) = ea_iobox_cache s"
  by (simp_all add: camera_callback_route_def Let_def split: prod.split option.split)

lemma kiosk_event_cases:
  assumes "kiosk_dedup (event_key (show_num lib) (di_id k) b) now (ea_kiosk_cache s) = (dup, c)"
  shows "fst (kiosk_event_route lib now eid k b s) = EventDuplicate \<longleftrightarrow> dup"
    and "ea_kiosk_cache (snd (kiosk_event_route lib now eid k b s)) = c"
    and "ea_iobox_cache (snd (kiosk_event_route lib now eid k b s)) = ea_iobox_cache s"
proof -
  have "dup \<Longrightarrow> c = ea_kiosk_cache s"
    using assms kiosk_cache.duplicate_same [of "event_key (show_num lib) (di_id k) b" now "ea_kiosk_cache s"] by simp
  with assms show "fst (kiosk_event_route lib now eid k b s) = EventDuplicate \<longleftrightarrow> dup"
    "ea_kiosk_cache (snd (kiosk_event_route lib now eid k b s)) = c"
    "ea_iobox_cache (snd (kiosk_event_route lib now eid k b s)) = ea_iobox_cache s"
    by (cases dup; simp add: kiosk_event_route_def Let_def split: sum.split)+
qed

lemma io_dedup_same:
  assumes "io_dedup bid now b c = (True, c')"
  shows "c' = c"
proof (cases "io_event_key bid b")
  case (Some key)
  with assms have "iobox_dedup key now c = (True, c')" by (simp add: io_dedup_def)
  then show ?thesis using iobox_cache.duplicate_same [of key now c] by simp
qed (use assms in \<open>simp add: io_dedup_def\<close>)

lemma iobox_event_missing:
  assumes "find (\<lambda>x. iob_id x = di_id d) (ed_ioboxes (ea_db s)) = None"
  shows "iobox_event_route lib now eid answer d b s = (EventFailed 404, s)"
  using assms by (simp add: iobox_event_route_def)

lemma iobox_event_found:
  assumes "find (\<lambda>x. iob_id x = di_id d) (ed_ioboxes (ea_db s)) = Some box"
    and "io_dedup (di_id d) now b (ea_iobox_cache s) = (dup, c)"
  shows "fst (iobox_event_route lib now eid answer d b s) = EventDuplicate \<longleftrightarrow> dup"
    and "ea_iobox_cache (snd (iobox_event_route lib now eid answer d b s)) = c"
    and "ea_kiosk_cache (snd (iobox_event_route lib now eid answer d b s)) = ea_kiosk_cache s"
    and "fst (iobox_event_route lib now eid answer d b s) \<noteq> EventFailed 404"
proof -
  have bid: "iob_id box = di_id d" using assms(1) by (auto simp: find_Some_iff)
  have "dup \<Longrightarrow> c = ea_iobox_cache s" using io_dedup_same assms(2) by auto
  with assms bid show "fst (iobox_event_route lib now eid answer d b s) = EventDuplicate \<longleftrightarrow> dup"
    "ea_iobox_cache (snd (iobox_event_route lib now eid answer d b s)) = c"
    "ea_kiosk_cache (snd (iobox_event_route lib now eid answer d b s)) = ea_kiosk_cache s"
    "fst (iobox_event_route lib now eid answer d b s) \<noteq> EventFailed 404"
    by (cases dup; simp add: iobox_event_route_def Let_def split: sum.split prod.split)+
qed

text \<open>An operation without a call to a cache leaves both as they are.\<close>

lemma quiet_step:
  assumes "kiosk_call lib (e, r) = None" and "iobox_call (e, r) = None" and "event_step lib ck e s = (r, s1)"
  shows "ea_kiosk_cache s1 = ea_kiosk_cache s \<and> ea_iobox_cache s1 = ea_iobox_cache s"
proof (cases e)
  case (OpIoBox now eid answer d b)
  note step = assms(3) [unfolded OpIoBox, simplified]
  show ?thesis
  proof (cases "find (\<lambda>x. iob_id x = di_id d) (ed_ioboxes (ea_db s))")
    case None
    then show ?thesis using step iobox_event_missing [OF None] by auto
  next
    case (Some box)
    obtain dup c where dd: "io_dedup (di_id d) now b (ea_iobox_cache s) = (dup, c)" by force
    note found = iobox_event_found [OF Some dd, of lib eid answer]
    have "r = Some (fst (iobox_event_route lib now eid answer d b s))" and s1: "s1 = snd (iobox_event_route lib now eid answer d b s)"
      using step by (auto simp: apfst_def map_prod_def split: prod.splits)
    then have "io_event_key (di_id d) b = None" using assms(2) OpIoBox found(4) by simp
    then have "c = ea_iobox_cache s" using dd by (simp add: io_dedup_def)
    then show ?thesis using s1 found(2,3) by simp
  qed
next
  case (OpCallback now fresh q)
  then have "s1 = snd (camera_callback_route lib ck now fresh q s)"
    using assms(3) by (auto simp: apfst_def map_prod_def split: prod.splits)
  then show ?thesis by simp
qed (use assms in \<open>auto simp: on_db_def\<close>)

lemma calls_Nil [simp]: "kiosk_calls lib [] = []" "iobox_calls [] = []"
  by (simp_all add: kiosk_calls_def iobox_calls_def List.map_filter_def)

lemma kiosk_calls_Cons:
  "kiosk_calls lib (x # tr) = (case kiosk_call lib x of None \<Rightarrow> kiosk_calls lib tr | Some c \<Rightarrow> c # kiosk_calls lib tr)"
  by (simp add: kiosk_calls_def List.map_filter_simps split: option.split)

lemma iobox_calls_Cons:
  "iobox_calls (x # tr) = (case iobox_call x of None \<Rightarrow> iobox_calls tr | Some c \<Rightarrow> c # iobox_calls tr)"
  by (simp add: iobox_calls_def List.map_filter_simps split: option.split)

lemma event_run_Cons:
  assumes "event_run lib ck (e # es) s = (tr, s')"
  obtains r s1 tr1 where "event_step lib ck e s = (r, s1)" "event_run lib ck es s1 = (tr1, s')" "tr = (e, r) # tr1"
  using assms by (auto split: prod.splits)

text \<open>What one operation does to a cache, seen from the trace.\<close>

lemma kiosk_call_step:
  assumes "event_step lib ck e s = (r, s1)"
  shows "case kiosk_call lib (e, r) of
      None \<Rightarrow> ea_kiosk_cache s1 = ea_kiosk_cache s
    | Some ((key, now), dup) \<Rightarrow> (dup, ea_kiosk_cache s1) = kiosk_dedup key now (ea_kiosk_cache s)"
proof (cases e)
  case (OpKiosk now eid k b)
  obtain dup c where dd: "kiosk_dedup (event_key (show_num lib) (di_id k) b) now (ea_kiosk_cache s) = (dup, c)" by force
  show ?thesis
    using assms kiosk_event_cases [OF dd, of eid] dd
    by (auto simp: OpKiosk apfst_def map_prod_def split: prod.splits)
next
  case (OpIoBox now eid answer d b)
  show ?thesis
  proof (cases "iobox_call (e, r)")
    case None
    then show ?thesis using quiet_step [OF _ None assms] OpIoBox by simp
  next
    case (Some c)
    show ?thesis
    proof (cases "find (\<lambda>x. iob_id x = di_id d) (ed_ioboxes (ea_db s))")
      case None
      then show ?thesis using iobox_event_missing [OF None] assms OpIoBox by auto
    next
      case (Some box)
      obtain dup c where dd: "io_dedup (di_id d) now b (ea_iobox_cache s) = (dup, c)" by force
      show ?thesis
        using assms iobox_event_found(3) [OF Some dd, of lib eid answer] OpIoBox
        by (auto simp: apfst_def map_prod_def split: prod.splits)
    qed
  qed
qed (use quiet_step [OF _ _ assms] in auto)

lemma iobox_call_step:
  assumes "event_step lib ck e s = (r, s1)"
  shows "case iobox_call (e, r) of
      None \<Rightarrow> ea_iobox_cache s1 = ea_iobox_cache s
    | Some ((key, now), dup) \<Rightarrow> (dup, ea_iobox_cache s1) = iobox_dedup key now (ea_iobox_cache s)"
proof (cases "iobox_call (e, r)")
  case None
  show ?thesis
  proof (cases "kiosk_call lib (e, r)")
    case None
    then show ?thesis using quiet_step [OF None \<open>iobox_call (e, r) = None\<close> assms] \<open>iobox_call (e, r) = None\<close> by simp
  next
    case (Some c)
    then obtain now eid k b where e: "e = OpKiosk now eid k b" by (cases e) auto
    obtain dup c where dd: "kiosk_dedup (event_key (show_num lib) (di_id k) b) now (ea_kiosk_cache s) = (dup, c)" by force
    show ?thesis
      using assms kiosk_event_cases(3) [OF dd, of eid] e by (auto simp: apfst_def map_prod_def split: prod.splits)
  qed
next
  case (Some c)
  then obtain now eid answer d b key where e: "e = OpIoBox now eid answer d b"
    and key: "io_event_key (di_id d) b = Some key" and r: "r \<noteq> Some (EventFailed 404)"
    and c: "c = ((key, now), r = Some EventDuplicate)"
    by (cases e) (auto split: if_splits)
  have r': "r = Some (fst (iobox_event_route lib now eid answer d b s))" and s1: "s1 = snd (iobox_event_route lib now eid answer d b s)"
    using assms e by (auto simp: apfst_def map_prod_def split: prod.splits)
  obtain box where box: "find (\<lambda>x. iob_id x = di_id d) (ed_ioboxes (ea_db s)) = Some box"
    using r r' iobox_event_missing [of d s lib now eid answer b] by (cases "find (\<lambda>x. iob_id x = di_id d) (ed_ioboxes (ea_db s))") auto
  obtain dup c' where dd: "io_dedup (di_id d) now b (ea_iobox_cache s) = (dup, c')" by force
  have "iobox_dedup key now (ea_iobox_cache s) = (dup, c')" using dd key by (simp add: io_dedup_def)
  then show ?thesis
    using iobox_event_found(1,2) [OF box dd, of lib eid answer] Some c r' s1 by simp
qed

lemma clock_ok_Cons: "clock_ok ((k, t) # cs) \<longleftrightarrow> 0 < t \<and> list_all (\<lambda>c. t \<le> snd c) cs \<and> clock_ok cs"
  by (auto simp: clock_ok_def list_all_iff)

lemma kiosk_run:
  assumes "event_run lib ck ops s = (tr, s')" and "kiosk_cache.agree now0 (ea_kiosk_cache s) m"
    and "clock_ok (map fst (kiosk_calls lib tr))" and "list_all (\<lambda>c. now0 \<le> snd c) (map fst (kiosk_calls lib tr))"
  shows "map snd (kiosk_calls lib tr) = thin 2000 (map fst (kiosk_calls lib tr)) m"
  using assms
proof (induction ops arbitrary: s tr now0 m)
  case (Cons e es)
  obtain r s1 tr1 where run: "event_step lib ck e s = (r, s1)" "event_run lib ck es s1 = (tr1, s')" "tr = (e, r) # tr1"
    using event_run_Cons [OF Cons.prems(1)] by blast
  show ?case
  proof (cases "kiosk_call lib (e, r)")
    case None
    then show ?thesis
      using kiosk_call_step [OF run(1)] Cons.prems Cons.IH [OF run(2)] run(3) by (simp add: kiosk_calls_Cons)
  next
    case (Some c)
    obtain key now dup where c: "c = ((key, now), dup)" by (metis prod.collapse)
    have dd: "kiosk_dedup key now (ea_kiosk_cache s) = (dup, ea_kiosk_cache s1)"
      using kiosk_call_step [OF run(1)] Some c by simp
    have calls: "kiosk_calls lib tr = ((key, now), dup) # kiosk_calls lib tr1"
      using Some c run(3) by (simp add: kiosk_calls_Cons)
    have now: "now0 \<le> now" "0 < now" "list_all (\<lambda>c. now \<le> snd c) (map fst (kiosk_calls lib tr1))"
      "clock_ok (map fst (kiosk_calls lib tr1))"
      using Cons.prems(3,4) by (auto simp: calls clock_ok_Cons)
    have ag: "kiosk_cache.agree now (ea_kiosk_cache s) m"
      using Cons.prems(2) now(1) by (rule kiosk_cache.agree_later)
    have ag': "kiosk_cache.agree now (ea_kiosk_cache s1) (kiosk_cache.memory_after key now m)"
      using kiosk_cache.agree_step [OF ag now(2), of key] dd by simp
    show ?thesis
      using Cons.IH [OF run(2) ag' now(4,3)] kiosk_cache.thin_Cons [OF ag, of key] dd by (simp add: calls)
  qed
qed simp

lemma iobox_run:
  assumes "event_run lib ck ops s = (tr, s')" and "iobox_cache.agree now0 (ea_iobox_cache s) m"
    and "clock_ok (map fst (iobox_calls tr))" and "list_all (\<lambda>c. now0 \<le> snd c) (map fst (iobox_calls tr))"
  shows "map snd (iobox_calls tr) = thin 60000 (map fst (iobox_calls tr)) m"
  using assms
proof (induction ops arbitrary: s tr now0 m)
  case (Cons e es)
  obtain r s1 tr1 where run: "event_step lib ck e s = (r, s1)" "event_run lib ck es s1 = (tr1, s')" "tr = (e, r) # tr1"
    using event_run_Cons [OF Cons.prems(1)] by blast
  show ?case
  proof (cases "iobox_call (e, r)")
    case None
    then show ?thesis
      using iobox_call_step [OF run(1)] Cons.prems Cons.IH [OF run(2)] run(3) by (simp add: iobox_calls_Cons)
  next
    case (Some c)
    obtain key now dup where c: "c = ((key, now), dup)" by (metis prod.collapse)
    have dd: "iobox_dedup key now (ea_iobox_cache s) = (dup, ea_iobox_cache s1)"
      using iobox_call_step [OF run(1)] Some c by simp
    have calls: "iobox_calls tr = ((key, now), dup) # iobox_calls tr1"
      using Some c run(3) by (simp add: iobox_calls_Cons)
    have now: "now0 \<le> now" "0 < now" "list_all (\<lambda>c. now \<le> snd c) (map fst (iobox_calls tr1))"
      "clock_ok (map fst (iobox_calls tr1))"
      using Cons.prems(3,4) by (auto simp: calls clock_ok_Cons)
    have ag: "iobox_cache.agree now (ea_iobox_cache s) m"
      using Cons.prems(2) now(1) by (rule iobox_cache.agree_later)
    have ag': "iobox_cache.agree now (ea_iobox_cache s1) (iobox_cache.memory_after key now m)"
      using iobox_cache.agree_step [OF ag now(2), of key] dd by simp
    show ?thesis
      using Cons.IH [OF run(2) ag' now(4,3)] iobox_cache.thin_Cons [OF ag, of key] dd by (simp add: calls)
  qed
qed simp

text \<open>
  (C17) From empty caches and with clocks that never run back, the event routes answer exactly
  those events as duplicates that a memory of unlimited size would: those that come less than
  two seconds (kiosks) or a minute (ioBOXes) after the last event of the same key that was let
  through.  Forgetting keys when a cache is full never changes an answer.
\<close>

theorem event_dedup_exact:
  assumes "event_run lib ck ops s = (tr, s')" and "ea_kiosk_cache s = []" and "ea_iobox_cache s = []"
    and "clock_ok (map fst (kiosk_calls lib tr))" and "clock_ok (map fst (iobox_calls tr))"
  shows "map snd (kiosk_calls lib tr) = thin 2000 (map fst (kiosk_calls lib tr)) Map.empty
       \<and> map snd (iobox_calls tr) = thin 60000 (map fst (iobox_calls tr)) Map.empty"
proof
  have pos: "clock_ok cs \<Longrightarrow> list_all (\<lambda>c. 0 \<le> snd c) cs" for cs
    by (auto simp: clock_ok_def list_all_iff)
  show "map snd (kiosk_calls lib tr) = thin 2000 (map fst (kiosk_calls lib tr)) Map.empty"
    using kiosk_run [OF assms(1), of 0 Map.empty] assms(2,4) pos kiosk_cache.agree_empty by simp
  show "map snd (iobox_calls tr) = thin 60000 (map fst (iobox_calls tr)) Map.empty"
    using iobox_run [OF assms(1), of 0 Map.empty] assms(3,5) pos iobox_cache.agree_empty by simp
qed


section \<open>The log and the layouts of displays\<close>

text \<open>What an event row says about a display, and the layout a sequence of rows leaves.\<close>

definition layout_report :: "(number \<Rightarrow> string) \<Rightarrow> string \<Rightarrow> event_log \<Rightarrow> string option" where
  "layout_report num did e =
     (if ev_ingress_path e = Some ''/api/kiosk/event'' \<and> ev_topic e = ''layout.changed''
         \<and> did \<noteq> [] \<and> payload_text num (ev_payload e) ''display_id'' = did
         \<and> payload_text num (ev_payload e) ''layout_id'' \<noteq> []
      then Some (payload_text num (ev_payload e) ''layout_id'') else None)"

definition replay :: "(number \<Rightarrow> string) \<Rightarrow> string \<Rightarrow> event_log list \<Rightarrow> string option \<Rightarrow> string option" where
  "replay num did es init = fold (\<lambda>e acc. or_option (layout_report num did e) acc) es init"

definition active_layout :: "event_db \<Rightarrow> string \<Rightarrow> string option option" where
  "active_layout db did = map_option d_active_layout_id (find (\<lambda>d. d_id d = did) (ed_displays db))"

text \<open>A row apart from the flag that says whether it was forwarded.\<close>

definition said :: "event_log \<Rightarrow> event_log" where
  "said e = e\<lparr>ev_forwarded_to_nodered := False\<rparr>"

definition extends :: "(number \<Rightarrow> string) \<Rightarrow> event_db \<Rightarrow> event_db \<Rightarrow> event_log list \<Rightarrow> bool" where
  "extends num db db1 rows \<longleftrightarrow> map said (ed_log db1) = map said (ed_log db @ rows)
     \<and> (\<forall>did. active_layout db1 did = map_option (replay num did rows) (active_layout db did))"

lemma layout_report_said [simp]: "layout_report num did (said e) = layout_report num did e"
  by (simp add: layout_report_def said_def)

lemma replay_said: "replay num did (map said es) = replay num did es"
  by (rule ext, simp add: replay_def fold_map comp_def)

lemma replay_append: "replay num did (es @ fs) = replay num did fs \<circ> replay num did es"
  by (rule ext, simp add: replay_def)

lemma extends_refl:
  "map said (ed_log db1) = map said (ed_log db) \<Longrightarrow> ed_displays db1 = ed_displays db \<Longrightarrow> extends num db db1 []"
  by (simp add: extends_def active_layout_def replay_def option.map_comp comp_def option.map_ident)

lemma extends_same: "\<exists>rows. extends num db db rows"
  by (rule exI, rule extends_refl) (rule refl)+

lemma extends_trans:
  "extends num db db1 rows \<Longrightarrow> extends num db1 db2 rows' \<Longrightarrow> extends num db db2 (rows @ rows')"
  by (simp add: extends_def replay_append option.map_comp)

lemma find_map_display:
  assumes "\<And>d. d_id (f d) = d_id d"
  shows "find (\<lambda>d. d_id d = x) (map (\<lambda>d. if d_id d = did then f d else d) ds)
       = (if x = did then map_option f (find (\<lambda>d. d_id d = x) ds) else find (\<lambda>d. d_id d = x) ds)"
  using assms by (induction ds) auto

lemma active_set_layout:
  "active_layout (set_active_layout did lid db) x
     = (if x = did then map_option (\<lambda>_. Some lid) (active_layout db x) else active_layout db x)"
  by (simp add: active_layout_def set_active_layout_def find_map_display option.map_comp comp_def)

lemma insertEvent_Inr:
  assumes "insertEvent eid now i db = Inr db1"
  obtains st where "source_type_of (ne_source_type i) = Some st" "row_refs i db"
    "\<not> list_ex (\<lambda>e. ev_id e = eid) (ed_log db)" "db1 = db\<lparr>ed_log := ed_log db @ [event_row eid now st i]\<rparr>"
  using assms by (auto simp: insertEvent_def split: option.splits if_splits)

lemma store_kiosk_event_Inr:
  assumes "store_kiosk_event eid now kid b db = Inr db1"
  obtains st cid where "source_type_of (eb_source_type b) = Some st"
    "db1 = db\<lparr>ed_log := ed_log db @ [event_row eid now st (kiosk_new_event kid cid b)]\<rparr>"
    "cid = eb_camera_id b \<or> cid = None"
proof (cases "insertEvent eid now (kiosk_new_event kid (eb_camera_id b) b) db")
  case (Inl e)
  then have "insertEvent eid now (kiosk_new_event kid None b) db = Inr db1"
    using assms by (cases e) (simp_all add: store_kiosk_event_def)
  then show thesis by (elim insertEvent_Inr) (rule that [of _ None], simp_all add: kiosk_new_event_def)
next
  case (Inr db2)
  then have "insertEvent eid now (kiosk_new_event kid (eb_camera_id b) b) db = Inr db1"
    using assms by (simp add: store_kiosk_event_def)
  then show thesis by (elim insertEvent_Inr) (rule that [of _ "eb_camera_id b"], simp_all add: kiosk_new_event_def)
qed

lemma body_payload_present [simp]: "json_or (body_payload b) JNull = body_payload b"
  by (simp add: body_payload_def json_or_def)

lemma map_subs_same [simp]: "ed_log (map_subs P f db) = ed_log db" "ed_displays (map_subs P f db) = ed_displays db"
  by (simp_all add: map_subs_def)

lemma note_camera_same [simp]:
  "ed_log (note_camera now b db) = ed_log db" "ed_displays (note_camera now b db) = ed_displays db"
  by (simp_all add: note_camera_def markEventReceived_def split: option.split)

lemma note_layout_log [simp]: "ed_log (note_layout num b db) = ed_log db"
  by (simp add: note_layout_def set_active_layout_def Let_def)

lemma note_layout_active:
  "active_layout (note_layout num b db) did
     = map_option (replay num did [event_row eid now st (kiosk_new_event kid cid b)]) (active_layout db did)"
  by (auto simp: note_layout_def Let_def active_set_layout replay_def layout_report_def event_row_def
      kiosk_new_event_def or_option_def option.map_ident cong: map_option_cong)


lemma extends_store:
  assumes "ed_log db1 = ed_log db @ [row]" and "ed_displays db1 = ed_displays db" and "\<And>did. layout_report num did row = None"
  shows "extends num db db1 [row]"
  using assms by (simp add: extends_def active_layout_def replay_def or_option_def option.map_comp comp_def)

lemma kiosk_event_extends: "\<exists>rows. extends (show_num lib) (ea_db s) (ea_db (snd (kiosk_event_route lib now eid k b s))) rows"
proof -
  obtain dup c where dd: "kiosk_dedup (event_key (show_num lib) (di_id k) b) now (ea_kiosk_cache s) = (dup, c)" by force
  show ?thesis
  proof (cases dup)
    case True
    then show ?thesis using dd by (auto simp: extends_same kiosk_event_route_def)
  next
    case False
    show ?thesis
    proof (cases "store_kiosk_event eid now (di_id k) b (ea_db s)")
      case (Inl e)
      then show ?thesis using dd False by (auto simp: extends_same kiosk_event_route_def Let_def)
    next
      case (Inr db1)
      then obtain st cid where db1: "db1 = (ea_db s)\<lparr>ed_log := ed_log (ea_db s) @ [event_row eid now st (kiosk_new_event (di_id k) cid b)]\<rparr>"
        by (elim store_kiosk_event_Inr)
      have "ea_db (snd (kiosk_event_route lib now eid k b s)) = note_camera now b (note_layout (show_num lib) b db1)"
        using dd False Inr by (simp add: kiosk_event_route_def Let_def)
      moreover have "extends (show_num lib) (ea_db s) (note_camera now b (note_layout (show_num lib) b db1))
                       [event_row eid now st (kiosk_new_event (di_id k) cid b)]"
        using note_layout_active [of "show_num lib" b db1 _ eid now st "di_id k" cid]
        by (simp add: extends_def db1 active_layout_def)
      ultimately show ?thesis by auto
    qed
  qed
qed

lemma insertEvent_extends:
  assumes "insertEvent eid now i db = Inr db1" and "ne_ingress_path i \<noteq> Some ''/api/kiosk/event''"
    and "ed_log db2 = ed_log db1" and "ed_displays db2 = ed_displays db1"
  shows "\<exists>rows. extends num db db2 rows"
proof -
  obtain st where "db1 = db\<lparr>ed_log := ed_log db @ [event_row eid now st i]\<rparr>" using assms(1) by (rule insertEvent_Inr)
  then have "extends num db db2 [event_row eid now st i]"
    using assms(2-4) by (intro extends_store) (simp_all add: layout_report_def event_row_def)
  then show ?thesis by blast
qed

lemma iobox_event_extends: "\<exists>rows. extends num (ea_db s) (ea_db (snd (iobox_event_route lib now eid answer d b s))) rows"
proof (cases "find (\<lambda>x. iob_id x = di_id d) (ed_ioboxes (ea_db s))")
  case None
  then show ?thesis by (auto simp: extends_same iobox_event_missing)
next
  case (Some box)
  obtain dup c where dd: "io_dedup (iob_id box) now b (ea_iobox_cache s) = (dup, c)" by force
  show ?thesis
  proof (cases "dup \<or> (\<exists>e. insertEvent eid now (io_new_event box b) (ea_db s) = Inl e)")
    case True
    then show ?thesis using Some dd by (auto simp: extends_same iobox_event_route_def Let_def)
  next
    case False
    then obtain db1 where ins: "insertEvent eid now (io_new_event box b) (ea_db s) = Inr db1"
      by (cases "insertEvent eid now (io_new_event box b) (ea_db s)") auto
    obtain sent r where pr: "io_proxy lib answer box b db1 = (sent, r)" by force
    have "ea_db (snd (iobox_event_route lib now eid answer d b s)) = db1"
      using Some dd False ins pr by (simp add: iobox_event_route_def Let_def)
    then show ?thesis using insertEvent_extends [OF ins] by (simp add: io_new_event_def)
  qed
qed

lemma push_one_extends: "\<exists>rows. extends num (ea_db s) (ea_db (push_one lib now eid slug kid cid n s)) rows"
proof (cases "insertEvent eid now (callback_new_event kid cid n) (ea_db s)")
  case (Inl e)
  then show ?thesis by (auto simp: extends_same push_one_def)
next
  case (Inr db1)
  have "ea_db (push_one lib now eid slug kid cid n s)
      = (if nt_topic n \<noteq> [] then markEventReceived now cid (nt_topic n) db1 else db1)"
    using Inr by (simp add: push_one_def Let_def)
  then show ?thesis
    using insertEvent_extends [OF Inr] by (simp add: callback_new_event_def markEventReceived_def)
qed

lemma push_all_extends: "\<exists>rows. extends num (ea_db s) (ea_db (push_all lib now fresh i slug kid cid ns s)) rows"
proof (induction ns arbitrary: i s)
  case (Cons n ns)
  show ?case using push_one_extends [of num s] Cons extends_trans by (simp, metis)
qed (use extends_same in simp)

lemma callback_extends:
  "\<exists>rows. extends num (ea_db s) (ea_db (snd (camera_callback_route lib ck now fresh q s))) rows"
proof -
  obtain ok g where g: "rl_take (''oce:'' @ nullish (cq_ip q) ''unknown'') now (ea_guard s) = (ok, g)" by force
  have "ea_db (snd (camera_callback_route lib ck now fresh q s)) = ea_db s
      \<or> (\<exists>kid. snd (camera_callback_route lib ck now fresh q s)
             = push_all lib now fresh 0 (cq_slug q) kid (cq_camera_id q) (cq_notifications q) (s\<lparr>ea_guard := g\<rparr>))"
    using g by (auto simp: camera_callback_route_def Let_def)
  then show ?thesis
    using push_all_extends [of num "s\<lparr>ea_guard := g\<rparr>"] by (elim disjE exE) (simp_all add: extends_same)
qed

lemma syncSubscription_same:
  "syncSubscription now sid kid cid info db = Inr db1 \<Longrightarrow> ed_log db1 = ed_log db \<and> ed_displays db1 = ed_displays db"
  by (auto simp: syncSubscription_def split: if_splits)

lemma syncKioskSubscriptions_same:
  "ed_log (syncKioskSubscriptions now fresh n kid subs db) = ed_log db
   \<and> ed_displays (syncKioskSubscriptions now fresh n kid subs db) = ed_displays db"
proof (induction subs arbitrary: n db)
  case (Cons x subs)
  show ?case
    using Cons.IH by (cases x) (auto split: sum.split dest!: syncSubscription_same)
qed simp

lemma upsertEventSubscription_refused [simp]: "upsertEventSubscription cid topic st db = Inl EventRefused"
  by (simp add: upsertEventSubscription_def upsert_subscription_def)

lemma discover_topics_nothing [simp]: "discover_topics cid topics db = db"
  by (cases topics) simp_all

lemma event_step_extends:
  assumes "event_step lib ck e s = (r, s1)"
  shows "\<exists>rows. extends (show_num lib) (ea_db s) (ea_db s1) rows"
proof (cases e)
  case (OpKiosk now eid k b)
  then show ?thesis using assms kiosk_event_extends [of lib s now eid k b] by (auto simp: apfst_def map_prod_def split: prod.splits)
next
  case (OpIoBox now eid answer d b)
  then show ?thesis
    using assms iobox_event_extends [of "show_num lib" s lib now eid answer d b] by (auto simp: apfst_def map_prod_def split: prod.splits)
next
  case (OpCallback now fresh q)
  then show ?thesis
    using assms callback_extends [of "show_num lib" s lib ck now fresh q] by (auto simp: apfst_def map_prod_def split: prod.splits)
next
  case (OpForwarded eid)
  then have "extends (show_num lib) (ea_db s) (ea_db s1) []"
    using assms by (intro extends_refl) (auto simp: on_db_def markEventForwarded_def said_def)
  then show ?thesis by blast
next
  case (OpReport now fresh kid subs)
  then have "extends (show_num lib) (ea_db s) (ea_db s1) []"
    using assms syncKioskSubscriptions_same [of now fresh 0 kid subs "ea_db s"] by (intro extends_refl) (auto simp: on_db_def)
  then show ?thesis by blast
next
  case (OpDiscovered cid topics)
  then have "extends (show_num lib) (ea_db s) (ea_db s1) []" using assms by (intro extends_refl) (auto simp: on_db_def)
  then show ?thesis by blast
next
  case (OpSubscribe cid)
  then have "extends (show_num lib) (ea_db s) (ea_db s1) []"
    using assms by (intro extends_refl) (auto simp: on_db_def setAllEventSubscriptionsStatus_def)
  then show ?thesis by blast
next
  case (OpRelease now h)
  then have "extends (show_num lib) (ea_db s) (ea_db s1) []"
    using assms by (intro extends_refl) (auto simp: on_db_def releaseStaleSubscriptions_def)
  then show ?thesis by blast
next
  case (OpMap now m)
  then have "extends (show_num lib) (ea_db s) (ea_db s1) []"
    using assms by (intro extends_refl) (auto simp: on_db_def createIoBoxMapping_def)
  then show ?thesis by blast
next
  case (OpUnmap mid)
  then have "extends (show_num lib) (ea_db s) (ea_db s1) []"
    using assms by (intro extends_refl) (auto simp: on_db_def deleteIoBoxMapping_def)
  then show ?thesis by blast
qed

lemma event_run_extends:
  "event_run lib ck ops s = (tr, s') \<Longrightarrow> \<exists>rows. extends (show_num lib) (ea_db s) (ea_db s') rows"
proof (induction ops arbitrary: s tr)
  case (Cons e es)
  obtain r s1 tr1 where run: "event_step lib ck e s = (r, s1)" "event_run lib ck es s1 = (tr1, s')"
    by (rule event_run_Cons [OF Cons.prems])
  obtain rows1 where one: "extends (show_num lib) (ea_db s) (ea_db s1) rows1"
    using event_step_extends [OF run(1)] by (rule exE)
  obtain rows2 where "extends (show_num lib) (ea_db s1) (ea_db s') rows2"
    using Cons.IH [OF run(2)] by (rule exE)
  then show ?case using extends_trans [OF one] by (intro exI)
qed (use extends_same in simp)



section \<open>Commands that inputs cause\<close>

lemma request_all_sent:
  "fst (request_all answer kid n ms) = take (length (fst (request_all answer kid n ms))) (map (Pair kid) ms)"
proof (induction ms arbitrary: n)
  case (Cons m ms)
  show ?case using Cons.IH [of "Suc n"] by (auto split: sum.split prod.split)
qed simp

lemma proxy_sent:
  assumes "proxyIoBoxEventToKiosk num answer bid did ev db = (sent, r)" and "sent \<noteq> []"
  shows "\<exists>d kid. find (\<lambda>d. d_id d = did) (ed_displays db) = Some d \<and> d_kiosk_id d = Some kid
    \<and> sent = take (length sent) (map (\<lambda>m. (kid, control_message bid did ev m)) (matching_mappings num bid did ev db))"
proof -
  obtain d where d: "find (\<lambda>d. d_id d = did) (ed_displays db) = Some d" "truthy_str (d_kiosk_id d)"
    using assms by (auto simp: proxyIoBoxEventToKiosk_def split: option.splits if_splits)
  then obtain kid where kid: "d_kiosk_id d = Some kid" by (auto simp: truthy_str_iff)
  let ?ms = "matching_mappings num bid did ev db"
  have "sent = fst (request_all answer kid 0 (map (control_message bid did ev) ?ms))"
    using assms d kid by (auto simp: proxyIoBoxEventToKiosk_def split: list.splits prod.splits sum.splits)
  then have "sent = take (length sent) (map (\<lambda>m. (kid, control_message bid did ev m)) ?ms)"
    using request_all_sent [of answer kid 0 "map (control_message bid did ev) ?ms"] by (simp add: comp_def)
  then show ?thesis using d(1) kid by blast
qed

lemma matching_mappings_mem:
  "m \<in> set (matching_mappings num bid did ev db) \<longleftrightarrow>
     m \<in> set (ed_mappings db) \<and> im_enabled m \<and> (im_display_id m = Some did \<or> im_display_id m = None)
     \<and> (im_iobox_id m = None \<or> im_iobox_id m = Some bid) \<and> mappingMatches num m ev"
  by (auto simp: matching_mappings_def listIoBoxMappingsForDisplay_def)

lemma insertEvent_same:
  "insertEvent eid now i db = Inr db1 \<Longrightarrow> ed_displays db1 = ed_displays db \<and> ed_mappings db1 = ed_mappings db"
  by (auto elim!: insertEvent_Inr)

lemma matching_mappings_cong:
  "ed_mappings db1 = ed_mappings db \<Longrightarrow> matching_mappings num bid did ev db1 = matching_mappings num bid did ev db"
  by (simp add: matching_mappings_def listIoBoxMappingsForDisplay_def)

lemma iobox_event_commands:
  assumes "iobox_event_route lib now eid answer d b s = (r, s')"
  shows "ea_commands s' = ea_commands s \<or>
    (\<exists>box db1 sent v. find (\<lambda>x. iob_id x = di_id d) (ed_ioboxes (ea_db s)) = Some box
       \<and> insertEvent eid now (io_new_event box b) (ea_db s) = Inr db1
       \<and> io_proxy lib answer box b db1 = (sent, v) \<and> r = EventStored eid v
       \<and> ea_commands s' = ea_commands s @ sent)"
proof (cases "find (\<lambda>x. iob_id x = di_id d) (ed_ioboxes (ea_db s))")
  case None
  then show ?thesis using assms by (simp add: iobox_event_missing)
next
  case (Some box)
  obtain dup c where dd: "io_dedup (iob_id box) now b (ea_iobox_cache s) = (dup, c)" by force
  show ?thesis
  proof (cases "dup \<or> (\<exists>e. insertEvent eid now (io_new_event box b) (ea_db s) = Inl e)")
    case True
    then show ?thesis using Some dd assms by (auto simp: iobox_event_route_def Let_def split: if_splits)
  next
    case False
    then obtain db1 where ins: "insertEvent eid now (io_new_event box b) (ea_db s) = Inr db1"
      by (cases "insertEvent eid now (io_new_event box b) (ea_db s)") auto
    obtain sent v where pr: "io_proxy lib answer box b db1 = (sent, v)" by force
    have "r = EventStored eid v" "ea_commands s' = ea_commands s @ sent"
      using Some dd False ins pr assms by (auto simp: iobox_event_route_def Let_def post_def publishEvent_def set_db_def)
    then show ?thesis using Some ins pr by blast
  qed
qed



section \<open>Subscription rows\<close>

text \<open>Every row is the row of a camera's event stream, one for each camera.\<close>

definition stream_rows :: "event_db \<Rightarrow> bool" where
  "stream_rows db \<longleftrightarrow> distinct (map sr_camera_id (ed_subs db)) \<and> list_all (\<lambda>s. sr_topic s = ''onvif'') (ed_subs db)"

lemma stream_rows_topics:
  "stream_rows db \<longleftrightarrow> distinct (map sr_camera_id (ed_subs db)) \<and> list_all (\<lambda>t. t = ''onvif'') (map sr_topic (ed_subs db))"
  by (simp add: stream_rows_def list.pred_map comp_def)

lemma map_subs_rows:
  assumes "\<And>s. sr_camera_id (f s) = sr_camera_id s" and "\<And>s. sr_topic (f s) = sr_topic s"
  shows "stream_rows (map_subs P f db) = stream_rows db"
proof -
  have "map sr_camera_id (ed_subs (map_subs P f db)) = map sr_camera_id (ed_subs db)"
    using assms(1) by (simp add: map_subs_def)
  moreover have "map sr_topic (ed_subs (map_subs P f db)) = map sr_topic (ed_subs db)"
    using assms(2) by (simp add: map_subs_def)
  ultimately show ?thesis unfolding stream_rows_topics by (simp only:)
qed

lemma stream_rows_cong: "ed_subs db1 = ed_subs db \<Longrightarrow> stream_rows db1 = stream_rows db"
  by (simp add: stream_rows_def)

lemma markEventReceived_rows [simp]: "stream_rows (markEventReceived now cid topic db) = stream_rows db"
  unfolding markEventReceived_def by (rule map_subs_rows) simp_all

lemma insertEvent_rows: "insertEvent eid now i db = Inr db1 \<Longrightarrow> stream_rows db1 = stream_rows db"
  by (rule stream_rows_cong) (auto elim!: insertEvent_Inr)

lemma note_rows [simp]:
  "stream_rows (note_layout num b db) = stream_rows db" "stream_rows (note_camera now b db) = stream_rows db"
  by (auto simp: note_layout_def Let_def set_active_layout_def note_camera_def intro!: stream_rows_cong split: option.split)

lemma kiosk_event_rows [simp]: "stream_rows (ea_db (snd (kiosk_event_route lib now eid k b s))) = stream_rows (ea_db s)"
proof (cases "store_kiosk_event eid now (di_id k) b (ea_db s)")
  case (Inr db1)
  then have "stream_rows db1 = stream_rows (ea_db s)" by (elim store_kiosk_event_Inr) (simp add: stream_rows_def)
  then show ?thesis using Inr by (simp add: kiosk_event_route_def Let_def split: prod.split)
qed (simp add: kiosk_event_route_def Let_def split: prod.split)

lemma iobox_event_rows [simp]: "stream_rows (ea_db (snd (iobox_event_route lib now eid answer d b s))) = stream_rows (ea_db s)"
  by (auto simp: iobox_event_route_def Let_def insertEvent_rows split: option.split prod.split sum.split)

lemma push_one_rows [simp]: "stream_rows (ea_db (push_one lib now eid slug kid cid n s)) = stream_rows (ea_db s)"
  by (simp add: push_one_def Let_def insertEvent_rows split: sum.split)

lemma push_all_rows [simp]: "stream_rows (ea_db (push_all lib now fresh i slug kid cid ns s)) = stream_rows (ea_db s)"
  by (induction ns arbitrary: i s) simp_all

lemma callback_rows [simp]: "stream_rows (ea_db (snd (camera_callback_route lib ck now fresh q s))) = stream_rows (ea_db s)"
  by (simp add: camera_callback_route_def Let_def split: prod.split)

lemma syncSubscription_rows:
  assumes "syncSubscription now sid kid cid info db = Inr db1" and "stream_rows db"
  shows "stream_rows db1"
proof (cases "list_ex (sub_for cid ''onvif'') (ed_subs db)")
  case True
  then have "db1 = map_subs (sub_for cid ''onvif'') (refresh_row now kid info) db"
    using assms(1) by (simp add: syncSubscription_def)
  then show ?thesis using assms(2) map_subs_rows [of "refresh_row now kid info"] by (simp add: refresh_row_def)
next
  case False
  then have "db1 = db\<lparr>ed_subs := ed_subs db @ [reported_row now sid kid cid info]\<rparr>"
    using assms(1) by (auto simp: syncSubscription_def split: if_splits)
  moreover have "cid \<notin> sr_camera_id ` set (ed_subs db)"
    using False assms(2) by (auto simp: list_ex_iff sub_for_def stream_rows_def list_all_iff)
  ultimately show ?thesis using assms(2) by (simp add: stream_rows_def reported_row_def)
qed

lemma syncKioskSubscriptions_rows:
  "stream_rows db \<Longrightarrow> stream_rows (syncKioskSubscriptions now fresh n kid subs db)"
proof (induction subs arbitrary: n db)
  case (Cons x subs)
  then show ?case by (cases x) (auto split: sum.split dest: syncSubscription_rows)
qed simp

lemma maintenance_rows [simp]:
  "stream_rows (setAllEventSubscriptionsStatus cid old new db) = stream_rows db"
  "stream_rows (releaseStaleSubscriptions now h db) = stream_rows db"
  "stream_rows (markEventForwarded eid db) = stream_rows db"
  "stream_rows (createIoBoxMapping now m db) = stream_rows db"
  "stream_rows (deleteIoBoxMapping mid db) = stream_rows db"
  unfolding setAllEventSubscriptionsStatus_def releaseStaleSubscriptions_def
    markEventForwarded_def createIoBoxMapping_def deleteIoBoxMapping_def
  by (rule map_subs_rows, simp_all)+ (simp_all add: stream_rows_def)

lemma event_step_rows:
  "stream_rows (ea_db s) \<Longrightarrow> stream_rows (ea_db (snd (event_step lib ck e s)))"
  by (cases e) (simp_all add: on_db_def syncKioskSubscriptions_rows)

interpretation rows: guarded_system "\<lambda>e s. snd (event_step lib ck e s)" "\<lambda>_ _. True" "\<lambda>s. stream_rows (ea_db s)"
  for lib and ck :: "string \<Rightarrow> 'k::linorder"
  by unfold_locales (rule event_step_rows)

lemma event_run_fold: "snd (event_run lib ck ops s) = fold (\<lambda>e s. snd (event_step lib ck e s)) ops s"
  by (induction ops arbitrary: s) (simp_all add: case_prod_unfold)

lemma mark_other_topic:
  assumes "stream_rows db" and "topic \<noteq> ''onvif''"
  shows "markEventReceived now cid topic db = db"
proof -
  let ?f = "\<lambda>s. s\<lparr>sr_last_event_at := Some now, sr_status := SubActive\<rparr>"
  have "map (\<lambda>s. if sub_for cid topic s then ?f s else s) (ed_subs db) = ed_subs db"
    using assms by (intro map_idI) (auto simp: stream_rows_def list_all_iff sub_for_def)
  then show ?thesis by (simp add: markEventReceived_def map_subs_def)
qed

text \<open>
  The topic of an event is that of the camera, never the name of the stream: no event marks a
  subscription, and topics that discovery finds never get a row.
\<close>

lemma received_topic_unmatched:
  assumes "stream_rows (ea_db s)" and "topic \<noteq> ''onvif''"
  shows "let s' = snd (event_run lib ck ops s) in
    stream_rows (ea_db s') \<and> markEventReceived now cid topic (ea_db s') = ea_db s'"
proof -
  let ?s' = "snd (event_run lib ck ops s)"
  have "guarded_system.guarded (\<lambda>e s. snd (event_step lib ck e s)) (\<lambda>_ _. True) ops s" for s
    by (induction ops arbitrary: s) simp_all
  then have "stream_rows (ea_db ?s')"
    using rows.run_keeps [OF assms(1), where lib = lib and ck = ck and es = ops] by (simp add: event_run_fold)
  moreover from this have "markEventReceived now cid topic (ea_db ?s') = ea_db ?s'"
    using assms(2) by (rule mark_other_topic)
  ultimately show ?thesis by (simp add: Let_def)
qed

section \<open>Events that are lost\<close>

text \<open>The key of an event without a source says nothing about its display or layout.\<close>

lemma layout_change_dropped:
  assumes "fst (kiosk_event_route lib t eid k b s) \<noteq> EventDuplicate" and "snd (kiosk_event_route lib t eid k b s) = s1"
    and "wf_map (ea_kiosk_cache s)" and "t \<le> t'" and "t' < t + 2000"
    and "eb_topic b' = eb_topic b" and "eb_camera_id b' = eb_camera_id b"
    and "json_get (body_payload b) ''source'' = JUndefined" and "json_get (body_payload b') ''source'' = JUndefined"
  shows "kiosk_event_route lib t' eid' k b' s1 = (EventDuplicate, s1)"
proof -
  let ?key = "event_key (show_num lib) (di_id k) b"
  obtain dup c where dd: "kiosk_dedup ?key t (ea_kiosk_cache s) = (dup, c)" by force
  have "\<not> dup" and c: "ea_kiosk_cache s1 = c" using kiosk_event_cases [OF dd, of eid] assms(1,2) by auto
  then have "map_of (ea_kiosk_cache s1) ?key = Some t"
    using kiosk_cache.passed_get [OF assms(3), of ?key t] dd by simp
  moreover have "event_key (show_num lib) (di_id k) b' = ?key" using assms(6-9) by (simp add: event_key_def)
  ultimately show ?thesis using assms(5) by (simp add: kiosk_event_route_def kiosk_dedup_def)
qed

text \<open>An event that could not be stored is acknowledged when the client sends it again.\<close>

lemma refused_event_acknowledged:
  assumes "fst (kiosk_event_route lib t eid k b s) = EventFailed 500" and "snd (kiosk_event_route lib t eid k b s) = s1"
    and "wf_map (ea_kiosk_cache s)" and "t \<le> t'" and "t' < t + 2000"
  shows "kiosk_event_route lib t' eid' k b s1 = (EventDuplicate, s1) \<and> ed_log (ea_db s1) = ed_log (ea_db s)"
proof -
  let ?key = "event_key (show_num lib) (di_id k) b"
  obtain dup c where dd: "kiosk_dedup ?key t (ea_kiosk_cache s) = (dup, c)" by force
  have "\<not> dup" using kiosk_event_cases(1) [OF dd, of eid] assms(1) by simp
  then have s1: "s1 = s\<lparr>ea_kiosk_cache := c\<rparr>"
    using assms(1,2) dd by (auto simp: kiosk_event_route_def Let_def split: sum.splits)
  have "map_of c ?key = Some t" using kiosk_cache.passed_get [OF assms(3), of ?key t] dd \<open>\<not> dup\<close> by simp
  then show ?thesis using s1 assms(5) by (simp add: kiosk_event_route_def kiosk_dedup_def)
qed


section \<open>Instances\<close>

definition hall_lib :: event_lib where
  "hall_lib = \<lparr>el_env = demo_env, el_iso = (\<lambda>_. ''t'')\<rparr>"

definition hall_box :: iobox where
  "hall_box = sample_iobox\<lparr>iob_id := ''b1'', iob_serial := ''S1'', iob_route_mode := RouteProxy,
                           iob_assigned_display_id := Some ''d1''\<rparr>"

definition hall_mapping :: "string \<Rightarrow> string \<Rightarrow> timestamp \<Rightarrow> input_mapping" where
  "hall_mapping mid act t =
     \<lparr>im_id = mid, im_iobox_id = None, im_display_id = Some ''d1'', im_layout_id = None, im_cell_id = None,
      im_source_kind = ''button'', im_match_json = [(''code'', JStr ''red'')], im_target_kind = ''layout'',
      im_action = act, im_params_json = JObj [], im_enabled = True, im_created_at = t\<rparr>"

definition hall_db :: event_db where
  "hall_db = \<lparr>ed_log = [], ed_subs = [], ed_displays = [sample_display\<lparr>d_id := ''d1'', d_kiosk_id := Some ''k1''\<rparr>],
      ed_cameras = [], ed_kiosks = [sample_kiosk\<lparr>k_id := ''k1''\<rparr>], ed_ioboxes = [hall_box],
      ed_mappings = [hall_mapping ''m2'' ''dim'' 9, hall_mapping ''m1'' ''show'' 4]\<rparr>"

definition hall :: event_api where
  "hall = \<lparr>ea_db = hall_db, ea_kiosk_cache = [], ea_iobox_cache = [], ea_guard = demo_limiter,
           ea_posts = [], ea_mqtt = [], ea_commands = []\<rparr>"

definition hall_device :: "string \<Rightarrow> device_identity" where
  "hall_device d = \<lparr>di_id = d, di_tenant_id = ''t'', di_tenant_slug = ''t'', di_tenant_name = ''T'', di_schema_name = ''tenant_t''\<rparr>"

definition hall_event :: "string \<Rightarrow> event_body" where
  "hall_event lid = \<lparr>eb_topic = ''layout.changed'', eb_source_type = ''system'', eb_camera_id = None,
     eb_property_op = None, eb_payload = JObj [(''display_id'', JStr ''d1''), (''layout_id'', JStr lid)]\<rparr>"

definition hall_press :: "string \<Rightarrow> io_event_body" where
  "hall_press i = \<lparr>xb_event_id = Some i, xb_topic = ''button'', xb_kind = ''button'', xb_action = None,
     xb_code = Some ''red'', xb_value = JUndefined, xb_display_id = None, xb_payload = JUndefined, xb_route = None\<rparr>"

definition hall_ops :: "event_op list" where
  "hall_ops = [OpKiosk 1000 ''e1'' (hall_device ''k1'') (hall_event ''A''),
     OpIoBox 1500 ''e2'' (\<lambda>_. Inr JNull) (hall_device ''b1'') (hall_press ''1''),
     OpKiosk 2000 ''e3'' (hall_device ''k1'') (hall_event ''B''),
     OpIoBox 2500 ''e4'' (\<lambda>_. Inr JNull) (hall_device ''b1'') (hall_press ''1''),
     OpKiosk 3000 ''e5'' (hall_device ''k1'') (hall_event ''C''),
     OpIoBox 62000 ''e6'' (\<lambda>_. Inr JNull) (hall_device ''b1'') (hall_press ''1'')]"

lemma hall_checks:
  "let run = fst (event_run hall_lib length hall_ops hall); ks = kiosk_calls hall_lib run; bs = iobox_calls run in
     map snd ks = [False, True, False] \<and> map snd bs = [False, True, False] \<and> clock_ok (map fst ks) \<and> clock_ok (map fst bs)"
  by code_simp

lemmas hall_facts = hall_checks [unfolded Let_def]

lemma hall_answers:
  "map snd (kiosk_calls hall_lib (fst (event_run hall_lib length hall_ops hall))) = [False, True, False]"
  "map snd (iobox_calls (fst (event_run hall_lib length hall_ops hall))) = [False, True, False]"
  by (rule hall_facts [THEN conjunct1], rule hall_facts [THEN conjunct2, THEN conjunct1])

lemma hall_clock:
  "clock_ok (map fst (kiosk_calls hall_lib (fst (event_run hall_lib length hall_ops hall))))"
  "clock_ok (map fst (iobox_calls (fst (event_run hall_lib length hall_ops hall))))"
  by (rule hall_facts [THEN conjunct2, THEN conjunct2, THEN conjunct1], rule hall_facts [THEN conjunct2, THEN conjunct2, THEN conjunct2])

theorem event_dedup_exact_witness:
  "[False, True, False] = thin 2000 (map fst (kiosk_calls hall_lib (fst (event_run hall_lib length hall_ops hall)))) Map.empty
   \<and> [False, True, False] = thin 60000 (map fst (iobox_calls (fst (event_run hall_lib length hall_ops hall)))) Map.empty"
proof -
  have "event_run hall_lib length hall_ops hall
      = (fst (event_run hall_lib length hall_ops hall), snd (event_run hall_lib length hall_ops hall))" by simp
  moreover have "ea_kiosk_cache hall = []" "ea_iobox_cache hall = []" by (simp_all add: hall_def)
  ultimately show ?thesis
    using event_dedup_exact [OF _ _ _ hall_clock] unfolding hall_answers by blast
qed

lemma hall_commands:
  "map fst (ea_commands (snd (iobox_event_route hall_lib 1500 ''e2'' (\<lambda>_. Inr JNull) (hall_device ''b1'') (hall_press ''1'') hall)))
     = [''k1'', ''k1'']"
  "map (\<lambda>c. json_get (snd c) ''action'')
     (ea_commands (snd (iobox_event_route hall_lib 1500 ''e2'' (\<lambda>_. Inr JNull) (hall_device ''b1'') (hall_press ''1'') hall)))
     = [JStr ''show'', JStr ''dim'']"
  by code_simp+


definition hall_pressed :: "event_reply \<times> event_api" where
  "hall_pressed = iobox_event_route hall_lib 1500 ''e2'' (\<lambda>_. Inr JNull) (hall_device ''b1'') (hall_press ''1'') hall"


end
