(* ===== verification/BF_Heartbeat.thy ===== *)
theory BF_Heartbeat
  imports BF_Bundle BF_Power BF_Schedule BF_Version
begin

text \<open>
  The heartbeat of a kiosk: \<^verbatim>\<open>POST /api/kiosk/heartbeat\<close> of \<^verbatim>\<open>service-api-http/index.ts\<close> with the
  display and kiosk statements of \<^verbatim>\<open>shared/db/repository.ts\<close> it uses.  It refreshes the kiosk's
  row, matches the reported displays to the stored ones, orders power reports through the
  sessions of \<^verbatim>\<open>BF_Power\<close>, and answers with update policy and pending configuration.  The body
  is the value after validation; the table of partitions, which is only shown, is left out.
\<close>

section \<open>Names of displays\<close>

fun after_colon :: "string \<Rightarrow> string option" where
  "after_colon (a # b # s) = (if a = CHR '':'' \<and> b = CHR '' '' then Some s else after_colon (b # s))"
| "after_colon _ = None"

definition displayBaseName :: "string \<Rightarrow> string" where
  "displayBaseName name = nullish (after_colon name) name"

definition kioskDisplayName :: "string \<Rightarrow> string \<Rightarrow> string" where
  "kioskDisplayName kname dname = kname @ '': '' @ displayBaseName dname"

definition findReportedDisplayMatch :: "display list \<Rightarrow> string set \<Rightarrow> string \<Rightarrow> number \<Rightarrow> display option" where
  "findReportedDisplayMatch existing seen name idx =
     (case find (\<lambda>d. d_id d \<notin> seen \<and> displayBaseName (d_name d) = name) existing of
        Some d \<Rightarrow> Some d
      | None \<Rightarrow> find (\<lambda>d. d_id d \<notin> seen \<and> d_index d = idx) existing)"

section \<open>Display rows\<close>

definition map_display :: "string \<Rightarrow> (display \<Rightarrow> display) \<Rightarrow> content_db \<Rightarrow> content_db" where
  "map_display did f db = db\<lparr>c_displays := map (\<lambda>d. if d_id d = did then f d else d) (c_displays db)\<rparr>"

text \<open>The columns an \<^verbatim>\<open>INSERT\<close> that names six of them gives a display.\<close>

definition display_row :: "string \<Rightarrow> string \<Rightarrow> string \<Rightarrow> number \<Rightarrow> number \<Rightarrow> number \<Rightarrow> display" where
  "display_row did kid name idx w h =
     \<lparr>d_id = did, d_name = name, d_index = idx, d_is_primary = False, d_kiosk_id = Some kid,
      d_width_px = w, d_height_px = h, d_default_layout_id = None, d_idle_timeout_seconds = 600,
      d_sleep_timeout_seconds = 1800, d_cec_enabled = True, d_cec_device_path = None,
      d_cec_logical_address = None, d_desired_power_state = DesiredFollowLayout,
      d_actual_power_state = ActualUnknown, d_actual_power_state_at = None, d_state_check_enabled = False,
      d_state_check_interval_seconds = 60, d_is_enabled = True, d_active_layout_id = None\<rparr>"

text \<open>
  \<^verbatim>\<open>display_defaults\<close> of the setup state: the layouts that still exist, each once, and the
  default one when it is among them.
\<close>

definition displayDefaults :: "json \<Rightarrow> content_db \<Rightarrow> string list \<times> string option" where
  "displayDefaults raw db =
     (let ids = (case json_get raw ''layoutIds'' of
                   JArr vs \<Rightarrow> first_occurrences (List.map_filter
                     (\<lambda>v. case v of JStr i \<Rightarrow> if list_ex (\<lambda>l. l_id l = i) (c_layouts db) then Some i else None
                          | _ \<Rightarrow> None) vs)
                 | _ \<Rightarrow> []);
          d = (case json_get raw ''defaultLayoutId'' of JStr i \<Rightarrow> if i \<in> set ids then Some i else None | _ \<Rightarrow> None)
      in (ids, d))"

definition createKioskDisplay :: "json \<Rightarrow> string \<Rightarrow> string \<Rightarrow> string \<Rightarrow> number \<Rightarrow> number \<Rightarrow> number
  \<Rightarrow> content_db \<Rightarrow> content_db" where
  "createKioskDisplay raw did kid name idx w h db =
     (let db1 = db\<lparr>c_displays := c_displays db @ [display_row did kid name idx w h]\<rparr>;
          (ids, dflt) = displayDefaults raw db1;
          db2 = foldl (\<lambda>x lid. attachLayoutToDisplay did lid x) db1 ids
      in if truthy_str dflt
         then map_display did (\<lambda>d. d\<lparr>d_default_layout_id := dflt, d_active_layout_id := dflt\<rparr>) db2
         else db2)"

definition deleteDisplayIfUnused :: "string \<Rightarrow> content_db \<Rightarrow> content_db" where
  "deleteDisplayIfUnused did db =
     (if list_ex (\<lambda>x. fst x = did) (c_display_layouts db) then db
      else db\<lparr>c_displays := filter (\<lambda>d. d_id d \<noteq> did) (c_displays db)\<rparr>)"

section \<open>The body\<close>

record reported_display =
  rd_name :: string
  rd_index :: "number option"
  rd_width_px :: number
  rd_height_px :: number
  rd_power_state :: string
  rd_power :: json

record kiosk_heartbeat =
  kh_capabilities :: "string list option"
  kh_bundle_version :: "string option"
  kh_kiosk_app_version :: string
  kh_firmware_target :: string
  kh_os_version :: string
  kh_os_update_compatibility :: string
  kh_displays :: "reported_display list"
  kh_cpu_temp_c :: "number option"
  kh_cpu_load_percent :: "number option"
  kh_gpu_load_percent :: "number option"
  kh_fan_rpm :: "number option"
  kh_fan_pwm :: "number option"
  kh_memory_total_mb :: "number option"
  kh_memory_used_mb :: "number option"
  kh_disk_total_mb :: "number option"
  kh_disk_free_mb :: "number option"
  kh_disk_used_percent :: "number option"
  kh_local_key :: "string option"
  kh_local_port :: "number option"
  kh_reported_hostname :: "string option"
  kh_network_interfaces :: "json list"
  kh_logging :: json
  kh_managed_config_applied_version :: "number option"
  kh_managed_config_error :: "string option option"
  kh_onvif_subscriptions :: json
  kh_pipeline_stats :: "json list"

section \<open>The row of the kiosk\<close>

definition map_kiosk :: "string \<Rightarrow> (kiosk \<Rightarrow> kiosk) \<Rightarrow> content_db \<Rightarrow> content_db" where
  "map_kiosk kid f db = db\<lparr>c_kiosks := map (\<lambda>k. if k_id k = kid then f k else k) (c_kiosks db)\<rparr>"

text \<open>The restrictive identity cannot be removed by a later heartbeat.\<close>

definition viewer_capabilities :: "string list \<Rightarrow> string list" where
  "viewer_capabilities caps = first_occurrences (''android-viewer'' # caps)"

definition some_text :: "string \<Rightarrow> string option" where
  "some_text s = (if s = [] then None else Some s)"

definition coalesce :: "'a option \<Rightarrow> 'a option \<Rightarrow> 'a option" where
  "coalesce new old = (case new of Some v \<Rightarrow> Some v | None \<Rightarrow> old)"

definition telemetry_json :: "(json \<Rightarrow> string) \<Rightarrow> kiosk_heartbeat \<Rightarrow> string" where
  "telemetry_json print b =
     print (JObj [(''gpu_load_percent'', case kh_gpu_load_percent b of None \<Rightarrow> JNull | Some n \<Rightarrow> JNum n),
                  (''pipelines'', JArr (kh_pipeline_stats b))])"

definition logging_json :: "(json \<Rightarrow> string) \<Rightarrow> json \<Rightarrow> string option" where
  "logging_json print v = (case v of JObj _ \<Rightarrow> Some (print v) | JArr _ \<Rightarrow> Some (print v) | _ \<Rightarrow> None)"

definition touch_kiosk :: "(json \<Rightarrow> string) \<Rightarrow> timestamp \<Rightarrow> bool \<Rightarrow> string option \<Rightarrow> kiosk_heartbeat \<Rightarrow> kiosk \<Rightarrow> kiosk" where
  "touch_kiosk print now viewer ip b k = k\<lparr>
     k_last_seen_at := Some now,
     k_last_bundle_version := coalesce (kh_bundle_version b) (k_last_bundle_version k),
     k_kiosk_app_version := Some (kh_kiosk_app_version b),
     k_firmware_target := coalesce (some_text (normalizeFirmwareTarget (Some (kh_firmware_target b)))) (k_firmware_target k),
     k_os_version := Some (kh_os_version b),
     k_os_update_compatibility := coalesce (some_text (js_trim (kh_os_update_compatibility b))) (k_os_update_compatibility k),
     k_cpu_temp_c := kh_cpu_temp_c b, k_cpu_load_percent := kh_cpu_load_percent b,
     k_gpu_load_percent := kh_gpu_load_percent b, k_fan_rpm := kh_fan_rpm b, k_fan_pwm := kh_fan_pwm b,
     k_memory_total_mb := kh_memory_total_mb b, k_memory_used_mb := kh_memory_used_mb b,
     k_disk_total_mb := kh_disk_total_mb b, k_disk_free_mb := kh_disk_free_mb b,
     k_disk_used_percent := kh_disk_used_percent b,
     k_local_key := coalesce (if viewer then None else kh_local_key b) (k_local_key k),
     k_local_port := coalesce (if viewer then None else kh_local_port b) (k_local_port k),
     k_local_last_ip := coalesce ip (k_local_last_ip k),
     k_reported_hostname := coalesce (kh_reported_hostname b) (k_reported_hostname k),
     k_network_interfaces_json := Some (print (JArr (kh_network_interfaces b))),
     k_logging_json := coalesce (logging_json print (kh_logging b)) (k_logging_json k),
     k_renderer_telemetry_json := Some (telemetry_json print b)\<rparr>"

definition touchKiosk :: "(json \<Rightarrow> string) \<Rightarrow> timestamp \<Rightarrow> bool \<Rightarrow> string option \<Rightarrow> string \<Rightarrow> kiosk_heartbeat
  \<Rightarrow> content_db \<Rightarrow> content_db" where
  "touchKiosk print now viewer ip kid b db = map_kiosk kid (touch_kiosk print now viewer ip b) db"

text \<open>
  A managed client reports the configuration version it applied; the error is kept when it
  is not mentioned and cleared when it is null.
\<close>

definition accepts_managed_config :: "bool \<Rightarrow> kiosk option \<Rightarrow> bool" where
  "accepts_managed_config viewer k \<longleftrightarrow> \<not> viewer
     \<and> (case k of None \<Rightarrow> False | Some x \<Rightarrow> k_managed_image x \<or> ''windows'' \<in> set (k_capabilities x))"

definition note_error :: "string option option \<Rightarrow> kiosk \<Rightarrow> kiosk" where
  "note_error e k = (case e of None \<Rightarrow> k | Some v \<Rightarrow> k\<lparr>k_managed_config_error := v\<rparr>)"

definition note_managed_config :: "timestamp \<Rightarrow> bool \<Rightarrow> string \<Rightarrow> kiosk_heartbeat \<Rightarrow> content_db \<Rightarrow> content_db" where
  "note_managed_config now viewer kid b db =
     (if accepts_managed_config viewer (getKioskById db kid) then
        (case kh_managed_config_applied_version b of
           Some v \<Rightarrow> map_kiosk kid (\<lambda>k. note_error (kh_managed_config_error b)
                       (k\<lparr>k_managed_config_applied_version := v, k_managed_config_applied_at := Some now\<rparr>)) db
         | None \<Rightarrow> map_kiosk kid (note_error (kh_managed_config_error b)) db)
      else db)"


section \<open>Displays\<close>

text \<open>
  The schema of the body gives a display without an index the index 0, so the position in
  the list is only used for an index that is not a natural number.
\<close>

definition validated_index :: "number option \<Rightarrow> number option" where
  "validated_index raw = Some (nullish raw 0)"

definition reported_index :: "nat \<Rightarrow> reported_display \<Rightarrow> number" where
  "reported_index position r =
     (case rd_index r of
        Some i \<Rightarrow> if is_integer i \<and> i \<ge> 0 then i else of_nat position
      | None \<Rightarrow> of_nat position)"

definition valid_power :: "reported_display \<Rightarrow> bool" where
  "valid_power r \<longleftrightarrow> rd_power_state r \<in> {''awake'', ''standby'', ''unknown''}"

definition reported_power :: "bool \<Rightarrow> reported_display \<Rightarrow> actual_power_state option" where
  "reported_power accepted r =
     (if \<not> accepted then None
      else if rd_power_state r = ''awake'' then Some ActualAwake
      else if rd_power_state r = ''standby'' then Some ActualStandby
      else if rd_power_state r = ''unknown'' then Some ActualUnknown
      else None)"

record display_sync =
  ds_db :: content_db
  ds_power :: power_state
  ds_seen :: "string list"
  ds_created :: nat

definition set_power :: "timestamp \<Rightarrow> actual_power_state option \<Rightarrow> display \<Rightarrow> display" where
  "set_power now p d = (case p of None \<Rightarrow> d
     | Some x \<Rightarrow> d\<lparr>d_actual_power_state := x, d_actual_power_state_at := Some now\<rparr>)"

definition display_differs :: "bool \<Rightarrow> string \<Rightarrow> number \<Rightarrow> reported_display \<Rightarrow> actual_power_state option \<Rightarrow> display \<Rightarrow> bool" where
  "display_differs viewer name idx r p d \<longleftrightarrow>
     d_name d \<noteq> name \<or> d_index d \<noteq> idx \<or> d_width_px d \<noteq> rd_width_px r \<or> d_height_px d \<noteq> rd_height_px r
     \<or> (\<not> viewer \<and> \<not> d_is_enabled d) \<or> (case p of None \<Rightarrow> False | Some x \<Rightarrow> d_actual_power_state d \<noteq> x)"

definition refresh_display :: "timestamp \<Rightarrow> bool \<Rightarrow> string \<Rightarrow> number \<Rightarrow> reported_display \<Rightarrow> actual_power_state option
  \<Rightarrow> display \<Rightarrow> display" where
  "refresh_display now viewer name idx r p d = set_power now p
     (d\<lparr>d_name := name, d_index := idx, d_width_px := rd_width_px r, d_height_px := rd_height_px r,
        d_is_enabled := (if viewer then d_is_enabled d else True)\<rparr>)"

text \<open>
  What a heartbeat fixes for all its displays: the clock, the kiosk and the name its displays
  carry, whether it is a viewer, whether power reports are ordered, the defaults for new
  displays, their identifiers, and the displays stored before.
\<close>

record sync_context =
  sc_now :: timestamp
  sc_kiosk_id :: string
  sc_kiosk_name :: string
  sc_viewer :: bool
  sc_enforce :: bool
  sc_defaults :: json
  sc_fresh :: "nat \<Rightarrow> string"
  sc_existing :: "display list"

definition power_accepted :: "sync_context \<Rightarrow> reported_display \<Rightarrow> power_state \<Rightarrow> bool \<times> power_state" where
  "power_accepted cx r pw =
     (if \<not> sc_enforce cx then (True, pw)
      else if \<not> valid_power r then (False, pw)
      else heartbeatPowerSampleAllowed (sc_kiosk_id cx) (readPowerSample (rd_power r)) (sc_now cx) pw)"

definition power_advanced :: "sync_context \<Rightarrow> reported_display \<Rightarrow> bool \<Rightarrow> power_state \<Rightarrow> power_state" where
  "power_advanced cx r accepted pw =
     (case readPowerSample (rd_power r) of
        Some smp \<Rightarrow> if sc_enforce cx \<and> accepted \<and> valid_power r
                    then advancePowerSample (sc_kiosk_id cx) smp (sc_now cx) pw else pw
      | None \<Rightarrow> pw)"

definition store_reported :: "sync_context \<Rightarrow> nat \<Rightarrow> reported_display \<Rightarrow> actual_power_state option \<Rightarrow> display_sync \<Rightarrow> display_sync" where
  "store_reported cx position r p st =
     (let idx = reported_index position r; name = kioskDisplayName (sc_kiosk_name cx) (rd_name r) in
      case findReportedDisplayMatch (sc_existing cx) (set (ds_seen st)) (rd_name r) idx of
        Some m \<Rightarrow>
          st\<lparr>ds_seen := d_id m # ds_seen st,
             ds_db := (if display_differs (sc_viewer cx) name idx r p m
                       then map_display (d_id m) (refresh_display (sc_now cx) (sc_viewer cx) name idx r p) (ds_db st)
                       else ds_db st)\<rparr>
      | None \<Rightarrow>
          let did = sc_fresh cx (ds_created st);
              db1 = createKioskDisplay (sc_defaults cx) did (sc_kiosk_id cx) name idx
                      (rd_width_px r) (rd_height_px r) (ds_db st)
          in st\<lparr>ds_seen := did # ds_seen st, ds_created := Suc (ds_created st),
                ds_db := (case p of None \<Rightarrow> db1 | Some x \<Rightarrow> map_display did (set_power (sc_now cx) p) db1)\<rparr>)"

definition sync_display :: "sync_context \<Rightarrow> nat \<Rightarrow> reported_display \<Rightarrow> display_sync \<Rightarrow> display_sync" where
  "sync_display cx position r st =
     (case power_accepted cx r (ds_power st) of (accepted, pw) \<Rightarrow>
      let st1 = store_reported cx position r (reported_power accepted r) (st\<lparr>ds_power := pw\<rparr>)
      in st1\<lparr>ds_power := power_advanced cx r accepted (ds_power st1)\<rparr>)"

fun sync_reported :: "sync_context \<Rightarrow> nat \<Rightarrow> reported_display list \<Rightarrow> display_sync \<Rightarrow> display_sync" where
  "sync_reported cx position [] st = st"
| "sync_reported cx position (r # rs) st = sync_reported cx (Suc position) rs (sync_display cx position r st)"

definition remove_unseen :: "display list \<Rightarrow> string list \<Rightarrow> content_db \<Rightarrow> content_db" where
  "remove_unseen existing seen db =
     foldl (\<lambda>x d. if d_id d \<in> set seen then x else deleteDisplayIfUnused (d_id d) x) db existing"

definition enforce_order :: "bool \<Rightarrow> bool \<Rightarrow> string \<Rightarrow> timestamp \<Rightarrow> power_state \<Rightarrow> bool \<times> power_state" where
  "enforce_order ordered viewer kid now pw =
     (if ordered then (True, pw) else if viewer then hasPowerSession kid now pw else (False, pw))"

definition sync_displays :: "(nat \<Rightarrow> string) \<Rightarrow> json \<Rightarrow> timestamp \<Rightarrow> bool \<Rightarrow> bool \<Rightarrow> string \<Rightarrow> string \<Rightarrow> reported_display list
  \<Rightarrow> content_db \<times> power_state \<Rightarrow> content_db \<times> power_state" where
  "sync_displays fresh defaults now ordered viewer kid kname rs s =
     (case enforce_order ordered viewer kid now (snd s) of (enforce, pw) \<Rightarrow>
      let existing = listDisplaysForKiosk (fst s) kid;
          cx = \<lparr>sc_now = now, sc_kiosk_id = kid, sc_kiosk_name = kname, sc_viewer = viewer,
                sc_enforce = enforce, sc_defaults = defaults, sc_fresh = fresh, sc_existing = existing\<rparr>;
          st = sync_reported cx 0 rs \<lparr>ds_db = fst s, ds_power = pw, ds_seen = [], ds_created = 0\<rparr>
      in (remove_unseen existing (ds_seen st) (ds_db st), ds_power st))"

section \<open>The route\<close>

record heartbeat_state =
  hs_db :: content_db
  hs_power :: power_state
  hs_syncs :: "(string \<times> json) list"

text \<open>
  Collaborators: JSON in both directions, the identifiers of new displays, and the local
  weekday, hour and minute of the server's clock.
\<close>

record heartbeat_lib =
  hl_print :: "json \<Rightarrow> string"
  hl_parse :: "string \<Rightarrow> json option"
  hl_fresh :: "nat \<Rightarrow> string"
  hl_local :: "timestamp \<Rightarrow> int \<times> int \<times> int"

record heartbeat_answer =
  hr_now :: timestamp
  hr_firmware_channel :: firmware_channel
  hr_firmware_target_version :: "string option"
  hr_os_update_channel :: firmware_channel
  hr_os_update_target_version :: "string option"
  hr_auto_updates_allowed :: bool
  hr_update_schedule :: update_schedule
  hr_audio_default_volume_percent :: number
  hr_pending_config :: "(number \<times> json) option"

datatype heartbeat_reply = HeartbeatRefused nat | ViewerAlive timestamp | KioskAlive heartbeat_answer

definition pending_config :: "(string \<Rightarrow> json option) \<Rightarrow> kiosk option \<Rightarrow> (number \<times> json) option" where
  "pending_config parse k =
     (case k of None \<Rightarrow> None
      | Some x \<Rightarrow>
          if (k_managed_image x \<or> ''windows'' \<in> set (k_capabilities x))
             \<and> k_managed_config_version x > k_managed_config_applied_version x \<and> truthy_str (k_managed_config_json x)
          then map_option (Pair (k_managed_config_version x)) (parse (the (k_managed_config_json x)))
          else None)"

definition heartbeat_answer_for :: "heartbeat_lib \<Rightarrow> timestamp \<Rightarrow> json \<Rightarrow> kiosk option \<Rightarrow> heartbeat_answer" where
  "heartbeat_answer_for lib now schedule k =
     (let us = normalizeUpdateSchedule schedule; (day, hour, minute) = hl_local lib now in
      \<lparr>hr_now = now, hr_firmware_channel = effectiveFirmwareChannel k,
       hr_firmware_target_version = (case k of None \<Rightarrow> None | Some x \<Rightarrow> k_firmware_target_version x),
       hr_os_update_channel = (case k of None \<Rightarrow> ChStable | Some x \<Rightarrow> k_os_update_channel x),
       hr_os_update_target_version = (case k of None \<Rightarrow> None | Some x \<Rightarrow> k_os_update_target_version x),
       hr_auto_updates_allowed = updateScheduleAllowsNow us day hour minute, hr_update_schedule = us,
       hr_audio_default_volume_percent = (case k of None \<Rightarrow> 50 | Some x \<Rightarrow> k_audio_default_volume_percent x),
       hr_pending_config = pending_config (hl_parse lib) k\<rparr>)"

definition is_object :: "json \<Rightarrow> bool" where
  "is_object v \<longleftrightarrow> (case v of JObj _ \<Rightarrow> True | JArr _ \<Rightarrow> True | _ \<Rightarrow> False)"

text \<open>
  \<open>profile\<close> is the row of the kiosk when its key was verified, and \<open>extra\<close> the setup state.
\<close>

definition heartbeat_prepare :: "heartbeat_lib \<Rightarrow> timestamp \<Rightarrow> string option \<Rightarrow> kiosk \<Rightarrow> kiosk_heartbeat \<Rightarrow> content_db \<Rightarrow> content_db" where
  "heartbeat_prepare lib now ip profile b db =
     (let kid = k_id profile; viewer = is_viewer profile;
          db1 = (case kh_capabilities b of
                   Some caps \<Rightarrow> if viewer then map_kiosk kid (\<lambda>k. k\<lparr>k_capabilities := viewer_capabilities caps\<rparr>) db else db
                 | None \<Rightarrow> db)
      in note_managed_config now viewer kid b (touchKiosk (hl_print lib) now viewer ip kid b db1))"

definition orders_power :: "kiosk \<Rightarrow> kiosk_heartbeat \<Rightarrow> bool" where
  "orders_power profile b \<longleftrightarrow> is_viewer profile
     \<and> (''android-standby-v1'' \<in> set (nullish (kh_capabilities b) []) \<or> ''android-standby-v1'' \<in> set (k_capabilities profile))"

definition kiosk_heartbeat_route :: "heartbeat_lib \<Rightarrow> (string \<Rightarrow> json) \<Rightarrow> timestamp \<Rightarrow> string option \<Rightarrow> kiosk \<Rightarrow> kiosk_heartbeat
  \<Rightarrow> heartbeat_state \<Rightarrow> heartbeat_reply \<times> heartbeat_state" where
  "kiosk_heartbeat_route lib extra now ip profile b s =
     (let kid = k_id profile; viewer = is_viewer profile in
      if viewer \<and> length (kh_displays b) > 1 then (HeartbeatRefused 400, s)
      else
        let db1 = heartbeat_prepare lib now ip profile b (hs_db s);
            kname = (case getKioskById db1 kid of Some k \<Rightarrow> k_name k | None \<Rightarrow> kid);
            syncs = (if \<not> viewer \<and> is_object (kh_onvif_subscriptions b)
                     then hs_syncs s @ [(kid, kh_onvif_subscriptions b)] else hs_syncs s)
        in (case sync_displays (hl_fresh lib) (extra ''display_defaults'') now (orders_power profile b) viewer kid kname
                   (kh_displays b) (db1, hs_power s) of (db2, pw) \<Rightarrow>
             (if viewer then ViewerAlive now
              else KioskAlive (heartbeat_answer_for lib now (extra ''update_schedule'') (getKioskById db2 kid)),
              s\<lparr>hs_db := db2, hs_power := pw, hs_syncs := syncs\<rparr>)))"


section \<open>What a heartbeat leaves alone\<close>

text \<open>The columns of a display that a heartbeat does not report.\<close>

definition display_settings :: "display \<Rightarrow> display" where
  "display_settings d = d\<lparr>d_name := [], d_index := 0, d_width_px := 0, d_height_px := 0, d_is_enabled := True,
     d_actual_power_state := ActualUnknown, d_actual_power_state_at := None\<rparr>"

definition assigned :: "content_db \<Rightarrow> display \<Rightarrow> bool" where
  "assigned db d \<longleftrightarrow> list_ex (\<lambda>x. fst x = d_id d) (c_display_layouts db)"

definition known_ids :: "content_db \<Rightarrow> string set" where
  "known_ids db = d_id ` set (c_displays db) \<union> fst ` set (c_display_layouts db)"

definition others :: "string \<Rightarrow> content_db \<Rightarrow> display list" where
  "others kid db = filter (\<lambda>d. d_kiosk_id d \<noteq> Some kid) (c_displays db)"

definition untouched :: "string \<Rightarrow> content_db \<Rightarrow> content_db \<Rightarrow> bool" where
  "untouched kid db db' \<longleftrightarrow> others kid db' = others kid db
     \<and> map display_settings (filter (assigned db) (c_displays db'))
         = map display_settings (filter (assigned db) (c_displays db))
     \<and> filter (\<lambda>x. fst x \<in> known_ids db) (c_display_layouts db') = c_display_layouts db"

lemma assigned_known: "assigned db d \<Longrightarrow> d_id d \<in> known_ids db"
  by (force simp: assigned_def known_ids_def list_ex_iff)

lemma untouched_refl: "c_displays db' = c_displays db \<Longrightarrow> c_display_layouts db' = c_display_layouts db \<Longrightarrow> untouched kid db db'"
  by (auto simp: untouched_def others_def known_ids_def intro!: filter_True)

lemma others_member:
  assumes "untouched kid db db'" and "d \<in> set (c_displays db')" and "d_kiosk_id d \<noteq> Some kid"
  shows "d \<in> set (c_displays db)"
proof -
  have "d \<in> set (others kid db')" using assms(2,3) by (simp add: others_def)
  moreover have "others kid db' = others kid db" using assms(1) by (simp add: untouched_def)
  ultimately have "d \<in> set (others kid db)" by simp
  then show ?thesis by (simp add: others_def)
qed

text \<open>A row is the kiosk's own when it is new or was the kiosk's before.\<close>

definition own_row :: "string \<Rightarrow> content_db \<Rightarrow> string \<Rightarrow> bool" where
  "own_row kid db did \<longleftrightarrow> did \<notin> known_ids db \<or> (\<exists>m \<in> set (c_displays db). d_id m = did \<and> d_kiosk_id m = Some kid)"

lemma own_row_kiosk:
  assumes "untouched kid db db'" and "distinct (map d_id (c_displays db))" and "own_row kid db did"
    and "d \<in> set (c_displays db')" and "d_id d = did"
  shows "d_kiosk_id d = Some kid"
proof (rule ccontr)
  assume no: "d_kiosk_id d \<noteq> Some kid"
  then have d: "d \<in> set (c_displays db)" using others_member assms(1,4) by blast
  then have "did \<in> known_ids db" using assms(5) by (auto simp: known_ids_def)
  then obtain m where "m \<in> set (c_displays db)" "d_id m = did" "d_kiosk_id m = Some kid"
    using assms(3) by (auto simp: own_row_def)
  then show False using d no assms(2,5) by (metis distinct_map inj_onD)
qed

lemma filter_map_same:
  assumes "\<And>x. x \<in> set xs \<Longrightarrow> P (f x) = P x" and "\<And>x. x \<in> set xs \<Longrightarrow> P x \<Longrightarrow> g (f x) = g x"
  shows "map g (filter P (map f xs)) = map g (filter P xs)"
  using assms by (induction xs) auto

lemma untouched_map:
  assumes "untouched kid db db'" and "distinct (map d_id (c_displays db))" and "own_row kid db did"
    and "\<And>d. d_id (f d) = d_id d" and "\<And>d. d_kiosk_id (f d) = d_kiosk_id d"
    and settings: "\<And>d. did \<in> known_ids db \<Longrightarrow> display_settings (f d) = display_settings d"
  shows "untouched kid db (map_display did f db')"
proof -
  let ?g = "\<lambda>d. if d_id d = did then f d else d"
  have "filter (\<lambda>d. d_kiosk_id d \<noteq> Some kid) (map ?g (c_displays db')) =
      filter (\<lambda>d. d_kiosk_id d \<noteq> Some kid) (c_displays db')"
  proof -
    have "map id (filter (\<lambda>d. d_kiosk_id d \<noteq> Some kid) (map ?g (c_displays db')))
        = map id (filter (\<lambda>d. d_kiosk_id d \<noteq> Some kid) (c_displays db'))"
      using own_row_kiosk [OF assms(1-3)] assms(5) by (intro filter_map_same) auto
    then show ?thesis by simp
  qed
  moreover have "map display_settings (filter (assigned db) (map ?g (c_displays db')))
      = map display_settings (filter (assigned db) (c_displays db'))"
  proof (rule filter_map_same)
    fix d assume "d \<in> set (c_displays db')"
    show "assigned db (?g d) = assigned db d" using assms(4) by (simp add: assigned_def)
    assume "assigned db d"
    then have "d_id d \<in> known_ids db" by (rule assigned_known)
    then show "display_settings (?g d) = display_settings d" using settings [of d] by auto
  qed
  ultimately show ?thesis using assms(1) by (simp add: untouched_def others_def map_display_def)
qed

lemma untouched_attach:
  assumes "untouched kid db db'" and "did \<notin> known_ids db"
  shows "untouched kid db (attachLayoutToDisplay did lid db')"
  using assms by (auto simp: untouched_def others_def attachLayoutToDisplay_def)

lemma untouched_attach_all:
  assumes "untouched kid db db'" and "did \<notin> known_ids db"
  shows "untouched kid db (foldl (\<lambda>x lid. attachLayoutToDisplay did lid x) db' ids)"
  using assms by (induction ids arbitrary: db') (simp_all add: untouched_attach)

lemma untouched_create:
  assumes "untouched kid db db'" and "distinct (map d_id (c_displays db))" and "did \<notin> known_ids db"
  shows "untouched kid db (createKioskDisplay raw did kid name idx w h db')"
proof -
  let ?db1 = "db'\<lparr>c_displays := c_displays db' @ [display_row did kid name idx w h]\<rparr>"
  have "\<not> assigned db (display_row did kid name idx w h)"
    using assms(3) assigned_known [of db "display_row did kid name idx w h"] by (auto simp: display_row_def)
  then have one: "untouched kid db ?db1" using assms(1) by (simp add: untouched_def others_def display_row_def)
  obtain ids dflt where g: "displayDefaults raw ?db1 = (ids, dflt)" by force
  have two: "untouched kid db (foldl (\<lambda>x lid. attachLayoutToDisplay did lid x) ?db1 ids)"
    using one assms(3) by (rule untouched_attach_all)
  have "own_row kid db did" using assms(3) by (simp add: own_row_def)
  then have "untouched kid db (map_display did (\<lambda>d. d\<lparr>d_default_layout_id := dflt, d_active_layout_id := dflt\<rparr>)
               (foldl (\<lambda>x lid. attachLayoutToDisplay did lid x) ?db1 ids))"
    using assms(3) by (intro untouched_map [OF two assms(2)]) simp_all
  then show ?thesis using two g by (simp add: createKioskDisplay_def Let_def)
qed

lemma untouched_delete:
  assumes "untouched kid db db'" and "distinct (map d_id (c_displays db))" and "own_row kid db did" and "did \<in> known_ids db"
  shows "untouched kid db (deleteDisplayIfUnused did db')"
proof (cases "list_ex (\<lambda>x. fst x = did) (c_display_layouts db')")
  case False
  have lay: "c_display_layouts db = filter (\<lambda>x. fst x \<in> known_ids db) (c_display_layouts db')"
    using assms(1) by (simp add: untouched_def)
  have "\<not> list_ex (\<lambda>x. fst x = did) (c_display_layouts db)"
    using False by (subst lay) (auto simp: list_ex_iff)
  then have "filter (assigned db) (filter (\<lambda>d. d_id d \<noteq> did) (c_displays db')) = filter (assigned db) (c_displays db')"
    by (auto simp: assigned_def intro!: filter_cong)
  moreover have "others kid (db'\<lparr>c_displays := filter (\<lambda>d. d_id d \<noteq> did) (c_displays db')\<rparr>) = others kid db'"
    using own_row_kiosk [OF assms(1-3)] by (auto simp: others_def intro!: filter_cong)
  ultimately show ?thesis using assms(1) False by (simp add: deleteDisplayIfUnused_def untouched_def)
qed (simp add: deleteDisplayIfUnused_def assms(1))


lemma match_existing: "findReportedDisplayMatch existing seen name idx = Some m \<Longrightarrow> m \<in> set existing \<and> d_id m \<notin> seen"
  by (auto simp: findReportedDisplayMatch_def find_Some_iff split: option.splits)

lemma set_power_same [simp]:
  "d_id (set_power now p d) = d_id d" "d_kiosk_id (set_power now p d) = d_kiosk_id d"
  "display_settings (set_power now p d) = display_settings d"
  by (simp_all add: set_power_def display_settings_def split: option.split)

lemma refresh_display_same [simp]:
  "d_id (refresh_display now v name idx r p d) = d_id d" "d_kiosk_id (refresh_display now v name idx r p d) = d_kiosk_id d"
  "display_settings (refresh_display now v name idx r p d) = display_settings d"
  by (simp_all add: refresh_display_def) (simp add: display_settings_def)

lemma existing_own: "existing = listDisplaysForKiosk db kid \<Longrightarrow> m \<in> set existing \<Longrightarrow> own_row kid db (d_id m) \<and> d_id m \<in> known_ids db"
  by (auto simp: listDisplaysForKiosk_def own_row_def known_ids_def)

lemma store_reported_untouched:
  assumes "untouched kid db (ds_db st)" and "distinct (map d_id (c_displays db))"
    and "sc_existing cx = listDisplaysForKiosk db kid" and "sc_kiosk_id cx = kid" and "range (sc_fresh cx) \<inter> known_ids db = {}"
  shows "untouched kid db (ds_db (store_reported cx position r p st))"
proof (cases "findReportedDisplayMatch (sc_existing cx) (set (ds_seen st)) (rd_name r) (reported_index position r)")
  case (Some m)
  then have own: "own_row kid db (d_id m)" using existing_own [OF assms(3)] match_existing by blast
  show ?thesis
    using Some assms(1) untouched_map [OF assms(1,2) own] by (simp add: store_reported_def Let_def)
next
  case None
  let ?did = "sc_fresh cx (ds_created st)"
  let ?db1 = "createKioskDisplay (sc_defaults cx) ?did (sc_kiosk_id cx) (kioskDisplayName (sc_kiosk_name cx) (rd_name r))
                (reported_index position r) (rd_width_px r) (rd_height_px r) (ds_db st)"
  have new: "?did \<notin> known_ids db" using assms(5) by blast
  have one: "untouched kid db ?db1" unfolding assms(4) using assms(1,2) new by (rule untouched_create)
  have "own_row kid db ?did" using new by (simp add: own_row_def)
  then have "untouched kid db (map_display ?did (set_power (sc_now cx) p) ?db1)"
    by (rule untouched_map [OF one assms(2)]) simp_all
  then show ?thesis using None one by (cases p) (simp_all add: store_reported_def Let_def)
qed

lemma sync_reported_untouched:
  assumes "untouched kid db (ds_db st)" and "distinct (map d_id (c_displays db))"
    and "sc_existing cx = listDisplaysForKiosk db kid" and "sc_kiosk_id cx = kid" and "range (sc_fresh cx) \<inter> known_ids db = {}"
  shows "untouched kid db (ds_db (sync_reported cx position rs st))"
  using assms(1)
proof (induction rs arbitrary: position st)
  case (Cons r rs)
  obtain acc pw where a: "power_accepted cx r (ds_power st) = (acc, pw)" by force
  have "untouched kid db (ds_db (st\<lparr>ds_power := pw\<rparr>))" using Cons.prems by simp
  then have "untouched kid db (ds_db (sync_display cx position r st))"
    using store_reported_untouched [OF _ assms(2-5)] a by (simp add: sync_display_def Let_def)
  then show ?case using Cons.IH by simp
qed simp

lemma remove_unseen_untouched:
  assumes "untouched kid db db'" and "distinct (map d_id (c_displays db))"
    and "\<And>d. d \<in> set existing \<Longrightarrow> own_row kid db (d_id d) \<and> d_id d \<in> known_ids db"
  shows "untouched kid db (remove_unseen existing seen db')"
  using assms(1,3)
proof (induction existing arbitrary: db')
  case (Cons d existing)
  have "untouched kid db (if d_id d \<in> set seen then db' else deleteDisplayIfUnused (d_id d) db')"
    using Cons.prems untouched_delete [OF _ assms(2)] by simp
  then show ?case using Cons by (simp add: remove_unseen_def)
qed (simp add: remove_unseen_def)

lemma sync_displays_untouched:
  assumes "distinct (map d_id (c_displays db))" and "range fresh \<inter> known_ids db = {}"
  shows "untouched kid db (fst (sync_displays fresh dflt now ordered viewer kid kname rs (db, pw)))"
proof -
  obtain enforce pw1 where e: "enforce_order ordered viewer kid now pw = (enforce, pw1)" by force
  let ?cx = "\<lparr>sc_now = now, sc_kiosk_id = kid, sc_kiosk_name = kname, sc_viewer = viewer, sc_enforce = enforce,
      sc_defaults = dflt, sc_fresh = fresh, sc_existing = listDisplaysForKiosk db kid\<rparr>"
  let ?st = "sync_reported ?cx 0 rs \<lparr>ds_db = db, ds_power = pw1, ds_seen = [], ds_created = 0\<rparr>"
  have "untouched kid db (ds_db ?st)"
    by (rule sync_reported_untouched) (use assms in \<open>simp_all add: untouched_refl\<close>)
  then have "untouched kid db (remove_unseen (listDisplaysForKiosk db kid) (ds_seen ?st) (ds_db ?st))"
    using assms(1) existing_own [OF refl] by (rule remove_unseen_untouched)
  then show ?thesis using e by (simp add: sync_displays_def Let_def)
qed

lemma map_kiosk_displays [simp]:
  "c_displays (map_kiosk kid f db) = c_displays db" "c_display_layouts (map_kiosk kid f db) = c_display_layouts db"
  by (simp_all add: map_kiosk_def)

lemma note_managed_config_displays [simp]:
  "c_displays (note_managed_config now viewer kid b db) = c_displays db"
  "c_display_layouts (note_managed_config now viewer kid b db) = c_display_layouts db"
  by (simp_all add: note_managed_config_def split: option.split)

lemma heartbeat_prepare_displays [simp]:
  "c_displays (heartbeat_prepare lib now ip profile b db) = c_displays db"
  "c_display_layouts (heartbeat_prepare lib now ip profile b db) = c_display_layouts db"
  by (simp_all add: heartbeat_prepare_def Let_def touchKiosk_def split: option.split)

lemma untouched_shift:
  assumes "untouched kid db1 db'" and "c_displays db1 = c_displays db" and "c_display_layouts db1 = c_display_layouts db"
  shows "untouched kid db db'"
  using assms by (simp add: untouched_def others_def assigned_def [abs_def] known_ids_def)

text \<open>
  (C20) A heartbeat leaves every display of other kiosks as it is, deletes no display that a
  layout is attached to, keeps of each such display everything that is not reported (its
  identity, its kiosk, its layouts and its power settings), and changes no attachment of a
  display that existed: it can only attach layouts to displays it creates.
\<close>

theorem heartbeat_keeps_assigned:
  assumes "kiosk_heartbeat_route lib extra now ip profile b s = (r, s')"
    and "distinct (map d_id (c_displays (hs_db s)))" and "range (hl_fresh lib) \<inter> known_ids (hs_db s) = {}"
  shows "others (k_id profile) (hs_db s') = others (k_id profile) (hs_db s)
    \<and> map display_settings (filter (assigned (hs_db s)) (c_displays (hs_db s')))
        = map display_settings (filter (assigned (hs_db s)) (c_displays (hs_db s)))
    \<and> filter (\<lambda>x. fst x \<in> known_ids (hs_db s)) (c_display_layouts (hs_db s')) = c_display_layouts (hs_db s)"
proof (cases "is_viewer profile \<and> length (kh_displays b) > 1")
  case True
  then have "s' = s" using assms(1) by (simp add: kiosk_heartbeat_route_def Let_def)
  then show ?thesis using untouched_refl [of "hs_db s" "hs_db s" "k_id profile"] by (simp add: untouched_def)
next
  case False
  let ?db1 = "heartbeat_prepare lib now ip profile b (hs_db s)"
  let ?kname = "case getKioskById ?db1 (k_id profile) of Some k \<Rightarrow> k_name k | None \<Rightarrow> k_id profile"
  let ?sync = "sync_displays (hl_fresh lib) (extra ''display_defaults'') now (orders_power profile b) (is_viewer profile)
      (k_id profile) ?kname (kh_displays b) (?db1, hs_power s)"
  have "untouched (k_id profile) ?db1 (fst ?sync)"
    using assms(2,3) by (intro sync_displays_untouched) (simp_all add: known_ids_def)
  moreover have "hs_db (snd (kiosk_heartbeat_route lib extra now ip profile b s)) = fst ?sync"
    using False by (auto simp: kiosk_heartbeat_route_def Let_def case_prod_unfold)
  then have "hs_db s' = fst ?sync" using assms(1) by simp
  ultimately have "untouched (k_id profile) ?db1 (hs_db s')" by simp
  then have "untouched (k_id profile) (hs_db s) (hs_db s')" by (rule untouched_shift) simp_all
  then show ?thesis by (simp add: untouched_def)
qed


section \<open>Displays are recognised by name\<close>

definition base_of :: "display \<Rightarrow> string" where
  "base_of d = displayBaseName (d_name d)"

lemma find_named:
  assumes "distinct (map base_of ds)" and "m \<in> set ds" and "base_of m = name" and "d_id m \<notin> seen"
  shows "find (\<lambda>d. d_id d \<notin> seen \<and> displayBaseName (d_name d) = name) ds = Some m"
  using assms by (induction ds) (auto simp: base_of_def)

text \<open>
  While every reported name belongs to a stored display, the synchronisation only rewrites
  rows: each report goes to the display of its name.
\<close>

definition recognised :: "display list \<Rightarrow> reported_display list \<Rightarrow> bool" where
  "recognised ds rs \<longleftrightarrow> distinct (map base_of ds) \<and> distinct (map d_id ds) \<and> distinct (map rd_name rs)
     \<and> set (map rd_name rs) \<subseteq> set (map base_of ds)"

definition named_row :: "display list \<Rightarrow> string \<Rightarrow> display" where
  "named_row ds name = the (find (\<lambda>d. base_of d = name) ds)"

lemma named_row:
  assumes "name \<in> set (map base_of ds)"
  shows "named_row ds name \<in> set ds" and "base_of (named_row ds name) = name"
proof -
  have "find (\<lambda>d. base_of d = name) ds \<noteq> None" using assms by (auto simp: find_None_iff)
  then obtain d where d: "find (\<lambda>d. base_of d = name) ds = Some d" by blast
  then have "d \<in> set ds" "base_of d = name" by (auto simp: find_Some_iff)
  with d show "named_row ds name \<in> set ds" "base_of (named_row ds name) = name"
    by (simp_all add: named_row_def)
qed

lemma recognisedD:
  assumes "recognised ds rs"
  shows "distinct (map base_of ds)" and "inj_on d_id (set ds)" and "set (map rd_name rs) \<subseteq> set (map base_of ds)"
  using assms unfolding recognised_def distinct_map by blast+

lemma recognised_match:
  assumes "recognised ds (r # rs)" and "seen = (\<lambda>n. d_id (named_row ds n)) ` N" and "N \<subseteq> set (map base_of ds)"
    and "rd_name r \<notin> N"
  shows "findReportedDisplayMatch ds seen (rd_name r) idx = Some (named_row ds (rd_name r))"
proof -
  have name: "rd_name r \<in> set (map base_of ds)" using recognisedD(3) [OF assms(1)] by simp
  have "d_id (named_row ds (rd_name r)) \<noteq> d_id (named_row ds n)" if "n \<in> N" for n
  proof
    assume eq: "d_id (named_row ds (rd_name r)) = d_id (named_row ds n)"
    have n: "n \<in> set (map base_of ds)" using assms(3) that by (rule subsetD)
    have "named_row ds (rd_name r) = named_row ds n"
      by (rule inj_onD [OF recognisedD(2) [OF assms(1)] eq named_row(1) [OF name] named_row(1) [OF n]])
    then have "base_of (named_row ds (rd_name r)) = base_of (named_row ds n)" by (rule arg_cong)
    then have "rd_name r = n" by (simp only: named_row(2) [OF name] named_row(2) [OF n])
    with that assms(4) show False by blast
  qed
  then have "d_id (named_row ds (rd_name r)) \<notin> seen" using assms(2) by auto
  then show ?thesis
    using find_named [of ds "named_row ds (rd_name r)" "rd_name r" seen] named_row [OF name] recognisedD(1) [OF assms(1)]
    by (simp add: findReportedDisplayMatch_def)
qed

text \<open>The rows that result, as a function of the reports.\<close>

definition refreshed :: "bool \<Rightarrow> string \<Rightarrow> reported_display \<Rightarrow> nat \<Rightarrow> display \<Rightarrow> display \<Rightarrow> bool" where
  "refreshed viewer kname r position d d' \<longleftrightarrow> d_id d' = d_id d \<and> display_settings d' = display_settings d
     \<and> d_name d' = kioskDisplayName kname (rd_name r) \<and> d_index d' = reported_index position r
     \<and> d_width_px d' = rd_width_px r \<and> d_height_px d' = rd_height_px r
     \<and> d_is_enabled d' = (if viewer then d_is_enabled d else True)"

definition rows_with :: "content_db \<Rightarrow> string \<Rightarrow> display list" where
  "rows_with db did = filter (\<lambda>d. d_id d = did) (c_displays db)"

lemma rows_with_map_display:
  assumes "\<And>d. d_id (f d) = d_id d"
  shows "rows_with (map_display did f db) x = (if x = did then map f (rows_with db did) else rows_with db x)"
proof -
  have "filter (\<lambda>d. d_id d = x) (map (\<lambda>d. if d_id d = did then f d else d) ds)
      = (if x = did then map f (filter (\<lambda>d. d_id d = did) ds) else filter (\<lambda>d. d_id d = x) ds)" for ds
    using assms by (induction ds) auto
  then show ?thesis by (simp add: rows_with_def map_display_def)
qed

lemma store_recognised:
  assumes "findReportedDisplayMatch (sc_existing cx) (set (ds_seen st)) (rd_name r) (reported_index position r) = Some m"
    and "rows_with (ds_db st) (d_id m) = [m]"
  shows "ds_seen (store_reported cx position r p st) = d_id m # ds_seen st"
    and "ds_created (store_reported cx position r p st) = ds_created st"
    and "\<exists>m'. refreshed (sc_viewer cx) (sc_kiosk_name cx) r position m m' \<and> rows_with (ds_db (store_reported cx position r p st)) (d_id m) = [m']"
    and "x \<noteq> d_id m \<Longrightarrow> rows_with (ds_db (store_reported cx position r p st)) x = rows_with (ds_db st) x"
    and "map d_id (c_displays (ds_db (store_reported cx position r p st))) = map d_id (c_displays (ds_db st))"
proof -
  let ?name = "kioskDisplayName (sc_kiosk_name cx) (rd_name r)" and ?idx = "reported_index position r"
  let ?st = "store_reported cx position r p st"
  let ?f = "refresh_display (sc_now cx) (sc_viewer cx) ?name ?idx r p"
  have st: "?st = st\<lparr>ds_seen := d_id m # ds_seen st, ds_db := (if display_differs (sc_viewer cx) ?name ?idx r p m
      then map_display (d_id m) ?f (ds_db st) else ds_db st)\<rparr>"
    using assms(1) by (simp add: store_reported_def Let_def)
  show "ds_seen ?st = d_id m # ds_seen st" "ds_created ?st = ds_created st"
    "map d_id (c_displays (ds_db ?st)) = map d_id (c_displays (ds_db st))"
    by (simp_all add: st map_display_def)
  show "x \<noteq> d_id m \<Longrightarrow> rows_with (ds_db ?st) x = rows_with (ds_db st) x"
    by (simp add: st rows_with_map_display)
  show "\<exists>m'. refreshed (sc_viewer cx) (sc_kiosk_name cx) r position m m' \<and> rows_with (ds_db ?st) (d_id m) = [m']"
  proof (cases "display_differs (sc_viewer cx) ?name ?idx r p m")
    case True
    have "refreshed (sc_viewer cx) (sc_kiosk_name cx) r position m (?f m)"
      by (cases p) (simp_all add: refreshed_def, simp_all add: refresh_display_def set_power_def)
    then show ?thesis using True assms(2) by (simp add: st rows_with_map_display)
  next
    case False
    then have "refreshed (sc_viewer cx) (sc_kiosk_name cx) r position m m" by (auto simp: refreshed_def display_differs_def)
    then show ?thesis using False assms(2) by (simp add: st)
  qed
qed


definition row_id :: "display list \<Rightarrow> string \<Rightarrow> string" where
  "row_id ds name = d_id (named_row ds name)"

lemma row_id_inj:
  assumes "recognised ds rs" and "n \<in> set (map base_of ds)" and "n' \<in> set (map base_of ds)" and "row_id ds n = row_id ds n'"
  shows "n = n'"
proof -
  have "named_row ds n = named_row ds n'"
    by (rule inj_onD [OF recognisedD(2) [OF assms(1)] _ named_row(1) [OF assms(2)] named_row(1) [OF assms(3)]])
      (use assms(4) in \<open>simp only: row_id_def\<close>)
  then have "base_of (named_row ds n) = base_of (named_row ds n')" by (rule arg_cong)
  then show ?thesis by (simp only: named_row(2) [OF assms(2)] named_row(2) [OF assms(3)])
qed

lemma store_reported_power: "store_reported cx position r p (st\<lparr>ds_power := pw\<rparr>) = (store_reported cx position r p st)\<lparr>ds_power := pw\<rparr>"
  by (simp add: store_reported_def Let_def split: option.split)

lemma sync_display_store:
  obtains p pw where "sync_display cx position r st = (store_reported cx position r p st)\<lparr>ds_power := pw\<rparr>"
proof -
  obtain acc pw where "power_accepted cx r (ds_power st) = (acc, pw)" by force
  then show thesis by (intro that) (simp add: sync_display_def Let_def store_reported_power)
qed

text \<open>\<open>N\<close> holds the names already seen; \<open>placed\<close> says where a report has gone.\<close>

definition placed :: "sync_context \<Rightarrow> display list \<Rightarrow> nat \<Rightarrow> reported_display \<Rightarrow> content_db \<Rightarrow> bool" where
  "placed cx ds position r db \<longleftrightarrow>
     (\<exists>m'. refreshed (sc_viewer cx) (sc_kiosk_name cx) r position (named_row ds (rd_name r)) m'
       \<and> rows_with db (row_id ds (rd_name r)) = [m'])"

definition pending_rows :: "display list \<Rightarrow> string set \<Rightarrow> content_db \<Rightarrow> bool" where
  "pending_rows ds N db \<longleftrightarrow> (\<forall>n \<in> set (map base_of ds) - N. rows_with db (row_id ds n) = [named_row ds n])"

lemma sync_one_recognised:
  assumes "recognised ds (r # rs)" and "sc_existing cx = ds" and "N \<subseteq> set (map base_of ds)" and "rd_name r \<notin> N"
    and "set (ds_seen st) = row_id ds ` N" and "pending_rows ds N (ds_db st)"
  shows "set (ds_seen (sync_display cx position r st)) = row_id ds ` insert (rd_name r) N"
    and "placed cx ds position r (ds_db (sync_display cx position r st))"
    and "pending_rows ds (insert (rd_name r) N) (ds_db (sync_display cx position r st))"
    and "map d_id (c_displays (ds_db (sync_display cx position r st))) = map d_id (c_displays (ds_db st))"
    and "x \<noteq> row_id ds (rd_name r) \<Longrightarrow> rows_with (ds_db (sync_display cx position r st)) x = rows_with (ds_db st) x"
proof -
  let ?m = "named_row ds (rd_name r)"
  obtain p pw where st: "sync_display cx position r st = (store_reported cx position r p st)\<lparr>ds_power := pw\<rparr>"
    by (rule sync_display_store)
  have name: "rd_name r \<in> set (map base_of ds)" using recognisedD(3) [OF assms(1)] by simp
  have seen: "set (ds_seen st) = (\<lambda>n. d_id (named_row ds n)) ` N" using assms(5) by (simp add: row_id_def)
  have match: "findReportedDisplayMatch (sc_existing cx) (set (ds_seen st)) (rd_name r) (reported_index position r) = Some ?m"
    unfolding assms(2) by (rule recognised_match [OF assms(1) seen assms(3,4)])
  have row: "rows_with (ds_db st) (d_id ?m) = [?m]"
    using assms(4,6) name by (simp add: pending_rows_def row_id_def)
  note stored = store_recognised [OF match row, where p = p]
  show "set (ds_seen (sync_display cx position r st)) = row_id ds ` insert (rd_name r) N"
    using stored(1) assms(5) by (simp add: st row_id_def)
  show "placed cx ds position r (ds_db (sync_display cx position r st))"
    using stored(3) by (simp add: st placed_def row_id_def)
  show "map d_id (c_displays (ds_db (sync_display cx position r st))) = map d_id (c_displays (ds_db st))"
    using stored(5) by (simp add: st)
  show other: "rows_with (ds_db (sync_display cx position r st)) x = rows_with (ds_db st) x"
    if "x \<noteq> row_id ds (rd_name r)" for x
    using stored(4) [where x = x] that by (simp add: st row_id_def)
  show "pending_rows ds (insert (rd_name r) N) (ds_db (sync_display cx position r st))"
    unfolding pending_rows_def
  proof
    fix n assume n: "n \<in> set (map base_of ds) - insert (rd_name r) N"
    then have "row_id ds n \<noteq> row_id ds (rd_name r)" using row_id_inj [OF assms(1) _ name, of n] by blast
    then show "rows_with (ds_db (sync_display cx position r st)) (row_id ds n) = [named_row ds n]"
      using other [of "row_id ds n"] n assms(6) by (simp add: pending_rows_def)
  qed
qed

lemma sync_recognised:
  assumes "recognised ds rs" and "sc_existing cx = ds" and "N \<subseteq> set (map base_of ds)" and "N \<inter> set (map rd_name rs) = {}"
    and "set (ds_seen st) = row_id ds ` N" and "pending_rows ds N (ds_db st)"
  shows "set (ds_seen (sync_reported cx position rs st)) = row_id ds ` (N \<union> set (map rd_name rs))
    \<and> map d_id (c_displays (ds_db (sync_reported cx position rs st))) = map d_id (c_displays (ds_db st))
    \<and> (\<forall>i < length rs. placed cx ds (position + i) (rs ! i) (ds_db (sync_reported cx position rs st)))
    \<and> (\<forall>x. x \<notin> row_id ds ` set (map rd_name rs) \<longrightarrow>
          rows_with (ds_db (sync_reported cx position rs st)) x = rows_with (ds_db st) x)"
  using assms
proof (induction rs arbitrary: position st N)
  case (Cons r rs)
  let ?st1 = "sync_display cx position r st" and ?st2 = "sync_reported cx (Suc position) rs (sync_display cx position r st)"
  have notin: "rd_name r \<notin> N" and dis: "insert (rd_name r) N \<inter> set (map rd_name rs) = {}"
    using Cons.prems(1,4) by (auto simp: recognised_def)
  have sub: "insert (rd_name r) N \<subseteq> set (map base_of ds)" using Cons.prems(1,3) by (simp add: recognised_def)
  have rec: "recognised ds rs" using Cons.prems(1) by (simp add: recognised_def)
  note one = sync_one_recognised [OF Cons.prems(1-3) notin Cons.prems(5,6), where position = position]
  note rest = Cons.IH [OF rec Cons.prems(2) sub dis one(1,3), where position = "Suc position"]
  have name: "rd_name r \<in> set (map base_of ds)" using sub by simp
  have "row_id ds (rd_name r) \<notin> row_id ds ` set (map rd_name rs)"
  proof
    assume "row_id ds (rd_name r) \<in> row_id ds ` set (map rd_name rs)"
    then obtain n where n: "n \<in> set (map rd_name rs)" "row_id ds (rd_name r) = row_id ds n" by blast
    have "n \<in> set (map base_of ds)" using n(1) recognisedD(3) [OF rec] by blast
    then have "rd_name r = n" using row_id_inj [OF rec name _ n(2)] by blast
    then show False using n(1) dis by blast
  qed
  then have "rows_with (ds_db ?st2) (row_id ds (rd_name r)) = rows_with (ds_db ?st1) (row_id ds (rd_name r))" using rest by blast
  then have first: "placed cx ds position r (ds_db ?st2)" using one(2) by (simp add: placed_def)
  have "placed cx ds (position + i) ((r # rs) ! i) (ds_db ?st2)" if "i < length (r # rs)" for i
    using that first rest by (cases i) simp_all
  moreover have "rows_with (ds_db ?st2) x = rows_with (ds_db st) x" if "x \<notin> row_id ds ` set (map rd_name (r # rs))" for x
    using that rest one(5) [where x = x] by simp
  ultimately show ?case using rest one(4) by simp
qed simp


lemma rows_with_distinct:
  assumes "distinct (map d_id (c_displays db))" and "m \<in> set (c_displays db)"
  shows "rows_with db (d_id m) = [m]"
proof -
  have "distinct (map d_id ds) \<Longrightarrow> m \<in> set ds \<Longrightarrow> filter (\<lambda>d. d_id d = d_id m) ds = [m]" for ds
    by (induction ds) (auto simp: filter_empty_conv, metis imageI)
  then show ?thesis using assms by (simp add: rows_with_def)
qed

lemma remove_unseen_rows:
  "x \<in> set seen \<Longrightarrow> rows_with (remove_unseen existing seen db) x = rows_with db x"
proof (induction existing arbitrary: db)
  case (Cons d existing)
  have "rows_with (deleteDisplayIfUnused (d_id d) db) x = rows_with db x" if "d_id d \<notin> set seen"
    using that Cons.prems by (auto simp: deleteDisplayIfUnused_def rows_with_def intro!: filter_cong)
  then show ?case using Cons by (auto simp: remove_unseen_def)
qed (simp add: remove_unseen_def)

lemma remove_unseen_ids: "set (c_displays (remove_unseen existing seen db)) \<subseteq> set (c_displays db)"
proof (induction existing arbitrary: db)
  case (Cons d existing)
  have "set (c_displays (if d_id d \<in> set seen then db else deleteDisplayIfUnused (d_id d) db)) \<subseteq> set (c_displays db)"
    by (auto simp: deleteDisplayIfUnused_def)
  with Cons.IH show ?case by (fastforce simp: remove_unseen_def)
qed (simp add: remove_unseen_def)

text \<open>
  (C21) When the stored displays of a kiosk have different base names and every reported name is
  one of them, each report refreshes exactly the row of its name, in whatever order and with
  whatever indexes the displays are reported: the row keeps its identity and settings and
  takes name, index, size and enablement from the report, and no display is created.
\<close>

theorem known_displays_recognised:
  assumes "distinct (map d_id (c_displays db))" and "recognised (listDisplaysForKiosk db kid) rs" and "i < length rs"
    and "sync_displays fresh dflt now ordered viewer kid kname rs (db, pw) = (db', pw')"
  shows "(\<exists>d'. rows_with db' (row_id (listDisplaysForKiosk db kid) (rd_name (rs ! i))) = [d']
           \<and> refreshed viewer kname (rs ! i) i (named_row (listDisplaysForKiosk db kid) (rd_name (rs ! i))) d')
       \<and> d_id ` set (c_displays db') \<subseteq> d_id ` set (c_displays db)"
proof -
  let ?ds = "listDisplaysForKiosk db kid"
  obtain enforce pw1 where e: "enforce_order ordered viewer kid now pw = (enforce, pw1)" by force
  let ?cx = "\<lparr>sc_now = now, sc_kiosk_id = kid, sc_kiosk_name = kname, sc_viewer = viewer, sc_enforce = enforce,
      sc_defaults = dflt, sc_fresh = fresh, sc_existing = ?ds\<rparr>"
  let ?init = "\<lparr>ds_db = db, ds_power = pw1, ds_seen = [], ds_created = 0\<rparr>"
  let ?st = "sync_reported ?cx 0 rs ?init"
  have db': "db' = remove_unseen ?ds (ds_seen ?st) (ds_db ?st)" using assms(4) e by (auto simp: sync_displays_def Let_def)
  have "rows_with db (row_id ?ds n) = [named_row ?ds n]" if n: "n \<in> set (map base_of ?ds)" for n
  proof -
    have "named_row ?ds n \<in> set (c_displays db)" using named_row(1) [OF n] by (simp add: listDisplaysForKiosk_def)
    then show ?thesis unfolding row_id_def by (rule rows_with_distinct [OF assms(1)])
  qed
  then have pending: "pending_rows ?ds {} (ds_db ?init)" by (simp add: pending_rows_def)
  have sync: "set (ds_seen ?st) = row_id ?ds ` ({} \<union> set (map rd_name rs))
    \<and> map d_id (c_displays (ds_db ?st)) = map d_id (c_displays (ds_db ?init))
    \<and> (\<forall>i < length rs. placed ?cx ?ds (0 + i) (rs ! i) (ds_db ?st))
    \<and> (\<forall>x. x \<notin> row_id ?ds ` set (map rd_name rs) \<longrightarrow> rows_with (ds_db ?st) x = rows_with (ds_db ?init) x)"
    by (rule sync_recognised [OF assms(2) _ _ _ _ pending]) simp_all
  have "placed ?cx ?ds i (rs ! i) (ds_db ?st)" using sync assms(3) by simp
  moreover have "row_id ?ds (rd_name (rs ! i)) \<in> set (ds_seen ?st)" using sync assms(3) by (auto simp: image_image)
  ultimately have "placed ?cx ?ds i (rs ! i) db'" unfolding db' placed_def by (simp add: remove_unseen_rows)
  moreover have "d_id ` set (c_displays db') \<subseteq> d_id ` set (c_displays (ds_db ?st))"
    unfolding db' by (rule image_mono [OF remove_unseen_ids])
  moreover have "d_id ` set (c_displays (ds_db ?st)) = d_id ` set (c_displays db)"
    using arg_cong [where f = set, OF conjunct1 [OF conjunct2 [OF sync]]] by simp
  ultimately show ?thesis by (auto simp: placed_def)
qed


section \<open>Viewers\<close>

lemma map_display_kiosks [simp]: "c_kiosks (map_display did f db) = c_kiosks db"
  by (simp add: map_display_def)

lemma attach_all_kiosks [simp]: "c_kiosks (foldl (\<lambda>x lid. attachLayoutToDisplay did lid x) db ids) = c_kiosks db"
  by (induction ids arbitrary: db) (simp_all add: attachLayoutToDisplay_def)

lemma createKioskDisplay_kiosks [simp]: "c_kiosks (createKioskDisplay raw did kid name idx w h db) = c_kiosks db"
  by (simp add: createKioskDisplay_def Let_def split: prod.split)

lemma sync_display_kiosks [simp]: "c_kiosks (ds_db (sync_display cx position r st)) = c_kiosks (ds_db st)"
  by (simp add: sync_display_def store_reported_def Let_def split: prod.split option.split)

lemma sync_reported_kiosks [simp]: "c_kiosks (ds_db (sync_reported cx position rs st)) = c_kiosks (ds_db st)"
  by (induction rs arbitrary: position st) simp_all

lemma remove_unseen_kiosks [simp]: "c_kiosks (remove_unseen existing seen db) = c_kiosks db"
  by (induction existing arbitrary: db) (simp_all add: remove_unseen_def deleteDisplayIfUnused_def)

lemma sync_displays_kiosks [simp]:
  "c_kiosks (fst (sync_displays fresh dflt now ordered viewer kid kname rs s)) = c_kiosks (fst s)"
  by (simp add: sync_displays_def Let_def split: prod.split)

lemma getKioskById_map:
  assumes "\<And>k. k_id (f k) = k_id k"
  shows "getKioskById (map_kiosk kid f db) kid = map_option f (getKioskById db kid)"
proof -
  have "find (\<lambda>k. k_id k = kid) (map (\<lambda>k. if k_id k = kid then f k else k) ks)
      = map_option f (find (\<lambda>k. k_id k = kid) ks)" for ks
    using assms by (induction ks) auto
  then show ?thesis by (simp add: getKioskById_def map_kiosk_def)
qed

text \<open>What configuration and local access a kiosk row grants.\<close>

definition local_access :: "kiosk \<Rightarrow> string option \<times> number option \<times> number \<times> string option" where
  "local_access k = (k_local_key k, k_local_port k, k_managed_config_applied_version k, k_managed_config_error k)"

lemma first_occurrences_head: "x \<in> set (first_occurrences (x # xs))"
  by (simp add: first_occurrences_def)

text \<open>
  No heartbeat frees an Android viewer from its profile: it stays a viewer whatever
  capabilities it reports, it never stores a local key or port nor a configuration version,
  and the answer is a refusal (more than one display) or the bare viewer answer, without
  update policy or configuration.
\<close>

theorem viewer_stays_viewer:
  assumes "kiosk_heartbeat_route lib extra now ip profile b s = (r, s')"
    and "is_viewer profile" and "getKioskById (hs_db s) (k_id profile) = Some k" and "is_viewer k"
  shows "(\<exists>k'. getKioskById (hs_db s') (k_id profile) = Some k' \<and> is_viewer k' \<and> local_access k' = local_access k)
       \<and> (r = HeartbeatRefused 400 \<or> r = ViewerAlive now) \<and> hs_syncs s' = hs_syncs s"
proof (cases "length (kh_displays b) > 1")
  case True
  then show ?thesis using assms by (auto simp: kiosk_heartbeat_route_def Let_def)
next
  case False
  let ?db1 = "heartbeat_prepare lib now ip profile b (hs_db s)"
  let ?res = "kiosk_heartbeat_route lib extra now ip profile b s"
  have kiosks: "c_kiosks (hs_db (snd ?res)) = c_kiosks ?db1"
    and reply: "fst ?res = ViewerAlive now" and syncs: "hs_syncs (snd ?res) = hs_syncs s"
    using False assms(2) by (simp_all add: kiosk_heartbeat_route_def Let_def case_prod_unfold)
  have "\<exists>k'. getKioskById ?db1 (k_id profile) = Some k' \<and> is_viewer k' \<and> local_access k' = local_access k"
    using assms(2-4) first_occurrences_head [of "''android-viewer''"]
    by (cases "kh_capabilities b")
      (auto simp: heartbeat_prepare_def Let_def note_managed_config_def accepts_managed_config_def touchKiosk_def
        getKioskById_map touch_kiosk_def coalesce_def is_viewer_def viewer_capabilities_def local_access_def)
  moreover have "getKioskById (hs_db (snd ?res)) = getKioskById ?db1" using kiosks by (simp add: getKioskById_def [abs_def] fun_eq_iff)
  ultimately show ?thesis using assms(1) reply syncs by simp
qed

section \<open>Where names fail\<close>

definition lobby_db :: "string \<Rightarrow> display list \<Rightarrow> content_db" where
  "lobby_db kname ds =
     empty_content\<lparr>c_kiosks := [sample_kiosk\<lparr>k_id := ''k1'', k_name := kname\<rparr>], c_displays := ds,
                   c_display_layouts := [(''d1'', ''L'')]\<rparr>"

definition lobby_display :: "string \<Rightarrow> string \<Rightarrow> number \<Rightarrow> display" where
  "lobby_display did name idx = sample_display\<lparr>d_id := did, d_name := name, d_index := idx, d_kiosk_id := Some ''k1''\<rparr>"

definition lobby_report :: "string \<Rightarrow> number \<Rightarrow> reported_display" where
  "lobby_report name idx = \<lparr>rd_name = name, rd_index = Some idx, rd_width_px = 1, rd_height_px = 1,
     rd_power_state = ''unknown'', rd_power = JObj []\<rparr>"

definition lobby_fresh :: "nat \<Rightarrow> string" where
  "lobby_fresh n = replicate (n + 9) CHR ''n''"

definition lobby_sync :: "string \<Rightarrow> display list \<Rightarrow> reported_display list \<Rightarrow> content_db \<times> power_state" where
  "lobby_sync kname ds rs =
     sync_displays lobby_fresh (JObj []) 5 False False ''k1'' kname rs (lobby_db kname ds, initial_power_state)"

definition lobby_rows :: "content_db \<times> power_state \<Rightarrow> (string \<times> string) list" where
  "lobby_rows s = map (\<lambda>d. (d_id d, d_name d)) (c_displays (fst s))"

text \<open>
  A kiosk whose own name holds a colon and a space: its displays are not found by name, and
  when they are reported in another order their rows, and so their layouts, change places.
\<close>

lemma colon_name_swaps_rows:
  "lobby_rows (lobby_sync ''Lobby: N'' [lobby_display ''d1'' ''Lobby: N: A'' 0, lobby_display ''d2'' ''Lobby: N: B'' 1]
     [lobby_report ''B'' 0, lobby_report ''A'' 1])
   = [(''d1'', ''Lobby: N: B''), (''d2'', ''Lobby: N: A'')]"
  by code_simp

text \<open>
  A new display that is reported first takes, by its index, the row of a display that is
  reported after it by name; the known display then gets a new row without its layouts.
\<close>

lemma new_display_takes_row:
  "lobby_rows (lobby_sync ''Lobby'' [lobby_display ''d1'' ''Lobby: A'' 0] [lobby_report ''B'' 0, lobby_report ''A'' 1])
   = [(''d1'', ''Lobby: B''), (lobby_fresh 0, ''Lobby: A'')]"
  by code_simp

text \<open>The schema's default makes the fall-back to the position unreachable.\<close>

lemma position_never_used:
  assumes "rd_index r = validated_index raw" and "raw = None \<or> (\<exists>i \<ge> 0. raw = Some (of_int i))"
  shows "reported_index position r = nullish raw 0"
proof -
  have "is_integer (nullish raw 0) \<and> nullish raw 0 \<ge> 0" using assms(2) is_integer_of_int [of 0] by auto
  then show ?thesis using assms(1) by (simp add: reported_index_def validated_index_def)
qed

section \<open>Instances\<close>

definition lobby_displays :: "display list" where
  "lobby_displays = [lobby_display ''d1'' ''Lobby: A'' 0, lobby_display ''d2'' ''Lobby: B'' 1]"

definition lobby_reports :: "reported_display list" where
  "lobby_reports = [lobby_report ''B'' 0, lobby_report ''A'' 1]"

lemma lobby_recognised: "recognised (listDisplaysForKiosk (lobby_db ''Lobby'' lobby_displays) ''k1'') lobby_reports"
  by code_simp

lemma lobby_second: "row_id (listDisplaysForKiosk (lobby_db ''Lobby'' lobby_displays) ''k1'') (rd_name (lobby_reports ! 1)) = ''d1''"
  by code_simp

theorem known_displays_recognised_witness:
  "\<exists>d'. rows_with (fst (lobby_sync ''Lobby'' lobby_displays lobby_reports)) ''d1'' = [d'] \<and> d_index d' = 1"
proof -
  have "distinct (map d_id (c_displays (lobby_db ''Lobby'' lobby_displays)))" "1 < length lobby_reports" by code_simp+
  from known_displays_recognised [OF this(1) lobby_recognised this(2),
      of lobby_fresh "JObj []" 5 False False "''Lobby''" initial_power_state
         "fst (lobby_sync ''Lobby'' lobby_displays lobby_reports)" "snd (lobby_sync ''Lobby'' lobby_displays lobby_reports)"]
  obtain d' where d': "rows_with (fst (lobby_sync ''Lobby'' lobby_displays lobby_reports)) ''d1'' = [d']"
    "d_index d' = reported_index 1 (lobby_reports ! 1)"
    unfolding lobby_second by (auto simp: lobby_sync_def refreshed_def)
  moreover have "reported_index 1 (lobby_reports ! 1) = 1" by code_simp
  ultimately show ?thesis by auto
qed

definition lobby_lib :: heartbeat_lib where
  "lobby_lib = \<lparr>hl_print = (\<lambda>_. ''j''), hl_parse = (\<lambda>_. None), hl_fresh = lobby_fresh, hl_local = (\<lambda>_. (0, 0, 0))\<rparr>"

definition lobby_beat :: "reported_display list \<Rightarrow> kiosk_heartbeat" where
  "lobby_beat rs = \<lparr>kh_capabilities = None, kh_bundle_version = None, kh_kiosk_app_version = ''1'', kh_firmware_target = [],
     kh_os_version = [], kh_os_update_compatibility = [], kh_displays = rs, kh_cpu_temp_c = None,
     kh_cpu_load_percent = None, kh_gpu_load_percent = None, kh_fan_rpm = None, kh_fan_pwm = None,
     kh_memory_total_mb = None, kh_memory_used_mb = None, kh_disk_total_mb = None, kh_disk_free_mb = None,
     kh_disk_used_percent = None, kh_local_key = None, kh_local_port = None, kh_reported_hostname = None,
     kh_network_interfaces = [], kh_logging = JNull, kh_managed_config_applied_version = None,
     kh_managed_config_error = None, kh_onvif_subscriptions = JNull, kh_pipeline_stats = []\<rparr>"

definition lobby :: heartbeat_state where
  "lobby = \<lparr>hs_db = lobby_db ''Lobby'' lobby_displays, hs_power = initial_power_state, hs_syncs = []\<rparr>"

definition lobby_after :: heartbeat_state where
  "lobby_after = snd (kiosk_heartbeat_route lobby_lib (\<lambda>_. JObj []) 5 None (sample_kiosk\<lparr>k_id := ''k1'', k_name := ''Lobby''\<rparr>)
     (lobby_beat [lobby_report ''C'' 7]) lobby)"

lemma lobby_settings:
  "filter (assigned (hs_db lobby)) (c_displays (hs_db lobby)) = [lobby_display ''d1'' ''Lobby: A'' 0]"
  by code_simp

theorem heartbeat_keeps_assigned_witness:
  "map display_settings (filter (assigned (hs_db lobby)) (c_displays (hs_db lobby_after)))
     = [display_settings (lobby_display ''d1'' ''Lobby: A'' 0)]"
proof -
  have run: "kiosk_heartbeat_route lobby_lib (\<lambda>_. JObj []) 5 None (sample_kiosk\<lparr>k_id := ''k1'', k_name := ''Lobby''\<rparr>)
      (lobby_beat [lobby_report ''C'' 7]) lobby
    = (fst (kiosk_heartbeat_route lobby_lib (\<lambda>_. JObj []) 5 None (sample_kiosk\<lparr>k_id := ''k1'', k_name := ''Lobby''\<rparr>)
      (lobby_beat [lobby_report ''C'' 7]) lobby), lobby_after)"
    by (simp add: lobby_after_def)
  have ids: "distinct (map d_id (c_displays (hs_db lobby)))" by code_simp
  have "length ` known_ids (hs_db lobby) \<subseteq> {2}"
    by (auto simp: known_ids_def lobby_def lobby_db_def lobby_displays_def lobby_display_def)
  moreover have "length (lobby_fresh n) \<noteq> 2" for n by (simp add: lobby_fresh_def)
  ultimately have "lobby_fresh n \<notin> known_ids (hs_db lobby)" for n by blast
  then have new: "range (hl_fresh lobby_lib) \<inter> known_ids (hs_db lobby) = {}"
    unfolding lobby_lib_def heartbeat_lib.simps by blast
  from heartbeat_keeps_assigned [OF run ids new, THEN conjunct2, THEN conjunct1]
  show ?thesis unfolding lobby_settings by simp
qed

definition tablet :: kiosk where
  "tablet = sample_kiosk\<lparr>k_id := ''k1'', k_capabilities := [''android-viewer'']\<rparr>"

definition tablet_state :: heartbeat_state where
  "tablet_state = \<lparr>hs_db = empty_content\<lparr>c_kiosks := [tablet]\<rparr>, hs_power = initial_power_state, hs_syncs = []\<rparr>"

definition tablet_beat :: kiosk_heartbeat where
  "tablet_beat = (lobby_beat [])\<lparr>kh_capabilities := Some [''windows''], kh_local_key := Some ''key''\<rparr>"

definition tablet_result :: "heartbeat_reply \<times> heartbeat_state" where
  "tablet_result = kiosk_heartbeat_route lobby_lib (\<lambda>_. JObj []) 5 None tablet tablet_beat tablet_state"

theorem viewer_stays_viewer_witness:
  "\<exists>k'. getKioskById (hs_db (snd tablet_result)) ''k1'' = Some k' \<and> is_viewer k' \<and> k_local_key k' = None"
proof -
  have run: "kiosk_heartbeat_route lobby_lib (\<lambda>_. JObj []) 5 None tablet tablet_beat tablet_state = (fst tablet_result, snd tablet_result)"
    by (simp add: tablet_result_def)
  have viewer: "is_viewer tablet" by code_simp
  have row: "getKioskById (hs_db tablet_state) (k_id tablet) = Some tablet"
    by (simp add: getKioskById_def tablet_state_def)
  have tid: "k_id tablet = ''k1''" and key: "k_local_key tablet = None" by (simp_all add: tablet_def sample_kiosk_def)
  obtain k' where "getKioskById (hs_db (snd tablet_result)) (k_id tablet) = Some k'" "is_viewer k'"
    "local_access k' = local_access tablet"
    using viewer_stays_viewer [OF run viewer row viewer] by (elim conjE exE) (rule that)
  then show ?thesis unfolding tid using key by (simp add: local_access_def)
qed

end
