(* ===== verification/BF_DeviceGate.thy ===== *)
theory BF_DeviceGate
  imports BF_Events BF_Gate BF_Coordinator
begin

text \<open>
  The gate of the device API, \<^verbatim>\<open>server/src/shared/display-session.ts\<close>: device keys, the browser
  session of an Android viewer and the paths it may load, the answer to a deleted device, with
  the check route of \<^verbatim>\<open>service-api-http/index.ts\<close>, the signed page scope of
  \<^verbatim>\<open>nodered-bridge.ts\<close> and the deletion of a kiosk in \<^verbatim>\<open>db/repository.ts\<close>.  The host and the
  scheme that the server derives for a request are fields of the request; the page catalogue of
  Node-RED, HMAC and the JSON parser for session claims are fields of the environment.
\<close>

section \<open>Paths of addresses\<close>

text \<open>
  The path of \<^verbatim>\<open>new URL(uri, "https://display.invalid")\<close> for an address that starts with one
  slash: tabs and line breaks are removed, dot segments resolved and other bytes encoded.
  Whether a caret is encoded depends on the release of the runtime and is an argument.
\<close>

definition plain_char :: "bool \<Rightarrow> char \<Rightarrow> bool" where
  "plain_char caret c \<longleftrightarrow> 32 < (of_char c :: nat) \<and> (of_char c :: nat) < 127
     \<and> c \<notin> set [CHR 0x22, CHR ''#'', CHR ''<'', CHR ''>'', CHR ''?'', CHR 0x60, CHR ''{'', CHR ''}'']
     \<and> \<not> (caret \<and> c = CHR ''^'')"

definition encode_byte :: "nat \<Rightarrow> string" where
  "encode_byte b = CHR ''%'' # js_upper (hex_encode [b])"

definition encode_char :: "bool \<Rightarrow> char \<Rightarrow> string" where
  "encode_char caret c = (if plain_char caret c then [c] else concat (map encode_byte (utf8_encode [c])))"

definition encode_segment :: "bool \<Rightarrow> string \<Rightarrow> string" where
  "encode_segment caret s = concat (map (encode_char caret) s)"

definition single_dot :: "string \<Rightarrow> bool" where
  "single_dot s \<longleftrightarrow> js_lower s \<in> set [''.'', ''%2e'']"

definition double_dot :: "string \<Rightarrow> bool" where
  "double_dot s \<longleftrightarrow> js_lower s \<in> set [''..'', ''.%2e'', ''%2e.'', ''%2e%2e'']"

fun resolve_segments :: "bool \<Rightarrow> string list \<Rightarrow> string list \<Rightarrow> string list" where
  "resolve_segments caret path [] = path"
| "resolve_segments caret path [s] =
     (if double_dot s then butlast path @ [[]]
      else if single_dot s then path @ [[]]
      else path @ [encode_segment caret s])"
| "resolve_segments caret path (s # r # ss) =
     (if double_dot s then resolve_segments caret (butlast path) (r # ss)
      else if single_dot s then resolve_segments caret path (r # ss)
      else resolve_segments caret (path @ [encode_segment caret s]) (r # ss))"

definition before_query :: "string \<Rightarrow> string" where
  "before_query uri = takeWhile (\<lambda>c. c \<noteq> CHR ''?'' \<and> c \<noteq> CHR ''#'') uri"

definition url_clean :: "string \<Rightarrow> string" where
  "url_clean uri =
     filter (\<lambda>c. (of_char c :: nat) \<notin> set [9, 10, 13]) (rev (dropWhile (\<lambda>c. (of_char c :: nat) \<le> 32) (rev uri)))"

definition url_pathname :: "bool \<Rightarrow> string \<Rightarrow> string" where
  "url_pathname caret uri =
     CHR ''/'' # join_with ''/'' (resolve_segments caret []
       (split_on CHR ''/'' (map (\<lambda>c. if c = CHR 0x5C then CHR ''/'' else c) (drop 1 (before_query (url_clean uri))))))"

definition strip_slash :: "string \<Rightarrow> string" where
  "strip_slash p = (if suffix ''/'' p then butlast p else p)"

section \<open>Pages a display may load\<close>

record dashboard_page =
  pg_id :: string
  pg_name :: string
  pg_hidden :: bool
  pg_path :: string
  pg_basePath :: string

definition forbidden_in_path :: "char \<Rightarrow> bool" where
  "forbidden_in_path c \<longleftrightarrow> c = CHR 0x5C \<or> c = CHR ''%'' \<or> (of_char c :: nat) \<le> 32"

definition page_serves :: "string \<Rightarrow> dashboard_page \<Rightarrow> bool" where
  "page_serves requested p \<longleftrightarrow>
     requested = pg_path p \<or> prefix (pg_basePath p @ ''/assets/'') requested
     \<or> requested = pg_basePath p @ ''/_setup'' \<or> requested = pg_basePath p @ ''/socket.io''
     \<or> list_ex (\<lambda>file. requested = pg_basePath p @ ''/'' @ file) [''favicon.ico'', ''apple-touch-icon.png'']"

definition page_assigned :: "string list \<Rightarrow> dashboard_page \<Rightarrow> bool" where
  "page_assigned paths p \<longleftrightarrow> ''/dash/'' @ pg_id p \<in> set paths"

definition displayDashboardRequestAllowed :: "bool \<Rightarrow> string \<Rightarrow> string list \<Rightarrow> dashboard_page list \<Rightarrow> bool" where
  "displayDashboardRequestAllowed caret uri assignedPaths pages =
     (let rawPath = before_query uri in
      if \<not> prefix ''/'' rawPath \<or> prefix ''//'' rawPath \<or> list_ex forbidden_in_path rawPath then False
      else let requested = strip_slash (url_pathname caret uri) in
        if strip_slash rawPath \<noteq> requested then False
        else if requested \<in> set assignedPaths then True
        else list_ex (page_serves requested) (filter (page_assigned assignedPaths) pages))"

section \<open>Environment\<close>

text \<open>
  Node-RED: its page catalogue for a tenant (\<open>None\<close> when the request fails), the secret of the
  manager, and HMAC-SHA-256 of a key and a text.
\<close>

record nodered =
  nr_dashboards :: "string \<Rightarrow> dashboard_page list option"
  nr_secret :: string
  nr_hmac :: "string \<Rightarrow> string \<Rightarrow> bytes"

record display_claims =
  cl_kiosk :: string
  cl_tenant :: string
  cl_key :: string
  cl_expires :: number

text \<open>
  \<open>de_number\<close> prints a number; \<open>de_claims\<close> is \<^verbatim>\<open>JSON.parse\<close> read as claims, \<open>None\<close> for a text
  that is no JSON or whose expiry is no finite number.  Only claims of the server are sealed
  with the key, so the other fields are strings.
\<close>

record device_env =
  de_lib :: auth_lib
  de_caret :: bool
  de_number :: "number \<Rightarrow> string"
  de_claims :: "string \<Rightarrow> display_claims option"
  de_nodered :: "nodered option"

text \<open>A request with the host and the scheme that the server derives for it.\<close>

record device_request =
  dq_request :: request
  dq_host :: string
  dq_scheme :: string

text \<open>The registry with the device rows, the content tables of each schema, and the keys of deleted kiosks.\<close>

record device_db =
  dd_auth :: auth_db
  dd_content :: "string \<Rightarrow> content_db"
  dd_deleted :: "(string \<times> string) list"

datatype device_failure = KeyCheckFailed auth_error | CatalogueUnavailable | ScopeSecretMissing

record device_context =
  dx_device :: device_identity
  dx_kiosk :: "kiosk option"
  dx_scope :: "string option"
  dx_display :: bool

datatype gate_outcome = Answer nat | DeletedAnswer | Pass device_context | NotDevice

section \<open>Repository\<close>

definition kiosk_row :: "device_db \<Rightarrow> string \<Rightarrow> string \<Rightarrow> kiosk option" where
  "kiosk_row db schema kid = find (\<lambda>k. k_id k = kid) (at_kiosks (tables (dd_auth db) schema))"

definition listDeletedKioskKeysByPrefix :: "device_db \<Rightarrow> string \<Rightarrow> string list" where
  "listDeletedKioskKeysByPrefix db pfx = map fst (filter (\<lambda>d. snd d = pfx) (dd_deleted db))"

definition remember_key :: "string \<times> string \<Rightarrow> (string \<times> string) list \<Rightarrow> (string \<times> string) list" where
  "remember_key d ds = (if fst d \<in> set (map fst ds) then ds else ds @ [d])"

text \<open>
  The transaction deletes the kiosk with its displays, their layouts, its labels and its GPIO
  bindings, and remembers the hash of its key.
\<close>

definition delete_kiosk_content :: "string \<Rightarrow> content_db \<Rightarrow> content_db" where
  "delete_kiosk_content kid c =
     c\<lparr>c_kiosks := filter (\<lambda>k. k_id k \<noteq> kid) (c_kiosks c),
       c_display_layouts := filter (\<lambda>x. fst x \<notin> set (map d_id (listDisplaysForKiosk c kid))) (c_display_layouts c),
       c_displays := filter (\<lambda>d. d_kiosk_id d \<noteq> Some kid) (c_displays c),
       c_kiosk_labels := filter (\<lambda>x. kl_kiosk_id x \<noteq> kid) (c_kiosk_labels c),
       c_gpio := filter (\<lambda>g. gb_kiosk_id g \<noteq> kid) (c_gpio c)\<rparr>"

definition deleteKiosk :: "string \<Rightarrow> string \<Rightarrow> device_db \<Rightarrow> device_db" where
  "deleteKiosk schema kid db =
     (let t = tables (dd_auth db) schema in
      db\<lparr>dd_auth := put_tables schema (t\<lparr>at_kiosks := filter (\<lambda>k. k_id k \<noteq> kid) (at_kiosks t)\<rparr>) (dd_auth db),
         dd_content := (\<lambda>s. if visible_schema (dd_auth db) s = visible_schema (dd_auth db) schema
                            then delete_kiosk_content kid (dd_content db s) else dd_content db s),
         dd_deleted := (case kiosk_row db schema kid of
              None \<Rightarrow> dd_deleted db
            | Some k \<Rightarrow> remember_key (k_key_hash k, k_key_prefix k) (dd_deleted db))\<rparr>)"

section \<open>Request checks\<close>

definition forwarded_proto :: "request \<Rightarrow> string option" where
  "forwarded_proto rq = map_option (\<lambda>p. js_trim (hd (split_on CHR '','' p))) (header rq ''x-forwarded-proto'')"

definition request_scheme :: "device_request \<Rightarrow> string" where
  "request_scheme dq = nullish (forwarded_proto (dq_request dq)) (dq_scheme dq)"

definition displayOriginIsValid :: "auth_lib \<Rightarrow> device_request \<Rightarrow> bool" where
  "displayOriginIsValid lib dq =
     (let rq = dq_request dq in
      if \<not> requestOriginIsValid lib rq then False
      else if \<not> truthy_str (header rq ''origin'') then True
      else header rq ''origin'' =
        Some (request_scheme dq @ ''://'' @
              (case header rq ''x-forwarded-host'' of Some h \<Rightarrow> h | None \<Rightarrow> nullish (header rq ''host'') (dq_host dq))))"

text \<open>\<^verbatim>\<open>^Bearer (.+)$\<close>, where the dot matches no line break.\<close>

definition bearer_key :: "request \<Rightarrow> string option" where
  "bearer_key rq =
     (case header rq ''authorization'' of
        None \<Rightarrow> None
      | Some h \<Rightarrow> if prefix ''Bearer '' h \<and> drop 7 h \<noteq> [] \<and> no_line_break (drop 7 h) then Some (drop 7 h) else None)"

definition presented_key :: "request \<Rightarrow> string option" where
  "presented_key rq = (case bearer_key rq of Some b \<Rightarrow> Some b | None \<Rightarrow> cookie rq ''betterframe_kiosk_key'')"

section \<open>Display sessions\<close>

definition display_fingerprint :: "auth_lib \<Rightarrow> string \<Rightarrow> string" where
  "display_fingerprint lib key = hex_encode (lib_sha lib key)"

definition claims_text :: "(number \<Rightarrow> string) \<Rightarrow> display_claims \<Rightarrow> string" where
  "claims_text num c =
     json_text num (JObj [(''kiosk'', JStr (cl_kiosk c)), (''tenant'', JStr (cl_tenant c)),
                          (''key'', JStr (cl_key c)), (''expires'', JNum (cl_expires c))])"

definition new_claims :: "auth_lib \<Rightarrow> timestamp \<Rightarrow> kiosk \<Rightarrow> device_identity \<Rightarrow> display_claims" where
  "new_claims lib now k d =
     \<lparr>cl_kiosk = k_id k, cl_tenant = di_tenant_slug d, cl_key = display_fingerprint lib (k_key_hash k),
      cl_expires = now + 3600 * 1000\<rparr>"

definition display_token :: "device_env \<Rightarrow> timestamp \<Rightarrow> bytes \<Rightarrow> kiosk \<Rightarrow> device_identity \<Rightarrow> string" where
  "display_token env now iv k d =
     encryptString (lib_gcm (de_lib env)) (lib_hkdf (de_lib env)) (lib_server_key (de_lib env)) iv
       (claims_text (de_number env) (new_claims (de_lib env) now k d)) ''android-display-session-v1''"

text \<open>POST display-session: the new cookie and whether it is marked secure, or a status.\<close>

definition display_session_route ::
  "device_env \<Rightarrow> timestamp \<Rightarrow> bytes \<Rightarrow> device_request \<Rightarrow> device_context \<Rightarrow> (nat, string \<times> bool) result" where
  "display_session_route env now iv dq cx =
     (case dx_kiosk cx of
        Some k \<Rightarrow>
          if \<not> isAndroidViewer (Some k) then Inl 403
          else Inr (display_token env now iv k (dx_device cx), request_scheme dq = ''https'')
      | None \<Rightarrow> Inl 403)"

definition scope_payload :: "(number \<Rightarrow> string) \<Rightarrow> timestamp \<Rightarrow> string \<Rightarrow> string list \<Rightarrow> string" where
  "scope_payload num now tenantId pageIds =
     b64u (utf8_encode (json_text num (JObj [(''tenant'', JStr tenantId),
       (''pages'', JArr (map JStr (first_occurrences pageIds))), (''expires'', JNum (now + 60000))])))"

definition signDisplayScope :: "(number \<Rightarrow> string) \<Rightarrow> nodered \<Rightarrow> timestamp \<Rightarrow> string \<Rightarrow> string list \<Rightarrow> string option" where
  "signDisplayScope num nr now tenantId pageIds =
     (if length (nr_secret nr) < 32 then None
      else let payload = scope_payload num now tenantId pageIds
           in Some (payload @ ''.'' @ b64u (nr_hmac nr (nr_secret nr) (''display-scope-v1:'' @ payload))))"

definition open_claims :: "device_env \<Rightarrow> string \<Rightarrow> display_claims option" where
  "open_claims env token =
     (case decryptString (lib_ungcm (de_lib env)) (lib_hkdf (de_lib env)) (lib_server_key (de_lib env)) token
             ''android-display-session-v1'' of
        Inl _ \<Rightarrow> None
      | Inr text \<Rightarrow> de_claims env text)"

text \<open>The kiosk of a session: enabled, still a viewer, and with the key it had.\<close>

definition session_kiosk :: "device_env \<Rightarrow> device_db \<Rightarrow> string \<Rightarrow> display_claims \<Rightarrow> kiosk option" where
  "session_kiosk env db schema c =
     (case kiosk_row db schema (cl_kiosk c) of
        None \<Rightarrow> None
      | Some k \<Rightarrow> if k_enabled k \<and> isAndroidViewer (Some k)
                  \<and> display_fingerprint (de_lib env) (k_key_hash k) = cl_key c then Some k else None)"

text \<open>The pages for a kiosk of tenant \<open>t\<close>, and the request decided on them.\<close>

definition display_pages ::
  "device_env \<Rightarrow> (string \<Rightarrow> 'k::linorder) \<Rightarrow> timestamp \<Rightarrow> device_db \<Rightarrow> tenant \<Rightarrow> string \<Rightarrow> kiosk
   \<Rightarrow> (device_failure, gate_outcome) result" where
  "display_pages env ck now db t uri k =
     (let paths = va_dashboard_paths (viewerAssignment ck (url_pathname (de_caret env)) (dd_content db (tn_schema_name t)) k) in
      case (case de_nodered env of None \<Rightarrow> Some [] | Some nr \<Rightarrow> nr_dashboards nr (tn_id t)) of
        None \<Rightarrow> Inl CatalogueUnavailable
      | Some pages \<Rightarrow>
          if \<not> displayDashboardRequestAllowed (de_caret env) uri paths pages then Inr (Answer 403)
          else let pageIds = map pg_id (filter (page_assigned paths) pages) in
            (case de_nodered env of
               None \<Rightarrow> Inr (Answer 403)
             | Some nr \<Rightarrow>
                 if pageIds = [] then Inr (Answer 403)
                 else (case signDisplayScope (de_number env) nr now (tn_id t) pageIds of
                         None \<Rightarrow> Inl ScopeSecretMissing
                       | Some scope \<Rightarrow> Inr (Pass \<lparr>dx_device = tenant_device t (k_id k), dx_kiosk = None,
                                                    dx_scope = Some scope, dx_display = True\<rparr>))))"

definition display_check ::
  "device_env \<Rightarrow> (string \<Rightarrow> 'k::linorder) \<Rightarrow> timestamp \<Rightarrow> device_request \<Rightarrow> device_db \<Rightarrow> string
   \<Rightarrow> (device_failure, gate_outcome) result" where
  "display_check env ck now dq db token =
     (if \<not> displayOriginIsValid (de_lib env) dq then Inr (Answer 403)
      else case open_claims env token of
          None \<Rightarrow> Inr (Answer 401)
        | Some c \<Rightarrow>
            if cl_expires c \<le> now then Inr (Answer 401)
            else (case getTenantBySlug (dd_auth db) (cl_tenant c) of
                None \<Rightarrow> Inr (Answer 401)
              | Some t \<Rightarrow>
                  if \<not> tn_is_active t then Inr (Answer 401)
                  else if \<not> assertSchema (tn_schema_name t) then Inl (KeyCheckFailed (InvalidSchemaName (tn_schema_name t)))
                  else (case session_kiosk env db (tn_schema_name t) c of
                      None \<Rightarrow> Inr (Answer 401)
                    | Some k \<Rightarrow> display_pages env ck now db t (nullish (header (dq_request dq) ''x-original-uri'') []) k)))"

section \<open>The gate\<close>

definition told_deleted :: "auth_lib \<Rightarrow> device_db \<Rightarrow> request \<Rightarrow> bool" where
  "told_deleted lib db rq =
     (case bearer_key rq of
        None \<Rightarrow> False
      | Some b \<Rightarrow>
          8 \<le> length b
          \<and> ((rq_path rq = ''/api/kiosk/bundle'' \<and> rq_method rq = ''GET'')
             \<or> (rq_path rq = ''/api/kiosk/heartbeat'' \<and> rq_method rq = ''POST''))
          \<and> list_ex (verifyPassword lib b) (listDeletedKioskKeysByPrefix db (take 8 b)))"

definition admit_kiosk :: "auth_lib \<Rightarrow> device_request \<Rightarrow> device_db \<Rightarrow> device_identity \<Rightarrow> gate_outcome" where
  "admit_kiosk lib dq db d =
     (let rq = dq_request dq in
      case kiosk_row db (di_schema_name d) (di_id d) of
        None \<Rightarrow> Answer 401
      | Some k \<Rightarrow>
          if \<not> k_enabled k then Answer 401
          else if isAndroidViewer (Some k)
            \<and> (bearer_key rq = None \<or> \<not> androidViewerRouteAllowed (rq_path rq) (rq_method rq)
               \<or> rq_path rq = ''/api/kiosk/_check'') then Answer 403
          else if isAndroidViewer (Some k) \<and> \<not> displayOriginIsValid lib dq then Answer 403
          else Pass \<lparr>dx_device = d, dx_kiosk = Some k, dx_scope = None, dx_display = False\<rparr>)"

definition device_gate ::
  "device_env \<Rightarrow> (string \<Rightarrow> 'k::linorder) \<Rightarrow> timestamp \<Rightarrow> device_request \<Rightarrow> device_db
   \<Rightarrow> (device_failure, gate_outcome) result" where
  "device_gate env ck now dq db =
     (let rq = dq_request dq; lib = de_lib env in
      if \<not> prefix ''/api/kiosk/'' (rq_path rq) then Inr NotDevice
      else if rq_path rq = ''/api/kiosk/_check'' \<and> bearer_key rq = None
          \<and> truthy_str (cookie rq ''betterframe_display_session'')
      then display_check env ck now dq db (the (cookie rq ''betterframe_display_session''))
      else (case (if truthy_str (presented_key rq) then verifyKioskKey lib (the (presented_key rq)) (dd_auth db) else Inr None) of
          Inl e \<Rightarrow> Inl (KeyCheckFailed e)
        | Inr None \<Rightarrow> Inr (if told_deleted lib db rq then DeletedAnswer else Answer 401)
        | Inr (Some d) \<Rightarrow>
            if \<not> assertSchema (di_schema_name d) then Inl (KeyCheckFailed (InvalidSchemaName (di_schema_name d)))
            else Inr (admit_kiosk lib dq db d)))"

section \<open>The check route\<close>

record check_answer =
  ca_kiosk_id :: string
  ca_tenant :: string
  ca_tenant_slug :: string
  ca_display_scope :: "string option"
  ca_cookie :: "(string \<times> bool) option"

text \<open>The forwarded scheme may be empty, which the route takes for absent.\<close>

definition check_secure :: "device_request \<Rightarrow> bool" where
  "check_secure dq =
     (let forwarded = forwarded_proto (dq_request dq)
      in if truthy_str forwarded then js_lower (the forwarded) = ''https'' else dq_scheme dq = ''https'')"

definition kiosk_check_route :: "device_request \<Rightarrow> device_context \<Rightarrow> check_answer" where
  "kiosk_check_route dq cx =
     (let token = authorizationBearerToken (header (dq_request dq) ''authorization'') in
      \<lparr>ca_kiosk_id = di_id (dx_device cx), ca_tenant = di_tenant_id (dx_device cx), ca_tenant_slug = di_tenant_slug (dx_device cx),
       ca_display_scope = (if truthy_str (dx_scope cx) then dx_scope cx else None),
       ca_cookie = (if truthy_str token \<and> \<not> dx_display cx then Some (the token, check_secure dq) else None)\<rparr>)"

section \<open>Addresses: lemmas\<close>

lemma hex_upper_no_slash: "d < 16 \<Longrightarrow> CHR ''/'' \<notin> set (upper_char (hex_char d))"
proof -
  assume d: "d < 16"
  let ?n = "if d < 10 then 48 + d else 55 + d"
  have "upper_char (hex_char d) = [char_of ?n]"
    using d by (auto simp: upper_char_def hex_char_def of_char_of)
  moreover have "CHR ''/'' \<noteq> char_of ?n"
  proof
    assume "CHR ''/'' = char_of ?n"
    then have "(of_char CHR ''/'' :: nat) = of_char (char_of ?n :: char)" by (rule arg_cong)
    then have "47 = ?n mod 256" by (simp only: of_char_of) simp
    with d show False by (auto split: if_splits)
  qed
  ultimately show ?thesis by simp
qed

lemma encode_byte_no_slash: "b < 256 \<Longrightarrow> CHR ''/'' \<notin> set (encode_byte b)"
  using hex_upper_no_slash [of "b div 16"] hex_upper_no_slash [of "b mod 16"]
  by (simp add: encode_byte_def hex_encode_def js_upper_def)

lemma plain_slash: "plain_char caret CHR ''/''"
  by (cases caret) (simp_all add: plain_char_def)

lemma encode_char_facts:
  "CHR ''/'' \<in> set (encode_char caret c) \<longleftrightarrow> c = CHR ''/''"
  "\<not> plain_char caret c \<Longrightarrow> CHR ''%'' \<in> set (encode_char caret c)"
proof -
  have "byte_list (utf8_encode [c])" by (rule utf8_bytes)
  then show "CHR ''/'' \<in> set (encode_char caret c) \<longleftrightarrow> c = CHR ''/''"
    using plain_slash encode_byte_no_slash by (auto simp: encode_char_def)
  have "utf8_encode [c] \<noteq> []" by (simp add: Let_def)
  then obtain b bs where "utf8_encode [c] = b # bs" by (cases "utf8_encode [c]") simp_all
  then show "\<not> plain_char caret c \<Longrightarrow> CHR ''%'' \<in> set (encode_char caret c)"
    by (simp add: encode_char_def encode_byte_def)
qed

lemma lower_char_dot: "lower_char c = CHR ''.'' \<longleftrightarrow> c = CHR ''.''" "lower_char c = CHR ''%'' \<longleftrightarrow> c = CHR ''%''"
proof -
  have same: "c = d" if l: "lower_char c = d" and d: "(of_char d :: nat) < 97" for d
  proof (rule ccontr)
    assume "c \<noteq> d"
    with l have n: "(of_char c :: nat) \<in> {65..90} \<union> {192..222}" and e: "char_of ((of_char c :: nat) + 32) = d"
      by (auto simp: lower_char_def Let_def split: if_splits)
    have "(of_char d :: nat) = (of_char c + 32) mod 256" unfolding e [symmetric] by (simp add: of_char_of)
    with n d show False by auto
  qed
  show "lower_char c = CHR ''.'' \<longleftrightarrow> c = CHR ''.''" "lower_char c = CHR ''%'' \<longleftrightarrow> c = CHR ''%''"
    by (rule iffI [OF same], assumption, simp, simp add: lower_char_def)+
qed

lemma dots_without_escape:
  assumes "CHR ''%'' \<notin> set s"
  shows "single_dot s \<longleftrightarrow> s = ''.''" and "double_dot s \<longleftrightarrow> s = ''..''"
proof -
  have "CHR ''%'' \<notin> set (js_lower s)"
  proof
    assume "CHR ''%'' \<in> set (js_lower s)"
    then obtain c where "c \<in> set s" "lower_char c = CHR ''%''" unfolding js_lower_def set_map by (metis imageE)
    with assms show False by (simp only: lower_char_dot)
  qed
  then have "js_lower s \<noteq> ''%2e'' \<and> js_lower s \<noteq> ''.%2e'' \<and> js_lower s \<noteq> ''%2e.'' \<and> js_lower s \<noteq> ''%2e%2e''"
    by (intro conjI notI) simp_all
  then have d: "single_dot s \<longleftrightarrow> js_lower s = ''.''" "double_dot s \<longleftrightarrow> js_lower s = ''..''"
    unfolding single_dot_def double_dot_def by simp_all
  show "single_dot s \<longleftrightarrow> s = ''.''" "double_dot s \<longleftrightarrow> s = ''..''"
    unfolding d js_lower_def map_eq_Cons_conv map_is_Nil_conv lower_char_dot by iprover+
qed

lemma encode_plain: "list_all (plain_char caret) s \<Longrightarrow> encode_segment caret s = s"
  by (induction s) (simp_all add: encode_segment_def encode_char_def)

lemma encode_no_escape: "CHR ''%'' \<notin> set (encode_segment caret s) \<Longrightarrow> list_all (plain_char caret) s"
  using encode_char_facts(2) by (auto simp: encode_segment_def list_all_iff)

lemma encode_no_slash: "CHR ''/'' \<notin> set s \<Longrightarrow> CHR ''/'' \<notin> set (encode_segment caret s)"
  by (auto simp: encode_segment_def encode_char_facts(1))

lemma encode_dot: "encode_segment caret s = t \<Longrightarrow> CHR ''%'' \<notin> set t \<Longrightarrow> s = t"
  using encode_plain encode_no_escape by metis

lemma encode_join:
  "ss \<noteq> [] \<Longrightarrow> encode_segment caret (join_with ''/'' ss) = join_with ''/'' (map (encode_segment caret) ss)"
proof (induction ss)
  case (Cons s ss)
  have slash: "encode_char caret CHR ''/'' = ''/''" by (simp add: encode_char_def plain_slash)
  show ?case
  proof (cases ss)
    case (Cons t ts)
    with Cons.IH show ?thesis by (simp add: encode_segment_def slash)
  qed simp
qed simp

lemma split_join: "ps \<noteq> [] \<Longrightarrow> \<forall>p \<in> set ps. c \<notin> set p \<Longrightarrow> split_on c (join_with [c] ps) = ps"
proof (induction ps)
  case (Cons p ps)
  then show ?case by (cases ps) (simp_all add: split_on_append split_on_no_sep)
qed simp

lemma split_snoc: "split_on c (x @ [c]) = split_on c x @ [[]]"
proof (induction x)
  case (Cons a x)
  then show ?case by (cases "split_on c x") auto
qed simp

lemma resolve_plain:
  "ss \<noteq> [] \<Longrightarrow> \<forall>s \<in> set ss. \<not> single_dot s \<and> \<not> double_dot s \<Longrightarrow>
   resolve_segments caret path ss = path @ map (encode_segment caret) ss"
  by (induction caret path ss rule: resolve_segments.induct) auto

lemma resolve_parts:
  "p \<in> set (resolve_segments caret path ss) \<Longrightarrow>
   p \<in> set path \<or> p = [] \<or> (\<exists>s \<in> set ss. \<not> single_dot s \<and> \<not> double_dot s \<and> p = encode_segment caret s)"
  by (induction caret path ss rule: resolve_segments.induct) (auto split: if_splits dest: in_set_butlastD)

lemma split_strip:
  assumes "p \<noteq> []"
  shows "p \<in> set (split_on CHR ''/'' (strip_slash x)) \<longleftrightarrow> p \<in> set (split_on CHR ''/'' x)"
proof (cases "suffix ''/'' x")
  case True
  then obtain y where x: "x = y @ [CHR ''/'']" by (auto simp: suffix_def)
  with assms show ?thesis by (simp add: strip_slash_def suffix_def split_snoc)
qed (simp add: strip_slash_def)

lemma strip_chars: "c \<noteq> CHR ''/'' \<Longrightarrow> c \<in> set (strip_slash x) \<longleftrightarrow> c \<in> set x"
  by (auto simp: strip_slash_def suffix_def)

lemma clean_path:
  assumes raw: "list_all (\<lambda>c. \<not> (of_char c :: nat) \<le> 32) (before_query uri)"
  shows "before_query (url_clean uri) = before_query uri"
proof -
  let ?blank = "\<lambda>c. (of_char c :: nat) \<le> 32"
  let ?in = "\<lambda>c. c \<noteq> CHR ''?'' \<and> c \<noteq> CHR ''#''"
  let ?keep = "\<lambda>c. (of_char c :: nat) \<notin> set [9, 10, 13]"
  define path rest where "path = before_query uri" and "rest = dropWhile ?in uri"
  have uri: "uri = path @ rest" by (simp add: before_query_def path_def rest_def)
  have inside: "\<forall>c \<in> set path. ?in c" by (auto simp: path_def before_query_def dest: set_takeWhileD)
  have solid: "\<forall>c \<in> set path. \<not> ?blank c" using raw by (simp add: path_def list_all_iff)
  then have kept: "filter ?keep path = path" by (auto intro!: filter_True)
  have take: "takeWhile ?in (path @ r) = path" if "r = [] \<or> \<not> ?in (hd r)" for r
    using inside that by (cases r) (auto simp: takeWhile_append2)
  show ?thesis unfolding path_def [symmetric]
  proof (cases rest)
    case Nil
    have "dropWhile ?blank (rev path) = rev path"
      using solid by (cases path rule: rev_cases) simp_all
    then have "url_clean uri = path" unfolding uri Nil url_clean_def by (simp only: append_Nil2 rev_rev_ident kept)
    then show "before_query (url_clean uri) = path" using take [of "[]", OF disjI1, OF refl] by (simp only: before_query_def append_Nil2)
  next
    case (Cons c r)
    have c: "\<not> ?in c" by (rule dropWhile_eq_Cons_conv [THEN iffD1, OF Cons [unfolded rest_def], THEN conjunct2])
    then have nb: "\<not> ?blank c" and k: "?keep c" by auto
    have "dropWhile ?blank (rev uri) = dropWhile ?blank (rev r @ [c]) @ rev path"
      unfolding uri Cons rev_append rev.simps by (rule dropWhile_append1 [of c]) (simp, rule nb)
    moreover have "dropWhile ?blank (rev r @ [c]) = dropWhile ?blank (rev r) @ [c]"
      by (rule dropWhile_append3) (rule nb)
    ultimately have "url_clean uri = path @ c # filter ?keep (rev (dropWhile ?blank (rev r)))"
      unfolding url_clean_def by (simp only: rev_append rev_rev_ident filter_append kept rev.simps append_Nil
          append_Cons append.assoc filter.simps k if_True simp_thms)
    then show "before_query (url_clean uri) = path" using take [of "c # filter ?keep (rev (dropWhile ?blank (rev r)))"] c
      by (simp only: before_query_def list.sel) blast
  qed
qed

lemma path_resolved:
  assumes raw: "before_query uri = CHR ''/'' # t" and ok: "list_all (\<lambda>c. \<not> forbidden_in_path c) (CHR ''/'' # t)"
  shows "url_pathname caret uri = CHR ''/'' # join_with ''/'' (resolve_segments caret [] (split_on CHR ''/'' t))"
proof -
  have "list_all (\<lambda>c. \<not> (of_char c :: nat) \<le> 32) (before_query uri)"
    unfolding raw using ok by (rule list.pred_mono_strong) (simp add: forbidden_in_path_def)
  then have "before_query (url_clean uri) = CHR ''/'' # t" unfolding raw [symmetric] by (rule clean_path)
  moreover have "map (\<lambda>c. if c = CHR 0x5C then CHR ''/'' else c) t = t"
  proof (rule map_idI)
    fix c assume "c \<in> set t"
    with ok have "\<not> forbidden_in_path c" by (simp add: list_all_iff)
    then show "(if c = CHR 0x5C then CHR ''/'' else c) = c" unfolding forbidden_in_path_def by (simp only: de_Morgan_disj if_False)
  qed
  ultimately show ?thesis by (simp only: url_pathname_def drop_Suc_Cons One_nat_def drop0)
qed

lemma split_on_chars: "s \<in> set (split_on c x) \<Longrightarrow> set s \<subseteq> set x"
proof (induction x arbitrary: s)
  case (Cons a x)
  obtain p ps where x: "split_on c x = p # ps" by (cases "split_on c x") simp_all
  have "\<forall>s \<in> set (p # ps). set s \<subseteq> set x" using Cons.IH x by metis
  with Cons.prems x show ?case by (auto split: if_splits)
qed simp

lemma resolve_nonempty: "ss \<noteq> [] \<Longrightarrow> resolve_segments caret path ss \<noteq> []"
  by (induction caret path ss rule: resolve_segments.induct) auto

lemma path_unchanged:
  assumes raw: "before_query uri = CHR ''/'' # t" and ok: "list_all (\<lambda>c. \<not> forbidden_in_path c) (CHR ''/'' # t)"
  shows "strip_slash (CHR ''/'' # t) = strip_slash (url_pathname caret uri)
    \<longleftrightarrow> ''.'' \<notin> set (split_on CHR ''/'' t) \<and> ''..'' \<notin> set (split_on CHR ''/'' t) \<and> list_all (plain_char caret) t"
    (is "?same \<longleftrightarrow> ?plain")
proof -
  let ?ss = "split_on CHR ''/'' t"
  let ?ps = "resolve_segments caret [] ?ss"
  have noesc: "CHR ''%'' \<notin> set t" using ok by (auto simp: forbidden_in_path_def list_all_iff)
  have seg: "CHR ''%'' \<notin> set s" if "s \<in> set ?ss" for s
    using that noesc split_on_chars by fast
  have dots: "single_dot s = (s = ''.'')" "double_dot s = (s = ''..'')" if "s \<in> set ?ss" for s
    using dots_without_escape [OF seg [OF that]] by simp_all
  have whole: "url_pathname caret uri = CHR ''/'' # join_with ''/'' ?ps" by (rule path_resolved [OF raw ok])
  have straight: "url_pathname caret uri = encode_segment caret (CHR ''/'' # t)"
    if "''.'' \<notin> set ?ss" "''..'' \<notin> set ?ss"
  proof -
    have "?ps = map (encode_segment caret) ?ss"
      using that dots by (intro resolve_plain [of ?ss caret "[]", simplified]) metis+
    then have "join_with ''/'' ?ps = encode_segment caret t"
      using encode_join [of ?ss caret] by (simp add: join_split)
    then show ?thesis using whole by (simp add: encode_segment_def encode_char_def plain_slash)
  qed
  show ?thesis
  proof
    assume ?plain
    then show ?same using straight encode_plain [of caret "CHR ''/'' # t"] plain_slash by simp
  next
    assume same: ?same
    have nodot: "d \<notin> set ?ss" if d: "d = ''.'' \<or> d = ''..''" for d
    proof
      assume "d \<in> set ?ss"
      then have "d \<in> set (split_on CHR ''/'' (CHR ''/'' # t))" by simp
      then have "d \<in> set (split_on CHR ''/'' (url_pathname caret uri))"
        using same d split_strip [of d] by (metis list.distinct(1))
      moreover have parts: "\<forall>p \<in> set ?ps. CHR ''/'' \<notin> set p"
        using resolve_parts [of _ caret "[]" ?ss] encode_no_slash split_on_no_sep_parts by fastforce
      moreover have "?ps \<noteq> []" by (rule resolve_nonempty) simp
      ultimately have "d \<in> set ?ps" using whole d by (auto simp: split_join)
      then obtain s where s: "s \<in> set ?ss" "\<not> single_dot s" "\<not> double_dot s" "d = encode_segment caret s"
        using resolve_parts [of d caret "[]" ?ss] d by auto
      have "CHR ''%'' \<notin> set d" using d by (elim disjE) simp_all
      with s(4) have "s = d" by (intro encode_dot [of caret s d]) simp_all
      then have "single_dot s \<or> double_dot s" unfolding dots [OF s(1)] using d by (simp only:)
      with s show False by blast
    qed
    then have "url_pathname caret uri = encode_segment caret (CHR ''/'' # t)" using straight by blast
    moreover have "CHR ''%'' \<notin> set (CHR ''/'' # t)" using noesc by simp
    then have "CHR ''%'' \<notin> set (url_pathname caret uri)"
      using same strip_chars [of "CHR ''%'' " "CHR ''/'' # t"] strip_chars [of "CHR ''%''" "url_pathname caret uri"]
      by simp
    ultimately show ?plain using nodot encode_no_escape by fastforce
  qed
qed

text \<open>
  (C36) A browser session of a display loads exactly these addresses: the path starts with one
  slash, is written as the server resolves it, without dot segments, escapes, backslashes,
  blanks or characters that an address encodes, and, without its final slash, is a dashboard
  assigned to the display, or a page, an asset, a setup, socket or icon address of a catalogue
  page that is assigned to it.  Query and fragment do not matter.
\<close>

theorem dashboard_request_exact:
  "displayDashboardRequestAllowed caret uri paths pages \<longleftrightarrow>
     (let raw = before_query uri; segments = split_on CHR ''/'' raw in
      prefix ''/'' raw \<and> \<not> prefix ''//'' raw
      \<and> list_all (\<lambda>c. plain_char caret c \<and> c \<noteq> CHR ''%'' \<and> c \<noteq> CHR 0x5C) raw
      \<and> ''.'' \<notin> set segments \<and> ''..'' \<notin> set segments
      \<and> (strip_slash raw \<in> set paths
         \<or> (\<exists>p \<in> set pages. ''/dash/'' @ pg_id p \<in> set paths \<and> page_serves (strip_slash raw) p)))"
proof (cases "prefix ''/'' (before_query uri) \<and> list_all (\<lambda>c. \<not> forbidden_in_path c) (before_query uri)")
  case False
  have "plain_char caret c \<and> c \<noteq> CHR ''%'' \<and> c \<noteq> CHR 0x5C \<Longrightarrow> \<not> forbidden_in_path c" for c
    by (simp add: plain_char_def forbidden_in_path_def)
  then have "list_all (\<lambda>c. plain_char caret c \<and> c \<noteq> CHR ''%'' \<and> c \<noteq> CHR 0x5C) raw \<Longrightarrow> list_all (\<lambda>c. \<not> forbidden_in_path c) raw" for raw
    by (simp add: list_all_iff)
  with False show ?thesis by (auto simp: displayDashboardRequestAllowed_def Let_def list_ex_iff list_all_iff)
next
  case True
  then obtain t where t: "before_query uri = CHR ''/'' # t" by (auto simp: prefix_def)
  with True have ok: "list_all (\<lambda>c. \<not> forbidden_in_path c) (CHR ''/'' # t)" by simp
  have no: "\<not> list_ex forbidden_in_path (CHR ''/'' # t)" using ok by (auto simp: list_ex_iff list_all_iff)
  have chars: "list_all (\<lambda>c. plain_char caret c \<and> c \<noteq> CHR ''%'' \<and> c \<noteq> CHR 0x5C) (CHR ''/'' # t) \<longleftrightarrow> list_all (plain_char caret) t"
    using ok plain_slash by (auto simp: list_all_iff forbidden_in_path_def)
  have segs: "d \<in> set (split_on CHR ''/'' (CHR ''/'' # t)) \<longleftrightarrow> d \<in> set (split_on CHR ''/'' t)" if "d \<noteq> []" for d
    using that by simp
  show ?thesis
    unfolding displayDashboardRequestAllowed_def Let_def t chars segs [of "''.''", simplified] segs [of "''..''", simplified]
    using path_unchanged [OF t ok, of caret] no
    by (auto simp: list_ex_iff page_assigned_def)
qed

section \<open>Keys\<close>

lemma scan_tenants_some:
  assumes "scan_tenants device ts = Inr (Some d)"
  shows "\<exists>t \<in> set ts. tn_is_active t \<and> assertSchema (tn_schema_name t)
    \<and> device (tn_schema_name t) = Some (di_id d) \<and> d = tenant_device t (di_id d)"
  using assms
  by (induction device ts rule: scan_tenants.induct)
    (auto simp: tenant_device_def split: if_splits option.splits)

lemma scan_tenants_none:
  assumes "\<forall>t \<in> set ts. tn_is_active t \<longrightarrow> assertSchema (tn_schema_name t) \<and> device (tn_schema_name t) = None"
  shows "scan_tenants device ts = Inr None"
  using assms by (induction device ts rule: scan_tenants.induct) auto

lemma matching_kiosk_some:
  assumes "matching_kiosk lib db key schema = Some kid"
  shows "\<exists>k \<in> set (at_kiosks (tables db schema)). k_id k = kid \<and> k_enabled k \<and> verifyPassword lib key (k_key_hash k)"
  using assms by (auto simp: matching_kiosk_def listKiosksByKeyPrefix_def find_Some_iff dest!: nth_mem)

lemma verifyKioskKey_some:
  assumes "verifyKioskKey lib key db = Inr (Some d)"
  shows "(\<exists>k \<in> set (at_kiosks (tables db (di_schema_name d))). k_id k = di_id d \<and> k_enabled k \<and> verifyPassword lib key (k_key_hash k))
    \<and> (tenants db = [] \<or> (\<exists>t \<in> set (tenants db). tn_is_active t \<and> d = tenant_device t (di_id d)))"
proof (cases "listTenants db = []")
  case True
  with assms obtain kid where k: "matching_kiosk lib db key ''public'' = Some kid" "d = default_device kid"
    by (auto simp: verifyKioskKey_def verify_device_key_def split: if_splits)
  have "tenants db = []" using True by (metis listTenants_def set_empty set_sort)
  with matching_kiosk_some [OF k(1)] k(2) show ?thesis by (simp add: default_device_def)
next
  case False
  with assms have "scan_tenants (matching_kiosk lib db key) (listTenants db) = Inr (Some d)"
    by (simp add: verifyKioskKey_def verify_device_key_def split: if_splits)
  then obtain t where t: "t \<in> set (listTenants db)" "tn_is_active t"
      "matching_kiosk lib db key (tn_schema_name t) = Some (di_id d)" "d = tenant_device t (di_id d)"
    using scan_tenants_some by blast
  have "di_schema_name d = tn_schema_name t" using t(4) by (metis tenant_device_def device_identity.select_convs(5))
  moreover have "t \<in> set (tenants db)" using t(1) by (simp add: listTenants_def)
  ultimately show ?thesis using matching_kiosk_some [OF t(3)] t(2,4) by auto
qed

lemma kiosk_row_some:
  assumes "kiosk_row db schema kid = Some k"
  shows "k \<in> set (at_kiosks (tables (dd_auth db) schema))" and "k_id k = kid"
  using assms by (auto simp: kiosk_row_def find_Some_iff)

lemma same_kiosk:
  assumes "distinct (map k_id ks)" and "k \<in> set ks" and "k' \<in> set ks" and "k_id k = k_id k'"
  shows "k = k'"
  using assms by (meson distinct_map inj_onD)

section \<open>What the gate lets through\<close>

lemma display_pages_pass:
  assumes "display_pages env ck now db t uri k = Inr (Pass cx)"
  shows "dx_device cx = tenant_device t (k_id k)" and "dx_display cx"
  using assms by (auto simp: display_pages_def Let_def split: option.splits if_splits)

lemma display_check_pass:
  assumes "display_check env ck now dq db token = Inr (Pass cx)"
  obtains c t k where "open_claims env token = Some c" and "now < cl_expires c"
    and "getTenantBySlug (dd_auth db) (cl_tenant c) = Some t" and "tn_is_active t"
    and "session_kiosk env db (tn_schema_name t) c = Some k" and "dx_device cx = tenant_device t (k_id k)" and "dx_display cx"
proof -
  obtain c where c: "open_claims env token = Some c" using assms by (auto simp: display_check_def split: if_splits option.splits)
  obtain t where t: "getTenantBySlug (dd_auth db) (cl_tenant c) = Some t"
    using assms c by (auto simp: display_check_def split: if_splits option.splits)
  obtain k where k: "session_kiosk env db (tn_schema_name t) c = Some k"
    using assms c t by (auto simp: display_check_def split: if_splits option.splits)
  have p: "display_pages env ck now db t (nullish (header (dq_request dq) ''x-original-uri'') []) k = Inr (Pass cx)"
    and "now < cl_expires c" and "tn_is_active t"
    using assms c t k by (simp_all add: display_check_def split: if_splits)
  with c t k display_pages_pass [OF p] show thesis by (intro that)
qed

lemma admit_pass:
  assumes "admit_kiosk lib dq db d = Pass cx"
  obtains k where "kiosk_row db (di_schema_name d) (di_id d) = Some k" and "k_enabled k"
    and "cx = \<lparr>dx_device = d, dx_kiosk = Some k, dx_scope = None, dx_display = False\<rparr>"
    and "isAndroidViewer (Some k) \<longrightarrow> bearer_key (dq_request dq) \<noteq> None
      \<and> androidViewerRouteAllowed (rq_path (dq_request dq)) (rq_method (dq_request dq))
      \<and> rq_path (dq_request dq) \<noteq> ''/api/kiosk/_check'' \<and> displayOriginIsValid lib dq"
proof -
  obtain k where k: "kiosk_row db (di_schema_name d) (di_id d) = Some k"
    using assms by (auto simp: admit_kiosk_def Let_def split: option.splits)
  show thesis
  proof (rule that [OF k])
    show "k_enabled k" "cx = \<lparr>dx_device = d, dx_kiosk = Some k, dx_scope = None, dx_display = False\<rparr>"
      using assms k by (simp_all add: admit_kiosk_def Let_def split: if_splits)
    show "isAndroidViewer (Some k) \<longrightarrow> bearer_key (dq_request dq) \<noteq> None
      \<and> androidViewerRouteAllowed (rq_path (dq_request dq)) (rq_method (dq_request dq))
      \<and> rq_path (dq_request dq) \<noteq> ''/api/kiosk/_check'' \<and> displayOriginIsValid lib dq"
      using assms k unfolding admit_kiosk_def Let_def k option.case by (auto split: if_splits simp del: not_None_eq)
  qed
qed

lemma gate_cases:
  assumes "device_gate env ck now dq db = Inr (Pass cx)"
  obtains (display) token where "rq_path (dq_request dq) = ''/api/kiosk/_check''"
      and "cookie (dq_request dq) ''betterframe_display_session'' = Some token"
      and "display_check env ck now dq db token = Inr (Pass cx)"
  | (key) key d where "presented_key (dq_request dq) = Some key" and "verifyKioskKey (de_lib env) key (dd_auth db) = Inr (Some d)"
      and "admit_kiosk (de_lib env) dq db d = Pass cx"
proof (cases "rq_path (dq_request dq) = ''/api/kiosk/_check'' \<and> bearer_key (dq_request dq) = None
    \<and> truthy_str (cookie (dq_request dq) ''betterframe_display_session'')")
  case True
  then obtain token where t: "cookie (dq_request dq) ''betterframe_display_session'' = Some token" by (auto simp: truthy_str_iff)
  have "prefix ''/api/kiosk/'' (rq_path (dq_request dq))"
    using assms by (auto simp: device_gate_def Let_def split: if_splits)
  with assms True t have "display_check env ck now dq db token = Inr (Pass cx)"
    unfolding device_gate_def Let_def t option.sel by (simp only: simp_thms if_True if_False)
  with True t show thesis by (intro display) simp_all
next
  case False
  have p: "prefix ''/api/kiosk/'' (rq_path (dq_request dq))"
    using assms by (auto simp: device_gate_def Let_def split: if_splits)
  have g: "(case (if truthy_str (presented_key (dq_request dq))
        then verifyKioskKey (de_lib env) (the (presented_key (dq_request dq))) (dd_auth db) else Inr None) of
          Inl e \<Rightarrow> Inl (KeyCheckFailed e)
        | Inr None \<Rightarrow> Inr (if told_deleted (de_lib env) db (dq_request dq) then DeletedAnswer else Answer 401)
        | Inr (Some d) \<Rightarrow>
            if \<not> assertSchema (di_schema_name d) then Inl (KeyCheckFailed (InvalidSchemaName (di_schema_name d)))
            else Inr (admit_kiosk (de_lib env) dq db d)) = Inr (Pass cx)"
    using assms unfolding device_gate_def Let_def by (simp only: p False if_False simp_thms)
  have "\<exists>k d. presented_key (dq_request dq) = Some k \<and> verifyKioskKey (de_lib env) k (dd_auth db) = Inr (Some d)
      \<and> admit_kiosk (de_lib env) dq db d = Pass cx"
    using g by (auto simp: truthy_str_iff split: if_splits sum.splits option.splits)
  then show thesis using key by blast
qed

section \<open>Sealed sessions and deleted devices\<close>

lemma open_minted:
  assumes "cipher_ok (lib_gcm (de_lib env)) (lib_ungcm (de_lib env))" and "byte_list iv"
    and "de_claims env (claims_text (de_number env) (new_claims (de_lib env) now k d)) = Some (new_claims (de_lib env) now k d)"
  shows "open_claims env (display_token env now iv k d) = Some (new_claims (de_lib env) now k d)"
  using assms by (simp add: open_claims_def display_token_def decryptString_def encryptString_def open_seal)

lemma tables_deleted:
  "at_kiosks (tables (dd_auth (deleteKiosk schema kid db)) s)
    = (if visible_schema (dd_auth db) schema = visible_schema (dd_auth db) s
       then filter (\<lambda>k. k_id k \<noteq> kid) (at_kiosks (tables (dd_auth db) s)) else at_kiosks (tables (dd_auth db) s))"
  using tables_visible [of "dd_auth db" schema s] by (simp add: deleteKiosk_def Let_def auth.get_put)

lemma key_forgotten:
  assumes only: "\<And>s x. x \<in> set (at_kiosks (tables (dd_auth db) s)) \<Longrightarrow> verifyPassword lib key (k_key_hash x)
      \<Longrightarrow> visible_schema (dd_auth db) s = visible_schema (dd_auth db) schema \<and> k_id x = kid"
    and schemas: "\<And>t. t \<in> set (tenants (dd_auth db)) \<Longrightarrow> tn_is_active t \<Longrightarrow> assertSchema (tn_schema_name t)"
  shows "verifyKioskKey lib key (dd_auth (deleteKiosk schema kid db)) = Inr None"
proof -
  let ?auth = "dd_auth (deleteKiosk schema kid db)"
  have none: "matching_kiosk lib ?auth key s = None" for s
  proof (rule ccontr)
    assume "matching_kiosk lib ?auth key s \<noteq> None"
    then obtain y where "matching_kiosk lib ?auth key s = Some y" by blast
    then obtain x where x: "x \<in> set (at_kiosks (tables ?auth s))" "verifyPassword lib key (k_key_hash x)"
      using matching_kiosk_some by blast
    then have "x \<in> set (at_kiosks (tables (dd_auth db) s))" by (auto simp: tables_deleted split: if_splits)
    with only x show False by (auto simp: tables_deleted split: if_splits)
  qed
  have "tenants ?auth = tenants (dd_auth db)" by (simp add: deleteKiosk_def Let_def)
  then have "scan_tenants (matching_kiosk lib ?auth key) (listTenants ?auth) = Inr None"
    using schemas none by (intro scan_tenants_none) (simp add: listTenants_def)
  then show ?thesis by (simp add: verifyKioskKey_def verify_device_key_def none)
qed

lemma key_remembered:
  assumes "kiosk_row db schema kid = Some k" and "k_key_hash k \<notin> set (map fst (dd_deleted db))"
  shows "k_key_hash k \<in> set (listDeletedKioskKeysByPrefix (deleteKiosk schema kid db) (k_key_prefix k))"
  using assms by (simp add: listDeletedKioskKeysByPrefix_def deleteKiosk_def Let_def remember_key_def)

text \<open>
  The handler returns the promise of the inner callback without waiting for it, so the
  enclosing \<^verbatim>\<open>catch\<close> does not see its failures.
\<close>

lemma catalogue_failure_escapes:
  assumes "de_nodered env = Some nr" and "nr_dashboards nr (tn_id t) = None"
  shows "display_pages env ck now db t uri k = Inl CatalogueUnavailable"
  using assms by (simp add: display_pages_def Let_def)

section \<open>Properties\<close>

text \<open>
  (C3) Whoever passes the gate as a kiosk is that kiosk, enabled, of an active tenant.  Either
  the request carries a key that verifies against the stored hash of the kiosk, and for an
  Android viewer this key is in the header, the route is one of the few a viewer may call and
  the origin is its own; or it is the check route with an unexpired browser session that was
  sealed for this viewer, this tenant and the key the kiosk has now.
\<close>

theorem device_gate_sound:
  assumes pass: "device_gate env ck now dq db = Inr (Pass cx)"
    and ids: "\<And>schema. distinct (map k_id (at_kiosks (tables (dd_auth db) schema)))"
  shows "\<exists>k \<in> set (at_kiosks (tables (dd_auth db) (di_schema_name (dx_device cx)))).
      k_id k = di_id (dx_device cx) \<and> k_enabled k
      \<and> (tenants (dd_auth db) = [] \<or> (\<exists>t \<in> set (tenants (dd_auth db)). tn_is_active t \<and> dx_device cx = tenant_device t (k_id k)))
      \<and> (if dx_display cx
         then rq_path (dq_request dq) = ''/api/kiosk/_check'' \<and> isAndroidViewer (Some k)
           \<and> (\<exists>token c. cookie (dq_request dq) ''betterframe_display_session'' = Some token
                \<and> open_claims env token = Some c \<and> now < cl_expires c \<and> cl_kiosk c = k_id k
                \<and> cl_tenant c = di_tenant_slug (dx_device cx)
                \<and> cl_key c = display_fingerprint (de_lib env) (k_key_hash k))
         else dx_kiosk cx = Some k
           \<and> (\<exists>key. presented_key (dq_request dq) = Some key \<and> verifyPassword (de_lib env) key (k_key_hash k))
           \<and> (isAndroidViewer (Some k) \<longrightarrow> bearer_key (dq_request dq) \<noteq> None
                \<and> androidViewerRouteAllowed (rq_path (dq_request dq)) (rq_method (dq_request dq))
                \<and> rq_path (dq_request dq) \<noteq> ''/api/kiosk/_check'' \<and> displayOriginIsValid (de_lib env) dq))"
  using pass
proof (cases rule: gate_cases)
  case (display token)
  obtain c t k where c: "open_claims env token = Some c" "now < cl_expires c"
      and t: "getTenantBySlug (dd_auth db) (cl_tenant c) = Some t" "tn_is_active t"
      and k: "session_kiosk env db (tn_schema_name t) c = Some k"
      and x: "dx_device cx = tenant_device t (k_id k)" "dx_display cx"
    using display_check_pass [OF display(3)] by metis
  have row: "kiosk_row db (tn_schema_name t) (cl_kiosk c) = Some k" and ok: "k_enabled k" "isAndroidViewer (Some k)"
      "display_fingerprint (de_lib env) (k_key_hash k) = cl_key c"
    using k by (auto simp: session_kiosk_def split: option.splits if_splits)
  have slug: "t \<in> set (tenants (dd_auth db))" "tn_slug t = cl_tenant c"
    using t(1) by (auto simp: getTenantBySlug_def find_Some_iff)
  have d: "di_schema_name (dx_device cx) = tn_schema_name t" "di_id (dx_device cx) = k_id k"
      "di_tenant_slug (dx_device cx) = cl_tenant c"
    using slug by (simp_all add: x tenant_device_def)
  show ?thesis unfolding d
    by (rule bexI [OF _ kiosk_row_some(1) [OF row]])
      (use c t(2) slug ok x kiosk_row_some(2) [OF row] display(1,2) in \<open>simp only: if_True simp_thms\<close>, blast)
next
  case (key key d)
  obtain k where row: "kiosk_row db (di_schema_name d) (di_id d) = Some k" and en: "k_enabled k"
      and cx: "cx = \<lparr>dx_device = d, dx_kiosk = Some k, dx_scope = None, dx_display = False\<rparr>"
      and viewer: "isAndroidViewer (Some k) \<longrightarrow> bearer_key (dq_request dq) \<noteq> None
        \<and> androidViewerRouteAllowed (rq_path (dq_request dq)) (rq_method (dq_request dq))
        \<and> rq_path (dq_request dq) \<noteq> ''/api/kiosk/_check'' \<and> displayOriginIsValid (de_lib env) dq"
    using admit_pass [OF key(3)] by metis
  obtain k' where k': "k' \<in> set (at_kiosks (tables (dd_auth db) (di_schema_name d)))" "k_id k' = di_id d"
      "verifyPassword (de_lib env) key (k_key_hash k')"
    and t: "tenants (dd_auth db) = [] \<or> (\<exists>t \<in> set (tenants (dd_auth db)). tn_is_active t \<and> d = tenant_device t (di_id d))"
    using verifyKioskKey_some [OF key(2)] by blast
  have "k' = k" using same_kiosk [OF ids k'(1) kiosk_row_some(1) [OF row]] k'(2) kiosk_row_some(2) [OF row] by simp
  moreover have dx: "dx_device cx = d" "dx_kiosk cx = Some k" "\<not> dx_display cx" by (simp_all add: cx)
  ultimately show ?thesis unfolding dx(1)
    by (intro bexI [OF _ kiosk_row_some(1) [OF row]])
      (use en t viewer k'(3) key(1) kiosk_row_some(2) [OF row] dx in \<open>simp only: if_False simp_thms\<close>, blast)
qed

text \<open>
  (C37) The browser session a viewer is given opens its pages for one hour: until then the check
  decides on the address alone, with the pages the viewer has at that time, and afterwards, or
  once the tenant is inactive, the kiosk is disabled, is no viewer any more or has another key,
  the session is refused.
\<close>

theorem display_session_lifecycle:
  assumes law: "cipher_ok (lib_gcm (de_lib env)) (lib_ungcm (de_lib env))" and iv: "byte_list iv"
    and parse: "de_claims env (claims_text (de_number env) (new_claims (de_lib env) now k d)) = Some (new_claims (de_lib env) now k d)"
    and origin: "displayOriginIsValid (de_lib env) dq"
    and tenant: "getTenantBySlug (dd_auth db) (di_tenant_slug d) = Some t" "assertSchema (tn_schema_name t)"
    and row: "kiosk_row db (tn_schema_name t) (k_id k) = Some k'"
  shows "display_check env ck later dq db (display_token env now iv k d)
    = (if now + 3600000 \<le> later \<or> \<not> tn_is_active t \<or> \<not> k_enabled k' \<or> \<not> isAndroidViewer (Some k')
          \<or> display_fingerprint (de_lib env) (k_key_hash k') \<noteq> display_fingerprint (de_lib env) (k_key_hash k)
       then Inr (Answer 401)
       else display_pages env ck later db t (nullish (header (dq_request dq) ''x-original-uri'') []) k')"
proof -
  have c: "cl_kiosk (new_claims (de_lib env) now k d) = k_id k" "cl_tenant (new_claims (de_lib env) now k d) = di_tenant_slug d"
    "cl_expires (new_claims (de_lib env) now k d) = now + 3600000"
    "cl_key (new_claims (de_lib env) now k d) = display_fingerprint (de_lib env) (k_key_hash k)"
    by (simp_all add: new_claims_def)
  show ?thesis
    unfolding display_check_def open_minted [OF law iv parse] option.case c tenant session_kiosk_def row
    using origin tenant(2) by simp
qed

text \<open>
  (C38) After a kiosk is deleted its key opens nothing: whatever the route, the gate answers that
  the kiosk is deleted when it asks for its bundle or reports, and otherwise that it is not
  authorised.  The key must verify against no other row.
\<close>

theorem deleted_kiosk_told:
  assumes row: "kiosk_row db schema kid = Some k"
    and route: "prefix ''/api/kiosk/'' (rq_path (dq_request dq))"
    and key: "bearer_key (dq_request dq) = Some key" "8 \<le> length key" "k_key_prefix k = take 8 key"
      "verifyPassword (de_lib env) key (k_key_hash k)"
    and only: "\<And>s x. x \<in> set (at_kiosks (tables (dd_auth db) s)) \<Longrightarrow> verifyPassword (de_lib env) key (k_key_hash x)
      \<Longrightarrow> visible_schema (dd_auth db) s = visible_schema (dd_auth db) schema \<and> k_id x = kid"
    and fresh: "k_key_hash k \<notin> set (map fst (dd_deleted db))"
    and schemas: "\<And>t. t \<in> set (tenants (dd_auth db)) \<Longrightarrow> tn_is_active t \<Longrightarrow> assertSchema (tn_schema_name t)"
  shows "device_gate env ck now dq (deleteKiosk schema kid db)
    = Inr (if (rq_path (dq_request dq) = ''/api/kiosk/bundle'' \<and> rq_method (dq_request dq) = ''GET'')
              \<or> (rq_path (dq_request dq) = ''/api/kiosk/heartbeat'' \<and> rq_method (dq_request dq) = ''POST'')
           then DeletedAnswer else Answer 401)"
proof -
  have "list_ex (verifyPassword (de_lib env) key) (listDeletedKioskKeysByPrefix (deleteKiosk schema kid db) (take 8 key))"
    using key_remembered [OF row fresh] key(3,4) by (auto simp: list_ex_iff)
  then have told: "told_deleted (de_lib env) (deleteKiosk schema kid db) (dq_request dq)
      \<longleftrightarrow> (rq_path (dq_request dq) = ''/api/kiosk/bundle'' \<and> rq_method (dq_request dq) = ''GET'')
        \<or> (rq_path (dq_request dq) = ''/api/kiosk/heartbeat'' \<and> rq_method (dq_request dq) = ''POST'')"
    unfolding told_deleted_def key(1) option.case using key(2) by (simp only: simp_thms)
  have p: "presented_key (dq_request dq) = Some key" by (simp add: presented_key_def key(1))
  have v: "verifyKioskKey (de_lib env) key (dd_auth (deleteKiosk schema kid db)) = Inr None"
    by (rule key_forgotten) (erule (1) only, erule (1) schemas)
  have "truthy_str (Some key)" using key(2) by (cases key) simp_all
  then show ?thesis
    unfolding device_gate_def Let_def p told option.sel v
    using route key(1) by (simp only: simp_thms option.distinct if_True if_False sum.case option.case)
qed

section \<open>Witnesses\<close>

definition gate_tablet :: kiosk where
  "gate_tablet = sample_kiosk\<lparr>k_id := ''k1'', k_key_hash := ''h:secret-key'', k_key_prefix := ''secret-k'',
     k_capabilities := [''android-viewer'']\<rparr>"

lemma gate_tablet_fields [simp]:
  "k_id gate_tablet = ''k1''" "k_key_hash gate_tablet = ''h:secret-key''" "k_key_prefix gate_tablet = ''secret-k''"
  "k_capabilities gate_tablet = [''android-viewer'']" "k_enabled gate_tablet"
  by (simp_all add: gate_tablet_def sample_kiosk_def)

definition gate_db :: device_db where
  "gate_db = \<lparr>dd_auth = \<lparr>tenants = [default_tenant_row], global_admins = [], demo_marker = JUndefined,
       auth_schemas = [(''public'', empty_tables\<lparr>at_kiosks := [gate_tablet]\<rparr>)]\<rparr>,
     dd_content = (\<lambda>s. empty_content), dd_deleted = []\<rparr>"

definition tablet_claims :: display_claims where
  "tablet_claims = new_claims demo_lib 1000 gate_tablet (tenant_device default_tenant_row ''k1'')"

definition gate_env :: device_env where
  "gate_env = \<lparr>de_lib = demo_lib, de_caret = True, de_number = (\<lambda>n. ''3601000''),
     de_claims = (\<lambda>s. if s = claims_text (\<lambda>n. ''3601000'') tablet_claims then Some tablet_claims else None),
     de_nodered = None\<rparr>"

definition gate_call :: "string \<Rightarrow> string \<Rightarrow> (string \<times> string) list \<Rightarrow> device_request" where
  "gate_call verb path headers = \<lparr>dq_request = \<lparr>rq_method = verb, rq_path = path, rq_headers = headers, rq_cookies = [], rq_body = JNull\<rparr>,
     dq_host = ''h'', dq_scheme = ''https''\<rparr>"

definition tablet_report :: device_request where
  "tablet_report = gate_call ''POST'' ''/api/kiosk/heartbeat'' [(''authorization'', ''Bearer secret-key'')]"

lemma gate_tables: "tables (dd_auth gate_db) s = empty_tables\<lparr>at_kiosks := [gate_tablet]\<rparr>"
  by (simp add: gate_db_def tables_def visible_schema_def)

lemma gate_row: "kiosk_row gate_db s ''k1'' = Some gate_tablet"
  by (simp add: kiosk_row_def gate_tables)

lemma gate_tenants: "tenants (dd_auth gate_db) = [default_tenant_row]" "getTenantBySlug (dd_auth gate_db) ''default'' = Some default_tenant_row"
  by (simp_all add: gate_db_def getTenantBySlug_def default_tenant_row_def)

lemma public_schema: "assertSchema ''public''"
  by code_simp

lemma report_bearer: "bearer_key (dq_request tablet_report) = Some ''secret-key''"
  by code_simp

fun passes_as :: "string \<Rightarrow> (device_failure, gate_outcome) result \<Rightarrow> bool" where
  "passes_as kid (Inr (Pass cx)) = (di_id (dx_device cx) = kid \<and> di_schema_name (dx_device cx) = ''public'')"
| "passes_as kid _ = False"

lemma passes_as_pass:
  "passes_as kid r \<Longrightarrow> \<exists>cx. r = Inr (Pass cx) \<and> di_id (dx_device cx) = kid \<and> di_schema_name (dx_device cx) = ''public''"
  by (cases "(kid, r)" rule: passes_as.cases) simp_all

lemma report_passes: "passes_as ''k1'' (device_gate gate_env length 1000 tablet_report gate_db)"
  by code_simp

theorem device_gate_sound_witness:
  "\<exists>cx. device_gate gate_env length 1000 tablet_report gate_db = Inr (Pass cx)
     \<and> (\<exists>k \<in> set (at_kiosks (tables (dd_auth gate_db) ''public'')). k_id k = ''k1'' \<and> k_enabled k
          \<and> (\<exists>t \<in> set (tenants (dd_auth gate_db)). tn_is_active t \<and> dx_device cx = tenant_device t ''k1''))"
proof -
  obtain cx where pass: "device_gate gate_env length 1000 tablet_report gate_db = Inr (Pass cx)"
    and d: "di_id (dx_device cx) = ''k1''" "di_schema_name (dx_device cx) = ''public''"
    using passes_as_pass [OF report_passes] by blast
  have "distinct (map k_id (at_kiosks (tables (dd_auth gate_db) s)))" for s by (simp add: gate_tables)
  from device_gate_sound [OF pass this] pass show ?thesis unfolding d
    by (metis gate_tenants(1) list.distinct(1))
qed

theorem display_session_lifecycle_witness:
  "display_check gate_env length 3601000 (gate_call ''GET'' ''/api/kiosk/_check'' []) gate_db
       (display_token gate_env 1000 [1, 2] gate_tablet (tenant_device default_tenant_row ''k1'')) = Inr (Answer 401)
   \<and> display_check gate_env length 3600999 (gate_call ''GET'' ''/api/kiosk/_check'' []) gate_db
       (display_token gate_env 1000 [1, 2] gate_tablet (tenant_device default_tenant_row ''k1''))
     = display_pages gate_env length 3600999 gate_db default_tenant_row [] gate_tablet"
proof -
  let ?d = "tenant_device default_tenant_row ''k1''" and ?dq = "gate_call ''GET'' ''/api/kiosk/_check'' []"
  have env: "de_lib gate_env = demo_lib" by (simp add: gate_env_def)
  have law: "cipher_ok (lib_gcm (de_lib gate_env)) (lib_ungcm (de_lib gate_env))" unfolding env by (simp add: demo_lib_def demo_cipher_ok)
  have iv: "byte_list [1, 2]" by simp
  have claims: "de_claims gate_env (claims_text (de_number gate_env) (new_claims (de_lib gate_env) 1000 gate_tablet ?d))
      = Some (new_claims (de_lib gate_env) 1000 gate_tablet ?d)"
    unfolding env tablet_claims_def [symmetric] by (simp add: gate_env_def)
  have origin: "displayOriginIsValid (de_lib gate_env) ?dq" unfolding env by code_simp
  have d: "di_tenant_slug ?d = ''default''" "tn_schema_name default_tenant_row = ''public''" "tn_is_active default_tenant_row"
    by (simp_all add: tenant_device_def default_tenant_row_def)
  have t: "getTenantBySlug (dd_auth gate_db) (di_tenant_slug ?d) = Some default_tenant_row" unfolding d by (rule gate_tenants)
  have sch: "assertSchema (tn_schema_name default_tenant_row)" unfolding d by (rule public_schema)
  have row: "kiosk_row gate_db (tn_schema_name default_tenant_row) (k_id gate_tablet) = Some gate_tablet"
    unfolding gate_tablet_fields by (rule gate_row)
  have uri: "nullish (header (dq_request ?dq) ''x-original-uri'') [] = []" by (simp add: gate_call_def nullish_def)
  have v: "isAndroidViewer (Some gate_tablet)" by (simp add: isAndroidViewer_def)
  show ?thesis
    using display_session_lifecycle [OF law iv claims origin t sch row, where later = 3601000 and ck = length]
      display_session_lifecycle [OF law iv claims origin t sch row, where later = 3600999 and ck = length]
    unfolding uri by (simp add: d v)
qed

theorem deleted_kiosk_told_witness:
  "device_gate gate_env length 2000 tablet_report (deleteKiosk ''public'' ''k1'' gate_db) = Inr DeletedAnswer"
proof -
  have rq: "rq_path (dq_request tablet_report) = ''/api/kiosk/heartbeat''" "rq_method (dq_request tablet_report) = ''POST''"
    by (simp_all add: tablet_report_def gate_call_def)
  have ok: "verifyPassword (de_lib gate_env) ''secret-key'' (k_key_hash gate_tablet)"
    by (simp add: gate_env_def demo_lib_def verifyPassword_def)
  have route: "prefix ''/api/kiosk/'' (rq_path (dq_request tablet_report))" unfolding rq by code_simp
  have g: "device_gate gate_env length 2000 tablet_report (deleteKiosk ''public'' ''k1'' gate_db)
    = Inr (if (rq_path (dq_request tablet_report) = ''/api/kiosk/bundle'' \<and> rq_method (dq_request tablet_report) = ''GET'')
              \<or> (rq_path (dq_request tablet_report) = ''/api/kiosk/heartbeat'' \<and> rq_method (dq_request tablet_report) = ''POST'')
           then DeletedAnswer else Answer 401)"
  proof (rule deleted_kiosk_told [OF gate_row route report_bearer])
    show "8 \<le> length ''secret-key''" by simp
    show "k_key_prefix gate_tablet = take 8 ''secret-key''" by simp
    show "verifyPassword (de_lib gate_env) ''secret-key'' (k_key_hash gate_tablet)" by (rule ok)
    show "visible_schema (dd_auth gate_db) s = visible_schema (dd_auth gate_db) ''public'' \<and> k_id x = ''k1''"
      if "x \<in> set (at_kiosks (tables (dd_auth gate_db) s))" for s x
      using that by (simp add: gate_tables) (simp add: gate_db_def visible_schema_def)
    show "k_key_hash gate_tablet \<notin> set (map fst (dd_deleted gate_db))" by (simp add: gate_db_def)
    show "assertSchema (tn_schema_name t)" if "t \<in> set (tenants (dd_auth gate_db))" for t
      using that public_schema by (simp add: gate_tenants default_tenant_row_def)
  qed
  then show ?thesis unfolding rq by simp
qed

end
