(* ===== verification/BF_Logs.thy ===== *)
theory BF_Logs
  imports BF_Events "HOL-Library.Sublist"
begin

text \<open>
  Diagnostic logs of the devices: the batches of \<^verbatim>\<open>shared/kiosk-logs.ts\<close>, the table of
  \<^verbatim>\<open>shared/db/repository.ts\<close>, the filters and page links of \<^verbatim>\<open>shared/kiosk-log-view.ts\<close>, the log
  pages of \<^verbatim>\<open>service-admin-http/routes-logs.ts\<close> and the retention of
  \<^verbatim>\<open>shared/kiosk-log-retention.ts\<close>.  Times of rows are numbers; times in filters are texts, as
  the code keeps them.  Reading and printing of times, the text of a stored JSON value and the
  JSON parser are the fields of \<open>log_lib\<close>; text comparison of the database is a collation key.
\<close>

section \<open>State\<close>

record log_row = kiosk_log +
  lr_event_id :: "string option"

record log_db =
  lg_kiosks :: "(string \<times> string) list"
  lg_rows :: "log_row list"

text \<open>
  \<open>lo_date_parse\<close> is \<^verbatim>\<open>Date.parse\<close> and \<open>lo_iso\<close> is \<^verbatim>\<open>toISOString\<close>; \<open>lo_pg_time\<close> reads a time as the
  database does and \<open>lo_time_text\<close> prints one with microseconds.
\<close>

record log_lib =
  lo_date_parse :: "string \<Rightarrow> number option"
  lo_iso :: "number \<Rightarrow> string"
  lo_pg_time :: "string \<Rightarrow> number option"
  lo_time_text :: "number \<Rightarrow> string"
  lo_jsonb_text :: "json \<Rightarrow> string"
  lo_stringify :: "json \<Rightarrow> string"
  lo_parse_cursor :: "bytes \<Rightarrow> json option"

datatype log_error = BadLogs string | LogKioskMissing | LogIdTaken

section \<open>Batches\<close>

text \<open>An entry after validation of the body: defaults are filled in.\<close>

record log_entry_body =
  lb_level :: string
  lb_message :: string
  lb_context :: json
  lb_logged_at :: "string option"
  lb_event_id :: "string option"

record log_entry =
  le_level :: kiosk_log_level
  le_message :: string
  le_context :: json
  le_logged_at :: "timestamp option"
  le_event_id :: "string option"

definition level_of_text :: "string \<Rightarrow> kiosk_log_level option" where
  "level_of_text s = map_of [(''debug'', LogDebug), (''info'', LogInfo), (''warn'', LogWarn), (''error'', LogError)] s"

definition level_text :: "kiosk_log_level \<Rightarrow> string" where
  "level_text l = (case l of LogDebug \<Rightarrow> ''debug'' | LogInfo \<Rightarrow> ''info'' | LogWarn \<Rightarrow> ''warn'' | LogError \<Rightarrow> ''error'')"

fun json_record :: "json \<Rightarrow> bool" where
  "json_record (JObj fs) = True"
| "json_record _ = False"

definition parse_entry :: "log_lib \<Rightarrow> log_entry_body \<Rightarrow> (log_error, log_entry) result" where
  "parse_entry lib e =
     (if lb_message e = [] then Inl (BadLogs ''log message is required'')
      else if truthy_str (lb_logged_at e) \<and> lo_date_parse lib (the (lb_logged_at e)) = None
      then Inl (BadLogs ''invalid log timestamp'')
      else if \<not> json_record (lb_context e) \<or> length (lo_stringify lib (lb_context e)) > 8192
      then Inl (BadLogs ''log context must be an object up to 8192 characters'')
      else Inr \<lparr>le_level = nullish (level_of_text (lb_level e)) LogInfo, le_message = lb_message e, le_context = lb_context e,
                le_logged_at = (if truthy_str (lb_logged_at e) then lo_date_parse lib (the (lb_logged_at e)) else None),
                le_event_id = lb_event_id e\<rparr>)"

fun parse_entries :: "log_lib \<Rightarrow> log_entry_body list \<Rightarrow> (log_error, log_entry list) result" where
  "parse_entries lib [] = Inr []"
| "parse_entries lib (e # es) =
     bind_result (parse_entry lib e) (\<lambda>x. bind_result (parse_entries lib es) (\<lambda>xs. Inr (x # xs)))"

definition parseKioskLogs :: "log_lib \<Rightarrow> log_entry_body list \<Rightarrow> (log_error, log_entry list) result" where
  "parseKioskLogs lib batch =
     (if batch = [] then Inl (BadLogs ''entries must contain 1-100 logs'') else parse_entries lib batch)"

text \<open>
  One statement inserts the rows in order and is undone as a whole when it fails; a row whose
  kiosk and event are stored already, also by an earlier row of the statement, is left out.
  \<open>received\<close> is the clock of the database, \<open>now\<close> that of the server.
\<close>

definition new_log_row :: "timestamp \<Rightarrow> timestamp \<Rightarrow> string \<Rightarrow> string \<Rightarrow> log_entry \<Rightarrow> log_row" where
  "new_log_row received now lid kid e =
     \<lparr>kg_id = lid, kg_kiosk_id = kid, kg_level = le_level e, kg_message = le_message e, kg_context = le_context e,
      kg_logged_at = nullish (le_logged_at e) now, kg_received_at = received, lr_event_id = le_event_id e\<rparr>"

definition event_stored :: "log_db \<Rightarrow> string \<Rightarrow> string option \<Rightarrow> bool" where
  "event_stored db kid ev \<longleftrightarrow> ev \<noteq> None \<and> list_ex (\<lambda>r. kg_kiosk_id r = kid \<and> lr_event_id r = ev) (lg_rows db)"

definition insert_log_row :: "log_row \<Rightarrow> log_db \<Rightarrow> (log_error, log_db) result" where
  "insert_log_row r db =
     (if event_stored db (kg_kiosk_id r) (lr_event_id r) then Inr db
      else if list_ex (\<lambda>x. kg_id x = kg_id r) (lg_rows db) then Inl LogIdTaken
      else if map_of (lg_kiosks db) (kg_kiosk_id r) = None then Inl LogKioskMissing
      else Inr (db\<lparr>lg_rows := lg_rows db @ [r]\<rparr>))"

fun insert_log_rows :: "log_row list \<Rightarrow> log_db \<Rightarrow> (log_error, log_db) result" where
  "insert_log_rows [] db = Inr db"
| "insert_log_rows (r # rs) db = bind_result (insert_log_row r db) (insert_log_rows rs)"

definition insertKioskLogs ::
  "string list \<Rightarrow> timestamp \<Rightarrow> timestamp \<Rightarrow> string \<Rightarrow> log_entry list \<Rightarrow> log_db \<Rightarrow> (log_error, log_db \<times> nat) result" where
  "insertKioskLogs ids received now kid batch db =
     (if batch = [] then Inr (db, 0)
      else bind_result (insert_log_rows (map2 (\<lambda>i e. new_log_row received now i kid e) ids batch) db)
             (\<lambda>db'. Inr (db', length (lg_rows db') - length (lg_rows db))))"

text \<open>POST logs: the answer and the table.\<close>

definition kiosk_logs_route ::
  "log_lib \<Rightarrow> string list \<Rightarrow> timestamp \<Rightarrow> timestamp \<Rightarrow> string \<Rightarrow> log_entry_body list \<Rightarrow> log_db \<Rightarrow> (log_error, nat) result \<times> log_db" where
  "kiosk_logs_route lib ids received now kid body db =
     (case parseKioskLogs lib body of
        Inl e \<Rightarrow> (Inl e, db)
      | Inr batch \<Rightarrow>
          (case insertKioskLogs ids received now kid batch db of
             Inl e \<Rightarrow> (Inl e, db)
           | Inr (db', n) \<Rightarrow> (Inr n, db')))"

section \<open>Filters\<close>

record log_cursor =
  cu_time :: string
  cu_id :: string

record log_filters =
  lf_kiosk_id :: "string option"
  lf_level :: "kiosk_log_level option"
  lf_source :: "string option"
  lf_search :: string
  lf_from :: "string option"
  lf_until :: string
  lf_limit :: nat
  lf_before :: "log_cursor option"

definition encodeLogCursor :: "log_cursor \<Rightarrow> string" where
  "encodeLogCursor c =
     b64u (utf8_encode (json_text (\<lambda>n. []) (JObj [(''time'', JStr (cu_time c)), (''id'', JStr (cu_id c))])))"

text \<open>\<open>fits\<close>: the letter d of a pattern stands for a digit, every other character for itself.\<close>

definition fits :: "string \<Rightarrow> string \<Rightarrow> bool" where
  "fits pat s = list_all2 (\<lambda>p c. if p = CHR ''d'' then is_digit c else c = p) pat s"

definition is_time_text :: "string \<Rightarrow> bool" where
  "is_time_text s \<longleftrightarrow>
     fits ''dddd-dd-ddTdd:dd'' (take 16 s)
     \<and> (let rest = drop 16 s; fraction = butlast (drop 4 rest) in
        rest = ''Z'' \<or> fits '':ddZ'' rest
        \<or> (fits '':dd.'' (take 4 rest) \<and> suffix ''Z'' (drop 4 rest) \<and> fraction \<noteq> [] \<and> length fraction \<le> 6
           \<and> list_all is_digit fraction))"

definition check_time :: "log_lib \<Rightarrow> string \<Rightarrow> (nat, string) result" where
  "check_time lib s = (if is_time_text s \<and> lo_date_parse lib s \<noteq> None then Inr s else Inl 400)"

definition filter_text :: "(string \<times> json) list \<Rightarrow> string \<Rightarrow> (nat, string) result" where
  "filter_text query name =
     (case nullish (map_of query name) JUndefined of
        JUndefined \<Rightarrow> Inr []
      | JNull \<Rightarrow> Inr []
      | JStr v \<Rightarrow> if length v > 512 then Inl 400 else Inr (js_trim v)
      | _ \<Rightarrow> Inl 400)"

definition log_id_text :: "string \<Rightarrow> bool" where
  "log_id_text s \<longleftrightarrow> s \<noteq> [] \<and> length s \<le> 128 \<and> list_all (\<lambda>c. is_alnum c \<or> c = CHR ''-'') s"

definition read_cursor :: "log_lib \<Rightarrow> string \<Rightarrow> (nat, log_cursor option) result" where
  "read_cursor lib cursor =
     (if cursor = [] then Inr None
      else case lo_parse_cursor lib (b64uDecode cursor) of
          None \<Rightarrow> Inl 400
        | Some v \<Rightarrow>
            (case (json_get v ''id'', json_get v ''time'') of
               (JStr i, JStr t) \<Rightarrow>
                 if \<not> log_id_text i then Inl 400
                 else bind_result (check_time lib t) (\<lambda>t. Inr (Some \<lparr>cu_time = t, cu_id = i\<rparr>))
             | _ \<Rightarrow> Inl 400))"

definition with_zone :: "string \<Rightarrow> string" where
  "with_zone s = (if suffix ''Z'' s then s else s @ ''Z'')"

definition read_limit :: "string \<Rightarrow> (nat, nat) result" where
  "read_limit s =
     (case string_to_number (if s = [] then ''100'' else s) of
        None \<Rightarrow> Inl 400
      | Some n \<Rightarrow> (case find (\<lambda>k. n = of_nat k) [50, 100, 200] of None \<Rightarrow> Inl 400 | Some k \<Rightarrow> Inr k))"

definition read_level :: "string \<Rightarrow> (nat, kiosk_log_level option) result" where
  "read_level s = (if s = [] then Inr None else case level_of_text s of None \<Rightarrow> Inl 400 | Some l \<Rightarrow> Inr (Some l))"

definition read_source :: "string \<Rightarrow> (nat, string option) result" where
  "read_source s = (if s = [] then Inr None else if s \<in> set [''app'', ''os''] then Inr (Some s) else Inl 400)"

definition read_from :: "log_lib \<Rightarrow> string \<Rightarrow> (nat, string option) result" where
  "read_from lib s = (if s = [] then Inr None else map_sum id Some (check_time lib (with_zone s)))"

definition read_until :: "log_lib \<Rightarrow> timestamp \<Rightarrow> string \<Rightarrow> (nat, string) result" where
  "read_until lib now s = (if s = [] then Inr (lo_iso lib now) else check_time lib (with_zone s))"

definition read_kiosk :: "(string \<times> json) list \<Rightarrow> string option \<Rightarrow> (nat, string option) result" where
  "read_kiosk query kioskId =
     (if truthy_str kioskId then Inr kioskId
      else bind_result (filter_text query ''kiosk'') (\<lambda>k. Inr (if k = [] then None else Some k)))"

text \<open>A comparison with a time that is no number is false.\<close>

definition reversed_range :: "log_lib \<Rightarrow> log_filters \<Rightarrow> bool" where
  "reversed_range lib f =
     (case lf_from f of
        None \<Rightarrow> False
      | Some t \<Rightarrow> (case (lo_date_parse lib t, lo_date_parse lib (lf_until f)) of
                     (Some a, Some b) \<Rightarrow> a > b | _ \<Rightarrow> False))"

definition parseLogFilters ::
  "log_lib \<Rightarrow> timestamp \<Rightarrow> (string \<times> json) list \<Rightarrow> string option \<Rightarrow> (nat, log_filters) result" where
  "parseLogFilters lib now query kioskId =
     bind_result (bind_result (filter_text query ''level'') read_level) (\<lambda>level.
     bind_result (bind_result (filter_text query ''source'') read_source) (\<lambda>source.
     bind_result (bind_result (filter_text query ''limit'') read_limit) (\<lambda>limit.
     bind_result (bind_result (filter_text query ''before'') (read_cursor lib)) (\<lambda>before.
     bind_result (bind_result (filter_text query ''from'') (read_from lib)) (\<lambda>from.
     bind_result (bind_result (filter_text query ''until'') (read_until lib now)) (\<lambda>until.
     bind_result (filter_text query ''q'') (\<lambda>search.
     bind_result (read_kiosk query kioskId) (\<lambda>kiosk.
       let f = \<lparr>lf_kiosk_id = kiosk, lf_level = level, lf_source = source, lf_search = take 256 search,
                lf_from = from, lf_until = until, lf_limit = limit, lf_before = before\<rparr>
       in if reversed_range lib f then Inl 400 else Inr f))))))))"

text \<open>The query of a link; \<open>all\<close> says that it leads to the page of all kiosks.\<close>

definition logViewUrl :: "bool \<Rightarrow> log_filters \<Rightarrow> log_cursor option \<Rightarrow> (string \<times> string) list" where
  "logViewUrl all f before =
     [(''until'', lf_until f), (''limit'', show_nat (lf_limit f))]
     @ (if all \<and> truthy_str (lf_kiosk_id f) then [(''kiosk'', the (lf_kiosk_id f))] else [])
     @ (case lf_level f of None \<Rightarrow> [] | Some l \<Rightarrow> [(''level'', level_text l)])
     @ (if truthy_str (lf_source f) then [(''source'', the (lf_source f))] else [])
     @ (if lf_search f \<noteq> [] then [(''q'', lf_search f)] else [])
     @ (if truthy_str (lf_from f) then [(''from'', the (lf_from f))] else [])
     @ (case before of None \<Rightarrow> [] | Some c \<Rightarrow> [(''before'', encodeLogCursor c)])"

section \<open>Pages\<close>

text \<open>
  \<^verbatim>\<open>LIKE\<close> with the backslash as escape, and \<^verbatim>\<open>ILIKE\<close>, which folds both sides; a pattern
  that ends in an escape matches nothing.
\<close>

fun like_match :: "string \<Rightarrow> string \<Rightarrow> bool" where
  "like_match [] t = (t = [])"
| "like_match (p # ps) t =
     (if p = CHR ''%'' then list_ex (like_match ps) (suffixes t)
      else if p = CHR 0x5C then
        (case ps of [] \<Rightarrow> False | q # qs \<Rightarrow> (case t of [] \<Rightarrow> False | c # r \<Rightarrow> c = q \<and> like_match qs r))
      else (case t of [] \<Rightarrow> False | c # r \<Rightarrow> (p = CHR ''_'' \<or> c = p) \<and> like_match ps r))"

definition ilike :: "string \<Rightarrow> string \<Rightarrow> bool" where
  "ilike pat t = like_match (js_lower pat) (js_lower t)"

definition escape_like :: "string \<Rightarrow> string" where
  "escape_like s = concat (map (\<lambda>c. if c \<in> set [CHR 0x5C, CHR ''%'', CHR ''_''] then [CHR 0x5C, c] else [c]) s)"

definition search_pattern :: "string \<Rightarrow> string" where
  "search_pattern s = CHR ''%'' # escape_like s @ ''%''"

text \<open>\<open>context->>'field'\<close>: the text of a field, \<open>None\<close> for none and for null.\<close>

definition context_text :: "log_lib \<Rightarrow> json \<Rightarrow> string \<Rightarrow> string option" where
  "context_text lib cx field =
     (case json_get cx field of
        JUndefined \<Rightarrow> None
      | JNull \<Rightarrow> None
      | JStr s \<Rightarrow> Some s
      | v \<Rightarrow> Some (lo_jsonb_text lib v))"

record log_summary =
  sm_id :: string
  sm_kiosk_id :: string
  sm_kiosk_name :: string
  sm_level :: kiosk_log_level
  sm_preview :: string
  sm_characters :: nat
  sm_lines :: nat
  sm_source :: string
  sm_unit :: string
  sm_boot_id :: string
  sm_logged_at :: timestamp
  sm_received_at :: timestamp
  sm_cursor_time :: string

record log_page =
  lp_logs :: "log_summary list"
  lp_hasMore :: bool

definition summary :: "log_lib \<Rightarrow> log_row \<times> string \<Rightarrow> log_summary" where
  "summary lib = (\<lambda>(r, name).
     let field = context_text lib (kg_context r) in
     \<lparr>sm_id = kg_id r, sm_kiosk_id = kg_kiosk_id r, sm_kiosk_name = name, sm_level = kg_level r,
      sm_preview = take 240 (kg_message r), sm_characters = length (kg_message r),
      sm_lines = 1 + length (filter (\<lambda>c. (of_char c :: nat) = 10) (kg_message r)),
      sm_source = take 32 (nullish (field ''source'') []),
      sm_unit = take 256 (case field ''unit'' of Some u \<Rightarrow> u | None \<Rightarrow> nullish (field ''target'') []),
      sm_boot_id = take 128 (nullish (field ''boot_id'') []),
      sm_logged_at = kg_logged_at r, sm_received_at = kg_received_at r,
      sm_cursor_time = lo_time_text lib (kg_received_at r)\<rparr>)"

definition joined_logs :: "log_db \<Rightarrow> (log_row \<times> string) list" where
  "joined_logs db = List.map_filter (\<lambda>r. map_option (\<lambda>name. (r, name)) (map_of (lg_kiosks db) (kg_kiosk_id r))) (lg_rows db)"

text \<open>The place of a row in the order of the pages.\<close>

definition log_key :: "(string \<Rightarrow> 'k::linorder) \<Rightarrow> log_row \<Rightarrow> timestamp \<times> 'k" where
  "log_key ck r = (kg_received_at r, ck (kg_id r))"

definition log_matches :: "log_lib \<Rightarrow> log_filters \<Rightarrow> timestamp \<Rightarrow> timestamp option \<Rightarrow> log_row \<Rightarrow> bool" where
  "log_matches lib f until from r \<longleftrightarrow>
     kg_received_at r \<le> until
     \<and> (truthy_str (lf_kiosk_id f) \<longrightarrow> lf_kiosk_id f = Some (kg_kiosk_id r))
     \<and> (case lf_level f of None \<Rightarrow> True | Some l \<Rightarrow> kg_level r = l)
     \<and> (truthy_str (lf_source f) \<longrightarrow> context_text lib (kg_context r) ''source'' = lf_source f)
     \<and> (case from of None \<Rightarrow> True | Some t \<Rightarrow> t \<le> kg_received_at r)
     \<and> (lf_search f = [] \<or> ilike (search_pattern (lf_search f)) (kg_message r)
        \<or> ilike (search_pattern (lf_search f)) (lo_jsonb_text lib (kg_context r)))"

definition before_cursor :: "(string \<Rightarrow> 'k::linorder) \<Rightarrow> (timestamp \<times> string) option \<Rightarrow> log_row \<Rightarrow> bool" where
  "before_cursor ck before r = (case before of None \<Rightarrow> True | Some (t, i) \<Rightarrow> log_key ck r < (t, ck i))"

text \<open>An optional time parameter: \<open>None\<close> when the database refuses its text.\<close>

definition opt_time :: "log_lib \<Rightarrow> string option \<Rightarrow> timestamp option option" where
  "opt_time lib s = (case s of None \<Rightarrow> Some None | Some t \<Rightarrow> map_option Some (lo_pg_time lib t))"

definition newest_logs :: "(string \<Rightarrow> 'k::linorder) \<Rightarrow> (log_row \<times> string) list \<Rightarrow> (log_row \<times> string) list" where
  "newest_logs ck rs = rev (sort_key (\<lambda>x. log_key ck (fst x)) rs)"

definition page_of :: "log_lib \<Rightarrow> nat \<Rightarrow> (log_row \<times> string) list \<Rightarrow> log_page" where
  "page_of lib limit hits =
     (let rows = take (limit + 1) hits
      in \<lparr>lp_logs = map (summary lib) (take limit rows), lp_hasMore = (length rows > limit)\<rparr>)"

text \<open>\<open>None\<close> when the database refuses a time.\<close>

definition queryKioskLogs :: "log_lib \<Rightarrow> (string \<Rightarrow> 'k::linorder) \<Rightarrow> log_filters \<Rightarrow> log_db \<Rightarrow> log_page option" where
  "queryKioskLogs lib ck f db =
     (case (lo_pg_time lib (lf_until f), opt_time lib (if truthy_str (lf_from f) then lf_from f else None),
            opt_time lib (map_option cu_time (lf_before f))) of
        (Some until, Some from, Some time) \<Rightarrow>
          let before = (case (time, lf_before f) of (Some t, Some c) \<Rightarrow> Some (t, cu_id c) | _ \<Rightarrow> None)
          in Some (page_of lib (lf_limit f) (newest_logs ck (filter (\<lambda>x. log_matches lib f until from (fst x)
                    \<and> before_cursor ck before (fst x)) (joined_logs db))))
      | _ \<Rightarrow> None)"

definition listKioskLogDevices :: "(string \<Rightarrow> 'k::linorder) \<Rightarrow> string option \<Rightarrow> log_db \<Rightarrow> (string \<times> string) list" where
  "listKioskLogDevices ck kioskId db =
     sort_key (\<lambda>(i, name). (ck name, ck i))
       (filter (\<lambda>(i, name). truthy_str kioskId \<longrightarrow> kioskId = Some i) (lg_kiosks db))"

definition getKioskLog :: "string \<Rightarrow> log_db \<Rightarrow> kiosk_log option" where
  "getKioskLog lid db = map_option kiosk_log.truncate (find (\<lambda>r. kg_id r = lid) (lg_rows db))"

section \<open>Log pages\<close>

text \<open>The links of a page; only the first and the next page are links of their own.\<close>

record log_view =
  lv_kiosk :: "(string \<times> string) option"
  lv_devices :: "(string \<times> string) list"
  lv_filters :: log_filters
  lv_page :: log_page

definition log_view_route ::
  "log_lib \<Rightarrow> (string \<Rightarrow> 'k::linorder) \<Rightarrow> timestamp \<Rightarrow> string option \<Rightarrow> (string \<times> json) list \<Rightarrow> log_db \<Rightarrow> (nat, log_view) result" where
  "log_view_route lib ck now pinned query db =
     (let devices = listKioskLogDevices ck pinned db;
          kiosk = (if truthy_str pinned then find (\<lambda>d. Some (fst d) = pinned) devices else None)
      in if pinned \<noteq> None \<and> kiosk = None then Inl 404
         else bind_result (parseLogFilters lib now query pinned) (\<lambda>f.
           case queryKioskLogs lib ck f db of
             None \<Rightarrow> Inl 500
           | Some page \<Rightarrow> Inr \<lparr>lv_kiosk = kiosk, lv_devices = devices, lv_filters = f, lv_page = page\<rparr>))"

definition log_detail_route :: "string \<Rightarrow> log_db \<Rightarrow> (nat, kiosk_log) result" where
  "log_detail_route lid db = (case getKioskLog lid db of None \<Rightarrow> Inl 404 | Some l \<Rightarrow> Inr l)"

definition older_link :: "log_view \<Rightarrow> (string \<times> string) list option" where
  "older_link v =
     (if lp_hasMore (lv_page v) \<and> lp_logs (lv_page v) \<noteq> []
      then Some (let l = last (lp_logs (lv_page v))
                 in logViewUrl (lv_kiosk v = None) (lv_filters v) (Some \<lparr>cu_time = sm_cursor_time l, cu_id = sm_id l\<rparr>))
      else None)"

definition first_link :: "log_view \<Rightarrow> (string \<times> string) list option" where
  "first_link v = (if lf_before (lv_filters v) \<noteq> None then Some (logViewUrl (lv_kiosk v = None) (lv_filters v) None) else None)"

section \<open>Retention\<close>

record log_store =
  lt_tenants :: "tenant list"
  lt_tables :: "(string, log_db) jsmap"

definition log_schema :: "log_store \<Rightarrow> string \<Rightarrow> string" where
  "log_schema s schema = (if map_has (lt_tables s) schema then schema else ''public'')"

definition log_table :: "log_store \<Rightarrow> string \<Rightarrow> log_db" where
  "log_table s schema = nullish (map_of (lt_tables s) (log_schema s schema)) \<lparr>lg_kiosks = [], lg_rows = []\<rparr>"

definition put_log_table :: "string \<Rightarrow> log_db \<Rightarrow> log_store \<Rightarrow> log_store" where
  "put_log_table schema t s = s\<lparr>lt_tables := AList.update (log_schema s schema) t (lt_tables s)\<rparr>"

definition purgeOldKioskLogs :: "timestamp \<Rightarrow> number \<Rightarrow> log_db \<Rightarrow> log_db \<times> nat" where
  "purgeOldKioskLogs now maxAgeHours db =
     (let kept = filter (\<lambda>r. \<not> kg_received_at r < now - maxAgeHours * 3600000) (lg_rows db)
      in (db\<lparr>lg_rows := kept\<rparr>, length (lg_rows db) - length kept))"

text \<open>\<open>fails\<close> says for which schemas the statement fails; a failure is a warning.\<close>

definition purge_tenant ::
  "(string \<Rightarrow> bool) \<Rightarrow> timestamp \<Rightarrow> number \<Rightarrow> tenant \<Rightarrow> log_store \<times> nat \<times> string list \<Rightarrow> log_store \<times> nat \<times> string list" where
  "purge_tenant fails now hours t = (\<lambda>(s, removed, warnings).
     if \<not> assertSchema (tn_schema_name t) \<or> fails (tn_schema_name t) then (s, removed, warnings @ [tn_id t])
     else (let (db, n) = purgeOldKioskLogs now hours (log_table s (tn_schema_name t))
           in (put_log_table (tn_schema_name t) db s, removed + n, warnings)))"

definition purgeTenantKioskLogs ::
  "(string \<Rightarrow> bool) \<Rightarrow> timestamp \<Rightarrow> number \<Rightarrow> log_store \<Rightarrow> log_store \<times> nat \<times> string list" where
  "purgeTenantKioskLogs fails now hours s =
     fold (purge_tenant fails now hours) (sort_key tn_created_at (lt_tenants s)) (s, 0, [])"

section \<open>Searching\<close>

lemma lower_char_special:
  assumes "(of_char d :: nat) < 65 \<or> (of_char d :: nat) \<in> {91..96}"
  shows "lower_char c = d \<longleftrightarrow> c = d"
proof
  assume l: "lower_char c = d"
  show "c = d"
  proof (rule ccontr)
    assume "c \<noteq> d"
    with l have n: "(of_char c :: nat) \<in> {65..90} \<union> {192..222}" and e: "char_of ((of_char c :: nat) + 32) = d"
      by (auto simp: lower_char_def Let_def split: if_splits)
    have "(of_char d :: nat) = (of_char c + 32) mod 256" unfolding e [symmetric] by (simp add: of_char_of)
    with n assms show False by auto
  qed
next
  assume "c = d"
  with assms show "lower_char c = d" by (auto simp: lower_char_def)
qed

lemma lower_escape: "js_lower (escape_like s) = escape_like (js_lower s)"
proof (induction s)
  case Nil
  then show ?case by (simp add: js_lower_def escape_like_def)
next
  case (Cons c s)
  have fixed: "lower_char x = x" if "x \<in> set [CHR 0x5C, CHR ''%'', CHR ''_'']" for x
    using that lower_char_special [of x x] by auto
  have same: "lower_char c \<in> set [CHR 0x5C, CHR ''%'', CHR ''_''] \<longleftrightarrow> c \<in> set [CHR 0x5C, CHR ''%'', CHR ''_'']"
    by (simp add: lower_char_special)
  show ?case
    using Cons.IH fixed [of "CHR 0x5C"] unfolding escape_like_def js_lower_def list.map concat.simps map_append same
    by simp
qed

lemma like_escaped: "like_match (escape_like s @ ps) t \<longleftrightarrow> (\<exists>r. t = s @ r \<and> like_match ps r)"
proof (induction s arbitrary: t)
  case Nil
  then show ?case by (simp add: escape_like_def)
next
  case (Cons c s)
  let ?special = "c \<in> set [CHR 0x5C, CHR ''%'', CHR ''_'']"
  have step: "like_match (escape_like (c # s) @ ps) t
      \<longleftrightarrow> (case t of [] \<Rightarrow> False | x # u \<Rightarrow> x = c \<and> like_match (escape_like s @ ps) u)"
    by (cases ?special; cases t) (auto simp: escape_like_def)
  show ?case unfolding step Cons.IH by (cases t) auto
qed

lemma like_any: "like_match ''%'' t"
  by (simp add: list_ex_iff)

text \<open>
  (C40) A search finds exactly the texts that contain the words as they were typed, whatever
  their case: the percent sign, the underscore and the backslash stand for themselves.
\<close>

theorem log_search_literal: "ilike (search_pattern s) t \<longleftrightarrow> sublist (js_lower s) (js_lower t)"
proof -
  have pct: "lower_char CHR ''%'' = CHR ''%''" by (simp add: lower_char_def)
  have "js_lower (search_pattern s) = CHR ''%'' # escape_like (js_lower s) @ ''%''"
    unfolding lower_escape [symmetric] by (simp add: search_pattern_def js_lower_def pct)
  then have "ilike (search_pattern s) t \<longleftrightarrow> (\<exists>u \<in> set (suffixes (js_lower t)). \<exists>r. u = js_lower s @ r)"
    unfolding ilike_def like_match.simps(2) by (simp add: like_escaped like_any list_ex_iff)
  also have "\<dots> \<longleftrightarrow> sublist (js_lower s) (js_lower t)"
    unfolding sublist_def Bex_def in_set_suffixes suffix_def by (rule iffI) (clarify, blast)+
  finally show ?thesis .
qed

section \<open>Retention\<close>

interpretation logs: keyed_store log_table put_log_table log_schema
proof
  have place: "log_schema (put_log_table k v s) k' = log_schema s k'" for k v s k'
    by (auto simp: log_schema_def put_log_table_def get_set)
  show "log_schema (put_log_table k v s) = log_schema s" for k v s by (rule ext) (rule place)
  show "log_table (put_log_table k v s) k' = (if log_schema s k = log_schema s k' then v else log_table s k')" for k v s k'
    unfolding log_table_def place by (simp add: put_log_table_def get_set)
qed

definition reached :: "(string \<Rightarrow> bool) \<Rightarrow> tenant \<Rightarrow> bool" where
  "reached fails t \<longleftrightarrow> assertSchema (tn_schema_name t) \<and> \<not> fails (tn_schema_name t)"

lemma purge_tenant_table:
  "log_table (fst (purge_tenant fails now hours t x)) schema
    = (if reached fails t \<and> log_schema (fst x) (tn_schema_name t) = log_schema (fst x) schema
       then fst (purgeOldKioskLogs now hours (log_table (fst x) schema)) else log_table (fst x) schema)"
  "log_schema (fst (purge_tenant fails now hours t x)) = log_schema (fst x)"
  "snd (snd (purge_tenant fails now hours t x)) = snd (snd x) @ (if reached fails t then [] else [tn_id t])"
proof -
  have t: "log_table (fst x) (tn_schema_name t) = log_table (fst x) schema"
    if "log_schema (fst x) (tn_schema_name t) = log_schema (fst x) schema"
    using that by (simp add: log_table_def)
  show "log_table (fst (purge_tenant fails now hours t x)) schema
    = (if reached fails t \<and> log_schema (fst x) (tn_schema_name t) = log_schema (fst x) schema
       then fst (purgeOldKioskLogs now hours (log_table (fst x) schema)) else log_table (fst x) schema)"
    using t by (auto simp: purge_tenant_def reached_def logs.get_put split: prod.split)
  show "log_schema (fst (purge_tenant fails now hours t x)) = log_schema (fst x)"
    "snd (snd (purge_tenant fails now hours t x)) = snd (snd x) @ (if reached fails t then [] else [tn_id t])"
    by (auto simp: purge_tenant_def reached_def logs.place_put split: prod.split)
qed

lemma purge_twice:
  "fst (purgeOldKioskLogs now hours (fst (purgeOldKioskLogs now hours db))) = fst (purgeOldKioskLogs now hours db)"
  by (simp add: purgeOldKioskLogs_def Let_def)

lemma purge_fold:
  "log_table (fst (fold (purge_tenant fails now hours) ts x)) schema
      = (if \<exists>t \<in> set ts. reached fails t \<and> log_schema (fst x) (tn_schema_name t) = log_schema (fst x) schema
         then fst (purgeOldKioskLogs now hours (log_table (fst x) schema)) else log_table (fst x) schema)
    \<and> snd (snd (fold (purge_tenant fails now hours) ts x)) = snd (snd x) @ map tn_id (filter (\<lambda>t. \<not> reached fails t) ts)"
  by (induction ts arbitrary: x) (auto simp: purge_tenant_table purge_twice)

lemma purged_rows:
  "lg_rows (fst (purgeOldKioskLogs now hours db)) = filter (\<lambda>r. now - hours * 3600000 \<le> kg_received_at r) (lg_rows db)"
  by (simp add: purgeOldKioskLogs_def Let_def not_less)

text \<open>
  A retention run reaches every tenant, active or not: in each schema it reaches exactly
  the rows of the last \<open>hours\<close> remain, in their order, every other schema is as before, and a
  tenant whose clean-up fails is warned of and stops nobody else's.
\<close>

theorem log_retention_complete:
  "lg_rows (log_table (fst (purgeTenantKioskLogs fails now hours s)) schema)
     = (if \<exists>t \<in> set (lt_tenants s). reached fails t \<and> log_schema s (tn_schema_name t) = log_schema s schema
        then filter (\<lambda>r. now - hours * 3600000 \<le> kg_received_at r) (lg_rows (log_table s schema))
        else lg_rows (log_table s schema))
   \<and> snd (snd (purgeTenantKioskLogs fails now hours s))
     = map tn_id (filter (\<lambda>t. \<not> reached fails t) (sort_key tn_created_at (lt_tenants s)))"
proof (cases "\<exists>t \<in> set (lt_tenants s). reached fails t \<and> log_schema s (tn_schema_name t) = log_schema s schema")
  case True
  then show ?thesis unfolding purgeTenantKioskLogs_def by (simp only: purge_fold set_sort fst_conv snd_conv if_True append_Nil purged_rows)
next
  case False
  then show ?thesis unfolding purgeTenantKioskLogs_def by (simp only: purge_fold set_sort fst_conv snd_conv if_False append_Nil)
qed

section \<open>Batches sent again\<close>

definition stored_events :: "log_db \<Rightarrow> (string \<times> string option) list" where
  "stored_events db = map (\<lambda>r. (kg_kiosk_id r, lr_event_id r)) (filter (\<lambda>r. lr_event_id r \<noteq> None) (lg_rows db))"

text \<open>Identifiers are unique, an event of a kiosk is stored once, and every row has its kiosk.\<close>

definition log_inv :: "log_db \<Rightarrow> bool" where
  "log_inv db \<longleftrightarrow> distinct (map kg_id (lg_rows db)) \<and> distinct (stored_events db)
     \<and> list_all (\<lambda>r. map_of (lg_kiosks db) (kg_kiosk_id r) \<noteq> None) (lg_rows db)"

lemma event_stored_iff: "event_stored db kid ev \<longleftrightarrow> ev \<noteq> None \<and> (kid, ev) \<in> set (stored_events db)"
  by (auto simp: event_stored_def stored_events_def list_ex_iff)

lemma insert_log_row_cases:
  assumes "insert_log_row r db = Inr db'"
  obtains "db' = db" and "event_stored db (kg_kiosk_id r) (lr_event_id r)"
  | "db' = db\<lparr>lg_rows := lg_rows db @ [r]\<rparr>" and "\<not> event_stored db (kg_kiosk_id r) (lr_event_id r)"
    and "kg_id r \<notin> set (map kg_id (lg_rows db))" and "map_of (lg_kiosks db) (kg_kiosk_id r) \<noteq> None"
  using assms unfolding insert_log_row_def
  by (fastforce simp: list_ex_iff split: if_splits)

lemma stored_events_append:
  "stored_events (db\<lparr>lg_rows := lg_rows db @ [r]\<rparr>)
    = stored_events db @ (if lr_event_id r = None then [] else [(kg_kiosk_id r, lr_event_id r)])"
  by (simp add: stored_events_def)

lemma insert_log_row_inv:
  assumes "insert_log_row r db = Inr db'" and "log_inv db"
  shows "log_inv db'"
  using assms(1)
proof (cases rule: insert_log_row_cases)
  case 2
  with assms(2) show ?thesis
    by (auto simp: log_inv_def stored_events_append event_stored_iff)
qed (use assms(2) in simp)

lemma insert_log_row_grows:
  assumes "insert_log_row r db = Inr db'"
  shows "\<exists>new. lg_rows db' = lg_rows db @ new"
    and "lr_event_id r \<noteq> None \<Longrightarrow> event_stored db' (kg_kiosk_id r) (lr_event_id r)"
  using assms by (cases rule: insert_log_row_cases; auto simp: event_stored_def)+

lemma event_stored_mono:
  assumes "event_stored db kid ev" and "lg_rows db' = lg_rows db @ new"
  shows "event_stored db' kid ev"
  using assms by (simp add: event_stored_def)

lemma insert_log_rows_grows:
  assumes "insert_log_rows rs db = Inr db'"
  shows "(log_inv db \<longrightarrow> log_inv db') \<and> (\<exists>new. lg_rows db' = lg_rows db @ new)
    \<and> (\<forall>r \<in> set rs. lr_event_id r \<noteq> None \<longrightarrow> event_stored db' (kg_kiosk_id r) (lr_event_id r))"
  using assms
proof (induction rs arbitrary: db)
  case (Cons r rs)
  then obtain db1 where one: "insert_log_row r db = Inr db1" and rest: "insert_log_rows rs db1 = Inr db'"
    by (auto simp: bind_result_eq_Inr)
  obtain n1 n2 where n: "lg_rows db1 = lg_rows db @ n1" "lg_rows db' = lg_rows db1 @ n2"
    using insert_log_row_grows(1) [OF one] Cons.IH [OF rest] by blast
  have "lr_event_id r \<noteq> None \<longrightarrow> event_stored db' (kg_kiosk_id r) (lr_event_id r)"
    using insert_log_row_grows(2) [OF one] event_stored_mono [OF _ n(2)] by blast
  with n insert_log_row_inv [OF one] Cons.IH [OF rest] show ?case by simp
qed simp

lemma insert_log_rows_again:
  "\<forall>r \<in> set rs. event_stored db (kg_kiosk_id r) (lr_event_id r) \<Longrightarrow> insert_log_rows rs db = Inr db"
  by (induction rs) (simp_all add: insert_log_row_def)

lemma parse_entries_events:
  "parse_entries lib es = Inr xs \<Longrightarrow> map le_event_id xs = map lb_event_id es"
proof (induction es arbitrary: xs)
  case (Cons e es)
  then show ?case by (auto simp: bind_result_eq_Inr parse_entry_def split: if_splits)
qed simp

lemma new_rows_of:
  assumes "length ids = length es"
  shows "r \<in> set (map2 (\<lambda>i e. new_log_row received now i kid e) ids es)
    \<Longrightarrow> kg_kiosk_id r = kid \<and> lr_event_id r \<in> set (map le_event_id es)"
    and "e \<in> set es \<Longrightarrow> \<exists>r \<in> set (map2 (\<lambda>i e. new_log_row received now i kid e) ids es). kg_kiosk_id r = kid \<and> lr_event_id r = le_event_id e"
proof -
  show "r \<in> set (map2 (\<lambda>i e. new_log_row received now i kid e) ids es)
    \<Longrightarrow> kg_kiosk_id r = kid \<and> lr_event_id r \<in> set (map le_event_id es)"
    by (auto simp: new_log_row_def dest: set_zip_rightD)
  assume "e \<in> set es"
  then obtain i where "(i, e) \<in> set (zip ids es)" using assms by (metis in_set_impl_in_set_zip2)
  then show "\<exists>r \<in> set (map2 (\<lambda>i e. new_log_row received now i kid e) ids es). kg_kiosk_id r = kid \<and> lr_event_id r = le_event_id e"
    by (force simp: new_log_row_def)
qed


section \<open>Texts of links\<close>

lemma trim_solid: "list_all (\<lambda>c. \<not> is_ws c) s \<Longrightarrow> js_trim s = s"
proof -
  assume s: "list_all (\<lambda>c. \<not> is_ws c) s"
  have "dropWhile is_ws t = t" if "list_all (\<lambda>c. \<not> is_ws c) t" for t using that by (cases t) simp_all
  with s show ?thesis by (simp add: js_trim_def)
qed

lemma fits_length: "fits pat s \<Longrightarrow> length s = length pat"
  unfolding fits_def by (rule list_all2_lengthD [symmetric])

definition time_char :: "char \<Rightarrow> bool" where
  "time_char c \<longleftrightarrow> is_digit c \<or> c \<in> set ''-T:.Z''"

lemma fits_time:
  assumes "fits pat s" and "set pat \<subseteq> set ''d-T:.Z''"
  shows "list_all time_char s"
  using assms unfolding fits_def by (induction rule: list_all2_induct) (auto simp: time_char_def split: if_splits)

lemma time_text_facts:
  assumes "is_time_text s"
  shows "list_all time_char s" and "length s \<le> 27" and "suffix ''Z'' s"
proof -
  let ?h = "take 16 s" and ?r = "drop 16 s"
  have h: "list_all time_char ?h" "length ?h = 16"
    using assms [unfolded is_time_text_def, THEN conjunct1, THEN fits_time]
      assms [unfolded is_time_text_def, THEN conjunct1, THEN fits_length] by simp_all
  have r: "list_all time_char ?r \<and> length ?r \<le> 11 \<and> suffix ''Z'' ?r"
    using assms unfolding is_time_text_def Let_def
  proof (elim conjE disjE)
    assume "?r = ''Z''"
    then show ?thesis by (simp add: time_char_def)
  next
    assume f: "fits '':ddZ'' ?r"
    then obtain a b where r: "?r = [CHR '':'', a, b, CHR ''Z'']"
      unfolding fits_def by (auto simp: list_all2_Cons1 simp del: drop_eq_Nil)
    have "suffix ''Z'' [CHR '':'', a, b, CHR ''Z'']" by (rule suffixI [of _ "[CHR '':'', a, b]"]) simp
    moreover have "list_all time_char ?r" by (rule fits_time [OF f]) simp
    ultimately show ?thesis unfolding r by simp
  next
    assume f: "fits '':dd.'' (take 4 ?r)" and z: "suffix ''Z'' (drop 4 ?r)"
      and d: "length (butlast (drop 4 ?r)) \<le> 6" "list_all is_digit (butlast (drop 4 ?r))"
    obtain y where y: "drop 4 ?r = y @ ''Z''" using z by (auto simp: suffix_def)
    have t: "list_all time_char (take 4 ?r)" "length (take 4 ?r) = 4"
      using fits_time [OF f] fits_length [OF f] by simp_all
    have e: "?r = take 4 ?r @ y @ ''Z''" unfolding y [symmetric] by (rule append_take_drop_id [symmetric])
    have "list_all time_char y" "length y \<le> 6" using d unfolding y by (auto simp: list_all_iff time_char_def)
    with t have "list_all time_char (take 4 ?r @ y @ ''Z'')" "length (take 4 ?r @ y @ ''Z'') \<le> 11"
      by (simp_all add: time_char_def)
    moreover have "suffix ''Z'' (take 4 ?r @ y @ ''Z'')" by (simp add: suffix_def)
    ultimately show ?thesis using e by (simp only:)
  qed
  have "list_all time_char (?h @ ?r)" unfolding list_all_append using h r by blast
  moreover have "length (?h @ ?r) \<le> 27" unfolding length_append using h r by linarith
  moreover have "suffix ''Z'' (?h @ ?r)" using r by (intro suffix_appendI) blast
  ultimately show "list_all time_char s" "length s \<le> 27" "suffix ''Z'' s" by (simp_all only: append_take_drop_id)
qed

lemma solid_time_char: "time_char c \<Longrightarrow> \<not> is_ws c" "time_char c \<Longrightarrow> (of_char c :: nat) < 128 \<and> quote_char c = [c]"
  by (auto simp: time_char_def is_digit_def is_ws_def quote_char_def Let_def)

lemma time_text_trim: "is_time_text s \<Longrightarrow> js_trim s = s \<and> length s \<le> 512 \<and> with_zone s = s \<and> s \<noteq> []"
  using time_text_facts [of s] solid_time_char(1)
  by (auto simp: with_zone_def list_all_iff suffix_def intro!: trim_solid)

lemma id_char_plain: "is_alnum c \<or> c = CHR ''-'' \<Longrightarrow> (of_char c :: nat) < 128 \<and> quote_char c = [c]"
  by (auto simp: is_alnum_def is_digit_def is_lower_def is_upper_def quote_char_def Let_def)

lemma quote_plain: "list_all (\<lambda>c. (of_char c :: nat) < 128 \<and> quote_char c = [c]) s \<Longrightarrow> concat (map quote_char s) = s"
  by (induction s) simp_all

lemma utf8_plain: "list_all (\<lambda>c. (of_char c :: nat) < 128) s \<Longrightarrow> length (utf8_encode s) = length s"
  by (induction s) (simp_all add: Let_def)

lemma sextets_length: "3 * length (bytes_sextets bs) \<le> 4 * length bs + 2"
  by (induction bs rule: bytes_sextets.induct) simp_all

lemma b64_solid: "d < 64 \<Longrightarrow> \<not> is_ws (to_url_char (b64_char d))"
proof -
  have solid: "list_all (\<lambda>c. \<not> is_ws (to_url_char c)) b64_alphabet"
    by (simp add: b64_alphabet_def to_url_char_def is_ws_def)
  have "length b64_alphabet = 64" by (simp add: b64_alphabet_def)
  then show "d < 64 \<Longrightarrow> \<not> is_ws (to_url_char (b64_char d))" using solid by (simp add: b64_char_def list_all_length)
qed

definition good_cursor :: "log_lib \<Rightarrow> log_cursor \<Rightarrow> bool" where
  "good_cursor lib c \<longleftrightarrow> is_time_text (cu_time c) \<and> lo_date_parse lib (cu_time c) \<noteq> None \<and> log_id_text (cu_id c)"

definition cursor_json :: "log_cursor \<Rightarrow> json" where
  "cursor_json c = JObj [(''time'', JStr (cu_time c)), (''id'', JStr (cu_id c))]"

lemma cursor_text:
  "json_text num (cursor_json c)
    = [CHR ''{'', CHR 0x22] @ ''time'' @ [CHR 0x22, CHR '':'', CHR 0x22] @ concat (map quote_char (cu_time c)) @ [CHR 0x22, CHR '','', CHR 0x22]
      @ ''id'' @ [CHR 0x22, CHR '':'', CHR 0x22] @ concat (map quote_char (cu_id c)) @ [CHR 0x22, CHR ''}'']"
  by (simp add: cursor_json_def quote_def quote_char_def)

lemma encoded_cursor:
  assumes "good_cursor lib c"
  shows "js_trim (encodeLogCursor c) = encodeLogCursor c" and "encodeLogCursor c \<noteq> []"
    and "length (encodeLogCursor c) \<le> 512"
    and "b64uDecode (encodeLogCursor c) = utf8_encode (json_text (\<lambda>n. []) (cursor_json c))"
proof -
  let ?t = "json_text (\<lambda>n. []) (cursor_json c)"
  let ?bs = "utf8_encode ?t"
  have e: "encodeLogCursor c = b64u ?bs" by (simp add: encodeLogCursor_def cursor_json_def)
  have b: "byte_list ?bs" by (rule utf8_bytes)
  show "b64uDecode (encodeLogCursor c) = ?bs" unfolding e by (rule b64u_roundtrip [OF b])
  have s: "encodeLogCursor c = map (\<lambda>d. to_url_char (b64_char d)) (bytes_sextets ?bs)" unfolding e by (rule b64u_sextets [OF b])
  show "js_trim (encodeLogCursor c) = encodeLogCursor c"
    unfolding s using sextets_bounded [OF b] b64_solid by (intro trim_solid) (auto simp: list_all_iff)
  have time: "list_all (\<lambda>x. (of_char x :: nat) < 128 \<and> quote_char x = [x]) (cu_time c)" "length (cu_time c) \<le> 27"
    using assms time_text_facts [of "cu_time c"] solid_time_char(2) by (auto simp: good_cursor_def list_all_iff)
  have lid: "list_all (\<lambda>x. (of_char x :: nat) < 128 \<and> quote_char x = [x]) (cu_id c)" "length (cu_id c) \<le> 128"
    using assms id_char_plain by (auto simp: good_cursor_def log_id_text_def list_all_iff)
  have plain: "list_all (\<lambda>x. (of_char x :: nat) < 128) ?t"
    unfolding cursor_text quote_plain [OF time(1)] quote_plain [OF lid(1)]
    using time(1) lid(1) by (auto simp: list_all_iff)
  have "length ?t \<le> 174" unfolding cursor_text quote_plain [OF time(1)] quote_plain [OF lid(1)] using time(2) lid(2) by simp
  then have "length ?bs \<le> 174" using utf8_plain [OF plain] by simp
  then have "3 * length (bytes_sextets ?bs) \<le> 4 * 174 + 2" using sextets_length [of ?bs] by linarith
  then show "length (encodeLogCursor c) \<le> 512" unfolding s by simp
  have "?t \<noteq> []" unfolding cursor_text by simp
  then have "?bs \<noteq> []" by (cases ?t) (simp_all add: Let_def del: json_text.simps)
  then show "encodeLogCursor c \<noteq> []" unfolding s by (cases ?bs rule: bytes_sextets.cases) simp_all
qed

section \<open>Links read back\<close>

definition link_query :: "(string \<times> string) list \<Rightarrow> (string \<times> json) list" where
  "link_query = map (\<lambda>(k, v). (k, JStr v))"

text \<open>The filters that reading a query gives, apart from the cut of a long search.\<close>

definition plain_filters :: "log_lib \<Rightarrow> string option \<Rightarrow> log_filters \<Rightarrow> bool" where
  "plain_filters lib pinned f \<longleftrightarrow>
     (case pinned of Some k \<Rightarrow> k \<noteq> [] \<and> lf_kiosk_id f = Some k
      | None \<Rightarrow> (case lf_kiosk_id f of None \<Rightarrow> True | Some k \<Rightarrow> k \<noteq> [] \<and> js_trim k = k \<and> length k \<le> 512))
     \<and> (lf_source f = None \<or> lf_source f = Some ''app'' \<or> lf_source f = Some ''os'')
     \<and> js_trim (lf_search f) = lf_search f \<and> length (lf_search f) \<le> 256
     \<and> (case lf_from f of None \<Rightarrow> True | Some t \<Rightarrow> is_time_text t \<and> lo_date_parse lib t \<noteq> None)
     \<and> is_time_text (lf_until f) \<and> lo_date_parse lib (lf_until f) \<noteq> None
     \<and> lf_limit f \<in> {50, 100, 200} \<and> \<not> reversed_range lib f"

lemma link_lookup: "map_of (link_query l) name = map_option JStr (map_of l name)"
  by (simp add: link_query_def map_of_map)

lemma filter_text_link:
  assumes "map_of l name = Some v" and "js_trim v = v" and "length v \<le> 512"
  shows "filter_text (link_query l) name = Inr v"
  using assms by (simp add: filter_text_def link_lookup)

lemma filter_text_absent: "map_of l name = None \<Longrightarrow> filter_text (link_query l) name = Inr []"
  by (simp add: filter_text_def link_lookup)

lemma opt_entry: "map_of (if b then [(k, v)] else []) x = (if b \<and> x = k then Some v else None)"
  by simp

lemma url_lookup:
  assumes "b = Some c"
  shows "map_of (logViewUrl all f b) ''until'' = Some (lf_until f)"
    and "map_of (logViewUrl all f b) ''limit'' = Some (show_nat (lf_limit f))"
    and "map_of (logViewUrl all f b) ''kiosk'' = (if all \<and> truthy_str (lf_kiosk_id f) then lf_kiosk_id f else None)"
    and "map_of (logViewUrl all f b) ''level'' = map_option level_text (lf_level f)"
    and "map_of (logViewUrl all f b) ''source'' = (if truthy_str (lf_source f) then lf_source f else None)"
    and "map_of (logViewUrl all f b) ''q'' = (if lf_search f \<noteq> [] then Some (lf_search f) else None)"
    and "map_of (logViewUrl all f b) ''from'' = (if truthy_str (lf_from f) then lf_from f else None)"
    and "map_of (logViewUrl all f b) ''before'' = Some (encodeLogCursor c)"
  unfolding logViewUrl_def assms
  by (simp_all add: map_add_def opt_entry truthy_str_iff split: option.split) auto

lemma read_limit_shown: "k \<in> {50, 100, 200} \<Longrightarrow> read_limit (js_trim (show_nat k)) = Inr k \<and> length (show_nat k) \<le> 512"
proof -
  have "read_limit (js_trim (show_nat 50)) = Inr 50" "read_limit (js_trim (show_nat 100)) = Inr 100"
    "read_limit (js_trim (show_nat 200)) = Inr 200" "length (show_nat 50) \<le> 512" "length (show_nat 100) \<le> 512" "length (show_nat 200) \<le> 512"
    by code_simp+
  then show "k \<in> {50, 100, 200} \<Longrightarrow> read_limit (js_trim (show_nat k)) = Inr k \<and> length (show_nat k) \<le> 512" by auto
qed

lemma read_level_text: "read_level (js_trim (level_text l)) = Inr (Some l) \<and> length (level_text l) \<le> 512"
proof -
  have "read_level (js_trim (level_text LogDebug)) = Inr (Some LogDebug) \<and> length (level_text LogDebug) \<le> 512"
    "read_level (js_trim (level_text LogInfo)) = Inr (Some LogInfo) \<and> length (level_text LogInfo) \<le> 512"
    "read_level (js_trim (level_text LogWarn)) = Inr (Some LogWarn) \<and> length (level_text LogWarn) \<le> 512"
    "read_level (js_trim (level_text LogError)) = Inr (Some LogError) \<and> length (level_text LogError) \<le> 512"
    by code_simp+
  then show ?thesis by (cases l) simp_all
qed

lemma read_source_text: "s = ''app'' \<or> s = ''os'' \<Longrightarrow> read_source (js_trim s) = Inr (Some s) \<and> length s \<le> 512"
proof -
  have "read_source (js_trim ''app'') = Inr (Some ''app'')" "read_source (js_trim ''os'') = Inr (Some ''os'')" by code_simp+
  then show "s = ''app'' \<or> s = ''os'' \<Longrightarrow> read_source (js_trim s) = Inr (Some s) \<and> length s \<le> 512" by auto
qed

lemma filter_text_trimmed:
  assumes "map_of l name = Some v" and "length v \<le> 512"
  shows "filter_text (link_query l) name = Inr (js_trim v)"
  using assms by (simp add: filter_text_def link_lookup)

definition cursor_parsed :: "log_lib \<Rightarrow> log_cursor \<Rightarrow> bool" where
  "cursor_parsed lib c \<longleftrightarrow> lo_parse_cursor lib (utf8_encode (json_text (\<lambda>n. []) (cursor_json c))) = Some (cursor_json c)"

lemma read_cursor_back:
  assumes "good_cursor lib c" and "cursor_parsed lib c"
  shows "read_cursor lib (encodeLogCursor c) = Inr (Some c)"
  using assms encoded_cursor(2,4) [OF assms(1)]
  by (simp add: read_cursor_def cursor_parsed_def) (simp add: cursor_json_def good_cursor_def check_time_def)

lemma read_back_time:
  assumes "is_time_text t" and "lo_date_parse lib t \<noteq> None"
  shows "read_until lib now t = Inr t" and "read_from lib t = Inr (Some t)"
  using assms time_text_trim [OF assms(1)] by (simp_all add: read_until_def read_from_def check_time_def)

text \<open>A link leads back to the filters it was made of, with the cursor it carries.\<close>

lemma link_read_back:
  assumes f: "plain_filters lib pinned f" and c: "good_cursor lib c" "cursor_parsed lib c"
  shows "parseLogFilters lib now (link_query (logViewUrl (pinned = None) f (Some c))) pinned = Inr (f\<lparr>lf_before := Some c\<rparr>)"
proof -
  let ?l = "logViewUrl (pinned = None) f (Some c)"
  note look = url_lookup [OF refl, of "pinned = None" f c]
  have until: "is_time_text (lf_until f)" "lo_date_parse lib (lf_until f) \<noteq> None" using f by (simp_all add: plain_filters_def)
  have 1: "bind_result (filter_text (link_query ?l) ''until'') (read_until lib now) = Inr (lf_until f)"
    using filter_text_link [OF look(1)] time_text_trim [OF until(1)] read_back_time(1) [OF until] by simp
  have 2: "bind_result (filter_text (link_query ?l) ''limit'') read_limit = Inr (lf_limit f)"
    using filter_text_trimmed [OF look(2)] read_limit_shown [of "lf_limit f"] f by (simp add: plain_filters_def)
  have 3: "bind_result (filter_text (link_query ?l) ''level'') read_level = Inr (lf_level f)"
    using look(4) read_level_text filter_text_absent [of ?l "''level''"] filter_text_trimmed [of ?l "''level''"]
    by (cases "lf_level f") (simp_all add: read_level_def)
  have 4: "bind_result (filter_text (link_query ?l) ''source'') read_source = Inr (lf_source f)"
  proof (cases "lf_source f")
    case None
    with look(5) show ?thesis by (simp add: filter_text_absent read_source_def)
  next
    case (Some s)
    then have s: "s = ''app'' \<or> s = ''os''" using f by (auto simp: plain_filters_def)
    then have "map_of ?l ''source'' = Some s" using look(5) Some by auto
    with read_source_text [OF s] Some show ?thesis by (simp add: filter_text_trimmed)
  qed
  have 5: "filter_text (link_query ?l) ''q'' = Inr (lf_search f)"
  proof (cases "lf_search f = []")
    case True
    with look(6) show ?thesis by (simp add: filter_text_absent)
  next
    case False
    with look(6) f show ?thesis by (intro filter_text_link) (simp_all add: plain_filters_def)
  qed
  have 6: "bind_result (filter_text (link_query ?l) ''from'') (read_from lib) = Inr (lf_from f)"
  proof (cases "lf_from f")
    case None
    with look(7) show ?thesis by (simp add: filter_text_absent read_from_def)
  next
    case (Some t)
    then have t: "is_time_text t" "lo_date_parse lib t \<noteq> None" using f by (simp_all add: plain_filters_def)
    then have "map_of ?l ''from'' = Some t" using look(7) Some time_text_trim by (simp add: truthy_str_iff)
    with read_back_time(2) [OF t] time_text_trim [OF t(1)] Some show ?thesis by (simp add: filter_text_link)
  qed
  have 7: "bind_result (filter_text (link_query ?l) ''before'') (read_cursor lib) = Inr (Some c)"
    using filter_text_link [OF look(8)] encoded_cursor(1,3) [OF c(1)] read_cursor_back [OF c] by simp
  have 8: "read_kiosk (link_query ?l) pinned = Inr (lf_kiosk_id f)"
  proof (cases pinned)
    case None
    then have k: "case lf_kiosk_id f of None \<Rightarrow> True | Some k \<Rightarrow> k \<noteq> [] \<and> js_trim k = k \<and> length k \<le> 512"
      using f by (simp add: plain_filters_def)
    show ?thesis
    proof (cases "lf_kiosk_id f")
      case None
      with look(3) \<open>pinned = None\<close> show ?thesis by (simp add: read_kiosk_def filter_text_absent)
    next
      case (Some k)
      with k look(3) \<open>pinned = None\<close> show ?thesis by (simp add: read_kiosk_def filter_text_link truthy_str_iff)
    qed
  next
    case (Some k)
    with f show ?thesis by (simp add: plain_filters_def read_kiosk_def truthy_str_iff)
  qed
  have same: "lf_from (f\<lparr>lf_before := Some c\<rparr>) = lf_from f" "lf_until (f\<lparr>lf_before := Some c\<rparr>) = lf_until f" by simp_all
  have "reversed_range lib (f\<lparr>lf_before := Some c\<rparr>) = reversed_range lib f"
    unfolding reversed_range_def same by (rule refl)
  then have cut: "take 256 (lf_search f) = lf_search f" and range: "\<not> reversed_range lib (f\<lparr>lf_before := Some c\<rparr>)"
    using f by (simp_all add: plain_filters_def)
  show ?thesis
    unfolding parseLogFilters_def 1 2 3 4 5 6 7 8 bind_result_Inr cut Let_def using range by (cases f) simp
qed

lemma js_trim_length: "length (js_trim s) \<le> length s"
  unfolding js_trim_def length_rev by (rule order_trans [OF length_dropWhile_le]) (simp add: length_dropWhile_le)

lemma read_text_trimmed:
  assumes "filter_text query name = Inr v"
  shows "js_trim v = v \<and> length v \<le> 512"
proof -
  have e: "js_trim [] = ([] :: string)" by (simp add: js_trim_def)
  show ?thesis
    using assms e order_trans [OF js_trim_length]
    by (auto simp: filter_text_def split: json.splits if_splits)
qed

lemma parsed_filters_plain:
  assumes parsed: "parseLogFilters lib now query pinned = Inr f" and pinned: "pinned \<noteq> Some []"
    and clock: "is_time_text (lo_iso lib now)" "lo_date_parse lib (lo_iso lib now) \<noteq> None"
    and search: "js_trim (lf_search f) = lf_search f"
  shows "plain_filters lib pinned f"
proof -
  obtain level source limit cursor start stop q kiosk where
      l: "bind_result (filter_text query ''limit'') read_limit = Inr limit"
    and s: "bind_result (filter_text query ''source'') read_source = Inr source"
    and fr: "bind_result (filter_text query ''from'') (read_from lib) = Inr start"
    and un: "bind_result (filter_text query ''until'') (read_until lib now) = Inr stop"
    and k: "read_kiosk query pinned = Inr kiosk"
    and f: "f = \<lparr>lf_kiosk_id = kiosk, lf_level = level, lf_source = source, lf_search = take 256 q,
                lf_from = start, lf_until = stop, lf_limit = limit, lf_before = cursor\<rparr>" and r: "\<not> reversed_range lib f"
    using parsed unfolding parseLogFilters_def Let_def by (auto simp: bind_result_eq_Inr split: if_splits)
  have limit: "limit \<in> {50, 100, 200}"
    using l by (auto simp: bind_result_eq_Inr read_limit_def split: option.splits if_splits)
  have source: "source = None \<or> source = Some ''app'' \<or> source = Some ''os''"
    using s by (auto simp: bind_result_eq_Inr read_source_def split: if_splits)
  have checked: "is_time_text t \<and> lo_date_parse lib t \<noteq> None" if "check_time lib x = Inr t" for x t
    using that by (auto simp: check_time_def split: if_splits)
  have start': "case start of None \<Rightarrow> True | Some t \<Rightarrow> is_time_text t \<and> lo_date_parse lib t \<noteq> None"
    using fr checked unfolding bind_result_eq_Inr read_from_def
    by (fastforce split: if_splits sum.splits option.split simp: map_sum_def)
  have stop': "is_time_text stop \<and> lo_date_parse lib stop \<noteq> None"
    using un checked clock unfolding bind_result_eq_Inr read_until_def by (auto split: if_splits)
  have kiosk: "case pinned of Some k \<Rightarrow> k \<noteq> [] \<and> kiosk = Some k
      | None \<Rightarrow> (case kiosk of None \<Rightarrow> True | Some k \<Rightarrow> k \<noteq> [] \<and> js_trim k = k \<and> length k \<le> 512)"
    using k pinned read_text_trimmed by (cases pinned) (fastforce simp: read_kiosk_def bind_result_eq_Inr truthy_str_iff split: if_splits)+
  show ?thesis
    using limit source start' stop' kiosk r search unfolding plain_filters_def f log_filters.select_convs by simp
qed

section \<open>Walking the pages\<close>

text \<open>
  Each visit opens the link of the page before it; clock and table may differ from visit to
  visit.  The flag says that the last page had no older one.
\<close>

fun log_walk ::
  "log_lib \<Rightarrow> (string \<Rightarrow> 'k::linorder) \<Rightarrow> string option \<Rightarrow> (string \<times> json) list \<Rightarrow> (timestamp \<times> log_db) list \<Rightarrow> log_summary list \<times> bool" where
  "log_walk lib ck pinned query [] = ([], False)"
| "log_walk lib ck pinned query (visit # visits) =
     (case log_view_route lib ck (fst visit) pinned query (snd visit) of
        Inl _ \<Rightarrow> ([], False)
      | Inr v \<Rightarrow>
          (case older_link v of
             None \<Rightarrow> (lp_logs (lv_page v), True)
           | Some link \<Rightarrow>
               let (rest, done) = log_walk lib ck pinned (link_query link) visits
               in (lp_logs (lv_page v) @ rest, done)))"

lemma filter_newest: "newest_logs ck (filter P rs) = filter P (newest_logs ck rs)"
  by (simp add: newest_logs_def filter_sort [symmetric] rev_filter)

lemma set_newest [simp]: "set (newest_logs ck rs) = set rs"
  by (simp add: newest_logs_def)

lemma newest_sorted:
  assumes "distinct (map (\<lambda>x. log_key ck (fst x)) rs)"
  shows "sorted_wrt (\<lambda>x y. log_key ck (fst y) < log_key ck (fst x)) (newest_logs ck rs)"
proof -
  let ?s = "sort_key (\<lambda>x. log_key ck (fst x)) rs"
  have "distinct (map (\<lambda>x. log_key ck (fst x)) ?s)" using assms by (simp add: distinct_map)
  moreover have "sorted (map (\<lambda>x. log_key ck (fst x)) ?s)" by simp
  ultimately have "sorted_wrt (<) (map (\<lambda>x. log_key ck (fst x)) ?s)" by (simp add: strict_sorted_iff)
  then show ?thesis by (simp add: newest_logs_def sorted_wrt_rev sorted_wrt_map)
qed

lemma joined_log: "x \<in> set (joined_logs db) \<Longrightarrow> fst x \<in> set (lg_rows db)"
  by (auto simp: joined_logs_def List.map_filter_def)

lemma joined_keys:
  assumes "distinct (map kg_id (lg_rows db))" and "inj ck"
  shows "distinct (map (\<lambda>x. log_key ck (fst x)) (joined_logs db))"
proof -
  have "distinct (map kg_id rows) \<Longrightarrow>
      distinct (map (\<lambda>x. log_key ck (fst x)) (List.map_filter (\<lambda>r. map_option (\<lambda>name. (r, name)) (map_of ks (kg_kiosk_id r))) rows))" for rows ks
  proof (induction rows)
    case (Cons r rows)
    then show ?case using assms(2)
      by (auto simp: map_filter_simps log_key_def inj_def List.map_filter_def image_iff split: option.split)
  qed (simp add: map_filter_simps)
  with assms(1) show ?thesis by (simp add: joined_logs_def)
qed

lemma settled_join:
  assumes "filter P rows' = filter P rows"
  shows "filter (\<lambda>x. P (fst x) \<and> Q x) (List.map_filter (\<lambda>r. map_option (\<lambda>name. (r, name)) (g r)) rows')
    = filter (\<lambda>x. P (fst x) \<and> Q x) (List.map_filter (\<lambda>r. map_option (\<lambda>name. (r, name)) (g r)) rows)"
proof -
  have "filter (\<lambda>x. P (fst x) \<and> Q x) (List.map_filter (\<lambda>r. map_option (\<lambda>name. (r, name)) (g r)) zs)
      = filter Q (List.map_filter (\<lambda>r. map_option (\<lambda>name. (r, name)) (g r)) (filter P zs))" for zs
    by (induction zs) (auto simp: map_filter_simps split: option.split)
  with assms show ?thesis by simp
qed

text \<open>The rows that filters ask for, and tables that agree on the rows received until \<open>u\<close>.\<close>

definition wanted_logs :: "log_lib \<Rightarrow> log_filters \<Rightarrow> timestamp \<Rightarrow> timestamp option \<Rightarrow> log_db \<Rightarrow> (log_row \<times> string) list" where
  "wanted_logs lib f u start db = filter (\<lambda>x. log_matches lib f u start (fst x)) (joined_logs db)"

definition settled_logs :: "timestamp \<Rightarrow> log_db \<Rightarrow> log_db \<Rightarrow> bool" where
  "settled_logs u db db' \<longleftrightarrow> lg_kiosks db' = lg_kiosks db
     \<and> filter (\<lambda>r. kg_received_at r \<le> u) (lg_rows db') = filter (\<lambda>r. kg_received_at r \<le> u) (lg_rows db)"

definition row_cursor :: "log_lib \<Rightarrow> log_row \<Rightarrow> log_cursor" where
  "row_cursor lib r = \<lparr>cu_time = lo_time_text lib (kg_received_at r), cu_id = kg_id r\<rparr>"

text \<open>Times of stored rows are printed so that they are read back, and so are cursors.\<close>

definition printed_back :: "log_lib \<Rightarrow> log_row \<Rightarrow> bool" where
  "printed_back lib r \<longleftrightarrow> good_cursor lib (row_cursor lib r) \<and> cursor_parsed lib (row_cursor lib r)
     \<and> lo_pg_time lib (lo_time_text lib (kg_received_at r)) = Some (kg_received_at r)"

text \<open>The position of a page: \<open>seen\<close> are the rows of the pages before it.\<close>

definition at_position :: "log_lib \<Rightarrow> (log_row \<times> string) list \<Rightarrow> log_filters \<Rightarrow> bool" where
  "at_position lib seen f \<longleftrightarrow>
     (if seen = [] then lf_before f = None
      else printed_back lib (fst (last seen)) \<and> lf_before f = Some (row_cursor lib (fst (last seen))))"

lemma after_last:
  assumes "sorted_wrt (\<lambda>x y. k y < k x) (A @ B)" and "A \<noteq> []"
  shows "filter (\<lambda>x. k x < (k (last A) :: 'a::linorder)) (A @ B) = B"
proof -
  obtain A' l where A: "A = A' @ [l]" using assms(2) by (metis append_butlast_last_id)
  have "filter (\<lambda>x. k x < k l) A' = []" using assms(1) by (auto simp: A sorted_wrt_append filter_empty_conv)
  moreover have "filter (\<lambda>x. k x < k l) B = B" using assms(1) by (auto simp: A sorted_wrt_append filter_id_conv)
  ultimately show ?thesis by (simp add: A)
qed

lemma wanted_settled:
  assumes "settled_logs u db db'"
  shows "filter (\<lambda>x. log_matches lib f u start (fst x) \<and> Q x) (joined_logs db')
    = filter Q (wanted_logs lib f u start db)"
proof -
  let ?rest = "\<lambda>x. log_matches lib f u start (fst x) \<and> Q x"
  have split: "?rest x \<longleftrightarrow> kg_received_at (fst x) \<le> u \<and> ?rest x" for x :: "log_row \<times> string"
    by (auto simp: log_matches_def)
  have "filter ?rest (joined_logs db') = filter (\<lambda>x. kg_received_at (fst x) \<le> u \<and> ?rest x) (joined_logs db')"
    by (rule filter_cong [OF refl]) (rule split)
  also have "\<dots> = filter (\<lambda>x. kg_received_at (fst x) \<le> u \<and> ?rest x) (joined_logs db)"
    using assms unfolding joined_logs_def settled_logs_def by (simp only:) (rule settled_join, simp)
  also have "\<dots> = filter ?rest (joined_logs db)" by (rule filter_cong [OF refl]) (rule split [symmetric])
  finally show ?thesis by (simp add: wanted_logs_def conj_commute)
qed

lemma query_position:
  assumes until: "lo_pg_time lib (lf_until f) = Some u" and start: "opt_time lib (if truthy_str (lf_from f) then lf_from f else None) = Some start"
    and same: "settled_logs u db db'" and rows: "newest_logs ck (wanted_logs lib f u start db) = seen @ B"
    and keys: "distinct (map kg_id (lg_rows db))" "inj ck" and pos: "at_position lib seen f"
  shows "queryKioskLogs lib ck f db' = Some (page_of lib (lf_limit f) B)"
proof -
  let ?before = "if seen = [] then None else Some (kg_received_at (fst (last seen)), kg_id (fst (last seen)))"
  have sorted: "sorted_wrt (\<lambda>x y. log_key ck (fst y) < log_key ck (fst x)) (seen @ B)"
    unfolding rows [symmetric] wanted_logs_def
    by (rule newest_sorted) (rule distinct_map_filter, rule joined_keys [OF keys])
  have "newest_logs ck (filter (\<lambda>x. log_matches lib f u start (fst x) \<and> before_cursor ck ?before (fst x)) (joined_logs db'))
      = filter (\<lambda>x. before_cursor ck ?before (fst x)) (seen @ B)"
    unfolding wanted_settled [OF same] rows [symmetric] by (rule filter_newest)
  also have "\<dots> = B"
    using after_last [OF sorted] by (cases "seen = []") (simp_all add: before_cursor_def log_key_def)
  finally have B: "newest_logs ck (filter (\<lambda>x. log_matches lib f u start (fst x) \<and> before_cursor ck ?before (fst x)) (joined_logs db')) = B" .
  have t: "opt_time lib (map_option cu_time (lf_before f)) = Some (map_option fst ?before)"
    and c: "(case map_option fst ?before of None \<Rightarrow> None
        | Some t \<Rightarrow> (case lf_before f of None \<Rightarrow> None | Some c \<Rightarrow> Some (t, cu_id c))) = ?before"
    using pos by (cases "seen = []"; simp add: at_position_def opt_time_def row_cursor_def printed_back_def)+
  show ?thesis
    unfolding queryKioskLogs_def until start t by (simp only: option.case prod.case c Let_def B)
qed

lemma before_irrelevant:
  "log_matches lib (f\<lparr>lf_before := b\<rparr>) = log_matches lib f"
  "plain_filters lib pinned (f\<lparr>lf_before := b\<rparr>) = plain_filters lib pinned f"
proof -
  have same: "lf_kiosk_id (f\<lparr>lf_before := b\<rparr>) = lf_kiosk_id f" "lf_level (f\<lparr>lf_before := b\<rparr>) = lf_level f"
    "lf_source (f\<lparr>lf_before := b\<rparr>) = lf_source f" "lf_search (f\<lparr>lf_before := b\<rparr>) = lf_search f"
    "lf_from (f\<lparr>lf_before := b\<rparr>) = lf_from f" "lf_until (f\<lparr>lf_before := b\<rparr>) = lf_until f"
    "lf_limit (f\<lparr>lf_before := b\<rparr>) = lf_limit f" by simp_all
  show "log_matches lib (f\<lparr>lf_before := b\<rparr>) = log_matches lib f"
    by (intro ext) (simp only: log_matches_def same)
  show "plain_filters lib pinned (f\<lparr>lf_before := b\<rparr>) = plain_filters lib pinned f"
    by (simp only: plain_filters_def reversed_range_def same)
qed

lemma view_found:
  assumes "log_view_route lib ck now pinned query db = Inr v" and "pinned \<noteq> Some []" and "lg_kiosks db' = lg_kiosks db"
    and "parseLogFilters lib now' query' pinned = Inr f" and "queryKioskLogs lib ck f db' = Some page"
  shows "log_view_route lib ck now' pinned query' db'
      = Inr \<lparr>lv_kiosk = lv_kiosk v, lv_devices = lv_devices v, lv_filters = f, lv_page = page\<rparr>"
    and "(lv_kiosk v = None) = (pinned = None)"
proof -
  have d: "listKioskLogDevices ck pinned db' = listKioskLogDevices ck pinned db"
    using assms(3) by (simp add: listKioskLogDevices_def)
  show "log_view_route lib ck now' pinned query' db'
      = Inr \<lparr>lv_kiosk = lv_kiosk v, lv_devices = lv_devices v, lv_filters = f, lv_page = page\<rparr>"
    using assms(1,4,5) unfolding log_view_route_def d Let_def
    by (auto simp: bind_result_eq_Inr split: if_splits option.splits)
  show "(lv_kiosk v = None) = (pinned = None)"
    using assms(1,2) unfolding log_view_route_def Let_def
    by (cases pinned) (auto simp: bind_result_eq_Inr truthy_str_iff split: if_splits option.splits)
qed

lemma page_split:
  assumes "0 < limit"
  shows "lp_logs (page_of lib limit B) = map (summary lib) (take limit B)"
    and "lp_hasMore (page_of lib limit B) \<longleftrightarrow> limit < length B"
  using assms by (auto simp: page_of_def Let_def min_def)

lemma summary_cursor: "\<lparr>cu_time = sm_cursor_time (summary lib x), cu_id = sm_id (summary lib x)\<rparr> = row_cursor lib (fst x)"
  by (cases x) (simp add: summary_def row_cursor_def Let_def)

lemma walk_from:
  assumes first: "log_view_route lib ck now0 pinned query0 db = Inr v0" and pinned: "pinned \<noteq> Some []"
    and until: "lo_pg_time lib (lf_until f0) = Some u"
    and start: "opt_time lib (if truthy_str (lf_from f0) then lf_from f0 else None) = Some start"
    and rows: "newest_logs ck (wanted_logs lib f0 u start db) = seen @ B"
    and keys: "distinct (map kg_id (lg_rows db))" "inj ck"
    and printed: "\<And>r. r \<in> set (lg_rows db) \<Longrightarrow> printed_back lib r"
    and plain: "plain_filters lib pinned f0"
    and f: "f0 = f\<lparr>lf_before := b\<rparr>" and pos: "at_position lib seen f"
    and visits: "\<And>now' db' rest. visits = (now', db') # rest \<Longrightarrow> parseLogFilters lib now' query pinned = Inr f"
    and again: "\<And>now' db'. (now', db') \<in> set visits \<Longrightarrow> settled_logs u db db'"
    and enough: "length B < length visits"
  shows "log_walk lib ck pinned query visits = (map (summary lib) B, True)"
  using rows f pos visits again enough
proof (induction visits arbitrary: query f b seen B)
  case Nil
  then show ?case by simp
next
  case (Cons visit visits)
  obtain now' db' where visit: "visit = (now', db')" by (cases visit)
  have same: "settled_logs u db db'" and parsed: "parseLogFilters lib now' query pinned = Inr f"
    using Cons.prems(4) Cons.prems(5) [of now' db'] by (simp_all add: visit)
  have fields: "lf_until f = lf_until f0" "lf_from f = lf_from f0" "lf_limit f = lf_limit f0" by (simp_all add: Cons.prems(2))
  have "wanted_logs lib f u start db = wanted_logs lib f0 u start db"
    by (simp add: wanted_logs_def Cons.prems(2) before_irrelevant)
  with Cons.prems(1) have rows': "newest_logs ck (wanted_logs lib f u start db) = seen @ B" by simp
  have page: "queryKioskLogs lib ck f db' = Some (page_of lib (lf_limit f) B)"
    by (rule query_position [OF _ _ same rows' keys Cons.prems(3)]) (simp_all only: fields until start)
  have ks: "lg_kiosks db' = lg_kiosks db" using same by (simp add: settled_logs_def)
  let ?v = "\<lparr>lv_kiosk = lv_kiosk v0, lv_devices = lv_devices v0, lv_filters = f, lv_page = page_of lib (lf_limit f) B\<rparr>"
  have view: "log_view_route lib ck now' pinned query db' = Inr ?v"
    and all: "(lv_kiosk v0 = None) = (pinned = None)"
    using view_found [OF first pinned ks parsed page] by simp_all
  have plainf: "plain_filters lib pinned f" using plain by (simp add: Cons.prems(2) before_irrelevant)
  then have limit: "0 < lf_limit f" by (auto simp: plain_filters_def)
  show ?case
  proof (cases "lf_limit f < length B")
    case False
    then show ?thesis
      by (simp add: visit view older_link_def page_split [OF limit] Let_def)
  next
    case True
    let ?head = "take (lf_limit f) B" and ?tail = "drop (lf_limit f) B"
    have ne: "?head \<noteq> []" using limit True by (cases B) auto
    let ?r = "fst (last ?head)"
    have "last ?head \<in> set B" using ne by (meson in_set_takeD last_in_set)
    then have "last ?head \<in> set (newest_logs ck (wanted_logs lib f u start db))" unfolding rows' by simp
    then have r: "?r \<in> set (lg_rows db)" by (auto simp: wanted_logs_def dest: joined_log)
    note pr = printed [OF r]
    let ?f = "f\<lparr>lf_before := Some (row_cursor lib ?r)\<rparr>"
    have link: "older_link ?v = Some (logViewUrl (pinned = None) f (Some (row_cursor lib ?r)))"
      using True ne by (simp add: older_link_def page_split [OF limit] last_map summary_cursor all Let_def)
    have "log_walk lib ck pinned (link_query (logViewUrl (pinned = None) f (Some (row_cursor lib ?r)))) visits
        = (map (summary lib) ?tail, True)"
    proof (rule Cons.IH [of "seen @ ?head"])
      show "newest_logs ck (wanted_logs lib f0 u start db) = (seen @ ?head) @ ?tail" using Cons.prems(1) by simp
      show "f0 = ?f\<lparr>lf_before := b\<rparr>" by (simp add: Cons.prems(2))
      show "at_position lib (seen @ ?head) ?f" using pr ne by (simp add: at_position_def)
      show "settled_logs u db d" if "(n, d) \<in> set visits" for n d using Cons.prems(5) [of n d] that by simp
      show "parseLogFilters lib n (link_query (logViewUrl (pinned = None) f (Some (row_cursor lib ?r)))) pinned = Inr ?f" for n
        using link_read_back [OF plainf] pr by (simp add: printed_back_def)
      show "length ?tail < length visits" using Cons.prems(6) limit True by simp
    qed
    then show ?thesis
      by (simp add: visit view link page_split [OF limit] flip: map_append)
  qed
qed

text \<open>
  (C13) Following the link to older logs from the first page shows every log that matches the
  filters exactly once, newest first, and ends, also when new logs arrive and the clock moves
  on between the pages: the pages agree on the time of the first one.  The words searched must
  not end in a blank after they are cut, identifiers compare as distinct, and the times of the
  stored rows are printed so that they are read back.
\<close>

theorem log_pages_complete:
  assumes first: "log_view_route lib ck now pinned query db = Inr v" and pinned: "pinned \<noteq> Some []"
    and newest: "lf_before (lv_filters v) = None" and search: "js_trim (lf_search (lv_filters v)) = lf_search (lv_filters v)"
    and clock: "is_time_text (lo_iso lib now)" "lo_date_parse lib (lo_iso lib now) \<noteq> None"
    and until: "lo_pg_time lib (lf_until (lv_filters v)) = Some u"
    and start: "opt_time lib (if truthy_str (lf_from (lv_filters v)) then lf_from (lv_filters v) else None) = Some start"
    and keys: "distinct (map kg_id (lg_rows db))" "inj ck"
    and printed: "\<And>r. r \<in> set (lg_rows db) \<Longrightarrow> printed_back lib r"
    and later: "\<And>now' db'. (now', db') \<in> set visits \<Longrightarrow> settled_logs u db db'"
    and enough: "length (wanted_logs lib (lv_filters v) u start db) \<le> length visits"
  shows "log_walk lib ck pinned query ((now, db) # visits)
    = (map (summary lib) (newest_logs ck (wanted_logs lib (lv_filters v) u start db)), True)"
proof (rule walk_from [OF first pinned until start _ keys printed, where seen = "[]" and f = "lv_filters v" and b = None])
  have parsed: "parseLogFilters lib now query pinned = Inr (lv_filters v)"
    using first by (auto simp: log_view_route_def Let_def bind_result_eq_Inr split: if_splits option.splits)
  then show "plain_filters lib pinned (lv_filters v)" using pinned clock search by (rule parsed_filters_plain)
  show "parseLogFilters lib now' query pinned = Inr (lv_filters v)" if "(now, db) # visits = (now', db') # rest" for now' db' rest
    using parsed that by simp
  show "lv_filters v = (lv_filters v)\<lparr>lf_before := None\<rparr>" using newest by (cases "lv_filters v") simp
  show "at_position lib [] (lv_filters v)" using newest by (simp add: at_position_def)
  show "settled_logs u db db'" if "(now', db') \<in> set ((now, db) # visits)" for now' db'
    using later that by (auto simp: settled_logs_def)
  show "length (newest_logs ck (wanted_logs lib (lv_filters v) u start db)) < length ((now, db) # visits)"
    using enough by (simp add: newest_logs_def)
qed simp_all

text \<open>
  A search that is cut in front of a word ends in a blank, which the next page trims: it asks
  for other logs than the first.
\<close>

lemma search_cut_trimmed:
  assumes "parseLogFilters lib now (link_query (logViewUrl all f (Some c))) pinned = Inr f'"
    and "lf_search f = take 256 (js_trim (replicate 255 CHR ''a'' @ '' b''))"
  shows "lf_search f = replicate 255 CHR ''a'' @ '' '' \<and> lf_search f' = replicate 255 CHR ''a''"
proof -
  let ?a = "replicate 255 CHR ''a''"
  have solid: "dropWhile is_ws ?a = ?a" "dropWhile is_ws (?a @ r) = ?a @ r" for r
    by (simp_all add: dropWhile_append dropWhile_eq_self_iff is_ws_def)
  have "js_trim (?a @ '' b'') = ?a @ '' b''" unfolding js_trim_def solid(2) by (simp add: is_ws_def)
  with assms(2) have s: "lf_search f = ?a @ '' ''" by simp
  have t: "js_trim (?a @ '' '') = ?a" unfolding js_trim_def solid(2) by (simp add: is_ws_def solid(1))
  have "filter_text (link_query (logViewUrl all f (Some c))) ''q'' = Inr ?a"
    using filter_text_trimmed [of "logViewUrl all f (Some c)" "''q''" "lf_search f"] url_lookup(6) [OF refl, of all f c]
    unfolding s t by simp
  then have "lf_search f' = take 256 ?a"
    using assms(1) unfolding parseLogFilters_def Let_def by (auto simp: bind_result_eq_Inr split: if_splits)
  with s show ?thesis by simp
qed

section \<open>Witnesses\<close>

definition demo_rank :: "string \<Rightarrow> nat" where
  "demo_rank s = foldr (\<lambda>c n. of_char c + 1 + 257 * n) s 0"

lemma demo_rank_inj: "inj demo_rank"
proof (rule injI)
  show "demo_rank x = demo_rank y \<Longrightarrow> x = y" for x y
  proof (induction x arbitrary: y)
    case Nil
    then show ?case by (cases y) (simp_all add: demo_rank_def)
  next
    case (Cons c x)
    show ?case
    proof (cases y)
      case Nil
      with Cons.prems show ?thesis by (simp add: demo_rank_def)
    next
      case (Cons d z)
      have lt: "(of_char c :: nat) + 1 < 257" "(of_char d :: nat) + 1 < 257" by (simp_all add: less_Suc_eq_le)
      have e: "(of_char c :: nat) + 1 + 257 * demo_rank x = of_char d + 1 + 257 * demo_rank z"
        using Cons.prems Cons by (simp add: demo_rank_def)
      then have "(of_char c :: nat) + 1 = of_char d + 1"
        using lt by (metis mod_less mod_mult_self2)
      with e have "c = d" "demo_rank x = demo_rank z" by (simp_all add: of_char_eq_iff)
      with Cons Cons.IH show ?thesis by simp
    qed
  qed
qed

definition demo_log_lib :: log_lib where
  "demo_log_lib = \<lparr>lo_date_parse = (\<lambda>s. Some 0), lo_iso = (\<lambda>t. ''2026-01-01T00:00Z''), lo_pg_time = (\<lambda>s. Some 5),
     lo_time_text = (\<lambda>t. ''2026-01-01T00:00Z''), lo_jsonb_text = (\<lambda>v. []), lo_stringify = (\<lambda>v. []),
     lo_parse_cursor = (\<lambda>bs. Some (cursor_json \<lparr>cu_time = ''2026-01-01T00:00Z'', cu_id = replicate (length bs - 36) CHR ''a''\<rparr>))\<rparr>"

definition demo_log :: "nat \<Rightarrow> log_row" where
  "demo_log i = \<lparr>kg_id = replicate (Suc i) CHR ''a'', kg_kiosk_id = ''k1'', kg_level = LogInfo, kg_message = ''started'',
     kg_context = JObj [], kg_logged_at = 1, kg_received_at = 5, lr_event_id = None\<rparr>"

definition demo_log_db :: log_db where
  "demo_log_db = \<lparr>lg_kiosks = [(''k1'', ''Hall'')], lg_rows = map demo_log [0..<60]\<rparr>"

definition demo_filters :: log_filters where
  "demo_filters = \<lparr>lf_kiosk_id = None, lf_level = None, lf_source = None, lf_search = [], lf_from = None,
     lf_until = ''2026-01-01T00:00Z'', lf_limit = 50, lf_before = None\<rparr>"

lemma demo_parsed: "parseLogFilters demo_log_lib 1 [(''limit'', JStr ''50'')] None = Inr demo_filters"
  by code_simp

lemma demo_time: "is_time_text ''2026-01-01T00:00Z''"
  by code_simp

lemma demo_printed: "r \<in> set (lg_rows demo_log_db) \<Longrightarrow> printed_back demo_log_lib r"
proof -
  assume "r \<in> set (lg_rows demo_log_db)"
  then obtain i where r: "r = demo_log i" and i: "i < 60" by (auto simp: demo_log_db_def)
  let ?t = "''2026-01-01T00:00Z''" and ?i = "replicate (Suc i) CHR ''a''"
  let ?c = "\<lparr>cu_time = ?t, cu_id = ?i\<rparr>"
  have c: "row_cursor demo_log_lib r = ?c" by (simp add: row_cursor_def r demo_log_def demo_log_lib_def)
  have "log_id_text ?i" using i by (simp add: log_id_text_def is_alnum_def is_lower_def list_all_iff)
  then have good: "good_cursor demo_log_lib ?c" using demo_time by (simp add: good_cursor_def demo_log_lib_def)
  have q: "concat (map quote_char ?t) = ?t" by code_simp
  have qi: "concat (map quote_char ?i) = ?i"
    by (rule quote_plain) (simp add: list_all_iff quote_char_def)
  have size: "length (json_text (\<lambda>n. []) (cursor_json ?c)) = 37 + i"
    and plain: "list_all (\<lambda>x. (of_char x :: nat) < 128) (json_text (\<lambda>n. []) (cursor_json ?c))"
    unfolding cursor_text log_cursor.select_convs q qi by (simp_all add: list_all_iff)
  then have "length (utf8_encode (json_text (\<lambda>n. []) (cursor_json ?c))) = 37 + i" using utf8_plain by simp
  then have "cursor_parsed demo_log_lib ?c" by (simp add: cursor_parsed_def demo_log_lib_def)
  with good c show ?thesis by (simp add: printed_back_def) (simp add: demo_log_lib_def r demo_log_def)
qed

lemma demo_wanted: "length (wanted_logs demo_log_lib demo_filters 5 None demo_log_db) = 60"
proof -
  have "joined_logs demo_log_db = map (\<lambda>i. (demo_log i, ''Hall'')) [0..<60]"
    by (simp add: joined_logs_def demo_log_db_def List.map_filter_def demo_log_def comp_def)
  moreover have "log_matches demo_log_lib demo_filters 5 None (demo_log i)" for i
    by (simp add: log_matches_def demo_filters_def demo_log_def)
  ultimately show ?thesis by (simp add: wanted_logs_def filter_map comp_def)
qed

theorem log_pages_complete_witness:
  "snd (log_walk demo_log_lib demo_rank None [(''limit'', JStr ''50'')] (replicate 61 (1, demo_log_db)))
   \<and> length (fst (log_walk demo_log_lib demo_rank None [(''limit'', JStr ''50'')] (replicate 61 (1, demo_log_db)))) = 60"
proof -
  obtain v where v: "log_view_route demo_log_lib demo_rank 1 None [(''limit'', JStr ''50'')] demo_log_db = Inr v"
    and f: "lv_filters v = demo_filters"
    unfolding log_view_route_def demo_parsed Let_def
    by (auto simp: queryKioskLogs_def demo_filters_def demo_log_lib_def opt_time_def truthy_str_iff Let_def)
  have 1: "lf_before (lv_filters v) = None" "js_trim (lf_search (lv_filters v)) = lf_search (lv_filters v)"
    "lo_pg_time demo_log_lib (lf_until (lv_filters v)) = Some 5"
    "opt_time demo_log_lib (if truthy_str (lf_from (lv_filters v)) then lf_from (lv_filters v) else None) = Some None"
    by (simp_all add: f demo_filters_def demo_log_lib_def opt_time_def js_trim_def)
  have clock: "is_time_text (lo_iso demo_log_lib 1)" "lo_date_parse demo_log_lib (lo_iso demo_log_lib 1) \<noteq> None"
    using demo_time by (simp_all add: demo_log_lib_def)
  have ids: "distinct (map kg_id (lg_rows demo_log_db))"
    by (simp add: demo_log_db_def comp_def demo_log_def distinct_map inj_on_def)
  have p: "None \<noteq> Some ([] :: string)" by simp
  have "log_walk demo_log_lib demo_rank None [(''limit'', JStr ''50'')] ((1, demo_log_db) # replicate 60 (1, demo_log_db))
      = (map (summary demo_log_lib) (newest_logs demo_rank (wanted_logs demo_log_lib (lv_filters v) 5 None demo_log_db)), True)"
    by (rule log_pages_complete [OF v p 1(1,2) clock 1(3,4) ids demo_rank_inj demo_printed])
      (auto simp: settled_logs_def f demo_wanted)
  moreover have "replicate 61 (1 :: timestamp, demo_log_db) = (1, demo_log_db) # replicate 60 (1, demo_log_db)"
    by (simp add: numeral_eq_Suc)
  ultimately show ?thesis by (simp add: f newest_logs_def demo_wanted)
qed

definition demo_batch :: "log_entry_body list" where
  "demo_batch = [\<lparr>lb_level = ''warn'', lb_message = ''hot'', lb_context = JObj [], lb_logged_at = None, lb_event_id = Some ''e1''\<rparr>,
     \<lparr>lb_level = ''loud'', lb_message = ''cold'', lb_context = JObj [], lb_logged_at = None, lb_event_id = Some ''e2''\<rparr>]"

definition one_kiosk :: log_db where
  "one_kiosk = \<lparr>lg_kiosks = [(''k1'', ''Hall'')], lg_rows = []\<rparr>"


end
