(* ===== verification/BF_Tenants.thy ===== *)
theory BF_Tenants
  imports BF_DeviceGate
begin

text \<open>
  The tenants of the server: the registry of \<^verbatim>\<open>shared/db/repository.ts\<close>, the start of the database
  with its migrations and the repair of old schema names in \<^verbatim>\<open>shared/db/init.ts\<close>, the tenant
  routes of \<^verbatim>\<open>service-admin-http/routes-tenants.ts\<close> and the demo tenant of \<^verbatim>\<open>shared/demo.ts\<close>.
  A migration either runs or fails (\<open>breaks\<close>); the tables of a schema are there from its creation.
  What runs in one transaction returns the new state or an error.
\<close>

section \<open>State\<close>

text \<open>\<open>rg_versions\<close> is \<^verbatim>\<open>public.schema_migrations\<close>; \<open>rg_extras\<close> holds \<^verbatim>\<open>display_defaults\<close> of each schema.\<close>

record registry =
  rg_db :: device_db
  rg_versions :: "(string \<times> nat) list"
  rg_extras :: "(string, json) jsmap"

abbreviation reg_auth :: "registry \<Rightarrow> auth_db" where
  "reg_auth rg \<equiv> dd_auth (rg_db rg)"

abbreviation reg_tenants :: "registry \<Rightarrow> tenant list" where
  "reg_tenants rg \<equiv> tenants (reg_auth rg)"

abbreviation reg_schemas :: "registry \<Rightarrow> (string, auth_tables) jsmap" where
  "reg_schemas rg \<equiv> auth_schemas (reg_auth rg)"

datatype registry_error =
    InvalidSlug
  | AmbiguousSchema string string string
  | MigrationFailed string nat
  | SchemaInvalid string
  | SchemaTaken string
  | TenantTaken
  | NotAnInteger
  | DemoSlugTaken
  | DemoLayoutFailed

definition on_auth :: "(auth_db \<Rightarrow> auth_db) \<Rightarrow> registry \<Rightarrow> registry" where
  "on_auth f rg = rg\<lparr>rg_db := (rg_db rg)\<lparr>dd_auth := f (reg_auth rg)\<rparr>\<rparr>"

definition set_tenants :: "(tenant list \<Rightarrow> tenant list) \<Rightarrow> registry \<Rightarrow> registry" where
  "set_tenants f = on_auth (\<lambda>a. a\<lparr>tenants := f (tenants a)\<rparr>)"

definition set_schemas :: "((string, auth_tables) jsmap \<Rightarrow> (string, auth_tables) jsmap) \<Rightarrow> registry \<Rightarrow> registry" where
  "set_schemas f = on_auth (\<lambda>a. a\<lparr>auth_schemas := f (auth_schemas a)\<rparr>)"

definition set_content :: "string \<Rightarrow> content_db \<Rightarrow> registry \<Rightarrow> registry" where
  "set_content schema c rg = rg\<lparr>rg_db := (rg_db rg)\<lparr>dd_content := (dd_content (rg_db rg))(schema := c)\<rparr>\<rparr>"

section \<open>Registry\<close>

text \<open>The row must have an identifier, a slug and a schema of its own.\<close>

definition insert_tenant :: "tenant \<Rightarrow> registry \<Rightarrow> (registry_error, registry) result" where
  "insert_tenant t rg =
     (if list_ex (\<lambda>x. tn_id x = tn_id t \<or> tn_slug x = tn_slug t \<or> tn_schema_name x = tn_schema_name t) (reg_tenants rg)
      then Inl TenantTaken
      else Inr (set_tenants (\<lambda>ts. ts @ [t]) rg))"

text \<open>A limit must be an integer of the column.\<close>

definition column_int :: "number \<Rightarrow> bool" where
  "column_int x \<longleftrightarrow> is_integer x \<and> -2147483648 \<le> x \<and> x \<le> 2147483647"

record tenant_limits =
  tl_kiosks :: "number option"
  tl_cameras :: "number option"
  tl_users :: "number option"

definition limits_ok :: "tenant_limits \<Rightarrow> bool" where
  "limits_ok l \<longleftrightarrow> list_all (\<lambda>x. case x of None \<Rightarrow> True | Some n \<Rightarrow> column_int n) [tl_kiosks l, tl_cameras l, tl_users l]"

definition createTenant ::
  "(string \<Rightarrow> bytes) \<Rightarrow> string \<Rightarrow> timestamp \<Rightarrow> string \<Rightarrow> string \<Rightarrow> tenant_limits \<Rightarrow> registry
   \<Rightarrow> (registry_error, tenant \<times> registry) result" where
  "createTenant sha tid now name slug l rg =
     (case tenantSchemaName sha slug of
        None \<Rightarrow> Inl InvalidSlug
      | Some schema \<Rightarrow>
          if \<not> limits_ok l then Inl NotAnInteger
          else let t = \<lparr>tn_id = tid, tn_name = name, tn_slug = slug, tn_schema_name = schema, tn_is_active = True,
                        tn_max_kiosks = tl_kiosks l, tn_max_cameras = tl_cameras l, tn_max_users = tl_users l,
                        tn_created_at = now\<rparr>
               in bind_result (insert_tenant t rg) (\<lambda>rg'. Inr (t, rg')))"

definition updateTenant :: "string \<Rightarrow> string \<Rightarrow> bool \<Rightarrow> tenant_limits \<Rightarrow> registry \<Rightarrow> (registry_error, registry) result" where
  "updateTenant tid name active l rg =
     (if \<not> limits_ok l then Inl NotAnInteger
      else Inr (set_tenants (map (\<lambda>t. if tn_id t = tid
             then t\<lparr>tn_name := name, tn_is_active := active, tn_max_kiosks := tl_kiosks l,
                    tn_max_cameras := tl_cameras l, tn_max_users := tl_users l\<rparr> else t)) rg))"

text \<open>The schema of a deleted tenant stays.\<close>

definition deleteTenant :: "string \<Rightarrow> registry \<Rightarrow> registry" where
  "deleteTenant tid = set_tenants (filter (\<lambda>t. tn_id t \<noteq> tid))"

section \<open>Schemas\<close>

definition storedPostgresIdentifier :: "string \<Rightarrow> string" where
  "storedPostgresIdentifier s =
     fst (foldl (\<lambda>(stored, open) c. if open \<and> length (utf8_encode (stored @ [c])) \<le> 63 then (stored @ [c], True) else (stored, False))
            ([], True) s)"

text \<open>\<^verbatim>\<open>/^[a-z_][a-z0-9_]{0,62}$/\<close>\<close>

definition safe_schema :: "string \<Rightarrow> bool" where
  "safe_schema s =
     (case s of [] \<Rightarrow> False
      | c # r \<Rightarrow> (is_lower c \<or> c = CHR ''_'') \<and> length r \<le> 62 \<and> list_all (\<lambda>d. is_lower d \<or> is_digit d \<or> d = CHR ''_'') r)"

definition schema_version :: "(string \<times> nat) list \<Rightarrow> string \<Rightarrow> nat" where
  "schema_version versions name = foldr max (map snd (filter (\<lambda>v. fst v = name) versions)) 0"

fun run_migrations :: "(string \<Rightarrow> nat \<Rightarrow> bool) \<Rightarrow> string \<Rightarrow> nat list \<Rightarrow> (string \<times> nat) list \<Rightarrow> (registry_error, (string \<times> nat) list) result" where
  "run_migrations breaks name [] versions = Inr versions"
| "run_migrations breaks name (i # is) versions =
     (if breaks name i then Inl (MigrationFailed name i)
      else run_migrations breaks name is (versions @ [(name, Suc i)]))"

text \<open>\<open>count\<close> is the number of migrations of the list.\<close>

definition applyMigrations :: "(string \<Rightarrow> nat \<Rightarrow> bool) \<Rightarrow> nat \<Rightarrow> string \<Rightarrow> registry \<Rightarrow> (registry_error, registry) result" where
  "applyMigrations breaks count name rg =
     bind_result (run_migrations breaks name [schema_version (rg_versions rg) name ..< count] (rg_versions rg))
       (\<lambda>vs. Inr (rg\<lparr>rg_versions := vs\<rparr>))"

text \<open>Every platform administrator of the public schema is copied into the tables of one schema.\<close>

definition mirror_admins :: "string \<Rightarrow> registry \<Rightarrow> registry" where
  "mirror_admins schema rg =
     set_schemas (\<lambda>m. case map_of m schema of
         None \<Rightarrow> m
       | Some t \<Rightarrow> AList.update schema
           (fold mirror_into (filter (\<lambda>u. u_role u = RoleAdmin) (at_users (tables (reg_auth rg) ''public''))) t) m) rg"

definition create_schema :: "string \<Rightarrow> registry \<Rightarrow> registry" where
  "create_schema schema rg =
     (if map_has (reg_schemas rg) schema then rg
      else set_content schema empty_content (set_schemas (\<lambda>m. AList.update schema empty_tables m) rg))"

text \<open>The database reserves the names that begin with \<^verbatim>\<open>pg_\<close>.\<close>

definition createTenantSchema :: "(string \<Rightarrow> nat \<Rightarrow> bool) \<Rightarrow> nat \<Rightarrow> string \<Rightarrow> registry \<Rightarrow> (registry_error, registry) result" where
  "createTenantSchema breaks count schema rg =
     (if \<not> assertSchema schema then Inl (SchemaInvalid schema)
      else if prefix ''pg_'' schema \<and> \<not> map_has (reg_schemas rg) schema then Inl (SchemaInvalid schema)
      else bind_result (applyMigrations breaks count schema (create_schema schema rg)) (\<lambda>rg'. Inr (mirror_admins schema rg')))"

section \<open>Start of the database\<close>

definition ensure_default :: "string \<Rightarrow> timestamp \<Rightarrow> registry \<Rightarrow> (registry_error, registry) result" where
  "ensure_default tid now rg =
     (if list_ex (\<lambda>t. tn_slug t = ''default'') (reg_tenants rg) then Inr rg
      else insert_tenant \<lparr>tn_id = tid, tn_name = ''Default'', tn_slug = ''default'', tn_schema_name = ''public'',
             tn_is_active = True, tn_max_kiosks = None, tn_max_cameras = None, tn_max_users = None, tn_created_at = now\<rparr> rg)"

definition other_tenants :: "registry \<Rightarrow> tenant list" where
  "other_tenants rg = filter (\<lambda>t. tn_slug t \<noteq> ''default'') (listTenants (reg_auth rg))"

fun check_owners :: "(string \<times> string) list \<Rightarrow> tenant list \<Rightarrow> (registry_error, unit) result" where
  "check_owners owners [] = Inr ()"
| "check_owners owners (t # ts) =
     (let name = storedPostgresIdentifier (tn_schema_name t); previous = map_of owners name in
      if truthy_str previous then Inl (AmbiguousSchema name (the previous) (tn_slug t))
      else check_owners (AList.update name (tn_slug t) owners) ts)"

definition rename_schema :: "string \<Rightarrow> string \<Rightarrow> registry \<Rightarrow> (registry_error, registry) result" where
  "rename_schema old new rg =
     (if map_has (reg_schemas rg) new then Inl (SchemaTaken new)
      else let content = dd_content (rg_db rg) old in
        Inr (set_content old (dd_content (rg_db rg) ''public'') (set_content new content
          (set_schemas (map (\<lambda>(k, v). (if k = old then new else k, v)) )
            (rg\<lparr>rg_extras := map (\<lambda>(k, v). (if k = old then new else k, v)) (rg_extras rg)\<rparr>)))))"

definition move_versions :: "string \<Rightarrow> string list \<Rightarrow> (string \<times> nat) list \<Rightarrow> (string \<times> nat) list" where
  "move_versions new olds versions =
     (let moved = remdups (map (\<lambda>v. (new, snd v)) (filter (\<lambda>v. fst v \<in> set olds) versions))
      in filter (\<lambda>v. fst v \<notin> set olds) (versions @ filter (\<lambda>v. v \<notin> set versions) moved))"

definition set_schema_name :: "string \<Rightarrow> string \<Rightarrow> registry \<Rightarrow> (registry_error, registry) result" where
  "set_schema_name slug schema rg =
     (if list_ex (\<lambda>t. tn_slug t \<noteq> slug \<and> tn_schema_name t = schema) (reg_tenants rg) then Inl TenantTaken
      else Inr (set_tenants (map (\<lambda>t. if tn_slug t = slug then t\<lparr>tn_schema_name := schema\<rparr> else t)) rg))"

text \<open>A registration with an unsafe name gets a digest; its schema, if it exists, is renamed.\<close>

definition repair_tenant :: "(string \<Rightarrow> bytes) \<Rightarrow> tenant \<Rightarrow> registry \<Rightarrow> (registry_error, string \<times> registry) result" where
  "repair_tenant sha t rg =
     (if safe_schema (tn_schema_name t) then Inr (tn_schema_name t, rg)
      else let repaired = legacyTenantSchemaName sha (tn_slug t); stored = storedPostgresIdentifier (tn_schema_name t) in
        bind_result
          (if map_has (reg_schemas rg) stored
           then map_sum id (\<lambda>x. x\<lparr>rg_versions := move_versions repaired [tn_schema_name t, stored] (rg_versions x)\<rparr>)
                  (rename_schema stored repaired rg)
           else Inr rg)
          (\<lambda>rg1. bind_result (set_schema_name (tn_slug t) repaired rg1) (\<lambda>rg2. Inr (repaired, rg2))))"

fun start_tenants :: "(string \<Rightarrow> bytes) \<Rightarrow> (string \<Rightarrow> nat \<Rightarrow> bool) \<Rightarrow> nat \<Rightarrow> tenant list \<Rightarrow> registry \<Rightarrow> (registry_error, registry) result" where
  "start_tenants sha breaks count [] rg = Inr rg"
| "start_tenants sha breaks count (t # ts) rg =
     bind_result (repair_tenant sha t rg) (\<lambda>(schema, rg1).
     bind_result (createTenantSchema breaks count schema rg1) (start_tenants sha breaks count ts))"

text \<open>The whole start is one transaction; \<open>globals\<close> counts the migrations of the public tables.\<close>

definition initDb ::
  "(string \<Rightarrow> bytes) \<Rightarrow> (string \<Rightarrow> nat \<Rightarrow> bool) \<Rightarrow> nat \<Rightarrow> nat \<Rightarrow> string \<Rightarrow> timestamp \<Rightarrow> registry \<Rightarrow> (registry_error, registry) result" where
  "initDb sha breaks globals count tid now rg =
     bind_result (applyMigrations breaks globals ''public_global'' rg) (\<lambda>rg1.
     bind_result (applyMigrations breaks count ''public'' rg1) (\<lambda>rg2.
     bind_result (ensure_default tid now rg2) (\<lambda>rg3.
     bind_result (check_owners [] (other_tenants rg3)) (\<lambda>_.
     start_tenants sha breaks count (other_tenants rg3) rg3))))"

section \<open>Tenant routes\<close>

text \<open>\<^verbatim>\<open>parseInt(s, 10)\<close>: an optional sign and the leading digits; \<open>None\<close> is not a number.\<close>

definition parse_int10 :: "string \<Rightarrow> number option" where
  "parse_int10 s =
     (let t = dropWhile is_ws s;
          (sign, r) = (case t of c # u \<Rightarrow> if c = CHR ''-'' then (-1, u) else if c = CHR ''+'' then (1, u) else (1, t) | [] \<Rightarrow> (1, []));
          d = takeWhile is_digit r
      in if d = [] then None else Some (sign * of_nat (nat_of_digits d)))"

text \<open>A limit that is not a number is refused by the column; the form is a map of its fields.\<close>

definition limit_field :: "(string \<Rightarrow> string option) \<Rightarrow> string \<Rightarrow> number option option" where
  "limit_field body name = (if truthy_str (body name) then map_option Some (parse_int10 (the (body name))) else Some None)"

definition limit_fields :: "(string \<Rightarrow> string option) \<Rightarrow> tenant_limits option" where
  "limit_fields body =
     (case (limit_field body ''max_kiosks'', limit_field body ''max_cameras'', limit_field body ''max_users'') of
        (Some k, Some c, Some u) \<Rightarrow> Some \<lparr>tl_kiosks = k, tl_cameras = c, tl_users = u\<rparr>
      | _ \<Rightarrow> None)"

definition visibleTenants :: "bool \<Rightarrow> registry \<Rightarrow> tenant list" where
  "visibleTenants enabled rg =
     (let ts = listTenants (reg_auth rg) in
      if enabled \<or> \<not> list_ex (\<lambda>t. tn_slug t = DEMO_SLUG) ts then ts
      else filter (\<lambda>t. Some (tn_id t) \<noteq> map_option tn_id (demoTenant (reg_auth rg))) ts)"

definition tenants_page :: "string \<Rightarrow> response" where
  "tenants_page err = HtmlPage ''TenantsPage'' err"

text \<open>The flag says whether Node-RED is told of the change.\<close>

definition provision_tenant ::
  "(string \<Rightarrow> bytes) \<Rightarrow> (string \<Rightarrow> nat \<Rightarrow> bool) \<Rightarrow> nat \<Rightarrow> string \<Rightarrow> timestamp \<Rightarrow> string \<Rightarrow> string \<Rightarrow> tenant_limits \<Rightarrow> registry
   \<Rightarrow> (registry_error, tenant \<times> registry) result" where
  "provision_tenant sha breaks count tid now name slug l rg =
     bind_result (createTenant sha tid now name slug l rg) (\<lambda>(t, rg1).
     bind_result (createTenantSchema breaks count (tn_schema_name t) rg1) (\<lambda>rg2. Inr (t, rg2)))"

definition create_tenant_route ::
  "(string \<Rightarrow> bytes) \<Rightarrow> (string \<Rightarrow> nat \<Rightarrow> bool) \<Rightarrow> nat \<Rightarrow> string \<Rightarrow> timestamp \<Rightarrow> (string \<Rightarrow> string option) \<Rightarrow> registry
   \<Rightarrow> response \<times> registry \<times> bool" where
  "create_tenant_route sha breaks count tid now body rg =
     (let name = js_trim (nullish (body ''name'') []); slug = js_lower (js_trim (nullish (body ''slug'') [])) in
      if slug = ''demo'' \<or> name = [] \<or> slug = [] \<or> \<not> valid_slug slug
      then (tenants_page (''Name required. Slug must start with letter/digit and contain only lowercase, digits, hyphens, underscores.''), rg, False)
      else if getTenantBySlug (reg_auth rg) slug \<noteq> None
      then (tenants_page (''Tenant with slug '' @ quote slug @ '' already exists.''), rg, False)
      else (case limit_fields body of
          None \<Rightarrow> (Status 500, rg, False)
        | Some l \<Rightarrow>
            (case provision_tenant sha breaks count tid now name slug l rg of
               Inl _ \<Rightarrow> (Status 500, rg, False)
             | Inr (t, rg') \<Rightarrow> (Redirect ''/admin/tenants'', rg', True))))"

definition edit_target :: "bool \<Rightarrow> string \<Rightarrow> registry \<Rightarrow> tenant option" where
  "edit_target enabled tid rg =
     (case getTenantById (reg_auth rg) tid of
        None \<Rightarrow> None
      | Some t \<Rightarrow> if demoTenantHidden (reg_auth rg) enabled t then None else Some t)"

definition edit_tenant_page :: "bool \<Rightarrow> string \<Rightarrow> registry \<Rightarrow> response" where
  "edit_tenant_page enabled tid rg =
     (case edit_target enabled tid rg of None \<Rightarrow> Redirect ''/admin/tenants'' | Some t \<Rightarrow> HtmlPage ''TenantEditPage'' [])"

definition update_tenant_route ::
  "bool \<Rightarrow> string \<Rightarrow> (string \<Rightarrow> string option) \<Rightarrow> registry \<Rightarrow> response \<times> registry \<times> bool" where
  "update_tenant_route enabled tid body rg =
     (let name = js_trim (nullish (body ''name'') []);
          active = (body ''is_active'' = Some ''on'' \<or> body ''is_active'' = Some ''true'')
      in case edit_target enabled tid rg of
          None \<Rightarrow> (Redirect ''/admin/tenants'', rg, False)
        | Some t \<Rightarrow>
            if name = [] then (HtmlPage ''TenantEditPage'' ''Name is required.'', rg, False)
            else (case limit_fields body of
                None \<Rightarrow> (Status 500, rg, False)
              | Some l \<Rightarrow>
                  (case updateTenant tid name active l rg of
                     Inl _ \<Rightarrow> (Status 500, rg, False)
                   | Inr rg' \<Rightarrow> (Redirect ''/admin/tenants'', rg', True))))"

text \<open>\<open>archived\<close> is the answer of Node-RED, which must let go of the tenant first.\<close>

definition delete_tenant_route :: "bool \<Rightarrow> bool \<Rightarrow> string \<Rightarrow> registry \<Rightarrow> response \<times> registry \<times> bool" where
  "delete_tenant_route enabled archived tid rg =
     (case edit_target enabled tid rg of
        None \<Rightarrow> (Redirect ''/admin/tenants'', rg, False)
      | Some t \<Rightarrow>
          if tn_slug t = ''default'' then (Redirect ''/admin/tenants'', rg, False)
          else if \<not> archived then (Plain 503 ''Node-RED tenant archival failed'', rg, False)
          else (Redirect ''/admin/tenants'', deleteTenant tid rg, True))"

definition switch_tenant_route :: "bool \<Rightarrow> (string \<Rightarrow> string option) \<Rightarrow> registry \<Rightarrow> response" where
  "switch_tenant_route enabled body rg =
     (let slug = js_lower (js_trim (nullish (body ''tenant_slug'') ''default''));
          target = (case getTenantBySlug (reg_auth rg) slug of
                      None \<Rightarrow> ''default''
                    | Some t \<Rightarrow> if tn_is_active t \<and> \<not> demoTenantHidden (reg_auth rg) enabled t then tn_slug t else ''default'')
      in RedirectWithCookie ''/admin/'' [(''bf_tenant'', target)])"

section \<open>The demo tenant\<close>

definition tenant_kiosks :: "registry \<Rightarrow> string \<Rightarrow> kiosk list" where
  "tenant_kiosks rg schema = at_kiosks (tables (reg_auth rg) schema)"

definition demoAvailable :: "bool \<Rightarrow> registry \<Rightarrow> bool" where
  "demoAvailable enabled rg =
     (if \<not> enabled then False
      else case demoTenant (reg_auth rg) of
          None \<Rightarrow> False
        | Some t \<Rightarrow> tn_is_active t \<and>
            (case tn_max_kiosks t of None \<Rightarrow> True | Some m \<Rightarrow> of_nat (length (tenant_kiosks rg (tn_schema_name t))) < m))"

definition demo_layout :: layout_input where
  "demo_layout = \<lparr>li_name = ''Welcome to BetterFrame'', li_description = None, li_priority = None, li_cooling_timeout_seconds = None,
     li_idle_timeout_seconds = None, li_preload_camera_ids = None, li_resets_idle_timer = None, li_input_options_json = None\<rparr>"

definition demo_cell :: "string \<Rightarrow> string \<Rightarrow> cell_input" where
  "demo_cell lid html = \<lparr>ni_layout_id = lid, ni_row = 0, ni_col = 0, ni_row_span = None, ni_col_span = None,
     ni_content_type = Some CellHtml, ni_camera_id = None, ni_stream_selector = None, ni_web_url = None,
     ni_html_content = Some html, ni_cooling_timeout_seconds = None, ni_options = None, ni_entity_id = None,
     ni_fit = None, ni_input_options_json = None\<rparr>"

definition demo_content :: "string \<Rightarrow> string option \<Rightarrow> string \<Rightarrow> string \<Rightarrow> string \<Rightarrow> registry \<Rightarrow> (registry_error, registry) result" where
  "demo_content lid sk cid html schema rg =
     (case createLayout lid sk demo_layout (dd_content (rg_db rg) schema) of
        Inl _ \<Rightarrow> Inl DemoLayoutFailed
      | Inr (c, l) \<Rightarrow>
          let extras = JObj [(''layoutIds'', JArr [JStr (l_id l)]), (''defaultLayoutId'', JStr (l_id l))]
          in Inr ((set_content schema (createLayoutCell cid (demo_cell (l_id l) html) c) rg)
                    \<lparr>rg_extras := AList.update schema extras (rg_extras rg)\<rparr>))"

text \<open>The page \<open>html\<close> and the generated identifiers are arguments.\<close>

definition prepareDemo ::
  "(string \<Rightarrow> bytes) \<Rightarrow> (string \<Rightarrow> nat \<Rightarrow> bool) \<Rightarrow> nat \<Rightarrow> string \<Rightarrow> timestamp \<Rightarrow> string \<Rightarrow> string option \<Rightarrow> string \<Rightarrow> string \<Rightarrow> bool \<Rightarrow> registry
   \<Rightarrow> (registry_error, tenant option \<times> registry) result" where
  "prepareDemo sha breaks count tid now lid sk cid html enabled rg =
     (if \<not> enabled then Inr (None, rg)
      else case demoTenant (reg_auth rg) of
          Some t \<Rightarrow> Inr (if tn_is_active t then Some t else None, rg)
        | None \<Rightarrow>
            if getTenantBySlug (reg_auth rg) DEMO_SLUG \<noteq> None then Inl DemoSlugTaken
            else bind_result (provision_tenant sha breaks count tid now ''Demo'' DEMO_SLUG
                   \<lparr>tl_kiosks = Some 1000, tl_cameras = None, tl_users = None\<rparr> rg) (\<lambda>(t, rg1).
                 bind_result (demo_content lid sk cid html (tn_schema_name t) (on_auth (\<lambda>a. a\<lparr>demo_marker := JStr (tn_id t)\<rparr>) rg1))
                   (\<lambda>rg2. Inr (Some t, rg2))))"

text \<open>A kiosk of the demo lives a day and five minutes without a sign of life.\<close>

definition demo_expired :: "timestamp \<Rightarrow> kiosk \<Rightarrow> bool" where
  "demo_expired now k \<longleftrightarrow>
     (case k_paired_at k of None \<Rightarrow> False | Some t \<Rightarrow> t \<le> now - 86400000)
     \<or> (case (case k_last_seen_at k of Some s \<Rightarrow> Some s | None \<Rightarrow> k_paired_at k) of None \<Rightarrow> False | Some t \<Rightarrow> t \<le> now - 300000)"

text \<open>In the order of pairing, kiosks without a time of pairing last; no other transaction holds a row.\<close>

definition paired_key :: "kiosk \<Rightarrow> nat \<times> timestamp" where
  "paired_key k = (case k_paired_at k of None \<Rightarrow> (1, 0) | Some t \<Rightarrow> (0, t))"

definition expired_batch :: "timestamp \<Rightarrow> kiosk list \<Rightarrow> kiosk list" where
  "expired_batch now ks = take 100 (sort_key paired_key (filter (demo_expired now) ks))"

definition cleanupDemo :: "timestamp \<Rightarrow> registry \<Rightarrow> nat \<times> registry" where
  "cleanupDemo now rg =
     (case demoTenant (reg_auth rg) of
        None \<Rightarrow> (0, rg)
      | Some t \<Rightarrow>
          let schema = tn_schema_name t; rows = expired_batch now (tenant_kiosks rg schema)
          in (length rows, rg\<lparr>rg_db := fold (\<lambda>k. deleteKiosk schema (k_id k)) rows (rg_db rg)\<rparr>))"

section \<open>Stored identifiers\<close>

lemma utf8_append: "utf8_encode (a @ b) = utf8_encode a @ utf8_encode b"
  by (induction a) (simp_all add: Let_def)

lemma utf8_one: "length (utf8_encode [c]) \<le> 2 \<and> 1 \<le> length (utf8_encode [c])"
  by (simp add: Let_def)

lemma stored_from:
  assumes "length (utf8_encode acc) \<le> 63"
  defines "step \<equiv> \<lambda>(stored, open) c. if open \<and> length (utf8_encode (stored @ [c])) \<le> 63 then (stored @ [c], True) else (stored, False)"
  shows "length (utf8_encode (fst (foldl step (acc, True) s))) \<le> 63
    \<and> (fst (foldl step (acc, True) s) = acc @ s \<or> 62 \<le> length (utf8_encode (fst (foldl step (acc, True) s))))
    \<and> (length (utf8_encode (acc @ s)) \<le> 63 \<longrightarrow> fst (foldl step (acc, True) s) = acc @ s)"
  using assms(1)
proof (induction s arbitrary: acc)
  case Nil
  then show ?case by simp
next
  case (Cons c s)
  have closed: "fst (foldl step (a, False) r) = a" for a r
    by (induction r) (simp_all add: step_def)
  show ?case
  proof (cases "length (utf8_encode (acc @ [c])) \<le> 63")
    case True
    then have "step (acc, True) c = (acc @ [c], True)" by (simp add: step_def)
    with Cons.IH [OF True] show ?thesis by simp
  next
    case False
    then have s: "step (acc, True) c = (acc, False)" by (simp add: step_def)
    have "\<not> length (utf8_encode (acc @ c # s)) \<le> 63" using False by (simp add: utf8_append [of acc] utf8_append [of "[c]" s, simplified])
    moreover have "62 \<le> length (utf8_encode acc)" using False utf8_one [of c] by (simp add: utf8_append del: utf8_encode.simps)
    ultimately show ?thesis using Cons.prems s closed by simp
  qed
qed

lemma stored_facts:
  shows "length (utf8_encode (storedPostgresIdentifier s)) \<le> 63"
    and "storedPostgresIdentifier s = s \<or> 62 \<le> length (utf8_encode (storedPostgresIdentifier s))"
    and "length (utf8_encode s) \<le> 63 \<Longrightarrow> storedPostgresIdentifier s = s"
  using stored_from [of "[]" s] by (simp_all add: storedPostgresIdentifier_def)

lemma stored_idem: "storedPostgresIdentifier (storedPostgresIdentifier s) = storedPostgresIdentifier s"
  by (rule stored_facts(3)) (rule stored_facts(1))

lemma ascii_length: "list_all (\<lambda>c. (of_char c :: nat) < 128) s \<Longrightarrow> length (utf8_encode s) = length s"
  by (induction s) (simp_all add: Let_def)

lemma safe_ascii:
  assumes "safe_schema s"
  shows "list_all (\<lambda>c. (of_char c :: nat) < 128) s" and "length s \<le> 63"
  using assms by (auto simp: safe_schema_def is_lower_def is_digit_def list_all_iff split: list.splits)

lemma stored_safe: "safe_schema s \<Longrightarrow> storedPostgresIdentifier s = s"
  using stored_facts(3) [of s] ascii_length [OF safe_ascii(1)] safe_ascii(2) by metis

lemma safe_asserted: "safe_schema s \<Longrightarrow> assertSchema s"
  by (auto simp: safe_schema_def assertSchema_def is_alnum_def list_all_iff split: list.splits)

lemma hex_safe: "is_hex_lower c \<Longrightarrow> is_lower c \<or> is_digit c"
  by (auto simp: is_hex_lower_def is_lower_def is_digit_def)

lemma legacy_safe:
  assumes "byte_list (sha slug)"
  shows "safe_schema (legacyTenantSchemaName sha slug)" and "length (legacyTenantSchemaName sha slug) \<le> 55"
proof -
  have "list_all is_hex_lower (take 48 (hex_encode (sha slug)))"
    using hex_encode_lower [OF assms] by (auto simp: list_all_iff dest: in_set_takeD)
  then have "list_all (\<lambda>d. is_lower d \<or> is_digit d \<or> d = CHR ''_'') (take 48 (hex_encode (sha slug)))"
    using hex_safe by (auto simp: list_all_iff)
  then show "safe_schema (legacyTenantSchemaName sha slug)" "length (legacyTenantSchemaName sha slug) \<le> 55"
    by (simp_all add: legacyTenantSchemaName_def safe_schema_def is_lower_def)
qed

lemma name_safe:
  assumes "byte_list (sha slug)" and "tenantSchemaName sha slug = Some schema"
  shows "safe_schema schema"
proof -
  consider "schema = ''public''"
    | "schema = ''tenant_'' @ slug" "list_all (\<lambda>c. is_lower c \<or> is_digit c \<or> c = CHR ''_'') slug" "length slug \<le> 56"
    | "schema = legacyTenantSchemaName sha slug"
    using assms(2) by (auto simp: tenantSchemaName_def split: if_splits)
  then show ?thesis
  proof cases
    case 1
    then show ?thesis by (simp add: safe_schema_def is_lower_def)
  next
    case 2
    then show ?thesis by (simp add: safe_schema_def is_lower_def)
  next
    case 3
    with legacy_safe(1) [where sha = sha and slug = slug, OF assms(1)] show ?thesis by simp
  qed
qed

text \<open>An unsafe name is not stored as a short safe one.\<close>

lemma unsafe_stored:
  assumes "\<not> safe_schema s" and "safe_schema x" and "length x \<le> 61"
  shows "storedPostgresIdentifier s \<noteq> x"
proof
  assume e: "storedPostgresIdentifier s = x"
  have "length (utf8_encode (storedPostgresIdentifier s)) \<le> 61"
    unfolding e ascii_length [OF safe_ascii(1) [OF assms(2)]] by (rule assms(3))
  with stored_facts(2) [of s] have "storedPostgresIdentifier s = s" by linarith
  with e assms(1,2) show False by simp
qed

section \<open>Cleanup of the demo\<close>

lemma visible_deleted: "visible_schema (dd_auth (deleteKiosk schema kid db)) = visible_schema (dd_auth db)"
  by (rule ext) (simp add: deleteKiosk_def Let_def)

lemma deletions:
  defines "del \<equiv> \<lambda>schema k. deleteKiosk schema (k_id k)"
  shows "visible_schema (dd_auth (fold (del schema) rows db)) = visible_schema (dd_auth db)"
    and "tenants (dd_auth (fold (del schema) rows db)) = tenants (dd_auth db)"
    and "demo_marker (dd_auth (fold (del schema) rows db)) = demo_marker (dd_auth db)"
    and "at_kiosks (tables (dd_auth (fold (del schema) rows db)) s)
      = (if visible_schema (dd_auth db) s = visible_schema (dd_auth db) schema
         then filter (\<lambda>k. k_id k \<notin> k_id ` set rows) (at_kiosks (tables (dd_auth db) s)) else at_kiosks (tables (dd_auth db) s))"
proof (induction rows arbitrary: db)
  case (Cons r rows)
  {
    case 1
    then show ?case using Cons.IH(1) by (simp add: del_def visible_deleted)
  next
    case 2
    then show ?case using Cons.IH(2) by (simp add: del_def deleteKiosk_def Let_def put_tables_def)
  next
    case 3
    then show ?case using Cons.IH(3) by (simp add: del_def deleteKiosk_def Let_def put_tables_def)
  next
    case 4
    show ?case using Cons.IH(4) [of "deleteKiosk schema (k_id r) db"]
      by (simp add: del_def visible_deleted tables_deleted conj_commute cong: filter_cong)
  }
qed simp_all

lemma batch_removes:
  fixes now :: timestamp
  assumes "distinct (map k_id ks)"
  defines "rows \<equiv> expired_batch now ks"
  defines "rest \<equiv> filter (\<lambda>k. k_id k \<notin> k_id ` set rows) ks"
  shows "length (filter (demo_expired now) rest) = length (filter (demo_expired now) ks) - 100"
    and "filter (\<lambda>k. \<not> demo_expired now k) rest = filter (\<lambda>k. \<not> demo_expired now k) ks"
    and "length rows = min 100 (length (filter (demo_expired now) ks))"
proof -
  let ?due = "filter (demo_expired now) ks" and ?sorted = "sort_key paired_key (filter (demo_expired now) ks)"
  let ?keep = "\<lambda>k. k_id k \<notin> k_id ` set rows"
  have rows: "rows = take 100 ?sorted" by (simp add: rows_def expired_batch_def)
  have sub: "set rows \<subseteq> set ?due" unfolding rows using set_take_subset [of 100 ?sorted] by simp
  have inj: "inj_on k_id (set ks)" using assms(1) by (simp add: distinct_map)
  show "length rows = min 100 (length ?due)" by (simp add: rows min.commute)
  have "filter (\<lambda>k. \<not> demo_expired now k \<and> ?keep k) ks = filter (\<lambda>k. \<not> demo_expired now k) ks"
  proof (rule filter_cong [OF refl])
    fix k assume k: "k \<in> set ks"
    have "?keep k" if "\<not> demo_expired now k"
    proof
      assume "k_id k \<in> k_id ` set rows"
      then obtain r where r: "r \<in> set rows" "k_id k = k_id r" by auto
      with sub have "r \<in> set ks" "demo_expired now r" by auto
      with inj k r(2) that show False by (metis inj_onD)
    qed
    then show "(\<not> demo_expired now k \<and> ?keep k) = (\<not> demo_expired now k)" by blast
  qed
  then show "filter (\<lambda>k. \<not> demo_expired now k) rest = filter (\<lambda>k. \<not> demo_expired now k) ks"
    by (simp add: rest_def filter_filter conj_commute)
  have "distinct ?sorted" "inj_on k_id (set ?sorted)"
    using assms(1) inj by (simp_all add: distinct_map inj_on_def)
  then have d: "distinct (map k_id ?sorted)" by (simp add: distinct_map)
  have split: "?sorted = rows @ drop 100 ?sorted" by (simp add: rows)
  have "set (map k_id rows) \<inter> set (map k_id (drop 100 ?sorted)) = {}"
    using d by (subst (asm) split) simp
  then have keep: "filter ?keep (drop 100 ?sorted) = drop 100 ?sorted" "filter ?keep rows = []"
    by (auto simp: filter_id_conv filter_empty_conv)
  have "length (filter (demo_expired now) rest) = length (filter ?keep ?sorted)"
    by (simp add: rest_def filter_sort filter_filter conj_commute)
  also have "filter ?keep ?sorted = drop 100 ?sorted"
    by (subst split) (simp only: filter_append keep append_Nil)
  finally show "length (filter (demo_expired now) rest) = length ?due - 100" by simp
qed

lemma demoTenant_eq:
  assumes "demo_marker a = demo_marker b" and "tenants a = tenants b"
  shows "demoTenant a = demoTenant b"
proof -
  have "getTenantById a = getTenantById b" using assms(2) by (intro ext) (simp add: getTenantById_def)
  then show ?thesis by (simp only: demoTenant_def assms(1))
qed

lemma cleanup_step:
  fixes now :: timestamp
  assumes "demoTenant (reg_auth rg) = Some t"
  defines "rg' \<equiv> snd (cleanupDemo now rg)"
  shows "demoTenant (reg_auth rg') = Some t" and "visible_schema (reg_auth rg') = visible_schema (reg_auth rg)"
    and "tenant_kiosks rg' s
      = (if visible_schema (reg_auth rg) s = visible_schema (reg_auth rg) (tn_schema_name t)
         then filter (\<lambda>k. k_id k \<notin> k_id ` set (expired_batch now (tenant_kiosks rg (tn_schema_name t)))) (tenant_kiosks rg s)
         else tenant_kiosks rg s)"
    and "fst (cleanupDemo now rg) = length (expired_batch now (tenant_kiosks rg (tn_schema_name t)))"
    and "rg_versions rg' = rg_versions rg"
proof -
  let ?rows = "expired_batch now (tenant_kiosks rg (tn_schema_name t))"
  have run: "cleanupDemo now rg = (length ?rows, rg\<lparr>rg_db := fold (\<lambda>k. deleteKiosk (tn_schema_name t) (k_id k)) ?rows (rg_db rg)\<rparr>)"
    by (simp add: cleanupDemo_def assms(1) Let_def)
  show "demoTenant (reg_auth rg') = Some t"
    unfolding assms(1) [symmetric] by (rule demoTenant_eq) (simp_all add: rg'_def run deletions)
  show "visible_schema (reg_auth rg') = visible_schema (reg_auth rg)" "fst (cleanupDemo now rg) = length ?rows"
    "rg_versions rg' = rg_versions rg" by (simp_all add: rg'_def run deletions)
  show "tenant_kiosks rg' s
      = (if visible_schema (reg_auth rg) s = visible_schema (reg_auth rg) (tn_schema_name t)
         then filter (\<lambda>k. k_id k \<notin> k_id ` set ?rows) (tenant_kiosks rg s) else tenant_kiosks rg s)"
    by (simp add: rg'_def run tenant_kiosks_def deletions(4))
qed

lemma cleanup_rounds:
  fixes now :: timestamp
  assumes "demoTenant (reg_auth rg) = Some t" and "distinct (map k_id (tenant_kiosks rg (tn_schema_name t)))"
    and "length (filter (demo_expired now) (tenant_kiosks rg (tn_schema_name t))) \<le> 100 * n"
  defines "final \<equiv> ((\<lambda>r. snd (cleanupDemo now r)) ^^ n) rg"
  shows "tenant_kiosks final s
      = (if visible_schema (reg_auth rg) s = visible_schema (reg_auth rg) (tn_schema_name t)
         then filter (\<lambda>k. \<not> demo_expired now k) (tenant_kiosks rg s) else tenant_kiosks rg s)
    \<and> fst (cleanupDemo now final) = 0"
  using assms(1-3) unfolding final_def
proof (induction n arbitrary: rg)
  case 0
  let ?ks = "tenant_kiosks rg (tn_schema_name t)"
  have none: "filter (demo_expired now) ?ks = []" using 0(3) by simp
  have "filter (\<lambda>k. \<not> demo_expired now k) ?ks = ?ks" using none by (simp add: filter_empty_conv filter_id_conv)
  moreover have "tenant_kiosks rg s = ?ks" if "visible_schema (reg_auth rg) s = visible_schema (reg_auth rg) (tn_schema_name t)"
    using tables_visible [OF that] by (simp add: tenant_kiosks_def)
  moreover have "fst (cleanupDemo now rg) = 0" using cleanup_step(4) [OF 0(1)] none by (simp add: expired_batch_def)
  ultimately show ?case by simp
next
  case (Suc n)
  let ?rg = "snd (cleanupDemo now rg)" and ?ks = "tenant_kiosks rg (tn_schema_name t)"
  note step = cleanup_step [OF Suc.prems(1), where now = now]
  note batch = batch_removes [OF Suc.prems(2), where now = now]
  have ks: "tenant_kiosks ?rg (tn_schema_name t) = filter (\<lambda>k. k_id k \<notin> k_id ` set (expired_batch now ?ks)) ?ks"
    by (simp add: step(3))
  have d: "distinct (map k_id (tenant_kiosks ?rg (tn_schema_name t)))"
    using Suc.prems(2) unfolding ks by (rule distinct_map_filter)
  have l: "length (filter (demo_expired now) (tenant_kiosks ?rg (tn_schema_name t))) \<le> 100 * n"
    unfolding ks batch(1) using Suc.prems(3) by simp
  have same: "tenant_kiosks rg s = ?ks" if "visible_schema (reg_auth rg) s = visible_schema (reg_auth rg) (tn_schema_name t)"
    using tables_visible [OF that] by (simp add: tenant_kiosks_def)
  show ?case using Suc.IH [OF step(1) d l] batch(2) same
    by (simp only: funpow_Suc_right o_apply step(2,3)) (simp split: if_splits)
qed

section \<open>Provisioned schemas\<close>

lemma migrations_run:
  "run_migrations breaks name is versions = Inr vs \<Longrightarrow> vs = versions @ map (\<lambda>i. (name, Suc i)) is"
proof (induction "is" arbitrary: versions)
  case (Cons a todo)
  then have "run_migrations breaks name todo (versions @ [(name, Suc a)]) = Inr vs" by (simp split: if_splits)
  from Cons.IH [OF this] show ?case by simp
qed simp

lemma version_append: "schema_version (vs @ ws) name = max (schema_version vs name) (schema_version ws name)"
  by (induction vs) (simp_all add: schema_version_def max.assoc)

lemma version_upto: "schema_version (map (\<lambda>i. (name, Suc i)) [m..<n]) x = (if x = name \<and> m < n then n else 0)"
proof (induction n)
  case (Suc n)
  then show ?case by (cases "m \<le> n") (simp_all add: version_append, simp_all add: schema_version_def)
qed (simp add: schema_version_def)

lemma applied:
  assumes "applyMigrations breaks count name rg = Inr rg'"
  shows "rg' = rg\<lparr>rg_versions := rg_versions rg'\<rparr>" and "count \<le> schema_version (rg_versions rg') name"
    and "x \<noteq> name \<Longrightarrow> schema_version (rg_versions rg') x = schema_version (rg_versions rg) x"
proof -
  obtain vs where vs: "run_migrations breaks name [schema_version (rg_versions rg) name ..< count] (rg_versions rg) = Inr vs"
      and rg': "rg' = rg\<lparr>rg_versions := vs\<rparr>"
    using assms by (auto simp: applyMigrations_def bind_result_def split: sum.splits)
  show "rg' = rg\<lparr>rg_versions := rg_versions rg'\<rparr>" by (simp add: rg')
  show "count \<le> schema_version (rg_versions rg') name" "x \<noteq> name \<Longrightarrow> schema_version (rg_versions rg') x = schema_version (rg_versions rg) x"
    by (simp_all add: rg' migrations_run [OF vs] version_append version_upto)
qed

text \<open>\<open>ready\<close>: the schema exists and has every migration.  \<open>keeps\<close>: its data is that of an older schema,
  apart from the mirrored administrators.\<close>

definition ready :: "nat \<Rightarrow> registry \<Rightarrow> string \<Rightarrow> bool" where
  "ready count rg name \<longleftrightarrow> safe_schema name \<and> map_has (reg_schemas rg) name \<and> count \<le> schema_version (rg_versions rg) name"

definition same_data :: "auth_tables \<Rightarrow> auth_tables \<Rightarrow> bool" where
  "same_data t t' \<longleftrightarrow> t\<lparr>at_users := []\<rparr> = t'\<lparr>at_users := []\<rparr> \<and> prefix (map u_id (at_users t)) (map u_id (at_users t'))"

definition keeps :: "registry \<Rightarrow> string \<Rightarrow> registry \<Rightarrow> string \<Rightarrow> bool" where
  "keeps rg old rg' new \<longleftrightarrow>
     (case map_of (reg_schemas rg) old of None \<Rightarrow> True
      | Some t \<Rightarrow> (case map_of (reg_schemas rg') new of None \<Rightarrow> False
          | Some t' \<Rightarrow> same_data t t' \<and> dd_content (rg_db rg') new = dd_content (rg_db rg) old))"

definition untouched :: "registry \<Rightarrow> string \<Rightarrow> registry \<Rightarrow> bool" where
  "untouched rg name rg' \<longleftrightarrow>
     map_of (reg_schemas rg') name = map_of (reg_schemas rg) name \<and> dd_content (rg_db rg') name = dd_content (rg_db rg) name
     \<and> schema_version (rg_versions rg') name = schema_version (rg_versions rg) name"

lemma same_data_refl [simp]: "same_data t t"
  by (simp add: same_data_def)

lemma same_data_trans: "same_data a b \<Longrightarrow> same_data b c \<Longrightarrow> same_data a c"
  by (auto simp: same_data_def intro: prefix_order.trans)

lemma mirror_keeps: "same_data t (fold mirror_into us t)"
proof (induction us arbitrary: t)
  case (Cons u us)
  let ?us = "map (\<lambda>v. if u_username v = u_username u then mirror_user u v else v) (at_users t)"
  have ids: "map u_id ?us = map u_id (at_users t)" by (simp add: mirror_user_def)
  have "same_data t (t\<lparr>at_users := if b then ?us else ?us @ [u]\<rparr>)" for b
    unfolding same_data_def prefix_def by (cases b) (simp_all add: ids [simplified map_map])
  then have "same_data t (mirror_into u t)" by (simp only: mirror_into_def Let_def)
  with Cons.IH show ?case by (simp add: same_data_trans [of t "mirror_into u t"])
qed simp

lemma create_schema_facts:
  shows "tenants (reg_auth (create_schema name rg)) = reg_tenants rg" and "map_has (reg_schemas (create_schema name rg)) name"
    and "x \<noteq> name \<Longrightarrow> untouched rg x (create_schema name rg)" and "keeps rg name (create_schema name rg) name"
    and "demo_marker (reg_auth (create_schema name rg)) = demo_marker (reg_auth rg)"
  by (auto simp: create_schema_def set_content_def set_schemas_def on_auth_def untouched_def keeps_def get_set split: option.splits)

lemma mirror_admins_facts:
  shows "tenants (reg_auth (mirror_admins name rg)) = reg_tenants rg"
    and "map_has (reg_schemas (mirror_admins name rg)) x = map_has (reg_schemas rg) x"
    and "x \<noteq> name \<Longrightarrow> untouched rg x (mirror_admins name rg)" and "keeps rg x (mirror_admins name rg) x"
    and "rg_versions (mirror_admins name rg) = rg_versions rg"
    and "demo_marker (reg_auth (mirror_admins name rg)) = demo_marker (reg_auth rg)"
  using mirror_keeps
  by (auto simp: mirror_admins_def set_schemas_def on_auth_def untouched_def keeps_def get_set split: option.splits)

lemma untouched_trans: "untouched a x b \<Longrightarrow> untouched b x c \<Longrightarrow> untouched a x c"
  by (simp add: untouched_def)

lemma keeps_trans: "keeps a x b y \<Longrightarrow> keeps b y c z \<Longrightarrow> keeps a x c z"
  using same_data_trans by (auto simp: keeps_def split: option.splits)

lemma keeps_eq:
  "reg_schemas b = reg_schemas c \<Longrightarrow> dd_content (rg_db b) = dd_content (rg_db c) \<Longrightarrow> keeps a x b y \<longleftrightarrow> keeps a x c y"
  by (simp only: keeps_def)

lemma untouched_keeps: "untouched a x b \<Longrightarrow> keeps a x b x"
  by (simp add: untouched_def keeps_def split: option.splits)

lemma ready_untouched: "ready count rg x \<Longrightarrow> untouched rg x rg' \<Longrightarrow> ready count rg' x"
  by (simp add: ready_def untouched_def)

lemma provisioned:
  assumes run: "createTenantSchema breaks count name rg = Inr rg'" and safe: "safe_schema name"
  shows "reg_tenants rg' = reg_tenants rg" and "ready count rg' name" and "x \<noteq> name \<Longrightarrow> untouched rg x rg'"
    and "keeps rg name rg' name" and "demo_marker (reg_auth rg') = demo_marker (reg_auth rg)"
proof -
  let ?rg1 = "create_schema name rg"
  obtain rg2 where two: "applyMigrations breaks count name ?rg1 = Inr rg2" and rg': "rg' = mirror_admins name rg2"
    using run by (auto simp: createTenantSchema_def bind_result_def split: if_splits sum.splits)
  note one = create_schema_facts [where name = name and rg = rg] and mig = applied [OF two] and three = mirror_admins_facts [where name = name and rg = rg2]
  have db: "rg_db rg2 = rg_db ?rg1" using mig(1) by (metis registry.select_convs(1) registry.surjective registry.update_convs(2))
  have mid: "untouched ?rg1 x rg2" if "x \<noteq> name" for x
    using mig(3) that by (simp add: untouched_def db)
  have kept: "keeps ?rg1 name rg2 name" by (simp add: keeps_def db split: option.splits)
  show "reg_tenants rg' = reg_tenants rg" "demo_marker (reg_auth rg') = demo_marker (reg_auth rg)"
    by (simp_all only: rg' three db one)
  show "ready count rg' name" unfolding ready_def rg' three(2) three(5) db using safe mig(2) one(2) by simp
  show "untouched rg x rg'" if "x \<noteq> name"
    using one(3) [OF that] mid [OF that] three(3) [OF that] untouched_trans unfolding rg' by blast
  show "keeps rg name rg' name" using one(4) kept three(4) keeps_trans unfolding rg' by blast
qed

text \<open>A renamed schema takes its tables, its content and its versions along.\<close>

lemma map_of_renamed:
  assumes "map_of m new = None"
  shows "map_of (map (\<lambda>(k, v). (if k = old then new else k, v)) m) x
    = (if x = new then map_of m old else if x = old then None else map_of m x)"
  using assms
proof (induction m)
  case (Cons p m)
  obtain k v where p: "p = (k, v)" by (cases p)
  have "k \<noteq> new" "map_of m new = None" using Cons.prems by (simp_all add: p split: if_splits)
  then show ?case using Cons.IH
    by (cases "k = old"; cases "x = new"; cases "x = old"; cases "x = k") (simp_all add: p)
qed simp

lemma moved_version:
  assumes "x \<notin> set olds" and "x \<noteq> new"
  shows "schema_version (move_versions new olds vs) x = schema_version vs x"
proof -
  have "filter (\<lambda>v. fst v = x) (move_versions new olds vs) = filter (\<lambda>v. fst v = x) vs"
    using assms by (simp add: move_versions_def Let_def filter_filter) (auto simp: filter_empty_conv intro!: filter_cong)
  then show ?thesis by (simp add: schema_version_def)
qed

lemma renamed:
  assumes "rename_schema old new rg = Inr rg'"
  shows "reg_tenants rg' = reg_tenants rg" and "rg_versions rg' = rg_versions rg" and "keeps rg old rg' new"
    and "x \<noteq> old \<Longrightarrow> x \<noteq> new \<Longrightarrow> map_of (reg_schemas rg') x = map_of (reg_schemas rg) x \<and> dd_content (rg_db rg') x = dd_content (rg_db rg) x"
    and "demo_marker (reg_auth rg') = demo_marker (reg_auth rg)"
proof -
  have free: "map_of (reg_schemas rg) new = None" using assms by (simp add: rename_schema_def split: if_splits)
  show "reg_tenants rg' = reg_tenants rg" "rg_versions rg' = rg_versions rg" "demo_marker (reg_auth rg') = demo_marker (reg_auth rg)"
    using assms by (auto simp: rename_schema_def Let_def set_content_def set_schemas_def on_auth_def split: if_splits)
  show "x \<noteq> old \<Longrightarrow> x \<noteq> new \<Longrightarrow> map_of (reg_schemas rg') x = map_of (reg_schemas rg) x \<and> dd_content (rg_db rg') x = dd_content (rg_db rg) x"
    using assms free
    by (auto simp: rename_schema_def Let_def set_content_def set_schemas_def on_auth_def map_of_renamed split: if_splits)
  show "keeps rg old rg' new"
    using assms free
    by (auto simp: rename_schema_def Let_def set_content_def set_schemas_def on_auth_def keeps_def map_of_renamed
             split: if_splits option.splits)
qed

section \<open>Repair at the start\<close>

definition registry_rows :: "registry \<Rightarrow> bool" where
  "registry_rows rg \<longleftrightarrow>
     distinct (map tn_id (reg_tenants rg)) \<and> distinct (map tn_slug (reg_tenants rg)) \<and> distinct (map tn_schema_name (reg_tenants rg))"

lemma rows_unique:
  assumes "registry_rows rg" and "t \<in> set (reg_tenants rg)" and "u \<in> set (reg_tenants rg)"
  shows "tn_slug t = tn_slug u \<longleftrightarrow> t = u" and "tn_schema_name t = tn_schema_name u \<longleftrightarrow> t = u" and "tn_id t = tn_id u \<longleftrightarrow> t = u"
  using assms by (auto simp: registry_rows_def distinct_map dest: inj_onD)

definition renamed_to :: "string \<Rightarrow> string \<Rightarrow> tenant list \<Rightarrow> tenant list" where
  "renamed_to slug schema = map (\<lambda>t. if tn_slug t = slug then t\<lparr>tn_schema_name := schema\<rparr> else t)"

lemma renamed_rows:
  assumes "registry_rows rg" and "reg_tenants rg' = renamed_to slug schema (reg_tenants rg)"
    and "\<not> list_ex (\<lambda>t. tn_slug t \<noteq> slug \<and> tn_schema_name t = schema) (reg_tenants rg)"
  shows "registry_rows rg'"
proof -
  let ?g = "\<lambda>t. if tn_slug t = slug then t\<lparr>tn_schema_name := schema\<rparr> else t"
  have other: "tn_schema_name t \<noteq> schema" if "t \<in> set (reg_tenants rg)" "tn_slug t \<noteq> slug" for t
    using assms(3) that by (auto simp: list_ex_iff)
  have "inj_on (tn_schema_name \<circ> ?g) (set (reg_tenants rg))"
  proof (rule inj_onI)
    fix t u assume t: "t \<in> set (reg_tenants rg)" and u: "u \<in> set (reg_tenants rg)"
      and e: "(tn_schema_name \<circ> ?g) t = (tn_schema_name \<circ> ?g) u"
    show "t = u"
      using e other [OF t] other [OF u] rows_unique(1,2) [OF assms(1) t u]
      by (cases "tn_slug t = slug"; cases "tn_slug u = slug") simp_all
  qed
  then have "distinct (map tn_schema_name (map ?g (reg_tenants rg)))"
    using assms(1) by (simp add: registry_rows_def distinct_map)
  moreover have "map tn_id (map ?g (reg_tenants rg)) = map tn_id (reg_tenants rg)" "map tn_slug (map ?g (reg_tenants rg)) = map tn_slug (reg_tenants rg)"
    by simp_all
  ultimately show ?thesis using assms(1) unfolding registry_rows_def assms(2) renamed_to_def by metis
qed

lemma repaired_all:
  fixes sha :: "string \<Rightarrow> bytes"
  assumes rows: "registry_rows rg" and t: "t \<in> set (reg_tenants rg)" and bytes: "byte_list (sha (tn_slug t))"
    and run: "repair_tenant sha t rg = Inr (schema, rg')"
  defines "was \<equiv> storedPostgresIdentifier (tn_schema_name t)"
  shows "schema = (if safe_schema (tn_schema_name t) then tn_schema_name t else legacyTenantSchemaName sha (tn_slug t))
    \<and> safe_schema schema \<and> reg_tenants rg' = renamed_to (tn_slug t) schema (reg_tenants rg) \<and> registry_rows rg'
    \<and> keeps rg was rg' schema \<and> demo_marker (reg_auth rg') = demo_marker (reg_auth rg)
    \<and> (x \<noteq> schema \<longrightarrow> x \<noteq> was \<longrightarrow> x \<noteq> tn_schema_name t \<longrightarrow> untouched rg x rg')"
proof (cases "safe_schema (tn_schema_name t)")
  case True
  then have r: "schema = tn_schema_name t" "rg' = rg" using run by (simp_all add: repair_tenant_def)
  have "renamed_to (tn_slug t) schema (reg_tenants rg) = reg_tenants rg"
    unfolding renamed_to_def using rows_unique(1) [OF rows _ t] by (intro map_idI) (auto simp: r)
  moreover have "untouched rg x rg'" "keeps rg was rg' schema" for x
    using stored_safe [OF True] untouched_keeps [of rg schema rg] by (simp_all add: untouched_def was_def r)
  ultimately show ?thesis using True rows r by auto
next
  case False
  let ?new = "legacyTenantSchemaName sha (tn_slug t)"
  let ?move = "if map_has (reg_schemas rg) was
           then map_sum id (\<lambda>x. x\<lparr>rg_versions := move_versions ?new [tn_schema_name t, was] (rg_versions x)\<rparr>)
                  (rename_schema was ?new rg)
           else Inr rg"
  have "bind_result ?move (\<lambda>rg1. bind_result (set_schema_name (tn_slug t) ?new rg1) (\<lambda>rg2. Inr (?new, rg2))) = Inr (schema, rg')"
    using run False unfolding repair_tenant_def Let_def was_def by (simp only: if_False)
  then obtain rg1 where moved: "?move = Inr rg1" and name: "set_schema_name (tn_slug t) ?new rg1 = Inr rg'" and schema: "schema = ?new"
    unfolding bind_result_eq_Inr by blast
  have one: "reg_tenants rg1 = reg_tenants rg \<and> demo_marker (reg_auth rg1) = demo_marker (reg_auth rg) \<and> keeps rg was rg1 ?new
      \<and> (x \<noteq> ?new \<longrightarrow> x \<noteq> was \<longrightarrow> x \<noteq> tn_schema_name t \<longrightarrow> untouched rg x rg1)"
  proof (cases "map_has (reg_schemas rg) was")
    case True
    then obtain rg0 where zero: "rename_schema was ?new rg = Inr rg0"
        and rg1: "rg1 = rg0\<lparr>rg_versions := move_versions ?new [tn_schema_name t, was] (rg_versions rg0)\<rparr>"
      using moved by (cases "rename_schema was ?new rg") auto
    have "keeps rg was rg1 ?new" using renamed(3) [OF zero] keeps_eq [of rg0 rg1] by (simp add: rg1)
    then show ?thesis using renamed(1,2,5) [OF zero] renamed(4) [OF zero, of x]
      by (simp add: rg1 untouched_def moved_version)
  next
    case False
    then have "rg1 = rg" using moved by simp
    then show ?thesis using False by (simp add: keeps_def untouched_def)
  qed
  have free: "\<not> list_ex (\<lambda>u. tn_slug u \<noteq> tn_slug t \<and> tn_schema_name u = ?new) (reg_tenants rg1)"
    and two: "reg_tenants rg' = renamed_to (tn_slug t) ?new (reg_tenants rg1)" "rg_versions rg' = rg_versions rg1"
      "reg_schemas rg' = reg_schemas rg1" "dd_content (rg_db rg') = dd_content (rg_db rg1)"
      "demo_marker (reg_auth rg') = demo_marker (reg_auth rg1)"
    using name by (auto simp: set_schema_name_def set_tenants_def on_auth_def renamed_to_def split: if_splits)
  have "registry_rows rg'"
    by (rule renamed_rows [OF rows]) (use free two(1) one in simp_all)
  moreover have "keeps rg was rg' ?new" "x \<noteq> ?new \<Longrightarrow> x \<noteq> was \<Longrightarrow> x \<noteq> tn_schema_name t \<Longrightarrow> untouched rg x rg'"
    using one keeps_eq [OF two(3,4), of rg was ?new] unfolding untouched_def two(2,3,4) by blast+
  ultimately show ?thesis
    using False legacy_safe(1) [where sha = sha and slug = "tn_slug t", OF bytes] two(1,5) one unfolding schema by simp
qed

lemma repaired:
  fixes sha :: "string \<Rightarrow> bytes"
  assumes rows: "registry_rows rg" and t: "t \<in> set (reg_tenants rg)" and bytes: "byte_list (sha (tn_slug t))"
    and run: "repair_tenant sha t rg = Inr (schema, rg')"
  defines "was \<equiv> storedPostgresIdentifier (tn_schema_name t)"
  shows "schema = (if safe_schema (tn_schema_name t) then tn_schema_name t else legacyTenantSchemaName sha (tn_slug t))"
    and "safe_schema schema" and "reg_tenants rg' = renamed_to (tn_slug t) schema (reg_tenants rg)" and "registry_rows rg'"
    and "keeps rg was rg' schema" and "demo_marker (reg_auth rg') = demo_marker (reg_auth rg)"
    and "x \<noteq> schema \<Longrightarrow> x \<noteq> was \<Longrightarrow> x \<noteq> tn_schema_name t \<Longrightarrow> untouched rg x rg'"
  using repaired_all [OF rows t bytes run] unfolding was_def by blast+

text \<open>The tenants still to start, and the schemas of the others out of the way of their repair.\<close>

abbreviation held_name :: "tenant \<Rightarrow> string" where
  "held_name t \<equiv> storedPostgresIdentifier (tn_schema_name t)"

definition start_ok :: "tenant list \<Rightarrow> registry \<Rightarrow> bool" where
  "start_ok ts rg \<longleftrightarrow>
     registry_rows rg \<and> set ts \<subseteq> set (reg_tenants rg) \<and> distinct (map held_name ts)
     \<and> (\<forall>x \<in> set (reg_tenants rg) - set ts. safe_schema (tn_schema_name x)
          \<and> (\<forall>u \<in> set ts. \<not> safe_schema (tn_schema_name u) \<longrightarrow> tn_schema_name x \<noteq> held_name u))"

lemma in_renamed:
  "x \<in> set (renamed_to slug schema ts)
    \<longleftrightarrow> (\<exists>t \<in> set ts. x = (if tn_slug t = slug then t\<lparr>tn_schema_name := schema\<rparr> else t))"
  unfolding renamed_to_def set_map image_iff by (rule refl)

lemma start_one:
  fixes sha :: "string \<Rightarrow> bytes"
  assumes ok: "start_ok (t # ts) rg" and bytes: "byte_list (sha (tn_slug t))"
    and fix_up: "repair_tenant sha t rg = Inr (schema, rg1)" and run: "createTenantSchema breaks count schema rg1 = Inr rg2"
  shows "reg_tenants rg2 = renamed_to (tn_slug t) schema (reg_tenants rg)" and "registry_rows rg2" and "ready count rg2 schema"
    and "keeps rg (held_name t) rg2 schema" and "u \<in> set ts \<Longrightarrow> held_name u \<noteq> schema"
    and "u \<in> set ts \<Longrightarrow> untouched rg (held_name u) rg2"
    and "x \<in> set (reg_tenants rg) - set (t # ts) \<Longrightarrow> untouched rg (tn_schema_name x) rg2"
proof -
  have rows: "registry_rows rg" and t: "t \<in> set (reg_tenants rg)" and d: "distinct (map held_name (t # ts))"
    and sub: "set ts \<subseteq> set (reg_tenants rg)" using ok by (simp_all add: start_ok_def)
  note one = repaired [where sha = sha, OF rows t bytes fix_up]
  note two = provisioned [OF run one(2)]
  show ts2: "reg_tenants rg2 = renamed_to (tn_slug t) schema (reg_tenants rg)" by (simp only: two(1) one(3))
  show rows2: "registry_rows rg2" using one(4) by (simp add: registry_rows_def two(1))
  show "ready count rg2 schema" by (rule two(2))
  show "keeps rg (held_name t) rg2 schema" using one(5) two(4) by (rule keeps_trans)
  have frame: "untouched rg n rg2" if "n \<noteq> schema" "n \<noteq> held_name t" "n \<noteq> tn_schema_name t" for n
    using one(7) [OF that] two(3) [OF that(1)] by (rule untouched_trans)
  have t2: "t\<lparr>tn_schema_name := schema\<rparr> \<in> set (reg_tenants rg2)"
    unfolding ts2 in_renamed by (rule bexI [OF _ t]) simp
  have stays: "x \<in> set (reg_tenants rg2) \<and> tn_schema_name x \<noteq> schema" if x: "x \<in> set (reg_tenants rg)" "x \<noteq> t" for x
  proof -
    have "tn_slug x \<noteq> tn_slug t" using rows_unique(1) [OF rows x(1) t] x(2) by simp
    moreover from this have in2: "x \<in> set (reg_tenants rg2)" unfolding ts2 in_renamed by (intro bexI [OF _ x(1)]) simp
    ultimately show ?thesis using rows_unique(2) [OF rows2 in2 t2] by auto
  qed
  have other: "u \<in> set (reg_tenants rg) \<and> u \<noteq> t \<and> held_name u \<noteq> held_name t" if "u \<in> set ts" for u
  proof -
    have "held_name u \<noteq> held_name t" using imageI [OF that, of held_name] d by (simp, metis)
    with that sub show ?thesis by blast
  qed
  have off: "held_name u \<noteq> schema" if u: "u \<in> set ts" for u
  proof (cases "safe_schema (tn_schema_name t)")
    case True
    then show ?thesis using other [OF u] one(1) stored_safe [OF True] by simp
  next
    case False
    show ?thesis
    proof (cases "safe_schema (tn_schema_name u)")
      case True
      then show ?thesis using stays [of u] other [OF u] stored_safe [OF True] by simp
    next
      case unsafe: False
      show ?thesis using unsafe_stored [OF unsafe one(2)] one(1) False
          legacy_safe(2) [where sha = sha and slug = "tn_slug t", OF bytes] by simp
    qed
  qed
  show "held_name u \<noteq> schema" if "u \<in> set ts" using off [OF that] .
  show "untouched rg (held_name u) rg2" if u: "u \<in> set ts"
    using other [OF u] stored_idem [of "tn_schema_name u"] by (intro frame off u) metis+
  show "untouched rg (tn_schema_name x) rg2" if x: "x \<in> set (reg_tenants rg) - set (t # ts)"
  proof -
    have n: "tn_schema_name x \<noteq> tn_schema_name t" using rows_unique(2) [OF rows _ t] x by auto
    have "tn_schema_name x \<noteq> held_name t"
      using ok x n stored_safe [of "tn_schema_name t"] by (cases "safe_schema (tn_schema_name t)") (auto simp: start_ok_def)
    with n show ?thesis using stays [of x] x by (intro frame) auto
  qed
qed

lemma start_next:
  fixes sha :: "string \<Rightarrow> bytes"
  assumes ok: "start_ok (t # ts) rg" and bytes: "byte_list (sha (tn_slug t))"
    and fix_up: "repair_tenant sha t rg = Inr (schema, rg1)" and run: "createTenantSchema breaks count schema rg1 = Inr rg2"
  shows "start_ok ts rg2"
proof -
  note one = start_one [where sha = sha, OF ok bytes fix_up run]
  have rows: "registry_rows rg" and t: "t \<in> set (reg_tenants rg)" and d: "distinct (map held_name (t # ts))"
    and sub: "set ts \<subseteq> set (reg_tenants rg)" using ok by (simp_all add: start_ok_def)
  have "u \<in> set (reg_tenants rg2)" if "u \<in> set ts" for u
  proof -
    have "tn_slug u \<noteq> tn_slug t" using rows_unique(1) [OF rows _ t, of u] that d sub by auto
    then show ?thesis unfolding one(1) in_renamed by (intro bexI [of _ u]) (use that sub in auto)
  qed
  moreover have "safe_schema (tn_schema_name x) \<and> (\<forall>u \<in> set ts. \<not> safe_schema (tn_schema_name u) \<longrightarrow> tn_schema_name x \<noteq> held_name u)"
    if x: "x \<in> set (reg_tenants rg2)" "x \<notin> set ts" for x
  proof -
    obtain y where y: "y \<in> set (reg_tenants rg)" "x = (if tn_slug y = tn_slug t then y\<lparr>tn_schema_name := schema\<rparr> else y)"
      using x(1) unfolding one(1) in_renamed by blast
    show ?thesis
    proof (cases "tn_slug y = tn_slug t")
      case True
      then have "tn_schema_name x = schema" by (simp add: y(2))
      moreover have "\<forall>u \<in> set ts. schema \<noteq> held_name u" using one(5) by metis
      ultimately show ?thesis using one(3) by (simp add: ready_def)
    next
      case False
      then have "x = y" "x \<notin> set (t # ts)" using y(2) x(2) by auto
      with y(1) ok show ?thesis by (simp add: start_ok_def)
    qed
  qed
  ultimately show ?thesis using one(2) d by (auto simp: start_ok_def)
qed

text \<open>Every tenant of the list is started with the data it had; the others are left alone.\<close>

definition started :: "nat \<Rightarrow> registry \<Rightarrow> registry \<Rightarrow> tenant \<Rightarrow> bool" where
  "started count rg rg' t \<longleftrightarrow>
     list_ex (\<lambda>x. tn_schema_name_update (\<lambda>_. []) x = tn_schema_name_update (\<lambda>_. []) t \<and> ready count rg' (tn_schema_name x)
                  \<and> keeps rg (held_name t) rg' (tn_schema_name x)) (reg_tenants rg')"

lemma start_all:
  assumes "start_ok ts rg" and bytes: "\<And>s. byte_list (sha s)" and "start_tenants sha breaks count ts rg = Inr rg'"
  shows "registry_rows rg' \<and> map tn_slug (reg_tenants rg') = map tn_slug (reg_tenants rg)
    \<and> (\<forall>u \<in> set ts. started count rg rg' u)
    \<and> (\<forall>x \<in> set (reg_tenants rg) - set ts. x \<in> set (reg_tenants rg') \<and> untouched rg (tn_schema_name x) rg')"
  using assms(1,3)
proof (induction ts arbitrary: rg)
  case Nil
  then show ?case by (simp add: start_ok_def untouched_def)
next
  case (Cons t ts)
  obtain schema rg1 rg2 where fix_up: "repair_tenant sha t rg = Inr (schema, rg1)"
      and run: "createTenantSchema breaks count schema rg1 = Inr rg2" and rest: "start_tenants sha breaks count ts rg2 = Inr rg'"
    using Cons.prems(2) by (auto simp: bind_result_eq_Inr)
  note one = start_one [where sha = sha, OF Cons.prems(1) bytes fix_up run]
  have ok2: "start_ok ts rg2" by (rule start_next [where sha = sha, OF Cons.prems(1) bytes fix_up run])
  note IH = Cons.IH [OF ok2 rest]
  have rows: "registry_rows rg" and t: "t \<in> set (reg_tenants rg)" and d: "distinct (map held_name (t # ts))"
    and sub: "set ts \<subseteq> set (reg_tenants rg)" using Cons.prems(1) by (simp_all add: start_ok_def)
  let ?t = "t\<lparr>tn_schema_name := schema\<rparr>"
  have t2: "?t \<in> set (reg_tenants rg2)" unfolding one(1) in_renamed by (rule bexI [OF _ t]) simp
  have "?t \<notin> set ts"
  proof
    assume "?t \<in> set ts"
    then have "?t \<in> set (reg_tenants rg)" using sub by blast
    from rows_unique(1) [OF rows this t] have "?t = t" by simp
    with \<open>?t \<in> set ts\<close> d show False by auto
  qed
  with t2 have "?t \<in> set (reg_tenants rg2) - set ts" by blast
  with IH have "?t \<in> set (reg_tenants rg') \<and> untouched rg2 (tn_schema_name ?t) rg'" by blast
  then have t': "?t \<in> set (reg_tenants rg')" "untouched rg2 schema rg'" by simp_all
  have "started count rg rg' t"
    unfolding started_def list_ex_iff
    using t'(1) ready_untouched [OF one(3) t'(2)] keeps_trans [OF one(4) untouched_keeps [OF t'(2)]]
    by (intro bexI [of _ ?t]) simp_all
  moreover have "started count rg rg' u" if u: "u \<in> set ts" for u
    using IH u keeps_trans [OF untouched_keeps [OF one(6) [OF u]]] unfolding started_def list_ex_iff by blast
  moreover have "x \<in> set (reg_tenants rg') \<and> untouched rg (tn_schema_name x) rg'" if x: "x \<in> set (reg_tenants rg) - set (t # ts)" for x
  proof -
    have "tn_slug x \<noteq> tn_slug t" using rows_unique(1) [OF rows _ t, of x] x by auto
    then have "x \<in> set (reg_tenants rg2)" unfolding one(1) in_renamed by (intro bexI [of _ x]) (use x in auto)
    then have "x \<in> set (reg_tenants rg') \<and> untouched rg2 (tn_schema_name x) rg'" using IH x by simp
    with untouched_trans [OF one(7) [OF x]] show ?thesis by blast
  qed
  moreover have "map tn_slug (reg_tenants rg2) = map tn_slug (reg_tenants rg)" unfolding one(1) renamed_to_def by simp
  ultimately show ?case using IH by auto
qed

lemma owners_distinct:
  assumes "check_owners owners ts = Inr ()" and "\<And>t. t \<in> set ts \<Longrightarrow> tn_slug t \<noteq> []" and "\<And>n. map_of owners n \<noteq> Some []"
  shows "distinct (map held_name ts) \<and> (\<forall>t \<in> set ts. map_of owners (held_name t) = None)"
  using assms
proof (induction ts arbitrary: owners)
  case (Cons t ts)
  let ?more = "AList.update (held_name t) (tn_slug t) owners"
  have "\<not> truthy_str (map_of owners (held_name t))" and rest: "check_owners ?more ts = Inr ()"
    using Cons.prems(1) by (simp_all add: Let_def split: if_splits)
  then have free: "map_of owners (held_name t) = None" using Cons.prems(3) [of "held_name t"]
    by (cases "map_of owners (held_name t)") auto
  have later: "distinct (map held_name ts) \<and> (\<forall>u \<in> set ts. map_of ?more (held_name u) = None)"
    by (rule Cons.IH [OF rest]) (use Cons.prems(2,3) in \<open>simp_all add: get_set\<close>)
  then have "\<forall>u \<in> set ts. held_name u \<noteq> held_name t \<and> map_of owners (held_name u) = None"
    by (simp add: get_set split: if_splits) blast
  with later free show ?case by (simp, metis imageE)
qed simp

text \<open>What the tables and the earlier versions of the server guarantee before a start.\<close>

definition registry_base :: "registry \<Rightarrow> bool" where
  "registry_base rg \<longleftrightarrow>
     registry_rows rg \<and> map_has (reg_schemas rg) ''public''
     \<and> list_all (\<lambda>t. tn_slug t \<noteq> [] \<and> (tn_slug t = ''default'' \<longrightarrow> tn_schema_name t = ''public'')) (reg_tenants rg)"

definition registry_ok :: "nat \<Rightarrow> registry \<Rightarrow> bool" where
  "registry_ok count rg \<longleftrightarrow>
     registry_base rg \<and> list_all (\<lambda>t. ready count rg (tn_schema_name t)) (reg_tenants rg)
     \<and> list_ex (\<lambda>t. tn_slug t = ''default'') (reg_tenants rg)"

lemma safe_public: "safe_schema ''public''"
  by code_simp

lemma set_other: "set (other_tenants rg) = {t \<in> set (reg_tenants rg). tn_slug t \<noteq> ''default''}"
  by (auto simp: other_tenants_def listTenants_def)

lemma inserted:
  assumes "insert_tenant t rg = Inr rg'" and "registry_rows rg"
  shows "reg_tenants rg' = reg_tenants rg @ [t]" and "registry_rows rg'" and "untouched rg x rg'"
    and "t' \<in> set (reg_tenants rg) \<Longrightarrow> tn_schema_name t' \<noteq> tn_schema_name t"
proof -
  have fresh: "\<And>u. u \<in> set (reg_tenants rg) \<Longrightarrow> tn_id u \<noteq> tn_id t \<and> tn_slug u \<noteq> tn_slug t \<and> tn_schema_name u \<noteq> tn_schema_name t"
    and rg': "rg' = set_tenants (\<lambda>ts. ts @ [t]) rg"
    using assms(1) unfolding insert_tenant_def list_ex_iff by (metis Inl_Inr_False, metis Inl_Inr_False Inr_inject)
  show ts: "reg_tenants rg' = reg_tenants rg @ [t]" and "untouched rg x rg'"
    by (simp_all add: rg' set_tenants_def on_auth_def untouched_def)
  show "registry_rows rg'"
  proof -
    have "tn_id t \<notin> tn_id ` set (reg_tenants rg)" "tn_slug t \<notin> tn_slug ` set (reg_tenants rg)"
      "tn_schema_name t \<notin> tn_schema_name ` set (reg_tenants rg)" by (rule notI, erule imageE, use fresh in force)+
    with assms(2) show ?thesis unfolding registry_rows_def ts by simp
  qed
  show "t' \<in> set (reg_tenants rg) \<Longrightarrow> tn_schema_name t' \<noteq> tn_schema_name t" using fresh by simp
qed

lemma defaulted:
  assumes "ensure_default tid now rg = Inr rg'" and "registry_base rg"
  shows "registry_base rg'" and "set (reg_tenants rg) \<subseteq> set (reg_tenants rg')" and "untouched rg x rg'"
    and "list_ex (\<lambda>t. tn_slug t = ''default'') (reg_tenants rg')"
proof -
  have "registry_base rg' \<and> set (reg_tenants rg) \<subseteq> set (reg_tenants rg') \<and> untouched rg x rg'
    \<and> list_ex (\<lambda>t. tn_slug t = ''default'') (reg_tenants rg')"
  proof (cases "list_ex (\<lambda>t. tn_slug t = ''default'') (reg_tenants rg)")
    case True
    then show ?thesis using assms by (simp add: ensure_default_def untouched_def)
  next
    case False
    then obtain t where t: "insert_tenant t rg = Inr rg'" "tn_slug t = ''default''" "tn_schema_name t = ''public''"
      using assms(1) by (simp add: ensure_default_def)
    have "registry_rows rg" using assms(2) by (simp add: registry_base_def)
    note one = inserted [OF t(1) this]
    have "untouched rg ''public'' rg'" by (rule one(3))
    then have "map_has (reg_schemas rg') ''public''" using assms(2) by (simp add: untouched_def registry_base_def)
    then show ?thesis using one assms(2) t(2,3) by (simp add: registry_base_def) blast
  qed
  then show "registry_base rg'" "set (reg_tenants rg) \<subseteq> set (reg_tenants rg')" "untouched rg x rg'"
    "list_ex (\<lambda>t. tn_slug t = ''default'') (reg_tenants rg')" by blast+
qed

lemma base_start_ok:
  assumes "registry_base rg" and "check_owners [] (other_tenants rg) = Inr ()"
  shows "start_ok (other_tenants rg) rg"
proof -
  have rows: "registry_rows rg" using assms(1) by (simp add: registry_base_def)
  have public: "tn_schema_name x = ''public'' \<and> (\<not> safe_schema (tn_schema_name u) \<longrightarrow> ''public'' \<noteq> held_name u)"
    if "x \<in> set (reg_tenants rg)" "tn_slug x = ''default''" for x u
  proof -
    have "length ''public'' \<le> 61" by simp
    with unsafe_stored [OF _ safe_public, of "tn_schema_name u"] that assms(1) show ?thesis
      by (auto simp: registry_base_def list_all_iff)
  qed
  have named: "tn_slug t \<noteq> []" if "t \<in> set (other_tenants rg)" for t
    using assms(1) that by (simp add: set_other registry_base_def list_all_iff)
  show ?thesis
    unfolding start_ok_def
  proof (intro conjI ballI rows)
    show "set (other_tenants rg) \<subseteq> set (reg_tenants rg)" "distinct (map held_name (other_tenants rg))"
      using owners_distinct [OF assms(2) named] by (auto simp: set_other)
    fix x assume "x \<in> set (reg_tenants rg) - set (other_tenants rg)"
    then have x: "x \<in> set (reg_tenants rg)" "tn_slug x = ''default''" by (auto simp: set_other)
    from public [OF x] safe_public show "safe_schema (tn_schema_name x)" by simp
    from public [OF x] show "\<not> safe_schema (tn_schema_name u) \<longrightarrow> tn_schema_name x \<noteq> held_name u" for u by simp
  qed
qed

lemma initialised:
  assumes base: "registry_base rg" and bytes: "\<And>s. byte_list (sha s)"
    and run: "initDb sha breaks globals count tid now rg = Inr rg'"
  shows "registry_ok count rg'" and "t \<in> set (reg_tenants rg) \<Longrightarrow> started count rg rg' t"
proof -
  obtain rg1 rg2 rg3 where one: "applyMigrations breaks globals ''public_global'' rg = Inr rg1"
      and two: "applyMigrations breaks count ''public'' rg1 = Inr rg2" and three: "ensure_default tid now rg2 = Inr rg3"
      and owners: "check_owners [] (other_tenants rg3) = Inr ()"
      and go: "start_tenants sha breaks count (other_tenants rg3) rg3 = Inr rg'"
    using run by (auto simp: initDb_def bind_result_eq_Inr)
  have db: "rg_db rg2 = rg_db rg"
    using applied(1) [OF one] applied(1) [OF two] by (metis registry.select_convs(1) registry.surjective registry.update_convs(2))
  have base2: "registry_base rg2" using base by (simp add: registry_base_def registry_rows_def db)
  note default = defaulted [OF three base2]
  note all = start_all [OF base_start_ok [OF default(1) owners] bytes go]
  have rows: "registry_rows rg3" "registry_rows rg'" using default(1) all by (simp_all add: registry_base_def)
  have keep: "keeps rg x rg3 x" for x
    using untouched_keeps [OF default(3), of x] unfolding keeps_def db .
  obtain d where d: "d \<in> set (reg_tenants rg3)" "tn_slug d = ''default''" using default(4) by (auto simp: list_ex_iff)
  have d_name: "tn_schema_name d = ''public''" using default(1) d by (simp add: registry_base_def list_all_iff)
  have ready3: "ready count rg3 ''public''"
    using applied(2) [OF two] base2 default(3) [of "''public''"] safe_public by (simp add: ready_def untouched_def registry_base_def)
  have d': "d \<in> set (reg_tenants rg')" "ready count rg' ''public''" "untouched rg3 ''public'' rg'"
  proof -
    have "d \<in> set (reg_tenants rg3) - set (other_tenants rg3)" using d by (simp add: set_other)
    then have "d \<in> set (reg_tenants rg') \<and> untouched rg3 (tn_schema_name d) rg'" using all by blast
    then show "d \<in> set (reg_tenants rg')" "untouched rg3 ''public'' rg'" by (simp_all add: d_name)
    with ready3 show "ready count rg' ''public''" by (blast intro: ready_untouched)
  qed
  have is_default: "t = d" if "t \<in> set (reg_tenants rg3)" "tn_slug t = ''default''" for t
    using rows_unique(1) [OF rows(1) that(1) d(1)] that(2) d(2) by simp
  have start3: "started count rg3 rg' t" if t: "t \<in> set (reg_tenants rg3)" for t
  proof (cases "tn_slug t = ''default''")
    case True
    have "keeps rg3 (held_name d) rg' (tn_schema_name d)"
      using untouched_keeps [OF d'(3)] by (simp only: d_name stored_safe [OF safe_public])
    with d'(1,2) d_name show ?thesis unfolding started_def list_ex_iff is_default [OF t True] by (intro bexI [of _ d]) simp_all
  next
    case False
    with t have "t \<in> set (other_tenants rg3)" by (simp add: set_other)
    with all show ?thesis by blast
  qed
  have "ready count rg' (tn_schema_name x)" if x: "x \<in> set (reg_tenants rg')" for x
  proof -
    have "tn_slug x \<in> set (map tn_slug (reg_tenants rg3))" using all x by (metis image_eqI set_map)
    then obtain u where u: "u \<in> set (reg_tenants rg3)" "tn_slug x = tn_slug u" by auto
    from start3 [OF u(1)] obtain y where y: "y \<in> set (reg_tenants rg')" "tn_schema_name_update (\<lambda>_. []) y = tn_schema_name_update (\<lambda>_. []) u"
        "ready count rg' (tn_schema_name y)" by (auto simp: started_def list_ex_iff)
    have "tn_slug y = tn_slug u" using arg_cong [OF y(2), of tn_slug] by simp
    then have "x = y" using rows_unique(1) [OF rows(2) x y(1)] u(2) by simp
    with y(3) show ?thesis by simp
  qed
  moreover have "tn_schema_name x = ''public''" if "x \<in> set (reg_tenants rg')" "tn_slug x = ''default''" for x
    using rows_unique(1) [OF rows(2) that(1) d'(1)] that(2) d(2) d_name by simp
  moreover have "tn_slug x \<noteq> []" if "x \<in> set (reg_tenants rg')" for x
  proof -
    have "tn_slug x \<in> set (map tn_slug (reg_tenants rg3))" using all that by (metis image_eqI set_map)
    then show ?thesis using default(1) by (auto simp: registry_base_def list_all_iff)
  qed
  ultimately show "registry_ok count rg'"
    using rows(2) d'(1,2) d(2) by (auto simp: registry_ok_def registry_base_def list_all_iff list_ex_iff ready_def)
  show "started count rg rg' t" if "t \<in> set (reg_tenants rg)"
  proof -
    have "t \<in> set (reg_tenants rg3)" using that default(2) by (auto simp: db)
    from start3 [OF this] keeps_trans [OF keep] show ?thesis unfolding started_def list_ex_iff by blast
  qed
qed

section \<open>Routes and the demo keep the registry\<close>

datatype registry_event =
    Restart string timestamp
  | TenantCreated string timestamp "string \<Rightarrow> string option"
  | TenantEdited string "string \<Rightarrow> string option"
  | TenantDeleted bool string
  | DemoPrepared string timestamp string "string option" string string
  | DemoCleaned timestamp

text \<open>\<open>enabled\<close> says whether the server offers the demo.\<close>

fun registry_step :: "(string \<Rightarrow> bytes) \<Rightarrow> (string \<Rightarrow> nat \<Rightarrow> bool) \<Rightarrow> nat \<Rightarrow> nat \<Rightarrow> bool \<Rightarrow> registry_event \<Rightarrow> registry \<Rightarrow> registry" where
  "registry_step sha breaks globals count enabled (Restart tid now) rg =
     (case initDb sha breaks globals count tid now rg of Inl _ \<Rightarrow> rg | Inr rg' \<Rightarrow> rg')"
| "registry_step sha breaks globals count enabled (TenantCreated tid now body) rg =
     fst (snd (create_tenant_route sha breaks count tid now body rg))"
| "registry_step sha breaks globals count enabled (TenantEdited tid body) rg = fst (snd (update_tenant_route enabled tid body rg))"
| "registry_step sha breaks globals count enabled (TenantDeleted archived tid) rg =
     fst (snd (delete_tenant_route enabled archived tid rg))"
| "registry_step sha breaks globals count enabled (DemoPrepared tid now lid sk cid html) rg =
     (case prepareDemo sha breaks count tid now lid sk cid html enabled rg of Inl _ \<Rightarrow> rg | Inr (_, rg') \<Rightarrow> rg')"
| "registry_step sha breaks globals count enabled (DemoCleaned now) rg = snd (cleanupDemo now rg)"

lemma ok_at:
  assumes "registry_ok count rg" and "t \<in> set (reg_tenants rg)"
  shows "ready count rg (tn_schema_name t)" and "tn_slug t = ''default'' \<Longrightarrow> tn_schema_name t = ''public''" and "tn_slug t \<noteq> []"
  using assms by (simp_all add: registry_ok_def registry_base_def list_all_iff)

lemma ok_default: "registry_ok count rg \<Longrightarrow> \<exists>d \<in> set (reg_tenants rg). tn_slug d = ''default''"
  by (simp add: registry_ok_def list_ex_iff)

lemma ok_rows: "registry_ok count rg \<Longrightarrow> registry_rows rg"
  by (simp add: registry_ok_def registry_base_def)

lemma ok_more:
  assumes "registry_ok count rg" and "registry_rows rg'"
    and "set (map (\<lambda>t. (tn_slug t, tn_schema_name t)) (reg_tenants rg')) \<subseteq> set (map (\<lambda>t. (tn_slug t, tn_schema_name t)) (reg_tenants rg)) \<union> new"
    and "\<And>t. t \<in> set (reg_tenants rg) \<Longrightarrow> ready count rg (tn_schema_name t) \<Longrightarrow> ready count rg' (tn_schema_name t)"
    and "\<And>slug x. (slug, x) \<in> new \<Longrightarrow> slug \<noteq> [] \<and> slug \<noteq> ''default'' \<and> ready count rg' x"
    and "\<exists>d \<in> set (reg_tenants rg'). tn_slug d = ''default''"
  shows "registry_ok count rg'"
proof -
  obtain d where d: "d \<in> set (reg_tenants rg)" "tn_slug d = ''default''" using ok_default [OF assms(1)] by blast
  then have "tn_schema_name d = ''public''" "ready count rg (tn_schema_name d)" using ok_at [OF assms(1) d(1)] by simp_all
  with assms(4) [OF d(1)] have public: "map_has (reg_schemas rg') ''public''" by (simp add: ready_def)
  have "tn_slug t \<noteq> [] \<and> (tn_slug t = ''default'' \<longrightarrow> tn_schema_name t = ''public'') \<and> ready count rg' (tn_schema_name t)"
    if t: "t \<in> set (reg_tenants rg')" for t
  proof (cases "(tn_slug t, tn_schema_name t) \<in> new")
    case True
    then show ?thesis using assms(5) by blast
  next
    case False
    have "(tn_slug t, tn_schema_name t) \<in> set (map (\<lambda>t. (tn_slug t, tn_schema_name t)) (reg_tenants rg'))" using t by simp
    with assms(3) False obtain u where u: "u \<in> set (reg_tenants rg)" "tn_slug u = tn_slug t" "tn_schema_name u = tn_schema_name t"
      by auto
    from assms(1) u(1) have "tn_slug u \<noteq> [] \<and> (tn_slug u = ''default'' \<longrightarrow> tn_schema_name u = ''public'') \<and> ready count rg (tn_schema_name u)"
      using ok_at [OF assms(1) u(1)] by simp
    with assms(4) [OF u(1)] show ?thesis unfolding u(2,3) by blast
  qed
  with public assms(2,6) show ?thesis by (auto simp: registry_ok_def registry_base_def list_all_iff list_ex_iff)
qed

lemma provision_ok:
  assumes ok: "registry_ok count rg" and bytes: "\<And>s. byte_list (sha s)"
    and run: "provision_tenant sha breaks count tid now name slug l rg = Inr (t, rg')" and slug: "slug \<noteq> ''default''"
  shows "registry_ok count rg'"
proof -
  obtain rg1 where one: "createTenant sha tid now name slug l rg = Inr (t, rg1)"
      and two: "createTenantSchema breaks count (tn_schema_name t) rg1 = Inr rg'"
    using run by (auto simp: provision_tenant_def bind_result_eq_Inr)
  have ins: "insert_tenant t rg = Inr rg1" and schema: "tenantSchemaName sha slug = Some (tn_schema_name t)" and t: "tn_slug t = slug"
    using one by (auto simp: createTenant_def Let_def bind_result_eq_Inr split: option.splits if_splits)
  have "slug \<noteq> []" using schema by (auto simp: tenantSchemaName_def valid_slug_def)
  note rows = ok_rows [OF ok]
  note more = inserted [OF ins rows] and prov = provisioned [OF two name_safe [OF bytes schema]]
  have kept: "ready count rg' (tn_schema_name u)" if "u \<in> set (reg_tenants rg)" "ready count rg (tn_schema_name u)" for u
    using that(2) more(3) prov(3) [OF more(4) [OF that(1)]] by (blast intro: ready_untouched)
  show ?thesis
  proof (rule ok_more [OF ok, where new = "{(slug, tn_schema_name t)}"])
    show "registry_rows rg'" using more(2) by (simp add: registry_rows_def prov(1))
    show "\<exists>d \<in> set (reg_tenants rg'). tn_slug d = ''default''" using ok_default [OF ok] by (auto simp: prov(1) more(1))
  qed (use kept slug t prov(2) \<open>slug \<noteq> []\<close> in \<open>auto simp: prov(1) more(1)\<close>)
qed

lemma ok_fewer:
  assumes "registry_ok count rg" and "registry_rows rg'"
    and "set (map (\<lambda>t. (tn_slug t, tn_schema_name t)) (reg_tenants rg')) \<subseteq> set (map (\<lambda>t. (tn_slug t, tn_schema_name t)) (reg_tenants rg))"
    and "\<And>x. map_has (reg_schemas rg) x \<Longrightarrow> map_has (reg_schemas rg') x" and "rg_versions rg' = rg_versions rg"
    and "\<exists>d \<in> set (reg_tenants rg'). tn_slug d = ''default''"
  shows "registry_ok count rg'"
proof (rule ok_more [OF assms(1,2), where new = "{}"])
  show "ready count rg' (tn_schema_name t)" if "ready count rg (tn_schema_name t)" for t
    using that assms(4) [of "tn_schema_name t"] assms(5) by (simp add: ready_def)
qed (use assms(3,6) in simp_all)

lemma create_route_ok:
  assumes "registry_ok count rg" and "\<And>s. byte_list (sha s)"
  shows "registry_ok count (fst (snd (create_tenant_route sha breaks count tid now body rg)))"
proof -
  let ?slug = "js_lower (js_trim (nullish (body ''slug'') []))"
  have "?slug \<noteq> ''default''" if "getTenantBySlug (reg_auth rg) ?slug = None"
    using that ok_default [OF assms(1)] by (auto simp: getTenantBySlug_def find_None_iff)
  with provision_ok [OF assms] assms(1) show ?thesis
    by (auto simp: create_tenant_route_def Let_def split: option.splits sum.splits)
qed

lemma update_route_ok:
  assumes "registry_ok count rg"
  shows "registry_ok count (fst (snd (update_tenant_route enabled tid body rg)))"
proof -
  have "registry_ok count rg'" if "updateTenant tid name active l rg = Inr rg'" for name active l rg'
  proof -
    let ?f = "\<lambda>t. if tn_id t = tid
             then t\<lparr>tn_name := name, tn_is_active := active, tn_max_kiosks := tl_kiosks l,
                    tn_max_cameras := tl_cameras l, tn_max_users := tl_users l\<rparr> else t"
    have rg': "rg' = set_tenants (map ?f) rg" using that by (simp add: updateTenant_def split: if_splits)
    have ts: "reg_tenants rg' = map ?f (reg_tenants rg)" and same: "reg_schemas rg' = reg_schemas rg" "rg_versions rg' = rg_versions rg"
      by (simp_all add: rg' set_tenants_def on_auth_def)
    have fields: "tn_id (?f t) = tn_id t" "tn_slug (?f t) = tn_slug t" "tn_schema_name (?f t) = tn_schema_name t" for t by simp_all
    show ?thesis
    proof (rule ok_fewer [OF assms])
      show "registry_rows rg'" using ok_rows [OF assms] unfolding registry_rows_def ts map_map o_def fields .
      show "set (map (\<lambda>t. (tn_slug t, tn_schema_name t)) (reg_tenants rg')) \<subseteq> set (map (\<lambda>t. (tn_slug t, tn_schema_name t)) (reg_tenants rg))"
        unfolding ts map_map o_def fields by simp
      show "\<exists>d \<in> set (reg_tenants rg'). tn_slug d = ''default''"
        using ok_default [OF assms] unfolding ts set_map by (simp only: bex_simps(7) fields)
    qed (simp_all add: same)
  qed
  with assms show ?thesis by (auto simp: update_tenant_route_def Let_def split: option.splits sum.splits)
qed

lemma delete_route_ok:
  assumes "registry_ok count rg"
  shows "registry_ok count (fst (snd (delete_tenant_route enabled archived tid rg)))"
proof -
  have "registry_ok count (deleteTenant tid rg)" if "edit_target enabled tid rg = Some t" "tn_slug t \<noteq> ''default''" for t
  proof -
    have t: "t \<in> set (reg_tenants rg)" "tn_id t = tid"
      using that(1) by (auto simp: edit_target_def getTenantById_def find_Some_iff split: option.splits if_splits)
    have ts: "reg_tenants (deleteTenant tid rg) = filter (\<lambda>t. tn_id t \<noteq> tid) (reg_tenants rg)"
      and same: "reg_schemas (deleteTenant tid rg) = reg_schemas rg" "rg_versions (deleteTenant tid rg) = rg_versions rg"
      by (simp_all add: deleteTenant_def set_tenants_def on_auth_def)
    obtain d where d: "d \<in> set (reg_tenants rg)" "tn_slug d = ''default''" using ok_default [OF assms] by blast
    have "tn_id d \<noteq> tid" using rows_unique(3) [OF ok_rows [OF assms] d(1) t(1)] t(2) d(2) that(2) by auto
    show ?thesis
    proof (rule ok_fewer [OF assms])
      show "registry_rows (deleteTenant tid rg)"
        using ok_rows [OF assms] unfolding registry_rows_def ts by (simp add: distinct_map_filter)
      show "\<exists>d \<in> set (reg_tenants (deleteTenant tid rg)). tn_slug d = ''default''"
        using d \<open>tn_id d \<noteq> tid\<close> unfolding ts by auto
    qed (auto simp: same ts)
  qed
  with assms show ?thesis by (auto simp: delete_tenant_route_def split: option.splits)
qed

lemma demo_content_facts:
  assumes "demo_content lid sk cid html schema rg = Inr rg'"
  shows "reg_tenants rg' = reg_tenants rg" and "reg_schemas rg' = reg_schemas rg" and "rg_versions rg' = rg_versions rg"
  using assms by (auto simp: demo_content_def set_content_def Let_def split: sum.splits)

lemma prepare_ok:
  assumes "registry_ok count rg" and "\<And>s. byte_list (sha s)"
    and "prepareDemo sha breaks count tid now lid sk cid html enabled rg = Inr (d, rg')"
  shows "registry_ok count rg'"
proof (cases "enabled \<and> demoTenant (reg_auth rg) = None")
  case True
  obtain t rg1 where one: "provision_tenant sha breaks count tid now ''Demo'' DEMO_SLUG
        \<lparr>tl_kiosks = Some 1000, tl_cameras = None, tl_users = None\<rparr> rg = Inr (t, rg1)"
      and two: "demo_content lid sk cid html (tn_schema_name t) (on_auth (\<lambda>a. a\<lparr>demo_marker := JStr (tn_id t)\<rparr>) rg1) = Inr rg'"
    using assms(3) True by (auto simp: prepareDemo_def bind_result_eq_Inr split: if_splits)
  have "registry_ok count rg1" by (rule provision_ok [OF assms(1,2) one]) (simp add: DEMO_SLUG_def)
  moreover have "reg_tenants rg' = reg_tenants rg1" "reg_schemas rg' = reg_schemas rg1" "rg_versions rg' = rg_versions rg1"
    using demo_content_facts [OF two] by (simp_all add: on_auth_def)
  ultimately show ?thesis by (simp add: registry_ok_def registry_base_def registry_rows_def ready_def)
next
  case False
  then show ?thesis using assms(1,3) by (auto simp: prepareDemo_def split: option.splits if_splits)
qed

lemma cleanup_ok:
  assumes "registry_ok count rg"
  shows "registry_ok count (snd (cleanupDemo now rg))"
proof (cases "demoTenant (reg_auth rg)")
  case (Some t)
  have has: "map_has (auth_schemas (dd_auth db)) x
      \<Longrightarrow> map_has (auth_schemas (dd_auth (fold (\<lambda>k. deleteKiosk schema (k_id k)) rows db))) x" for rows db schema x
    by (induction rows arbitrary: db) (simp_all add: deleteKiosk_def Let_def put_tables_def get_set)
  show ?thesis
  proof (rule ok_fewer [OF assms])
    have ts: "reg_tenants (snd (cleanupDemo now rg)) = reg_tenants rg"
      by (simp add: cleanupDemo_def Some Let_def deletions(2))
    show "registry_rows (snd (cleanupDemo now rg))" "\<exists>d \<in> set (reg_tenants (snd (cleanupDemo now rg))). tn_slug d = ''default''"
      "set (map (\<lambda>t. (tn_slug t, tn_schema_name t)) (reg_tenants (snd (cleanupDemo now rg))))
        \<subseteq> set (map (\<lambda>t. (tn_slug t, tn_schema_name t)) (reg_tenants rg))"
      using ok_rows [OF assms] ok_default [OF assms] by (simp_all add: registry_rows_def ts)
    show "map_has (reg_schemas rg) x \<Longrightarrow> map_has (reg_schemas (snd (cleanupDemo now rg))) x" for x
      using has by (simp add: cleanupDemo_def Some Let_def)
    show "rg_versions (snd (cleanupDemo now rg)) = rg_versions rg" by (simp add: cleanupDemo_def Some Let_def)
  qed
qed (use assms in \<open>simp add: cleanupDemo_def\<close>)

interpretation registry: guarded_system "registry_step sha breaks globals count enabled"
  "\<lambda>_ _. \<forall>s. byte_list (sha s)" "registry_ok count"
proof
  fix rg e assume ok: "registry_ok count rg" and "\<forall>s. byte_list (sha s)"
  then have bytes: "\<And>s. byte_list (sha s)" by simp
  show "registry_ok count (registry_step sha breaks globals count enabled e rg)"
  proof (cases e)
    case (Restart tid now)
    have "registry_base rg" using ok by (simp add: registry_ok_def)
    with Restart ok initialised(1) [where sha = sha] bytes show ?thesis by (simp split: sum.splits)
  next
    case (DemoPrepared tid now lid sk cid html)
    with prepare_ok [where sha = sha, OF ok bytes] ok show ?thesis by (simp split: sum.splits)
  qed (simp_all add: create_route_ok [where sha = sha, OF ok bytes] update_route_ok [OF ok] delete_route_ok [OF ok] cleanup_ok [OF ok])
qed

text \<open>
  (C14) After a successful start every registered tenant has a safe schema of its own that exists and
  has every migration, and the default tenant is registered; restarts, the tenant routes and the
  demo keep that, whether they succeed or fail.
\<close>

lemma tenant_registry_sound:
  fixes sha :: "string \<Rightarrow> bytes"
  assumes "registry_base rg" and bytes: "\<And>s. byte_list (sha s)"
    and "initDb sha breaks globals count tid now rg = Inr rg'"
  shows "registry_ok count (fold (registry_step sha breaks globals count enabled) es rg')"
proof -
  have all: "\<forall>s. byte_list (sha s)" using bytes by blast
  have "guarded_system.guarded (registry_step sha breaks globals count enabled) (\<lambda>_ _. \<forall>s. byte_list (sha s)) es s" for s
  proof (induction es arbitrary: s)
    case (Cons e es)
    show ?case unfolding registry.guarded.simps by (intro conjI all Cons)
  qed (rule registry.guarded.simps(1) [THEN iffD2, OF TrueI])
  then show ?thesis by (rule registry.run_keeps [OF initialised(1) [where sha = sha, OF assms]])
qed


text \<open>
  (C27) At most a hundred kiosks of the demo leave per run; enough runs leave exactly the kiosks of
  the demo that have not expired, and the kiosks of every other tenant.
\<close>

lemma demo_cleanup_drains:
  fixes now :: timestamp
  assumes "demoTenant (reg_auth rg) = Some t" and "distinct (map k_id (tenant_kiosks rg (tn_schema_name t)))"
    and "length (filter (demo_expired now) (tenant_kiosks rg (tn_schema_name t))) \<le> 100 * n"
  defines "final \<equiv> ((\<lambda>r. snd (cleanupDemo now r)) ^^ n) rg"
  shows "fst (cleanupDemo now rg) = min 100 (length (filter (demo_expired now) (tenant_kiosks rg (tn_schema_name t))))
    \<and> tenant_kiosks final s
      = (if visible_schema (reg_auth rg) s = visible_schema (reg_auth rg) (tn_schema_name t)
         then filter (\<lambda>k. \<not> demo_expired now k) (tenant_kiosks rg s) else tenant_kiosks rg s)
    \<and> fst (cleanupDemo now final) = 0"
  using cleanup_rounds [OF assms(1-3)] cleanup_step(4) [OF assms(1)] batch_removes(3) [OF assms(2)] by (simp add: final_def)

section \<open>Concrete registries\<close>

definition demo_sha :: "string \<Rightarrow> bytes" where
  "demo_sha s = replicate 32 7"

definition shop_tenant :: tenant where
  "shop_tenant = default_tenant_row\<lparr>tn_id := ''t2'', tn_name := ''Shop'', tn_slug := ''old-shop'', tn_schema_name := ''Old-Shop'', tn_created_at := 5\<rparr>"

text \<open>A tenant of an older version, with a schema name that needs the repair.\<close>

definition old_registry :: registry where
  "old_registry = \<lparr>rg_db = \<lparr>dd_auth = demo_auth_db\<lparr>tenants := [default_tenant_row, shop_tenant],
       auth_schemas := [(''public'', empty_tables\<lparr>at_users := [demo_operator\<lparr>u_role := RoleAdmin\<rparr>]\<rparr>),
                        (''Old-Shop'', empty_tables\<lparr>at_kiosks := [sample_kiosk\<lparr>k_id := ''k1''\<rparr>]\<rparr>)]\<rparr>,
       dd_content = (\<lambda>_. empty_content), dd_deleted = []\<rparr>,
     rg_versions = [(''Old-Shop'', 1)], rg_extras = []\<rparr>"

lemma demo_bytes: "byte_list (demo_sha s)"
  by (simp add: demo_sha_def)

lemma old_base: "registry_base old_registry"
  by (simp add: registry_base_def registry_rows_def old_registry_def shop_tenant_def default_tenant_row_def)

lemma old_starts: "\<exists>rg'. initDb demo_sha (\<lambda>_ _. False) 1 2 ''t9'' 9 old_registry = Inr rg'"
proof -
  have "\<not> Option.is_none (case initDb demo_sha (\<lambda>_ _. False) 1 2 ''t9'' 9 old_registry of Inl _ \<Rightarrow> None | Inr r \<Rightarrow> Some ())"
    by code_simp
  then show ?thesis by (simp split: sum.splits)
qed

theorem tenant_registry_sound_witness:
  "\<exists>rg'. initDb demo_sha (\<lambda>_ _. False) 1 2 ''t9'' 9 old_registry = Inr rg'
     \<and> registry_ok 2 (fold (registry_step demo_sha (\<lambda>_ _. False) 1 2 False) [TenantDeleted True ''t2'', Restart ''t9'' 10] rg')"
proof -
  obtain rg' where run: "initDb demo_sha (\<lambda>_ _. False) 1 2 ''t9'' 9 old_registry = Inr rg'" using old_starts by blast
  from tenant_registry_sound [where sha = demo_sha, OF old_base demo_bytes run] run show ?thesis by blast
qed


definition demo_registry :: registry where
  "demo_registry = old_registry\<lparr>rg_db := (rg_db old_registry)\<lparr>dd_auth := (reg_auth old_registry)\<lparr>
     tenants := [default_tenant_row, shop_tenant\<lparr>tn_slug := DEMO_SLUG, tn_schema_name := ''tenant_demo''\<rparr>],
     demo_marker := JStr ''t2'',
     auth_schemas := [(''public'', empty_tables\<lparr>at_kiosks := [sample_kiosk\<lparr>k_id := ''k1'', k_paired_at := Some 0\<rparr>]\<rparr>),
       (''tenant_demo'', empty_tables\<lparr>at_kiosks := [sample_kiosk\<lparr>k_id := ''k1'', k_paired_at := Some 0\<rparr>, sample_kiosk\<lparr>k_id := ''k2'', k_paired_at := Some 99000000\<rparr>]\<rparr>)]\<rparr>\<rparr>\<rparr>"

theorem demo_cleanup_drains_witness:
  "map k_id (tenant_kiosks (snd (cleanupDemo 99000000 demo_registry)) ''tenant_demo'') = [''k2'']
    \<and> map k_id (tenant_kiosks (snd (cleanupDemo 99000000 demo_registry)) ''public'') = [''k1'']"
proof -
  let ?t = "shop_tenant\<lparr>tn_slug := DEMO_SLUG, tn_schema_name := ''tenant_demo''\<rparr>"
  have t: "demoTenant (reg_auth demo_registry) = Some ?t"
    by (simp add: demoTenant_def getTenantById_def demo_registry_def default_tenant_row_def shop_tenant_def)
  have s: "tn_schema_name ?t = ''tenant_demo''" by simp
  have v: "visible_schema (reg_auth demo_registry) ''tenant_demo'' = ''tenant_demo''"
    "visible_schema (reg_auth demo_registry) ''public'' = ''public''" by (simp_all add: visible_schema_def demo_registry_def)
  have ks: "map k_id (tenant_kiosks demo_registry ''tenant_demo'') = [''k1'', ''k2'']"
    "map k_id (filter (demo_expired 99000000) (tenant_kiosks demo_registry ''tenant_demo'')) = [''k1'']"
    "map k_id (filter (\<lambda>k. \<not> demo_expired 99000000 k) (tenant_kiosks demo_registry ''tenant_demo'')) = [''k2'']"
    "map k_id (tenant_kiosks demo_registry ''public'') = [''k1'']"
    by code_simp+
  have d: "distinct (map k_id (tenant_kiosks demo_registry (tn_schema_name ?t)))" unfolding s ks by simp
  have l: "length (filter (demo_expired 99000000) (tenant_kiosks demo_registry (tn_schema_name ?t))) \<le> 100 * 1"
    unfolding s using arg_cong [OF ks(2), of length] by simp
  note drained = demo_cleanup_drains [OF t d l]
  show ?thesis using drained [of "''tenant_demo''"] drained [of "''public''"] unfolding s v
    using ks(3,4) by simp
qed

end
