(* ===== verification/Spec2Isabelle.thy ===== *)
theory Spec2Isabelle
  imports BF_RateLimit BF_Schedule BF_Cleanup BF_PowerDispatch BF_Pairing BF_Bundle BF_Gate
    BF_LayoutEditor BF_IoBox BF_Events BF_Heartbeat BF_DeviceGate BF_Logs BF_Tenants
begin

text \<open>
  \<^bold>\<open>The BetterFrame server.\<close>

  BetterFrame drives wall displays: kiosks (Linux boxes, Android viewers) show layouts of cameras,
  web pages and dashboards, ioBOXes turn electrical inputs into events, and one server per site
  administers them for several tenants.  The server, \<^verbatim>\<open>src/server/src\<close>, is a TypeScript program of
  three services over one PostgreSQL repository: \<^verbatim>\<open>plugins/service-admin-http\<close> (people, pages and
  forms), \<^verbatim>\<open>plugins/service-api-http\<close> (devices) and \<^verbatim>\<open>plugins/service-coordinator-ws\<close> (the sockets
  on which commands go to the kiosks).  \<^verbatim>\<open>shared/\<close> holds what they have in common.  This library
  models the logic of the three services and proves what makes it correct.

  \<^bold>\<open>How the parts interact.\<close>  A device is paired (\<open>BF_Pairing\<close>, \<open>BF_IoBox\<close>) and from then on
  proves itself by its key at the gate of the device API (\<open>BF_DeviceGate\<close>, with the keys of
  \<open>BF_Auth\<close>).  It fetches its bundle (\<open>BF_Bundle\<close>, made of the rows of \<open>BF_Layouts\<close>), reports in
  heartbeats (\<open>BF_Heartbeat\<close>, which orders power reports by \<open>BF_Power\<close>), sends events
  (\<open>BF_Events\<close>) and logs (\<open>BF_Logs\<close>), and asks for firmware and system images (\<open>BF_Releases\<close> over
  \<open>BF_Version\<close>, inside the windows of \<open>BF_Schedule\<close>; \<open>BF_Cleanup\<close> removes old files).  People pass
  the gate of the admin service (\<open>BF_Gate\<close>, with \<open>BF_RateLimit\<close> and \<open>BF_Secrets\<close>), edit layouts
  (\<open>BF_LayoutEditor\<close>) and send commands, which the coordinator delivers (\<open>BF_Coordinator\<close>,
  \<open>BF_PowerDispatch\<close>).  The tables of all of them belong to the tenants of the registry
  (\<open>BF_Tenants\<close>).

  \<^bold>\<open>Conventions.\<close>  Definitions keep the names of the code.  A finite JavaScript number is a rational,
  a string a list of characters below 256 on which the string operations of the model agree with
  the language; \<^verbatim>\<open>undefined\<close> and \<^verbatim>\<open>null\<close> are \<open>None\<close> where the code does not tell them apart and
  constructors of \<open>json\<close> where it does; a \<^verbatim>\<open>Map\<close> is an association list in insertion order.  A call
  that throws is \<open>Inl\<close> of an error, an HTTP answer a value.  The clock, random bytes, generated
  identifiers and the order of callbacks are arguments.  A table is a list of rows in insertion
  order; a statement that the database runs is a function on it with the constraints of
  \<^verbatim>\<open>db/migrations-pg.ts\<close> the statement can violate, and an \<^verbatim>\<open>ORDER BY\<close> on text sorts by a collation
  key \<open>ck\<close>.  Schemas of tenants are reached through a search path that falls back to \<^verbatim>\<open>public\<close>
  (\<open>visible_schema\<close>).  Records whose fields are functions (\<open>auth_lib\<close>, \<open>io_lib\<close>, \<open>event_lib\<close>,
  \<open>heartbeat_lib\<close>, \<open>bundle_env\<close>, \<open>device_env\<close>, \<open>log_lib\<close>) stand for code outside the repository:
  password and message hashes, ciphers, the URL parser, body schemas, printing of numbers and
  times, answers of other programs.  What a property relies on of them is a premise of it
  (\<open>cipher_ok\<close>, \<open>printed_back\<close>), and its witness discharges the premise for a concrete function.
\<close>

section \<open>The theories\<close>

text \<open>
  \<^bold>\<open>\<open>BF_Prelude\<close>\<close>: numbers, strings, maps, JSON, results, and the locale \<open>guarded_system\<close> (an
  invariant kept by guarded steps is kept by runs), which the histories of content, editor and
  events instantiate.  \<^bold>\<open>\<open>BF_Types\<close>, \<open>BF_Samples\<close>\<close>: the rows of \<^verbatim>\<open>shared/types.ts\<close>, field by field,
  and plain rows for the witnesses.

  \<^bold>\<open>\<open>BF_RateLimit\<close>\<close> (\<^verbatim>\<open>rate-limit.ts\<close>): the sliding windows with their storage limits.  The locale
  \<open>sliding_window\<close> states the contract over call sequences; the limiter interprets it, and the
  login and pairing guards of other theories use its facts.  Shown: no key exceeds its limit in
  any window, the storage bounds and the exact count of entries.

  \<^bold>\<open>\<open>BF_Version\<close>, \<open>BF_Schedule\<close>, \<open>BF_Releases\<close>, \<open>BF_Cleanup\<close>\<close> (\<^verbatim>\<open>version.ts\<close>, \<^verbatim>\<open>kiosk-channels.ts\<close>,
  \<^verbatim>\<open>firmware-targets.ts\<close>, \<^verbatim>\<open>os-update-status.ts\<close>, \<^verbatim>\<open>update-schedule.ts\<close>, \<^verbatim>\<open>firmware.ts\<close>,
  \<^verbatim>\<open>windows-updates.ts\<close>, \<^verbatim>\<open>public-update-selection.ts\<close>, \<^verbatim>\<open>artifact-cleanup.ts\<close> and the release tables
  of \<^verbatim>\<open>db/repository.ts\<close>): precedence with the IEEE rounding of \<^verbatim>\<open>Number\<close>, update decisions with
  pins, rollouts and channels, and the removal of artifacts.  \<open>release_catalogue\<close> and
  \<open>artifact_store\<close> are interpreted for firmware and for system images.  Shown: versions are
  strictly ordered, an offered update is current, allowed and newer, the weekly windows are the
  intended intervals, the clean-up keeps what is referenced.

  \<^bold>\<open>\<open>BF_Secrets\<close>, \<open>BF_Auth\<close>, \<open>BF_Gate\<close>\<close> (\<^verbatim>\<open>secrets.ts\<close>, \<^verbatim>\<open>auth.ts\<close>, \<^verbatim>\<open>csrf.ts\<close>, \<^verbatim>\<open>middleware.ts\<close>,
  \<^verbatim>\<open>routes-auth.ts\<close>, \<^verbatim>\<open>routes-account.ts\<close>, \<^verbatim>\<open>db/tenant-schema.ts\<close>, \<^verbatim>\<open>db/platform-admin.ts\<close>): sealed
  strings, sessions, keys, lockout, tenants, the gate and the authentication handlers.
  \<open>keyed_store\<close> is the contract of the tables of one schema; logs interpret it too.  Shown: who
  passes the gate, the life of a session as a refinement of a four-state machine, limits on
  guessing, isolation of schemas, sealing across restarts.

  \<^bold>\<open>\<open>BF_Pairing\<close>, \<open>BF_IoBox\<close>\<close> (\<^verbatim>\<open>pairing.ts\<close>, \<^verbatim>\<open>iobox-pairing.ts\<close> and the routes of the device API):
  codes, claims, confirmation, delivery and acknowledgement; ioBOX models, serials, firmware.
  Shown: a pairing is confirmed once and delivered, an ioBOX is enrolled once and its serial
  follows its life cycle, an unfinished pairing can be completed.

  \<^bold>\<open>\<open>BF_Layouts\<close>, \<open>BF_LayoutEditor\<close>, \<open>BF_Bundle\<close>\<close> (layout operations of \<^verbatim>\<open>db/repository.ts\<close>, the
  layout routes of \<^verbatim>\<open>routes-admin.ts\<close>, \<^verbatim>\<open>bundle.ts\<close>, \<^verbatim>\<open>rtsp.ts\<close>, \<^verbatim>\<open>onvif-callback-token.ts\<close>,
  \<^verbatim>\<open>android-viewer.ts\<close>): content and its mirror in cells, the grid editor as a refinement of the
  content operations, and what a kiosk receives.  Shown: cells mirror their entities, the editor
  refines the layout store, a bundle is self-contained, seals its credentials and shows a viewer
  only what is assigned to it.

  \<^bold>\<open>\<open>BF_Power\<close>, \<open>BF_Coordinator\<close>, \<open>BF_PowerDispatch\<close>\<close> (\<^verbatim>\<open>power-state-order.ts\<close>,
  \<^verbatim>\<open>service-coordinator-ws/index.ts\<close>, \<^verbatim>\<open>kiosk-connections.ts\<close>, \<^verbatim>\<open>power-dispatch.ts\<close>): ordering of
  reports, sockets and requests as a step relation over callbacks, a power command as a state
  machine of its continuations.  Shown: requests are settled or pending on a live socket, answers
  reach only their own request, viewers receive only allowed messages, a command is confirmed
  only when it happened and every dispatch ends.

  \<^bold>\<open>\<open>BF_Events\<close>, \<open>BF_Heartbeat\<close>, \<open>BF_DeviceGate\<close>, \<open>BF_Logs\<close>\<close> (the routes of \<^verbatim>\<open>service-api-http/index.ts\<close>,
  \<^verbatim>\<open>display-session.ts\<close>, \<^verbatim>\<open>nodered-bridge.ts\<close>, \<^verbatim>\<open>kiosk-logs.ts\<close>, \<^verbatim>\<open>kiosk-log-view.ts\<close>,
  \<^verbatim>\<open>kiosk-log-retention.ts\<close>, \<^verbatim>\<open>routes-logs.ts\<close>): events with their duplicate caches (locale
  \<open>dedup_cache\<close>), display recognition, the gate of the devices, diagnostic logs.  Shown: the caches
  answer as an unbounded memory would, the recorded layout is the last one reported, a heartbeat
  keeps what is assigned, the device gate admits only enabled kiosks of active tenants with their
  present key, a browser session loads exactly its pages, batches of logs are stored once, and
  the pages of logs show every match once.

  \<^bold>\<open>\<open>BF_Tenants\<close>\<close> (\<^verbatim>\<open>db/init.ts\<close>, \<^verbatim>\<open>db/tenant-schema.ts\<close>, \<^verbatim>\<open>routes-tenants.ts\<close>, \<^verbatim>\<open>demo.ts\<close> and the tenant
  table of \<^verbatim>\<open>db/repository.ts\<close>): the registry over the schemas of the other theories, the start of
  the database with migrations as numbered steps and the repair of old names, the tenant routes
  and the demo tenant.  Shown: a start keeps the data of every tenant, every registered tenant has
  a migrated schema of its own after any sequence of operations, and the clean-up of the demo
  drains its expired kiosks in batches and touches no other tenant.
\<close>

section \<open>Bounds, loops and fuel\<close>

text \<open>
  Every function is total.  Loops over lists are structural recursion.  \<open>clone_name\<close> draws names
  until one is free with fuel one more than the number of layouts, which suffices since the names
  drawn are distinct.  \<open>pick_code\<close> makes the twenty draws of the code and fails after them, as the
  code does.  \<open>resolve_loop\<close> repeats a pass at most \<open>n * n\<close> times for \<open>n\<close> cells, the bound written in
  the code.  \<open>smart_steps\<close> reads at most the fifty steps of a form that the code reads.  The power
  dispatch is a step relation; that it ends is a property.  Integers of the code are far below
  the precision of its numbers except where it parses them (\<open>js_number_of_nat\<close> rounds to the
  nearest double).
\<close>

section \<open>Not modelled\<close>

text \<open>
  Markup (\<^verbatim>\<open>web-templates\<close>, about a third of the lines) and the forms of \<^verbatim>\<open>routes-admin.ts\<close> that only
  copy fields between a form and a row; the protocol clients for ONVIF, AbleSign and cloud
  cameras, probing of cameras and pictures, MQTT and CEC, whose behaviour is that of the other
  side; uploads and downloads of files; the container manager of Node-RED; the statements of migrations
  other than the constraints the operations meet; backup and first-run setup; the enrolment of a
  kiosk in the demo, a capacity check in front of the modelled confirmation; the partition table, the telemetry messages and the start
  of camera subscriptions that a heartbeat triggers.
  \<^verbatim>\<open>withPowerStateLock\<close> and other promise chains appear as the atomicity of the step they protect.
  Kiosk, viewer and ioBOX programs are in other languages and outside this library.
\<close>

end
